(* ===== verification/Prelude.thy ===== *)
theory Prelude
  imports Main "HOL-Library.Char_ord" "HOL-Library.List_Lexorder" "HOL-Library.Sublist"
begin

text \<open>
  Shared ground of the development: the theorem collections, the generic facts about lists and
  options, and the part of the Rust standard library the modelled code uses.

  A Rust \<open>str\<close> is modelled as its UTF-8 bytes (\<open>string\<close>, a list of 8-bit characters), so \<open>len\<close>
  is \<open>length\<close>, \<open>to_ascii_lowercase\<close> works byte by byte and \<open>trim\<close> removes the UTF-8 encodings of
  Unicode white space. Machine integers are \<open>nat\<close> or \<open>int\<close> with their bounds written out; an
  operation that saturates, wraps or fails says so.
\<close>

named_theorems option_defs \<comment> \<open>option combinators of the source, unfolded\<close>
named_theorems str_defs \<comment> \<open>string operations of the source, unfolded\<close>
named_theorems sat_defs \<comment> \<open>saturating and checked arithmetic, unfolded\<close>

section \<open>Machine integers\<close>

abbreviation u8_max :: nat where "u8_max \<equiv> 255"
abbreviation u16_max :: nat where "u16_max \<equiv> 65535"
abbreviation u32_max :: nat where "u32_max \<equiv> 4294967295"
abbreviation u64_max :: nat where "u64_max \<equiv> 18446744073709551615"
abbreviation usize_max :: nat where "usize_max \<equiv> 18446744073709551615"
abbreviation i32_max :: int where "i32_max \<equiv> 2147483647"
abbreviation i32_min :: int where "i32_min \<equiv> - 2147483648"
abbreviation i64_max :: int where "i64_max \<equiv> 9223372036854775807"
abbreviation i64_min :: int where "i64_min \<equiv> - 9223372036854775808"

definition sat_add :: "nat \<Rightarrow> nat \<Rightarrow> nat \<Rightarrow> nat" where
  "sat_add bound a b = min bound (a + b)"

definition sat_mul :: "nat \<Rightarrow> nat \<Rightarrow> nat \<Rightarrow> nat" where
  "sat_mul bound a b = min bound (a * b)"

definition checked_add :: "nat \<Rightarrow> nat \<Rightarrow> nat \<Rightarrow> nat option" where
  "checked_add bound a b = (if a + b \<le> bound then Some (a + b) else None)"

definition checked_mul :: "nat \<Rightarrow> nat \<Rightarrow> nat \<Rightarrow> nat option" where
  "checked_mul bound a b = (if a * b \<le> bound then Some (a * b) else None)"

definition clamp_i64 :: "int \<Rightarrow> int" where
  "clamp_i64 x = max i64_min (min i64_max x)"

definition in_i64 :: "int \<Rightarrow> bool" where
  "in_i64 x \<longleftrightarrow> i64_min \<le> x \<and> x \<le> i64_max"

text \<open>Rust's integer division truncates towards zero.\<close>

definition trunc_div :: "int \<Rightarrow> int \<Rightarrow> int" where
  "trunc_div a b = sgn a * sgn b * (\<bar>a\<bar> div \<bar>b\<bar>)"

text \<open>Wrapping \<open>i64\<close> arithmetic, and \<open>i64::abs\<close> of the release profile.\<close>

definition wrap_i64 :: "int \<Rightarrow> int" where
  "wrap_i64 x = (x - i64_min) mod 2 ^ 64 + i64_min"

definition wrapping_abs :: "int \<Rightarrow> int" where
  "wrapping_abs x = wrap_i64 \<bar>x\<bar>"

lemma wrap_i64_in [simp]: "in_i64 (wrap_i64 x)"
  using pos_mod_bound [of "2 ^ 64" "x - i64_min"] pos_mod_sign [of "2 ^ 64" "x - i64_min"]
  by (simp add: wrap_i64_def in_i64_def)

lemma wrap_i64_id: "in_i64 x \<Longrightarrow> wrap_i64 x = x"
  by (simp add: wrap_i64_def in_i64_def)

lemmas [sat_defs] = sat_add_def sat_mul_def checked_add_def checked_mul_def clamp_i64_def
  in_i64_def

lemma sat_add_le [simp]: "sat_add bound a b \<le> bound"
  by (simp add: sat_add_def)

lemma sat_add_exact: "a + b \<le> bound \<Longrightarrow> sat_add bound a b = a + b"
  by (simp add: sat_add_def)

lemma clamp_i64_in [simp]: "in_i64 (clamp_i64 x)"
  by (auto simp: sat_defs)

lemma clamp_i64_id: "in_i64 x \<Longrightarrow> clamp_i64 x = x"
  by (auto simp: sat_defs)

section \<open>Options\<close>

definition opt_filter :: "('a \<Rightarrow> bool) \<Rightarrow> 'a option \<Rightarrow> 'a option" where
  "opt_filter P x = (case x of Some v \<Rightarrow> if P v then Some v else None | None \<Rightarrow> None)"

definition opt_or :: "'a option \<Rightarrow> 'a option \<Rightarrow> 'a option" where
  "opt_or x y = (case x of Some v \<Rightarrow> Some v | None \<Rightarrow> y)"

definition unwrap_or :: "'a \<Rightarrow> 'a option \<Rightarrow> 'a" where
  "unwrap_or d x = (case x of Some v \<Rightarrow> v | None \<Rightarrow> d)"

definition is_some_and :: "('a \<Rightarrow> bool) \<Rightarrow> 'a option \<Rightarrow> bool" where
  "is_some_and P x = (case x of Some v \<Rightarrow> P v | None \<Rightarrow> False)"

fun find_map :: "('a \<Rightarrow> 'b option) \<Rightarrow> 'a list \<Rightarrow> 'b option" where
  "find_map f [] = None"
| "find_map f (x # xs) = (case f x of Some y \<Rightarrow> Some y | None \<Rightarrow> find_map f xs)"

lemmas [option_defs] = opt_filter_def opt_or_def unwrap_or_def is_some_and_def

lemma opt_simps [simp]:
  "opt_filter P None = None"
  "opt_filter P (Some v) = (if P v then Some v else None)"
  "opt_or None y = y"
  "opt_or (Some v) y = Some v"
  "unwrap_or d None = d"
  "unwrap_or d (Some v) = v"
  "is_some_and P None = False"
  "is_some_and P (Some v) = P v"
  by (simp_all add: option_defs)

lemma opt_filter_SomeD: "opt_filter P x = Some v \<Longrightarrow> x = Some v \<and> P v"
  by (cases x) (auto split: if_splits)

lemma unwrap_or_cases: "P d \<Longrightarrow> (\<And>v. x = Some v \<Longrightarrow> P v) \<Longrightarrow> P (unwrap_or d x)"
  by (cases x) auto

lemma find_SomeD: "find P xs = Some x \<Longrightarrow> x \<in> set xs \<and> P x"
  by (auto simp: find_Some_iff)

lemma find_map_SomeD: "find_map f xs = Some y \<Longrightarrow> \<exists>x \<in> set xs. f x = Some y"
  by (induction xs) (auto split: option.splits)

lemma find_map_None_iff: "find_map f xs = None \<longleftrightarrow> (\<forall>x \<in> set xs. f x = None)"
  by (induction xs) (auto split: option.splits)

section \<open>Bytes and characters\<close>

definition byte :: "char \<Rightarrow> nat" where
  "byte c = of_char c"

definition is_digit :: "char \<Rightarrow> bool" where
  "is_digit c \<longleftrightarrow> 48 \<le> byte c \<and> byte c \<le> 57"

definition is_upper :: "char \<Rightarrow> bool" where
  "is_upper c \<longleftrightarrow> 65 \<le> byte c \<and> byte c \<le> 90"

definition is_lower :: "char \<Rightarrow> bool" where
  "is_lower c \<longleftrightarrow> 97 \<le> byte c \<and> byte c \<le> 122"

definition is_alnum :: "char \<Rightarrow> bool" where
  "is_alnum c \<longleftrightarrow> is_digit c \<or> is_upper c \<or> is_lower c"

definition ascii_lower :: "char \<Rightarrow> char" where
  "ascii_lower c = (if is_upper c then char_of (byte c + 32) else c)"

definition to_ascii_lowercase :: "string \<Rightarrow> string" where
  "to_ascii_lowercase s = map ascii_lower s"

definition eq_ignore_case :: "string \<Rightarrow> string \<Rightarrow> bool" where
  "eq_ignore_case a b \<longleftrightarrow> to_ascii_lowercase a = to_ascii_lowercase b"

lemmas [str_defs] = byte_def is_digit_def is_upper_def is_lower_def is_alnum_def ascii_lower_def
  to_ascii_lowercase_def eq_ignore_case_def

lemma byte_bound: "byte c < 256"
  by (simp add: byte_def)

lemma byte_inj [simp]: "byte c = byte d \<longleftrightarrow> c = d"
  by (simp add: byte_def)

lemma byte_char_of [simp]: "n < 256 \<Longrightarrow> byte (char_of n) = n"
  by (simp add: byte_def)

lemma char_of_eq_iff: "n < 256 \<Longrightarrow> char_of n = c \<longleftrightarrow> byte c = n" "n < 256 \<Longrightarrow> c = char_of n \<longleftrightarrow> byte c = n"
  by (auto simp: byte_def)

text \<open>Evaluation of the byte operations on literal characters.\<close>

lemmas char_eval = byte_def is_digit_def is_upper_def is_lower_def is_alnum_def ascii_lower_def
  char_of_eq_iff

lemma ascii_lower_idem [simp]: "ascii_lower (ascii_lower c) = ascii_lower c"
  by (auto simp: ascii_lower_def is_upper_def)

lemma ascii_lower_not_upper: "\<not> is_upper (ascii_lower c)"
  by (auto simp: ascii_lower_def is_upper_def)

lemma to_ascii_lowercase_idem [simp]:
  "to_ascii_lowercase (to_ascii_lowercase s) = to_ascii_lowercase s"
  by (simp add: to_ascii_lowercase_def)

lemma length_to_ascii_lowercase [simp]: "length (to_ascii_lowercase s) = length s"
  by (simp add: to_ascii_lowercase_def)

lemma to_ascii_lowercase_append [simp]:
  "to_ascii_lowercase (a @ b) = to_ascii_lowercase a @ to_ascii_lowercase b"
  by (simp add: to_ascii_lowercase_def)

lemma split_at_first_unique:
  "a @ c # b = a' @ c # b' \<Longrightarrow> c \<notin> set a \<Longrightarrow> c \<notin> set a' \<Longrightarrow> a = a' \<and> b = b'"
  by (induction a arbitrary: a') (auto simp: Cons_eq_append_conv split: list.splits)

lemma eq_ignore_case_refl [simp]: "eq_ignore_case a a"
  by (simp add: eq_ignore_case_def)

lemma eq_ignore_case_sym: "eq_ignore_case a b \<Longrightarrow> eq_ignore_case b a"
  by (simp add: eq_ignore_case_def)

lemma eq_ignore_case_trans: "eq_ignore_case a b \<Longrightarrow> eq_ignore_case b c \<Longrightarrow> eq_ignore_case a c"
  by (simp add: eq_ignore_case_def)

section \<open>Prefixes, suffixes, splitting and joining\<close>

definition starts_with :: "string \<Rightarrow> string \<Rightarrow> bool" where
  "starts_with p s \<longleftrightarrow> take (length p) s = p"

definition ends_with :: "string \<Rightarrow> string \<Rightarrow> bool" where
  "ends_with p s \<longleftrightarrow> length p \<le> length s \<and> drop (length s - length p) s = p"

definition strip_prefix :: "string \<Rightarrow> string \<Rightarrow> string option" where
  "strip_prefix p s = (if starts_with p s then Some (drop (length p) s) else None)"

definition strip_suffix :: "string \<Rightarrow> string \<Rightarrow> string option" where
  "strip_suffix p s = (if ends_with p s then Some (take (length s - length p) s) else None)"

fun split_on :: "char \<Rightarrow> string \<Rightarrow> string list" where
  "split_on c [] = [[]]"
| "split_on c (x # xs) =
     (if x = c then [] # split_on c xs
      else case split_on c xs of [] \<Rightarrow> [[x]] | w # ws \<Rightarrow> (x # w) # ws)"

fun split_once :: "char \<Rightarrow> string \<Rightarrow> (string \<times> string) option" where
  "split_once c [] = None"
| "split_once c (x # xs) =
     (if x = c then Some ([], xs)
      else map_option (\<lambda>(a, b). (x # a, b)) (split_once c xs))"

definition rsplit_once :: "char \<Rightarrow> string \<Rightarrow> (string \<times> string) option" where
  "rsplit_once c s = map_option (\<lambda>(a, b). (rev b, rev a)) (split_once c (rev s))"

fun join_with :: "string \<Rightarrow> string list \<Rightarrow> string" where
  "join_with sep [] = []"
| "join_with sep [w] = w"
| "join_with sep (w # v # ws) = w @ sep @ join_with sep (v # ws)"

definition trim_start_char :: "char \<Rightarrow> string \<Rightarrow> string" where
  "trim_start_char c s = dropWhile (\<lambda>x. x = c) s"

definition trim_end_char :: "char \<Rightarrow> string \<Rightarrow> string" where
  "trim_end_char c s = rev (dropWhile (\<lambda>x. x = c) (rev s))"

definition trim_char :: "char \<Rightarrow> string \<Rightarrow> string" where
  "trim_char c s = trim_end_char c (trim_start_char c s)"

lemmas [str_defs] = starts_with_def ends_with_def strip_prefix_def strip_suffix_def
  rsplit_once_def trim_start_char_def trim_end_char_def trim_char_def

lemma starts_with_iff: "starts_with p s \<longleftrightarrow> (\<exists>r. s = p @ r)"
  by (auto simp: starts_with_def) (metis append_take_drop_id)

lemma ends_with_iff: "ends_with p s \<longleftrightarrow> (\<exists>r. s = r @ p)"
  by (auto simp: ends_with_def) (metis append_take_drop_id)

lemma split_on_nonempty [simp]: "split_on c s \<noteq> []"
  by (induction s) (auto split: list.splits)

lemma strip_prefix_Some: "strip_prefix p s = Some r \<longleftrightarrow> s = p @ r"
  by (auto simp: strip_prefix_def starts_with_iff)

lemma join_split_on: "join_with [c] (split_on c s) = s"
proof (induction s)
  case Nil
  show ?case by simp
next
  case (Cons x xs)
  show ?case
  proof (cases "split_on c xs")
    case Nil
    then show ?thesis by simp
  next
    case (Cons w ws)
    with Cons.IH show ?thesis by (cases ws) auto
  qed
qed

lemma split_on_no_sep: "w \<in> set (split_on c s) \<Longrightarrow> c \<notin> set w"
proof (induction s arbitrary: w)
  case Nil
  then show ?case by simp
next
  case (Cons x xs)
  then show ?case by (cases "split_on c xs") (auto split: if_splits)
qed

lemma split_on_append_sep:
  "split_on c (a @ c # b) = split_on c a @ split_on c b"
proof (induction a)
  case Nil
  show ?case by simp
next
  case (Cons x xs)
  then show ?case by (cases "split_on c xs") auto
qed

lemma split_on_absent: "c \<notin> set w \<Longrightarrow> split_on c w = [w]"
  by (induction w) auto

lemma split_once_Some: "split_once c s = Some (a, b) \<Longrightarrow> s = a @ c # b \<and> c \<notin> set a"
  by (induction s arbitrary: a b) (auto split: if_splits)

lemma split_once_None_iff: "split_once c s = None \<longleftrightarrow> c \<notin> set s"
  by (induction s) auto

lemma split_once_append: "c \<notin> set a \<Longrightarrow> split_once c (a @ c # b) = Some (a, b)"
  by (induction a) auto

section \<open>Adjacent elements\<close>

text \<open>\<open>has_pair a b xs\<close>: somewhere in the list \<open>a\<close> is followed directly by \<open>b\<close>.\<close>

fun has_pair :: "'a \<Rightarrow> 'a \<Rightarrow> 'a list \<Rightarrow> bool" where
  "has_pair a b (x # y # xs) = (x = a \<and> y = b \<or> has_pair a b (y # xs))"
| "has_pair a b _ = False"

lemma has_pair_iff: "has_pair a b xs \<longleftrightarrow> (\<exists>p q. xs = p @ a # b # q)"
proof
  show "has_pair a b xs \<Longrightarrow> \<exists>p q. xs = p @ a # b # q"
  proof (induction a b xs rule: has_pair.induct)
    case (1 a b x y xs)
    then show ?case by (metis append_Cons append_Nil has_pair.simps(1))
  qed auto
  have "has_pair a b (p @ a # b # q)" for p q
  proof (induction p)
    case (Cons x p)
    then show ?case by (cases p) auto
  qed simp
  then show "\<exists>p q. xs = p @ a # b # q \<Longrightarrow> has_pair a b xs" by blast
qed

lemma has_pair_append:
  "has_pair a b (xs @ ys) \<longleftrightarrow>
   has_pair a b xs \<or> has_pair a b ys \<or> xs \<noteq> [] \<and> ys \<noteq> [] \<and> last xs = a \<and> hd ys = b"
proof (induction xs)
  case (Cons x xs)
  then show ?case by (cases xs; cases ys) auto
qed simp

text \<open>
  A list is quiet for a pair when neither it nor anything it is appended to gains the pair from it.
\<close>

definition quiet :: "'a \<Rightarrow> 'a \<Rightarrow> 'a list \<Rightarrow> bool" where
  "quiet a b xs \<longleftrightarrow> \<not> has_pair a b xs \<and> (xs = [] \<or> hd xs \<noteq> b)"

lemma quiet_append [intro]: "quiet a b xs \<Longrightarrow> quiet a b ys \<Longrightarrow> quiet a b (xs @ ys)"
  by (cases "xs = []"; cases "ys = []") (auto simp: quiet_def has_pair_append)

lemma quiet_if [intro]:
  "(c \<Longrightarrow> quiet a b xs) \<Longrightarrow> (\<not> c \<Longrightarrow> quiet a b ys) \<Longrightarrow> quiet a b (if c then xs else ys)"
  by simp

lemma quiet_option [intro]:
  "(x = None \<Longrightarrow> quiet a b xs) \<Longrightarrow> (\<And>v. x = Some v \<Longrightarrow> quiet a b (f v)) \<Longrightarrow>
   quiet a b (case x of None \<Rightarrow> xs | Some v \<Rightarrow> f v)"
  by (cases x) auto

lemmas quiet_intros = quiet_append quiet_if quiet_option

lemma has_pair_append_quiet:
  "quiet a b ys \<Longrightarrow> has_pair a b (xs @ ys) = has_pair a b xs"
  "quiet a b xs \<Longrightarrow> ys = [] \<or> hd ys \<noteq> b \<Longrightarrow> has_pair a b (xs @ ys) = has_pair a b ys"
  by (auto simp: quiet_def has_pair_append)

lemma has_pair_concat:
  assumes "\<forall>xs \<in> set xss. xs = [] \<or> hd xs \<noteq> b"
  shows "has_pair a b (concat xss) \<longleftrightarrow> (\<exists>xs \<in> set xss. has_pair a b xs)"
  using assms
proof (induction xss)
  case (Cons xs xss)
  have "concat xss \<noteq> [] \<Longrightarrow> hd (concat xss) \<noteq> b"
    using Cons.prems by (induction xss) (auto simp: hd_append)
  with Cons show ?case by (auto simp: has_pair_append)
qed simp

lemma takeWhile_until: "x \<notin> set xs \<Longrightarrow> takeWhile (\<lambda>a. a \<noteq> x) (xs @ x # ys) = xs"
  by (induction xs) auto

lemma dropWhile_until: "x \<notin> set xs \<Longrightarrow> dropWhile (\<lambda>a. a \<noteq> x) (xs @ x # ys) = x # ys"
  by (induction xs) auto

end
