(* ===== verification/Rust_Text.thy ===== *)
theory Rust_Text
  imports Prelude
begin

text \<open>
  The part of Rust's text handling the modelled code calls: \<open>trim\<close> and \<open>split_whitespace\<close> over
  Unicode white space, \<open>lines\<close>, UTF-8 validity, character-wise maps and filters, integer
  \<open>parse\<close> and \<open>to_string\<close>, zero padding and hexadecimal formatting.
\<close>

section \<open>White space\<close>

text \<open>
  The UTF-8 encodings of the characters with the Unicode property \<open>White_Space\<close>, which is what
  \<open>char::is_whitespace\<close> and hence \<open>str::trim\<close> test.
\<close>

definition white_space :: "string list" where
  "white_space = map (map char_of)
     [[9], [10], [11], [12], [13], [32], [194, 133], [194, 160], [225, 154, 128],
      [226, 128, 128], [226, 128, 129], [226, 128, 130], [226, 128, 131], [226, 128, 132],
      [226, 128, 133], [226, 128, 134], [226, 128, 135], [226, 128, 136], [226, 128, 137],
      [226, 128, 138], [226, 128, 168], [226, 128, 169], [226, 128, 175], [226, 129, 159],
      [227, 128, 128 :: nat]]"

definition leading_ws :: "string \<Rightarrow> string option" where
  "leading_ws s = find (\<lambda>w. starts_with w s) white_space"

definition trailing_ws :: "string \<Rightarrow> string option" where
  "trailing_ws s = find (\<lambda>w. ends_with w s) white_space"

lemma white_space_nonempty: "w \<in> set white_space \<Longrightarrow> w \<noteq> []"
  by (auto simp: white_space_def)

lemma leading_ws_SomeD:
  "leading_ws s = Some w \<Longrightarrow> w \<in> set white_space \<and> w \<noteq> [] \<and> starts_with w s"
  unfolding leading_ws_def by (drule find_SomeD) (simp add: white_space_nonempty)

lemma trailing_ws_SomeD:
  "trailing_ws s = Some w \<Longrightarrow> w \<in> set white_space \<and> w \<noteq> [] \<and> ends_with w s"
  unfolding trailing_ws_def by (drule find_SomeD) (simp add: white_space_nonempty)

lemma leading_ws_length: "leading_ws s = Some w \<Longrightarrow> 0 < length w \<and> 0 < length s"
  by (drule leading_ws_SomeD) (auto simp: starts_with_iff)

lemma trailing_ws_length: "trailing_ws s = Some w \<Longrightarrow> 0 < length w \<and> 0 < length s"
  by (drule trailing_ws_SomeD) (auto simp: ends_with_iff)

function trim_start :: "string \<Rightarrow> string" where
  "trim_start s =
     (case leading_ws s of None \<Rightarrow> s | Some w \<Rightarrow> trim_start (drop (length w) s))"
  by pat_completeness auto
termination
  by (relation "measure length") (auto dest: leading_ws_length)

function trim_end :: "string \<Rightarrow> string" where
  "trim_end s =
     (case trailing_ws s of None \<Rightarrow> s | Some w \<Rightarrow> trim_end (take (length s - length w) s))"
  by pat_completeness auto
termination
  by (relation "measure length") (auto dest: trailing_ws_length)

declare trim_start.simps [simp del] trim_end.simps [simp del]

definition trim :: "string \<Rightarrow> string" where
  "trim s = trim_end (trim_start s)"

lemma trim_start_suffix: "\<exists>p. s = p @ trim_start s"
proof (induction s rule: trim_start.induct)
  case (1 s)
  show ?case
  proof (cases "leading_ws s")
    case None
    then show ?thesis by (simp add: trim_start.simps [of s])
  next
    case (Some w)
    from "1.IH" [OF Some] obtain p where "drop (length w) s = p @ trim_start (drop (length w) s)"
      by blast
    with Some show ?thesis
      by (metis append.assoc append_take_drop_id option.simps(5) trim_start.simps)
  qed
qed

lemma trim_end_prefix: "\<exists>p. s = trim_end s @ p"
proof (induction s rule: trim_end.induct)
  case (1 s)
  show ?case
  proof (cases "trailing_ws s")
    case None
    then show ?thesis by (simp add: trim_end.simps [of s])
  next
    case (Some w)
    let ?t = "take (length s - length w) s"
    from "1.IH" [OF Some] obtain p where "?t = trim_end ?t @ p" by blast
    moreover have "trim_end s = trim_end ?t" using Some by (simp add: trim_end.simps [of s])
    ultimately show ?thesis by (metis append.assoc append_take_drop_id)
  qed
qed

lemma length_trim_le: "length (trim s) \<le> length s"
  by (metis le_add1 le_add2 le_trans length_append trim_def trim_end_prefix trim_start_suffix)

lemma set_trim_subset: "set (trim s) \<subseteq> set s"
  by (metis Un_iff set_append subsetI trim_def trim_end_prefix trim_start_suffix)

lemma leading_ws_trim_start: "leading_ws (trim_start s) = None"
proof (induction s rule: trim_start.induct)
  case (1 s)
  then show ?case by (cases "leading_ws s") (simp_all add: trim_start.simps [of s])
qed

lemma trailing_ws_trim_end: "trailing_ws (trim_end s) = None"
proof (induction s rule: trim_end.induct)
  case (1 s)
  then show ?case by (cases "trailing_ws s") (simp_all add: trim_end.simps [of s])
qed

lemma trim_end_id: "trailing_ws s = None \<Longrightarrow> trim_end s = s"
  by (simp add: trim_end.simps)

lemma trim_start_id: "leading_ws s = None \<Longrightarrow> trim_start s = s"
  by (simp add: trim_start.simps)

text \<open>A shorter string starts with no more white space than its extension.\<close>

lemma leading_ws_prefix_None: "leading_ws (a @ b) = None \<Longrightarrow> leading_ws a = None"
  by (auto simp: leading_ws_def find_None_iff starts_with_iff)

lemma leading_ws_trim: "leading_ws (trim s) = None"
  by (metis leading_ws_prefix_None leading_ws_trim_start trim_def trim_end_prefix)

lemma trim_idem [simp]: "trim (trim s) = trim s"
  by (simp add: trim_def [of "trim s"] trim_start_id leading_ws_trim)
    (simp add: trim_def trim_end_id trailing_ws_trim_end)

lemma trim_Nil [simp]: "trim [] = []"
  using length_trim_le [of "[]"] by simp

text \<open>
  ASCII text without control characters and without a space at either end is its own trim: the
  first and last bytes of every white-space encoding are a control, a space or not ASCII.
\<close>

definition plain_char :: "char \<Rightarrow> bool" where
  "plain_char c \<longleftrightarrow> 32 < byte c \<and> byte c < 128"

lemma leading_ws_plain: "plain_char c \<Longrightarrow> leading_ws (c # s) = None"
proof -
  assume c: "plain_char c"
  have "hd w \<noteq> c" if "w \<in> set white_space" for w
    using that c by (auto simp: white_space_def plain_char_def)
  moreover have "starts_with w (c # s) \<Longrightarrow> w \<noteq> [] \<Longrightarrow> hd w = c" for w
    by (cases w) (auto simp: starts_with_iff)
  ultimately show ?thesis
    using white_space_nonempty by (fastforce simp: leading_ws_def find_None_iff)
qed

lemma trailing_ws_plain: "plain_char c \<Longrightarrow> trailing_ws (s @ [c]) = None"
proof -
  assume c: "plain_char c"
  have "last w \<noteq> c" if "w \<in> set white_space" for w
    using that c by (auto simp: white_space_def plain_char_def)
  moreover have "ends_with w (s @ [c]) \<Longrightarrow> w \<noteq> [] \<Longrightarrow> last w = c" for w
    by (auto simp: ends_with_iff) (metis last_appendR last_snoc)
  ultimately show ?thesis
    using white_space_nonempty by (fastforce simp: trailing_ws_def find_None_iff)
qed

lemma trim_plain:
  assumes "s = [] \<or> plain_char (hd s) \<and> plain_char (last s)"
  shows "trim s = s"
proof (cases s)
  case Nil
  then show ?thesis by simp
next
  case (Cons c cs)
  with assms have "leading_ws s = None" by (simp add: leading_ws_plain)
  moreover have "trailing_ws s = None"
    using assms Cons trailing_ws_plain [of "last s" "butlast s"]
    by (metis append_butlast_last_id list.distinct(1))
  ultimately show ?thesis by (simp add: trim_def trim_end_id trim_start_id)
qed

lemma white_space_hd_not_plain: "w \<in> set white_space \<Longrightarrow> \<not> plain_char (hd w)"
  by (auto simp: white_space_def plain_char_def)

lemma trim_end_plain_hd: "plain_char c \<Longrightarrow> s = c # r \<Longrightarrow> \<exists>q. trim_end s = c # q"
proof (induction s arbitrary: r rule: trim_end.induct)
  case (1 s)
  show ?case
  proof (cases "trailing_ws s")
    case None
    with "1.prems" show ?thesis by (simp add: trim_end_id)
  next
    case (Some w)
    then have w: "w \<in> set white_space" "w \<noteq> []" "ends_with w s" using trailing_ws_SomeD by blast+
    then obtain u where u: "s = u @ w" by (auto simp: ends_with_iff)
    have "u \<noteq> []"
      using u "1.prems" white_space_hd_not_plain [OF w(1)] by auto
    then obtain v where v: "u = c # v" using u "1.prems" by (cases u) auto
    have t: "take (length s - length w) s = c # v" using u v by simp
    from "1.IH" [OF Some "1.prems"(1) t] obtain q where "trim_end (take (length s - length w) s) = c # q"
      by blast
    with Some show ?thesis by (simp add: trim_end.simps [of s])
  qed
qed

lemma trim_plain_hd: "plain_char c \<Longrightarrow> \<exists>q. trim (c # s) = c # q"
  using trim_end_plain_hd by (simp add: trim_def trim_start_id leading_ws_plain)

lemma digit_plain: "is_digit c \<Longrightarrow> plain_char c"
  by (simp add: is_digit_def plain_char_def)

lemma leading_ws_space [simp]: "leading_ws (CHR '' '' # s) = Some [CHR '' '']"
  by (simp add: leading_ws_def white_space_def starts_with_def char_of_eq_iff byte_def)

lemma trim_space_plain:
  assumes "s \<noteq> []" "plain_char (hd s)" "plain_char (last s)"
  shows "trim (CHR '' '' # s) = s"
proof -
  have "trim_start (CHR '' '' # s) = trim_start s"
    by (subst trim_start.simps) simp
  then have "trim (CHR '' '' # s) = trim s" by (simp add: trim_def)
  with assms show ?thesis by (simp add: trim_plain)
qed

section \<open>Lines and words\<close>

text \<open>
  \<open>str::lines\<close>: split at line feeds, drop one carriage return at the end of a terminated line, and
  no line after a final line feed.
\<close>

definition strip_cr :: "string \<Rightarrow> string" where
  "strip_cr s = (case strip_suffix [char_of (13::nat)] s of Some t \<Rightarrow> t | None \<Rightarrow> s)"

fun lines_of :: "string list \<Rightarrow> string list" where
  "lines_of [] = []"
| "lines_of [w] = (if w = [] then [] else [w])"
| "lines_of (w # v # ws) = strip_cr w # lines_of (v # ws)"

definition lines :: "string \<Rightarrow> string list" where
  "lines s = lines_of (split_on (char_of (10::nat)) s)"

text \<open>\<open>split_whitespace\<close>: the maximal runs without white space, left to right.\<close>

function split_ws_from :: "string \<Rightarrow> string \<Rightarrow> string list" where
  "split_ws_from acc [] = (if acc = [] then [] else [acc])"
| "split_ws_from acc (c # cs) =
     (case leading_ws (c # cs) of
        None \<Rightarrow> split_ws_from (acc @ [c]) cs
      | Some w \<Rightarrow> (if acc = [] then [] else [acc]) @ split_ws_from [] (drop (length w) (c # cs)))"
  by pat_completeness auto
termination
  by (relation "measure (\<lambda>(acc, s). length s)") (auto dest!: leading_ws_length)

definition split_whitespace :: "string \<Rightarrow> string list" where
  "split_whitespace s = split_ws_from [] s"

lemma split_ws_from_nonempty: "w \<in> set (split_ws_from acc s) \<Longrightarrow> w \<noteq> []"
  by (induction acc s rule: split_ws_from.induct) (auto split: option.splits if_splits)

section \<open>UTF-8\<close>

definition is_cont :: "char \<Rightarrow> bool" where
  "is_cont c \<longleftrightarrow> 128 \<le> byte c \<and> byte c < 192"

text \<open>\<open>std::str::from_utf8\<close> accepts exactly the well-formed byte sequences of the Unicode standard.\<close>

definition byte_in :: "nat \<Rightarrow> nat \<Rightarrow> char \<Rightarrow> bool" where
  "byte_in lo hi c \<longleftrightarrow> lo \<le> byte c \<and> byte c \<le> hi"

fun utf8_valid :: "string \<Rightarrow> bool" where
  "utf8_valid [] = True"
| "utf8_valid (a # s) =
     (if byte a < 128 then utf8_valid s
      else case s of
        [] \<Rightarrow> False
      | b # s1 \<Rightarrow>
          if byte_in 194 223 a then is_cont b \<and> utf8_valid s1
          else case s1 of
            [] \<Rightarrow> False
          | c # s2 \<Rightarrow>
              if byte_in 224 239 a then
                byte_in (if byte a = 224 then 160 else 128) (if byte a = 237 then 159 else 191) b \<and>
                is_cont c \<and> utf8_valid s2
              else case s2 of
                [] \<Rightarrow> False
              | d # s3 \<Rightarrow>
                  byte_in 240 244 a \<and>
                  byte_in (if byte a = 240 then 144 else 128) (if byte a = 244 then 143 else 191) b \<and>
                  is_cont c \<and> is_cont d \<and> utf8_valid s3)"

lemma utf8_valid_ascii: "\<forall>c \<in> set s. byte c < 128 \<Longrightarrow> utf8_valid s"
  by (induction s) auto

text \<open>\<open>char::is_control\<close> on UTF-8: the ASCII controls, DEL, and U+0080 to U+009F.\<close>

fun has_control :: "string \<Rightarrow> bool" where
  "has_control [] = False"
| "has_control (c # cs) =
     (byte c < 32 \<or> byte c = 127 \<or>
      (byte c = 194 \<and> (case cs of d # _ \<Rightarrow> 128 \<le> byte d \<and> byte d < 160 | [] \<Rightarrow> False)) \<or> has_control cs)"

text \<open>
  \<open>chars().map\<close> with a function that keeps some ASCII characters and sends every other character
  to one ASCII replacement: the lead byte of a longer character becomes the replacement, its
  continuation bytes vanish.
\<close>

fun map_ascii_or :: "(char \<Rightarrow> bool) \<Rightarrow> char \<Rightarrow> string \<Rightarrow> string" where
  "map_ascii_or keep d [] = []"
| "map_ascii_or keep d (c # s) =
     (if is_cont c then map_ascii_or keep d s
      else (if byte c < 128 \<and> keep c then c else d) # map_ascii_or keep d s)"

lemma map_ascii_or_set:
  "c \<in> set (map_ascii_or keep d s) \<Longrightarrow> c = d \<or> byte c < 128 \<and> keep c"
  by (induction s) (auto split: if_splits)

lemma map_ascii_or_id:
  "\<forall>c \<in> set s. byte c < 128 \<and> keep c \<Longrightarrow> map_ascii_or keep d s = s"
  by (induction s) (auto simp: is_cont_def)

section \<open>Integers\<close>

definition digit_char :: "nat \<Rightarrow> char" where
  "digit_char d = char_of (48 + d)"

definition digit_value :: "char \<Rightarrow> nat" where
  "digit_value c = byte c - 48"

fun show_nat :: "nat \<Rightarrow> string" where
  "show_nat n = (if n < 10 then [digit_char n] else show_nat (n div 10) @ [digit_char (n mod 10)])"

declare show_nat.simps [simp del]

definition show_int :: "int \<Rightarrow> string" where
  "show_int i = (if i < 0 then CHR ''-'' # show_nat (nat (- i)) else show_nat (nat i))"

definition digits_value :: "string \<Rightarrow> nat" where
  "digits_value s = foldl (\<lambda>n c. 10 * n + digit_value c) 0 s"

text \<open>
  \<open>str::parse\<close> for an unsigned type with largest value \<open>bound\<close>: an optional \<open>+\<close>, then at least one
  decimal digit, within the bound. A signed type also takes \<open>-\<close>.
\<close>

definition parse_digits :: "string \<Rightarrow> nat option" where
  "parse_digits s = (if s \<noteq> [] \<and> list_all is_digit s then Some (digits_value s) else None)"

definition parse_unsigned :: "nat \<Rightarrow> string \<Rightarrow> nat option" where
  "parse_unsigned bound s =
     opt_filter (\<lambda>n. n \<le> bound)
       (parse_digits (case s of c # cs \<Rightarrow> if c = CHR ''+'' then cs else s | [] \<Rightarrow> s))"

definition parse_signed :: "int \<Rightarrow> int \<Rightarrow> string \<Rightarrow> int option" where
  "parse_signed lo hi s =
     (case s of
        c # cs \<Rightarrow>
          if c = CHR ''-''
          then opt_filter (\<lambda>i. lo \<le> i) (map_option (\<lambda>n. - int n) (parse_digits cs))
          else opt_filter (\<lambda>i. i \<le> hi)
                 (map_option int (parse_digits (if c = CHR ''+'' then cs else s)))
      | [] \<Rightarrow> None)"

definition parse_u16 :: "string \<Rightarrow> nat option" where "parse_u16 = parse_unsigned u16_max"
definition parse_u32 :: "string \<Rightarrow> nat option" where "parse_u32 = parse_unsigned u32_max"
definition parse_u64 :: "string \<Rightarrow> nat option" where "parse_u64 = parse_unsigned u64_max"
definition parse_usize :: "string \<Rightarrow> nat option" where "parse_usize = parse_unsigned usize_max"
definition parse_i32 :: "string \<Rightarrow> int option" where "parse_i32 = parse_signed i32_min i32_max"
definition parse_i64 :: "string \<Rightarrow> int option" where "parse_i64 = parse_signed i64_min i64_max"

lemmas [str_defs] = parse_u16_def parse_u32_def parse_u64_def parse_usize_def parse_i32_def
  parse_i64_def

lemma byte_digit_char [simp]: "d < 10 \<Longrightarrow> byte (digit_char d) = 48 + d"
  by (simp add: digit_char_def)

lemma digit_char_digit [simp]: "d < 10 \<Longrightarrow> is_digit (digit_char d)"
  by (simp add: is_digit_def)

lemma digit_value_char [simp]: "d < 10 \<Longrightarrow> digit_value (digit_char d) = d"
  by (simp add: digit_value_def)

lemma digit_char_eval [simp]:
  "digit_char 0 = CHR ''0''" "digit_char 1 = CHR ''1''" "digit_char (Suc 0) = CHR ''1''"
  "digit_char 2 = CHR ''2''" "digit_char 3 = CHR ''3''" "digit_char 4 = CHR ''4''"
  "digit_char 5 = CHR ''5''" "digit_char 6 = CHR ''6''" "digit_char 7 = CHR ''7''"
  "digit_char 8 = CHR ''8''" "digit_char 9 = CHR ''9''"
  by code_simp+

lemma show_nat_digits: "list_all is_digit (show_nat n)"
proof (induction n rule: show_nat.induct)
  case (1 n)
  then show ?case by (subst show_nat.simps) simp
qed

lemma show_nat_nonempty [simp]: "show_nat n \<noteq> []"
  by (subst show_nat.simps) simp

lemma digits_value_snoc: "digits_value (s @ [c]) = 10 * digits_value s + digit_value c"
  by (simp add: digits_value_def)

lemma digits_value_show: "digits_value (show_nat n) = n"
proof (induction n rule: show_nat.induct)
  case (1 n)
  show ?case
  proof (cases "n < 10")
    case True
    then show ?thesis by (subst show_nat.simps) (simp add: digits_value_def)
  next
    case False
    with 1 show ?thesis by (subst show_nat.simps) (simp add: digits_value_snoc)
  qed
qed

lemma parse_digits_show [simp]: "parse_digits (show_nat n) = Some n"
  by (simp add: parse_digits_def show_nat_digits digits_value_show)

lemma show_nat_hd_digit: "is_digit (hd (show_nat n))"
  using show_nat_digits [of n] by (cases "show_nat n") auto

lemma show_nat_not_minus [simp]: "show_nat n \<noteq> CHR ''-'' # s"
  using show_nat_hd_digit [of n] by (auto simp: is_digit_def byte_def)

lemma show_nat_inj: "show_nat m = show_nat n \<longleftrightarrow> m = n"
  by (metis digits_value_show)

lemma show_int_inj: "show_int i = show_int j \<longleftrightarrow> i = j"
  unfolding show_int_def by (auto simp: show_nat_inj split: if_splits) (metis show_nat_not_minus)+

lemma not_digit_sign [simp]: "\<not> is_digit (CHR ''+'')" "\<not> is_digit (CHR ''-'')"
  by (simp_all add: is_digit_def byte_def)

lemma parse_unsigned_show: "n \<le> bound \<Longrightarrow> parse_unsigned bound (show_nat n) = Some n"
proof -
  assume n: "n \<le> bound"
  obtain c cs where s: "show_nat n = c # cs" and c: "is_digit c"
    using show_nat_hd_digit [of n] by (cases "show_nat n") auto
  then have "parse_digits (c # cs) = Some n" by (metis parse_digits_show)
  with n s c show ?thesis by (auto simp: parse_unsigned_def)
qed

lemma parse_signed_show:
  assumes "lo \<le> i" "i \<le> hi"
  shows "parse_signed lo hi (show_int i) = Some i"
proof (cases "i < 0")
  case True
  with assms show ?thesis by (simp add: parse_signed_def show_int_def)
next
  case False
  then obtain c cs where s: "show_nat (nat i) = c # cs" and c: "is_digit c"
    using show_nat_hd_digit [of "nat i"] by (cases "show_nat (nat i)") auto
  with False assms have "parse_digits (c # cs) = Some (nat i)" by (metis parse_digits_show)
  with False assms s c show ?thesis by (auto simp: parse_signed_def show_int_def)
qed

lemma parse_unsigned_le: "parse_unsigned bound s = Some n \<Longrightarrow> n \<le> bound"
  by (auto simp: parse_unsigned_def dest: opt_filter_SomeD)

lemma show_nat_plain: "trim (show_nat n) = show_nat n"
proof (rule trim_plain)
  have "is_digit (last (show_nat n))"
    using show_nat_digits [of n] last_in_set [OF show_nat_nonempty] by (simp add: list_all_iff)
  then show "show_nat n = [] \<or> plain_char (hd (show_nat n)) \<and> plain_char (last (show_nat n))"
    using show_nat_hd_digit by (simp add: digit_plain)
qed

section \<open>Padding and hexadecimal\<close>

definition pad_zero :: "nat \<Rightarrow> string \<Rightarrow> string" where
  "pad_zero w s = replicate (w - length s) (CHR ''0'') @ s"

lemma length_show_nat_le: "n < 10 ^ k \<Longrightarrow> 0 < k \<Longrightarrow> length (show_nat n) \<le> k"
proof (induction k arbitrary: n)
  case (Suc k)
  show ?case
  proof (cases "n < 10")
    case False
    then have "0 < k" using Suc.prems by (cases k) auto
    moreover have "n div 10 < 10 ^ k" using Suc.prems by (simp add: less_mult_imp_div_less mult.commute)
    ultimately show ?thesis using Suc.IH False by (subst show_nat.simps) simp
  qed (subst show_nat.simps, simp)
qed simp

lemma length_pad_zero: "length s \<le> w \<Longrightarrow> length (pad_zero w s) = w"
  by (simp add: pad_zero_def)

lemma digits_value_Nil [simp]: "digits_value [] = 0"
  by (simp add: digits_value_def)

lemma digits_value_append: "digits_value (a @ b) = digits_value a * 10 ^ length b + digits_value b"
  by (induction b rule: rev_induct) (simp_all add: digits_value_snoc algebra_simps flip: append_assoc)

lemma digits_value_zeros [simp]: "digits_value (replicate k (CHR ''0'')) = 0"
proof (induction k)
  case (Suc k)
  have "replicate (Suc k) (CHR ''0'') = replicate k (CHR ''0'') @ [CHR ''0'']"
    by (simp add: replicate_append_same)
  then show ?case using Suc by (simp only: digits_value_snoc) (simp add: digit_value_def char_eval)
qed simp

lemma digits_value_pad_zero [simp]: "digits_value (pad_zero w s) = digits_value s"
  by (simp add: pad_zero_def digits_value_append)

lemma trim_end_char_split: "\<exists>k. s = trim_end_char c s @ replicate k c"
proof -
  have "rev s = takeWhile (\<lambda>x. x = c) (rev s) @ dropWhile (\<lambda>x. x = c) (rev s)" by simp
  moreover have "takeWhile (\<lambda>x. x = c) t = replicate (length (takeWhile (\<lambda>x. x = c) t)) c" for t
    by (induction t) auto
  ultimately have "s = trim_end_char c s @ rev (replicate (length (takeWhile (\<lambda>x. x = c) (rev s))) c)"
    by (metis rev_append rev_rev_ident trim_end_char_def)
  then show ?thesis by (metis rev_replicate)
qed

lemma trim_end_char_append:
  "\<exists>x \<in> set b. x \<noteq> c \<Longrightarrow> trim_end_char c (a @ b) = a @ trim_end_char c b"
  by (auto simp: trim_end_char_def dropWhile_append)

definition hex_char :: "nat \<Rightarrow> char" where
  "hex_char d = (if d < 10 then char_of (48 + d) else char_of (87 + d))"

fun show_hex_fixed :: "nat \<Rightarrow> nat \<Rightarrow> string" where
  "show_hex_fixed 0 n = []"
| "show_hex_fixed (Suc k) n = show_hex_fixed k (n div 16) @ [hex_char (n mod 16)]"

lemma length_show_hex_fixed [simp]: "length (show_hex_fixed k n) = k"
  by (induction k arbitrary: n) auto

definition hex_digit :: "char \<Rightarrow> bool" where
  "hex_digit c \<longleftrightarrow> is_digit c \<or> byte_in 97 102 c"

lemma hex_char_digit: "d < 16 \<Longrightarrow> hex_digit (hex_char d)"
  by (auto simp: hex_digit_def hex_char_def is_digit_def byte_in_def)

lemma show_hex_fixed_digits: "list_all hex_digit (show_hex_fixed k n)"
  by (induction k arbitrary: n) (auto simp: hex_char_digit)

end
