(* ===== verification/Rust_Float.thy ===== *)
theory Rust_Float
  imports Complex_Main Rust_Text
begin

text \<open>
  The double-precision arithmetic behind the decimal fields of the FFmpeg command line and of the
  playlists: \<open>as f64\<close>, division and \<open>format!("{:.n}")\<close>. A non-negative finite double is
  \<open>m * 2 ^ e\<close>; rounding is to nearest, ties to even, on a 53-bit significand. The values handled
  here are quotients of integers below \<open>2 ^ 64\<close> by constants, so neither overflow nor a subnormal
  can occur and the exponent is unbounded in the model. Formatting prints the exact value of the
  double rounded half to even at the requested decimal, as Rust's exact formatting does.
\<close>

text \<open>\<open>num / den\<close> rounded to an integer, ties to even.\<close>

definition round_div :: "nat \<Rightarrow> nat \<Rightarrow> nat" where
  "round_div num den =
     (let q = num div den; r = num mod den
      in if 2 * r < den then q else if den < 2 * r then q + 1 else if even q then q else q + 1)"

text \<open>A rational as numerator and denominator, times a power of two.\<close>

definition scale2 :: "int \<Rightarrow> nat \<times> nat \<Rightarrow> nat \<times> nat" where
  "scale2 e q = (if 0 \<le> e then (fst q * 2 ^ nat e, snd q) else (fst q, snd q * 2 ^ nat (- e)))"

datatype f64 = F64 (significand: nat) (exponent: int)

definition f64_ratio :: "f64 \<Rightarrow> nat \<times> nat" where
  "f64_ratio x = scale2 (exponent x) (significand x, 1)"

text \<open>The number of bits of a natural number.\<close>

fun bit_len :: "nat \<Rightarrow> nat" where
  "bit_len n = (if n = 0 then 0 else Suc (bit_len (n div 2)))"

declare bit_len.simps [simp del]

text \<open>
  The exponent of the last significand bit: the quotient lies between \<open>2 ^ (k - 1)\<close> and
  \<open>2 ^ (k + 1)\<close> for the difference \<open>k\<close> of the bit lengths, so one of two exponents leaves exactly
  53 bits.
\<close>

definition ratio_div :: "nat \<times> nat \<Rightarrow> nat" where
  "ratio_div q = fst q div snd q"

definition ratio_round :: "nat \<times> nat \<Rightarrow> nat" where
  "ratio_round q = round_div (fst q) (snd q)"

definition pick_exponent :: "int \<Rightarrow> nat \<times> nat \<Rightarrow> int" where
  "pick_exponent e q = (if ratio_div (scale2 (- e) q) < 2 ^ 53 then e else e + 1)"

definition f64_exponent :: "nat \<times> nat \<Rightarrow> int" where
  "f64_exponent q = pick_exponent (int (bit_len (fst q)) - int (bit_len (snd q)) - 53) q"

definition round_at :: "int \<Rightarrow> nat \<times> nat \<Rightarrow> f64" where
  "round_at e q = F64 (ratio_round (scale2 (- e) q)) e"

definition f64_of_ratio :: "nat \<times> nat \<Rightarrow> f64" where
  "f64_of_ratio q = (if fst q = 0 then F64 0 0 else round_at (f64_exponent q) q)"

definition f64_of_nat :: "nat \<Rightarrow> f64" where
  "f64_of_nat n = f64_of_ratio (n, 1)"

definition f64_div :: "f64 \<Rightarrow> nat \<Rightarrow> f64" where
  "f64_div x d = f64_of_ratio (fst (f64_ratio x), snd (f64_ratio x) * d)"

text \<open>\<open>format!("{:.places}", x)\<close>.\<close>

definition fixed_digits :: "nat \<Rightarrow> nat \<Rightarrow> string" where
  "fixed_digits places v =
     show_nat (v div 10 ^ places) @ ''.'' @ pad_zero places (show_nat (v mod 10 ^ places))"

definition fmt_fixed :: "nat \<Rightarrow> f64 \<Rightarrow> string" where
  "fmt_fixed places x =
     fixed_digits places (round_div (fst (f64_ratio x) * 10 ^ places) (snd (f64_ratio x)))"

lemmas f64_eval = fmt_fixed_def fixed_digits_def f64_div_def f64_of_nat_def f64_of_ratio_def
  f64_exponent_def pick_exponent_def round_at_def ratio_div_def ratio_round_def f64_ratio_def
  scale2_def round_div_def bit_len.simps Let_def show_nat.simps
  pad_zero_def

section \<open>The rounding error\<close>

definition val :: "nat \<times> nat \<Rightarrow> real" where
  "val q = real (fst q) / real (snd q)"

lemma val_scale2: "val (scale2 e q) = val q * 2 powi e"
  by (simp add: val_def scale2_def power_int_def field_simps)

lemma snd_scale2_pos [simp]: "0 < snd q \<Longrightarrow> 0 < snd (scale2 e q)"
  by (simp add: scale2_def)

lemma round_div_error:
  assumes "0 < d"
  shows "\<bar>real (round_div n d) - real n / real d\<bar> \<le> 1 / 2"
proof -
  have n: "real n = real (n div d) * real d + real (n mod d)"
    by (metis div_mult_mod_eq of_nat_add of_nat_mult)
  have r: "real (n mod d) < real d" using assms by simp
  have eq: "real n / real d = real (n div d) + real (n mod d) / real d"
    using n assms by (simp add: field_simps)
  show ?thesis
  proof (cases "round_div n d = n div d")
    case True
    then have "2 * (n mod d) \<le> d" by (auto simp: round_div_def Let_def split: if_splits)
    then have "2 * real (n mod d) \<le> real d" by (metis of_nat_le_iff of_nat_mult of_nat_numeral)
    with True eq assms show ?thesis by (simp add: field_simps)
  next
    case False
    then have up: "round_div n d = n div d + 1" and "d \<le> 2 * (n mod d)"
      by (auto simp: round_div_def Let_def split: if_splits)
    then have "real d \<le> 2 * real (n mod d)" by (metis of_nat_le_iff of_nat_mult of_nat_numeral)
    with up eq assms r show ?thesis by (simp add: field_simps)
  qed
qed

lemma round_div_unique:
  assumes "0 < d" "\<bar>real n / real d - real k\<bar> < 1 / 2"
  shows "round_div n d = k"
proof -
  have "\<bar>real (round_div n d) - real k\<bar> < 1"
    using round_div_error [OF assms(1), of n] assms(2) by linarith
  then show ?thesis by linarith
qed

lemma bit_len_upper: "n < 2 ^ bit_len n"
proof (induction n rule: bit_len.induct)
  case (1 n)
  then show ?case by (subst bit_len.simps) auto
qed

lemma bit_len_lower: "0 < n \<Longrightarrow> 2 ^ (bit_len n - 1) \<le> n"
proof (induction n rule: bit_len.induct)
  case (1 n)
  show ?case
  proof (cases "n div 2 = 0")
    case True
    with 1 show ?thesis by (simp add: bit_len.simps)
  next
    case False
    with 1 have IH: "2 ^ (bit_len (n div 2) - 1) \<le> n div 2" by simp
    from False have "0 < bit_len (n div 2)" by (subst bit_len.simps) simp
    then obtain j where j: "bit_len (n div 2) = Suc j" by (cases "bit_len (n div 2)") auto
    with IH have "2 ^ j \<le> n div 2" by simp
    with "1.prems" j show ?thesis by (simp add: bit_len.simps [of n])
  qed
qed

lemma bit_len_pos: "0 < n \<Longrightarrow> 0 < bit_len n"
  by (subst bit_len.simps) simp

lemma bit_len_le: "n < 2 ^ k \<Longrightarrow> bit_len n \<le> k"
proof (cases "n = 0")
  case True
  then show ?thesis by (simp add: bit_len.simps)
next
  case False
  assume "n < 2 ^ k"
  with False have "(2::nat) ^ (bit_len n - 1) < 2 ^ k"
    using bit_len_lower [of n] by (meson le_less_trans neq0_conv)
  then have "bit_len n - 1 < k" by (simp add: power_strict_increasing_iff)
  then show ?thesis by simp
qed

lemma ratio_lower:
  assumes "0 < p" "0 < q"
  shows "2 powi (int (bit_len p) - int (bit_len q) - 1) \<le> val (p, q)"
proof -
  have "real (2 ^ (bit_len p - 1)) \<le> real p" using bit_len_lower [OF assms(1)] by linarith
  then have p: "2 powi (int (bit_len p) - 1) \<le> real p"
    using bit_len_pos [OF assms(1)] by (simp add: power_int_def nat_diff_distrib)
  have "real q \<le> real (2 ^ bit_len q)" using bit_len_upper [of q] by linarith
  then have q: "real q \<le> 2 powi int (bit_len q)" by simp
  have "2 powi (int (bit_len p) - int (bit_len q) - 1) =
      2 powi (int (bit_len p) - 1) / (2 powi int (bit_len q) :: real)"
    by (metis (no_types, opaque_lifting) diff_right_commute power_int_diff zero_neq_numeral)
  also have "\<dots> \<le> real p / real q" using p q assms by (intro frac_le) auto
  finally show ?thesis by (simp add: val_def)
qed

lemma f64_scaled_lower:
  assumes "0 < p" "0 < q"
  shows "2 ^ 52 \<le> val (scale2 (- f64_exponent (p, q)) (p, q))"
proof -
  define k where "k = int (bit_len p) - int (bit_len q)"
  have lo: "2 powi (k - 1) \<le> val (p, q)" using ratio_lower [OF assms] by (simp add: k_def)
  show ?thesis
  proof (cases "ratio_div (scale2 (53 - k) (p, q)) < 2 ^ 53")
    case True
    then have e: "f64_exponent (p, q) = k - 53"
      by (simp add: f64_exponent_def pick_exponent_def k_def)
    have "(2::real) ^ 52 = 2 powi (k - 1) * 2 powi (53 - k)"
      by (simp add: power_int_add [symmetric])
    also have "\<dots> \<le> val (p, q) * 2 powi (53 - k)" using lo by (intro mult_right_mono) auto
    finally show ?thesis by (simp add: val_scale2 e)
  next
    case False
    then have e: "f64_exponent (p, q) = k - 52"
      by (simp add: f64_exponent_def pick_exponent_def k_def)
    let ?s = "scale2 (53 - k) (p, q)"
    have "2 ^ 53 \<le> fst ?s div snd ?s" using False by (simp add: ratio_div_def)
    then have "real (2 ^ 53) \<le> real (fst ?s div snd ?s)" by (simp only: of_nat_le_iff)
    also have "\<dots> \<le> val ?s" by (simp add: val_def of_nat_div_le_of_nat)
    finally have "2 ^ 53 \<le> val (p, q) * 2 powi (53 - k)" by (simp add: val_scale2)
    moreover have "2 powi (53 - k) = (2 powi (52 - k) * 2 :: real)"
      by (simp add: power_int_add_1 [symmetric])
    ultimately show ?thesis by (simp add: val_scale2 e)
  qed
qed

lemma f64_of_ratio_error:
  assumes "0 < p" "0 < q"
  shows "\<bar>val (f64_ratio (f64_of_ratio (p, q))) - val (p, q)\<bar> \<le> val (p, q) / 2 ^ 53"
proof -
  define e where "e = f64_exponent (p, q)"
  define s where "s = scale2 (- e) (p, q)"
  have s: "val s = val (p, q) * 2 powi (- e)" by (simp add: s_def val_scale2)
  have lo: "2 ^ 52 \<le> val s" using f64_scaled_lower [OF assms] by (simp add: s_def e_def)
  have m: "\<bar>real (ratio_round s) - val s\<bar> \<le> 1 / 2"
    using round_div_error [of "snd s" "fst s"] assms by (simp add: ratio_round_def val_def s_def)
  have v: "val (f64_ratio (f64_of_ratio (p, q))) = real (ratio_round s) * 2 powi e"
    using assms
    by (simp add: f64_of_ratio_def round_at_def f64_ratio_def val_scale2 e_def s_def val_def [of "(_, _)"])
  have unscale: "val (p, q) = val s * 2 powi e" by (simp add: s power_int_minus)
  have "\<bar>real (ratio_round s) * 2 powi e - val s * 2 powi e\<bar> =
      \<bar>real (ratio_round s) - val s\<bar> * 2 powi e"
    by (simp add: left_diff_distrib [symmetric] abs_mult)
  also have "\<dots> \<le> 1 / 2 * 2 powi e" using m by (intro mult_right_mono) auto
  also have "\<dots> \<le> (val s / 2 ^ 53) * 2 powi e" using lo by (intro mult_right_mono) auto
  finally show ?thesis by (simp add: v unscale)
qed

lemma f64_of_nat_exact:
  assumes "0 < n" "n < 2 ^ 53"
  shows "val (f64_ratio (f64_of_nat n)) = real n" "0 < fst (f64_ratio (f64_of_nat n))"
    "0 < snd (f64_ratio (f64_of_nat n))"
proof -
  define e where "e = f64_exponent (n, 1)"
  have "bit_len 1 = 1" by (simp add: bit_len.simps)
  then have "e \<le> int (bit_len n) - 53" by (simp add: e_def f64_exponent_def pick_exponent_def)
  then have e: "e \<le> 0" using bit_len_le [OF assms(2)] by simp
  then have r: "ratio_round (scale2 (- e) (n, 1)) = n * 2 ^ nat (- e)"
    by (simp add: ratio_round_def scale2_def round_div_def Let_def)
  have q: "f64_ratio (f64_of_nat n) = scale2 e (n * 2 ^ nat (- e), 1)"
    using assms r by (simp add: f64_of_nat_def f64_of_ratio_def round_at_def f64_ratio_def e_def)
  show "val (f64_ratio (f64_of_nat n)) = real n"
    using e by (simp add: q scale2_def val_def)
  show "0 < fst (f64_ratio (f64_of_nat n))" "0 < snd (f64_ratio (f64_of_nat n))"
    using assms by (simp_all add: q scale2_def)
qed

text \<open>
  A whole number of decimal units below \<open>2 ^ 50\<close> goes through the double unharmed: dividing a tick
  count by \<open>unit * 10 ^ places\<close> and printing \<open>places\<close> decimals gives the exact decimal.
\<close>

lemma fmt_fixed_div_exact:
  assumes "0 < k" "1 < u" "k * u < 2 ^ 53"
  shows "fmt_fixed places (f64_div (f64_of_nat (k * u)) (u * 10 ^ places)) = fixed_digits places k"
proof -
  define x where "x = f64_ratio (f64_of_nat (k * u))"
  define y where "y = f64_ratio (f64_of_ratio (fst x, snd x * (u * 10 ^ places)))"
  note ex = f64_of_nat_exact [of "k * u", folded x_def]
  have pos: "0 < fst x" "0 < snd x * (u * 10 ^ places)" using ex assms by auto
  have vq: "val (fst x, snd x * (u * 10 ^ places)) = real k / 10 ^ places"
    using ex assms by (simp add: val_def field_simps)
  have err: "\<bar>val y - real k / 10 ^ places\<bar> \<le> real k / 10 ^ places / 2 ^ 53"
    using f64_of_ratio_error [OF pos] by (simp add: y_def vq)
  have yd: "0 < snd y"
    by (simp add: y_def f64_ratio_def)
  have "\<bar>val y * 10 ^ places - real k\<bar> = \<bar>val y - real k / 10 ^ places\<bar> * 10 ^ places"
  proof -
    have "val y * 10 ^ places - real k = (val y - real k / 10 ^ places) * 10 ^ places"
      by (simp add: left_diff_distrib)
    then show ?thesis by (simp only: abs_mult) simp
  qed
  also have "\<dots> \<le> real k / 10 ^ places / 2 ^ 53 * 10 ^ places"
    using err by (intro mult_right_mono) auto
  also have "\<dots> = real k / 2 ^ 53" by simp
  also have "\<dots> < 1 / 2"
  proof -
    have "k * 2 \<le> k * u" using assms(2) by (intro mult_le_mono2) simp
    then have "k * 2 < 2 ^ 53" using assms(3) by (rule le_less_trans)
    then have "k < 2 ^ 52" by simp
    then have "real k < real (2 ^ 52)" by (simp only: of_nat_less_iff)
    then show ?thesis by simp
  qed
  finally have "\<bar>real (fst y * 10 ^ places) / real (snd y) - real k\<bar> < 1 / 2"
    by (simp add: val_def)
  from round_div_unique [OF yd this] show ?thesis
    by (simp add: fmt_fixed_def f64_div_def x_def y_def)
qed

lemma fmt_fixed_example: "fmt_fixed 3 (f64_div (f64_of_nat 12345000000) 10000000) = ''1234.500''"
  by (simp add: f64_eval)

lemma fmt_fixed_not_minus [simp]: "fmt_fixed places x \<noteq> CHR ''-'' # s"
proof -
  have "show_nat n @ t \<noteq> CHR ''-'' # s" for n t
    using show_nat_hd_digit [of n] by (cases "show_nat n") (auto simp: is_digit_def byte_def)
  then show ?thesis unfolding fmt_fixed_def fixed_digits_def by blast
qed

end
