(* ===== verification/Assoc_Map.thy ===== *)
theory Assoc_Map
  imports Prelude "HOL-Library.AList"
begin

text \<open>
  The two standard maps of the source. A \<open>HashMap\<close> is an association list with distinct keys whose
  order is the (unspecified) iteration order: every theorem holds for every order. A \<open>BTreeMap\<close> is
  an association list sorted strictly by key, which is its iteration order. Both satisfy the
  interface \<open>keyed_store\<close>, stated once as a locale with the laws the clients use.
\<close>

section \<open>The interface\<close>

locale keyed_store =
  fixes get :: "'s \<Rightarrow> 'k \<Rightarrow> 'v option"
    and put :: "'k \<Rightarrow> 'v \<Rightarrow> 's \<Rightarrow> 's"
    and del :: "'k \<Rightarrow> 's \<Rightarrow> 's"
    and ok :: "'s \<Rightarrow> bool"
  assumes get_put: "ok s \<Longrightarrow> get (put k v s) = (get s)(k \<mapsto> v)"
    and get_del: "ok s \<Longrightarrow> get (del k s) = (get s)(k := None)"
    and ok_put: "ok s \<Longrightarrow> ok (put k v s)"
    and ok_del: "ok s \<Longrightarrow> ok (del k s)"
begin

lemma put_put: "ok s \<Longrightarrow> get (put k w (put k v s)) = get (put k w s)"
  by (simp add: get_put ok_put)

lemma del_put: "ok s \<Longrightarrow> get s k = None \<Longrightarrow> get (del k (put k v s)) = get s"
  by (auto simp: get_put get_del ok_put)

lemma put_dom: "ok s \<Longrightarrow> dom (get (put k v s)) = insert k (dom (get s))"
  by (simp add: get_put)

lemma del_dom: "ok s \<Longrightarrow> dom (get (del k s)) = dom (get s) - {k}"
  by (simp add: get_del)

lemma get_other: "ok s \<Longrightarrow> j \<noteq> k \<Longrightarrow> get (put k v s) j = get s j \<and> get (del k s) j = get s j"
  by (simp add: get_put get_del)

end

section \<open>HashMap\<close>

type_synonym ('k, 'v) hmap = "('k \<times> 'v) list"

definition hm_ok :: "('k, 'v) hmap \<Rightarrow> bool" where
  "hm_ok m \<longleftrightarrow> distinct (map fst m)"

definition hm_insert :: "'k \<Rightarrow> 'v \<Rightarrow> ('k, 'v) hmap \<Rightarrow> ('k, 'v) hmap" where
  "hm_insert k v m = AList.update k v m"

definition hm_remove :: "'k \<Rightarrow> ('k, 'v) hmap \<Rightarrow> ('k, 'v) hmap" where
  "hm_remove k m = AList.delete k m"

definition hm_retain :: "('k \<Rightarrow> 'v \<Rightarrow> bool) \<Rightarrow> ('k, 'v) hmap \<Rightarrow> ('k, 'v) hmap" where
  "hm_retain P m = filter (\<lambda>(k, v). P k v) m"

abbreviation hm_get :: "('k, 'v) hmap \<Rightarrow> 'k \<Rightarrow> 'v option" where
  "hm_get \<equiv> map_of"

definition hm_contains :: "'k \<Rightarrow> ('k, 'v) hmap \<Rightarrow> bool" where
  "hm_contains k m \<longleftrightarrow> map_of m k \<noteq> None"

lemma map_of_hm_insert [simp]: "map_of (hm_insert k v m) = (map_of m)(k \<mapsto> v)"
  by (simp add: hm_insert_def update_conv')

lemma map_of_hm_remove [simp]: "map_of (hm_remove k m) = (map_of m)(k := None)"
  by (simp add: hm_remove_def delete_conv')

lemma hm_ok_insert [simp]: "hm_ok m \<Longrightarrow> hm_ok (hm_insert k v m)"
  by (simp add: hm_ok_def hm_insert_def distinct_update)

lemma hm_ok_remove [simp]: "hm_ok m \<Longrightarrow> hm_ok (hm_remove k m)"
  by (simp add: hm_ok_def hm_remove_def distinct_delete)

lemma hm_ok_retain [simp]: "hm_ok m \<Longrightarrow> hm_ok (hm_retain P m)"
  by (induction m) (auto simp: hm_ok_def hm_retain_def)

lemma hm_ok_filter: "hm_ok m \<Longrightarrow> hm_ok (filter P m)"
  by (simp add: hm_ok_def distinct_map_filter)

lemma hm_ok_Nil [simp]: "hm_ok []"
  by (simp add: hm_ok_def)

lemma hm_contains_iff: "hm_contains k m \<longleftrightarrow> k \<in> fst ` set m"
  by (auto simp: hm_contains_def map_of_eq_None_iff)

lemma map_of_hm_retain:
  "hm_ok m \<Longrightarrow> map_of (hm_retain P m) k = opt_filter (P k) (map_of m k)"
  by (induction m) (auto simp: hm_ok_def hm_retain_def map_of_eq_None_iff image_iff)

lemma length_hm_insert:
  "length (hm_insert k v m) = (if hm_contains k m then length m else Suc (length m))"
  by (induction m) (auto simp: hm_insert_def hm_contains_def)

lemma length_hm_remove:
  "hm_ok m \<Longrightarrow> length (hm_remove k m) = (if hm_contains k m then length m - 1 else length m)"
proof (induction m)
  case Nil
  show ?case by (simp add: hm_remove_def hm_contains_def)
next
  case (Cons x m)
  show ?case
  proof (cases "fst x = k")
    case True
    with Cons.prems have "hm_remove k m = m"
      by (auto simp: hm_remove_def hm_ok_def intro!: AList.delete_id)
    with True show ?thesis by (cases x) (simp add: hm_remove_def hm_contains_def)
  next
    case False
    have "0 < length m" if "hm_contains k m" using that by (cases m) (auto simp: hm_contains_def)
    moreover have "hm_ok m" using Cons.prems by (simp add: hm_ok_def)
    ultimately show ?thesis using False Cons.IH
      by (cases x) (auto simp: hm_remove_def hm_contains_def)
  qed
qed

lemma hm_remove_absent: "\<not> hm_contains k m \<Longrightarrow> hm_remove k m = m"
  by (induction m) (auto simp: hm_remove_def hm_contains_def split: if_splits)

lemma set_hm_remove: "hm_ok m \<Longrightarrow> set (hm_remove k m) = {x \<in> set m. fst x \<noteq> k}"
  by (induction m) (auto simp: hm_remove_def hm_ok_def)

lemma set_hm_insert_subset: "set (hm_insert k v m) \<subseteq> insert (k, v) (set m)"
  by (induction m) (auto simp: hm_insert_def)

lemma hm_insert_nonempty [simp]: "hm_insert k v m \<noteq> []"
  by (cases m) (auto simp: hm_insert_def)

lemma hm_get_mem: "hm_ok m \<Longrightarrow> map_of m k = Some v \<longleftrightarrow> (k, v) \<in> set m"
  by (simp add: hm_ok_def)

interpretation hmap: keyed_store map_of hm_insert hm_remove hm_ok
  by unfold_locales auto

section \<open>BTreeMap\<close>

type_synonym ('k, 'v) bmap = "('k \<times> 'v) list"

fun bt_insert :: "'k::linorder \<Rightarrow> 'v \<Rightarrow> ('k, 'v) bmap \<Rightarrow> ('k, 'v) bmap" where
  "bt_insert k v [] = [(k, v)]"
| "bt_insert k v ((j, w) # m) =
     (if k < j then (k, v) # (j, w) # m
      else if k = j then (k, v) # m
      else (j, w) # bt_insert k v m)"

definition bt_remove :: "'k \<Rightarrow> ('k, 'v) bmap \<Rightarrow> ('k, 'v) bmap" where
  "bt_remove k m = filter (\<lambda>(j, _). j \<noteq> k) m"

definition bt_retain :: "('k \<Rightarrow> 'v \<Rightarrow> bool) \<Rightarrow> ('k, 'v) bmap \<Rightarrow> ('k, 'v) bmap" where
  "bt_retain P m = filter (\<lambda>(k, v). P k v) m"

definition bt_ok :: "('k::linorder, 'v) bmap \<Rightarrow> bool" where
  "bt_ok m \<longleftrightarrow> sorted_wrt (<) (map fst m)"

lemma bt_ok_Nil [simp]: "bt_ok []"
  by (simp add: bt_ok_def)

lemma bt_ok_hm_ok: "bt_ok m \<Longrightarrow> hm_ok m"
  by (simp add: bt_ok_def hm_ok_def strict_sorted_iff)

lemma fst_set_bt_insert: "fst ` set (bt_insert k v m) = insert k (fst ` set m)"
  by (induction k v m rule: bt_insert.induct) auto

lemma bt_ok_insert [simp]: "bt_ok m \<Longrightarrow> bt_ok (bt_insert k v m)"
proof (induction k v m rule: bt_insert.induct)
  case (1 k v)
  show ?case by (simp add: bt_ok_def)
next
  case (2 k v j w m)
  have "\<forall>x \<in> fst ` set (bt_insert k v m). j < x" if "\<not> k < j" "k \<noteq> j"
    using 2 that by (auto simp: fst_set_bt_insert bt_ok_def)
  with 2 show ?case by (auto simp: bt_ok_def)
qed

lemma map_of_bt_insert: "bt_ok m \<Longrightarrow> map_of (bt_insert k v m) = (map_of m)(k \<mapsto> v)"
proof (induction k v m rule: bt_insert.induct)
  case (1 k v)
  show ?case by simp
next
  case (2 k v j w m)
  then show ?case by (auto simp: bt_ok_def fun_upd_twist)
qed

lemma map_of_bt_remove [simp]: "map_of (bt_remove k m) = (map_of m)(k := None)"
  by (induction m) (auto simp: bt_remove_def)

lemma bt_ok_filter: "bt_ok m \<Longrightarrow> bt_ok (filter P m)"
  unfolding bt_ok_def by (induction m) auto

lemma bt_ok_remove [simp]: "bt_ok m \<Longrightarrow> bt_ok (bt_remove k m)"
  by (simp add: bt_remove_def bt_ok_filter)

lemma bt_ok_retain [simp]: "bt_ok m \<Longrightarrow> bt_ok (bt_retain P m)"
  by (simp add: bt_retain_def bt_ok_filter)

lemma set_bt_insert: "bt_ok m \<Longrightarrow> set (bt_insert k v m) = insert (k, v) {x \<in> set m. fst x \<noteq> k}"
  by (induction k v m rule: bt_insert.induct) (auto simp: bt_ok_def)

lemma map_of_bt_retain: "bt_ok m \<Longrightarrow> map_of (bt_retain P m) k = opt_filter (P k) (map_of m k)"
  using map_of_hm_retain [OF bt_ok_hm_ok, of m P k] by (simp add: bt_retain_def hm_retain_def)

lemma list_all_bt_insert: "P (k, v) \<Longrightarrow> list_all P m \<Longrightarrow> list_all P (bt_insert k v m)"
  by (induction k v m rule: bt_insert.induct) auto

lemma bt_insert_nonempty [simp]: "bt_insert k v m \<noteq> []"
  by (cases "(k, v, m)" rule: bt_insert.cases) auto

text \<open>An existing key keeps the key order, so an update in place is \<open>bt_insert\<close>.\<close>

lemma map_fst_bt_insert_same: "bt_ok m \<Longrightarrow> map_of m k = Some w \<Longrightarrow> map fst (bt_insert k v m) = map fst m"
proof (induction k v m rule: bt_insert.induct)
  case (1 k v)
  then show ?case by simp
next
  case (2 k v j u m)
  have "k \<noteq> j \<Longrightarrow> j < k"
    using "2.prems" map_of_SomeD [of m k w] by (force simp: bt_ok_def)
  with 2 show ?case by (auto simp: bt_ok_def split: if_splits)
qed

interpretation bmap: keyed_store map_of bt_insert bt_remove bt_ok
  by unfold_locales (auto simp: map_of_bt_insert)

end
