(* ===== verification/Json.thy ===== *)
theory Json
  imports Rust_Text Assoc_Map
begin

text \<open>
  JSON values as \<open>serde_json::Value\<close> presents them to the code (its public enum, with objects in
  the default sorted \<open>BTreeMap\<close>), the accessors the code calls, and the field helpers of
  \<open>crates/jellyrin-core/src/lib.rs\<close>. A floating-point number is kept as its bit pattern: the
  modelled code never computes with one.
\<close>

datatype jnum = PosInt nat | NegInt int | JFloat nat

datatype json =
    JNull
  | JBool bool
  | JNum jnum
  | JStr string
  | JArr "json list"
  | JObj "(string \<times> json) list"

fun as_object :: "json \<Rightarrow> (string \<times> json) list option" where
  "as_object (JObj m) = Some m"
| "as_object _ = None"

fun as_array :: "json \<Rightarrow> json list option" where
  "as_array (JArr xs) = Some xs"
| "as_array _ = None"

fun as_str :: "json \<Rightarrow> string option" where
  "as_str (JStr s) = Some s"
| "as_str _ = None"

fun as_bool :: "json \<Rightarrow> bool option" where
  "as_bool (JBool b) = Some b"
| "as_bool _ = None"

fun num_as_u64 :: "jnum \<Rightarrow> nat option" where
  "num_as_u64 (PosInt n) = Some n"
| "num_as_u64 _ = None"

fun as_i64 :: "json \<Rightarrow> int option" where
  "as_i64 (JNum (PosInt n)) = (if int n \<le> i64_max then Some (int n) else None)"
| "as_i64 (JNum (NegInt i)) = Some i"
| "as_i64 _ = None"

definition jget :: "string \<Rightarrow> json \<Rightarrow> json option" where
  "jget k v = (case v of JObj m \<Rightarrow> map_of m k | _ \<Rightarrow> None)"

text \<open>Indexing with a missing key reads \<open>Null\<close>.\<close>

definition jindex :: "json \<Rightarrow> string \<Rightarrow> json" where
  "jindex v k = unwrap_or JNull (jget k v)"

definition json_int :: "int \<Rightarrow> json" where
  "json_int i = (if i < 0 then JNum (NegInt i) else JNum (PosInt (nat i)))"

definition json_nat :: "nat \<Rightarrow> json" where
  "json_nat n = JNum (PosInt n)"

definition json_opt :: "('a \<Rightarrow> json) \<Rightarrow> 'a option \<Rightarrow> json" where
  "json_opt f x = (case x of Some v \<Rightarrow> f v | None \<Rightarrow> JNull)"

definition is_array :: "json \<Rightarrow> bool" where
  "is_array v = (as_array v \<noteq> None)"

text \<open>An object literal, inserted key by key into the sorted map.\<close>

definition json_obj :: "(string \<times> json) list \<Rightarrow> json" where
  "json_obj kvs = JObj (foldl (\<lambda>m (k, v). bt_insert k v m) [] kvs)"

text \<open>\<open>value[key] = w\<close> on an object.\<close>

definition jset :: "string \<Rightarrow> json \<Rightarrow> json \<Rightarrow> json" where
  "jset k w v = (case v of JObj m \<Rightarrow> JObj (bt_insert k w m) | _ \<Rightarrow> v)"

definition jset_some :: "string \<Rightarrow> ('a \<Rightarrow> json) \<Rightarrow> 'a option \<Rightarrow> json \<Rightarrow> json" where
  "jset_some k f x v = (case x of Some w \<Rightarrow> jset k (f w) v | None \<Rightarrow> v)"

lemma as_i64_json_int [simp]: "in_i64 i \<Longrightarrow> as_i64 (json_int i) = Some i"
  by (auto simp: json_int_def in_i64_def)

lemma foldl_bt_insert_ok: "bt_ok m \<Longrightarrow> bt_ok (foldl (\<lambda>m (k, v). bt_insert k v m) m kvs)"
  by (induction kvs arbitrary: m) auto

lemma json_obj_map_of:
  "bt_ok m \<Longrightarrow> map_of (foldl (\<lambda>m (k, v). bt_insert k v m) m kvs) = map_of m ++ map_of (rev kvs)"
  by (induction kvs arbitrary: m) (auto simp: map_of_bt_insert)

lemma jget_json_obj: "jget k (json_obj kvs) = map_of (rev kvs) k"
  by (simp add: jget_def json_obj_def json_obj_map_of)

lemma json_obj_ok: "\<exists>m. json_obj kvs = JObj m \<and> bt_ok m"
  by (simp add: json_obj_def foldl_bt_insert_ok)

section \<open>Field helpers\<close>

definition json_field_case_insensitive :: "json \<Rightarrow> string \<Rightarrow> json option" where
  "json_field_case_insensitive v field =
     Option.bind (as_object v)
       (find_map (\<lambda>(k, w). if eq_ignore_case k field then Some w else None))"

definition json_string_field :: "json \<Rightarrow> string \<Rightarrow> string option" where
  "json_string_field v field =
     Option.bind (json_field_case_insensitive v field)
       (\<lambda>w. case w of JStr s \<Rightarrow> if trim s = [] then None else Some (trim s) | _ \<Rightarrow> None)"

definition comma_delimited_values :: "string \<Rightarrow> string list" where
  "comma_delimited_values s = filter (\<lambda>w. w \<noteq> []) (map trim (split_on (CHR '','') s))"

definition json_string_list_field :: "json \<Rightarrow> string \<Rightarrow> string list option" where
  "json_string_list_field v field =
     Option.bind (json_field_case_insensitive v field)
       (\<lambda>w. case w of
              JArr xs \<Rightarrow> Some (filter (\<lambda>s. s \<noteq> []) (map trim (List.map_filter as_str xs)))
            | JStr s \<Rightarrow> Some (comma_delimited_values s)
            | _ \<Rightarrow> None)"

definition live_tv_u64_field :: "json \<Rightarrow> string \<Rightarrow> nat option" where
  "live_tv_u64_field v key =
     Option.bind (jget key v)
       (\<lambda>w. case w of JNum n \<Rightarrow> num_as_u64 n | JStr s \<Rightarrow> parse_u64 s | _ \<Rightarrow> None)"

text \<open>Two helpers of the API crate: the first of several keys with a usable value.\<close>

definition json_string_any_field :: "json \<Rightarrow> string list \<Rightarrow> string option" where
  "json_string_any_field payload keys =
     find_map (\<lambda>key. opt_filter (\<lambda>s. s \<noteq> [])
       (map_option trim (Option.bind (jget key payload) as_str))) keys"

definition json_i64_any_field :: "json \<Rightarrow> string list \<Rightarrow> int option" where
  "json_i64_any_field payload keys =
     find_map (\<lambda>key. Option.bind (jget key payload) as_i64) keys"

lemma json_string_field_trimmed:
  assumes "json_string_field v f = Some s"
  shows "s \<noteq> [] \<and> trim s = s"
proof -
  obtain w where w: "(case w of JStr r \<Rightarrow> if trim r = [] then None else Some (trim r) | _ \<Rightarrow> None) = Some s"
    using assms by (auto simp: json_string_field_def bind_eq_Some_conv)
  then show ?thesis by (cases w) (auto split: if_splits)
qed

lemma json_string_any_field_trimmed:
  "json_string_any_field v ks = Some s \<Longrightarrow> s \<noteq> [] \<and> trim s = s"
  unfolding json_string_any_field_def
  by (drule find_map_SomeD) (auto dest!: opt_filter_SomeD)

lemma comma_delimited_values_clean:
  "w \<in> set (comma_delimited_values s) \<Longrightarrow> w \<noteq> [] \<and> trim w = w"
  by (auto simp: comma_delimited_values_def)

lemma json_string_list_field_clean:
  assumes "json_string_list_field v f = Some ws" "w \<in> set ws"
  shows "w \<noteq> [] \<and> trim w = w"
proof -
  obtain j where j: "(case j of
        JArr xs \<Rightarrow> Some (filter (\<lambda>s. s \<noteq> []) (map trim (List.map_filter as_str xs)))
      | JStr s \<Rightarrow> Some (comma_delimited_values s) | _ \<Rightarrow> None) = Some ws"
    using assms(1) by (auto simp: json_string_list_field_def bind_eq_Some_conv)
  then show ?thesis
    using assms(2) by (cases j) (auto dest: comma_delimited_values_clean)
qed

lemma json_field_case_insensitive_cong:
  "eq_ignore_case f g \<Longrightarrow> json_field_case_insensitive v f = json_field_case_insensitive v g"
  by (simp add: json_field_case_insensitive_def eq_ignore_case_def)

end
