(* ===== verification/Rust_Path.thy ===== *)
theory Rust_Path
  imports Rust_Text
begin

text \<open>
  \<open>std::path::Path\<close> on Unix: components, parent and join over the path's bytes. Repeated separators
  and \<open>.\<close> components are skipped, except a leading \<open>.\<close> of a relative path.
\<close>

definition slash :: char where
  "slash = CHR ''/''"

definition path_components :: "string \<Rightarrow> string list" where
  "path_components p =
     (let segs = split_on slash p;
          lead = (if starts_with [slash] p then [[slash]]
                  else if hd segs = ''.'' then [''.''] else [])
      in lead @ filter (\<lambda>w. w \<noteq> [] \<and> w \<noteq> ''.'') segs)"

text \<open>
  \<open>Path::parent\<close>: none for the empty path and the root, otherwise the shortest prefix that keeps
  all components but the last (trailing separators are trimmed).
\<close>

definition path_parent :: "string \<Rightarrow> string option" where
  "path_parent p =
     (let cs = path_components p
      in if cs = [] \<or> cs = [[slash]] then None
         else find (\<lambda>q. path_components q = butlast cs) (prefixes p))"

definition path_join :: "string \<Rightarrow> string \<Rightarrow> string" where
  "path_join base name =
     (if starts_with [slash] name then name
      else if base = [] \<or> last base = slash then base @ name
      else base @ [slash] @ name)"

definition file_name :: "string \<Rightarrow> string option" where
  "file_name p =
     (let cs = path_components p
      in if cs = [] \<or> last cs \<in> {[slash], ''.'', ''..''} then None else Some (last cs))"

lemma path_parent_components:
  "path_parent p = Some q \<Longrightarrow> path_components q = butlast (path_components p)"
  by (auto simp: path_parent_def Let_def split: if_splits dest: find_SomeD)

lemma slash_not_dot [simp]: "slash \<noteq> CHR ''.''"
  by (simp add: slash_def)

text \<open>Appending one ordinary name to a path adds exactly that component.\<close>

definition ordinary_name :: "string \<Rightarrow> bool" where
  "ordinary_name w \<longleftrightarrow> w \<noteq> [] \<and> slash \<notin> set w \<and> w \<noteq> ''.''"

lemma ordinary_not_rooted: "ordinary_name w \<Longrightarrow> \<not> starts_with [slash] w"
  by (cases w) (auto simp: ordinary_name_def starts_with_def)

lemma hd_split_append: "d \<noteq> [] \<Longrightarrow> hd (split_on c (d @ c # w)) = hd (split_on c d)"
  by (simp add: split_on_append_sep)

lemma path_components_join:
  assumes w: "ordinary_name w" and d: "d \<noteq> []"
  shows "path_components (path_join d w) = path_components d @ [w]"
proof (cases "last d = slash")
  case False
  have root: "starts_with [slash] (d @ slash # w) = starts_with [slash] d"
    using d by (cases d) (auto simp: starts_with_def)
  show ?thesis
    using w d False
    by (simp add: path_join_def ordinary_not_rooted path_components_def Let_def root hd_split_append
        split_on_append_sep split_on_absent ordinary_name_def)
next
  case True
  then obtain e where e: "d = e @ [slash]" using d by (metis append_butlast_last_id)
  have j: "path_join d w = e @ slash # w"
    using True w d e by (simp add: path_join_def ordinary_not_rooted)
  have root: "starts_with [slash] (e @ slash # w) = starts_with [slash] (e @ [slash])"
    by (cases e) (auto simp: starts_with_def)
  have "path_components (e @ slash # w) = path_components (e @ [slash]) @ [w]"
    using w
    by (simp add: path_components_def Let_def root split_on_append_sep split_on_absent
        ordinary_name_def)
  then have "path_components (path_join d w) = path_components (e @ [slash]) @ [w]" by (simp only: j)
  then show ?thesis by (simp only: e)
qed

lemma prefix_path_join: "ordinary_name w \<Longrightarrow> prefix d (path_join d w)"
  by (auto simp: path_join_def ordinary_not_rooted)

lemma path_parent_join:
  assumes w: "ordinary_name w" and d: "d \<noteq> []"
  shows "\<exists>q. path_parent (path_join d w) = Some q \<and> path_components q = path_components d"
proof -
  let ?p = "path_join d w"
  have c: "path_components ?p = path_components d @ [w]" using assms by (rule path_components_join)
  have "w \<noteq> [slash]" using w by (auto simp: ordinary_name_def)
  with c have nt: "path_components ?p \<noteq> []" "path_components ?p \<noteq> [[slash]]" by auto
  have "find (\<lambda>q. path_components q = path_components d) (prefixes ?p) \<noteq> None"
    using prefix_path_join [OF w, of d] by (auto simp: find_None_iff)
  then obtain q where q: "find (\<lambda>q. path_components q = path_components d) (prefixes ?p) = Some q"
    by blast
  with nt c have "path_parent ?p = Some q" by (simp add: path_parent_def)
  with q show ?thesis by (auto dest: find_SomeD)
qed

lemma path_components_nonempty: "w \<in> set (path_components p) \<Longrightarrow> w \<noteq> []"
  by (auto simp: path_components_def Let_def split: if_splits)

lemma path_join_nonempty: "ordinary_name w \<Longrightarrow> path_join d w \<noteq> []"
  by (auto simp: path_join_def ordinary_name_def)

end
