(* ===== verification/Media_Paths.thy ===== *)
theory Media_Paths
  imports Json Rust_Path "HOL-Library.Product_Lexorder"
begin

text \<open>
  The persisted data model and the path classification of \<open>crates/jellyrin-core/src/lib.rs\<close>
  (lines 17--284): the shared records, the extras rule, the public item type, the television
  hierarchy derived from an episode's name and path, and the episode ordering.

  A \<open>Uuid\<close> is a natural number (its 128 bits, compared in that order); time stamps are integers;
  stored media streams are opaque JSON.
\<close>

section \<open>Records\<close>

type_synonym uuid = nat
type_synonym timestamp = int

record server_state =
  ss_server_id :: uuid
  ss_server_name :: string
  ss_startup_wizard_completed :: bool
  ss_created_at :: timestamp
  ss_updated_at :: timestamp

record startup_config =
  sc_server_name :: string
  sc_ui_culture :: string
  sc_metadata_country_code :: string
  sc_preferred_metadata_language :: string
  sc_dummy_chapter_duration :: int
  sc_chapter_image_resolution :: string
  sc_enable_remote_access :: bool

record user =
  user_id :: uuid
  user_name :: string
  user_is_administrator :: bool
  user_is_disabled :: bool
  user_sync_play_access :: string
  user_created_at :: timestamp
  user_updated_at :: timestamp

record device_token =
  token_access_token :: string
  token_user_id :: uuid
  token_device_id :: string
  token_device_name :: string
  token_client :: string
  token_version :: string

record virtual_folder =
  folder_id :: uuid
  folder_name :: string
  folder_collection_type :: "string option"
  folder_locations :: "string list"
  folder_created_at :: timestamp
  folder_updated_at :: timestamp

record media_item =
  item_id :: uuid
  item_virtual_folder_id :: uuid
  item_name :: string
  item_path :: string
  item_media_type :: string
  item_collection_type :: "string option"
  item_file_size :: "int option"
  item_runtime_ticks :: "int option"
  item_bitrate :: "int option"
  item_width :: "int option"
  item_height :: "int option"
  item_media_streams :: "json list"
  item_created_at :: timestamp
  item_updated_at :: timestamp

section \<open>Extras and item types\<close>

definition extra_directories :: "string list" where
  "extra_directories =
     [''extras'', ''featurettes'', ''special features'', ''behind the scenes'',
      ''deleted scenes'', ''interviews'', ''trailers'']"

definition is_tv_extra_media_item :: "media_item \<Rightarrow> bool" where
  "is_tv_extra_media_item item =
     is_some_and
       (\<lambda>parent. list_ex (\<lambda>c. to_ascii_lowercase (trim c) \<in> set extra_directories)
          (path_components parent))
       (path_parent (unwrap_or (item_path item) (strip_prefix ''file://'' (item_path item))))"

definition effective_media_item_type :: "media_item \<Rightarrow> string" where
  "effective_media_item_type item =
     (if item_media_type item = ''Series'' then ''Series''
      else if item_media_type item = ''Video'' then
        (case item_collection_type item of
           Some c \<Rightarrow>
             if c = ''movies'' then ''Movie''
             else if c \<in> {''musicvideos'', ''musicvideo''} then ''MusicVideo''
             else if c \<in> {''tvshows'', ''tvshow'', ''series''}
               then (if is_tv_extra_media_item item then ''Video'' else ''Episode'')
             else ''Video''
         | None \<Rightarrow> ''Video'')
      else if item_media_type item = ''Audio'' then ''Audio''
      else if item_media_type item = ''Photo'' then ''Photo''
      else if item_media_type item = ''Book'' then ''Book''
      else ''BaseItem'')"

section \<open>Season and episode numbers\<close>

definition parse_season_component :: "string \<Rightarrow> int option" where
  "parse_season_component value =
     (let value = to_ascii_lowercase (trim value)
      in Option.bind (opt_or (strip_prefix ''season'' value) (strip_prefix ''series'' value))
           (\<lambda>rest. parse_i32 (takeWhile is_digit (trim rest))))"

text \<open>
  One position of the scan for \<open>SxxEyy\<close>: no match here (the loop continues), a match whose numbers
  do not fit 32 bits (the function returns none at once), or the two numbers.
\<close>

definition sxe_at :: "string \<Rightarrow> (int \<times> int) option option" where
  "sxe_at s =
     (case s of
        [] \<Rightarrow> None
      | c # rest \<Rightarrow>
          if ascii_lower c \<noteq> CHR ''s'' then None
          else
            (let season = takeWhile is_digit rest; after = dropWhile is_digit rest
             in if season = [] \<or> after = [] \<or> ascii_lower (hd after) \<noteq> CHR ''e'' then None
                else
                  (let episode = takeWhile is_digit (tl after)
                   in if episode = [] then None
                      else Some (Option.bind (parse_i32 season)
                             (\<lambda>sn. map_option (\<lambda>en. (sn, en)) (parse_i32 episode))))))"

fun sxe_scan :: "string \<Rightarrow> (int \<times> int) option" where
  "sxe_scan [] = None"
| "sxe_scan (c # cs) =
     (if length (c # cs) \<le> 3 then None
      else case sxe_at (c # cs) of None \<Rightarrow> sxe_scan cs | Some r \<Rightarrow> r)"

definition parse_sxe_numbers :: "string \<Rightarrow> (int \<times> int) option" where
  "parse_sxe_numbers value = sxe_scan value"

record tv_episode_path_info =
  info_series_name :: string
  info_season_number :: "int option"
  info_episode_number :: "int option"

definition rposition :: "('a \<Rightarrow> bool) \<Rightarrow> 'a list \<Rightarrow> nat option" where
  "rposition P xs = find (\<lambda>i. P (xs ! i)) (rev [0..<length xs])"

definition tv_episode_path_info :: "string \<Rightarrow> string \<Rightarrow> tv_episode_path_info" where
  "tv_episode_path_info name path =
     (let components = (case path_parent path of
            Some parent \<Rightarrow> filter (\<lambda>c. c \<noteq> []) (path_components parent) | None \<Rightarrow> []);
          season_index = rposition (\<lambda>c. parse_season_component c \<noteq> None) components
      in \<lparr> info_series_name =
             (case season_index of
                Some (Suc i) \<Rightarrow> components ! i
              | _ \<Rightarrow> if components = [] then name else last components),
           info_season_number =
             opt_or (Option.bind season_index (\<lambda>i. parse_season_component (components ! i)))
               (map_option fst (parse_sxe_numbers name)),
           info_episode_number = map_option snd (parse_sxe_numbers name) \<rparr>)"

section \<open>Grouping and ordering episodes\<close>

text \<open>\<open>show_uuid\<close> stands for the \<open>Display\<close> of the \<open>uuid\<close> package.\<close>

definition tv_episode_series_key :: "(uuid \<Rightarrow> string) \<Rightarrow> media_item \<Rightarrow> string" where
  "tv_episode_series_key show_uuid item =
     (if effective_media_item_type item = ''Episode''
      then to_ascii_lowercase (info_series_name (tv_episode_path_info (item_name item) (item_path item)))
      else show_uuid (item_virtual_folder_id item))"

datatype ordering = Less | Equal | Greater

definition cmp :: "'a::linorder \<Rightarrow> 'a \<Rightarrow> ordering" where
  "cmp a b = (if a < b then Less else if a = b then Equal else Greater)"

definition then_with :: "ordering \<Rightarrow> ordering \<Rightarrow> ordering" where
  "then_with a b = (case a of Equal \<Rightarrow> b | _ \<Rightarrow> a)"

fun reverse_ordering :: "ordering \<Rightarrow> ordering" where
  "reverse_ordering Less = Greater"
| "reverse_ordering Equal = Equal"
| "reverse_ordering Greater = Less"

definition compare_tv_episode_items :: "media_item \<Rightarrow> media_item \<Rightarrow> ordering" where
  "compare_tv_episode_items left right =
     (let info = (\<lambda>item. if effective_media_item_type item = ''Episode''
            then Some (tv_episode_path_info (item_name item) (item_path item)) else None);
          series = (\<lambda>item. to_ascii_lowercase (case info item of
            Some i \<Rightarrow> info_series_name i | None \<Rightarrow> item_name item));
          season = (\<lambda>item. unwrap_or i32_max (Option.bind (info item) info_season_number));
          episode = (\<lambda>item. unwrap_or i32_max (Option.bind (info item) info_episode_number))
      in then_with (cmp (series left) (series right))
        (then_with (cmp (season left) (season right))
        (then_with (cmp (episode left) (episode right))
        (then_with (cmp (to_ascii_lowercase (item_name left)) (to_ascii_lowercase (item_name right)))
                   (cmp (item_id left) (item_id right))))))"

text \<open>The specification of the comparison: one lexicographic key per item.\<close>

definition tv_sort_key :: "media_item \<Rightarrow> string \<times> int \<times> int \<times> string \<times> nat" where
  "tv_sort_key item =
     (let info = (if effective_media_item_type item = ''Episode''
            then Some (tv_episode_path_info (item_name item) (item_path item)) else None)
      in (to_ascii_lowercase (case info of Some i \<Rightarrow> info_series_name i | None \<Rightarrow> item_name item),
          unwrap_or i32_max (Option.bind info info_season_number),
          unwrap_or i32_max (Option.bind info info_episode_number),
          to_ascii_lowercase (item_name item),
          item_id item))"

lemma cmp_simps [simp]:
  "cmp a b = Equal \<longleftrightarrow> a = b" "cmp a b = Less \<longleftrightarrow> a < b" "cmp a b = Greater \<longleftrightarrow> b < a"
  by (auto simp: cmp_def)

lemma reverse_cmp: "reverse_ordering (cmp a b) = cmp b a"
  by (auto simp: cmp_def)

lemma cmp_pair: "cmp (a, b) (c, d) = then_with (cmp a c) (cmp b d)"
  by (auto simp: cmp_def then_with_def)

lemma compare_tv_episode_items_key:
  "compare_tv_episode_items l r = cmp (tv_sort_key l) (tv_sort_key r)"
  by (simp add: compare_tv_episode_items_def tv_sort_key_def Let_def cmp_pair)

lemma tv_sort_key_id: "tv_sort_key l = tv_sort_key r \<Longrightarrow> item_id l = item_id r"
  by (simp add: tv_sort_key_def Let_def)

lemma tv_sort_key_series:
  "effective_media_item_type item = ''Episode'' \<Longrightarrow>
   fst (tv_sort_key item) = tv_episode_series_key show_uuid item"
  by (simp add: tv_sort_key_def tv_episode_series_key_def Let_def)


section \<open>The scan for season and episode numbers\<close>

lemma digit_run_takeWhile:
  "list_all is_digit d \<Longrightarrow> r = [] \<or> \<not> is_digit (hd r) \<Longrightarrow> takeWhile is_digit (d @ r) = d"
  by (induction d) (auto simp: takeWhile_eq_Nil_iff)

lemma digit_run_dropWhile:
  "list_all is_digit d \<Longrightarrow> r = [] \<or> \<not> is_digit (hd r) \<Longrightarrow> dropWhile is_digit (d @ r) = r"
  by (induction d) (auto simp: dropWhile_eq_self_iff)

lemma parse_i32_digits:
  assumes "list_all is_digit d" "d \<noteq> []" "int (digits_value d) \<le> i32_max"
  shows "parse_i32 d = Some (int (digits_value d))"
  using assms by (cases d) (auto simp: parse_i32_def parse_signed_def parse_digits_def)

definition sxe_letters :: "char \<Rightarrow> char \<Rightarrow> bool" where
  "sxe_letters s e \<longleftrightarrow> ascii_lower s = CHR ''s'' \<and> ascii_lower e = CHR ''e''"

lemma ascii_lower_e_not_digit: "ascii_lower e = CHR ''e'' \<Longrightarrow> \<not> is_digit e"
  by (auto simp: ascii_lower_def is_digit_def is_upper_def byte_def)

lemma sxe_at_match:
  assumes "sxe_letters s e" "list_all is_digit a" "list_all is_digit b" "a \<noteq> []" "b \<noteq> []"
    and "rest = [] \<or> \<not> is_digit (hd rest)"
  shows "sxe_at (s # a @ e # b @ rest) =
    Some (Option.bind (parse_i32 a) (\<lambda>sn. map_option (\<lambda>en. (sn, en)) (parse_i32 b)))"
  using assms
  by (simp add: sxe_at_def sxe_letters_def digit_run_takeWhile digit_run_dropWhile
      ascii_lower_e_not_digit)

lemma sxe_scan_skip:
  "\<forall>c \<in> set p. ascii_lower c \<noteq> CHR ''s'' \<Longrightarrow> 3 < length q \<Longrightarrow> sxe_scan (p @ q) = sxe_scan q"
  by (induction p) (auto simp: sxe_at_def)

text \<open>
  An episode name with the marker \<open>S<season>E<episode>\<close> (any letter case, any zero padding, any
  text after it that is not a digit, and any text without the letter s before it) yields exactly
  those two numbers.
\<close>

theorem parse_sxe_numbers_marker:
  assumes "\<forall>c \<in> set before. ascii_lower c \<noteq> CHR ''s''"
    and "sxe_letters s e"
    and "list_all is_digit season" "season \<noteq> []" "int (digits_value season) \<le> i32_max"
    and "list_all is_digit episode" "episode \<noteq> []" "int (digits_value episode) \<le> i32_max"
    and "rest = [] \<or> \<not> is_digit (hd rest)"
  shows "parse_sxe_numbers (before @ s # season @ e # episode @ rest) =
    Some (int (digits_value season), int (digits_value episode))"
proof -
  let ?m = "s # season @ e # episode @ rest"
  have len: "3 < length ?m" using assms(4,7) by (cases season; cases episode) auto
  then have "sxe_scan (before @ ?m) = sxe_scan ?m" using assms(1) by (rule sxe_scan_skip [rotated])
  also have "\<dots> = Option.bind (parse_i32 season) (\<lambda>sn. map_option (\<lambda>en. (sn, en)) (parse_i32 episode))"
    using len assms sxe_at_match [of s e season episode rest] by simp
  finally show ?thesis using assms by (simp add: parse_sxe_numbers_def parse_i32_digits)
qed

theorem parse_sxe_numbers_marker_witness:
  "parse_sxe_numbers (''Pilot.'' @ CHR ''S'' # ''02'' @ CHR ''e'' # ''7'' @ ''.mkv'') =
     Some (int (digits_value ''02''), int (digits_value ''7''))"
  by (rule parse_sxe_numbers_marker)
    (auto simp: sxe_letters_def char_eval digits_value_def digit_value_def)

section \<open>The season folder\<close>

lemma list_all_plain_trim_space: "trim (CHR '' '' # show_nat n) = show_nat n"
proof (rule trim_space_plain)
  have "is_digit (last (show_nat n))"
    using show_nat_digits [of n] last_in_set [OF show_nat_nonempty] by (simp add: list_all_iff)
  then show "plain_char (last (show_nat n))" by (rule digit_plain)
  show "plain_char (hd (show_nat n))" using show_nat_hd_digit by (rule digit_plain)
qed simp

lemma ascii_lower_digit: "is_digit c \<Longrightarrow> ascii_lower c = c"
  by (auto simp: ascii_lower_def is_digit_def is_upper_def)

lemma to_ascii_lowercase_show_nat [simp]: "to_ascii_lowercase (show_nat n) = show_nat n"
  using show_nat_digits [of n]
  by (auto simp: to_ascii_lowercase_def list_all_iff ascii_lower_digit intro: map_idI)

lemma parse_season_component_show:
  assumes "int n \<le> i32_max"
  shows "parse_season_component (''Season '' @ show_nat n) = Some (int n)"
proof -
  let ?s = "''Season '' @ show_nat n"
  have "is_digit (last (show_nat n))"
    using show_nat_digits [of n] last_in_set [OF show_nat_nonempty] by (simp add: list_all_iff)
  then have t: "trim ?s = ?s"
    by (intro trim_plain disjI2 conjI) (simp_all add: digit_plain plain_char_def byte_def is_digit_def)
  have l: "to_ascii_lowercase ?s = ''season'' @ CHR '' '' # show_nat n"
    by (simp add: to_ascii_lowercase_append del: append.simps) (simp add: to_ascii_lowercase_def
        char_eval)
  have p: "strip_prefix ''season'' (''season'' @ CHR '' '' # show_nat n) = Some (CHR '' '' # show_nat n)"
    by (simp add: strip_prefix_def starts_with_def)
  have d: "takeWhile is_digit (show_nat n) = show_nat n"
    using show_nat_digits [of n] digit_run_takeWhile [of "show_nat n" "[]"] by simp
  have i: "parse_i32 (show_nat n) = Some (int n)"
    using assms by (simp add: parse_i32_digits show_nat_digits digits_value_show)
  have "parse_season_component ?s =
      Option.bind (opt_or (strip_prefix ''season'' (''season'' @ CHR '' '' # show_nat n))
        (strip_prefix ''series'' (''season'' @ CHR '' '' # show_nat n)))
        (\<lambda>rest. parse_i32 (takeWhile is_digit (trim rest)))"
    by (simp only: parse_season_component_def Let_def t l)
  then show ?thesis
    by (simp only: p opt_simps bind.bind_lunit list_all_plain_trim_space d i)
qed


lemma rposition_last: "P (last xs) \<Longrightarrow> xs \<noteq> [] \<Longrightarrow> rposition P xs = Some (length xs - 1)"
  by (cases xs rule: rev_cases) (auto simp: rposition_def)

lemma season_folder_ordinary: "ordinary_name (''Season '' @ show_nat n)"
proof -
  have "slash \<notin> set (show_nat n)"
    using show_nat_digits [of n] by (auto simp: list_all_iff slash_def is_digit_def byte_def)
  then show ?thesis by (auto simp: ordinary_name_def slash_def)
qed

text \<open>
  A file in the conventional layout \<open><library>/<series>/Season <n>/<file>\<close> is filed under that
  series and that season, whatever the library path, and its episode number is the one of the
  name's marker.
\<close>

theorem tv_episode_path_info_layout:
  assumes "library \<noteq> []" "ordinary_name series" "ordinary_name entry" "int n \<le> i32_max"
  shows "tv_episode_path_info name
      (path_join (path_join (path_join library series) (''Season '' @ show_nat n)) entry) =
    \<lparr> info_series_name = series, info_season_number = Some (int n),
      info_episode_number = map_option snd (parse_sxe_numbers name) \<rparr>"
proof -
  let ?season = "''Season '' @ show_nat n"
  let ?d = "path_join (path_join library series) ?season"
  let ?cs = "path_components library @ [series] @ [?season]"
  have s: "path_components ?d = ?cs"
    using assms by (simp add: path_components_join path_join_nonempty season_folder_ordinary
        del: append.simps)
  obtain q where q: "path_parent (path_join ?d entry) = Some q" "path_components q = ?cs"
    using path_parent_join [of entry ?d] assms(3) s path_join_nonempty [OF season_folder_ordinary]
    by metis
  have cs: "filter (\<lambda>c. c \<noteq> []) ?cs = ?cs"
    using q(2) path_components_nonempty [of _ q] by (intro filter_True) auto
  have r: "rposition (\<lambda>c. parse_season_component c \<noteq> None) ?cs = Some (Suc (length (path_components library)))"
    using rposition_last [of "\<lambda>c. parse_season_component c \<noteq> None" ?cs]
      parse_season_component_show [OF assms(4)] by simp
  have i: "?cs ! length (path_components library) = series"
    "?cs ! Suc (length (path_components library)) = ?season"
    by (simp_all add: nth_append)
  show ?thesis
    unfolding tv_episode_path_info_def Let_def q option.case q(2) cs r nat.case i bind.bind_lunit
      parse_season_component_show [OF assms(4)] opt_simps ..
qed

theorem tv_episode_path_info_layout_witness:
  "tv_episode_path_info ''S01E05''
      (path_join (path_join (path_join ''/tv'' ''Show'') (''Season '' @ show_nat 1)) ''a.mkv'') =
    \<lparr> info_series_name = ''Show'', info_season_number = Some (int 1),
      info_episode_number = map_option snd (parse_sxe_numbers ''S01E05'') \<rparr>"
  by (rule tv_episode_path_info_layout) (auto simp: ordinary_name_def slash_def)

section \<open>The episode order\<close>

text \<open>
  The episode comparison is a total order whose only ties are items with the same id: swapping
  the arguments reverses the result, it is transitive, and \<open>Equal\<close> means the same id.
\<close>

theorem compare_tv_episode_items_total_order:
  "compare_tv_episode_items b a = reverse_ordering (compare_tv_episode_items a b) \<and>
   (compare_tv_episode_items a b \<noteq> Greater \<longrightarrow> compare_tv_episode_items b c \<noteq> Greater \<longrightarrow>
      compare_tv_episode_items a c \<noteq> Greater) \<and>
   (compare_tv_episode_items a b = Equal \<longrightarrow> item_id a = item_id b)"
  by (auto simp: compare_tv_episode_items_key reverse_cmp intro: tv_sort_key_id)

definition sample_item :: "nat \<Rightarrow> string \<Rightarrow> string \<Rightarrow> media_item" where
  "sample_item i name path =
     \<lparr> item_id = i, item_virtual_folder_id = 1, item_name = name, item_path = path,
       item_media_type = ''Photo'', item_collection_type = None, item_file_size = None,
       item_runtime_ticks = None, item_bitrate = None, item_width = None, item_height = None,
       item_media_streams = [], item_created_at = 0, item_updated_at = 0 \<rparr>"

lemma sample_item_key:
  "tv_sort_key (sample_item i name path) =
     (to_ascii_lowercase name, i32_max, i32_max, to_ascii_lowercase name, i)"
  by (simp add: sample_item_def tv_sort_key_def effective_media_item_type_def)

theorem compare_tv_episode_items_total_order_witness:
  "compare_tv_episode_items (sample_item 1 ''x'' ''/x'') (sample_item 3 ''x'' ''/y'') \<noteq> Greater \<and>
   item_id (sample_item 1 ''x'' ''/x'') = item_id (sample_item 1 ''x'' ''/z'')"
proof -
  let ?a = "sample_item 1 ''x'' ''/x''" and ?b = "sample_item 2 ''x'' ''/q''"
    and ?c = "sample_item 3 ''x'' ''/y''" and ?d = "sample_item 1 ''x'' ''/z''"
  have "compare_tv_episode_items ?a ?b \<noteq> Greater" "compare_tv_episode_items ?b ?c \<noteq> Greater"
    "compare_tv_episode_items ?a ?d = Equal"
    by (simp_all add: compare_tv_episode_items_key sample_item_key)
  then show ?thesis
    using compare_tv_episode_items_total_order [of ?b ?a ?c]
      compare_tv_episode_items_total_order [of ?d ?a ?c] by blast
qed

text \<open>
  In every list sorted by the episode comparison the episodes of one series are contiguous: an
  episode between two episodes with the same grouping key has that key as well.
\<close>

theorem episodes_of_a_series_contiguous:
  assumes "compare_tv_episode_items a b \<noteq> Greater" "compare_tv_episode_items b c \<noteq> Greater"
    and "\<forall>item \<in> {a, b, c}. effective_media_item_type item = ''Episode''"
    and "tv_episode_series_key show_uuid a = tv_episode_series_key show_uuid c"
  shows "tv_episode_series_key show_uuid b = tv_episode_series_key show_uuid a"
proof -
  have le: "tv_sort_key a \<le> tv_sort_key b" "tv_sort_key b \<le> tv_sort_key c"
    using assms(1,2) by (auto simp: compare_tv_episode_items_key)
  have "fst (tv_sort_key a) \<le> fst (tv_sort_key b)" "fst (tv_sort_key b) \<le> fst (tv_sort_key c)"
    using le by (auto simp: less_eq_prod_def)
  with assms(3,4) show ?thesis by (simp add: tv_sort_key_series [of _ show_uuid])
qed

definition sample_episode :: "nat \<Rightarrow> string \<Rightarrow> media_item" where
  "sample_episode i name = (sample_item i name ''/A/Season 1/x'')
     \<lparr> item_media_type := ''Video'', item_collection_type := Some ''tvshows'' \<rparr>"

lemmas path_eval = path_components_def path_parent_def slash_def starts_with_def strip_prefix_def
  to_ascii_lowercase_def plain_char_def char_eval trim_plain

lemma sample_episode_type: "effective_media_item_type (sample_episode i name) = ''Episode''"
  by (simp add: sample_episode_def sample_item_def effective_media_item_type_def
      is_tv_extra_media_item_def extra_directories_def path_eval)

lemma sample_episode_info:
  "tv_episode_path_info name ''/A/Season 1/x'' =
    \<lparr> info_series_name = ''A'', info_season_number = Some 1,
      info_episode_number = map_option snd (parse_sxe_numbers name) \<rparr>"
  by (simp add: tv_episode_path_info_def rposition_def parse_season_component_def path_eval
      parse_i32_digits digits_value_def digit_value_def trim_space_plain)

lemma sample_episode_key:
  "tv_sort_key (sample_episode i name) =
    (''a'', 1, unwrap_or i32_max (map_option snd (parse_sxe_numbers name)), to_ascii_lowercase name, i)"
  by (simp add: tv_sort_key_def sample_episode_type)
    (simp add: sample_episode_def sample_item_def sample_episode_info to_ascii_lowercase_def char_eval)

theorem episodes_of_a_series_contiguous_witness:
  "tv_episode_series_key show_nat (sample_episode 2 ''S01E02'') =
   tv_episode_series_key show_nat (sample_episode 1 ''S01E01'')"
proof (rule episodes_of_a_series_contiguous)
  have eval: "parse_sxe_numbers ''S01E01'' = Some (1, 1)" "parse_sxe_numbers ''S01E02'' = Some (1, 2)"
    "parse_sxe_numbers ''S01E03'' = Some (1, 3)"
    by (simp_all add: parse_sxe_numbers_def sxe_at_def char_eval parse_i32_digits digits_value_def
        digit_value_def)
  show "compare_tv_episode_items (sample_episode 1 ''S01E01'') (sample_episode 2 ''S01E02'') \<noteq> Greater"
    "compare_tv_episode_items (sample_episode 2 ''S01E02'') (sample_episode 3 ''S01E03'') \<noteq> Greater"
    by (simp_all add: compare_tv_episode_items_key sample_episode_key eval)
  show "\<forall>item \<in> {sample_episode 1 ''S01E01'', sample_episode 2 ''S01E02'', sample_episode 3 ''S01E03''}.
      effective_media_item_type item = ''Episode''"
    by (simp add: sample_episode_type)
  show "tv_episode_series_key show_nat (sample_episode 1 ''S01E01'') =
      tv_episode_series_key show_nat (sample_episode 3 ''S01E03'')"
    by (simp add: tv_sort_key_series [symmetric] sample_episode_type sample_episode_key)
qed

end
