(* ===== verification/Hls_Command.thy ===== *)
theory Hls_Command
  imports Rust_Float
begin

text \<open>
  The HLS request and the FFmpeg command builder of \<open>crates/jellyrin-core/src/lib.rs\<close>
  (lines 286--583, 634--942 and the formatting helpers). The long builder is split into the groups of
  arguments it appends, in its order: \<open>build_hls_ffmpeg_command\<close> concatenates them. Widths and rates
  are naturals bounded by their source types, stream indexes and ticks are \<open>i64\<close> as \<open>int\<close>.
\<close>

section \<open>Streams, presets and encoder defaults\<close>

record transcode_stream_selection =
  sel_video_stream_index :: "int option"
  sel_audio_stream_index :: "int option"
  sel_subtitle_stream_index :: "int option"

datatype hls_stream_mode = Copy | Encode | Drop

datatype h264_preset = Ultrafast | Superfast | Veryfast | Faster | Fast | Medium

record hls_encoding_config =
  enc_video_threads :: "nat option"
  enc_video_preset :: h264_preset

definition default_encoding_config :: hls_encoding_config where
  "default_encoding_config = \<lparr> enc_video_threads = Some 2, enc_video_preset = Ultrafast \<rparr>"

fun preset_value :: "h264_preset \<Rightarrow> string" where
  "preset_value Ultrafast = ''ultrafast''"
| "preset_value Superfast = ''superfast''"
| "preset_value Veryfast = ''veryfast''"
| "preset_value Faster = ''faster''"
| "preset_value Fast = ''fast''"
| "preset_value Medium = ''medium''"

definition preset_of_name :: "string \<Rightarrow> h264_preset option" where
  "preset_of_name s =
     (if s = ''ultrafast'' then Some Ultrafast
      else if s = ''superfast'' then Some Superfast
      else if s = ''veryfast'' then Some Veryfast
      else if s = ''faster'' then Some Faster
      else if s = ''fast'' then Some Fast
      else if s = ''medium'' then Some Medium
      else None)"

definition encoding_config_from_values ::
  "string option \<Rightarrow> string option \<Rightarrow> hls_encoding_config" where
  "encoding_config_from_values preset threads =
     \<lparr> enc_video_threads =
         (case threads of
            Some v \<Rightarrow>
              if eq_ignore_case v ''auto'' then None
              else opt_or (opt_filter (\<lambda>n. 1 \<le> n \<and> n \<le> 64) (parse_u16 v))
                     (enc_video_threads default_encoding_config)
          | None \<Rightarrow> enc_video_threads default_encoding_config),
       enc_video_preset =
         unwrap_or (enc_video_preset default_encoding_config)
           (Option.bind preset (\<lambda>v. preset_of_name (to_ascii_lowercase (trim v)))) \<rparr>"

datatype h264_profile = Baseline | MainProfile | High

fun profile_value :: "h264_profile \<Rightarrow> string" where
  "profile_value Baseline = ''baseline''"
| "profile_value MainProfile = ''main''"
| "profile_value High = ''high''"

datatype aac_profile = LowComplexity

fun aac_profile_str :: "aac_profile \<Rightarrow> string" where
  "aac_profile_str LowComplexity = ''lc''"

fun aac_profile_value :: "aac_profile \<Rightarrow> string" where
  "aac_profile_value LowComplexity = ''aac_low''"

section \<open>The request\<close>

record hls_transcode_request =
  tr_input_path :: string
  tr_output_playlist_path :: string
  tr_segment_pattern_path :: string
  tr_selection :: transcode_stream_selection
  tr_include_video :: bool
  tr_video_mode :: hls_stream_mode
  tr_audio_mode :: hls_stream_mode
  tr_start_position_ticks :: int
  tr_duration_ticks :: "int option"
  tr_hls_start_number :: "nat option"
  tr_output_ts_offset_ticks :: "int option"
  tr_event_playlist :: bool
  tr_hls_list_size :: nat
  tr_hls_delete_threshold :: "nat option"
  tr_hls_delete_segments :: bool
  tr_hls_omit_endlist :: bool
  tr_hls_temp_file :: bool
  tr_max_video_width :: "nat option"
  tr_max_video_height :: "nat option"
  tr_video_bitrate :: "nat option"
  tr_video_profile :: "h264_profile option"
  tr_video_level :: "nat option"
  tr_max_video_frame_rate_millihertz :: "nat option"
  tr_video_threads :: "nat option"
  tr_video_preset :: h264_preset
  tr_audio_bitrate :: "nat option"
  tr_audio_profile :: "aac_profile option"
  tr_audio_channels :: "nat option"
  tr_segment_time_seconds :: nat
  tr_burn_in_subtitle :: bool
  tr_teletext_page :: "nat option"
  tr_input_readrate_percent :: "nat option"
  tr_input_readrate_initial_burst_seconds :: "nat option"

definition new_with_encoding_config ::
  "string \<Rightarrow> string \<Rightarrow> string \<Rightarrow> transcode_stream_selection \<Rightarrow> hls_encoding_config \<Rightarrow>
   hls_transcode_request" where
  "new_with_encoding_config input output pattern selection encoding =
     \<lparr> tr_input_path = input, tr_output_playlist_path = output,
       tr_segment_pattern_path = pattern, tr_selection = selection,
       tr_include_video = True, tr_video_mode = Encode, tr_audio_mode = Encode,
       tr_start_position_ticks = 0, tr_duration_ticks = None, tr_hls_start_number = None,
       tr_output_ts_offset_ticks = None, tr_event_playlist = False, tr_hls_list_size = 0,
       tr_hls_delete_threshold = None, tr_hls_delete_segments = False,
       tr_hls_omit_endlist = False, tr_hls_temp_file = False, tr_max_video_width = None,
       tr_max_video_height = None, tr_video_bitrate = None, tr_video_profile = None,
       tr_video_level = None, tr_max_video_frame_rate_millihertz = None,
       tr_video_threads = enc_video_threads encoding,
       tr_video_preset = enc_video_preset encoding, tr_audio_bitrate = None,
       tr_audio_profile = None, tr_audio_channels = None, tr_segment_time_seconds = 3,
       tr_burn_in_subtitle = False, tr_teletext_page = None,
       tr_input_readrate_percent = None, tr_input_readrate_initial_burst_seconds = None \<rparr>"

datatype ffmpeg_workload = Remux | AudioEncode | VideoEncode

record ffmpeg_command_spec =
  spec_program :: string
  spec_args :: "string list"
  spec_workload :: "ffmpeg_workload option"

definition spec_new :: "string \<Rightarrow> string list \<Rightarrow> ffmpeg_command_spec" where
  "spec_new program args = \<lparr> spec_program = program, spec_args = args, spec_workload = None \<rparr>"

definition with_workload :: "ffmpeg_workload \<Rightarrow> ffmpeg_command_spec \<Rightarrow> ffmpeg_command_spec" where
  "with_workload w spec = spec\<lparr> spec_workload := Some w \<rparr>"

section \<open>Formatting helpers\<close>

definition selected_stream_map :: "string \<Rightarrow> int option \<Rightarrow> bool \<Rightarrow> string list" where
  "selected_stream_map stream_type stream_index optional =
     (let suffix = (if optional then ''?'' else [])
      in [''-map'',
          (case stream_index of
             Some i \<Rightarrow> if 0 \<le> i then ''0:'' @ show_int i @ suffix
                       else ''0:'' @ stream_type @ '':0'' @ suffix
           | None \<Rightarrow> ''0:'' @ stream_type @ '':0'' @ suffix)])"

definition ffmpeg_stream_filter_input :: "string \<Rightarrow> int option \<Rightarrow> string" where
  "ffmpeg_stream_filter_input stream_type stream_index =
     (case stream_index of
        Some i \<Rightarrow> if 0 \<le> i then ''[0:'' @ show_int i @ '']'' else ''[0:'' @ stream_type @ '':0]''
      | None \<Rightarrow> ''[0:'' @ stream_type @ '':0]'')"

definition scale_filter :: "nat option \<Rightarrow> nat option \<Rightarrow> string" where
  "scale_filter max_width max_height =
     (let width = unwrap_or ''-2'' (map_option show_nat max_width);
          height = unwrap_or ''-2'' (map_option show_nat max_height);
          quote = [char_of (39::nat)]
      in ''scale='' @ quote @ ''min('' @ width @ '',iw)'' @ quote @ '':'' @ quote @ ''min('' @ height @
         '',ih)'' @ quote @ '':force_original_aspect_ratio=decrease'')"

definition format_h264_level :: "nat \<Rightarrow> string" where
  "format_h264_level level = show_nat (level div 10) @ ''.'' @ show_nat (level mod 10)"

definition format_millihertz :: "nat \<Rightarrow> string" where
  "format_millihertz v =
     (if v mod 1000 = 0 then show_nat (v div 1000)
      else trim_end_char (CHR ''0'')
             (show_nat (v div 1000) @ ''.'' @ pad_zero 3 (show_nat (v mod 1000))))"

definition format_ticks_as_seconds :: "int \<Rightarrow> string" where
  "format_ticks_as_seconds ticks =
     fmt_fixed 3 (f64_div (f64_of_nat (nat (max 0 ticks))) 10000000)"

definition non_empty :: "string \<Rightarrow> string option" where
  "non_empty s = (if s = [] then None else Some s)"

section \<open>The command builder\<close>

definition selects_subtitle :: "hls_transcode_request \<Rightarrow> bool" where
  "selects_subtitle r = is_some_and (\<lambda>i. 0 \<le> i) (sel_subtitle_stream_index (tr_selection r))"

definition should_burn_subtitle :: "hls_transcode_request \<Rightarrow> bool" where
  "should_burn_subtitle r \<longleftrightarrow> tr_include_video r \<and> tr_burn_in_subtitle r \<and> selects_subtitle r"

definition effective_video_mode :: "hls_transcode_request \<Rightarrow> hls_stream_mode" where
  "effective_video_mode r = (if should_burn_subtitle r then Encode else tr_video_mode r)"

definition decodes_teletext_page :: "hls_transcode_request \<Rightarrow> bool" where
  "decodes_teletext_page r \<longleftrightarrow>
     is_some_and (\<lambda>page. 100 \<le> page \<and> page \<le> 899) (tr_teletext_page r) \<and> selects_subtitle r \<and>
     \<not> should_burn_subtitle r"

definition encodes_video :: "hls_transcode_request \<Rightarrow> bool" where
  "encodes_video r \<longleftrightarrow> tr_include_video r \<and> effective_video_mode r = Encode"

definition positive_threads :: "hls_transcode_request \<Rightarrow> nat option" where
  "positive_threads r = opt_filter (\<lambda>n. 0 < n) (tr_video_threads r)"

text \<open>The global options, the filter threads, the seek, the read rate and the teletext decoder.\<close>

definition hls_global_args :: "hls_transcode_request \<Rightarrow> string list" where
  "hls_global_args r =
     [''-hide_banner'', ''-nostdin'', ''-y'', ''-loglevel'', ''warning'', ''-nostats'',
      ''-stats_period'', ''2''] @
     (case positive_threads r of
        Some n \<Rightarrow>
          if encodes_video r
          then [''-filter_threads'', show_nat n, ''-filter_complex_threads'', show_nat n] else []
      | None \<Rightarrow> [])"

definition hls_pre_input_args :: "hls_transcode_request \<Rightarrow> string list" where
  "hls_pre_input_args r =
     (if 0 < tr_start_position_ticks r
      then [''-ss'', format_ticks_as_seconds (tr_start_position_ticks r)] else []) @
     (case opt_filter (\<lambda>p. 1 \<le> p \<and> p \<le> 1000) (tr_input_readrate_percent r) of
        Some p \<Rightarrow>
          [''-readrate'', fmt_fixed 2 (f64_div (f64_of_nat p) 100)] @
          (case opt_filter (\<lambda>s. 0 < s) (tr_input_readrate_initial_burst_seconds r) of
             Some s \<Rightarrow> [''-readrate_initial_burst'', show_nat s] | None \<Rightarrow> [])
      | None \<Rightarrow> []) @
     (if decodes_teletext_page r
      then [''-txt_page'', show_nat (unwrap_or 0 (tr_teletext_page r)), ''-txt_format'', ''text'']
      else [])"

definition hls_input_args :: "hls_transcode_request \<Rightarrow> string list" where
  "hls_input_args r =
     [''-i'', tr_input_path r] @
     (case tr_duration_ticks r of
        Some d \<Rightarrow> if 0 < d then [''-t'', format_ticks_as_seconds d] else []
      | None \<Rightarrow> [])"

text \<open>Which streams are mapped.\<close>

definition hls_map_args :: "hls_transcode_request \<Rightarrow> string list" where
  "hls_map_args r =
     (let sel = tr_selection r
      in (if should_burn_subtitle r then
            [''-filter_complex'',
             ffmpeg_stream_filter_input ''v'' (sel_video_stream_index sel) @
             ffmpeg_stream_filter_input ''s'' (sel_subtitle_stream_index sel) @
             ''overlay=eof_action=pass:repeatlast=0[v]'', ''-map'', ''[v]'']
          else if tr_include_video r \<and> effective_video_mode r \<noteq> Drop
          then selected_stream_map ''v'' (sel_video_stream_index sel) True
          else [''-vn'']) @
         (if tr_audio_mode r = Drop then [''-an'']
          else selected_stream_map ''a'' (sel_audio_stream_index sel) True) @
         (if should_burn_subtitle r then [''-sn'']
          else if selects_subtitle r
          then selected_stream_map ''s'' (sel_subtitle_stream_index sel) False @
               [''-c:s'', ''webvtt''] @
               (if decodes_teletext_page r then [''-threads:s'', ''1''] else [])
          else [''-sn'']))"

text \<open>The encoders.\<close>

definition hls_video_filters :: "hls_transcode_request \<Rightarrow> string list" where
  "hls_video_filters r =
     (if tr_max_video_width r \<noteq> None \<or> tr_max_video_height r \<noteq> None
      then [scale_filter (tr_max_video_width r) (tr_max_video_height r)] else []) @
     (case opt_filter (\<lambda>f. 0 < f) (tr_max_video_frame_rate_millihertz r) of
        Some f \<Rightarrow> [''fps='' @ format_millihertz f] | None \<Rightarrow> [])"

definition hls_encoder_args :: "hls_transcode_request \<Rightarrow> string list" where
  "hls_encoder_args r =
     [''-c:v'', ''libx264'', ''-preset'', preset_value (tr_video_preset r), ''-profile:v'',
      profile_value (unwrap_or MainProfile (tr_video_profile r))] @
     (case opt_filter (\<lambda>l. 10 \<le> l \<and> l \<le> 62) (tr_video_level r) of
        Some l \<Rightarrow> [''-level:v'', format_h264_level l] | None \<Rightarrow> []) @
     [''-pix_fmt'', ''yuv420p'', ''-force_key_frames'',
      ''expr:gte(t,n_forced*'' @ show_nat (max 1 (tr_segment_time_seconds r)) @ '')'',
      ''-sc_threshold'', ''0''] @
     (case positive_threads r of Some n \<Rightarrow> [''-threads:v'', show_nat n] | None \<Rightarrow> []) @
     (case tr_video_bitrate r of
        Some b \<Rightarrow>
          [''-b:v'', show_nat b, ''-maxrate'', show_nat b, ''-bufsize'',
           show_nat (sat_mul u32_max b 2)]
      | None \<Rightarrow> []) @
     (if hls_video_filters r = [] then [] else [''-vf'', join_with '','' (hls_video_filters r)])"

definition hls_video_args :: "hls_transcode_request \<Rightarrow> string list" where
  "hls_video_args r =
     (if tr_include_video r \<and> effective_video_mode r = Copy then [''-c:v'', ''copy'']
      else if tr_include_video r \<and> effective_video_mode r = Encode then hls_encoder_args r
      else [])"

definition hls_audio_args :: "hls_transcode_request \<Rightarrow> string list" where
  "hls_audio_args r =
     (case tr_audio_mode r of
        Copy \<Rightarrow> [''-c:a'', ''copy'']
      | Encode \<Rightarrow>
          [''-c:a'', ''aac''] @
          (case tr_audio_profile r of
             Some p \<Rightarrow> [''-profile:a'', aac_profile_value p] | None \<Rightarrow> []) @
          [''-ac'', show_nat (unwrap_or 2 (opt_filter (\<lambda>c. 1 \<le> c \<and> c \<le> 8) (tr_audio_channels r)))] @
          (case tr_audio_bitrate r of Some b \<Rightarrow> [''-b:a'', show_nat b] | None \<Rightarrow> [])
      | Drop \<Rightarrow> [])"

text \<open>The muxer: interleaving, time stamps, playlist shape and progress reporting.\<close>

definition hls_timing_args :: "hls_transcode_request \<Rightarrow> string list" where
  "hls_timing_args r =
     (if \<not> should_burn_subtitle r \<and> selects_subtitle r
      then [''-max_interleave_delta'', show_nat 1000000] else []) @
     (case tr_output_ts_offset_ticks r of
        Some t \<Rightarrow> if 0 < t then [''-output_ts_offset'', format_ticks_as_seconds t] else []
      | None \<Rightarrow> []) @
     [''-muxdelay'', ''0'', ''-muxpreload'', ''0'']"

definition hls_flags :: "hls_transcode_request \<Rightarrow> string list" where
  "hls_flags r =
     (if tr_hls_delete_segments r then [''delete_segments''] else []) @
     (if tr_hls_omit_endlist r then [''omit_endlist''] else []) @
     (if tr_hls_temp_file r then [''temp_file''] else []) @
     (if encodes_video r then [''independent_segments''] else [])"

definition hls_playlist_args :: "hls_transcode_request \<Rightarrow> string list" where
  "hls_playlist_args r =
     [''-f'', ''hls'', ''-hls_time'', show_nat (max 1 (tr_segment_time_seconds r)),
      ''-hls_playlist_type'', if tr_event_playlist r then ''event'' else ''vod'',
      ''-hls_list_size'', show_nat (tr_hls_list_size r)] @
     (case opt_filter (\<lambda>v. 0 < v) (tr_hls_delete_threshold r) of
        Some v \<Rightarrow> [''-hls_delete_threshold'', show_nat v] | None \<Rightarrow> []) @
     (if hls_flags r = [] then [] else [''-hls_flags'', join_with ''+'' (hls_flags r)]) @
     (case tr_hls_start_number r of
        Some n \<Rightarrow> [''-start_number'', show_nat n] | None \<Rightarrow> [])"

definition hls_output_args :: "hls_transcode_request \<Rightarrow> string list" where
  "hls_output_args r =
     [''-hls_segment_filename'', tr_segment_pattern_path r, ''-progress'', ''pipe:2'',
      tr_output_playlist_path r]"

definition hls_workload :: "hls_transcode_request \<Rightarrow> ffmpeg_workload" where
  "hls_workload r =
     (if tr_include_video r \<and> effective_video_mode r = Encode then VideoEncode
      else if tr_audio_mode r = Encode \<or> selects_subtitle r \<and> \<not> decodes_teletext_page r
      then AudioEncode
      else Remux)"

definition hls_arg_groups :: "hls_transcode_request \<Rightarrow> string list list" where
  "hls_arg_groups r =
     [hls_global_args r, hls_pre_input_args r, hls_input_args r, hls_map_args r, hls_video_args r,
      hls_audio_args r, hls_timing_args r, hls_playlist_args r, hls_output_args r]"

definition build_hls_ffmpeg_command :: "hls_transcode_request \<Rightarrow> ffmpeg_command_spec" where
  "build_hls_ffmpeg_command r =
     with_workload (hls_workload r) (spec_new ''ffmpeg'' (concat (hls_arg_groups r)))"

definition build_hls_ffmpeg_command_from_stdin ::
  "hls_transcode_request \<Rightarrow> ffmpeg_command_spec" where
  "build_hls_ffmpeg_command_from_stdin r =
     (let command = build_hls_ffmpeg_command (r\<lparr> tr_input_path := ''pipe:0'' \<rparr>);
          args = filter (\<lambda>a. a \<noteq> ''-nostdin'') (spec_args command);
          before = takeWhile (\<lambda>a. a \<noteq> ''-i'') args;
          after = dropWhile (\<lambda>a. a \<noteq> ''-i'') args
      in command\<lparr> spec_args := (if after = [] then args else before @ [''-f'', ''mpegts''] @ after) \<rparr>)"

section \<open>What the command encodes\<close>

text \<open>
  A codec choice is the codec option followed directly by the codec's name. No group but the video
  and audio groups makes one, and no group starts with a codec name, so the choices of the whole
  command are those of its groups.
\<close>

definition codec_pair :: "string \<Rightarrow> string \<Rightarrow> bool" where
  "codec_pair flag codec \<longleftrightarrow>
     flag \<in> {''-c:v'', ''-c:a''} \<and> codec \<in> {''libx264'', ''aac'', ''copy''}"

lemma quiet_options:
  assumes "codec_pair a b"
  shows "quiet a b []"
    "f \<noteq> a \<Longrightarrow> f \<noteq> b \<Longrightarrow> quiet a b [f]"
    "f \<noteq> a \<Longrightarrow> f \<noteq> b \<Longrightarrow> g \<noteq> b \<Longrightarrow> quiet a b (g # w) \<Longrightarrow> quiet a b (f # v # g # w)"
    "f \<noteq> a \<Longrightarrow> f \<noteq> b \<Longrightarrow> quiet a b [f, v]"
  using assms by (auto simp: quiet_def)

lemma codec_pair_flag:
  "codec_pair a b \<Longrightarrow> f \<notin> {''-c:v'', ''-c:a''} \<Longrightarrow> f \<noteq> a"
  "codec_pair a b \<Longrightarrow> f \<notin> {''libx264'', ''aac'', ''copy''} \<Longrightarrow> f \<noteq> b"
  by (auto simp: codec_pair_def)

lemma hls_global_args_quiet: "codec_pair a b \<Longrightarrow> quiet a b (hls_global_args r)"
  unfolding hls_global_args_def
  by (intro quiet_intros) (simp_all add: quiet_def codec_pair_flag)

lemma hls_pre_input_args_quiet: "codec_pair a b \<Longrightarrow> quiet a b (hls_pre_input_args r)"
  unfolding hls_pre_input_args_def
  by (intro quiet_intros) (simp_all add: quiet_def codec_pair_flag)

lemma hls_input_args_quiet: "codec_pair a b \<Longrightarrow> quiet a b (hls_input_args r)"
  unfolding hls_input_args_def
  by (intro quiet_intros) (simp_all add: quiet_def codec_pair_flag)

lemma selected_stream_map_quiet: "codec_pair a b \<Longrightarrow> quiet a b (selected_stream_map t i opt)"
  unfolding selected_stream_map_def Let_def by (simp add: quiet_def codec_pair_flag)

lemma hls_map_args_quiet: "codec_pair a b \<Longrightarrow> quiet a b (hls_map_args r)"
  unfolding hls_map_args_def Let_def
  by (intro quiet_intros selected_stream_map_quiet) (simp_all add: quiet_def codec_pair_flag)

lemma hls_timing_args_quiet: "codec_pair a b \<Longrightarrow> quiet a b (hls_timing_args r)"
  unfolding hls_timing_args_def
  by (intro quiet_intros) (simp_all add: quiet_def codec_pair_flag)

lemma hls_playlist_args_quiet: "codec_pair a b \<Longrightarrow> quiet a b (hls_playlist_args r)"
  unfolding hls_playlist_args_def
  by (intro quiet_intros) (simp_all add: quiet_def codec_pair_flag)

lemma hls_output_args_quiet: "codec_pair a b \<Longrightarrow> quiet a b (hls_output_args r)"
  unfolding hls_output_args_def by (simp add: quiet_def codec_pair_flag)

lemmas quiet_groups = hls_global_args_quiet hls_pre_input_args_quiet hls_input_args_quiet
  hls_map_args_quiet hls_timing_args_quiet hls_playlist_args_quiet hls_output_args_quiet

lemma hls_encoder_args_pair:
  assumes "codec_pair a b"
  shows "has_pair a b (hls_encoder_args r) \<longleftrightarrow> a = ''-c:v'' \<and> b = ''libx264''"
proof -
  let ?first = "[''-c:v'', ''libx264'', ''-preset'', preset_value (tr_video_preset r), ''-profile:v'',
      profile_value (unwrap_or MainProfile (tr_video_profile r))]"
  obtain rest where rest: "hls_encoder_args r = ?first @ rest" "quiet a b rest"
    by (rule that, unfold hls_encoder_args_def, rule refl, intro quiet_intros) (simp_all add: quiet_def codec_pair_flag [OF assms])
  have "has_pair a b (hls_encoder_args r) = has_pair a b ?first"
    unfolding rest(1) by (rule has_pair_append_quiet(1) [OF rest(2)])
  also have "\<dots> \<longleftrightarrow> a = ''-c:v'' \<and> b = ''libx264''"
    using assms by (auto simp: codec_pair_def)
  finally show ?thesis .
qed

lemma hls_video_args_pair:
  assumes "codec_pair a b"
  shows "has_pair a b (hls_video_args r) \<longleftrightarrow>
    a = ''-c:v'' \<and> (b = ''libx264'' \<and> encodes_video r \<or>
      b = ''copy'' \<and> tr_include_video r \<and> effective_video_mode r = Copy)"
  using assms by (auto simp: hls_video_args_def hls_encoder_args_pair encodes_video_def)

lemma hls_audio_args_pair:
  assumes "codec_pair a b"
  shows "has_pair a b (hls_audio_args r) \<longleftrightarrow>
    a = ''-c:a'' \<and> (b = ''aac'' \<and> tr_audio_mode r = Encode \<or> b = ''copy'' \<and> tr_audio_mode r = Copy)"
proof (cases "tr_audio_mode r")
  case Encode
  obtain rest where rest: "hls_audio_args r = [''-c:a'', ''aac''] @ rest" "quiet a b rest"
    by (rule that, unfold hls_audio_args_def Encode hls_stream_mode.case, rule refl, intro quiet_intros) (simp_all add: quiet_def codec_pair_flag [OF assms])
  have "has_pair a b (hls_audio_args r) = has_pair a b [''-c:a'', ''aac'']"
    unfolding rest(1) by (rule has_pair_append_quiet(1) [OF rest(2)])
  with Encode show ?thesis by auto
qed (auto simp: hls_audio_args_def)

lemma hls_arg_groups_heads:
  assumes "codec_pair a b" "xs \<in> set (hls_arg_groups r)"
  shows "xs = [] \<or> hd xs \<noteq> b"
proof -
  have v: "hls_video_args r = [] \<or> hd (hls_video_args r) = ''-c:v''"
    by (simp add: hls_video_args_def hls_encoder_args_def)
  have a: "hls_audio_args r = [] \<or> hd (hls_audio_args r) = ''-c:a''"
    by (cases "tr_audio_mode r") (simp_all add: hls_audio_args_def)
  have "b \<noteq> ''-c:v''" "b \<noteq> ''-c:a''" using assms(1) by (auto simp: codec_pair_def)
  with v a assms quiet_groups [OF assms(1), of r] show ?thesis
    by (auto simp: hls_arg_groups_def quiet_def)
qed

text \<open>The codec choices of a whole command are those of its video and its audio group.\<close>

lemma command_pair:
  assumes "codec_pair a b"
  shows "has_pair a b (spec_args (build_hls_ffmpeg_command r)) \<longleftrightarrow>
    has_pair a b (hls_video_args r) \<or> has_pair a b (hls_audio_args r)"
proof -
  have "has_pair a b (concat (hls_arg_groups r)) \<longleftrightarrow>
      (\<exists>xs \<in> set (hls_arg_groups r). has_pair a b xs)"
    using hls_arg_groups_heads [OF assms] by (intro has_pair_concat) blast
  also have "\<dots> \<longleftrightarrow> has_pair a b (hls_video_args r) \<or> has_pair a b (hls_audio_args r)"
    using quiet_groups [OF assms, of r] by (simp add: hls_arg_groups_def quiet_def)
  finally show ?thesis by (simp add: build_hls_ffmpeg_command_def with_workload_def spec_new_def)
qed

text \<open>
  The workload the builder declares is the work the command does: it is the video lane exactly
  when the arguments select the H.264 encoder, the AAC encoder is selected exactly for an encoded
  audio stream, and the remux lane means that no stream is encoded (a subtitle is only carried as
  the text of a teletext page).
\<close>

theorem hls_workload_matches_encoders:
  "(spec_workload (build_hls_ffmpeg_command r) = Some VideoEncode \<longleftrightarrow>
      has_pair ''-c:v'' ''libx264'' (spec_args (build_hls_ffmpeg_command r))) \<and>
   (tr_audio_mode r = Encode \<longleftrightarrow>
      has_pair ''-c:a'' ''aac'' (spec_args (build_hls_ffmpeg_command r))) \<and>
   (spec_workload (build_hls_ffmpeg_command r) = Some Remux \<longleftrightarrow>
      \<not> has_pair ''-c:v'' ''libx264'' (spec_args (build_hls_ffmpeg_command r)) \<and>
      \<not> has_pair ''-c:a'' ''aac'' (spec_args (build_hls_ffmpeg_command r)) \<and>
      \<not> (selects_subtitle r \<and> \<not> decodes_teletext_page r))"
proof -
  have p: "codec_pair ''-c:v'' ''libx264''" "codec_pair ''-c:a'' ''aac''" by (simp_all add: codec_pair_def)
  have v: "has_pair ''-c:v'' ''libx264'' (spec_args (build_hls_ffmpeg_command r)) = encodes_video r"
    using p by (simp add: command_pair hls_video_args_pair hls_audio_args_pair)
  have a: "has_pair ''-c:a'' ''aac'' (spec_args (build_hls_ffmpeg_command r)) = (tr_audio_mode r = Encode)"
    using p by (simp add: command_pair hls_video_args_pair hls_audio_args_pair)
  have w: "spec_workload (build_hls_ffmpeg_command r) = Some (hls_workload r)"
    by (simp add: build_hls_ffmpeg_command_def with_workload_def)
  show ?thesis
    unfolding v a w by (auto simp: hls_workload_def encodes_video_def)
qed

lemma input_flag_not_before_input:
  "''-i'' \<notin> set (hls_global_args r) \<union> set (hls_pre_input_args r)"
proof -
  have "format_ticks_as_seconds t \<noteq> ''-i''" "fmt_fixed 2 x \<noteq> ''-i''" "show_nat n \<noteq> ''-i''" for t x n
    by (simp_all add: format_ticks_as_seconds_def)
  then show ?thesis
    by (auto simp: hls_global_args_def hls_pre_input_args_def eq_commute [of "''-i''"]
        split: option.splits if_splits)
qed

lemma request_input_path_irrelevant [simp]:
  "selects_subtitle (r\<lparr> tr_input_path := x \<rparr>) = selects_subtitle r"
  "should_burn_subtitle (r\<lparr> tr_input_path := x \<rparr>) = should_burn_subtitle r"
  "effective_video_mode (r\<lparr> tr_input_path := x \<rparr>) = effective_video_mode r"
  "decodes_teletext_page (r\<lparr> tr_input_path := x \<rparr>) = decodes_teletext_page r"
  "hls_workload (r\<lparr> tr_input_path := x \<rparr>) = hls_workload r"
  by (simp_all add: selects_subtitle_def should_burn_subtitle_def effective_video_mode_def
      decodes_teletext_page_def hls_workload_def)

text \<open>
  Reading from a pipe changes the command only where it must: the input becomes \<open>pipe:0\<close>, the
  MPEG-TS demuxer is forced directly before it, the option that closes standard input is gone,
  and every other argument keeps its place.
\<close>

theorem build_hls_ffmpeg_command_from_stdin_args:
  "\<exists>options rest.
     spec_args (build_hls_ffmpeg_command (r\<lparr> tr_input_path := ''pipe:0'' \<rparr>)) =
       options @ [''-i'', ''pipe:0''] @ rest \<and>
     spec_args (build_hls_ffmpeg_command_from_stdin r) =
       filter (\<lambda>a. a \<noteq> ''-nostdin'') options @ [''-f'', ''mpegts'', ''-i'', ''pipe:0''] @
       filter (\<lambda>a. a \<noteq> ''-nostdin'') rest \<and>
     ''-nostdin'' \<notin> set (spec_args (build_hls_ffmpeg_command_from_stdin r)) \<and>
     spec_workload (build_hls_ffmpeg_command_from_stdin r) =
       spec_workload (build_hls_ffmpeg_command r)"
proof -
  let ?r = "r\<lparr> tr_input_path := ''pipe:0'' \<rparr>"
  let ?options = "hls_global_args ?r @ hls_pre_input_args ?r"
  let ?keep = "filter (\<lambda>a. a \<noteq> ''-nostdin'')"
  obtain rest where input: "hls_input_args ?r = [''-i'', ''pipe:0''] @ rest"
    by (simp add: hls_input_args_def)
  let ?rest = "rest @ concat [hls_map_args ?r, hls_video_args ?r, hls_audio_args ?r,
    hls_timing_args ?r, hls_playlist_args ?r, hls_output_args ?r]"
  have args: "spec_args (build_hls_ffmpeg_command ?r) = ?options @ [''-i'', ''pipe:0''] @ ?rest"
    by (simp add: build_hls_ffmpeg_command_def with_workload_def spec_new_def hls_arg_groups_def input)
  have no: "''-i'' \<notin> set (?keep ?options)"
    using input_flag_not_before_input [of ?r] by auto
  have kept: "?keep (spec_args (build_hls_ffmpeg_command ?r)) =
      ?keep ?options @ ''-i'' # ''pipe:0'' # ?keep ?rest"
    by (simp add: args)
  have tw: "takeWhile (\<lambda>a. a \<noteq> ''-i'') (?keep ?options @ ''-i'' # t) = ?keep ?options"
    "dropWhile (\<lambda>a. a \<noteq> ''-i'') (?keep ?options @ ''-i'' # t) = ''-i'' # t" for t
    by (rule takeWhile_until [OF no], rule dropWhile_until [OF no])
  have out: "spec_args (build_hls_ffmpeg_command_from_stdin r) =
      ?keep ?options @ [''-f'', ''mpegts'', ''-i'', ''pipe:0''] @ ?keep ?rest"
    unfolding build_hls_ffmpeg_command_from_stdin_def Let_def kept tw by simp
  have w: "spec_workload (build_hls_ffmpeg_command_from_stdin r) =
      spec_workload (build_hls_ffmpeg_command r)"
    by (simp add: build_hls_ffmpeg_command_from_stdin_def build_hls_ffmpeg_command_def
        with_workload_def Let_def)
  show ?thesis
    using args out w by (intro exI [of _ ?options] exI [of _ ?rest]) simp
qed

text \<open>
  A whole number of milliseconds, given in ticks of 100 ns, is printed exactly: the binary
  floating-point division by ten million and the rounding to three decimals lose nothing, for
  every position up to 28 years.
\<close>

theorem format_ticks_as_seconds_exact:
  assumes "ms * 10000 < 2 ^ 53"
  shows "format_ticks_as_seconds (int ms * 10000) =
    show_nat (ms div 1000) @ ''.'' @ pad_zero 3 (show_nat (ms mod 1000))"
proof (cases "ms = 0")
  case True
  then show ?thesis
    by (simp add: format_ticks_as_seconds_def f64_eval pad_zero_def)
next
  case False
  have n: "nat (max 0 (int ms * 10000)) = ms * 10000" by simp
  show ?thesis
    unfolding format_ticks_as_seconds_def n
    using fmt_fixed_div_exact [of ms 10000 3] assms False by (simp add: fixed_digits_def)
qed

theorem format_ticks_as_seconds_exact_witness:
  "format_ticks_as_seconds (int 90061001 * 10000) =
    show_nat (90061001 div 1000) @ ''.'' @ pad_zero 3 (show_nat (90061001 mod 1000))"
  by (rule format_ticks_as_seconds_exact) simp

text \<open>How FFmpeg reads a decimal number of at most three decimals, in thousandths.\<close>

definition read_milli :: "string \<Rightarrow> nat" where
  "read_milli s =
     (case split_once (CHR ''.'') s of
        None \<Rightarrow> 1000 * digits_value s
      | Some (whole, decimals) \<Rightarrow>
          1000 * digits_value whole + digits_value decimals * 10 ^ (3 - length decimals))"

lemma dot_not_in_show_nat: "CHR ''.'' \<notin> set (show_nat n)"
  using show_nat_digits [of n] by (auto simp: list_all_iff is_digit_def byte_def)

text \<open>
  The frame rate argument reads back as the rate in thousandths: dropping the trailing zeros of
  the decimals loses nothing.
\<close>

theorem format_millihertz_reads_back:
  "read_milli (format_millihertz v) = v"
proof (cases "v mod 1000 = 0")
  case True
  then have f: "format_millihertz v = show_nat (v div 1000)"
    unfolding format_millihertz_def by (rule if_P)
  have sp: "split_once (CHR ''.'') (show_nat n) = None" for n
    using dot_not_in_show_nat by (simp add: split_once_None_iff)
  have "read_milli (format_millihertz v) = 1000 * (v div 1000)"
    unfolding f read_milli_def sp option.case digits_value_show ..
  also have "\<dots> = v" using True mult_div_mod_eq [of 1000 v] by linarith
  finally show ?thesis .
next
  case False
  let ?f = "pad_zero 3 (show_nat (v mod 1000))"
  let ?g = "trim_end_char (CHR ''0'') ?f"
  have len: "length ?f = 3" by (intro length_pad_zero length_show_nat_le) simp_all
  have "\<exists>x \<in> set ?f. x \<noteq> CHR ''0''"
  proof (rule ccontr)
    assume "\<not> ?thesis"
    then have "?f = replicate (length ?f) (CHR ''0'')" by (metis replicate_length_same)
    then have "digits_value ?f = 0" by (metis digits_value_zeros)
    with False show False by (simp add: digits_value_show)
  qed
  then have f: "format_millihertz v = show_nat (v div 1000) @ CHR ''.'' # ?g"
    using False trim_end_char_append [of ?f "CHR ''0''" "show_nat (v div 1000) @ ''.''"]
    by (simp add: format_millihertz_def)
  obtain k where k: "?f = ?g @ replicate k (CHR ''0'')" using trim_end_char_split by blast
  then have "digits_value ?f = digits_value ?g * 10 ^ k"
    by (metis add.right_neutral digits_value_append digits_value_zeros length_replicate)
  moreover have "k = 3 - length ?g" using len k by (metis add_diff_cancel_left' length_append length_replicate)
  ultimately have "digits_value ?g * 10 ^ (3 - length ?g) = v mod 1000" by (simp add: digits_value_show)
  then show ?thesis
    by (simp add: f read_milli_def split_once_append dot_not_in_show_nat digits_value_show)
qed

text \<open>
  Whatever the environment holds, the encoder defaults are usable: automatic thread selection is
  taken only for the word auto, and otherwise the budget is between 1 and 64 threads.
\<close>

theorem encoding_config_threads_bounded:
  "case enc_video_threads (encoding_config_from_values preset threads) of
     None \<Rightarrow> \<exists>v. threads = Some v \<and> eq_ignore_case v ''auto''
   | Some n \<Rightarrow> 1 \<le> n \<and> n \<le> 64"
  by (auto simp: encoding_config_from_values_def default_encoding_config_def opt_or_def
      dest!: opt_filter_SomeD split: option.splits)

end
