(* ===== verification/Entity_Ids.thy ===== *)
theory Entity_Ids
  imports Rust_Text "HOL-Library.Word"
begin

text \<open>
  Stable identifiers of \<open>crates/jellyrin-core/src/lib.rs\<close> (lines 1095--1136): the slug of a live TV
  entity, the 64-bit hash over bytes, and the 32-digit hexadecimal id of a named entity. The hash
  works on 64-bit words with wrapping multiplication.
\<close>

unbundle bit_operations_syntax

definition live_tv_stable_id :: "string \<Rightarrow> string \<Rightarrow> string" where
  "live_tv_stable_id pre value =
     (let normalized = trim_char (CHR ''-'') (map_ascii_or is_alnum (CHR ''-'') (to_ascii_lowercase value))
      in if normalized = [] then pre else pre @ ''-'' @ normalized)"

definition fnv_prime :: "64 word" where
  "fnv_prime = 1099511628211"

definition fnv_step :: "64 word \<Rightarrow> char \<Rightarrow> 64 word" where
  "fnv_step hash c = (hash * fnv_prime) XOR of_nat (byte c)"

definition fnv1a64 :: "string \<Rightarrow> 64 word \<Rightarrow> 64 word" where
  "fnv1a64 bytes seed = foldl fnv_step seed bytes"

definition stable_entity_id :: "string \<Rightarrow> string \<Rightarrow> string" where
  "stable_entity_id item_type name =
     (let key = item_type @ '':'' @ to_ascii_lowercase (trim name)
      in show_hex_fixed 16 (unat (fnv1a64 key 14695981039346656037)) @
         show_hex_fixed 16 (unat (fnv1a64 key 9521211207457086692)))"

text \<open>The multiplier is odd, so one step can be undone: the hash never merges two states.\<close>

lemma fnv_prime_inverse: "fnv_prime * 14886173955864302971 = 1"
  by (simp add: fnv_prime_def)

lemma xor_left_cancel: "x XOR a = x XOR b \<longleftrightarrow> a = b" for a b x :: "64 word"
proof
  assume "x XOR a = x XOR b"
  then have "x XOR (x XOR a) = x XOR (x XOR b)" by (rule arg_cong)
  then show "a = b" by (simp flip: xor.assoc)
qed simp

lemma xor_right_cancel: "a XOR x = b XOR x \<longleftrightarrow> a = b" for a b x :: "64 word"
  by (simp add: xor.commute [of _ x] xor_left_cancel)

lemma fnv_step_inj_hash: "fnv_step h c = fnv_step k c \<longleftrightarrow> h = k"
proof
  assume "fnv_step h c = fnv_step k c"
  then have "h * fnv_prime = k * fnv_prime"
    by (simp add: fnv_step_def xor_right_cancel)
  then have "h * (fnv_prime * 14886173955864302971) = k * (fnv_prime * 14886173955864302971)"
    by (simp add: mult.assoc [symmetric])
  then show "h = k" by (simp add: fnv_prime_inverse)
qed simp

lemma of_nat_byte_inj: "(of_nat (byte c) :: 64 word) = of_nat (byte d) \<longleftrightarrow> c = d"
proof
  assume "(of_nat (byte c) :: 64 word) = of_nat (byte d)"
  then have "byte c mod 2 ^ 64 = byte d mod 2 ^ 64" by (simp add: unat_of_nat word_unat_eq_iff)
  then show "c = d" using byte_bound [of c] byte_bound [of d] by simp
qed simp

lemma fnv_step_inj_byte: "fnv_step h c = fnv_step h d \<longleftrightarrow> c = d"
proof
  assume "fnv_step h c = fnv_step h d"
  then have "(of_nat (byte c) :: 64 word) = of_nat (byte d)"
    by (simp add: fnv_step_def xor_left_cancel)
  then show "c = d" by (simp add: of_nat_byte_inj)
qed simp

lemma fnv1a64_inj_seed: "fnv1a64 s h = fnv1a64 s k \<longleftrightarrow> h = k"
  by (induction s arbitrary: h k) (simp_all add: fnv1a64_def fnv_step_inj_hash)

lemma fnv1a64_append: "fnv1a64 (a @ b) h = fnv1a64 b (fnv1a64 a h)"
  by (simp add: fnv1a64_def)

lemma show_hex_fixed_inj:
  "m < 16 ^ k \<Longrightarrow> n < 16 ^ k \<Longrightarrow> show_hex_fixed k m = show_hex_fixed k n \<Longrightarrow> m = n"
proof (induction k arbitrary: m n)
  case (Suc k)
  have inj: "hex_char a = hex_char b \<Longrightarrow> a = b" if "a < 16" "b < 16" for a b
  proof -
    assume "hex_char a = hex_char b"
    then have "byte (hex_char a) = byte (hex_char b)" by simp
    with that show "a = b" by (auto simp: hex_char_def split: if_splits)
  qed
  from Suc.prems(3) have "show_hex_fixed k (m div 16) = show_hex_fixed k (n div 16)"
    and "hex_char (m mod 16) = hex_char (n mod 16)" by simp_all
  moreover have "m div 16 < 16 ^ k" "n div 16 < 16 ^ k"
    using Suc.prems by (simp_all add: less_mult_imp_div_less mult.commute)
  ultimately have "m div 16 = n div 16" "m mod 16 = n mod 16" using Suc.IH inj by simp_all
  then show ?case by (metis div_mult_mod_eq)
qed simp

text \<open>
  Two entities of one type whose lower-case trimmed names differ in exactly one byte never get
  the same id: both 64-bit halves differ.
\<close>

theorem stable_entity_id_single_byte:
  assumes "to_ascii_lowercase (trim m) = p @ c # s" "to_ascii_lowercase (trim n) = p @ d # s"
  shows "stable_entity_id t m = stable_entity_id t n \<longleftrightarrow> c = d"
proof
  assume "c = d"
  with assms show "stable_entity_id t m = stable_entity_id t n" by (simp add: stable_entity_id_def)
next
  assume eq: "stable_entity_id t m = stable_entity_id t n"
  let ?seed = "14695981039346656037 :: 64 word"
  have "show_hex_fixed 16 (unat (fnv1a64 (t @ '':'' @ p @ c # s) ?seed)) =
      show_hex_fixed 16 (unat (fnv1a64 (t @ '':'' @ p @ d # s) ?seed))"
    using eq assms by (simp add: stable_entity_id_def Let_def)
  moreover have "unat (w :: 64 word) < 16 ^ 16" for w
    using unsigned_less [of w] by simp
  ultimately have "fnv1a64 (t @ '':'' @ p @ c # s) ?seed = fnv1a64 (t @ '':'' @ p @ d # s) ?seed"
    using show_hex_fixed_inj word_unat_eq_iff by blast
  moreover have "fnv1a64 (t @ '':'' @ p @ x # s) ?seed = fnv1a64 s (fnv_step (fnv1a64 (t @ '':'' @ p) ?seed) x)" for x
    by (simp add: fnv1a64_def)
  ultimately show "c = d" by (simp add: fnv1a64_inj_seed fnv_step_inj_byte)
qed

theorem stable_entity_id_single_byte_witness:
  "stable_entity_id ''Genre'' ''Drama1'' = stable_entity_id ''Genre'' ''Drama2'' \<longleftrightarrow> CHR ''1'' = CHR ''2''"
  by (rule stable_entity_id_single_byte [where p = "''drama''" and s = "[]"])
    (simp_all add: trim_plain plain_char_def to_ascii_lowercase_def char_eval)

text \<open>Spelling differences in letter case and surrounding white space do not change an id.\<close>

lemma stable_entity_id_case:
  "eq_ignore_case (trim m) (trim n) \<Longrightarrow> stable_entity_id t m = stable_entity_id t n"
  by (simp add: stable_entity_id_def eq_ignore_case_def)

lemma stable_entity_id_shape:
  "length (stable_entity_id t n) = 32 \<and> list_all hex_digit (stable_entity_id t n)"
  by (simp add: stable_entity_id_def show_hex_fixed_digits Let_def del: show_hex_fixed.simps)

lemma live_tv_stable_id_chars:
  assumes "c \<in> set (live_tv_stable_id pre value)"
  shows "c \<in> set pre \<or> c = CHR ''-'' \<or> is_digit c \<or> is_lower c"
proof -
  have sub: "set (trim_char x s) \<subseteq> set s" for x s
    by (auto simp: trim_char_def trim_end_char_def trim_start_char_def dest!: set_dropWhileD)
  have low: "byte c < 128 \<and> is_alnum c \<and> c \<in> set (to_ascii_lowercase value) \<longrightarrow> is_digit c \<or> is_lower c"
    using ascii_lower_not_upper by (auto simp: to_ascii_lowercase_def is_alnum_def)
  have src: "c = CHR ''-'' \<or> c \<in> set s" if "c \<in> set (map_ascii_or is_alnum (CHR ''-'') s)" for s
    using that by (induction s) (auto split: if_splits)
  have "c \<in> set (map_ascii_or is_alnum (CHR ''-'') (to_ascii_lowercase value)) \<longrightarrow>
      c = CHR ''-'' \<or> is_digit c \<or> is_lower c"
    using map_ascii_or_set [of c is_alnum] src [of "to_ascii_lowercase value"] low by blast
  with assms sub show ?thesis
    by (auto simp: live_tv_stable_id_def Let_def split: if_splits)
qed

end
