(* ===== verification/Ffmpeg_Progress.thy ===== *)
theory Ffmpeg_Progress
  imports Rust_Text
begin

text \<open>
  FFmpeg progress reports: the snapshot record and its line parser in
  \<open>crates/jellyrin-core/src/lib.rs\<close> (lines 561--600, 853--880), and the bounded reader of the
  process's standard error in \<open>crates/jellyrin-transcode/src/lib.rs\<close> (lines 1953--2047). The pipe is
  the list of chunks its reads return; the broadcast channel is the list of snapshots sent. The
  floating-point metrics of the record are not modelled (they parse \<open>f64\<close> text).
\<close>

section \<open>Snapshots\<close>

record ffmpeg_progress =
  prog_frame :: "nat option"
  prog_fps :: "string option"
  prog_bitrate :: "string option"
  prog_total_size :: "nat option"
  prog_out_time_us :: "nat option"
  prog_out_time_ms :: "nat option"
  prog_out_time :: "string option"
  prog_speed :: "string option"
  prog_progress :: "string option"

definition default_progress :: ffmpeg_progress where
  "default_progress = \<lparr> prog_frame = None, prog_fps = None, prog_bitrate = None,
     prog_total_size = None, prog_out_time_us = None, prog_out_time_ms = None,
     prog_out_time = None, prog_speed = None, prog_progress = None \<rparr>"

definition position_ticks :: "ffmpeg_progress \<Rightarrow> int option" where
  "position_ticks p =
     opt_filter (\<lambda>i. i \<le> i64_max)
       (map_option int
         (Option.bind (opt_or (prog_out_time_us p) (prog_out_time_ms p))
           (\<lambda>v. checked_mul u64_max v 10)))"

definition is_complete :: "ffmpeg_progress \<Rightarrow> bool" where
  "is_complete p = is_some_and (\<lambda>v. eq_ignore_case v ''end'') (prog_progress p)"

section \<open>Parsing a report\<close>

definition progress_non_empty :: "string \<Rightarrow> string option" where
  "progress_non_empty s = (if s = [] then None else Some s)"

definition parse_ffmpeg_progress_line :: "ffmpeg_progress \<Rightarrow> string \<Rightarrow> ffmpeg_progress" where
  "parse_ffmpeg_progress_line p line =
     (case split_once (CHR ''='') (trim line) of
        None \<Rightarrow> p
      | Some (key, value) \<Rightarrow>
          let key = trim key; value = trim value
          in if key = ''frame'' then p\<lparr> prog_frame := parse_u64 value \<rparr>
             else if key = ''fps'' then p\<lparr> prog_fps := progress_non_empty value \<rparr>
             else if key = ''bitrate'' then p\<lparr> prog_bitrate := progress_non_empty value \<rparr>
             else if key = ''total_size'' then p\<lparr> prog_total_size := parse_u64 value \<rparr>
             else if key = ''out_time_us'' then p\<lparr> prog_out_time_us := parse_u64 value \<rparr>
             else if key = ''out_time_ms'' then p\<lparr> prog_out_time_ms := parse_u64 value \<rparr>
             else if key = ''out_time'' then p\<lparr> prog_out_time := progress_non_empty value \<rparr>
             else if key = ''speed'' then p\<lparr> prog_speed := progress_non_empty value \<rparr>
             else if key = ''progress'' then p\<lparr> prog_progress := progress_non_empty value \<rparr>
             else p)"

definition parse_ffmpeg_progress :: "string \<Rightarrow> ffmpeg_progress" where
  "parse_ffmpeg_progress input = foldl parse_ffmpeg_progress_line default_progress (lines input)"

section \<open>The bounded reader\<close>

definition known_progress_keys :: "string list" where
  "known_progress_keys = [''frame'', ''fps'', ''bitrate'', ''total_size'', ''out_time_us'',
     ''out_time_ms'', ''out_time'', ''speed'', ''progress'']"

definition parse_line_has_snapshot :: "ffmpeg_progress \<Rightarrow> string \<Rightarrow> ffmpeg_progress \<times> bool" where
  "parse_line_has_snapshot p line =
     (case split_once (CHR ''='') (trim line) of
        None \<Rightarrow> (p, False)
      | Some (key, _) \<Rightarrow>
          (if trim key \<in> set known_progress_keys then parse_ffmpeg_progress_line p line else p,
           trim key = ''progress''))"

record stderr_reader =
  rd_line :: string
  rd_discarding :: bool
  rd_progress :: ffmpeg_progress
  rd_sent :: "ffmpeg_progress list"

definition publish_line :: "string \<Rightarrow> stderr_reader \<Rightarrow> stderr_reader" where
  "publish_line line s =
     (let line = (case strip_suffix [char_of (13::nat)] line of Some l \<Rightarrow> l | None \<Rightarrow> line)
      in if \<not> utf8_valid line then s
         else (let (p, snapshot) = parse_line_has_snapshot (rd_progress s) line
               in s\<lparr> rd_progress := p,
                     rd_sent := (if snapshot then rd_sent s @ [p] else rd_sent s) \<rparr>))"

definition stderr_max_line_bytes :: nat where
  "stderr_max_line_bytes = 16384"

definition consume_byte :: "stderr_reader \<Rightarrow> char \<Rightarrow> stderr_reader" where
  "consume_byte s b =
     (if b = char_of (10::nat) then
        (if rd_discarding s then s else publish_line (rd_line s) s)
          \<lparr> rd_line := [], rd_discarding := False \<rparr>
      else if rd_discarding s then s
      else if length (rd_line s) < stderr_max_line_bytes then s\<lparr> rd_line := rd_line s @ [b] \<rparr>
      else s\<lparr> rd_line := [], rd_discarding := True \<rparr>)"

definition consume_ffmpeg_stderr_chunk :: "stderr_reader \<Rightarrow> string \<Rightarrow> stderr_reader" where
  "consume_ffmpeg_stderr_chunk s chunk = foldl consume_byte s chunk"

text \<open>
  The loop reads chunks until an empty one or an error (\<open>Inl\<close>). At the end of the pipe a last line
  without a line feed is published; after a read error nothing more is.
\<close>

fun read_chunks :: "stderr_reader \<Rightarrow> ('e + string) list \<Rightarrow> stderr_reader \<times> ('e + unit)" where
  "read_chunks s [] = (s, Inr ())"
| "read_chunks s (Inl e # _) = (s, Inl e)"
| "read_chunks s (Inr chunk # later) =
     (if chunk = [] then (s, Inr ()) else read_chunks (consume_ffmpeg_stderr_chunk s chunk) later)"

definition initial_reader :: stderr_reader where
  "initial_reader = \<lparr> rd_line = [], rd_discarding = False, rd_progress = default_progress,
     rd_sent = [] \<rparr>"

definition read_ffmpeg_progress :: "('e + string) list \<Rightarrow> stderr_reader \<times> ('e + unit)" where
  "read_ffmpeg_progress reads =
     (case read_chunks initial_reader reads of
        (s, Inl e) \<Rightarrow> (s, Inl e)
      | (s, Inr _) \<Rightarrow>
          (if \<not> rd_discarding s \<and> rd_line s \<noteq> [] then publish_line (rd_line s) s else s, Inr ()))"

section \<open>The reader is bounded and chunking does not matter\<close>

lemma publish_line_fields [simp]:
  "rd_line (publish_line l s) = rd_line s" "rd_discarding (publish_line l s) = rd_discarding s"
  by (simp_all add: publish_line_def Let_def split: prod.splits)

definition reader_ok :: "stderr_reader \<Rightarrow> bool" where
  "reader_ok s \<longleftrightarrow> length (rd_line s) \<le> stderr_max_line_bytes \<and> (rd_discarding s \<longrightarrow> rd_line s = [])"

lemma consume_byte_ok: "reader_ok s \<Longrightarrow> reader_ok (consume_byte s b)"
  by (auto simp: reader_ok_def consume_byte_def)

lemma consume_chunk_ok: "reader_ok s \<Longrightarrow> reader_ok (consume_ffmpeg_stderr_chunk s chunk)"
  unfolding consume_ffmpeg_stderr_chunk_def by (induction chunk arbitrary: s) (auto intro: consume_byte_ok)

lemma initial_reader_ok: "reader_ok initial_reader"
  by (simp add: reader_ok_def initial_reader_def)

lemma read_chunks_ok: "reader_ok s \<Longrightarrow> reader_ok (fst (read_chunks s reads))"
  by (induction s reads rule: read_chunks.induct) (auto intro: consume_chunk_ok)

lemma consume_chunk_append:
  "consume_ffmpeg_stderr_chunk s (a @ b) =
   consume_ffmpeg_stderr_chunk (consume_ffmpeg_stderr_chunk s a) b"
  by (simp add: consume_ffmpeg_stderr_chunk_def)

lemma read_chunks_concat:
  "[] \<notin> set chunks \<Longrightarrow>
   read_chunks s (map Inr chunks) = (consume_ffmpeg_stderr_chunk s (concat chunks), Inr ())"
proof (induction chunks arbitrary: s)
  case Nil
  show ?case by (simp add: consume_ffmpeg_stderr_chunk_def)
next
  case (Cons c cs)
  then show ?case by (auto simp: consume_chunk_append)
qed

text \<open>A complete line of at most the bound is published as a whole; a longer one leaves no trace.\<close>

lemma consume_plain_bytes:
  assumes "char_of (10::nat) \<notin> set l" "\<not> rd_discarding s"
    and "length (rd_line s) + length l \<le> stderr_max_line_bytes"
  shows "consume_ffmpeg_stderr_chunk s l = s\<lparr> rd_line := rd_line s @ l \<rparr>"
  using assms
proof (induction l arbitrary: s)
  case Nil
  show ?case by (simp add: consume_ffmpeg_stderr_chunk_def)
next
  case (Cons b l)
  have "consume_byte s b = s\<lparr> rd_line := rd_line s @ [b] \<rparr>"
    using Cons.prems by (auto simp: consume_byte_def)
  with Cons show ?case by (simp add: consume_ffmpeg_stderr_chunk_def)
qed

lemma consume_discarding:
  assumes "char_of (10::nat) \<notin> set l" "rd_discarding s"
  shows "consume_ffmpeg_stderr_chunk s l = s"
  using assms by (induction l) (auto simp: consume_ffmpeg_stderr_chunk_def consume_byte_def)

lemma consume_line:
  assumes "char_of (10::nat) \<notin> set l" "rd_line s = []" "\<not> rd_discarding s"
    and "length l \<le> stderr_max_line_bytes"
  shows "consume_ffmpeg_stderr_chunk s (l @ [char_of (10::nat)]) = publish_line l s"
proof -
  have "consume_ffmpeg_stderr_chunk s l = s\<lparr> rd_line := l \<rparr>"
    using consume_plain_bytes [of l s] assms by simp
  then have "consume_ffmpeg_stderr_chunk s (l @ [char_of (10::nat)]) =
      (publish_line l (s\<lparr> rd_line := l \<rparr>))\<lparr> rd_line := [], rd_discarding := False \<rparr>"
    using assms by (simp add: consume_chunk_append consume_ffmpeg_stderr_chunk_def consume_byte_def)
  also have "\<dots> = publish_line l s"
    using assms by (auto simp: publish_line_def Let_def split: prod.splits option.splits)
  finally show ?thesis .
qed

lemma consume_oversized_line:
  assumes "char_of (10::nat) \<notin> set l" "rd_line s = []" "\<not> rd_discarding s"
    and "stderr_max_line_bytes < length l"
  shows "consume_ffmpeg_stderr_chunk s (l @ [char_of (10::nat)]) = s"
proof -
  let ?n = stderr_max_line_bytes
  obtain b rest where l: "l = take ?n l @ b # rest"
    using assms(4) by (metis append_take_drop_id drop_eq_Nil neq_Nil_conv not_less)
  have sets: "char_of (10::nat) \<notin> set (take ?n l)" "char_of (10::nat) \<noteq> b"
    "char_of (10::nat) \<notin> set rest"
    using assms(1) by (subst (asm) l, simp)+
  have a: "consume_ffmpeg_stderr_chunk s (take ?n l) = s\<lparr> rd_line := take ?n l \<rparr>"
    using consume_plain_bytes [of "take ?n l" s] assms sets by simp
  have b: "consume_byte (s\<lparr> rd_line := take ?n l \<rparr>) b = s\<lparr> rd_line := [], rd_discarding := True \<rparr>"
    using assms sets by (simp add: consume_byte_def eq_commute [of b])
  have "consume_ffmpeg_stderr_chunk s l = s\<lparr> rd_line := [], rd_discarding := True \<rparr>"
    by (subst l, subst consume_chunk_append, subst a)
      (use b consume_discarding [OF sets(3), of "s\<lparr> rd_line := [], rd_discarding := True \<rparr>"]
        in \<open>simp add: consume_ffmpeg_stderr_chunk_def\<close>)
  then have "consume_ffmpeg_stderr_chunk s (l @ [char_of (10::nat)]) =
      s\<lparr> rd_line := [], rd_discarding := False \<rparr>"
    by (simp add: consume_chunk_append consume_ffmpeg_stderr_chunk_def consume_byte_def)
  also have "\<dots> = s" using assms by (cases s) simp
  finally show ?thesis .
qed

lemma publish_line_resets:
  "rd_line (fold publish_line ls s) = rd_line s \<and> rd_discarding (fold publish_line ls s) = rd_discarding s"
  by (induction ls arbitrary: s) simp_all

lemma consume_lines:
  assumes "rd_line s = []" "\<not> rd_discarding s" "\<forall>l \<in> set ls. char_of (10::nat) \<notin> set l"
  shows "consume_ffmpeg_stderr_chunk s (concat (map (\<lambda>l. l @ [char_of (10::nat)]) ls)) =
    fold publish_line (filter (\<lambda>l. length l \<le> stderr_max_line_bytes) ls) s"
  using assms
proof (induction ls arbitrary: s)
  case Nil
  show ?case by (simp add: consume_ffmpeg_stderr_chunk_def)
next
  case (Cons l ls)
  let ?s = "consume_ffmpeg_stderr_chunk s (l @ [char_of (10::nat)])"
  have nl: "char_of (10::nat) \<notin> set l" using Cons.prems by simp
  have s: "?s = (if length l \<le> stderr_max_line_bytes then publish_line l s else s)"
    using consume_line [OF nl Cons.prems(1,2)] consume_oversized_line [OF nl Cons.prems(1,2)] by simp
  have "consume_ffmpeg_stderr_chunk s (concat (map (\<lambda>l. l @ [char_of (10::nat)]) (l # ls))) =
      consume_ffmpeg_stderr_chunk ?s (concat (map (\<lambda>l. l @ [char_of (10::nat)]) ls))"
    by (simp only: list.map concat.simps consume_chunk_append)
  also have "\<dots> = fold publish_line (filter (\<lambda>l. length l \<le> stderr_max_line_bytes) ls) ?s"
    using Cons.prems s by (intro Cons.IH) simp_all
  finally show ?case by (simp add: s)
qed

text \<open>
  The reader of FFmpeg's standard error is independent of how the pipe splits the output into
  reads: it publishes exactly the lines of at most 16 KiB, in order and each as a whole, and a longer
  line is dropped without disturbing its neighbours.
\<close>

theorem read_ffmpeg_progress_lines:
  assumes "[] \<notin> set chunks" "concat chunks = concat (map (\<lambda>l. l @ [char_of (10::nat)]) ls)"
    and "\<forall>l \<in> set ls. char_of (10::nat) \<notin> set l"
  shows "read_ffmpeg_progress (map Inr chunks) =
    (fold publish_line (filter (\<lambda>l. length l \<le> stderr_max_line_bytes) ls) initial_reader,
     Inr () :: 'e + unit)"
proof -
  have "read_chunks initial_reader (map Inr chunks) =
      (fold publish_line (filter (\<lambda>l. length l \<le> stderr_max_line_bytes) ls) initial_reader,
       Inr () :: 'e + unit)"
    using assms by (simp add: read_chunks_concat consume_lines initial_reader_def)
  then show ?thesis
    by (simp add: read_ffmpeg_progress_def publish_line_resets initial_reader_def)
qed

theorem read_ffmpeg_progress_lines_witness:
  "read_ffmpeg_progress (map Inr [''fra'', ''me=1'' @ [char_of (10::nat), CHR ''x''], [char_of (10::nat)]]) =
    (fold publish_line (filter (\<lambda>l. length l \<le> stderr_max_line_bytes) [''frame=1'', ''x'']) initial_reader,
     Inr () :: nat + unit)"
  by (rule read_ffmpeg_progress_lines) (auto simp: char_of_eq_iff byte_def)

text \<open>
  The memory of the reader is bounded whatever FFmpeg writes and however its reads fail: the
  retained line never exceeds 16 KiB, and nothing is retained while a long line is discarded.
\<close>

theorem read_ffmpeg_progress_bounded:
  "length (rd_line (fst (read_ffmpeg_progress reads))) \<le> stderr_max_line_bytes"
proof -
  have "reader_ok (fst (read_chunks initial_reader reads))"
    by (intro read_chunks_ok initial_reader_ok)
  then show ?thesis
    by (auto simp: read_ffmpeg_progress_def reader_ok_def split: prod.splits sum.splits)
qed

text \<open>
  The position of a report is the microsecond clock in ticks of 100 ns, or none when it does not
  fit: never a wrapped or negative value.
\<close>

theorem position_ticks_exact:
  "position_ticks p =
     (case opt_or (prog_out_time_us p) (prog_out_time_ms p) of
        None \<Rightarrow> None
      | Some us \<Rightarrow> if int us * 10 \<le> i64_max then Some (int us * 10) else None)"
  by (auto simp: position_ticks_def checked_mul_def opt_filter_def split: option.splits)

end
