(* ===== verification/Disk_Quota.thy ===== *)
theory Disk_Quota
  imports Assoc_Map
begin

text \<open>
  Admission and monitoring of transcode disk space, \<open>crates/jellyrin-transcode/src/lib.rs\<close>
  lines 47--532: the configuration, the shared state behind the mutex, reservations and their
  release, the refresh of the measured usage, the monitor task and the directory scan.

  Each mutex critical section is one function on the state. Callers, the monitor and releases
  interleave between critical sections: \<open>quota_step\<close> is the step relation of the whole manager,
  with the admission gate as a state of its own. Times are nanoseconds on the monotonic clock. What
  the file system answers is an argument.
\<close>

section \<open>Configuration and state\<close>

record quota_config =
  qc_quota_bytes :: nat
  qc_reservation_bytes :: nat
  qc_scan_interval :: nat

record quota_state =
  qs_usage_bytes :: "nat option"
  qs_reserved_bytes :: nat
  qs_reservations :: "(nat, nat) hmap"
  qs_next_id :: nat
  qs_last_scan :: "nat option"
  qs_quota_exceeded :: bool
  qs_monitor_running :: bool
  qs_successful_scans :: nat
  qs_failed_scans :: nat

record quota_snapshot =
  snap_usage_bytes :: "nat option"
  snap_reserved_bytes :: nat
  snap_committed_bytes :: "nat option"
  snap_available_bytes :: "nat option"
  snap_quota_bytes :: nat
  snap_reservation_bytes :: nat
  snap_active_reservations :: nat
  snap_quota_exceeded :: bool
  snap_monitor_running :: bool
  snap_successful_scans :: nat
  snap_failed_scans :: nat

datatype io_kind = Not_Found | Invalid_Input | Not_A_Directory | Other_Io

datatype quota_error =
    Quota_Io io_kind
  | Exhausted (quota_bytes: nat) (usage_bytes: nat) (reserved_bytes: nat) (requested_bytes: nat)

text \<open>\<open>TranscodeDiskQuota::new\<close> clamps the configuration; the initial state is empty.\<close>

definition quota_new_config :: "quota_config \<Rightarrow> quota_config" where
  "quota_new_config c =
     (let quota = max (qc_quota_bytes c) 1
      in \<lparr> qc_quota_bytes = quota,
           qc_reservation_bytes = min (max (qc_reservation_bytes c) 1) quota,
           qc_scan_interval = max (qc_scan_interval c) 1000000 \<rparr>)"

definition quota_initial :: quota_state where
  "quota_initial = \<lparr> qs_usage_bytes = None, qs_reserved_bytes = 0, qs_reservations = [],
     qs_next_id = 0, qs_last_scan = None, qs_quota_exceeded = False, qs_monitor_running = False,
     qs_successful_scans = 0, qs_failed_scans = 0 \<rparr>"

section \<open>Reservations\<close>

text \<open>
  The search for a free id wraps around 64 bits and would not end if every id were taken; the fuel
  bounds the candidates tried, and one later than the ids in use is enough.
\<close>

fun next_id_loop :: "nat \<Rightarrow> nat \<Rightarrow> (nat, nat) hmap \<Rightarrow> (nat \<times> nat) option" where
  "next_id_loop 0 nx res = None"
| "next_id_loop (Suc fuel) nx res =
     (let nx' = (nx + 1) mod 2 ^ 64
      in if hm_contains nx res then next_id_loop fuel nx' res else Some (nx, nx'))"

definition next_transcode_disk_reservation_id :: "quota_state \<Rightarrow> (nat \<times> quota_state) option" where
  "next_transcode_disk_reservation_id s =
     map_option (\<lambda>(rid, nx). (rid, s\<lparr> qs_next_id := nx \<rparr>))
       (next_id_loop (Suc (length (qs_reservations s))) (qs_next_id s) (qs_reservations s))"

text \<open>
  The critical section of \<open>reserve\<close>: the refusal, or the new id, whether a monitor must be started,
  and the new state. None would mean that the search for an id does not end.
\<close>

definition quota_admit ::
  "quota_config \<Rightarrow> quota_state \<Rightarrow> (quota_error + nat \<times> bool \<times> quota_state) option" where
  "quota_admit c s =
     (let usage = unwrap_or 0 (qs_usage_bytes s);
          requested = qc_reservation_bytes c;
          projected = sat_add u64_max (sat_add u64_max usage (qs_reserved_bytes s)) requested
      in if projected > qc_quota_bytes c
         then Some (Inl (Exhausted (qc_quota_bytes c) usage (qs_reserved_bytes s) requested))
         else map_option (\<lambda>(rid, s).
                Inr (rid, \<not> qs_monitor_running s,
                  s\<lparr> qs_reservations := hm_insert rid requested (qs_reservations s),
                     qs_reserved_bytes := sat_add u64_max (qs_reserved_bytes s) requested,
                     qs_monitor_running := True \<rparr>))
              (next_transcode_disk_reservation_id s))"

text \<open>Dropping a reservation: the new state and the signal sent, if one is.\<close>

definition quota_release :: "nat \<Rightarrow> quota_state \<Rightarrow> quota_state \<times> bool option" where
  "quota_release rid s =
     (case map_of (qs_reservations s) rid of
        None \<Rightarrow> (s, None)
      | Some bytes \<Rightarrow>
          let s = s\<lparr> qs_reservations := hm_remove rid (qs_reservations s),
                     qs_reserved_bytes := qs_reserved_bytes s - bytes,
                     qs_last_scan := None \<rparr>
          in if qs_reservations s = [] then (s\<lparr> qs_quota_exceeded := False \<rparr>, Some False)
             else (s, None))"

definition transcode_disk_quota_snapshot :: "quota_config \<Rightarrow> quota_state \<Rightarrow> quota_snapshot" where
  "transcode_disk_quota_snapshot c s =
     (let committed = map_option (\<lambda>u. sat_add u64_max u (qs_reserved_bytes s)) (qs_usage_bytes s)
      in \<lparr> snap_usage_bytes = qs_usage_bytes s,
           snap_reserved_bytes = qs_reserved_bytes s,
           snap_committed_bytes = committed,
           snap_available_bytes = map_option (\<lambda>b. qc_quota_bytes c - b) committed,
           snap_quota_bytes = qc_quota_bytes c,
           snap_reservation_bytes = qc_reservation_bytes c,
           snap_active_reservations = length (qs_reservations s),
           snap_quota_exceeded = qs_quota_exceeded s,
           snap_monitor_running = qs_monitor_running s,
           snap_successful_scans = qs_successful_scans s,
           snap_failed_scans = qs_failed_scans s \<rparr>)"

section \<open>Refreshing the usage\<close>

definition cached_usage :: "quota_config \<Rightarrow> bool \<Rightarrow> nat \<Rightarrow> quota_state \<Rightarrow> nat option" where
  "cached_usage c force now s =
     (case (qs_usage_bytes s, qs_last_scan s) of
        (Some usage, Some scanned) \<Rightarrow>
          if \<not> force \<and> now - scanned < qc_scan_interval c then Some usage else None
      | _ \<Rightarrow> None)"

definition scan_usage :: "io_kind + nat option \<Rightarrow> quota_state \<Rightarrow> io_kind + nat" where
  "scan_usage measured s =
     (case measured of
        Inr (Some usage) \<Rightarrow> Inr usage
      | Inr None \<Rightarrow> if qs_reservations s = [] then Inr 0 else Inl Not_Found
      | Inl e \<Rightarrow> Inl e)"

definition commit_scan :: "quota_config \<Rightarrow> nat \<Rightarrow> nat \<Rightarrow> quota_state \<Rightarrow> quota_state" where
  "commit_scan c now usage s =
     s\<lparr> qs_usage_bytes := Some usage,
        qs_last_scan := Some now,
        qs_quota_exceeded :=
          (if qs_reservations s = [] then usage \<ge> qc_quota_bytes c
           else if usage \<ge> qc_quota_bytes c then True
           else qs_quota_exceeded s),
        qs_successful_scans := sat_add u64_max (qs_successful_scans s) 1 \<rparr>"

definition commit_failure :: "quota_state \<Rightarrow> quota_state" where
  "commit_failure s =
     s\<lparr> qs_last_scan := None,
        qs_failed_scans := sat_add u64_max (qs_failed_scans s) 1,
        qs_quota_exceeded := (if qs_reservations s \<noteq> [] then True else qs_quota_exceeded s) \<rparr>"

text \<open>
  The whole refresh and the whole admission, when nothing interleaves: the state, the signal and the
  result. The measurement is only taken when the cache does not answer.
\<close>

definition refresh_transcode_disk_usage_locked ::
  "quota_config \<Rightarrow> bool \<Rightarrow> nat \<Rightarrow> io_kind + nat option \<Rightarrow> quota_state \<times> bool \<Rightarrow>
   (quota_state \<times> bool) \<times> (io_kind + nat)" where
  "refresh_transcode_disk_usage_locked c force now measured sg =
     (case cached_usage c force now (fst sg) of
        Some usage \<Rightarrow> (sg, Inr usage)
      | None \<Rightarrow>
          (case scan_usage measured (fst sg) of
             Inr usage \<Rightarrow>
               let s = commit_scan c now usage (fst sg) in ((s, qs_quota_exceeded s), Inr usage)
           | Inl e \<Rightarrow>
               let s = commit_failure (fst sg) in ((s, qs_quota_exceeded s), Inl e)))"

definition quota_reserve ::
  "quota_config \<Rightarrow> nat \<Rightarrow> io_kind + nat option \<Rightarrow> quota_state \<times> bool \<Rightarrow>
   ((quota_state \<times> bool) \<times> (quota_error + nat)) option" where
  "quota_reserve c now measured sg =
     (case refresh_transcode_disk_usage_locked c False now measured sg of
        (sg, Inl e) \<Rightarrow> Some (sg, Inl (Quota_Io e))
      | (sg, Inr _) \<Rightarrow>
          map_option (\<lambda>r. case r of
              Inl e \<Rightarrow> (sg, Inl e)
            | Inr (rid, _, s) \<Rightarrow> ((s, snd sg), Inr rid))
          (quota_admit c (fst sg)))"

definition quota_snapshot ::
  "quota_config \<Rightarrow> bool \<Rightarrow> nat \<Rightarrow> io_kind + nat option \<Rightarrow> quota_state \<times> bool \<Rightarrow>
   (quota_state \<times> bool) \<times> (quota_error + quota_snapshot)" where
  "quota_snapshot c force now measured sg =
     (case refresh_transcode_disk_usage_locked c force now measured sg of
        (sg, Inl e) \<Rightarrow> (sg, Inl (Quota_Io e))
      | (sg, Inr _) \<Rightarrow> (sg, Inr (transcode_disk_quota_snapshot c (fst sg))))"

text \<open>
  A waiter reads the signal values it observes one after another; it returns at the first exceeded
  one or when the channel closes (None).
\<close>

fun wait_for_quota_exceeded :: "bool option list \<Rightarrow> bool" where
  "wait_for_quota_exceeded [] = False"
| "wait_for_quota_exceeded (None # _) = True"
| "wait_for_quota_exceeded (Some exceeded # later) = (exceeded \<or> wait_for_quota_exceeded later)"

section \<open>The monitor and the gate\<close>

definition monitor_check :: "quota_state \<Rightarrow> quota_state \<times> bool" where
  "monitor_check s =
     (if qs_reservations s = [] then (s\<lparr> qs_monitor_running := False \<rparr>, True) else (s, False))"

datatype purpose = For_Admission | For_Snapshot bool | For_Monitor

datatype gate =
    Gate_Free
  | Gate_Scanning purpose
  | Gate_Measured purpose "io_kind + nat"
  | Gate_Committed purpose
  | Gate_Publishing purpose bool
  | Gate_Failed purpose bool
  | Gate_Admitting

record quota_system =
  sys_state :: quota_state
  sys_signal :: bool
  sys_gate :: gate
  sys_sleeping :: nat \<comment> \<open>monitor tasks at the top of their loop\<close>
  sys_scanning :: nat \<comment> \<open>monitor tasks waiting for the gate or refreshing under it\<close>

definition quota_system_new :: quota_system where
  "quota_system_new = \<lparr> sys_state = quota_initial, sys_signal = False, sys_gate = Gate_Free,
     sys_sleeping = 0, sys_scanning = 0 \<rparr>"

definition purpose_force :: "purpose \<Rightarrow> bool" where
  "purpose_force p = (case p of For_Admission \<Rightarrow> False | For_Snapshot f \<Rightarrow> f | For_Monitor \<Rightarrow> True)"

definition may_start :: "purpose \<Rightarrow> quota_system \<Rightarrow> bool" where
  "may_start p y \<longleftrightarrow> (p = For_Monitor \<longrightarrow> 0 < sys_scanning y)"

text \<open>The gate holder continues after a successful refresh, or gives the gate back after a failed one.\<close>

definition leave_gate :: "purpose \<Rightarrow> quota_system \<Rightarrow> quota_system" where
  "leave_gate p y =
     (if p = For_Monitor
      then y\<lparr> sys_gate := Gate_Free, sys_scanning := sys_scanning y - 1, sys_sleeping := sys_sleeping y + 1 \<rparr>
      else y\<lparr> sys_gate := Gate_Free \<rparr>)"

definition continue_gate :: "purpose \<Rightarrow> quota_system \<Rightarrow> quota_system" where
  "continue_gate p y = (if p = For_Admission then y\<lparr> sys_gate := Gate_Admitting \<rparr> else leave_gate p y)"

inductive quota_step :: "quota_config \<Rightarrow> quota_system \<Rightarrow> quota_system \<Rightarrow> bool" for c where
  cached: "sys_gate y = Gate_Free \<Longrightarrow> may_start p y \<Longrightarrow>
    cached_usage c (purpose_force p) now (sys_state y) = Some u \<Longrightarrow> quota_step c y (continue_gate p y)"
| scan: "sys_gate y = Gate_Free \<Longrightarrow> may_start p y \<Longrightarrow>
    cached_usage c (purpose_force p) now (sys_state y) = None \<Longrightarrow>
    quota_step c y (y\<lparr> sys_gate := Gate_Scanning p \<rparr>)"
| measured: "sys_gate y = Gate_Scanning p \<Longrightarrow>
    quota_step c y (y\<lparr> sys_gate := Gate_Measured p (scan_usage m (sys_state y)) \<rparr>)"
| committed: "sys_gate y = Gate_Measured p (Inr u) \<Longrightarrow>
    quota_step c y (y\<lparr> sys_state := commit_scan c now u (sys_state y), sys_gate := Gate_Committed p \<rparr>)"
| failed: "sys_gate y = Gate_Measured p (Inl e) \<Longrightarrow>
    quota_step c y (y\<lparr> sys_state := commit_failure (sys_state y),
      sys_gate := Gate_Failed p (qs_quota_exceeded (commit_failure (sys_state y))) \<rparr>)"
| flag_read: "sys_gate y = Gate_Committed p \<Longrightarrow>
    quota_step c y (y\<lparr> sys_gate := Gate_Publishing p (qs_quota_exceeded (sys_state y)) \<rparr>)"
| published: "sys_gate y = Gate_Publishing p b \<Longrightarrow>
    quota_step c y (continue_gate p (y\<lparr> sys_signal := b \<rparr>))"
| published_failure: "sys_gate y = Gate_Failed p b \<Longrightarrow>
    quota_step c y (leave_gate p (y\<lparr> sys_signal := b \<rparr>))"
| admitted: "sys_gate y = Gate_Admitting \<Longrightarrow> quota_admit c (sys_state y) = Some (Inr (rid, start, s)) \<Longrightarrow>
    quota_step c y (y\<lparr> sys_state := s, sys_gate := Gate_Free,
      sys_sleeping := sys_sleeping y + (if start then 1 else 0) \<rparr>)"
| refused: "sys_gate y = Gate_Admitting \<Longrightarrow> quota_admit c (sys_state y) = Some (Inl e) \<Longrightarrow>
    quota_step c y (y\<lparr> sys_gate := Gate_Free \<rparr>)"
| released: "quota_release rid (sys_state y) = (s, sig) \<Longrightarrow>
    quota_step c y (y\<lparr> sys_state := s, sys_signal := unwrap_or (sys_signal y) sig \<rparr>)"
| monitor_stops: "0 < sys_sleeping y \<Longrightarrow> monitor_check (sys_state y) = (s, True) \<Longrightarrow>
    quota_step c y (y\<lparr> sys_state := s, sys_sleeping := sys_sleeping y - 1 \<rparr>)"
| monitor_continues: "0 < sys_sleeping y \<Longrightarrow> monitor_check (sys_state y) = (s, False) \<Longrightarrow>
    quota_step c y (y\<lparr> sys_state := s, sys_sleeping := sys_sleeping y - 1,
      sys_scanning := sys_scanning y + 1 \<rparr>)"

inductive quota_reachable :: "quota_config \<Rightarrow> quota_system \<Rightarrow> bool" for c where
  start: "quota_reachable c quota_system_new"
| step: "quota_reachable c y \<Longrightarrow> quota_step c y z \<Longrightarrow> quota_reachable c z"

inductive_cases quota_stepE: "quota_step c y z"

section \<open>The search for an id ends\<close>

lemma next_id_loop_None:
  "next_id_loop fuel nx res = None \<Longrightarrow> nx < 2 ^ 64 \<Longrightarrow> i < fuel \<Longrightarrow>
   hm_contains ((nx + i) mod 2 ^ 64) res"
proof (induction fuel nx res arbitrary: i rule: next_id_loop.induct)
  case (1 nx res)
  then show ?case by simp
next
  case (2 fuel nx res)
  show ?case
  proof (cases i)
    case 0
    with 2 show ?thesis by (simp add: Let_def split: if_splits)
  next
    case (Suc j)
    with 2 have "hm_contains (((nx + 1) mod 2 ^ 64 + j) mod 2 ^ 64) res"
      by (simp add: Let_def split: if_splits)
    with Suc show ?thesis by (simp add: mod_add_left_eq)
  qed
qed

lemma next_id_loop_enough:
  assumes "length res < 2 ^ 64" "nx < 2 ^ 64"
  shows "next_id_loop (Suc (length res)) nx res \<noteq> None"
proof
  assume none: "next_id_loop (Suc (length res)) nx res = None"
  let ?id = "\<lambda>i. (nx + i) mod 2 ^ 64"
  have inj: "inj_on ?id {..length res}"
  proof (rule inj_onI)
    fix i j assume ij: "i \<in> {..length res}" "j \<in> {..length res}" "?id i = ?id j"
    then have "i mod 2 ^ 64 = j mod 2 ^ 64"
      unfolding nat_mod_eq_iff by (metis add.assoc add_left_cancel)
    with ij assms show "i = j" by simp
  qed
  have "?id ` {..length res} \<subseteq> fst ` set res"
    using next_id_loop_None [OF none assms(2)] by (auto simp: hm_contains_iff less_Suc_eq_le)
  then have "card (?id ` {..length res}) \<le> card (fst ` set res)" by (intro card_mono) simp_all
  moreover have "card (fst ` set res) \<le> length res"
    by (metis card_length list.set_map length_map)
  ultimately show False using card_image [OF inj] by simp
qed

lemma next_id_loop_Some:
  "next_id_loop fuel nx res = Some (i, n) \<Longrightarrow> nx < 2 ^ 64 \<Longrightarrow>
   \<not> hm_contains i res \<and> i < 2 ^ 64 \<and> n < 2 ^ 64"
  by (induction fuel nx res rule: next_id_loop.induct) (auto simp: Let_def split: if_splits)

section \<open>Measuring the directory tree\<close>

text \<open>
  What the scan sees, as the answers the file system gives while it runs: the metadata of an entry or
  the error of the call, and for a directory the error of opening it or the answers of its
  iteration.
\<close>

datatype fs_node =
    Meta_Error io_kind
  | Symlink
  | Regular nat
  | Special
  | Unreadable io_kind
  | Directory "fs_entry list"
and fs_entry = Next_Error io_kind | Entry fs_node

text \<open>
  One directory: its entries in turn, adding file sizes to the total and pushing subdirectories on
  the stack. A vanished entry is skipped, a vanished iteration ends the directory.
\<close>

fun scan_entries :: "fs_entry list \<Rightarrow> nat \<Rightarrow> fs_node list \<Rightarrow> io_kind + nat \<times> fs_node list" where
  "scan_entries [] acc pending = Inr (acc, pending)"
| "scan_entries (Next_Error e # _) acc pending =
     (if e = Not_Found then Inr (acc, pending) else Inl e)"
| "scan_entries (Entry node # later) acc pending =
     (case node of
        Meta_Error e \<Rightarrow> if e = Not_Found then scan_entries later acc pending else Inl e
      | Symlink \<Rightarrow> scan_entries later acc pending
      | Regular len \<Rightarrow> scan_entries later (sat_add u64_max acc len) pending
      | Special \<Rightarrow> scan_entries later acc pending
      | _ \<Rightarrow> scan_entries later acc (node # pending))"

definition pending_size :: "fs_node list \<Rightarrow> nat" where
  "pending_size pending = sum_list (map (\<lambda>n. Suc (size n)) pending)"

lemma scan_entries_size:
  "scan_entries es acc pending = Inr (t, p) \<Longrightarrow> pending_size p \<le> size_list size es + pending_size pending"
proof (induction es acc pending rule: scan_entries.induct)
  case (3 node later acc pending)
  then show ?case
    by (cases node) (fastforce simp: pending_size_def split: if_splits)+
qed (auto split: if_splits)

text \<open>The stack of directories still to read, the root first.\<close>

function scan_pending :: "nat \<Rightarrow> fs_node list \<Rightarrow> io_kind + nat" where
  "scan_pending acc [] = Inr acc"
| "scan_pending acc (node # pending) =
     (case node of
        Unreadable e \<Rightarrow> if e = Not_Found then scan_pending acc pending else Inl e
      | Directory entries \<Rightarrow>
          (case scan_entries entries acc pending of
             Inl e \<Rightarrow> Inl e
           | Inr (t, p) \<Rightarrow> scan_pending t p)
      | _ \<Rightarrow> scan_pending acc pending)"
  by pat_completeness auto
termination
  by (relation "measure (\<lambda>(t, p). pending_size p)")
    (auto dest!: scan_entries_size simp: pending_size_def)

definition measure_transcode_disk_usage :: "fs_node \<Rightarrow> io_kind + nat option" where
  "measure_transcode_disk_usage root =
     (case root of
        Meta_Error e \<Rightarrow> if e = Not_Found then Inr None else Inl e
      | Symlink \<Rightarrow> Inl Invalid_Input
      | Regular _ \<Rightarrow> Inl Not_A_Directory
      | Special \<Rightarrow> Inl Not_A_Directory
      | Unreadable e \<Rightarrow> if e = Not_Found then Inr None else Inl e
      | Directory _ \<Rightarrow> (case scan_pending 0 [root] of Inl e \<Rightarrow> Inl e | Inr acc \<Rightarrow> Inr (Some acc)))"

definition transcode_disk_usage_bytes :: "fs_node \<Rightarrow> io_kind + nat" where
  "transcode_disk_usage_bytes root =
     (case measure_transcode_disk_usage root of Inl e \<Rightarrow> Inl e | Inr m \<Rightarrow> Inr (unwrap_or 0 m))"

text \<open>The specification of the scan on a tree that does not change: the bytes of its regular files.\<close>

fun fs_bytes :: "fs_node \<Rightarrow> nat" and entry_bytes :: "fs_entry \<Rightarrow> nat" where
  "fs_bytes (Regular n) = n"
| "fs_bytes (Directory es) = sum_list (map entry_bytes es)"
| "fs_bytes _ = 0"
| "entry_bytes (Entry n) = fs_bytes n"
| "entry_bytes (Next_Error _) = 0"

fun fs_stable :: "fs_node \<Rightarrow> bool" and entry_stable :: "fs_entry \<Rightarrow> bool" where
  "fs_stable (Meta_Error _) = False"
| "fs_stable (Unreadable _) = False"
| "fs_stable (Directory es) = list_all entry_stable es"
| "fs_stable _ = True"
| "entry_stable (Entry n) = fs_stable n"
| "entry_stable (Next_Error _) = False"

definition stack_bytes :: "fs_node list \<Rightarrow> nat" where
  "stack_bytes ns = sum_list (map fs_bytes ns)"

definition stable_stack :: "fs_node list \<Rightarrow> bool" where
  "stable_stack ns \<longleftrightarrow> (\<forall>n \<in> set ns. fs_stable n \<and> (\<exists>es. n = Directory es))"

lemma scan_entries_stable:
  assumes "list_all entry_stable es" "stable_stack pending" "acc \<le> u64_max"
  shows "\<exists>t p. scan_entries es acc pending = Inr (t, p) \<and> stable_stack p \<and> t \<le> u64_max \<and>
    min u64_max (t + stack_bytes p) =
      min u64_max (acc + sum_list (map entry_bytes es) + stack_bytes pending)"
  using assms
proof (induction es acc pending rule: scan_entries.induct)
  case (3 node later acc pending)
  show ?case
  proof (cases node)
    case (Regular len)
    from 3 Regular obtain t p where "scan_entries later (sat_add u64_max acc len) pending = Inr (t, p)"
      "stable_stack p" "t \<le> u64_max" "min u64_max (t + stack_bytes p) =
        min u64_max (sat_add u64_max acc len + sum_list (map entry_bytes later) + stack_bytes pending)"
      by fastforce
    moreover have "min u64_max (sat_add u64_max acc len + a + b) = min u64_max (acc + len + a + b)" for a b
      by (simp add: sat_add_def min_def)
    ultimately show ?thesis using Regular by (simp add: add.assoc)
  next
    case (Directory es)
    have "stable_stack (Directory es # pending)" using 3 Directory by (simp add: stable_stack_def)
    with "3.IH"(6) "3.prems" Directory show ?thesis
      by (fastforce simp: stack_bytes_def add.assoc add.left_commute)
  qed (use 3 in auto)
qed auto

lemma scan_pending_stable:
  assumes "stable_stack pending" "acc \<le> u64_max"
  shows "scan_pending acc pending = Inr (min u64_max (acc + stack_bytes pending))"
  using assms
proof (induction acc pending rule: scan_pending.induct)
  case (1 acc)
  then show ?case by (simp add: stack_bytes_def)
next
  case (2 acc node pending)
  then obtain es where node: "node = Directory es" and es: "list_all entry_stable es"
    and rest: "stable_stack pending"
    by (auto simp: stable_stack_def)
  obtain t p where tp: "scan_entries es acc pending = Inr (t, p)" "stable_stack p" "t \<le> u64_max"
    "min u64_max (t + stack_bytes p) =
      min u64_max (acc + sum_list (map entry_bytes es) + stack_bytes pending)"
    using scan_entries_stable [OF es rest "2.prems"(2)] by blast
  have "scan_pending t p = Inr (min u64_max (t + stack_bytes p))"
    using "2.IH" node tp by simp
  with node tp show ?case by (simp add: stack_bytes_def add.assoc)
qed

text \<open>
  On a tree that stays readable while it is scanned, the measured usage is exactly the number of
  bytes in its regular files, symbolic links not followed, capped at the largest 64-bit value; the
  scan always ends.
\<close>

theorem measure_transcode_disk_usage_exact:
  assumes "fs_stable (Directory entries)"
  shows "measure_transcode_disk_usage (Directory entries) =
    Inr (Some (min u64_max (fs_bytes (Directory entries))))"
  using assms scan_pending_stable [of "[Directory entries]" 0]
  by (simp add: measure_transcode_disk_usage_def stable_stack_def stack_bytes_def
      del: scan_pending.simps)

theorem measure_transcode_disk_usage_exact_witness:
  "measure_transcode_disk_usage
      (Directory [Entry (Regular 5), Entry Symlink, Entry (Directory [Entry (Regular 7)])]) =
    Inr (Some (min u64_max
      (fs_bytes (Directory [Entry (Regular 5), Entry Symlink, Entry (Directory [Entry (Regular 7)])]))))"
  by (rule measure_transcode_disk_usage_exact) simp

section \<open>The invariant of the manager\<close>

text \<open>
  Every reservation holds the configured headroom and the total is their sum, within the quota; ids
  are 64-bit and distinct; there is exactly one monitor task while the running flag is set, and the
  flag is set while anybody holds a reservation.
\<close>

definition quota_config_ok :: "quota_config \<Rightarrow> bool" where
  "quota_config_ok c \<longleftrightarrow> 1 \<le> qc_reservation_bytes c \<and> qc_reservation_bytes c \<le> qc_quota_bytes c \<and>
     qc_quota_bytes c < u64_max"

definition reservations_ok :: "quota_config \<Rightarrow> quota_state \<Rightarrow> bool" where
  "reservations_ok c s \<longleftrightarrow>
     hm_ok (qs_reservations s) \<and>
     (\<forall>x \<in> set (qs_reservations s). snd x = qc_reservation_bytes c) \<and>
     qs_reserved_bytes s = length (qs_reservations s) * qc_reservation_bytes c \<and>
     qs_reserved_bytes s \<le> qc_quota_bytes c \<and> qs_next_id s < 2 ^ 64"

definition monitors_ok :: "quota_system \<Rightarrow> bool" where
  "monitors_ok y \<longleftrightarrow>
     sys_sleeping y + sys_scanning y = (if qs_monitor_running (sys_state y) then 1 else 0) \<and>
     (qs_reservations (sys_state y) \<noteq> [] \<longrightarrow> qs_monitor_running (sys_state y))"

fun gate_purpose :: "gate \<Rightarrow> purpose option" where
  "gate_purpose (Gate_Scanning p) = Some p"
| "gate_purpose (Gate_Measured p _) = Some p"
| "gate_purpose (Gate_Committed p) = Some p"
| "gate_purpose (Gate_Publishing p _) = Some p"
| "gate_purpose (Gate_Failed p _) = Some p"
| "gate_purpose _ = None"

definition quota_inv :: "quota_config \<Rightarrow> quota_system \<Rightarrow> bool" where
  "quota_inv c y \<longleftrightarrow> reservations_ok c (sys_state y) \<and> monitors_ok y \<and>
     (gate_purpose (sys_gate y) = Some For_Monitor \<longrightarrow> 0 < sys_scanning y)"

lemma reservations_bound:
  assumes "quota_config_ok c" "reservations_ok c s"
  shows "length (qs_reservations s) < 2 ^ 64"
proof -
  have "length (qs_reservations s) * 1 \<le> length (qs_reservations s) * qc_reservation_bytes c"
    using assms(1) by (intro mult_le_mono2) (simp add: quota_config_ok_def)
  also have "\<dots> \<le> u64_max" using assms by (simp add: reservations_ok_def quota_config_ok_def)
  finally show ?thesis by simp
qed

lemma next_reservation_id_total:
  assumes "quota_config_ok c" "reservations_ok c s"
  obtains rid nx where "next_transcode_disk_reservation_id s = Some (rid, s\<lparr> qs_next_id := nx \<rparr>)"
    "\<not> hm_contains rid (qs_reservations s)" "nx < 2 ^ 64"
proof -
  have n: "qs_next_id s < 2 ^ 64" using assms(2) by (simp add: reservations_ok_def)
  then obtain rid nx where l:
    "next_id_loop (Suc (length (qs_reservations s))) (qs_next_id s) (qs_reservations s) = Some (rid, nx)"
    using next_id_loop_enough [OF reservations_bound [OF assms]]
    by (metis option.exhaust surj_pair)
  from next_id_loop_Some [OF l n] have "\<not> hm_contains rid (qs_reservations s)" "nx < 2 ^ 64" by simp_all
  moreover have "next_transcode_disk_reservation_id s = Some (rid, s\<lparr> qs_next_id := nx \<rparr>)"
    unfolding next_transcode_disk_reservation_id_def l by simp
  ultimately show ?thesis using that by blast
qed

lemma quota_admit_total:
  assumes "quota_config_ok c" "reservations_ok c s"
  shows "quota_admit c s \<noteq> None"
proof -
  obtain rid nx where "next_transcode_disk_reservation_id s = Some (rid, s\<lparr> qs_next_id := nx \<rparr>)"
    using next_reservation_id_total [OF assms] by metis
  then show ?thesis by (simp add: quota_admit_def Let_def)
qed

lemma quota_admit_grant:
  assumes c: "quota_config_ok c" and s: "reservations_ok c s"
    and grant: "quota_admit c s = Some (Inr (rid, start, t))"
  shows "reservations_ok c t" "unwrap_or 0 (qs_usage_bytes s) + qs_reserved_bytes t \<le> qc_quota_bytes c"
    "\<not> hm_contains rid (qs_reservations s)"
    "map_of (qs_reservations t) = (map_of (qs_reservations s))(rid \<mapsto> qc_reservation_bytes c)"
    "start = (\<not> qs_monitor_running s)" "qs_monitor_running t" "qs_reservations t \<noteq> []"
    "qs_quota_exceeded t = qs_quota_exceeded s" "qs_usage_bytes t = qs_usage_bytes s"
proof -
  obtain i nx where i: "next_transcode_disk_reservation_id s = Some (i, s\<lparr> qs_next_id := nx \<rparr>)"
    "\<not> hm_contains i (qs_reservations s)" "nx < 2 ^ 64"
    using next_reservation_id_total [OF c s] .
  let ?req = "qc_reservation_bytes c" and ?use = "unwrap_or 0 (qs_usage_bytes s)"
  have le: "\<not> sat_add u64_max (sat_add u64_max ?use (qs_reserved_bytes s)) ?req > qc_quota_bytes c"
    using grant by (auto simp: quota_admit_def Let_def split: if_splits)
  with c have sum: "?use + qs_reserved_bytes s + ?req \<le> qc_quota_bytes c"
    by (simp add: sat_add_def quota_config_ok_def min_def split: if_splits)
  then have sat: "sat_add u64_max (qs_reserved_bytes s) ?req = qs_reserved_bytes s + ?req"
    using c by (simp add: sat_add_def quota_config_ok_def)
  have t: "t = s\<lparr> qs_next_id := nx, qs_reservations := hm_insert i ?req (qs_reservations s),
      qs_reserved_bytes := qs_reserved_bytes s + ?req, qs_monitor_running := True \<rparr>"
    "rid = i" "start = (\<not> qs_monitor_running s)"
    using grant le i(1) sat by (auto simp: quota_admit_def Let_def split: if_splits)
  show "reservations_ok c t"
    using s i sum t set_hm_insert_subset [of i ?req "qs_reservations s"]
    by (auto simp: reservations_ok_def length_hm_insert)
  show "?use + qs_reserved_bytes t \<le> qc_quota_bytes c" using sum t by simp
  show "\<not> hm_contains rid (qs_reservations s)" "start = (\<not> qs_monitor_running s)"
    "qs_monitor_running t" "qs_reservations t \<noteq> []" "qs_quota_exceeded t = qs_quota_exceeded s"
    "qs_usage_bytes t = qs_usage_bytes s"
    "map_of (qs_reservations t) = (map_of (qs_reservations s))(rid \<mapsto> ?req)"
    using t i by simp_all
qed

lemma quota_release_ok:
  assumes "reservations_ok c s" "quota_release rid s = (t, sig)"
  shows "reservations_ok c t" "qs_monitor_running t = qs_monitor_running s"
    "qs_reservations s = [] \<Longrightarrow> qs_reservations t = []"
    "qs_reservations t \<noteq> [] \<Longrightarrow> qs_quota_exceeded t = qs_quota_exceeded s \<and> sig = None"
proof -
  have mem: "map_of (qs_reservations s) rid = Some b \<Longrightarrow> b = qc_reservation_bytes c \<and>
      hm_contains rid (qs_reservations s) \<and> 0 < length (qs_reservations s)" for b
    using assms(1) map_of_SomeD [of "qs_reservations s" rid b]
    by (auto simp: reservations_ok_def hm_contains_def)
  have len: "(n - Suc 0) * k = n * k - k" for n k :: nat by (simp add: diff_mult_distrib)
  have del: "length (hm_remove rid (qs_reservations s)) = length (qs_reservations s) - Suc 0"
    if "map_of (qs_reservations s) rid = Some b" for b
    using that mem assms(1) by (simp add: length_hm_remove reservations_ok_def)
  show "reservations_ok c t"
    using assms mem del
    by (fastforce simp: quota_release_def Let_def reservations_ok_def set_hm_remove len
        split: option.splits if_splits)
  show "qs_monitor_running t = qs_monitor_running s"
    "qs_reservations s = [] \<Longrightarrow> qs_reservations t = []"
    "qs_reservations t \<noteq> [] \<Longrightarrow> qs_quota_exceeded t = qs_quota_exceeded s \<and> sig = None"
    using assms(2) by (auto simp: quota_release_def Let_def split: option.splits if_splits)
qed

lemma commits_ok:
  "reservations_ok c (commit_scan d now u s) = reservations_ok c s"
  "reservations_ok c (commit_failure s) = reservations_ok c s"
  "qs_monitor_running (commit_scan d now u s) = qs_monitor_running s"
  "qs_monitor_running (commit_failure s) = qs_monitor_running s"
  "qs_reservations (commit_scan d now u s) = qs_reservations s"
  "qs_reservations (commit_failure s) = qs_reservations s"
  by (simp_all add: commit_scan_def commit_failure_def reservations_ok_def)

lemma monitor_check_ok:
  "monitor_check s = (t, stop) \<Longrightarrow> reservations_ok c t = reservations_ok c s \<and>
     qs_reservations t = qs_reservations s \<and> stop = (qs_reservations s = []) \<and>
     qs_monitor_running t = (qs_monitor_running s \<and> \<not> stop)"
  by (auto simp: monitor_check_def reservations_ok_def split: if_splits)

lemma leave_gate_fields [simp]:
  "sys_state (leave_gate p y) = sys_state y" "sys_gate (leave_gate p y) = Gate_Free"
  "sys_signal (leave_gate p y) = sys_signal y"
  by (simp_all add: leave_gate_def)

lemma continue_gate_inv:
  assumes "quota_inv c (y\<lparr> sys_gate := g \<rparr>)" "p = For_Monitor \<longrightarrow> 0 < sys_scanning y"
  shows "quota_inv c (continue_gate p y)" "quota_inv c (leave_gate p y)"
  using assms
  by (auto simp: quota_inv_def continue_gate_def leave_gate_def monitors_ok_def split: if_splits)

lemma quota_step_inv:
  assumes "quota_config_ok c" "quota_inv c y" "quota_step c y z"
  shows "quota_inv c z"
  using assms(3)
proof cases
  case (admitted rid start s)
  note g = quota_admit_grant [OF assms(1) _ admitted(3)]
  show ?thesis
    using assms(2) g unfolding admitted(1) by (auto simp: quota_inv_def monitors_ok_def)
next
  case (released rid s sig)
  note r = quota_release_ok [OF _ released(2)]
  show ?thesis
    using assms(2) r unfolding released(1) by (auto simp: quota_inv_def monitors_ok_def)
next
  case (monitor_stops s)
  show ?thesis
    using assms(2) monitor_check_ok [OF monitor_stops(3), of c] monitor_stops(2)
    unfolding monitor_stops(1) by (auto simp: quota_inv_def monitors_ok_def split: if_splits)
next
  case (monitor_continues s)
  show ?thesis
    using assms(2) monitor_check_ok [OF monitor_continues(3), of c] monitor_continues(2)
    unfolding monitor_continues(1) by (auto simp: quota_inv_def monitors_ok_def split: if_splits)
next
  case (cached p now u)
  show ?thesis
    unfolding cached(1)
    by (rule continue_gate_inv(1) [where g = "sys_gate y"]) (use assms(2) cached in \<open>simp_all add: may_start_def quota_inv_def monitors_ok_def\<close>)
next
  case (published p b)
  show ?thesis
    unfolding published(1)
    by (rule continue_gate_inv(1) [where g = "sys_gate y"])
      (use assms(2) published in \<open>simp_all add: quota_inv_def monitors_ok_def\<close>)
next
  case (published_failure p b)
  show ?thesis
    unfolding published_failure(1)
    by (rule continue_gate_inv(2) [where g = "sys_gate y"])
      (use assms(2) published_failure in \<open>simp_all add: quota_inv_def monitors_ok_def\<close>)
qed (use assms(2) in \<open>auto simp: quota_inv_def monitors_ok_def commits_ok may_start_def\<close>)

lemma quota_reachable_inv:
  assumes "quota_config_ok c" "quota_reachable c y"
  shows "quota_inv c y"
  using assms(2)
proof induction
  case start
  then show ?case
    by (simp add: quota_inv_def quota_system_new_def quota_initial_def reservations_ok_def monitors_ok_def)
qed (rule quota_step_inv [OF assms(1)])

section \<open>Properties\<close>


definition sample_quota :: quota_config where
  "sample_quota = \<lparr> qc_quota_bytes = 100, qc_reservation_bytes = 40, qc_scan_interval = 1000000 \<rparr>"

lemma sample_quota_ok: "quota_config_ok sample_quota"
  by (simp add: sample_quota_def quota_config_ok_def)

lemma sample_quota_admitted:
  "\<exists>y. quota_reachable sample_quota y \<and> sys_gate y = Gate_Free \<and> sys_state y = (commit_scan sample_quota 5 0 quota_initial)\<lparr>
      qs_next_id := 1, qs_reservations := [(0, 40)], qs_reserved_bytes := 40, qs_monitor_running := True \<rparr>"
proof -
  let ?s0 = "quota_initial"
  let ?y0 = "quota_system_new"
  let ?y1 = "?y0\<lparr> sys_gate := Gate_Scanning For_Admission \<rparr>"
  let ?y2 = "?y1\<lparr> sys_gate := Gate_Measured For_Admission (Inr 0) \<rparr>"
  let ?s3 = "commit_scan sample_quota 5 0 ?s0"
  let ?y3 = "?y2\<lparr> sys_state := ?s3, sys_gate := Gate_Committed For_Admission \<rparr>"
  let ?y4 = "?y3\<lparr> sys_gate := Gate_Publishing For_Admission False \<rparr>"
  let ?y5 = "continue_gate For_Admission (?y4\<lparr> sys_signal := False \<rparr>)"
  note defs = quota_system_new_def quota_initial_def cached_usage_def may_start_def sample_quota_def
    scan_usage_def commit_scan_def continue_gate_def sat_add_def
  have r0: "quota_reachable sample_quota ?y0" by (rule quota_reachable.start)
  have r1: "quota_reachable sample_quota ?y1"
    by (rule quota_reachable.step [OF r0], rule quota_step.scan [where now = 5]) (simp_all add: defs)
  have r2: "quota_reachable sample_quota ?y2"
    using quota_reachable.step [OF r1 quota_step.measured [where p = For_Admission and m = "Inr None"]]
    by (simp add: defs)
  have r3: "quota_reachable sample_quota ?y3"
    using quota_reachable.step [OF r2 quota_step.committed [where p = For_Admission and u = 0 and now = 5]]
    by (simp add: quota_system_new_def)
  have r4: "quota_reachable sample_quota ?y4"
    using quota_reachable.step [OF r3 quota_step.flag_read [where p = For_Admission]]
    by (simp add: defs)
  have r5: "quota_reachable sample_quota ?y5"
    using quota_reachable.step [OF r4 quota_step.published [where p = For_Admission and b = False]] by simp
  have a: "quota_admit sample_quota (sys_state ?y5) = Some (Inr (0, True, ?s3\<lparr>
      qs_next_id := 1, qs_reservations := [(0, 40)], qs_reserved_bytes := 40, qs_monitor_running := True \<rparr>))"
    by (simp add: defs quota_admit_def next_transcode_disk_reservation_id_def hm_contains_def hm_insert_def)
  have g: "sys_gate ?y5 = Gate_Admitting" by (simp add: continue_gate_def)
  show ?thesis
    using quota_reachable.step [OF r5 quota_step.admitted [OF g a]] by (intro exI conjI) auto
qed


text \<open>
  Admission of a writer always gets an answer, and a granted one leaves the measured usage plus
  everything reserved within the quota, under an id nobody else holds.
\<close>

theorem quota_admission_within_quota:
  assumes "quota_config_ok c" "quota_reachable c y"
  shows "case quota_admit c (sys_state y) of
      None \<Rightarrow> False
    | Some (Inl e) \<Rightarrow> e = Exhausted (qc_quota_bytes c) (unwrap_or 0 (qs_usage_bytes (sys_state y)))
          (qs_reserved_bytes (sys_state y)) (qc_reservation_bytes c)
    | Some (Inr (rid, start, s)) \<Rightarrow>
        unwrap_or 0 (qs_usage_bytes s) + qs_reserved_bytes s \<le> qc_quota_bytes c \<and>
        \<not> hm_contains rid (qs_reservations (sys_state y)) \<and>
        map_of (qs_reservations s) = (map_of (qs_reservations (sys_state y)))(rid \<mapsto> qc_reservation_bytes c)"
proof -
  have r: "reservations_ok c (sys_state y)"
    using quota_reachable_inv [OF assms] by (simp add: quota_inv_def)
  obtain res where res: "quota_admit c (sys_state y) = Some res"
    using quota_admit_total [OF assms(1) r] by blast
  show ?thesis
  proof (cases res)
    case (Inl e)
    then show ?thesis using res by (auto simp: quota_admit_def Let_def split: if_splits)
  next
    case (Inr g)
    obtain rid start s where g: "g = (rid, start, s)" by (cases g)
    have grant: "quota_admit c (sys_state y) = Some (Inr (rid, start, s))" using res Inr g by simp
    note facts = quota_admit_grant [OF assms(1) r grant]
    show ?thesis
      unfolding grant option.case sum.case prod.case facts(9) using facts(2-4) by (intro conjI)
  qed
qed

theorem quota_admission_within_quota_witness:
  "\<exists>y rid start s. quota_reachable sample_quota y \<and>
     quota_admit sample_quota (sys_state y) = Some (Inr (rid, start, s)) \<and>
     unwrap_or 0 (qs_usage_bytes s) + qs_reserved_bytes s \<le> 100 \<and> qs_reserved_bytes s = 80"
proof -
  obtain y where y: "quota_reachable sample_quota y" "sys_state y = (commit_scan sample_quota 5 0 quota_initial)\<lparr>
      qs_next_id := 1, qs_reservations := [(0, 40)], qs_reserved_bytes := 40, qs_monitor_running := True \<rparr>"
    using sample_quota_admitted by blast
  then have "\<exists>rid start s. quota_admit sample_quota (sys_state y) = Some (Inr (rid, start, s)) \<and>
      qs_reserved_bytes s = 80"
    by (simp add: quota_admit_def next_transcode_disk_reservation_id_def commit_scan_def sample_quota_def
        quota_initial_def sat_add_def hm_contains_def) blast
  then obtain rid start s where g: "quota_admit sample_quota (sys_state y) = Some (Inr (rid, start, s))"
    "qs_reserved_bytes s = 80" by blast
  with quota_admission_within_quota [OF sample_quota_ok y(1)] y(1) show ?thesis
    by (intro exI [of _ y] exI [of _ rid] exI [of _ start] exI [of _ s]) (simp add: sample_quota_def)
qed

text \<open>
  The exceeded flag is sticky: once set while writers are active, no interleaving of the other
  callers clears it before the last of those reservations is released.
\<close>

theorem quota_exceeded_sticky:
  assumes "quota_step c y z"
    and "qs_quota_exceeded (sys_state y)" "qs_reservations (sys_state y) \<noteq> []"
    and "qs_reservations (sys_state z) \<noteq> []" "quota_config_ok c" "quota_reachable c y"
  shows "qs_quota_exceeded (sys_state z)"
  using assms(1)
proof cases
  case (admitted rid start s)
  have "reservations_ok c (sys_state y)"
    using quota_reachable_inv [OF assms(5,6)] by (simp add: quota_inv_def)
  from quota_admit_grant(8) [OF assms(5) this admitted(3)] show ?thesis
    using assms(2) unfolding admitted(1) by simp
next
  case (released rid s sig)
  have "reservations_ok c (sys_state y)"
    using quota_reachable_inv [OF assms(5,6)] by (simp add: quota_inv_def)
  from quota_release_ok(4) [OF this released(2)] show ?thesis
    using assms(2,4) unfolding released(1) by simp
qed (use assms in \<open>auto simp: commit_scan_def commit_failure_def monitor_check_def continue_gate_def
    leave_gate_def split: if_splits\<close>)

theorem quota_exceeded_sticky_witness:
  "\<exists>y z. quota_step sample_quota y z \<and> y \<noteq> z \<and> qs_reservations (sys_state z) \<noteq> [] \<and>
     qs_quota_exceeded (sys_state z)"
proof -
  obtain y where y: "quota_reachable sample_quota y" "sys_gate y = Gate_Free"
    "qs_reservations (sys_state y) = [(0, 40)]"
    using sample_quota_admitted by fastforce
  let ?p = "For_Snapshot True"
  let ?y1 = "y\<lparr> sys_gate := Gate_Scanning ?p \<rparr>"
  let ?y2 = "?y1\<lparr> sys_gate := Gate_Measured ?p (Inr 200) \<rparr>"
  let ?y3 = "?y2\<lparr> sys_state := commit_scan sample_quota 9 200 (sys_state y), sys_gate := Gate_Committed ?p \<rparr>"
  let ?z = "?y3\<lparr> sys_gate := Gate_Publishing ?p True \<rparr>"
  have r1: "quota_reachable sample_quota ?y1"
    by (rule quota_reachable.step [OF y(1)], rule quota_step.scan [where now = 9])
      (use y(2) in \<open>simp_all add: may_start_def cached_usage_def purpose_force_def split: option.splits\<close>)
  have r2: "quota_reachable sample_quota ?y2"
    using quota_reachable.step [OF r1 quota_step.measured [where p = ?p and m = "Inr (Some 200)"]]
    by (simp add: scan_usage_def)
  have r3: "quota_reachable sample_quota ?y3"
    using quota_reachable.step [OF r2 quota_step.committed [where p = ?p and u = 200 and now = 9]] by simp
  have e: "qs_quota_exceeded (sys_state ?y3)" "qs_reservations (sys_state ?y3) \<noteq> []"
    using y(3) by (simp_all add: commit_scan_def sample_quota_def)
  have "quota_step sample_quota ?y3 ?z"
    using quota_step.flag_read [of ?y3 ?p sample_quota] e by simp
  moreover from this have "qs_quota_exceeded (sys_state ?z)"
    by (rule quota_exceeded_sticky) (use e r3 sample_quota_ok in simp_all)
  moreover have "?y3 \<noteq> ?z"
  proof
    assume "?y3 = ?z"
    then have "sys_gate ?y3 = sys_gate ?z" by (rule arg_cong)
    then show False by simp
  qed
  moreover have "qs_reservations (sys_state ?z) \<noteq> []" using e by simp
  ultimately show ?thesis by blast
qed

end
