(* ===== verification/Command_Classifier.thy ===== *)
theory Command_Classifier
  imports Hls_Command
begin

text \<open>
  The capacity lane of an FFmpeg command: \<open>classify_transcode_command\<close> and its helpers in
  \<open>crates/jellyrin-transcode/src/lib.rs\<close> (lines 588--595, 979--1165). The declared workload of the
  command is combined with what its arguments show; the scan over the arguments is a recursion over
  the remaining arguments that carries the flags of the loop.
\<close>

datatype job_kind = VideoJob | AudioJob | RemuxJob | AuxiliaryJob | ProbeJob

datatype codec_stream = VideoTarget | AudioTarget | SubtitleTarget | UnknownTarget

definition max_job_kind :: "job_kind \<Rightarrow> job_kind \<Rightarrow> job_kind" where
  "max_job_kind l r =
     (if l = VideoJob \<or> r = VideoJob then VideoJob
      else if l = AudioJob \<or> r = AudioJob then AudioJob
      else RemuxJob)"

definition codec_is_copy_or_disabled :: "string \<Rightarrow> bool" where
  "codec_is_copy_or_disabled codec \<longleftrightarrow> to_ascii_lowercase (trim codec) \<in> {''copy'', ''none''}"

definition codec_target :: "string \<Rightarrow> codec_stream option" where
  "codec_target opt =
     (let parts = split_on (CHR '':'') (to_ascii_lowercase (trim opt));
          base = hd parts;
          stream_type = (case tl parts of [] \<Rightarrow> None | t # _ \<Rightarrow> Some t)
      in if base = ''-vcodec'' then Some VideoTarget
         else if base = ''-acodec'' then Some AudioTarget
         else if base = ''-scodec'' then Some SubtitleTarget
         else if base = ''-c'' \<or> base = ''-codec'' then
           Some (if stream_type = Some ''v'' then VideoTarget
                 else if stream_type = Some ''a'' then AudioTarget
                 else if stream_type = Some ''s'' then SubtitleTarget
                 else UnknownTarget)
         else None)"

definition mapped_stream_target :: "string \<Rightarrow> codec_stream option" where
  "mapped_stream_target value =
     (let value = trim_end_char (CHR ''?'') (trim value)
      in if starts_with ''['' value \<or> \<not> starts_with ''0:'' value then Some UnknownTarget
         else (case tl (split_on (CHR '':'') value) of
             [] \<Rightarrow> None
           | t # _ \<Rightarrow> Some (if t = ''v'' then VideoTarget else if t = ''a'' then AudioTarget
                            else if t = ''s'' then SubtitleTarget else UnknownTarget)))"

definition filter_job_kind :: "string \<Rightarrow> job_kind option" where
  "filter_job_kind opt =
     (let lower = to_ascii_lowercase (trim opt)
      in if lower \<in> {''-af'', ''-filter:a''} \<or> starts_with ''-filter:a:'' lower \<or>
            starts_with ''-filter_script:a'' lower
         then Some AudioJob
         else if lower \<in> {''-vf'', ''-filter:v''} \<or> starts_with ''-filter:v:'' lower \<or>
            lower \<in> {''-filter'', ''-filter_complex'', ''-filter_script'', ''-filter_complex_script'',
                      ''-lavfi'', ''-target''} \<or>
            starts_with ''-filter:'' lower \<or> starts_with ''-filter_script:'' lower \<or>
            starts_with ''-filter_complex:'' lower \<or> starts_with ''-filter_complex_script:'' lower
         then Some VideoJob
         else None)"

fun any_pair :: "('a \<Rightarrow> 'a \<Rightarrow> bool) \<Rightarrow> 'a list \<Rightarrow> bool" where
  "any_pair P (x # y # xs) = (P x y \<or> any_pair P (y # xs))"
| "any_pair P _ = False"

definition bounded_teletext_webvtt :: "string list \<Rightarrow> bool" where
  "bounded_teletext_webvtt args \<longleftrightarrow>
     any_pair (\<lambda>a b. a = ''-txt_page'' \<and>
       is_some_and (\<lambda>page. 100 \<le> page \<and> page \<le> 899) (parse_u16 b)) args \<and>
     any_pair (\<lambda>a b. a = ''-txt_format'' \<and> b = ''text'') args \<and>
     any_pair (\<lambda>a b. a = ''-threads:s'' \<and> b = ''1'') args"

record scan_flags =
  sf_saw_codec :: bool
  sf_observed :: job_kind
  sf_global_copy :: bool
  sf_video_copy :: bool
  sf_audio_copy :: bool
  sf_subtitle_copy :: bool
  sf_mapped_video :: bool
  sf_mapped_audio :: bool
  sf_mapped_subtitle :: bool
  sf_mapped_unknown :: bool

definition scan_start :: scan_flags where
  "scan_start = \<lparr> sf_saw_codec = False, sf_observed = RemuxJob, sf_global_copy = False,
     sf_video_copy = False, sf_audio_copy = False, sf_subtitle_copy = False,
     sf_mapped_video = False, sf_mapped_audio = False, sf_mapped_subtitle = False,
     sf_mapped_unknown = False \<rparr>"

definition note_map :: "string option \<Rightarrow> scan_flags \<Rightarrow> scan_flags" where
  "note_map nxt f =
     (case Option.bind nxt mapped_stream_target of
        Some VideoTarget \<Rightarrow> f\<lparr> sf_mapped_video := True \<rparr>
      | Some AudioTarget \<Rightarrow> f\<lparr> sf_mapped_audio := True \<rparr>
      | Some SubtitleTarget \<Rightarrow> f\<lparr> sf_mapped_subtitle := True \<rparr>
      | _ \<Rightarrow> f\<lparr> sf_mapped_unknown := True \<rparr>)"

definition note_codec :: "bool \<Rightarrow> string \<Rightarrow> codec_stream \<Rightarrow> string \<Rightarrow> scan_flags \<Rightarrow> scan_flags" where
  "note_codec teletext arg target codec f =
     (if codec_is_copy_or_disabled codec \<or>
         target = SubtitleTarget \<and> eq_ignore_case codec ''webvtt'' \<and> teletext
      then (case target of
              VideoTarget \<Rightarrow> f\<lparr> sf_video_copy := True \<rparr>
            | AudioTarget \<Rightarrow> f\<lparr> sf_audio_copy := True \<rparr>
            | SubtitleTarget \<Rightarrow> f\<lparr> sf_subtitle_copy := True \<rparr>
            | UnknownTarget \<Rightarrow> if CHR '':'' \<notin> set arg then f\<lparr> sf_global_copy := True \<rparr> else f)
      else f\<lparr> sf_observed := max_job_kind (sf_observed f)
              (if target = AudioTarget \<or> target = SubtitleTarget then AudioJob else VideoJob) \<rparr>)"

definition note_filter :: "string \<Rightarrow> scan_flags \<Rightarrow> scan_flags" where
  "note_filter arg f =
     (case filter_job_kind arg of
        Some k \<Rightarrow> f\<lparr> sf_observed := max_job_kind (sf_observed f) k \<rparr> | None \<Rightarrow> f)"

text \<open>The loop over the arguments; None is its early return for a codec option without a codec.\<close>

fun scan_args :: "bool \<Rightarrow> string list \<Rightarrow> scan_flags \<Rightarrow> scan_flags option" where
  "scan_args teletext [] f = Some f"
| "scan_args teletext (arg # rest) f =
     (let nxt = (case rest of [] \<Rightarrow> None | a # _ \<Rightarrow> Some a);
          f = note_filter arg f
      in case codec_target arg of
           None \<Rightarrow> scan_args teletext rest (if eq_ignore_case arg ''-map'' then note_map nxt f else f)
         | Some target \<Rightarrow>
             (case nxt of
                None \<Rightarrow> None
              | Some codec \<Rightarrow>
                  scan_args teletext rest
                    (note_codec teletext arg target codec (f\<lparr> sf_saw_codec := True \<rparr>))))"

definition lane_of_flags :: "bool \<Rightarrow> scan_flags \<Rightarrow> job_kind" where
  "lane_of_flags teletext f =
     (if \<not> sf_saw_codec f then VideoJob
      else if sf_observed f \<noteq> RemuxJob \<or> sf_global_copy f then sf_observed f
      else if (sf_mapped_unknown f \<and> \<not> teletext) \<or> (sf_mapped_video f \<and> \<not> sf_video_copy f) then VideoJob
      else if (sf_mapped_audio f \<and> \<not> sf_audio_copy f) \<or> (sf_mapped_subtitle f \<and> \<not> sf_subtitle_copy f)
      then AudioJob
      else if \<not> sf_mapped_video f \<and> \<not> sf_mapped_audio f \<and> \<not> sf_mapped_subtitle f then VideoJob
      else RemuxJob)"

definition classify_ffmpeg_args :: "string list \<Rightarrow> job_kind" where
  "classify_ffmpeg_args args =
     (let teletext = bounded_teletext_webvtt args
      in case scan_args teletext args scan_start of
           None \<Rightarrow> VideoJob | Some f \<Rightarrow> lane_of_flags teletext f)"

fun job_of_workload :: "ffmpeg_workload \<Rightarrow> job_kind" where
  "job_of_workload Remux = RemuxJob"
| "job_of_workload AudioEncode = AudioJob"
| "job_of_workload VideoEncode = VideoJob"

definition classify_transcode_command :: "ffmpeg_command_spec \<Rightarrow> job_kind" where
  "classify_transcode_command command =
     (case spec_workload command of
        None \<Rightarrow> VideoJob
      | Some w \<Rightarrow> max_job_kind (job_of_workload w) (classify_ffmpeg_args (spec_args command)))"

section \<open>The lanes are ordered and the scan is monotone\<close>

fun lane_cost :: "job_kind \<Rightarrow> nat" where
  "lane_cost VideoJob = 2"
| "lane_cost AudioJob = 1"
| "lane_cost _ = 0"

lemma lane_cost_max: "lane_cost (max_job_kind l r) = max (lane_cost l) (lane_cost r)"
  by (cases l; cases r) (simp_all add: max_job_kind_def)

lemma lane_cost_video: "lane_cost k = 2 \<longleftrightarrow> k = VideoJob" "2 \<le> lane_cost k \<longleftrightarrow> k = VideoJob"
  by (cases k; simp)+

lemma max_job_kind_range: "max_job_kind l r \<in> {VideoJob, AudioJob, RemuxJob}"
  by (simp add: max_job_kind_def)

lemma observed_note_map [simp]: "sf_observed (note_map n f) = sf_observed f"
  by (simp add: note_map_def split: option.split codec_stream.split)

lemma saw_codec_notes [simp]: "sf_saw_codec (note_map n f) = sf_saw_codec f"
  "sf_saw_codec (note_filter a f) = sf_saw_codec f" "sf_saw_codec (note_codec t a g c f) = sf_saw_codec f"
  by (simp_all add: note_map_def note_filter_def note_codec_def split: option.split codec_stream.split)

lemma observed_note_filter: "lane_cost (sf_observed f) \<le> lane_cost (sf_observed (note_filter a f))"
  by (simp add: note_filter_def lane_cost_max split: option.split)

lemma observed_note_codec:
  "lane_cost (sf_observed f) \<le> lane_cost (sf_observed (note_codec t a g c f))"
  by (simp add: note_codec_def lane_cost_max split: codec_stream.split)

lemma scan_args_monotone:
  "scan_args t args f = Some g \<Longrightarrow>
   lane_cost (sf_observed f) \<le> lane_cost (sf_observed g) \<and> (sf_saw_codec f \<longrightarrow> sf_saw_codec g)"
proof (induction t args f rule: scan_args.induct)
  case (2 t arg rest f)
  note of = observed_note_filter [of f arg]
  show ?case
  proof (cases "codec_target arg")
    case None
    with 2 of show ?thesis by (fastforce simp: Let_def split: if_splits intro: order_trans)
  next
    case (Some target)
    then obtain codec more where rest: "rest = codec # more"
      using "2.prems" by (cases rest) (simp_all add: Let_def)
    let ?f = "note_codec t arg target codec ((note_filter arg f)\<lparr> sf_saw_codec := True \<rparr>)"
    have "lane_cost (sf_observed f) \<le> lane_cost (sf_observed ?f)"
      using of observed_note_codec [of "(note_filter arg f)\<lparr> sf_saw_codec := True \<rparr>"]
      by (simp add: order_trans)
    moreover have "scan_args t rest ?f = Some g" using "2.prems" Some rest by (simp add: Let_def)
    ultimately show ?thesis using "2.IH"(2) Some rest by (fastforce simp: Let_def)
  qed
qed simp

text \<open>What the scan does not skip: an encoder choice raises the observed lane.\<close>

definition codec_lane :: "codec_stream \<Rightarrow> job_kind" where
  "codec_lane t = (if t = AudioTarget \<or> t = SubtitleTarget then AudioJob else VideoJob)"

lemma scan_args_sees_codec:
  assumes "scan_args t (pre @ arg # codec # post) f = Some g" "codec_target arg = Some target"
    "\<not> codec_is_copy_or_disabled codec" "target \<noteq> SubtitleTarget"
  shows "lane_cost (codec_lane target) \<le> lane_cost (sf_observed g)"
  using assms(1)
proof (induction pre arbitrary: f)
  case Nil
  let ?f = "note_codec t arg target codec ((note_filter arg f)\<lparr> sf_saw_codec := True \<rparr>)"
  have "scan_args t (codec # post) ?f = Some g" using Nil assms(2) by (simp add: Let_def)
  then have "lane_cost (sf_observed ?f) \<le> lane_cost (sf_observed g)"
    using scan_args_monotone by blast
  moreover have "lane_cost (codec_lane target) \<le> lane_cost (sf_observed ?f)"
    using assms(3,4) by (simp add: note_codec_def codec_lane_def lane_cost_max)
  ultimately show ?case by (rule order_trans [rotated])
next
  case (Cons a pre)
  then show ?case by (auto simp: Let_def split: option.splits)
qed

lemma scan_args_sees_filter:
  assumes "scan_args t (pre @ arg # post) f = Some g" "filter_job_kind arg = Some k"
  shows "lane_cost k \<le> lane_cost (sf_observed g)"
  using assms(1)
proof (induction pre arbitrary: f)
  case Nil
  have "lane_cost k \<le> lane_cost (sf_observed (note_filter arg f))"
    using assms(2) by (simp add: note_filter_def lane_cost_max)
  also have "\<dots> \<le> lane_cost (sf_observed g)"
  proof (cases "codec_target arg")
    case None
    then have "scan_args t post (if eq_ignore_case arg ''-map''
        then note_map (case post of [] \<Rightarrow> None | a # _ \<Rightarrow> Some a) (note_filter arg f) else note_filter arg f) = Some g"
      using Nil by (simp add: Let_def)
    from scan_args_monotone [OF this] show ?thesis by (simp split: if_splits)
  next
    case (Some target)
    then obtain codec where "scan_args t post
        (note_codec t arg target codec ((note_filter arg f)\<lparr> sf_saw_codec := True \<rparr>)) = Some g"
      using Nil by (auto simp: Let_def split: option.splits)
    from scan_args_monotone [OF this] observed_note_codec show ?thesis
      by (metis order_trans scan_flags.select_convs(2) scan_flags.surjective scan_flags.update_convs(1))
  qed
  finally show ?case .
next
  case (Cons a pre)
  then show ?case by (auto simp: Let_def split: option.splits)
qed

lemma lane_of_flags_cost: "lane_cost (sf_observed f) \<le> lane_cost (lane_of_flags t f)"
  by (cases "sf_observed f") (simp_all add: lane_of_flags_def)

lemma classify_args_cost:
  assumes "\<And>g. scan_args (bounded_teletext_webvtt args) args scan_start = Some g \<Longrightarrow>
      n \<le> lane_cost (sf_observed g)" "n \<le> 2"
  shows "n \<le> lane_cost (classify_ffmpeg_args args)"
  using assms lane_of_flags_cost
  by (fastforce simp: classify_ffmpeg_args_def Let_def split: option.split intro: order_trans)

text \<open>
  The options of ffmpeg that make it encode, written down apart from the classifier: an option word with
  the streams it speaks of (\<open>:a\<close>, \<open>:a:0\<close>, \<open>:v\<close>, nothing), and the lane the work belongs in.
\<close>

definition names_stream :: "string \<Rightarrow> string \<Rightarrow> bool" where
  "names_stream t s \<longleftrightarrow> s = '':'' @ t \<or> (\<exists>r. s = '':'' @ t @ '':'' @ r)"

definition stream_suffix :: "string \<Rightarrow> bool" where
  "stream_suffix s \<longleftrightarrow> s = [] \<or> hd s = CHR '':''"

inductive encoder_option :: "string \<Rightarrow> job_kind \<Rightarrow> bool" where
  vcodec: "stream_suffix s \<Longrightarrow> encoder_option (''-vcodec'' @ s) VideoJob"
| acodec: "stream_suffix s \<Longrightarrow> encoder_option (''-acodec'' @ s) AudioJob"
| audio: "base \<in> {''-c'', ''-codec''} \<Longrightarrow> names_stream ''a'' s \<Longrightarrow> encoder_option (base @ s) AudioJob"
| other: "base \<in> {''-c'', ''-codec''} \<Longrightarrow> stream_suffix s \<Longrightarrow> \<not> names_stream ''a'' s \<Longrightarrow> \<not> names_stream ''s'' s \<Longrightarrow>
    encoder_option (base @ s) VideoJob"

inductive filter_option :: "string \<Rightarrow> job_kind \<Rightarrow> bool" where
  word: "opt \<in> {''-vf'', ''-lavfi'', ''-target''} \<Longrightarrow> filter_option opt VideoJob"
| af: "filter_option ''-af'' AudioJob"
| audio: "base \<in> {''-filter'', ''-filter_script''} \<Longrightarrow> names_stream ''a'' s \<Longrightarrow> filter_option (base @ s) AudioJob"
| other: "base \<in> {''-filter'', ''-filter_script'', ''-filter_complex'', ''-filter_complex_script''} \<Longrightarrow>
    stream_suffix s \<Longrightarrow> \<not> starts_with '':a'' s \<Longrightarrow> filter_option (base @ s) VideoJob"

lemma split_on_Cons: "split_on c xs = w # ws \<Longrightarrow> xs = w \<or> (\<exists>r. xs = w @ c # r)"
proof (induction xs arbitrary: w ws)
  case (Cons x xs)
  then show ?case by (cases "split_on c xs") (auto split: if_splits)
qed simp

lemma option_parts:
  assumes "CHR '':'' \<notin> set base" "stream_suffix s"
  shows "split_on (CHR '':'') (base @ s) = base # (if s = [] then [] else split_on (CHR '':'') (tl s))"
proof (cases s)
  case (Cons c r)
  then show ?thesis using assms by (simp add: stream_suffix_def split_on_append_sep split_on_absent)
qed (simp add: assms split_on_absent)

lemma first_stream: "stream_suffix s \<Longrightarrow> s \<noteq> [] \<Longrightarrow> CHR '':'' \<notin> set t \<Longrightarrow> hd (split_on (CHR '':'') (tl s)) = t \<longleftrightarrow> names_stream t s"
proof -
  assume s: "stream_suffix s" "s \<noteq> []" and t: "CHR '':'' \<notin> set t"
  obtain w ws where split: "split_on (CHR '':'') (tl s) = w # ws" by (cases "split_on (CHR '':'') (tl s)") auto
  have "s = CHR '':'' # tl s" using s by (cases s) (auto simp: stream_suffix_def)
  with split_on_Cons [OF split] have "names_stream w s" by (auto simp: names_stream_def)
  moreover have "t = w" if "names_stream t s"
    using that split t by (auto simp: names_stream_def split_on_append_sep split_on_absent)
  ultimately show ?thesis using split by auto
qed

lemma encoder_option_target:
  assumes "encoder_option (to_ascii_lowercase (trim arg)) lane"
  shows "\<exists>t. codec_target arg = Some t \<and> t \<noteq> SubtitleTarget \<and> codec_lane t = lane"
  using assms
proof cases
  case (vcodec s)
  have "hd (split_on (CHR '':'') (to_ascii_lowercase (trim arg))) = ''-vcodec''"
    unfolding vcodec(1) by (subst option_parts) (simp_all add: vcodec(3))
  then show ?thesis using vcodec(2) by (simp add: codec_target_def Let_def codec_lane_def)
next
  case (acodec s)
  have "hd (split_on (CHR '':'') (to_ascii_lowercase (trim arg))) = ''-acodec''"
    unfolding acodec(1) by (subst option_parts) (simp_all add: acodec(3))
  then show ?thesis using acodec(2) by (simp add: codec_target_def Let_def codec_lane_def)
next
  case (audio base s)
  then have suffix: "stream_suffix s" "s \<noteq> []" by (auto simp: stream_suffix_def names_stream_def)
  then obtain ws where "split_on (CHR '':'') (tl s) = ''a'' # ws"
    using audio(4) first_stream [OF suffix, of "''a''"] by (cases "split_on (CHR '':'') (tl s)") auto
  moreover have "split_on (CHR '':'') (to_ascii_lowercase (trim arg)) = base # split_on (CHR '':'') (tl s)"
    unfolding audio(1) using audio(3) suffix option_parts [of base s] by auto
  ultimately show ?thesis using audio by (auto simp: codec_target_def Let_def codec_lane_def)
next
  case (other base s)
  then have parts: "split_on (CHR '':'') (to_ascii_lowercase (trim arg)) = base # (if s = [] then [] else split_on (CHR '':'') (tl s))"
    unfolding other(1) using option_parts [of base s] by auto
  show ?thesis
  proof (cases "s = []")
    case True
    then show ?thesis using parts other(2,3) by (auto simp: codec_target_def Let_def codec_lane_def)
  next
    case False
    then obtain w ws where "split_on (CHR '':'') (tl s) = w # ws" "w \<noteq> ''a''" "w \<noteq> ''s''"
      using other(4-6) first_stream [of s "''a''"] first_stream [of s "''s''"] by (cases "split_on (CHR '':'') (tl s)") auto
    then show ?thesis using parts other(2,3) False by (auto simp: codec_target_def Let_def codec_lane_def)
  qed
qed

lemma filter_option_kind:
  assumes "filter_option (to_ascii_lowercase (trim arg)) lane"
  shows "\<exists>k. filter_job_kind arg = Some k \<and> lane_cost lane \<le> lane_cost k"
  using assms
proof cases
  case (audio base s)
  then show ?thesis by (auto simp: filter_job_kind_def Let_def names_stream_def starts_with_def)
next
  case (other base s)
  then show ?thesis by (cases s; cases "tl s") (auto simp: filter_job_kind_def Let_def stream_suffix_def starts_with_def)
qed (auto simp: filter_job_kind_def Let_def starts_with_def)

lemma classify_command_cost:
  assumes "\<And>g. scan_args (bounded_teletext_webvtt (spec_args command)) (spec_args command) scan_start = Some g \<Longrightarrow>
      lane_cost k \<le> lane_cost (sf_observed g)"
  shows "lane_cost k \<le> lane_cost (classify_transcode_command command)"
proof -
  have "lane_cost k \<le> lane_cost (classify_ffmpeg_args (spec_args command))"
    by (rule classify_args_cost) (use assms in \<open>auto intro: lane_cost.elims [of k]\<close>)
  then show ?thesis by (cases k) (auto simp: classify_transcode_command_def lane_cost_max split: option.split)
qed

text \<open>
  C24. The lane never understates the work: it is at least the lane the builder declares, an
  undeclared command is charged as a video encode, and it is at least the lane of every option that chooses an audio or
  video encoder, or one for streams it does not name, with a codec other than \<open>copy\<close> and \<open>none\<close>, and of every audio
  and video filter option, whatever else the command contains. Subtitle codecs are not among them.
\<close>

theorem classify_transcode_command_never_cheaper:
  "(case spec_workload command of
      None \<Rightarrow> classify_transcode_command command = VideoJob
    | Some w \<Rightarrow> lane_cost (job_of_workload w) \<le> lane_cost (classify_transcode_command command)) \<and>
   (\<forall>pre arg codec post lane.
      spec_args command = pre @ arg # codec # post \<and> encoder_option (to_ascii_lowercase (trim arg)) lane \<and>
      to_ascii_lowercase (trim codec) \<notin> {''copy'', ''none''} \<longrightarrow>
      lane_cost lane \<le> lane_cost (classify_transcode_command command)) \<and>
   (\<forall>arg \<in> set (spec_args command). \<forall>lane.
      filter_option (to_ascii_lowercase (trim arg)) lane \<longrightarrow> lane_cost lane \<le> lane_cost (classify_transcode_command command))"
proof (intro conjI allI ballI impI)
  show "case spec_workload command of
      None \<Rightarrow> classify_transcode_command command = VideoJob
    | Some w \<Rightarrow> lane_cost (job_of_workload w) \<le> lane_cost (classify_transcode_command command)"
    by (auto simp: classify_transcode_command_def lane_cost_max split: option.split)
next
  fix pre arg codec post lane
  assume a: "spec_args command = pre @ arg # codec # post \<and> encoder_option (to_ascii_lowercase (trim arg)) lane \<and>
      to_ascii_lowercase (trim codec) \<notin> {''copy'', ''none''}"
  then obtain target where "codec_target arg = Some target" "target \<noteq> SubtitleTarget" "codec_lane target = lane"
    using encoder_option_target by blast
  then show "lane_cost lane \<le> lane_cost (classify_transcode_command command)"
    using a scan_args_sees_codec [of _ pre arg codec post _ _ target]
    by (intro classify_command_cost) (simp add: codec_is_copy_or_disabled_def)
next
  fix arg lane
  assume "arg \<in> set (spec_args command)" and "filter_option (to_ascii_lowercase (trim arg)) lane"
  then obtain pre post k where args: "spec_args command = pre @ arg # post"
      and k: "filter_job_kind arg = Some k" "lane_cost lane \<le> lane_cost k"
    by (meson split_list filter_option_kind)
  have "lane_cost k \<le> lane_cost (classify_transcode_command command)"
    using args scan_args_sees_filter [of _ pre arg post _ _ k] k(1) by (intro classify_command_cost) simp
  with k(2) show "lane_cost lane \<le> lane_cost (classify_transcode_command command)" by (rule order_trans)
qed

lemmas arg_eval = codec_target_def filter_job_kind_def codec_is_copy_or_disabled_def
  mapped_stream_target_def starts_with_def eq_ignore_case_def to_ascii_lowercase_def trim_plain
  plain_char_def char_eval Let_def

theorem classify_transcode_command_never_cheaper_witness:
  "classify_transcode_command
     \<lparr> spec_program = ''ffmpeg'', spec_args = [''-i'', ''in'', ''-c:v'', ''libx264'', ''out''],
       spec_workload = Some Remux \<rparr> = VideoJob"
proof -
  let ?c = "\<lparr> spec_program = ''ffmpeg'', spec_args = [''-i'', ''in'', ''-c:v'', ''libx264'', ''out''],
       spec_workload = Some Remux \<rparr>"
  have "encoder_option (''-c'' @ '':v'') VideoJob"
    by (rule encoder_option.other) (simp_all add: stream_suffix_def names_stream_def)
  then have "encoder_option (to_ascii_lowercase (trim ''-c:v'')) VideoJob" by (simp add: arg_eval)
  moreover have "spec_args ?c = [''-i'', ''in''] @ ''-c:v'' # ''libx264'' # [''out'']"
      "to_ascii_lowercase (trim ''libx264'') \<notin> {''copy'', ''none''}" by (simp_all add: arg_eval)
  ultimately have "lane_cost VideoJob \<le> lane_cost (classify_transcode_command ?c)"
    using classify_transcode_command_never_cheaper [of ?c] by blast
  then show ?thesis by (simp add: lane_cost_video)
qed

section \<open>Scanning the builder's arguments\<close>

text \<open>An argument the scan passes over: no codec option, no filter, no map.\<close>

definition neutral :: "string \<Rightarrow> bool" where
  "neutral a \<longleftrightarrow> codec_target a = None \<and> filter_job_kind a = None \<and> \<not> eq_ignore_case a ''-map''"

lemma scan_args_neutral: "neutral a \<Longrightarrow> scan_args t (a # rest) f = scan_args t rest f"
  by (simp add: neutral_def note_filter_def Let_def)

lemma scan_args_neutrals: "list_all neutral xs \<Longrightarrow> scan_args t (xs @ rest) f = scan_args t rest f"
  by (induction xs) (simp_all add: scan_args_neutral del: scan_args.simps)

text \<open>Any argument that starts with a visible character other than a hyphen is neutral.\<close>

lemma neutral_plain:
  assumes "plain_char c" "c \<noteq> CHR ''-''"
  shows "neutral (c # s)"
proof -
  obtain q where q: "trim (c # s) = c # q" using trim_plain_hd [OF assms(1)] by blast
  have l: "ascii_lower c \<noteq> CHR ''-''"
    using assms(2) by (auto simp: ascii_lower_def is_upper_def char_of_eq_iff byte_def)
  define base where "base = hd (split_on (CHR '':'') (to_ascii_lowercase (c # q)))"
  have "base = [] \<or> hd base = ascii_lower c"
    by (cases "split_on (CHR '':'') (map ascii_lower q)") (simp_all add: base_def to_ascii_lowercase_def)
  with l have "base \<noteq> CHR ''-'' # w" for w by auto
  then have "codec_target (c # s) = None"
    unfolding codec_target_def Let_def q base_def [symmetric] by simp
  moreover have "filter_job_kind (c # s) = None"
    unfolding filter_job_kind_def Let_def q using l by (simp add: to_ascii_lowercase_def starts_with_def)
  moreover have "\<not> eq_ignore_case (c # s) ''-map''"
    using l by (simp add: eq_ignore_case_def to_ascii_lowercase_def) (simp add: char_eval)
  ultimately show ?thesis by (simp add: neutral_def)
qed

lemma neutral_show_nat [simp]: "neutral (show_nat n)"
proof -
  obtain c cs where s: "show_nat n = c # cs" and c: "is_digit c"
    using show_nat_hd_digit [of n] by (cases "show_nat n") auto
  have "c \<noteq> CHR ''-''" using c by (auto simp: is_digit_def byte_def)
  with s c show ?thesis by (simp add: neutral_plain digit_plain)
qed

lemma neutral_fmt_fixed [simp]: "neutral (fmt_fixed places x)"
proof -
  obtain n t where f: "fmt_fixed places x = show_nat n @ t" by (auto simp: fmt_fixed_def fixed_digits_def)
  obtain c cs where s: "show_nat n = c # cs" and c: "is_digit c"
    using show_nat_hd_digit [of n] by (cases "show_nat n") auto
  have "c \<noteq> CHR ''-''" using c by (auto simp: is_digit_def byte_def)
  with f s c show ?thesis by (simp add: neutral_plain digit_plain)
qed

lemma neutral_ticks [simp]: "neutral (format_ticks_as_seconds t)"
  by (simp add: format_ticks_as_seconds_def)

lemma neutral_flags:
  "list_all neutral [''-hide_banner'', ''-nostdin'', ''-y'', ''-loglevel'', ''-nostats'', ''-stats_period'',
     ''-ss'', ''-readrate'', ''-readrate_initial_burst'', ''-i'', ''-t'', ''-sn'']"
  "list_all neutral [''-output_ts_offset'', ''-muxdelay'', ''-muxpreload'', ''-f'', ''-hls_time'',
     ''-hls_playlist_type'', ''-hls_list_size'', ''-hls_delete_threshold'', ''-hls_flags'',
     ''-start_number'', ''-hls_segment_filename'', ''-progress'']"
  by (simp_all add: neutral_def arg_eval)

definition absolute_path :: "string \<Rightarrow> bool" where
  "absolute_path p \<longleftrightarrow> starts_with ''/'' p"

lemma absolute_path_neutral: "absolute_path p \<Longrightarrow> neutral p"
  by (cases p) (auto simp: absolute_path_def starts_with_def plain_char_def byte_def intro!: neutral_plain)

lemma neutral_words: "neutral ''warning''" "neutral ''hls''" "neutral ''event''" "neutral ''vod''"
  "neutral ''pipe:2''" "neutral ''copy''" "neutral ''2''" "neutral ''0''"
  by (rule neutral_plain; simp add: plain_char_def byte_def)+

text \<open>A request that only repackages: both streams copied, no subtitle, absolute paths.\<close>

definition copies_streams :: "hls_transcode_request \<Rightarrow> bool" where
  "copies_streams r \<longleftrightarrow> tr_include_video r \<and> tr_video_mode r = Copy \<and> tr_audio_mode r = Copy \<and>
     \<not> selects_subtitle r \<and> absolute_path (tr_input_path r) \<and>
     absolute_path (tr_segment_pattern_path r) \<and> absolute_path (tr_output_playlist_path r)"

lemma copies_streams_modes:
  assumes "copies_streams r"
  shows "\<not> should_burn_subtitle r" "effective_video_mode r = Copy" "\<not> encodes_video r"
    "\<not> decodes_teletext_page r" "\<not> selects_subtitle r"
  using assms by (simp_all add: copies_streams_def should_burn_subtitle_def effective_video_mode_def
      encodes_video_def decodes_teletext_page_def)

lemma hls_flags_neutral: "hls_flags r \<noteq> [] \<Longrightarrow> neutral (join_with ''+'' (hls_flags r))"
  by (auto simp: hls_flags_def plain_char_def byte_def intro!: neutral_plain)

lemma copy_groups_neutral:
  assumes "copies_streams r"
  shows "list_all neutral (hls_global_args r)" "list_all neutral (hls_pre_input_args r)"
    "list_all neutral (hls_input_args r)" "list_all neutral (hls_timing_args r)"
    "list_all neutral (hls_playlist_args r)" "list_all neutral (hls_output_args r)"
  using neutral_flags neutral_words copies_streams_modes [OF assms] assms hls_flags_neutral [of r]
  by (auto simp: hls_global_args_def hls_pre_input_args_def hls_input_args_def hls_timing_args_def
      hls_playlist_args_def hls_output_args_def copies_streams_def absolute_path_neutral
      split: option.splits)

definition explicit_index :: "int option \<Rightarrow> bool" where
  "explicit_index i = is_some_and (\<lambda>n. 0 \<le> n) i"

lemma split_on_no_colon: "c \<notin> set w \<Longrightarrow> split_on c w = [w]"
  by (induction w) auto

lemma selected_stream_map_target:
  assumes "(t, k) \<in> {(''v'', VideoTarget), (''a'', AudioTarget)}"
  shows "\<exists>m. selected_stream_map t i True = [''-map'', m] \<and> neutral m \<and>
    mapped_stream_target m = Some (if explicit_index i then UnknownTarget else k)"
proof (cases "explicit_index i")
  case True
  then obtain n where i: "i = Some n" "0 \<le> n" by (auto simp: explicit_index_def is_some_and_def split: option.splits)
  then have sn: "show_int n = show_nat (nat n)" by (simp add: show_int_def)
  then have d: "list_all is_digit (show_int n)" by (simp add: show_nat_digits)
  have s: "show_int n \<noteq> []" by (simp add: sn)
  have m: "selected_stream_map t i True = [''-map'', ''0:'' @ show_int n @ ''?'']"
    using i by (simp add: selected_stream_map_def)
  have q: "CHR ''?'' \<notin> set (show_int n)" "CHR '':'' \<notin> set (show_int n)" "is_digit (last (show_int n))"
    using d s by (auto simp: list_all_iff is_digit_def byte_def)
  have tr: "trim (''0:'' @ show_int n @ ''?'') = ''0:'' @ show_int n @ ''?''"
    by (rule trim_plain) (simp add: plain_char_def byte_def)
  have te: "trim_end_char (CHR ''?'') (''0:'' @ show_int n @ ''?'') = ''0:'' @ show_int n"
  proof -
    have "rev (show_int n) \<noteq> []" "hd (rev (show_int n)) \<noteq> CHR ''?''"
      using s q(3) by (auto simp: hd_rev is_digit_def byte_def)
    then show ?thesis by (cases "rev (show_int n)") (auto simp: trim_end_char_def)
  qed
  have sp: "split_on (CHR '':'') (''0:'' @ show_int n) = [''0'', show_int n]"
    using q(2) by (simp add: split_on_no_colon)
  have "show_int n \<notin> {''v'', ''a'', ''s''}" using d by (auto simp: is_digit_def byte_def)
  then have "mapped_stream_target (''0:'' @ show_int n @ ''?'') = Some UnknownTarget"
    unfolding mapped_stream_target_def tr te sp Let_def by (simp add: starts_with_def)
  moreover have "neutral (''0:'' @ show_int n @ ''?'')"
    by (simp add: neutral_plain plain_char_def byte_def)
  ultimately show ?thesis using m True by simp
next
  case False
  then have "selected_stream_map t i True = [''-map'', ''0:'' @ t @ '':0?'']"
    by (cases i) (auto simp: selected_stream_map_def explicit_index_def Let_def)
  moreover have "neutral (''0:'' @ t @ '':0?'')" by (simp add: neutral_plain plain_char_def byte_def)
  moreover have "mapped_stream_target (''0:'' @ t @ '':0?'') = Some k"
    using assms by (auto simp: arg_eval trim_end_char_def)
  ultimately show ?thesis using False by simp
qed

lemma any_pair_mem: "any_pair P xs \<Longrightarrow> \<exists>a b. a \<in> set xs \<and> P a b"
  by (induction P xs rule: any_pair.induct) auto

lemma copy_args_no_teletext:
  assumes "copies_streams r"
  shows "\<not> bounded_teletext_webvtt (spec_args (build_hls_ffmpeg_command r))"
proof -
  note modes = copies_streams_modes [OF assms]
  have num: "show_nat n \<noteq> ''-txt_page''" "format_ticks_as_seconds t \<noteq> ''-txt_page''"
    "fmt_fixed 2 x \<noteq> ''-txt_page''" for n t x
    by (simp_all add: format_ticks_as_seconds_def)
  have path: "tr_input_path r \<noteq> ''-txt_page''" "tr_segment_pattern_path r \<noteq> ''-txt_page''"
    "tr_output_playlist_path r \<noteq> ''-txt_page''"
    using assms by (auto simp: copies_streams_def absolute_path_def starts_with_def)
  have audio: "tr_audio_mode r = Copy" using assms by (simp add: copies_streams_def)
  have flags: "hls_flags r \<noteq> [] \<Longrightarrow> join_with ''+'' (hls_flags r) \<noteq> ''-txt_page''"
    by (auto simp: hls_flags_def)
  have "''-txt_page'' \<notin> set (concat (hls_arg_groups r))"
    using num path flags modes audio
    by (auto simp: hls_arg_groups_def hls_global_args_def hls_pre_input_args_def hls_input_args_def
        hls_timing_args_def hls_playlist_args_def hls_output_args_def hls_map_args_def hls_video_args_def
        hls_audio_args_def selected_stream_map_def Let_def copies_streams_def eq_commute [of "''-txt_page''"]
        split: option.splits hls_stream_mode.splits)
  then show ?thesis
    by (auto simp: bounded_teletext_webvtt_def build_hls_ffmpeg_command_def with_workload_def spec_new_def
        dest!: any_pair_mem)
qed

lemma codec_words: "codec_target ''-c:v'' = Some VideoTarget" "codec_target ''-c:a'' = Some AudioTarget"
  "codec_is_copy_or_disabled ''copy''" "filter_job_kind ''-c:v'' = None" "filter_job_kind ''-c:a'' = None"
  "codec_target ''-map'' = None" "filter_job_kind ''-map'' = None" "neutral ''-sn''"
  by (simp_all add: neutral_def arg_eval)

lemma scan_copy_args:
  assumes "copies_streams r"
  defines "v \<equiv> explicit_index (sel_video_stream_index (tr_selection r))"
    and "a \<equiv> explicit_index (sel_audio_stream_index (tr_selection r))"
  shows "scan_args False (spec_args (build_hls_ffmpeg_command r)) scan_start =
    Some (scan_start\<lparr> sf_saw_codec := True, sf_video_copy := True, sf_audio_copy := True,
      sf_mapped_video := \<not> v, sf_mapped_audio := \<not> a, sf_mapped_unknown := v \<or> a \<rparr>)"
proof -
  note modes = copies_streams_modes [OF assms(1)]
  note groups = copy_groups_neutral [OF assms(1)]
  have r: "tr_include_video r" "tr_audio_mode r = Copy"
    using assms(1) by (simp_all add: copies_streams_def)
  obtain mv where mv: "selected_stream_map ''v'' (sel_video_stream_index (tr_selection r)) True = [''-map'', mv]"
    "neutral mv" "mapped_stream_target mv = Some (if v then UnknownTarget else VideoTarget)"
    using selected_stream_map_target [of "''v''" VideoTarget] unfolding v_def by blast
  obtain ma where ma: "selected_stream_map ''a'' (sel_audio_stream_index (tr_selection r)) True = [''-map'', ma]"
    "neutral ma" "mapped_stream_target ma = Some (if a then UnknownTarget else AudioTarget)"
    using selected_stream_map_target [of "''a''" AudioTarget] unfolding a_def by blast
  have maps: "hls_map_args r = [''-map'', mv, ''-map'', ma, ''-sn'']"
    using r modes mv ma by (simp add: hls_map_args_def Let_def)
  have codecs: "hls_video_args r = [''-c:v'', ''copy'']" "hls_audio_args r = [''-c:a'', ''copy'']"
    using r modes by (simp_all add: hls_video_args_def hls_audio_args_def)
  have args: "spec_args (build_hls_ffmpeg_command r) =
      (hls_global_args r @ hls_pre_input_args r @ hls_input_args r) @
      ''-map'' # mv # ''-map'' # ma # ''-sn'' # ''-c:v'' # ''copy'' # ''-c:a'' # ''copy'' #
      (hls_timing_args r @ hls_playlist_args r @ hls_output_args r)"
    by (simp add: build_hls_ffmpeg_command_def with_workload_def spec_new_def hls_arg_groups_def maps codecs)
  have tail: "scan_args False (hls_timing_args r @ hls_playlist_args r @ hls_output_args r) f = Some f" for f
    using groups scan_args_neutrals [of "hls_timing_args r @ hls_playlist_args r @ hls_output_args r" False "[]"]
    by simp
  have map_step: "scan_args False (''-map'' # m # rest) f = scan_args False (m # rest) (note_map (Some m) f)"
    for m rest f
    by (subst scan_args.simps) (simp add: codec_words note_filter_def del: scan_args.simps)
  have codec_step: "scan_args False (c # ''copy'' # rest) f =
      scan_args False (''copy'' # rest) (note_codec False c k ''copy'' (f\<lparr> sf_saw_codec := True \<rparr>))"
    if "codec_target c = Some k" "filter_job_kind c = None" for c k rest f
    using that by (subst scan_args.simps) (simp add: note_filter_def del: scan_args.simps)
  have head: "list_all neutral (hls_global_args r @ hls_pre_input_args r @ hls_input_args r)"
    using groups by simp
  show ?thesis
    unfolding args scan_args_neutrals [OF head] map_step scan_args_neutral [OF mv(2)]
      scan_args_neutral [OF ma(2)] scan_args_neutral [OF codec_words(8)]
      codec_step [OF codec_words(1,4)] codec_step [OF codec_words(2,5)]
      scan_args_neutral [OF neutral_words(6)] tail
    by (cases v; cases a)
      (simp_all add: note_map_def mv(3) ma(3) note_codec_def codec_words(3) scan_start_def)
qed

text \<open>
  A command that only repackages (both streams copied, no subtitle) is declared as a remux by
  the builder, but the classifier gives it the remux lane only when neither stream is chosen by its
  index: with an explicit index the map is unknown to it and the command is charged, and in the
  remux-only mode refused, as a video encode.
\<close>

theorem copy_command_lane:
  assumes "copies_streams r"
  shows "spec_workload (build_hls_ffmpeg_command r) = Some Remux \<and>
    classify_transcode_command (build_hls_ffmpeg_command r) =
      (if explicit_index (sel_video_stream_index (tr_selection r)) \<or>
          explicit_index (sel_audio_stream_index (tr_selection r))
       then VideoJob else RemuxJob)"
proof -
  have w: "spec_workload (build_hls_ffmpeg_command r) = Some Remux"
    using copies_streams_modes [OF assms] assms
    by (simp add: build_hls_ffmpeg_command_def with_workload_def hls_workload_def copies_streams_def)
  show ?thesis
    using w scan_copy_args [OF assms] copy_args_no_teletext [OF assms]
    by (simp add: classify_transcode_command_def classify_ffmpeg_args_def Let_def lane_of_flags_def
        scan_start_def max_job_kind_def)
qed

definition sample_copy_request :: "int option \<Rightarrow> hls_transcode_request" where
  "sample_copy_request i = (new_with_encoding_config ''/m/a.mkv'' ''/t/main.m3u8'' ''/t/s.ts''
     \<lparr> sel_video_stream_index = i, sel_audio_stream_index = None, sel_subtitle_stream_index = None \<rparr>
     default_encoding_config)\<lparr> tr_video_mode := Copy, tr_audio_mode := Copy \<rparr>"

theorem copy_command_lane_witness:
  "classify_transcode_command (build_hls_ffmpeg_command (sample_copy_request (Some 0))) = VideoJob \<and>
   classify_transcode_command (build_hls_ffmpeg_command (sample_copy_request None)) = RemuxJob"
proof -
  have "copies_streams (sample_copy_request i)" for i
    by (simp add: copies_streams_def sample_copy_request_def new_with_encoding_config_def
        selects_subtitle_def absolute_path_def starts_with_def)
  note this [THEN copy_command_lane]
  from this [of "Some 0"] this [of None] show ?thesis
    by (simp add: sample_copy_request_def new_with_encoding_config_def explicit_index_def)
qed

end
