(* ===== verification/Job_Admission.thy ===== *)
theory Job_Admission
  imports Command_Classifier
begin

text \<open>
  Admission of FFmpeg processes. \<open>crates/jellyrin-transcode/src/lib.rs\<close>: the lane limits and their
  parsing (lines 576--640, 903--975), the coordinator and its permits (665--682, 759--835), the probe
  queue (859--901). \<open>crates/jellyrin-api/src/lib.rs\<close>: the bounded wait queue and its metrics
  (558--747), the FFmpeg mode and plan (40092--40193) and the job policy (913--946).

  The semaphores are those of the \<open>tokio\<close> package: the operations the code calls are the fields of
  \<open>sem_ops\<close>, an argument of every definition, and \<open>sem_contract\<close> states their documented counting
  behaviour (nothing in the source closes one). Waiting is a step relation: \<open>adm_step\<close> interleaves
  the arrivals, grants, timeouts, cancellations and exits of any number of jobs.
\<close>

section \<open>Limits\<close>

record transcode_limits =
  lim_max_total_jobs :: nat
  lim_max_video_encodes :: nat
  lim_max_audio_encodes :: nat
  lim_max_remuxes :: nat
  lim_max_auxiliary :: nat
  lim_max_probes :: nat

definition default_limits :: transcode_limits where
  "default_limits = \<lparr> lim_max_total_jobs = 2, lim_max_video_encodes = 1, lim_max_audio_encodes = 2,
     lim_max_remuxes = 3, lim_max_auxiliary = 1, lim_max_probes = 1 \<rparr>"

record multimedia_config =
  mc_limits :: transcode_limits
  mc_max_queued_probes :: nat
  mc_probe_queue_timeout :: nat
  mc_ffmpeg_nice :: "int option"

definition default_multimedia_config :: multimedia_config where
  "default_multimedia_config = \<lparr> mc_limits = default_limits, mc_max_queued_probes = 8,
     mc_probe_queue_timeout = 10, mc_ffmpeg_nice = Some 10 \<rparr>"

definition ffmpeg_nice_from_value :: "string option \<Rightarrow> int option" where
  "ffmpeg_nice_from_value value =
     (case map_option trim value of
        Some v \<Rightarrow>
          if eq_ignore_case v ''off'' then None
          else opt_or (opt_filter (\<lambda>n. 0 \<le> n \<and> n \<le> 19) (parse_i32 v)) (Some 10)
      | None \<Rightarrow> Some 10)"

definition bounded_usize_from_value :: "string option \<Rightarrow> nat \<Rightarrow> nat \<Rightarrow> nat \<Rightarrow> nat" where
  "bounded_usize_from_value value lo hi dflt =
     unwrap_or dflt (opt_filter (\<lambda>n. lo \<le> n \<and> n \<le> hi)
       (Option.bind (map_option trim value) parse_usize))"

definition bounded_u64_from_value :: "string option \<Rightarrow> nat \<Rightarrow> nat \<Rightarrow> nat \<Rightarrow> nat" where
  "bounded_u64_from_value value lo hi dflt =
     unwrap_or dflt (opt_filter (\<lambda>n. lo \<le> n \<and> n \<le> hi)
       (Option.bind (map_option trim value) parse_u64))"

definition process_limit_from_value :: "string option \<Rightarrow> nat \<Rightarrow> nat" where
  "process_limit_from_value value dflt = bounded_usize_from_value value 1 64 dflt"

definition multimedia_process_config_from_env :: "(string \<Rightarrow> string option) \<Rightarrow> multimedia_config" where
  "multimedia_process_config_from_env env =
     \<lparr> mc_limits =
         \<lparr> lim_max_total_jobs = process_limit_from_value (env ''JELLYRIN_MAX_FFMPEG_JOBS'')
             (lim_max_total_jobs default_limits),
           lim_max_video_encodes = process_limit_from_value (env ''JELLYRIN_MAX_VIDEO_TRANSCODES'')
             (lim_max_video_encodes default_limits),
           lim_max_audio_encodes = process_limit_from_value (env ''JELLYRIN_MAX_AUDIO_TRANSCODES'')
             (lim_max_audio_encodes default_limits),
           lim_max_remuxes = process_limit_from_value (env ''JELLYRIN_MAX_REMUXES'')
             (lim_max_remuxes default_limits),
           lim_max_auxiliary = process_limit_from_value (env ''JELLYRIN_MAX_AUXILIARY_FFMPEG_JOBS'')
             (lim_max_auxiliary default_limits),
           lim_max_probes = process_limit_from_value (env ''JELLYRIN_MAX_PROBE_JOBS'')
             (lim_max_probes default_limits) \<rparr>,
       mc_max_queued_probes = bounded_usize_from_value (env ''JELLYRIN_MAX_QUEUED_PROBES'') 0 128 8,
       mc_probe_queue_timeout =
         bounded_u64_from_value (env ''JELLYRIN_PROBE_QUEUE_TIMEOUT_SECONDS'') 1 120 10,
       mc_ffmpeg_nice = ffmpeg_nice_from_value (env ''JELLYRIN_FFMPEG_NICE'') \<rparr>"

definition max_queued_ffmpeg_jobs_from_value :: "string option \<Rightarrow> nat" where
  "max_queued_ffmpeg_jobs_from_value value =
     unwrap_or 8 (opt_filter (\<lambda>n. n \<le> 256) (Option.bind (map_option trim value) parse_usize))"

definition transcode_queue_timeout :: "string option \<Rightarrow> nat" where
  "transcode_queue_timeout value =
     unwrap_or 15 (opt_filter (\<lambda>n. 1 \<le> n \<and> n \<le> 300) (Option.bind value parse_u64))"

section \<open>Semaphores and the coordinator\<close>

datatype sem_error = Sem_Closed | Sem_No_Permits

record 's sem_ops =
  sem_new :: "nat \<Rightarrow> 's"
  sem_try :: "'s \<Rightarrow> sem_error + 's"
  sem_release :: "'s \<Rightarrow> 's"
  sem_available :: "'s \<Rightarrow> nat"

definition sem_contract :: "'s sem_ops \<Rightarrow> bool" where
  "sem_contract ops \<longleftrightarrow>
     (\<forall>n. sem_available ops (sem_new ops n) = n) \<and>
     (\<forall>s. sem_available ops s = 0 \<longrightarrow> sem_try ops s = Inl Sem_No_Permits) \<and>
     (\<forall>s n. sem_available ops s = Suc n \<longrightarrow>
        (\<exists>t. sem_try ops s = Inr t \<and> sem_available ops t = n)) \<and>
     (\<forall>s. sem_available ops (sem_release ops s) = Suc (sem_available ops s))"

record 's coordinator =
  co_total :: 's
  co_video :: 's
  co_audio :: 's
  co_remux :: 's
  co_auxiliary :: 's
  co_probe :: 's

definition coordinator_new :: "'s sem_ops \<Rightarrow> transcode_limits \<Rightarrow> 's coordinator" where
  "coordinator_new ops l =
     \<lparr> co_total = sem_new ops (max (lim_max_total_jobs l) 1),
       co_video = sem_new ops (max (lim_max_video_encodes l) 1),
       co_audio = sem_new ops (max (lim_max_audio_encodes l) 1),
       co_remux = sem_new ops (max (lim_max_remuxes l) 1),
       co_auxiliary = sem_new ops (max (lim_max_auxiliary l) 1),
       co_probe = sem_new ops (max (lim_max_probes l) 1) \<rparr>"

fun co_lane :: "job_kind \<Rightarrow> 's coordinator \<Rightarrow> 's" where
  "co_lane VideoJob c = co_video c"
| "co_lane AudioJob c = co_audio c"
| "co_lane RemuxJob c = co_remux c"
| "co_lane AuxiliaryJob c = co_auxiliary c"
| "co_lane ProbeJob c = co_probe c"

fun set_lane :: "job_kind \<Rightarrow> 's \<Rightarrow> 's coordinator \<Rightarrow> 's coordinator" where
  "set_lane VideoJob s c = c\<lparr> co_video := s \<rparr>"
| "set_lane AudioJob s c = c\<lparr> co_audio := s \<rparr>"
| "set_lane RemuxJob s c = c\<lparr> co_remux := s \<rparr>"
| "set_lane AuxiliaryJob s c = c\<lparr> co_auxiliary := s \<rparr>"
| "set_lane ProbeJob s c = c\<lparr> co_probe := s \<rparr>"

text \<open>
  \<open>try_acquire\<close> takes the lane permit and then the aggregate one; when the second fails the first is
  dropped, which gives it back. A permit is known by its kind; dropping it gives back both.
\<close>

definition coord_try_acquire ::
  "'s sem_ops \<Rightarrow> job_kind \<Rightarrow> 's coordinator \<Rightarrow> 's coordinator \<times> (sem_error + job_kind)" where
  "coord_try_acquire ops kind c =
     (case sem_try ops (co_lane kind c) of
        Inl e \<Rightarrow> (c, Inl e)
      | Inr lane \<Rightarrow>
          (case sem_try ops (co_total c) of
             Inl e \<Rightarrow> (set_lane kind (sem_release ops lane) c, Inl e)
           | Inr agg \<Rightarrow> (set_lane kind lane (c\<lparr> co_total := agg \<rparr>), Inr kind)))"

definition permit_drop :: "'s sem_ops \<Rightarrow> job_kind \<Rightarrow> 's coordinator \<Rightarrow> 's coordinator" where
  "permit_drop ops kind c =
     set_lane kind (sem_release ops (co_lane kind c)) (c\<lparr> co_total := sem_release ops (co_total c) \<rparr>)"

definition lane_drop :: "'s sem_ops \<Rightarrow> job_kind \<Rightarrow> 's coordinator \<Rightarrow> 's coordinator" where
  "lane_drop ops kind c = set_lane kind (sem_release ops (co_lane kind c)) c"

text \<open>The two waits of \<open>acquire\<close>, as far as they succeed at once.\<close>

definition acquire_lane :: "'s sem_ops \<Rightarrow> job_kind \<Rightarrow> 's coordinator \<Rightarrow> 's coordinator option" where
  "acquire_lane ops kind c =
     (case sem_try ops (co_lane kind c) of Inl _ \<Rightarrow> None | Inr s \<Rightarrow> Some (set_lane kind s c))"

definition acquire_total :: "'s sem_ops \<Rightarrow> 's coordinator \<Rightarrow> 's coordinator option" where
  "acquire_total ops c =
     (case sem_try ops (co_total c) of Inl _ \<Rightarrow> None | Inr s \<Rightarrow> Some (c\<lparr> co_total := s \<rparr>))"

definition available_permits :: "'s sem_ops \<Rightarrow> job_kind \<Rightarrow> 's coordinator \<Rightarrow> nat" where
  "available_permits ops kind c = sem_available ops (co_lane kind c)"

definition available_total_permits :: "'s sem_ops \<Rightarrow> 's coordinator \<Rightarrow> nat" where
  "available_total_permits ops c = sem_available ops (co_total c)"

section \<open>Probe admission\<close>

datatype probe_error = Coordinator_Closed | Wait_Queue_Closed | Wait_Queue_Full | Timed_Out

datatype wait_outcome = Wait_Granted | Wait_Closed | Wait_Elapsed

datatype 'e arrival = Admitted | Refused 'e | Queued

definition probe_arrive ::
  "'s sem_ops \<Rightarrow> 's coordinator \<Rightarrow> 's \<Rightarrow> 's coordinator \<times> 's \<times> probe_error arrival" where
  "probe_arrive ops c wq =
     (case coord_try_acquire ops ProbeJob c of
        (c, Inr _) \<Rightarrow> (c, wq, Admitted)
      | (c, Inl Sem_Closed) \<Rightarrow> (c, wq, Refused Coordinator_Closed)
      | (c, Inl Sem_No_Permits) \<Rightarrow>
          (case sem_try ops wq of
             Inr wq \<Rightarrow> (c, wq, Queued)
           | Inl Sem_Closed \<Rightarrow> (c, wq, Refused Wait_Queue_Closed)
           | Inl Sem_No_Permits \<Rightarrow> (c, wq, Refused Wait_Queue_Full)))"

fun probe_wait_result :: "wait_outcome \<Rightarrow> probe_error + job_kind" where
  "probe_wait_result Wait_Granted = Inr ProbeJob"
| "probe_wait_result Wait_Closed = Inl Coordinator_Closed"
| "probe_wait_result Wait_Elapsed = Inl Timed_Out"

section \<open>Admission metrics\<close>

record admission_metrics =
  am_admitted_immediate :: nat
  am_admitted_queued :: nat
  am_rejected :: nat
  am_timed_out :: nat
  am_wait_buckets :: "nat list"

definition metrics_new :: admission_metrics where
  "metrics_new = \<lparr> am_admitted_immediate = 0, am_admitted_queued = 0, am_rejected = 0,
     am_timed_out = 0, am_wait_buckets = replicate 5 0 \<rparr>"

text \<open>An atomic 64-bit counter wraps around.\<close>

definition bump :: "nat \<Rightarrow> nat" where
  "bump n = (n + 1) mod 2 ^ 64"

definition wait_bucket :: "nat \<Rightarrow> nat" where
  "wait_bucket millis =
     (let ms = min millis u64_max
      in if ms \<le> 1 then 0 else if ms \<le> 10 then 1 else if ms \<le> 100 then 2 else if ms \<le> 1000 then 3 else 4)"

definition record_immediate :: "admission_metrics \<Rightarrow> admission_metrics" where
  "record_immediate m = m\<lparr> am_admitted_immediate := bump (am_admitted_immediate m) \<rparr>"

definition record_rejected :: "admission_metrics \<Rightarrow> admission_metrics" where
  "record_rejected m = m\<lparr> am_rejected := bump (am_rejected m) \<rparr>"

definition record_wait :: "nat \<Rightarrow> admission_metrics \<Rightarrow> admission_metrics" where
  "record_wait millis m =
     (let i = wait_bucket millis
      in m\<lparr> am_wait_buckets := (am_wait_buckets m)[i := bump (am_wait_buckets m ! i)] \<rparr>)"

definition record_queued :: "nat \<Rightarrow> admission_metrics \<Rightarrow> admission_metrics" where
  "record_queued millis m =
     record_wait millis (m\<lparr> am_admitted_queued := bump (am_admitted_queued m) \<rparr>)"

definition record_timeout :: "nat \<Rightarrow> admission_metrics \<Rightarrow> admission_metrics" where
  "record_timeout millis m = record_wait millis (m\<lparr> am_timed_out := bump (am_timed_out m) \<rparr>)"

section \<open>The bounded wait queue\<close>

fun show_job_kind :: "job_kind \<Rightarrow> string" where
  "show_job_kind VideoJob = ''VideoEncode''"
| "show_job_kind AudioJob = ''AudioEncode''"
| "show_job_kind RemuxJob = ''Remux''"
| "show_job_kind AuxiliaryJob = ''Auxiliary''"
| "show_job_kind ProbeJob = ''Probe''"

text \<open>
  The part of \<open>acquire_ffmpeg_capacity_with_queue\<close> before it waits: the fast path, the queue slot, and
  the second attempt when the queue is full.
\<close>

definition ffmpeg_arrive ::
  "'s sem_ops \<Rightarrow> nat \<Rightarrow> job_kind \<Rightarrow> 's coordinator \<Rightarrow> 's \<Rightarrow> admission_metrics \<Rightarrow>
   's coordinator \<times> 's \<times> admission_metrics \<times> string arrival" where
  "ffmpeg_arrive ops queue_limit kind c wq m =
     (case coord_try_acquire ops kind c of
        (c, Inr _) \<Rightarrow> (c, wq, record_immediate m, Admitted)
      | (c, Inl Sem_Closed) \<Rightarrow> (c, wq, record_rejected m, Refused ''FFmpeg coordinator closed'')
      | (c, Inl Sem_No_Permits) \<Rightarrow>
          (case sem_try ops wq of
             Inr wq \<Rightarrow> (c, wq, m, Queued)
           | Inl Sem_Closed \<Rightarrow> (c, wq, record_rejected m, Refused ''FFmpeg wait queue closed'')
           | Inl Sem_No_Permits \<Rightarrow>
               (case coord_try_acquire ops kind c of
                  (c, Inr _) \<Rightarrow> (c, wq, record_immediate m, Admitted)
                | (c, Inl Sem_Closed) \<Rightarrow>
                    (c, wq, record_rejected m, Refused ''FFmpeg coordinator closed'')
                | (c, Inl Sem_No_Permits) \<Rightarrow>
                    (c, wq, record_rejected m,
                     Refused (''FFmpeg wait queue is full (limit '' @ show_nat queue_limit @ '')'')))))"

definition ffmpeg_wait_result ::
  "job_kind \<Rightarrow> nat \<Rightarrow> string \<Rightarrow> wait_outcome \<Rightarrow> admission_metrics \<Rightarrow>
   admission_metrics \<times> (string + job_kind)" where
  "ffmpeg_wait_result kind millis close_error outcome m =
     (case outcome of
        Wait_Granted \<Rightarrow> (record_queued millis m, Inr kind)
      | Wait_Closed \<Rightarrow> (record_rejected m, Inl (''FFmpeg coordinator closed: '' @ close_error))
      | Wait_Elapsed \<Rightarrow>
          (record_timeout millis m,
           Inl (''timed out waiting for '' @ show_job_kind kind @ '' capacity'')))"

text \<open>The jobs in the system: waiting for the lane, waiting for the total while holding the lane, running.\<close>

datatype task = Waiting_Lane job_kind | Waiting_Total job_kind | Running job_kind

record 's admission =
  adm_coord :: "'s coordinator"
  adm_queue :: 's
  adm_metrics :: admission_metrics
  adm_tasks :: "task list"

definition admission_new :: "'s sem_ops \<Rightarrow> transcode_limits \<Rightarrow> nat \<Rightarrow> 's admission" where
  "admission_new ops l queue_limit = \<lparr> adm_coord = coordinator_new ops l,
     adm_queue = sem_new ops queue_limit, adm_metrics = metrics_new, adm_tasks = [] \<rparr>"

definition arrival_tasks :: "'e arrival \<Rightarrow> job_kind \<Rightarrow> task list" where
  "arrival_tasks a kind =
     (case a of Admitted \<Rightarrow> [Running kind] | Queued \<Rightarrow> [Waiting_Lane kind] | Refused _ \<Rightarrow> [])"

inductive adm_step :: "'s sem_ops \<Rightarrow> nat \<Rightarrow> 's admission \<Rightarrow> 's admission \<Rightarrow> bool" for ops queue_limit where
  arrive: "ffmpeg_arrive ops queue_limit kind (adm_coord y) (adm_queue y) (adm_metrics y) = (c, wq, m, a) \<Longrightarrow>
    adm_step ops queue_limit y (y\<lparr> adm_coord := c, adm_queue := wq, adm_metrics := m,
      adm_tasks := arrival_tasks a kind @ adm_tasks y \<rparr>)"
| lane: "adm_tasks y = pre @ Waiting_Lane kind # post \<Longrightarrow> acquire_lane ops kind (adm_coord y) = Some c \<Longrightarrow>
    adm_step ops queue_limit y (y\<lparr> adm_coord := c, adm_tasks := pre @ Waiting_Total kind # post \<rparr>)"
| aggregate: "adm_tasks y = pre @ Waiting_Total kind # post \<Longrightarrow> acquire_total ops (adm_coord y) = Some c \<Longrightarrow>
    adm_step ops queue_limit y (y\<lparr> adm_coord := c, adm_queue := sem_release ops (adm_queue y),
      adm_metrics := fst (ffmpeg_wait_result kind ms e Wait_Granted (adm_metrics y)),
      adm_tasks := pre @ Running kind # post \<rparr>)"
| timeout_lane: "adm_tasks y = pre @ Waiting_Lane kind # post \<Longrightarrow>
    adm_step ops queue_limit y (y\<lparr> adm_queue := sem_release ops (adm_queue y),
      adm_metrics := fst (ffmpeg_wait_result kind ms e Wait_Elapsed (adm_metrics y)),
      adm_tasks := pre @ post \<rparr>)"
| timeout_total: "adm_tasks y = pre @ Waiting_Total kind # post \<Longrightarrow>
    adm_step ops queue_limit y (y\<lparr> adm_coord := lane_drop ops kind (adm_coord y),
      adm_queue := sem_release ops (adm_queue y),
      adm_metrics := fst (ffmpeg_wait_result kind ms e Wait_Elapsed (adm_metrics y)),
      adm_tasks := pre @ post \<rparr>)"
| cancel_lane: "adm_tasks y = pre @ Waiting_Lane kind # post \<Longrightarrow>
    adm_step ops queue_limit y (y\<lparr> adm_queue := sem_release ops (adm_queue y), adm_tasks := pre @ post \<rparr>)"
| cancel_total: "adm_tasks y = pre @ Waiting_Total kind # post \<Longrightarrow>
    adm_step ops queue_limit y (y\<lparr> adm_coord := lane_drop ops kind (adm_coord y),
      adm_queue := sem_release ops (adm_queue y), adm_tasks := pre @ post \<rparr>)"
| finish: "adm_tasks y = pre @ Running kind # post \<Longrightarrow>
    adm_step ops queue_limit y (y\<lparr> adm_coord := permit_drop ops kind (adm_coord y), adm_tasks := pre @ post \<rparr>)"

inductive adm_reachable :: "'s sem_ops \<Rightarrow> transcode_limits \<Rightarrow> nat \<Rightarrow> 's admission \<Rightarrow> bool" for ops l queue_limit where
  start: "adm_reachable ops l queue_limit (admission_new ops l queue_limit)"
| step: "adm_reachable ops l queue_limit y \<Longrightarrow> adm_step ops queue_limit y z \<Longrightarrow>
    adm_reachable ops l queue_limit z"

inductive_cases adm_stepE: "adm_step ops queue_limit y z"

section \<open>The mode and the plan\<close>

datatype ffmpeg_mode = Enabled | RemuxOnly | Disabled

text \<open>The error carries the rejected value; its text is not modelled.\<close>

definition parse_ffmpeg_mode :: "string option \<Rightarrow> string + ffmpeg_mode" where
  "parse_ffmpeg_mode value =
     (case map_option (\<lambda>v. to_ascii_lowercase (trim v)) value of
        None \<Rightarrow> Inr RemuxOnly
      | Some v \<Rightarrow>
          if v = ''remux-only'' then Inr RemuxOnly
          else if v = ''enabled'' then Inr Enabled
          else if v = ''disabled'' then Inr Disabled
          else Inl v)"

definition configured_ffmpeg_mode :: "string option \<Rightarrow> ffmpeg_mode" where
  "configured_ffmpeg_mode value = (case parse_ffmpeg_mode value of Inl _ \<Rightarrow> Disabled | Inr m \<Rightarrow> m)"

fun ffmpeg_mode_name :: "ffmpeg_mode \<Rightarrow> string" where
  "ffmpeg_mode_name Enabled = ''enabled''"
| "ffmpeg_mode_name RemuxOnly = ''remux-only''"
| "ffmpeg_mode_name Disabled = ''disabled''"

fun transcode_job_kind_name :: "job_kind \<Rightarrow> string" where
  "transcode_job_kind_name VideoJob = ''video-encode''"
| "transcode_job_kind_name AudioJob = ''audio-encode''"
| "transcode_job_kind_name RemuxJob = ''remux''"
| "transcode_job_kind_name AuxiliaryJob = ''auxiliary''"
| "transcode_job_kind_name ProbeJob = ''probe''"

definition ffmpeg_job_allowed_for_mode :: "ffmpeg_mode \<Rightarrow> job_kind \<Rightarrow> string + unit" where
  "ffmpeg_job_allowed_for_mode mode kind =
     (case mode of
        Enabled \<Rightarrow> Inr ()
      | RemuxOnly \<Rightarrow>
          if kind = RemuxJob then Inr ()
          else Inl (show_job_kind kind @ '' is blocked by JELLYRIN_FFMPEG_MODE=remux-only'')
      | Disabled \<Rightarrow> Inl (show_job_kind kind @ '' is blocked by JELLYRIN_FFMPEG_MODE=disabled''))"

record hls_transcode_plan =
  plan_primary :: ffmpeg_command_spec
  plan_fallback :: "ffmpeg_command_spec option"

definition fallback_request :: "hls_transcode_request \<Rightarrow> hls_transcode_request" where
  "fallback_request r =
     (let r = (if tr_video_mode r = Copy then r\<lparr> tr_video_mode := Encode \<rparr> else r)
      in if tr_audio_mode r = Copy then r\<lparr> tr_audio_mode := Encode \<rparr> else r)"

definition build_hls_transcode_plan ::
  "hls_transcode_request \<Rightarrow> bool \<Rightarrow> ffmpeg_mode \<Rightarrow> hls_transcode_plan" where
  "build_hls_transcode_plan r from_stdin mode =
     (let build = (\<lambda>r. if from_stdin then build_hls_ffmpeg_command_from_stdin r
                       else build_hls_ffmpeg_command r);
          primary = build r
      in \<lparr> plan_primary = primary,
           plan_fallback =
             (if mode = Enabled \<and> classify_transcode_command primary = RemuxJob
              then Some (build (fallback_request r)) else None) \<rparr>)"

definition hls_remux_fallback_eligible ::
  "nat \<Rightarrow> job_kind \<Rightarrow> bool \<Rightarrow> bool \<Rightarrow> bool \<Rightarrow> bool" where
  "hls_remux_fallback_eligible attempts kind first_segment_ready primary_failed fallback_available \<longleftrightarrow>
     attempts = 1 \<and> kind = RemuxJob \<and> \<not> first_segment_ready \<and> primary_failed \<and> fallback_available"

definition apply_live_hls_ffmpeg_policy ::
  "ffmpeg_mode \<Rightarrow> hls_transcode_request \<Rightarrow> hls_transcode_request" where
  "apply_live_hls_ffmpeg_policy mode r =
     (if mode \<noteq> Disabled then r\<lparr> tr_video_mode := Copy, tr_audio_mode := Copy \<rparr> else r)"

definition acquire_transcode_job ::
  "'s sem_ops \<Rightarrow> nat \<Rightarrow> ffmpeg_mode \<Rightarrow> ffmpeg_command_spec \<Rightarrow> 's coordinator \<Rightarrow> 's \<Rightarrow> admission_metrics \<Rightarrow>
   's coordinator \<times> 's \<times> admission_metrics \<times> string arrival" where
  "acquire_transcode_job ops queue_limit mode command c wq m =
     (let kind = classify_transcode_command command
      in case ffmpeg_job_allowed_for_mode mode kind of
           Inl e \<Rightarrow> (c, wq, m, Refused e)
         | Inr _ \<Rightarrow> ffmpeg_arrive ops queue_limit kind c wq m)"

section \<open>Permits are conserved\<close>

lemma lane_simps [simp]:
  "co_lane k (set_lane j s c) = (if k = j then s else co_lane k c)"
  "co_total (set_lane j s c) = co_total c"
  "co_lane k (c\<lparr> co_total := t \<rparr>) = co_lane k c"
  by (cases k; cases j; simp)+

lemma sem_contract_try:
  assumes "sem_contract ops"
  shows "sem_try ops s = Inr t \<Longrightarrow> sem_available ops s = Suc (sem_available ops t)"
    "sem_try ops s = Inl e \<Longrightarrow> e = Sem_No_Permits \<and> sem_available ops s = 0"
    "sem_available ops (sem_release ops s) = Suc (sem_available ops s)"
    "sem_available ops (sem_new ops n) = n"
  using assms
  by (cases "sem_available ops s"; fastforce simp: sem_contract_def)+

lemma coord_try_acquire_counts:
  assumes ops: "sem_contract ops" and r: "coord_try_acquire ops kind c = (d, r)"
  shows "(r = Inr kind \<and> 0 < available_permits ops kind c \<and> 0 < available_total_permits ops c \<and>
      (\<forall>k. available_permits ops k c = available_permits ops k d + (if k = kind then 1 else 0)) \<and>
      available_total_permits ops c = Suc (available_total_permits ops d)) \<or>
    (r = Inl Sem_No_Permits \<and> (available_permits ops kind c = 0 \<or> available_total_permits ops c = 0) \<and>
      (\<forall>k. available_permits ops k d = available_permits ops k c) \<and>
      available_total_permits ops d = available_total_permits ops c)"
  using r sem_contract_try [OF ops]
  by (auto simp: coord_try_acquire_def available_permits_def available_total_permits_def
      split: sum.splits)

definition holds_lane :: "job_kind \<Rightarrow> task \<Rightarrow> bool" where
  "holds_lane k t \<longleftrightarrow> t = Waiting_Total k \<or> t = Running k"

definition is_running :: "task \<Rightarrow> bool" where
  "is_running t \<longleftrightarrow> (\<exists>k. t = Running k)"

definition tasks_with :: "(task \<Rightarrow> bool) \<Rightarrow> 's admission \<Rightarrow> nat" where
  "tasks_with P y = length (filter P (adm_tasks y))"

fun lane_limit :: "transcode_limits \<Rightarrow> job_kind \<Rightarrow> nat" where
  "lane_limit l VideoJob = max (lim_max_video_encodes l) 1"
| "lane_limit l AudioJob = max (lim_max_audio_encodes l) 1"
| "lane_limit l RemuxJob = max (lim_max_remuxes l) 1"
| "lane_limit l AuxiliaryJob = max (lim_max_auxiliary l) 1"
| "lane_limit l ProbeJob = max (lim_max_probes l) 1"

definition adm_inv :: "'s sem_ops \<Rightarrow> transcode_limits \<Rightarrow> nat \<Rightarrow> 's admission \<Rightarrow> bool" where
  "adm_inv ops l queue_limit y \<longleftrightarrow>
     (\<forall>k. available_permits ops k (adm_coord y) + tasks_with (holds_lane k) y = lane_limit l k) \<and>
     available_total_permits ops (adm_coord y) + tasks_with is_running y = max (lim_max_total_jobs l) 1 \<and>
     sem_available ops (adm_queue y) + tasks_with (\<lambda>t. \<not> is_running t) y = queue_limit"

lemmas task_simps = tasks_with_def holds_lane_def is_running_def

lemma adm_inv_new: "sem_contract ops \<Longrightarrow> adm_inv ops l q (admission_new ops l q)"
proof -
  assume ops: "sem_contract ops"
  have "sem_available ops (co_lane k (coordinator_new ops l)) = lane_limit l k" for k
    by (cases k) (simp_all add: coordinator_new_def sem_contract_try(4) [OF ops])
  then show ?thesis
    by (simp add: adm_inv_def admission_new_def task_simps available_permits_def
        available_total_permits_def sem_contract_try(4) [OF ops])
      (simp add: coordinator_new_def sem_contract_try(4) [OF ops])
qed

lemma ffmpeg_arrive_counts:
  assumes ops: "sem_contract ops" and a: "ffmpeg_arrive ops q kind c wq m = (d, wq', m', a)"
  shows "(a = Admitted \<and> (\<forall>k. available_permits ops k c = available_permits ops k d + (if k = kind then 1 else 0)) \<and>
      available_total_permits ops c = Suc (available_total_permits ops d) \<and>
      sem_available ops wq' = sem_available ops wq) \<or>
    (a = Queued \<and> (\<forall>k. available_permits ops k d = available_permits ops k c) \<and>
      available_total_permits ops d = available_total_permits ops c \<and>
      sem_available ops wq = Suc (sem_available ops wq')) \<or>
    (a \<noteq> Admitted \<and> a \<noteq> Queued \<and> (\<forall>k. available_permits ops k d = available_permits ops k c) \<and>
      available_total_permits ops d = available_total_permits ops c \<and>
      sem_available ops wq' = sem_available ops wq)"
proof -
  obtain c1 r1 where t1: "coord_try_acquire ops kind c = (c1, r1)" by fastforce
  obtain c2 r2 where t2: "coord_try_acquire ops kind c1 = (c2, r2)" by fastforce
  note k1 = coord_try_acquire_counts [OF ops t1] and k2 = coord_try_acquire_counts [OF ops t2]
  show ?thesis
  proof (cases r1)
    case (Inr j)
    then show ?thesis using a k1 by (auto simp: ffmpeg_arrive_def t1)
  next
    case (Inl e)
    then have e: "e = Sem_No_Permits" using k1 by auto
    show ?thesis
    proof (cases "sem_try ops wq")
      case (Inr w)
      then show ?thesis
        using a k1 Inl e sem_contract_try(1) [OF ops Inr] by (auto simp: ffmpeg_arrive_def t1)
    next
      case no: (Inl f)
      then have "f = Sem_No_Permits" using sem_contract_try(2) [OF ops] by blast
      then show ?thesis
        using a k1 k2 Inl e no by (cases r2) (auto simp: ffmpeg_arrive_def t1 t2)
    qed
  qed
qed

lemma acquire_counts:
  assumes ops: "sem_contract ops"
  shows "acquire_lane ops kind c = Some d \<Longrightarrow>
      (\<forall>k. available_permits ops k c = available_permits ops k d + (if k = kind then 1 else 0)) \<and>
      available_total_permits ops d = available_total_permits ops c"
    "acquire_total ops c = Some d \<Longrightarrow> (\<forall>k. available_permits ops k d = available_permits ops k c) \<and>
      available_total_permits ops c = Suc (available_total_permits ops d)"
    "available_permits ops k (lane_drop ops kind c) = available_permits ops k c + (if k = kind then 1 else 0)"
    "available_total_permits ops (lane_drop ops kind c) = available_total_permits ops c"
    "available_permits ops k (permit_drop ops kind c) = available_permits ops k c + (if k = kind then 1 else 0)"
    "available_total_permits ops (permit_drop ops kind c) = Suc (available_total_permits ops c)"
  using sem_contract_try [OF ops]
  by (auto simp: acquire_lane_def acquire_total_def lane_drop_def permit_drop_def available_permits_def
      available_total_permits_def split: sum.splits)

text \<open>A step moves permits between the semaphores and the jobs; the sums stay.\<close>

definition adm_balance :: "'s sem_ops \<Rightarrow> 's admission \<Rightarrow> (job_kind \<Rightarrow> nat) \<times> nat \<times> nat" where
  "adm_balance ops y =
     (\<lambda>k. available_permits ops k (adm_coord y) + tasks_with (holds_lane k) y,
      available_total_permits ops (adm_coord y) + tasks_with is_running y,
      sem_available ops (adm_queue y) + tasks_with (\<lambda>t. \<not> is_running t) y)"

lemma adm_inv_balance:
  "adm_inv ops l q y \<longleftrightarrow> adm_balance ops y = (lane_limit l, max (lim_max_total_jobs l) 1, q)"
  unfolding adm_inv_def adm_balance_def prod.inject fun_eq_iff ..

lemma adm_step_balance:
  assumes ops: "sem_contract ops" and step: "adm_step ops q y z"
  shows "adm_balance ops z = adm_balance ops y"
proof -
  note counts = acquire_counts [OF ops] sem_contract_try(3) [OF ops]
  from step show ?thesis
  proof cases
    case (arrive kind c wq m a)
    show ?thesis
      unfolding adm_balance_def arrive(1) prod.inject fun_eq_iff
      using ffmpeg_arrive_counts [OF ops arrive(2)] by (cases a) (auto simp: task_simps arrival_tasks_def)
  next
    case (lane pre kind post c)
    show ?thesis
      unfolding adm_balance_def lane(1) prod.inject fun_eq_iff
      using counts(1) [OF lane(3)] by (auto simp: task_simps lane(2))
  next
    case (aggregate pre kind post c ms e)
    show ?thesis
      unfolding adm_balance_def aggregate(1) prod.inject fun_eq_iff
      using counts(2) [OF aggregate(3)] by (auto simp: task_simps aggregate(2) counts(7))
  next
    case (timeout_lane pre kind post ms e)
    show ?thesis
      unfolding adm_balance_def timeout_lane(1) prod.inject fun_eq_iff
      by (auto simp: task_simps timeout_lane(2) counts(7))
  next
    case (timeout_total pre kind post ms e)
    show ?thesis
      unfolding adm_balance_def timeout_total(1) prod.inject fun_eq_iff
      by (auto simp: task_simps timeout_total(2) counts(3,4,7))
  next
    case (cancel_lane pre kind post)
    show ?thesis
      unfolding adm_balance_def cancel_lane(1) prod.inject fun_eq_iff
      by (auto simp: task_simps cancel_lane(2) counts(7))
  next
    case (cancel_total pre kind post)
    show ?thesis
      unfolding adm_balance_def cancel_total(1) prod.inject fun_eq_iff
      by (auto simp: task_simps cancel_total(2) counts(3,4,7))
  next
    case (finish pre kind post)
    show ?thesis
      unfolding adm_balance_def finish(1) prod.inject fun_eq_iff
      by (auto simp: task_simps finish(2) counts(5,6))
  qed
qed

lemma adm_step_inv:
  "sem_contract ops \<Longrightarrow> adm_inv ops l q y \<Longrightarrow> adm_step ops q y z \<Longrightarrow> adm_inv ops l q z"
  by (simp add: adm_inv_balance adm_step_balance)

lemma adm_reachable_inv: "adm_reachable ops l q y \<Longrightarrow> sem_contract ops \<Longrightarrow> adm_inv ops l q y"
  by (induction rule: adm_reachable.induct) (auto intro: adm_inv_new adm_step_inv)

text \<open>
  C1. However jobs arrive, wait, time out, are cancelled and finish: the permits of every lane, of the
  whole host and of the wait queue are conserved, so no lane runs more jobs than its limit, the host
  never more than the aggregate limit, the queue never holds more than its bound, and nothing leaks.
\<close>

theorem admission_capacity_conserved:
  assumes "sem_contract ops" "adm_reachable ops l q y"
  shows "(\<forall>k. available_permits ops k (adm_coord y) + tasks_with (holds_lane k) y = lane_limit l k) \<and>
    (\<forall>k. tasks_with (\<lambda>t. t = Running k) y \<le> lane_limit l k) \<and>
    available_total_permits ops (adm_coord y) + tasks_with is_running y = max (lim_max_total_jobs l) 1 \<and>
    sem_available ops (adm_queue y) + tasks_with (\<lambda>t. \<not> is_running t) y = q"
proof -
  have inv: "adm_inv ops l q y" using assms by (intro adm_reachable_inv)
  have "tasks_with (\<lambda>t. t = Running k) y \<le> tasks_with (holds_lane k) y" for k
  proof -
    have "length (filter (\<lambda>t. t = Running k) ts) \<le> length (filter (holds_lane k) ts)" for ts
      by (induction ts) (auto simp: holds_lane_def)
    then show ?thesis by (simp add: tasks_with_def)
  qed
  moreover have "tasks_with (holds_lane k) y \<le> lane_limit l k" for k
    using inv unfolding adm_inv_def by (metis le_add2)
  ultimately have "tasks_with (\<lambda>t. t = Running k) y \<le> lane_limit l k" for k by (rule order_trans)
  with inv show ?thesis by (simp add: adm_inv_def)
qed

text \<open>
  C40. The two-stage acquisition cannot deadlock: whenever jobs wait and none is running, the permit one
  of them waits for is there.
\<close>

theorem admission_no_deadlock:
  assumes "sem_contract ops" "adm_reachable ops l q y"
    and "adm_tasks y \<noteq> []" "\<forall>t \<in> set (adm_tasks y). \<not> is_running t"
  shows "\<exists>pre kind post c. (adm_tasks y = pre @ Waiting_Total kind # post \<and> acquire_total ops (adm_coord y) = Some c) \<or>
    (adm_tasks y = pre @ Waiting_Lane kind # post \<and> acquire_lane ops kind (adm_coord y) = Some c)"
proof -
  have inv: "adm_inv ops l q y" using assms(1,2) by (intro adm_reachable_inv)
  have grant: "\<exists>t. sem_try ops s = Inr t" if "0 < sem_available ops s" for s
    using that assms(1) unfolding sem_contract_def by (metis gr0_conv_Suc)
  show ?thesis
  proof (cases "\<exists>kind. Waiting_Total kind \<in> set (adm_tasks y)")
    case True
    then obtain kind pre post where t: "adm_tasks y = pre @ Waiting_Total kind # post" by (meson split_list)
    have "tasks_with is_running y = 0" using assms(4) by (auto simp: tasks_with_def filter_empty_conv)
    moreover have "available_total_permits ops (adm_coord y) + tasks_with is_running y = max (lim_max_total_jobs l) 1"
      using inv unfolding adm_inv_def by blast
    ultimately have "0 < sem_available ops (co_total (adm_coord y))"
      unfolding available_total_permits_def by linarith
    then obtain s where "sem_try ops (co_total (adm_coord y)) = Inr s" using grant by blast
    then have "acquire_total ops (adm_coord y) = Some ((adm_coord y)\<lparr> co_total := s \<rparr>)"
      by (simp add: acquire_total_def)
    with t show ?thesis by blast
  next
    case False
    obtain t ts where ts: "adm_tasks y = t # ts" using assms(3) by (cases "adm_tasks y") auto
    then obtain kind where k: "t = Waiting_Lane kind"
      using False assms(4) by (cases t) (auto simp: is_running_def)
    have "tasks_with (holds_lane kind) y = 0"
      using False assms(4) by (auto simp: tasks_with_def filter_empty_conv holds_lane_def is_running_def)
    moreover have "0 < lane_limit l kind" by (cases kind) simp_all
    ultimately have "0 < sem_available ops (co_lane kind (adm_coord y))"
      using inv unfolding adm_inv_def available_permits_def by (metis add.right_neutral)
    then obtain s where "sem_try ops (co_lane kind (adm_coord y)) = Inr s" using grant by blast
    then show ?thesis
      using ts k by (intro exI [of _ "[]"] exI [of _ kind] exI [of _ ts]) (simp add: acquire_lane_def)
  qed
qed

text \<open>A counter is one semaphore that meets the contract.\<close>

definition counter_sem :: "nat sem_ops" where
  "counter_sem = \<lparr> sem_new = (\<lambda>n. n), sem_try = (\<lambda>s. if s = 0 then Inl Sem_No_Permits else Inr (s - 1)),
     sem_release = Suc, sem_available = (\<lambda>s. s) \<rparr>"

lemma counter_sem_contract: "sem_contract counter_sem"
  by (simp add: sem_contract_def counter_sem_def)

definition one_job :: transcode_limits where
  "one_job = default_limits\<lparr> lim_max_total_jobs := 1 \<rparr>"

lemma sample_admission:
  "\<exists>y. adm_reachable counter_sem one_job 1 y \<and> adm_tasks y = [Waiting_Lane VideoJob, Running VideoJob] \<and>
     adm_queue y = 0"
proof -
  let ?ops = counter_sem
  let ?y0 = "admission_new ?ops one_job 1"
  note defs = admission_new_def coordinator_new_def ffmpeg_arrive_def coord_try_acquire_def counter_sem_def
    one_job_def default_limits_def
  let ?c1 = "(adm_coord ?y0)\<lparr> co_total := 0, co_video := 0 \<rparr>"
  let ?y1 = "?y0\<lparr> adm_coord := ?c1, adm_metrics := record_immediate metrics_new, adm_tasks := [Running VideoJob] \<rparr>"
  let ?y2 = "?y1\<lparr> adm_queue := 0, adm_tasks := [Waiting_Lane VideoJob, Running VideoJob] \<rparr>"
  have a1: "ffmpeg_arrive ?ops 1 VideoJob (adm_coord ?y0) (adm_queue ?y0) (adm_metrics ?y0) =
      (?c1, adm_queue ?y0, record_immediate metrics_new, Admitted)"
    by (simp add: defs)
  have r1: "adm_reachable ?ops one_job 1 ?y1"
    using adm_reachable.step [OF adm_reachable.start adm_step.arrive [OF a1]]
    by (simp add: arrival_tasks_def admission_new_def)
  have a2: "ffmpeg_arrive ?ops 1 VideoJob (adm_coord ?y1) (adm_queue ?y1) (adm_metrics ?y1) =
      (?c1, 0, record_immediate metrics_new, Queued)"
    by (simp add: defs)
  have "adm_reachable ?ops one_job 1 ?y2"
    using adm_reachable.step [OF r1 adm_step.arrive [OF a2]]
    by (simp add: arrival_tasks_def admission_new_def)
  then show ?thesis by (intro exI [of _ ?y2]) simp
qed

theorem admission_capacity_conserved_witness:
  "\<exists>y :: nat admission. tasks_with (\<lambda>t. \<not> is_running t) y = 1 \<and> available_total_permits counter_sem (adm_coord y) = 0"
proof -
  obtain y where y: "adm_reachable counter_sem one_job 1 y"
    "adm_tasks y = [Waiting_Lane VideoJob, Running VideoJob]" using sample_admission by blast
  from admission_capacity_conserved [OF counter_sem_contract y(1)] y(2) show ?thesis
    by (intro exI [of _ y]) (simp add: tasks_with_def is_running_def one_job_def)
qed

theorem admission_no_deadlock_witness:
  "\<exists>y :: nat admission. adm_tasks y = [Waiting_Lane VideoJob] \<and>
     (\<exists>c. acquire_lane counter_sem VideoJob (adm_coord y) = Some c)"
proof -
  obtain y where y: "adm_reachable counter_sem one_job 1 y"
    "adm_tasks y = [Waiting_Lane VideoJob, Running VideoJob]" using sample_admission by blast
  let ?z = "y\<lparr> adm_coord := permit_drop counter_sem VideoJob (adm_coord y), adm_tasks := [Waiting_Lane VideoJob] \<rparr>"
  have r: "adm_reachable counter_sem one_job 1 ?z"
    using adm_reachable.step [OF y(1) adm_step.finish [of y "[Waiting_Lane VideoJob]" VideoJob "[]"]] y(2) by simp
  have "\<exists>pre kind post c. (adm_tasks ?z = pre @ Waiting_Total kind # post \<and> acquire_total counter_sem (adm_coord ?z) = Some c) \<or>
      (adm_tasks ?z = pre @ Waiting_Lane kind # post \<and> acquire_lane counter_sem kind (adm_coord ?z) = Some c)"
    by (rule admission_no_deadlock [OF counter_sem_contract r]) (simp_all add: is_running_def)
  then have "\<exists>c. acquire_lane counter_sem VideoJob (adm_coord ?z) = Some c"
    by (auto simp: Cons_eq_append_conv)
  then show ?thesis by (intro exI [of _ ?z]) simp
qed

text \<open>
  In the remux-only mode, whatever command the builder made for a request, a job that is admitted or
  queued runs neither the video nor the audio encoder.
\<close>

theorem remux_only_never_encodes:
  assumes "acquire_transcode_job ops q RemuxOnly (build_hls_ffmpeg_command r) c wq m = (c', wq', m', a)"
    and "\<forall>e. a \<noteq> Refused e"
  shows "\<not> has_pair ''-c:v'' ''libx264'' (spec_args (build_hls_ffmpeg_command r)) \<and>
    \<not> has_pair ''-c:a'' ''aac'' (spec_args (build_hls_ffmpeg_command r))"
proof -
  have k: "classify_transcode_command (build_hls_ffmpeg_command r) = RemuxJob"
    using assms by (auto simp: acquire_transcode_job_def ffmpeg_job_allowed_for_mode_def Let_def split: if_splits)
  have w: "spec_workload (build_hls_ffmpeg_command r) = Some (hls_workload r)"
    by (simp add: build_hls_ffmpeg_command_def with_workload_def)
  have "lane_cost (job_of_workload (hls_workload r)) \<le> lane_cost RemuxJob"
    using k w lane_cost_max [of "job_of_workload (hls_workload r)"
        "classify_ffmpeg_args (spec_args (build_hls_ffmpeg_command r))"] by (simp add: classify_transcode_command_def)
  then have "hls_workload r = Remux" by (cases "hls_workload r") simp_all
  then show ?thesis
    by (auto simp: hls_workload_def command_pair hls_video_args_pair hls_audio_args_pair codec_pair_def
        encodes_video_def split: if_splits)
qed

theorem remux_only_never_encodes_witness:
  "\<not> has_pair ''-c:v'' ''libx264'' (spec_args (build_hls_ffmpeg_command (sample_copy_request None)))"
proof -
  have "copies_streams (sample_copy_request None)"
    by (simp add: copies_streams_def sample_copy_request_def new_with_encoding_config_def
        selects_subtitle_def absolute_path_def starts_with_def)
  then have k: "classify_transcode_command (build_hls_ffmpeg_command (sample_copy_request None)) = RemuxJob"
    using scan_copy_args [of "sample_copy_request None"] copy_args_no_teletext [of "sample_copy_request None"]
      copies_streams_modes [of "sample_copy_request None"]
    by (simp add: classify_transcode_command_def classify_ffmpeg_args_def Let_def lane_of_flags_def
        scan_start_def max_job_kind_def explicit_index_def build_hls_ffmpeg_command_def with_workload_def
        hls_workload_def sample_copy_request_def new_with_encoding_config_def)
  obtain c' wq' m' where a: "acquire_transcode_job counter_sem 8 RemuxOnly
      (build_hls_ffmpeg_command (sample_copy_request None)) (coordinator_new counter_sem default_limits) 8 metrics_new =
      (c', wq', m', Admitted)"
    by (simp add: acquire_transcode_job_def k ffmpeg_job_allowed_for_mode_def ffmpeg_arrive_def
        coord_try_acquire_def coordinator_new_def counter_sem_def default_limits_def)
  from remux_only_never_encodes [OF a] show ?thesis by simp
qed

text \<open>
  The limits read from the environment are usable whatever it holds: every lane and the aggregate
  admit between 1 and 64 jobs, at most 128 probes queue for 1 to 120 seconds, and FFmpeg's nice value
  never raises its priority.
\<close>

theorem multimedia_config_bounded:
  "(let c = multimedia_process_config_from_env env; l = mc_limits c
    in list_all (\<lambda>n. n \<in> {1..64})
         [lim_max_total_jobs l, lim_max_video_encodes l, lim_max_audio_encodes l, lim_max_remuxes l,
          lim_max_auxiliary l, lim_max_probes l] \<and>
       mc_max_queued_probes c \<le> 128 \<and> mc_probe_queue_timeout c \<in> {1..120} \<and>
       (case mc_ffmpeg_nice c of None \<Rightarrow> True | Some n \<Rightarrow> 0 \<le> n \<and> n \<le> 19))"
proof -
  have u: "lo \<le> d \<and> d \<le> hi \<Longrightarrow> lo \<le> bounded_usize_from_value v lo hi d \<and> bounded_usize_from_value v lo hi d \<le> hi"
    for lo hi d v
    unfolding bounded_usize_from_value_def by (rule unwrap_or_cases) (auto dest: opt_filter_SomeD)
  have w: "lo \<le> d \<and> d \<le> hi \<Longrightarrow> lo \<le> bounded_u64_from_value v lo hi d \<and> bounded_u64_from_value v lo hi d \<le> hi"
    for lo hi d v
    unfolding bounded_u64_from_value_def by (rule unwrap_or_cases) (auto dest: opt_filter_SomeD)
  have n: "case ffmpeg_nice_from_value v of None \<Rightarrow> True | Some n \<Rightarrow> 0 \<le> n \<and> n \<le> 19" for v
    by (auto simp: ffmpeg_nice_from_value_def opt_or_def dest!: opt_filter_SomeD split: option.splits)
  show ?thesis
    using u [of 0 8 128] u [of 1 _ 64] w [of 1 10 120] n
    by (simp add: multimedia_process_config_from_env_def process_limit_from_value_def default_limits_def)
qed

end
