(* ===== verification/Hls_Layout.thy ===== *)
theory Hls_Layout
  imports Rust_Path Rust_Float
begin

text \<open>
  The HLS session directory and playlists of \<open>crates/jellyrin-transcode/src/lib.rs\<close>: the layout of a
  session (lines 1186--1205, 1293--1335), the rendered master and media playlists (1627--1670), the
  readiness poll (1672--1692) and the sanitising helpers (1926--1951).
\<close>

section \<open>Sanitising\<close>

definition hls_safe_char :: "char \<Rightarrow> bool" where
  "hls_safe_char c \<longleftrightarrow> is_alnum c \<or> c = CHR ''-'' \<or> c = CHR ''_''"

definition sanitize_hls_path_component :: "string \<Rightarrow> string" where
  "sanitize_hls_path_component value =
     (let sanitized = map_ascii_or hls_safe_char (CHR ''_'') value
      in if sanitized = [] then ''unknown'' else sanitized)"

definition escape_hls_attribute :: "string \<Rightarrow> string" where
  "escape_hls_attribute value =
     concat (map (\<lambda>c. if c = char_of (34::nat) then [char_of (92::nat), c] else [c]) value)"

section \<open>The session layout\<close>

record hls_layout =
  lay_session_dir :: string
  lay_master_playlist_path :: string
  lay_media_playlist_path :: string
  lay_segment_pattern_path :: string

definition layout_from_session_dir :: "string \<Rightarrow> hls_layout" where
  "layout_from_session_dir dir =
     \<lparr> lay_session_dir = dir,
       lay_master_playlist_path = path_join dir ''master.m3u8'',
       lay_media_playlist_path = path_join dir ''main.m3u8'',
       lay_segment_pattern_path = path_join dir ''segment_%05d.ts'' \<rparr>"

definition layout_new :: "string \<Rightarrow> string \<Rightarrow> hls_layout" where
  "layout_new base play_session_id =
     layout_from_session_dir (path_join base (sanitize_hls_path_component play_session_id))"

definition layout_from_media_playlist_path :: "string \<Rightarrow> hls_layout" where
  "layout_from_media_playlist_path media =
     (let dir = unwrap_or [] (path_parent media)
      in \<lparr> lay_session_dir = dir,
           lay_master_playlist_path = path_join dir ''master.m3u8'',
           lay_media_playlist_path = media,
           lay_segment_pattern_path = path_join dir ''segment_%05d.ts'' \<rparr>)"

definition segment_path :: "hls_layout \<Rightarrow> nat \<Rightarrow> string" where
  "segment_path l index =
     path_join (lay_session_dir l) (''segment_'' @ pad_zero 5 (show_nat index) @ ''.ts'')"

section \<open>Playlists\<close>

record hls_variant =
  var_uri :: string
  var_bandwidth :: nat
  var_resolution :: "(nat \<times> nat) option"
  var_codecs :: "string option"

text \<open>
  A segment's \<open>f64\<close> duration after \<open>max(0.0)\<close>: a finite non-negative number, a negative number or NaN
  (both become zero), or infinity.
\<close>

datatype seg_duration = Seconds f64 | Negative_Or_NaN | Infinite

record hls_segment =
  seg_duration :: seg_duration
  seg_uri :: string

abbreviation nl :: char where "nl \<equiv> char_of (10::nat)"

definition render_hls_master_playlist :: "hls_variant \<Rightarrow> string" where
  "render_hls_master_playlist v =
     (let quote = [char_of (34::nat)];
          attributes =
            [''BANDWIDTH='' @ show_nat (var_bandwidth v)] @
            (case var_resolution v of
               Some (w, h) \<Rightarrow> [''RESOLUTION='' @ show_nat w @ ''x'' @ show_nat h] | None \<Rightarrow> []) @
            (case opt_filter (\<lambda>c. c \<noteq> []) (var_codecs v) of
               Some c \<Rightarrow> [''CODECS='' @ quote @ escape_hls_attribute c @ quote] | None \<Rightarrow> [])
      in ''#EXTM3U'' @ [nl] @ ''#EXT-X-VERSION:3'' @ [nl] @
         ''#EXT-X-STREAM-INF:'' @ join_with '','' attributes @ [nl] @ var_uri v @ [nl])"

definition show_duration :: "seg_duration \<Rightarrow> string" where
  "show_duration d =
     (case d of Seconds x \<Rightarrow> fmt_fixed 3 x | Negative_Or_NaN \<Rightarrow> ''0.000'' | Infinite \<Rightarrow> ''inf'')"

definition render_segment :: "hls_segment \<Rightarrow> string" where
  "render_segment s =
     ''#EXTINF:'' @ show_duration (seg_duration s) @ '','' @ [nl] @ seg_uri s @ [nl]"

definition render_hls_media_playlist :: "nat \<Rightarrow> nat \<Rightarrow> hls_segment list \<Rightarrow> bool \<Rightarrow> string" where
  "render_hls_media_playlist target_duration media_sequence segments end_list =
     ''#EXTM3U'' @ [nl] @ ''#EXT-X-VERSION:3'' @ [nl] @
     ''#EXT-X-TARGETDURATION:'' @ show_nat (max 1 target_duration) @ [nl] @
     ''#EXT-X-MEDIA-SEQUENCE:'' @ show_nat media_sequence @ [nl] @
     concat (map render_segment segments) @
     (if end_list then ''#EXT-X-ENDLIST'' @ [nl] else [])"

section \<open>Waiting for the first segment\<close>

text \<open>The answer of the file system about one path.\<close>

datatype file_answer = File_Missing | File_Error | File_Meta bool nat

definition non_empty_file_exists :: "file_answer \<Rightarrow> unit + bool" where
  "non_empty_file_exists a =
     (case a of
        File_Meta is_file len \<Rightarrow> Inr (is_file \<and> 0 < len)
      | File_Missing \<Rightarrow> Inr False
      | File_Error \<Rightarrow> Inl ())"

text \<open>One round of the poll: both answers and whether the deadline has passed after them.\<close>

record poll_round =
  poll_playlist :: file_answer
  poll_segment :: file_answer
  poll_expired :: bool

fun wait_for_hls_readiness :: "poll_round list \<Rightarrow> (unit + bool) option" where
  "wait_for_hls_readiness [] = None"
| "wait_for_hls_readiness (p # ps) =
     (case non_empty_file_exists (poll_playlist p) of
        Inl e \<Rightarrow> Some (Inl e)
      | Inr playlist \<Rightarrow>
          (case (if playlist then non_empty_file_exists (poll_segment p) else Inr False) of
             Inl e \<Rightarrow> Some (Inl e)
           | Inr True \<Rightarrow> Some (Inr True)
           | Inr False \<Rightarrow> if poll_expired p then Some (Inr False) else wait_for_hls_readiness ps))"

section \<open>The session directory cannot be escaped\<close>

lemma sanitize_safe: "c \<in> set (sanitize_hls_path_component value) \<Longrightarrow> hls_safe_char c"
proof -
  assume c: "c \<in> set (sanitize_hls_path_component value)"
  have "\<forall>c \<in> set ''unknown''. hls_safe_char c" by (simp add: hls_safe_char_def char_eval)
  moreover have "hls_safe_char (CHR ''_'')" by (simp add: hls_safe_char_def)
  ultimately show ?thesis
    using c map_ascii_or_set [of c hls_safe_char "CHR ''_''" "value"]
    by (auto simp: sanitize_hls_path_component_def Let_def split: if_splits)
qed

lemma sanitize_ordinary: "ordinary_name (sanitize_hls_path_component value)"
proof -
  have "\<not> hls_safe_char slash" "\<not> hls_safe_char (CHR ''.'')"
    by (simp_all add: hls_safe_char_def slash_def char_eval)
  then have "slash \<notin> set (sanitize_hls_path_component value)"
    "CHR ''.'' \<notin> set (sanitize_hls_path_component value)"
    using sanitize_safe by blast+
  moreover have "sanitize_hls_path_component value \<noteq> []"
    by (simp add: sanitize_hls_path_component_def Let_def)
  ultimately show ?thesis by (auto simp: ordinary_name_def)
qed

lemma sanitize_id:
  "v \<noteq> [] \<Longrightarrow> \<forall>c \<in> set v. byte c < 128 \<and> hls_safe_char c \<Longrightarrow> sanitize_hls_path_component v = v"
  by (simp add: sanitize_hls_path_component_def map_ascii_or_id)

text \<open>
  Whatever a client sends as its play session id, the session directory is a direct child of the
  transcode root, named by letters, digits, hyphens and underscores only, and every file the layout
  names lies directly in that directory: no id reaches outside the root.
\<close>

theorem layout_new_contained:
  assumes "base \<noteq> []"
  shows "let l = layout_new base play_session_id;
      dir = path_components base @ [sanitize_hls_path_component play_session_id]
    in path_components (lay_session_dir l) = dir \<and>
      (\<forall>c \<in> set (sanitize_hls_path_component play_session_id). hls_safe_char c) \<and>
      path_components (lay_master_playlist_path l) = dir @ [''master.m3u8''] \<and>
      path_components (lay_media_playlist_path l) = dir @ [''main.m3u8''] \<and>
      path_components (segment_path l i) = dir @ [''segment_'' @ pad_zero 5 (show_nat i) @ ''.ts'']"
proof -
  let ?dir = "path_components base @ [sanitize_hls_path_component play_session_id]"
  let ?d = "path_join base (sanitize_hls_path_component play_session_id)"
  have ne: "?d \<noteq> []" by (rule path_join_nonempty [OF sanitize_ordinary])
  have d: "path_components ?d = ?dir"
    using assms by (simp add: path_components_join sanitize_ordinary)
  have seg: "ordinary_name (''segment_'' @ pad_zero 5 (show_nat i) @ ''.ts'')"
    using show_nat_digits [of i]
    by (auto simp: ordinary_name_def slash_def pad_zero_def list_all_iff is_digit_def byte_def)
  have "ordinary_name ''master.m3u8''" "ordinary_name ''main.m3u8''"
    by (simp_all add: ordinary_name_def slash_def)
  with ne d seg sanitize_safe show ?thesis
    by (simp add: Let_def layout_new_def layout_from_session_dir_def segment_path_def path_components_join
        del: append.simps)
qed

theorem layout_new_contained_witness:
  "path_components (lay_session_dir (layout_new ''/tmp/hls'' ''../../etc'')) =
     path_components ''/tmp/hls'' @ [sanitize_hls_path_component ''../../etc'']"
  using layout_new_contained [of "''/tmp/hls''" "''../../etc''"] by (simp add: Let_def)

section \<open>The media playlist reads back\<close>

lemma lines_of_append:
  "ws \<noteq> [] \<Longrightarrow> lines_of (w # ws) = strip_cr w # lines_of ws"
  by (cases ws) auto

lemma lines_cons_line:
  assumes "nl \<notin> set w"
  shows "lines (w @ [nl] @ s) = strip_cr w # lines s"
  using assms by (simp add: lines_def split_on_append_sep split_on_absent lines_of_append)
definition plain_uri :: "string \<Rightarrow> bool" where
  "plain_uri u \<longleftrightarrow> nl \<notin> set u \<and> strip_cr u = u \<and> \<not> starts_with ''#'' u"

definition playlist_uris :: "string \<Rightarrow> string list" where
  "playlist_uris s = filter (\<lambda>l. \<not> starts_with ''#'' l) (lines s)"

lemma tag_line_skipped:
  assumes "nl \<notin> set w"
  shows "playlist_uris ((CHR ''#'' # w) @ [nl] @ s) = playlist_uris s"
proof -
  have "strip_cr (CHR ''#'' # w) = CHR ''#'' # w \<or> (\<exists>v. strip_cr (CHR ''#'' # w) = CHR ''#'' # v)"
    by (cases w rule: rev_cases)
      (auto simp: strip_cr_def strip_suffix_def ends_with_def char_of_eq_iff byte_def)
  moreover have "nl \<notin> set (CHR ''#'' # w)" using assms by (simp add: char_of_eq_iff byte_def)
  ultimately show ?thesis
    using lines_cons_line [of "CHR ''#'' # w" s] by (auto simp: playlist_uris_def starts_with_def)
qed

lemma nl_not_in_show_nat: "nl \<notin> set (show_nat n)"
  using show_nat_digits [of n] by (auto simp: list_all_iff is_digit_def)

lemma nl_not_in_duration: "nl \<notin> set (show_duration d)"
  using nl_not_in_show_nat
  by (cases d) (auto simp: show_duration_def fmt_fixed_def fixed_digits_def pad_zero_def char_of_eq_iff byte_def)

lemma playlist_uris_segments:
  "\<forall>s \<in> set segs. plain_uri (seg_uri s) \<Longrightarrow>
   playlist_uris (concat (map render_segment segs) @ rest) = map seg_uri segs @ playlist_uris rest"
proof (induction segs)
  case (Cons s segs)
  let ?rest = "concat (map render_segment segs) @ rest"
  have u: "nl \<notin> set (seg_uri s)" "strip_cr (seg_uri s) = seg_uri s" "\<not> starts_with ''#'' (seg_uri s)"
    using Cons.prems by (simp_all add: plain_uri_def)
  have "playlist_uris (concat (map render_segment (s # segs)) @ rest) =
      playlist_uris ((CHR ''#'' # ''EXTINF:'' @ show_duration (seg_duration s) @ '','') @ [nl] @
        (seg_uri s @ [nl] @ ?rest))"
    by (simp add: render_segment_def)
  also have "\<dots> = playlist_uris (seg_uri s @ [nl] @ ?rest)"
    using nl_not_in_duration by (intro tag_line_skipped) (simp add: char_of_eq_iff byte_def)
  also have "\<dots> = seg_uri s # playlist_uris ?rest"
    using u lines_cons_line [OF u(1)] by (simp add: playlist_uris_def)
  finally show ?case using Cons by simp
qed simp

text \<open>
  A reader that takes every line not starting with \<open>#\<close> recovers exactly the segment URIs, in order,
  from a rendered media playlist, for URIs that are single lines and do not look like tags.
\<close>

theorem media_playlist_reads_back:
  assumes "\<forall>s \<in> set segments. plain_uri (seg_uri s)"
  shows "playlist_uris (render_hls_media_playlist target media_sequence segments end_list) =
    map seg_uri segments"
proof -
  let ?tail = "if end_list then ''#EXT-X-ENDLIST'' @ [nl] else []"
  have tail: "playlist_uris ?tail = []"
    using tag_line_skipped [of "''EXT-X-ENDLIST''" "[]"]
    by (simp add: playlist_uris_def lines_def char_of_eq_iff byte_def)
  let ?body = "concat (map render_segment segments) @ ?tail"
  have shape: "render_hls_media_playlist target media_sequence segments end_list =
      (CHR ''#'' # ''EXTM3U'') @ [nl] @ (CHR ''#'' # ''EXT-X-VERSION:3'') @ [nl] @
      (CHR ''#'' # ''EXT-X-TARGETDURATION:'' @ show_nat (max 1 target)) @ [nl] @
      (CHR ''#'' # ''EXT-X-MEDIA-SEQUENCE:'' @ show_nat media_sequence) @ [nl] @ ?body"
    by (simp add: render_hls_media_playlist_def)
  have "playlist_uris (render_hls_media_playlist target media_sequence segments end_list) = playlist_uris ?body"
    unfolding shape
    by (subst tag_line_skipped, simp add: char_of_eq_iff byte_def nl_not_in_show_nat)+ (rule refl)
  with tail show ?thesis by (simp add: playlist_uris_segments [OF assms])
qed

section \<open>The readiness poll\<close>

text \<open>
  The poll reports readiness only when it saw a non-empty playlist and a non-empty first segment in
  one round, gives up only after the deadline, and always ends once a round falls after the deadline.
\<close>

theorem wait_for_hls_readiness_sound:
  "(wait_for_hls_readiness ps = Some (Inr True) \<longrightarrow>
      (\<exists>p \<in> set ps. non_empty_file_exists (poll_playlist p) = Inr True \<and>
         non_empty_file_exists (poll_segment p) = Inr True)) \<and>
   (wait_for_hls_readiness ps = Some (Inr False) \<longrightarrow> (\<exists>p \<in> set ps. poll_expired p)) \<and>
   ((\<exists>p \<in> set ps. poll_expired p) \<longrightarrow> wait_for_hls_readiness ps \<noteq> None)"
  by (induction ps rule: wait_for_hls_readiness.induct) (auto split: sum.splits bool.splits if_splits)

theorem wait_for_hls_readiness_sound_witness:
  "wait_for_hls_readiness
     [\<lparr> poll_playlist = File_Missing, poll_segment = File_Missing, poll_expired = False \<rparr>,
      \<lparr> poll_playlist = File_Meta True 9, poll_segment = File_Meta True 0, poll_expired = True \<rparr>] \<noteq> None"
  using wait_for_hls_readiness_sound [of
     "[\<lparr> poll_playlist = File_Missing, poll_segment = File_Missing, poll_expired = False \<rparr>,
      \<lparr> poll_playlist = File_Meta True 9, poll_segment = File_Meta True 0, poll_expired = True \<rparr>]"]
  by simp

theorem media_playlist_reads_back_witness:
  "playlist_uris (render_hls_media_playlist 3 0
     [\<lparr> seg_duration = Negative_Or_NaN, seg_uri = ''a.ts'' \<rparr>] True) =
   map seg_uri [\<lparr> seg_duration = Negative_Or_NaN, seg_uri = ''a.ts'' \<rparr>]"
  by (rule media_playlist_reads_back)
    (simp add: plain_uri_def starts_with_def strip_cr_def strip_suffix_def ends_with_def char_of_eq_iff
      byte_def)

end
