(* ===== verification/Process_Control.thy ===== *)
theory Process_Control
  imports Rust_Text
begin

text \<open>
  Control of the FFmpeg child processes, \<open>crates/jellyrin-transcode/src/lib.rs\<close>: bounded output
  capture (lines 684--757, 1335--1466), the parser of \<open>/proc/<pid>/stat\<close> and the resource samples
  (1468--1560, without the floating-point CPU share), waiting, stopping and reaping a process
  (1695--1855), and the termination of a process group (1857--1924).

  What the operating system answers (\<open>try_wait\<close>, \<open>kill\<close>, the clock) is an argument; every function
  returns, beside its result, the signals it sent to the process group.
\<close>

section \<open>Bounded capture\<close>

record capture_options =
  opt_timeout :: nat
  opt_grace_period :: nat
  opt_max_stdout_bytes :: nat
  opt_max_stderr_bytes :: nat

definition capture_options_new :: "nat \<Rightarrow> nat \<Rightarrow> nat \<Rightarrow> capture_options" where
  "capture_options_new timeout max_stdout max_stderr =
     \<lparr> opt_timeout = timeout, opt_grace_period = 2000, opt_max_stdout_bytes = max_stdout,
       opt_max_stderr_bytes = max_stderr \<rparr>"

definition with_grace_period :: "nat \<Rightarrow> capture_options \<Rightarrow> capture_options" where
  "with_grace_period grace opts = opts\<lparr> opt_grace_period := grace \<rparr>"

datatype output_stream = Stdout | Stderr

datatype 'e output_error = Output_Io 'e | Output_Timed_Out | Output_Limit_Exceeded output_stream nat

record bounded_capture =
  cap_bytes :: string
  cap_limit_exceeded :: bool

text \<open>Each read returns at most a buffer's worth of bytes; an empty read is the end of the pipe.\<close>

fun read_bounded :: "nat \<Rightarrow> bounded_capture \<Rightarrow> ('e + string) list \<Rightarrow> 'e + bounded_capture" where
  "read_bounded limit c [] = Inr c"
| "read_bounded limit c (Inl e # _) = Inl e"
| "read_bounded limit c (Inr chunk # later) =
     (if chunk = [] then Inr c
      else
        (let retained = min (limit - length (cap_bytes c)) (length chunk)
         in read_bounded limit
              \<lparr> cap_bytes = cap_bytes c @ take retained chunk,
                cap_limit_exceeded = cap_limit_exceeded c \<or> retained < length chunk \<rparr> later))"

definition read_bounded_command_output :: "nat \<Rightarrow> ('e + string) list \<Rightarrow> 'e + bounded_capture" where
  "read_bounded_command_output limit reads =
     read_bounded limit \<lparr> cap_bytes = [], cap_limit_exceeded = False \<rparr> reads"

section \<open>Signals and the process group\<close>

datatype signal = Sig_Term | Sig_Kill

datatype kill_answer = Kill_Ok | Kill_No_Such_Process | Kill_No_Permission | Kill_Failed

datatype os_error = Invalid_Group | Os_Failure | Handle_Missing | Reader_Failed

text \<open>A signal is recorded when \<open>kill\<close> is really called: never for a group id that is not positive.\<close>

definition signal_process_group :: "int \<Rightarrow> signal \<Rightarrow> kill_answer \<Rightarrow> signal list \<times> (os_error + unit)" where
  "signal_process_group pgid sig answer =
     (if pgid \<le> 0 then ([], Inl Invalid_Group)
      else ([sig], if answer = Kill_Ok \<or> answer = Kill_No_Such_Process then Inr () else Inl Os_Failure))"

text \<open>The forced end of a group that is still held; its result is ignored.\<close>

definition group_kill :: "int option \<Rightarrow> kill_answer \<Rightarrow> signal list" where
  "group_kill pgid answer =
     (case pgid of None \<Rightarrow> [] | Some g \<Rightarrow> fst (signal_process_group g Sig_Kill answer))"

definition process_group_exists :: "int \<Rightarrow> kill_answer \<Rightarrow> os_error + bool" where
  "process_group_exists pgid answer =
     (if pgid \<le> 0 then Inr False
      else case answer of
          Kill_Ok \<Rightarrow> Inr True
        | Kill_No_Such_Process \<Rightarrow> Inr False
        | Kill_No_Permission \<Rightarrow> Inr True
        | Kill_Failed \<Rightarrow> Inl Os_Failure)"

text \<open>The exit status of the child: its code and whether it counts as success.\<close>

record exit_status =
  exit_code :: "int option"
  exit_success :: bool

type_synonym wait_answer = "os_error + exit_status option"

text \<open>\<open>force_kill_and_reap\<close>: the two possible \<open>try_wait\<close> answers, the kill and the final wait.\<close>

record reap_answers =
  reap_first_try :: wait_answer
  reap_kill :: "os_error + unit"
  reap_second_try :: wait_answer
  reap_wait :: "os_error + exit_status"

definition force_kill_and_reap :: "reap_answers \<Rightarrow> os_error + exit_status" where
  "force_kill_and_reap a =
     (case reap_first_try a of
        Inl e \<Rightarrow> Inl e
      | Inr (Some status) \<Rightarrow> Inr status
      | Inr None \<Rightarrow>
          (case reap_kill a of
             Inr _ \<Rightarrow> reap_wait a
           | Inl e \<Rightarrow>
               (case reap_second_try a of
                  Inl e' \<Rightarrow> Inl e'
                | Inr (Some status) \<Rightarrow> Inr status
                | Inr None \<Rightarrow> Inl e)))"

record group_poll =
  gp_try_wait :: wait_answer
  gp_exists :: kill_answer
  gp_expired :: bool
  gp_kill :: kill_answer

text \<open>
  The polling loop after \<open>SIGTERM\<close>: the signals sent and the status seen when it ends, an error of
  \<open>try_wait\<close>, or None while the observations do not end it.
\<close>

fun terminate_loop ::
  "int \<Rightarrow> exit_status option \<Rightarrow> group_poll list \<Rightarrow> (signal list \<times> (os_error + exit_status option)) option" where
  "terminate_loop pgid status [] = None"
| "terminate_loop pgid status (p # ps) =
     (case (if status = None then gp_try_wait p else Inr status) of
        Inl e \<Rightarrow> Some ([], Inl e)
      | Inr status \<Rightarrow>
          (let group_exists = (case process_group_exists pgid (gp_exists p) of Inl _ \<Rightarrow> True | Inr b \<Rightarrow> b)
           in if \<not> group_exists then Some ([], Inr status)
              else if gp_expired p
              then Some (fst (signal_process_group pgid Sig_Kill (gp_kill p)), Inr status)
              else terminate_loop pgid status ps))"

record terminate_answers =
  ta_first_try :: wait_answer
  ta_first_kill :: kill_answer
  ta_term :: kill_answer
  ta_polls :: "group_poll list"
  ta_reap :: reap_answers

definition terminate_process_group ::
  "int option \<Rightarrow> terminate_answers \<Rightarrow> (signal list \<times> (os_error + exit_status)) option" where
  "terminate_process_group pgid a =
     (case opt_filter (\<lambda>g. 0 < g) pgid of
        None \<Rightarrow> Some ([], force_kill_and_reap (ta_reap a))
      | Some g \<Rightarrow>
          (case ta_first_try a of
             Inl e \<Rightarrow> Some ([], Inl e)
           | Inr (Some status) \<Rightarrow>
               Some (fst (signal_process_group g Sig_Kill (ta_first_kill a)), Inr status)
           | Inr None \<Rightarrow>
               (case signal_process_group g Sig_Term (ta_term a) of
                  (sent, Inl _) \<Rightarrow>
                    Some (sent @ fst (signal_process_group g Sig_Kill (ta_first_kill a)),
                          force_kill_and_reap (ta_reap a))
                | (sent, Inr _) \<Rightarrow>
                    map_option (\<lambda>(signals, r). (sent @ signals,
                        case r of
                          Inl e \<Rightarrow> Inl e
                        | Inr (Some status) \<Rightarrow> Inr status
                        | Inr None \<Rightarrow> force_kill_and_reap (ta_reap a)))
                      (terminate_loop g None (ta_polls a)))))"

section \<open>The owned transcode process\<close>

record transcode_process =
  tp_child :: bool \<comment> \<open>the child handle is still held\<close>
  tp_group :: "int option"
  tp_stderr_task :: bool
  tp_resource_task :: bool
  tp_exit :: "exit_status option"

text \<open>
  \<open>finish_process\<close>: kill what is left of the group, remember the exit, stop the sampler and join the
  reader, whose own failure is the result although the exit is remembered.
\<close>

definition finish_process ::
  "exit_status \<Rightarrow> kill_answer \<Rightarrow> os_error + unit \<Rightarrow> transcode_process \<Rightarrow>
   transcode_process \<times> signal list \<times> (os_error + exit_status)" where
  "finish_process status kill reader p =
     (let signals = group_kill (tp_group p) kill;
          q = p\<lparr> tp_group := None, tp_child := False, tp_exit := Some status,
                 tp_resource_task := False, tp_stderr_task := False \<rparr>
      in (q, signals,
          if tp_stderr_task p then (case reader of Inl e \<Rightarrow> Inl e | Inr _ \<Rightarrow> Inr status) else Inr status))"

definition process_wait ::
  "os_error + exit_status \<Rightarrow> kill_answer \<Rightarrow> os_error + unit \<Rightarrow> transcode_process \<Rightarrow>
   transcode_process \<times> signal list \<times> (os_error + exit_status)" where
  "process_wait child_wait kill reader p =
     (case tp_exit p of
        Some e \<Rightarrow> (p, [], Inr e)
      | None \<Rightarrow>
          if \<not> tp_child p then (p, [], Inl Handle_Missing)
          else (case child_wait of
                  Inl e \<Rightarrow> (p, [], Inl e)
                | Inr status \<Rightarrow> finish_process status kill reader p))"

definition process_stop ::
  "terminate_answers \<Rightarrow> kill_answer \<Rightarrow> os_error + unit \<Rightarrow> transcode_process \<Rightarrow>
   (transcode_process \<times> signal list \<times> (os_error + exit_status)) option" where
  "process_stop a kill reader p =
     (case tp_exit p of
        Some e \<Rightarrow> Some (p, [], Inr e)
      | None \<Rightarrow>
          if \<not> tp_child p then Some (p, [], Inl Handle_Missing)
          else map_option (\<lambda>(signals, r).
                 case r of
                   Inl e \<Rightarrow> (p, signals, Inl e)
                 | Inr status \<Rightarrow>
                     (case finish_process status kill reader p of (q, more_signals, r) \<Rightarrow>
                        (q, signals @ more_signals, r)))
               (terminate_process_group (tp_group p) a))"

definition process_drop :: "kill_answer \<Rightarrow> transcode_process \<Rightarrow> signal list" where
  "process_drop kill p =
     (if tp_child p
      then group_kill (tp_group p) kill
      else [])"

section \<open>A bounded command\<close>

datatype 'a timed = In_Time 'a | Deadline_Passed

text \<open>
  \<open>run_bounded_command_output\<close> after the spawn: the wait for the child until the deadline, the cleanup of
  its group, and the join of the two readers until the same deadline.
\<close>

text \<open>
  A successful termination kills what is left of the group and forgets it; after a failed one the group
  is still held, and dropping the child kills it.
\<close>

definition terminate_and_reap ::
  "int option \<Rightarrow> terminate_answers \<Rightarrow> kill_answer \<Rightarrow>
   (signal list \<times> int option \<times> (os_error + unit)) option" where
  "terminate_and_reap pgid a kill =
     map_option (\<lambda>(signals, r).
        case r of
          Inl e \<Rightarrow> (signals, pgid, Inl e)
        | Inr _ \<Rightarrow> (signals @ group_kill pgid kill, None, Inr ()))
      (terminate_process_group pgid a)"

definition check_captures ::
  "capture_options \<Rightarrow> exit_status \<Rightarrow> bounded_capture \<Rightarrow> bounded_capture \<Rightarrow>
   os_error output_error + exit_status \<times> string \<times> string" where
  "check_captures opts status out err =
     (if cap_limit_exceeded out then Inl (Output_Limit_Exceeded Stdout (opt_max_stdout_bytes opts))
      else if cap_limit_exceeded err then Inl (Output_Limit_Exceeded Stderr (opt_max_stderr_bytes opts))
      else Inr (status, cap_bytes out, cap_bytes err))"

definition run_bounded_command_output ::
  "capture_options \<Rightarrow> int option \<Rightarrow> (os_error + exit_status) timed \<Rightarrow> terminate_answers \<Rightarrow> kill_answer \<Rightarrow>
   ((os_error + bounded_capture) \<times> (os_error + bounded_capture)) timed \<Rightarrow>
   (signal list \<times> (os_error output_error + exit_status \<times> string \<times> string)) option" where
  "run_bounded_command_output opts pgid child_wait a kill readers =
     (case child_wait of
        In_Time (Inl e) \<Rightarrow>
          map_option (\<lambda>(signals, held, _). (signals @ group_kill held kill, Inl (Output_Io e)))
            (terminate_and_reap pgid a kill)
      | Deadline_Passed \<Rightarrow>
          map_option (\<lambda>(signals, held, cleanup).
              (signals @ group_kill held kill, case cleanup of Inl e \<Rightarrow> Inl (Output_Io e) | Inr _ \<Rightarrow> Inl Output_Timed_Out))
            (terminate_and_reap pgid a kill)
      | In_Time (Inr status) \<Rightarrow>
          Some (group_kill pgid kill,
            case readers of
              Deadline_Passed \<Rightarrow> Inl Output_Timed_Out
            | In_Time (Inl e, _) \<Rightarrow> Inl (Output_Io e)
            | In_Time (Inr out, Inl e) \<Rightarrow> Inl (Output_Io e)
            | In_Time (Inr out, Inr err) \<Rightarrow> check_captures opts status out err))"

section \<open>Process statistics\<close>

record linux_process_stat =
  st_cpu_ticks :: nat
  st_start_time_ticks :: nat
  st_rss_pages :: nat

definition nth_opt :: "nat \<Rightarrow> 'a list \<Rightarrow> 'a option" where
  "nth_opt i xs = (if i < length xs then Some (xs ! i) else None)"

definition parse_linux_process_stat :: "string \<Rightarrow> linux_process_stat option" where
  "parse_linux_process_stat input =
     (case rsplit_once (CHR '')'') input of
        None \<Rightarrow> None
      | Some (_, rest) \<Rightarrow>
          (let fields = split_whitespace rest; field = (\<lambda>i. Option.bind (nth_opt i fields) parse_u64)
           in case (field 11, field 12, field 19, field 21) of
                (Some user_ticks, Some system_ticks, Some start_time, Some rss) \<Rightarrow>
                  map_option (\<lambda>cpu. \<lparr> st_cpu_ticks = cpu, st_start_time_ticks = start_time, st_rss_pages = rss \<rparr>)
                    (checked_add u64_max user_ticks system_ticks)
              | _ \<Rightarrow> None))"

record resource_sample =
  smp_cpu_time_millis :: nat
  smp_rss_bytes :: nat
  smp_sampled_after_millis :: nat

text \<open>
  One round of the sampler: the file's text (None when it cannot be read) and the milliseconds since
  the start. It ends without a sample when the file is gone or malformed, or when the process id
  belongs to another process.
\<close>

definition sample_round ::
  "nat \<Rightarrow> nat \<Rightarrow> linux_process_stat option \<Rightarrow> string option \<Rightarrow> nat \<Rightarrow>
   (linux_process_stat \<times> resource_sample) option" where
  "sample_round clock_ticks page_size previous text_read elapsed_millis =
     (case Option.bind text_read parse_linux_process_stat of
        None \<Rightarrow> None
      | Some st \<Rightarrow>
          if is_some_and (\<lambda>prior. st_start_time_ticks prior \<noteq> st_start_time_ticks st) previous then None
          else Some (st,
            \<lparr> smp_cpu_time_millis = sat_mul u64_max (st_cpu_ticks st) 1000 div clock_ticks,
              smp_rss_bytes = sat_mul u64_max (st_rss_pages st) page_size,
              smp_sampled_after_millis = min elapsed_millis u64_max \<rparr>))"

fun sample_loop ::
  "nat \<Rightarrow> nat \<Rightarrow> linux_process_stat option \<Rightarrow> (string option \<times> nat) list \<Rightarrow> resource_sample list" where
  "sample_loop clock_ticks page_size previous [] = []"
| "sample_loop clock_ticks page_size previous ((text_read, elapsed) # rounds) =
     (case sample_round clock_ticks page_size previous text_read elapsed of
        None \<Rightarrow> []
      | Some (st, sample) \<Rightarrow> sample # sample_loop clock_ticks page_size (Some st) rounds)"

section \<open>Properties of the capture\<close>

lemma read_bounded_exact:
  assumes "[] \<notin> set chunks" "length (cap_bytes c) \<le> limit"
  shows "read_bounded limit c (map Inr chunks :: ('e + string) list) =
    Inr \<lparr> cap_bytes = take limit (cap_bytes c @ concat chunks),
          cap_limit_exceeded = cap_limit_exceeded c \<or> limit < length (cap_bytes c) + length (concat chunks) \<rparr>"
  using assms
proof (induction chunks arbitrary: c)
  case Nil
  then show ?case by simp
next
  case (Cons k chunks)
  let ?n = "limit - length (cap_bytes c)"
  let ?c = "\<lparr> cap_bytes = cap_bytes c @ take (min ?n (length k)) k,
    cap_limit_exceeded = cap_limit_exceeded c \<or> min ?n (length k) < length k \<rparr>"
  have b: "cap_bytes ?c = take limit (cap_bytes c @ k)" using Cons.prems by (simp add: min_def)
  have "read_bounded limit c (map Inr (k # chunks) :: ('e + string) list) = read_bounded limit ?c (map Inr chunks)"
    using Cons.prems by (auto simp: Let_def)
  also have "\<dots> = Inr \<lparr> cap_bytes = take limit (cap_bytes ?c @ concat chunks),
      cap_limit_exceeded = cap_limit_exceeded ?c \<or> limit < length (cap_bytes ?c) + length (concat chunks) \<rparr>"
    by (rule Cons.IH) (use Cons.prems in \<open>auto simp: min_def\<close>)
  also have "take limit (cap_bytes ?c @ concat chunks) = take limit (cap_bytes c @ concat (k # chunks))"
    unfolding b by (simp add: min_def)
  also have "(cap_limit_exceeded ?c \<or> limit < length (cap_bytes ?c) + length (concat chunks)) =
      (cap_limit_exceeded c \<or> limit < length (cap_bytes c) + length (concat (k # chunks)))"
    using Cons.prems(2) by (auto simp: min_def)
  finally show ?case .
qed

text \<open>
  The capture of a child's output keeps exactly the first bytes up to the limit, however the reads
  split them, reads on to the end of the pipe, and reports excess exactly when there was any.
\<close>

theorem read_bounded_command_output_exact:
  assumes "[] \<notin> set chunks"
  shows "read_bounded_command_output limit (map Inr chunks) =
    Inr \<lparr> cap_bytes = take limit (concat chunks), cap_limit_exceeded = limit < length (concat chunks) \<rparr>"
  using read_bounded_exact [OF assms, of "\<lparr> cap_bytes = [], cap_limit_exceeded = False \<rparr>"]
  by (simp add: read_bounded_command_output_def)

theorem read_bounded_command_output_exact_witness:
  "read_bounded_command_output 3 (map Inr [''ab'', ''cd'']) =
     (Inr \<lparr> cap_bytes = take 3 (concat [''ab'', ''cd'']), cap_limit_exceeded = 3 < length (concat [''ab'', ''cd'']) \<rparr>
      :: nat + bounded_capture)"
  by (rule read_bounded_command_output_exact) simp

section \<open>Properties of the termination\<close>

lemma signal_kill [simp]: "0 < g \<Longrightarrow> fst (signal_process_group g sig a) = [sig]"
  by (simp add: signal_process_group_def)

lemma group_kill_positive [simp]: "0 < g \<Longrightarrow> group_kill (Some g) a = [Sig_Kill]"
  by (simp add: group_kill_def)

text \<open>A reap that returned a status read it from one of its waits.\<close>

definition reap_saw :: "reap_answers \<Rightarrow> exit_status \<Rightarrow> bool" where
  "reap_saw a status \<longleftrightarrow> reap_first_try a = Inr (Some status) \<or> reap_wait a = Inr status \<or> reap_second_try a = Inr (Some status)"

lemma force_kill_and_reap_saw: "force_kill_and_reap a = Inr status \<Longrightarrow> reap_saw a status"
  by (auto simp: force_kill_and_reap_def reap_saw_def split: sum.splits option.splits)

lemma terminate_loop_sound:
  assumes "terminate_loop g status ps = Some (signals, Inr r)" "0 < g"
  shows "(signals = [Sig_Kill] \<or> (\<exists>p \<in> set ps. process_group_exists g (gp_exists p) = Inr False)) \<and>
    (\<forall>s. r = Some s \<longrightarrow> status = Some s \<or> (\<exists>p \<in> set ps. gp_try_wait p = Inr (Some s)))"
  using assms
proof (induction g status ps rule: terminate_loop.induct)
  case (2 g status p ps)
  show ?case
  proof (cases "if status = None then gp_try_wait p else Inr status")
    case (Inl e)
    with 2 show ?thesis by simp
  next
    case (Inr st)
    then have seen: "st = Some s \<Longrightarrow> status = Some s \<or> gp_try_wait p = Inr (Some s)" for s by (auto split: if_splits)
    let ?exists = "case process_group_exists g (gp_exists p) of Inl _ \<Rightarrow> True | Inr b \<Rightarrow> b"
    show ?thesis
    proof (cases "?exists \<and> \<not> gp_expired p")
      case True
      then have "terminate_loop g st ps = Some (signals, Inr r)" using 2 Inr by (auto simp: Let_def split: if_splits)
      with "2.IH" [OF Inr refl] True "2.prems"(2) seen show ?thesis by auto
    next
      case False
      with 2 Inr seen show ?thesis by (auto simp: Let_def split: if_splits sum.splits)
    qed
  qed
qed simp

lemma terminate_loop_error:
  "terminate_loop g status ps = Some (signals, Inl e) \<Longrightarrow> \<exists>p \<in> set ps. gp_try_wait p = Inl e"
  by (induction g status ps rule: terminate_loop.induct) (auto simp: Let_def split: sum.splits if_splits)

lemma terminate_loop_ends:
  "\<exists>p \<in> set ps. gp_expired p \<Longrightarrow> terminate_loop g status ps \<noteq> None"
proof (induction g status ps rule: terminate_loop.induct)
  case (2 g status p ps)
  show ?case
  proof (cases "if status = None then gp_try_wait p else Inr status")
    case (Inl e)
    then show ?thesis by simp
  next
    case (Inr st)
    show ?thesis
    proof (cases "gp_expired p \<or> process_group_exists g (gp_exists p) = Inr False")
      case True
      with Inr show ?thesis by (auto simp: Let_def split: sum.split)
    next
      case False
      then have ex: "\<exists>p \<in> set ps. gp_expired p" using "2.prems" by auto
      have "terminate_loop g st ps \<noteq> None" using "2.IH" [OF Inr refl] False ex
        by (cases "process_group_exists g (gp_exists p)") auto
      with Inr False show ?thesis by (auto simp: Let_def split: sum.split)
    qed
  qed
qed simp

text \<open>What the end of a group is read from: it was seen to be gone, or a \<open>SIGKILL\<close> was sent to it.\<close>

definition group_ended :: "int \<Rightarrow> terminate_answers \<Rightarrow> signal list \<Rightarrow> bool" where
  "group_ended g a signals \<longleftrightarrow> Sig_Kill \<in> set signals \<or> (\<exists>p \<in> set (ta_polls a). process_group_exists g (gp_exists p) = Inr False)"

lemma terminate_outcome:
  assumes "0 < g" "terminate_process_group (Some g) a = Some (signals, r)"
  shows "case r of
      Inr status \<Rightarrow> group_ended g a signals \<and>
        (ta_first_try a = Inr (Some status) \<or> (\<exists>p \<in> set (ta_polls a). gp_try_wait p = Inr (Some status)) \<or> reap_saw (ta_reap a) status)
    | Inl e \<Rightarrow> ta_first_try a = Inl e \<or> (\<exists>p \<in> set (ta_polls a). gp_try_wait p = Inl e) \<or>
        force_kill_and_reap (ta_reap a) = Inl e \<and> group_ended g a signals"
proof (cases "ta_first_try a = Inr None")
  case False
  then show ?thesis using assms
    by (cases "ta_first_try a") (auto simp: terminate_process_group_def group_ended_def opt_filter_def)
next
  case running: True
  obtain sent t where sigterm: "signal_process_group g Sig_Term (ta_term a) = (sent, t)" by fastforce
  show ?thesis
  proof (cases t)
    case (Inl e)
    then have "signals = sent @ [Sig_Kill]" "r = force_kill_and_reap (ta_reap a)"
      using assms running sigterm by (auto simp: terminate_process_group_def)
    then show ?thesis using force_kill_and_reap_saw [of "ta_reap a"] by (auto simp: group_ended_def split: sum.split)
  next
    case (Inr u)
    obtain sg lr where loop: "terminate_loop g None (ta_polls a) = Some (sg, lr)" "signals = sent @ sg"
        and r: "r = (case lr of Inl e \<Rightarrow> Inl e | Inr (Some status) \<Rightarrow> Inr status | Inr None \<Rightarrow> force_kill_and_reap (ta_reap a))"
      using assms running sigterm Inr by (auto simp: terminate_process_group_def)
    show ?thesis
    proof (cases lr)
      case (Inl e)
      then show ?thesis using terminate_loop_error [of g None "ta_polls a" sg e] loop r by auto
    next
      case (Inr status)
      with terminate_loop_sound [of g None "ta_polls a" sg status] loop assms(1)
      have "group_ended g a signals" "\<And>s. status = Some s \<Longrightarrow> \<exists>p \<in> set (ta_polls a). gp_try_wait p = Inr (Some s)"
        by (auto simp: group_ended_def)
      then show ?thesis using r Inr force_kill_and_reap_saw [of "ta_reap a"]
        by (cases status; cases "force_kill_and_reap (ta_reap a)") auto
    qed
  qed
qed

text \<open>
  C39. Stopping a process group with a positive id. The call ends once a poll falls after the grace period. When it
  returns a status, a wait for the leader gave that status (so the leader is reaped), and the group was seen
  to be gone or a \<open>SIGKILL\<close> was sent to it. When it returns an error, a wait polled for the leader failed
  (the group may then have got \<open>SIGTERM\<close> only, and the child is still held), or the final forced reap failed after
  the group was gone or sent \<open>SIGKILL\<close>. A leader and group that are gone at the first poll after \<open>SIGTERM\<close> get no \<open>SIGKILL\<close>.
\<close>

theorem terminate_process_group_complete:
  assumes "0 < g"
  shows "((\<exists>p \<in> set (ta_polls a). gp_expired p) \<longrightarrow> (\<exists>signals r. terminate_process_group (Some g) a = Some (signals, r))) \<and>
    (\<forall>signals status. terminate_process_group (Some g) a = Some (signals, Inr status) \<longrightarrow>
      (Sig_Kill \<in> set signals \<or> (\<exists>p \<in> set (ta_polls a). process_group_exists g (gp_exists p) = Inr False)) \<and>
      (ta_first_try a = Inr (Some status) \<or> (\<exists>p \<in> set (ta_polls a). gp_try_wait p = Inr (Some status)) \<or> reap_saw (ta_reap a) status)) \<and>
    (\<forall>signals e. terminate_process_group (Some g) a = Some (signals, Inl e) \<longrightarrow>
      ta_first_try a = Inl e \<or> (\<exists>p \<in> set (ta_polls a). gp_try_wait p = Inl e) \<or>
      force_kill_and_reap (ta_reap a) = Inl e \<and>
        (Sig_Kill \<in> set signals \<or> (\<exists>p \<in> set (ta_polls a). process_group_exists g (gp_exists p) = Inr False))) \<and>
    (ta_first_try a = Inr None \<and> ta_term a = Kill_Ok \<and> ta_polls a = p # ps \<and>
       gp_try_wait p = Inr (Some st) \<and> gp_exists p = Kill_No_Such_Process \<longrightarrow>
      terminate_process_group (Some g) a = Some ([Sig_Term], Inr st))"
proof (intro conjI impI allI)
  assume "\<exists>p \<in> set (ta_polls a). gp_expired p"
  from terminate_loop_ends [OF this] have "terminate_process_group (Some g) a \<noteq> None"
    using assms by (auto simp: terminate_process_group_def split: sum.split option.split prod.split)
  then show "\<exists>signals r. terminate_process_group (Some g) a = Some (signals, r)" by auto
next
  fix signals status
  assume "terminate_process_group (Some g) a = Some (signals, Inr status)"
  from terminate_outcome [OF assms this]
  show "Sig_Kill \<in> set signals \<or> (\<exists>p \<in> set (ta_polls a). process_group_exists g (gp_exists p) = Inr False)"
    and "ta_first_try a = Inr (Some status) \<or> (\<exists>p \<in> set (ta_polls a). gp_try_wait p = Inr (Some status)) \<or> reap_saw (ta_reap a) status"
    by (simp_all add: group_ended_def)
next
  fix signals e
  assume "terminate_process_group (Some g) a = Some (signals, Inl e)"
  from terminate_outcome [OF assms this]
  show "ta_first_try a = Inl e \<or> (\<exists>p \<in> set (ta_polls a). gp_try_wait p = Inl e) \<or>
      force_kill_and_reap (ta_reap a) = Inl e \<and>
        (Sig_Kill \<in> set signals \<or> (\<exists>p \<in> set (ta_polls a). process_group_exists g (gp_exists p) = Inr False))"
    by (simp add: group_ended_def)
next
  assume "ta_first_try a = Inr None \<and> ta_term a = Kill_Ok \<and> ta_polls a = p # ps \<and>
      gp_try_wait p = Inr (Some st) \<and> gp_exists p = Kill_No_Such_Process"
  then show "terminate_process_group (Some g) a = Some ([Sig_Term], Inr st)"
    using assms by (simp add: terminate_process_group_def signal_process_group_def process_group_exists_def)
qed

definition sample_reap :: reap_answers where
  "sample_reap = \<lparr> reap_first_try = Inr None, reap_kill = Inr (), reap_second_try = Inr None,
     reap_wait = Inr \<lparr> exit_code = None, exit_success = False \<rparr> \<rparr>"

definition stubborn_group :: terminate_answers where
  "stubborn_group = \<lparr> ta_first_try = Inr None, ta_first_kill = Kill_Ok, ta_term = Kill_Ok,
     ta_polls = [\<lparr> gp_try_wait = Inr None, gp_exists = Kill_Ok, gp_expired = False, gp_kill = Kill_Ok \<rparr>,
                 \<lparr> gp_try_wait = Inr None, gp_exists = Kill_Ok, gp_expired = True, gp_kill = Kill_Ok \<rparr>],
     ta_reap = sample_reap \<rparr>"

theorem terminate_process_group_complete_witness:
  "\<exists>signals status. terminate_process_group (Some 42) stubborn_group = Some (signals, Inr status) \<and>
     Sig_Kill \<in> set signals \<and> reap_saw sample_reap status"
proof -
  have positive: "0 < (42 :: int)" by simp
  note complete = terminate_process_group_complete [OF positive, of stubborn_group]
  have "\<exists>p \<in> set (ta_polls stubborn_group). gp_expired p" by (simp add: stubborn_group_def)
  with complete [THEN conjunct1] obtain signals r where run: "terminate_process_group (Some 42) stubborn_group = Some (signals, r)" by blast
  then have r: "r = Inr \<lparr> exit_code = None, exit_success = False \<rparr>"
    by (auto simp: terminate_process_group_def stubborn_group_def sample_reap_def signal_process_group_def
        process_group_exists_def force_kill_and_reap_def)
  note complete [THEN conjunct2, THEN conjunct1, rule_format, OF run [unfolded r]]
  then have "Sig_Kill \<in> set signals" "reap_saw sample_reap \<lparr> exit_code = None, exit_success = False \<rparr>"
    by (simp_all add: stubborn_group_def process_group_exists_def)
  with run r show ?thesis by blast
qed

text \<open>
  A bounded command never leaves a descendant behind: on every path, success, wait error, timeout or
  failed cleanup, the last thing the call sends to the child's process group is \<open>SIGKILL\<close>, and a
  returned output is within its limits.
\<close>

theorem run_bounded_command_output_kills_group:
  assumes "0 < g" "run_bounded_command_output opts (Some g) child_wait a kill readers = Some (signals, r)"
  shows "Sig_Kill \<in> set signals \<and> last signals = Sig_Kill \<and>
    (\<forall>status out err. r = Inr (status, out, err) \<longrightarrow>
       child_wait = In_Time (Inr status) \<and>
       readers = In_Time (Inr \<lparr> cap_bytes = out, cap_limit_exceeded = False \<rparr>,
                          Inr \<lparr> cap_bytes = err, cap_limit_exceeded = False \<rparr>))"
proof -
  have t: "held = Some g \<or> (held = None \<and> s \<noteq> [] \<and> last s = Sig_Kill)"
    if "terminate_and_reap (Some g) a kill = Some (s, held, x)" for s held x
  proof -
    obtain sg rr where "terminate_process_group (Some g) a = Some (sg, rr)"
      using \<open>terminate_and_reap (Some g) a kill = Some (s, held, x)\<close> by (auto simp: terminate_and_reap_def)
    then show ?thesis using that assms(1) by (cases rr) (auto simp: terminate_and_reap_def)
  qed
  show ?thesis
  proof (cases "child_wait = Deadline_Passed \<or> (\<exists>e. child_wait = In_Time (Inl e))")
    case True
    then obtain s held x where h: "terminate_and_reap (Some g) a kill = Some (s, held, x)"
      using assms(2) by (auto simp: run_bounded_command_output_def)
    moreover have "signals = s @ group_kill held kill" "\<forall>v. r \<noteq> Inr v"
      using assms(2) True by (cases x; auto simp: run_bounded_command_output_def h)+
    ultimately show ?thesis
      using t [OF h] assms(1) by (auto simp: group_kill_def) (metis last_in_set)
  next
    case False
    then obtain status where "child_wait = In_Time (Inr status)"
      by (cases child_wait) (auto, metis sum.exhaust)
    then show ?thesis
      using assms
      by (auto simp: run_bounded_command_output_def check_captures_def split: timed.splits sum.splits if_splits)
  qed
qed

theorem run_bounded_command_output_kills_group_witness:
  "\<exists>signals r. run_bounded_command_output (capture_options_new 1000 10 10) (Some 42) Deadline_Passed
      stubborn_group Kill_Ok Deadline_Passed = Some (signals, r) \<and> last signals = Sig_Kill"
proof -
  obtain signals r where t: "run_bounded_command_output (capture_options_new 1000 10 10) (Some 42) Deadline_Passed
      stubborn_group Kill_Ok Deadline_Passed = Some (signals, r)"
    by (simp add: run_bounded_command_output_def terminate_and_reap_def terminate_process_group_def
        stubborn_group_def sample_reap_def signal_process_group_def process_group_exists_def
        force_kill_and_reap_def)
  with run_bounded_command_output_kills_group [of 42] show ?thesis by fastforce
qed

section \<open>Properties of the owned process\<close>

text \<open>
  Once a process has been waited for or stopped, its exit is remembered and its group id is gone:
  waiting or stopping again gives the same exit, and neither that nor dropping the handle sends a
  signal, so a reused process id is never hit.
\<close>

theorem process_stop_final:
  assumes "process_stop a kill reader p = Some (q, signals, Inr status)" "tp_exit p = None"
  shows "tp_exit q = Some status \<and> process_drop kill' q = [] \<and>
    process_wait w kill' reader' q = (q, [], Inr status) \<and>
    process_stop a' kill' reader' q = Some (q, [], Inr status)"
proof -
  have c: "tp_child p" using assms by (auto simp: process_stop_def split: if_splits)
  with assms obtain s x where t: "terminate_process_group (tp_group p) a = Some (s, x)"
    by (auto simp: process_stop_def)
  then obtain st where "x = Inr st" using assms c by (cases x) (auto simp: process_stop_def)
  with t assms c show ?thesis
    by (auto simp: process_stop_def finish_process_def process_drop_def process_wait_def Let_def
        split: if_splits sum.splits)
qed

definition running_process :: transcode_process where
  "running_process = \<lparr> tp_child = True, tp_group = Some 42, tp_stderr_task = True,
     tp_resource_task = True, tp_exit = None \<rparr>"

theorem process_stop_final_witness:
  "\<exists>q signals status. process_stop stubborn_group Kill_Ok (Inr ()) running_process = Some (q, signals, Inr status) \<and>
     process_drop Kill_Ok q = []"
proof -
  obtain q signals status where t: "process_stop stubborn_group Kill_Ok (Inr ()) running_process =
      Some (q, signals, Inr status)"
    by (simp add: process_stop_def running_process_def terminate_process_group_def stubborn_group_def
        sample_reap_def signal_process_group_def process_group_exists_def force_kill_and_reap_def
        finish_process_def Let_def)
  from process_stop_final [OF t] t show ?thesis by (fastforce simp: running_process_def)
qed

text \<open>
  The command name of a process cannot falsify its statistics: whatever bytes it contains,
  parentheses and spaces included, the parsed numbers depend only on the text after it.
\<close>

theorem parse_linux_process_stat_name_irrelevant:
  assumes "CHR '')'' \<notin> set rest"
  shows "parse_linux_process_stat (name1 @ CHR '')'' # rest) = parse_linux_process_stat (name2 @ CHR '')'' # rest)"
proof -
  have "map_option snd (rsplit_once (CHR '')'') (name @ CHR '')'' # rest)) = Some rest" for name
    using assms split_once_append [of "CHR '')''" "rev rest" "rev name"] by (simp add: rsplit_once_def)
  then show ?thesis
    by (smt (verit, best) map_option_eq_Some option.case(2) parse_linux_process_stat_def prod.case_eq_if)
qed

theorem parse_linux_process_stat_name_irrelevant_witness:
  "parse_linux_process_stat (''7 (a) R 1 '' @ CHR '')'' # '' S 1'') = parse_linux_process_stat (''7 (b'' @ CHR '')'' # '' S 1'')"
  by (rule parse_linux_process_stat_name_irrelevant) simp

end
