(* ===== verification/Auth.thy ===== *)
theory Auth
  imports Media_Paths
begin

text \<open>
  Authentication of the API, \<open>crates/jellyrin-api/src/errors.rs\<close>, \<open>auth.rs\<close> and the lockout registry
  of \<open>auth_handlers.rs\<close> (lines 209--322; its state is in \<open>lib.rs\<close> 1278--1290).

  The database lookups are fields of \<open>auth_db\<close>. Request headers are a function from the lower-case
  name to the value: the outer option is the header's presence, the inner one is None when the
  value is not visible ASCII (\<open>to_str\<close> of the \<open>http\<close> package).
\<close>

section \<open>Errors\<close>

datatype api_status = Bad_Request | Unauthorized | Forbidden | Api_Not_Found | Conflict
  | Too_Many_Requests | Internal_Server_Error | Service_Unavailable

record api_error =
  err_status :: api_status
  err_message :: string

definition api_err :: "api_status \<Rightarrow> string \<Rightarrow> api_error" where
  "api_err status message = \<lparr> err_status = status, err_message = message \<rparr>"

definition bad_request :: "string \<Rightarrow> api_error" where "bad_request m = api_err Bad_Request m"
definition unauthorized :: "string \<Rightarrow> api_error" where "unauthorized m = api_err Unauthorized m"
definition forbidden :: "string \<Rightarrow> api_error" where "forbidden m = api_err Forbidden m"
definition not_found :: "string \<Rightarrow> api_error" where "not_found m = api_err Api_Not_Found m"
definition conflict :: "string \<Rightarrow> api_error" where "conflict m = api_err Conflict m"
definition service_unavailable :: "string \<Rightarrow> api_error" where
  "service_unavailable m = api_err Service_Unavailable m"
definition internal :: "string \<Rightarrow> api_error" where "internal m = api_err Internal_Server_Error m"

lemmas api_err_defs = api_err_def bad_request_def unauthorized_def forbidden_def not_found_def
  conflict_def service_unavailable_def internal_def

section \<open>The authorization header\<close>

definition hex_value :: "char \<Rightarrow> nat option" where
  "hex_value c =
     (if is_digit c then Some (byte c - 48)
      else if byte_in 97 102 c then Some (byte c - 97 + 10)
      else if byte_in 65 70 c then Some (byte c - 65 + 10)
      else None)"

fun decode_bytes :: "string \<Rightarrow> string" where
  "decode_bytes [] = []"
| "decode_bytes (c # cs) =
     (if c = CHR ''+'' then CHR '' '' # decode_bytes cs
      else if c = CHR ''%'' \<and> 2 \<le> length cs then
        (case (hex_value (cs ! 0), hex_value (cs ! 1)) of
           (Some high, Some low) \<Rightarrow> char_of (16 * high + low) # decode_bytes (drop 2 cs)
         | _ \<Rightarrow> c # decode_bytes cs)
      else c # decode_bytes cs)"

definition decode_media_browser_value :: "string \<Rightarrow> string" where
  "decode_media_browser_value v = (let d = decode_bytes v in if utf8_valid d then d else v)"

definition parse_media_browser_pairs :: "string \<Rightarrow> (string \<times> string) list" where
  "parse_media_browser_pairs header =
     (let payload = unwrap_or header
            (opt_or (strip_prefix ''MediaBrowser '' header) (strip_prefix ''Emby '' header))
      in List.map_filter
           (\<lambda>part. map_option
              (\<lambda>(key, v). (to_ascii_lowercase (trim key),
                 decode_media_browser_value (trim_char (char_of (34::nat)) (trim v))))
              (split_once (CHR ''='') (trim part)))
           (split_on (CHR '','') payload))"

definition parse_authorization_token :: "string \<Rightarrow> string option" where
  "parse_authorization_token header =
     find_map (\<lambda>(key, v). if key = ''token'' then Some v else None) (parse_media_browser_pairs header)"

type_synonym headers = "string \<Rightarrow> string option option"

definition bearer_token :: "headers \<Rightarrow> string option" where
  "bearer_token h =
     opt_or
       (find_map (\<lambda>name. opt_filter (\<lambda>v. v \<noteq> []) (Option.bind (h name) id))
          [''x-emby-token'', ''x-mediabrowser-token''])
       (Option.bind (Option.bind (opt_or (h ''authorization'') (h ''x-emby-authorization'')) id)
          parse_authorization_token)"

record client_auth =
  ca_client :: string
  ca_device :: string
  ca_device_id :: string
  ca_version :: string

definition set_client_field :: "client_auth \<Rightarrow> string \<times> string \<Rightarrow> client_auth" where
  "set_client_field a kv =
     (let (key, v) = kv
      in if key = ''client'' then a\<lparr> ca_client := v \<rparr>
         else if key = ''device'' then a\<lparr> ca_device := v \<rparr>
         else if key = ''deviceid'' then a\<lparr> ca_device_id := v \<rparr>
         else if key = ''version'' then a\<lparr> ca_version := v \<rparr>
         else a)"

definition client_auth_from_headers :: "string \<Rightarrow> string \<Rightarrow> headers \<Rightarrow> client_auth" where
  "client_auth_from_headers fresh_id package_version h =
     (let start = \<lparr> ca_client = ''Jellyfin Web'', ca_device = ''Browser'', ca_device_id = fresh_id,
            ca_version = package_version \<rparr>
      in case Option.bind (opt_or (h ''authorization'') (h ''x-emby-authorization'')) id of
           None \<Rightarrow> start
         | Some header \<Rightarrow> foldl set_client_field start (parse_media_browser_pairs header))"

section \<open>Requiring a user\<close>

record auth_db =
  db_user_by_token :: "string \<Rightarrow> (user \<times> device_token) option"
  db_user_by_api_key :: "string \<Rightarrow> (user \<times> device_token) option"
  db_startup_completed :: "api_error + bool"

definition require_user :: "auth_db \<Rightarrow> headers \<Rightarrow> string option \<Rightarrow> api_error + user \<times> device_token" where
  "require_user db h query_token =
     (case opt_or (bearer_token h) query_token of
        None \<Rightarrow> Inl (unauthorized ''Missing token'')
      | Some token \<Rightarrow>
          (case opt_or (db_user_by_token db token) (db_user_by_api_key db token) of
             Some auth \<Rightarrow> Inr auth
           | None \<Rightarrow> Inl (unauthorized ''Invalid token'')))"

definition require_request_user :: "auth_db \<Rightarrow> headers \<Rightarrow> string option \<Rightarrow> api_error + user" where
  "require_request_user db h q = (case require_user db h q of Inl e \<Rightarrow> Inl e | Inr (u, _) \<Rightarrow> Inr u)"

definition require_admin :: "auth_db \<Rightarrow> headers \<Rightarrow> string option \<Rightarrow> api_error + user" where
  "require_admin db h q =
     (case require_request_user db h q of
        Inl e \<Rightarrow> Inl e
      | Inr u \<Rightarrow> if user_is_administrator u then Inr u
                 else Inl (forbidden ''Administrator access required''))"

definition require_admin_session :: "auth_db \<Rightarrow> headers \<Rightarrow> string option \<Rightarrow> api_error + user \<times> string" where
  "require_admin_session db h q =
     (case require_user db h q of
        Inl e \<Rightarrow> Inl e
      | Inr (u, t) \<Rightarrow> if user_is_administrator u then Inr (u, token_access_token t)
                      else Inl (forbidden ''Administrator access required''))"

definition ensure_user_access :: "user \<Rightarrow> uuid \<Rightarrow> api_error + unit" where
  "ensure_user_access u requested =
     (if user_id u = requested \<or> user_is_administrator u then Inr ()
      else Inl (forbidden ''User access denied''))"

definition require_admin_or_startup_incomplete_user ::
  "auth_db \<Rightarrow> headers \<Rightarrow> string option \<Rightarrow> api_error + user option" where
  "require_admin_or_startup_incomplete_user db h q =
     (case db_startup_completed db of
        Inl e \<Rightarrow> Inl e
      | Inr completed \<Rightarrow>
          if \<not> completed then Inr None
          else (case require_admin db h q of Inl e \<Rightarrow> Inl e | Inr u \<Rightarrow> Inr (Some u)))"

definition require_admin_or_startup_incomplete ::
  "auth_db \<Rightarrow> headers \<Rightarrow> string option \<Rightarrow> api_error + unit" where
  "require_admin_or_startup_incomplete db h q =
     (case require_admin_or_startup_incomplete_user db h q of Inl e \<Rightarrow> Inl e | Inr _ \<Rightarrow> Inr ())"

definition require_user_or_startup_incomplete ::
  "auth_db \<Rightarrow> headers \<Rightarrow> string option \<Rightarrow> api_error + unit" where
  "require_user_or_startup_incomplete db h q =
     (case db_startup_completed db of
        Inl e \<Rightarrow> Inl e
      | Inr completed \<Rightarrow>
          if \<not> completed then Inr ()
          else (case require_request_user db h q of Inl e \<Rightarrow> Inl e | Inr _ \<Rightarrow> Inr ()))"

definition require_startup_wizard_incomplete :: "auth_db \<Rightarrow> api_error + unit" where
  "require_startup_wizard_incomplete db =
     (case db_startup_completed db of
        Inl e \<Rightarrow> Inl e
      | Inr completed \<Rightarrow>
          if completed then Inl (forbidden ''Startup wizard is already complete'') else Inr ())"

section \<open>The lockout registry\<close>

record failure_state =
  fs_failures :: nat
  fs_locked_until :: "nat option"
  fs_last_failure :: nat

record failure_registry =
  fr_entries :: "(string, failure_state) hmap"
  fr_operations_since_prune :: nat

definition failure_registry_new :: failure_registry where
  "failure_registry_new = \<lparr> fr_entries = [], fr_operations_since_prune = 0 \<rparr>"

definition auth_lockout_key :: "string \<Rightarrow> string \<Rightarrow> string" where
  "auth_lockout_key kind v = kind @ '':'' @ to_ascii_lowercase (trim v)"

definition auth_failure_expired :: "failure_state \<Rightarrow> nat \<Rightarrow> bool" where
  "auth_failure_expired s now =
     (case fs_locked_until s of
        Some locked_until \<Rightarrow> locked_until \<le> now
      | None \<Rightarrow> sat_add u64_max (fs_last_failure s) 900 \<le> now)"

definition prune_auth_failures :: "nat \<Rightarrow> failure_registry \<Rightarrow> failure_registry" where
  "prune_auth_failures now r =
     r\<lparr> fr_entries := hm_retain (\<lambda>_ s. \<not> auth_failure_expired s now) (fr_entries r),
        fr_operations_since_prune := 0 \<rparr>"

definition maintain_auth_failure_registry :: "nat \<Rightarrow> bool \<Rightarrow> failure_registry \<Rightarrow> failure_registry" where
  "maintain_auth_failure_registry now force r =
     (let r = r\<lparr> fr_operations_since_prune := sat_add usize_max (fr_operations_since_prune r) 1 \<rparr>
      in if force \<or> 64 \<le> fr_operations_since_prune r then prune_auth_failures now r else r)"

definition remove_expired_auth_failure :: "string \<Rightarrow> nat \<Rightarrow> failure_registry \<Rightarrow> failure_registry" where
  "remove_expired_auth_failure key now r =
     (if is_some_and (\<lambda>s. auth_failure_expired s now) (map_of (fr_entries r) key)
      then r\<lparr> fr_entries := hm_remove key (fr_entries r) \<rparr> else r)"

definition registry_full_for :: "string \<Rightarrow> nat \<Rightarrow> failure_registry \<Rightarrow> bool" where
  "registry_full_for key max_entries r \<longleftrightarrow>
     \<not> hm_contains key (fr_entries r) \<and> max_entries \<le> length (fr_entries r)"

definition prepare_registry :: "string \<Rightarrow> nat \<Rightarrow> nat \<Rightarrow> failure_registry \<Rightarrow> failure_registry" where
  "prepare_registry key now max_entries r =
     (let r = remove_expired_auth_failure key now r
      in maintain_auth_failure_registry now (registry_full_for key max_entries r) r)"

definition auth_attempt_is_limited ::
  "string \<Rightarrow> nat \<Rightarrow> nat \<Rightarrow> failure_registry \<Rightarrow> failure_registry \<times> bool" where
  "auth_attempt_is_limited key now max_entries r =
     (let r = prepare_registry key now max_entries r
      in (r, is_some_and (\<lambda>locked_until. now < locked_until)
               (Option.bind (map_of (fr_entries r) key) fs_locked_until) \<or>
             registry_full_for key max_entries r))"

definition record_auth_failure_in_registry ::
  "string \<Rightarrow> nat \<Rightarrow> nat \<Rightarrow> failure_registry \<Rightarrow> failure_registry \<times> bool" where
  "record_auth_failure_in_registry key now max_entries r =
     (let r = prepare_registry key now max_entries r
      in if registry_full_for key max_entries r then (r, False)
         else
           (let s = unwrap_or \<lparr> fs_failures = 0, fs_locked_until = None, fs_last_failure = now \<rparr>
                      (map_of (fr_entries r) key);
                failures = sat_add u32_max (fs_failures s) 1;
                s = s\<lparr> fs_failures := failures, fs_last_failure := now,
                       fs_locked_until :=
                         (if 5 \<le> failures then Some (sat_add u64_max now 60) else fs_locked_until s) \<rparr>
            in (r\<lparr> fr_entries := hm_insert key s (fr_entries r) \<rparr>, True)))"

definition clear_auth_failure :: "string \<Rightarrow> failure_registry \<Rightarrow> failure_registry" where
  "clear_auth_failure key r = r\<lparr> fr_entries := hm_remove key (fr_entries r) \<rparr>"

definition ensure_auth_not_locked ::
  "string \<Rightarrow> nat \<Rightarrow> nat \<Rightarrow> failure_registry \<Rightarrow> failure_registry \<times> (api_error + unit)" where
  "ensure_auth_not_locked key now max_entries r =
     (case auth_attempt_is_limited key now max_entries r of
        (r, limited) \<Rightarrow>
          (r, if limited then Inl (api_err Too_Many_Requests ''Too many failed login attempts'') else Inr ()))"

text \<open>The critical sections of the registry as one operation type.\<close>

datatype lockout_op = Attempt string nat | Failure string nat | Success string

fun lockout_step :: "nat \<Rightarrow> failure_registry \<Rightarrow> lockout_op \<Rightarrow> failure_registry" where
  "lockout_step max_entries r (Attempt key now) = fst (auth_attempt_is_limited key now max_entries r)"
| "lockout_step max_entries r (Failure key now) = fst (record_auth_failure_in_registry key now max_entries r)"
| "lockout_step max_entries r (Success key) = clear_auth_failure key r"

section \<open>The registry stays bounded\<close>

definition registry_ok :: "nat \<Rightarrow> failure_registry \<Rightarrow> bool" where
  "registry_ok max_entries r \<longleftrightarrow> hm_ok (fr_entries r) \<and> length (fr_entries r) \<le> max_entries"

lemma length_hm_retain: "length (hm_retain P m) \<le> length m"
  by (simp add: hm_retain_def)

lemma registry_ok_clear [simp]: "registry_ok n r \<Longrightarrow> registry_ok n (clear_auth_failure key r)"
  by (auto simp: registry_ok_def clear_auth_failure_def length_hm_remove)

lemma registry_ok_prepare [simp]: "registry_ok n r \<Longrightarrow> registry_ok n (prepare_registry key now m r)"
  by (auto simp: registry_ok_def prepare_registry_def remove_expired_auth_failure_def Let_def
      maintain_auth_failure_registry_def prune_auth_failures_def length_hm_remove
      intro: order_trans [OF length_hm_retain] order_trans [OF diff_le_self])

lemma registry_ok_step: "registry_ok n r \<Longrightarrow> registry_ok n (lockout_step n r op)"
proof (cases op)
  case (Failure key now)
  assume ok: "registry_ok n r"
  let ?r = "prepare_registry key now n r"
  have "registry_ok n ?r" using ok by simp
  then show ?thesis
    using Failure by (auto simp: record_auth_failure_in_registry_def Let_def registry_ok_def
        registry_full_for_def length_hm_insert)
qed (auto simp: auth_attempt_is_limited_def Let_def)

lemma registry_ok_run: "registry_ok n r \<Longrightarrow> registry_ok n (foldl (lockout_step n) r ops)"
  by (induction ops arbitrary: r) (auto intro: registry_ok_step)


section \<open>Five failures lock a key\<close>

text \<open>
  \<open>counting key T m r\<close>: the entry of \<open>key\<close> has seen at least \<open>min 5 m\<close> failures, the last of them
  not before \<open>T\<close>, and is locked past \<open>T + 60\<close> once there are five.
\<close>

definition counting :: "string \<Rightarrow> nat \<Rightarrow> nat \<Rightarrow> failure_registry \<Rightarrow> bool" where
  "counting key T m r \<longleftrightarrow>
     hm_ok (fr_entries r) \<and>
     (\<exists>s. map_of (fr_entries r) key = Some s \<and> min 5 m \<le> fs_failures s \<and> T \<le> fs_last_failure s \<and>
          (5 \<le> fs_failures s \<longrightarrow> fs_locked_until s \<noteq> None) \<and>
          (\<forall>u. fs_locked_until s = Some u \<longrightarrow> sat_add u64_max T 60 \<le> u))"

definition locks_counted :: "failure_registry \<Rightarrow> bool" where
  "locks_counted r \<longleftrightarrow> (\<forall>(k, s) \<in> set (fr_entries r). fs_locked_until s \<noteq> None \<longrightarrow> 5 \<le> fs_failures s)"

definition in_window :: "nat \<Rightarrow> nat \<Rightarrow> bool" where
  "in_window T now \<longleftrightarrow> T \<le> now \<and> now < sat_add u64_max T 60"

fun op_in_window :: "string \<Rightarrow> nat \<Rightarrow> lockout_op \<Rightarrow> bool" where
  "op_in_window key T (Attempt _ now) = in_window T now"
| "op_in_window key T (Failure _ now) = in_window T now"
| "op_in_window key T (Success k) = (k \<noteq> key)"

fun is_failure_of :: "string \<Rightarrow> lockout_op \<Rightarrow> bool" where
  "is_failure_of key (Failure k _) = (k = key)"
| "is_failure_of key _ = False"

lemma counting_not_expired:
  "in_window T now \<Longrightarrow> T \<le> fs_last_failure s \<Longrightarrow>
   (\<forall>u. fs_locked_until s = Some u \<longrightarrow> sat_add u64_max T 60 \<le> u) \<Longrightarrow> \<not> auth_failure_expired s now"
  by (auto simp: auth_failure_expired_def in_window_def sat_add_def split: option.splits)

lemma counting_prepare:
  assumes "counting key T m r" "in_window T now"
  shows "counting key T m (prepare_registry k now n r)"
proof -
  from assms obtain s where s: "hm_ok (fr_entries r)" "map_of (fr_entries r) key = Some s"
      "min 5 m \<le> fs_failures s" "T \<le> fs_last_failure s"
      "5 \<le> fs_failures s \<longrightarrow> fs_locked_until s \<noteq> None"
      "\<forall>u. fs_locked_until s = Some u \<longrightarrow> sat_add u64_max T 60 \<le> u"
    by (auto simp: counting_def)
  have live: "\<not> auth_failure_expired s now" using assms s by (intro counting_not_expired)
  let ?r = "remove_expired_auth_failure k now r"
  have r: "hm_ok (fr_entries ?r)" "map_of (fr_entries ?r) key = Some s"
    using s live by (auto simp: remove_expired_auth_failure_def)
  have "counting key T m (maintain_auth_failure_registry now f ?r)" for f
    unfolding counting_def maintain_auth_failure_registry_def prune_auth_failures_def Let_def
    using r s live by (simp add: map_of_hm_retain del: split_paired_Ex)
  then show ?thesis by (simp add: prepare_registry_def Let_def)
qed

lemma counting_not_full: "counting key T m r \<Longrightarrow> \<not> registry_full_for key n r"
  by (auto simp: counting_def registry_full_for_def hm_contains_def)

lemma counting_failure:
  assumes "counting key T m r" "in_window T now"
  shows "counting key T (Suc m) (fst (record_auth_failure_in_registry key now n r))"
proof -
  let ?r = "prepare_registry key now n r"
  have c: "counting key T m ?r" using assms by (rule counting_prepare)
  then obtain s where s: "map_of (fr_entries ?r) key = Some s" "min 5 m \<le> fs_failures s"
      "hm_ok (fr_entries ?r)" "\<forall>u. fs_locked_until s = Some u \<longrightarrow> sat_add u64_max T 60 \<le> u"
    by (auto simp: counting_def)
  moreover have "sat_add u64_max T 60 \<le> sat_add u64_max now 60" "T \<le> now"
    using assms by (auto simp: in_window_def sat_add_def)
  ultimately show ?thesis using counting_not_full [OF c]
    by (auto simp: record_auth_failure_in_registry_def Let_def counting_def sat_add_def)
qed

lemma counting_other_failure:
  assumes "counting key T m r" "in_window T now" "k \<noteq> key"
  shows "counting key T m (fst (record_auth_failure_in_registry k now n r))"
  using counting_prepare [OF assms(1,2), of k n] assms(3)
  by (auto simp: record_auth_failure_in_registry_def Let_def counting_def)

lemma counting_step:
  assumes "counting key T m r" "op_in_window key T op"
  shows "counting key T (if is_failure_of key op then Suc m else m) (lockout_step n r op)"
proof (cases op)
  case (Attempt k now)
  with assms show ?thesis by (simp add: auth_attempt_is_limited_def Let_def counting_prepare)
next
  case (Failure k now)
  with assms show ?thesis by (cases "k = key") (auto simp: counting_failure counting_other_failure)
next
  case (Success k)
  with assms show ?thesis by (auto simp: clear_auth_failure_def counting_def)
qed

lemma counting_run:
  "counting key T m r \<Longrightarrow> \<forall>op \<in> set ops. op_in_window key T op \<Longrightarrow>
   counting key T (m + length (filter (is_failure_of key) ops)) (foldl (lockout_step n) r ops)"
proof (induction ops arbitrary: r m)
  case (Cons op ops)
  from Cons.IH [OF counting_step [OF Cons.prems(1), of op n]] Cons.prems(2) show ?case
    by (cases "is_failure_of key op") auto
qed simp

lemma locks_counted_subset:
  "set (fr_entries r') \<subseteq> set (fr_entries r) \<Longrightarrow> locks_counted r \<Longrightarrow> locks_counted r'"
  by (fastforce simp: locks_counted_def)

lemma set_delete_subset: "set (hm_remove k m) \<subseteq> set m"
  by (auto simp: hm_remove_def AList.delete_eq)

lemma prepare_subset: "set (fr_entries (prepare_registry k now n r)) \<subseteq> set (fr_entries r)"
  using set_delete_subset [of k "fr_entries r"]
  by (auto simp: prepare_registry_def Let_def maintain_auth_failure_registry_def prune_auth_failures_def
      remove_expired_auth_failure_def hm_retain_def)

lemma locks_counted_step: "locks_counted r \<Longrightarrow> locks_counted (lockout_step n r op)"
proof (cases op)
  case (Failure k now)
  assume "locks_counted r"
  let ?r = "prepare_registry k now n r"
  have "locks_counted ?r" using \<open>locks_counted r\<close> locks_counted_subset prepare_subset by blast
  then show ?thesis
    using Failure set_hm_insert_subset [of k _ "fr_entries ?r"]
    by (fastforce simp: record_auth_failure_in_registry_def Let_def locks_counted_def sat_add_def
        unwrap_or_def dest: map_of_SomeD split: option.splits)
next
  case (Attempt k now)
  assume "locks_counted r"
  then show ?thesis using Attempt locks_counted_subset prepare_subset
    by (simp add: auth_attempt_is_limited_def Let_def) blast
next
  case (Success k)
  assume "locks_counted r"
  then show ?thesis using Success locks_counted_subset set_delete_subset
    by (force simp: clear_auth_failure_def intro: locks_counted_subset)
qed


lemma locks_counted_run: "locks_counted r \<Longrightarrow> locks_counted (foldl (lockout_step n) r ops)"
  by (induction ops arbitrary: r) (auto intro: locks_counted_step)

lemma locks_counted_new: "locks_counted failure_registry_new" "registry_ok n failure_registry_new"
  by (simp_all add: locks_counted_def registry_ok_def failure_registry_new_def)

lemma counting_first_failure:
  assumes "registry_ok n r" "locks_counted r" "snd (record_auth_failure_in_registry key T n r)"
  shows "counting key T 1 (fst (record_auth_failure_in_registry key T n r))"
proof -
  let ?r = "prepare_registry key T n r"
  have ok: "registry_ok n ?r" using assms by simp
  have locks: "locks_counted ?r" using assms(2) locks_counted_subset prepare_subset by blast
  have low: "\<not> 5 \<le> fs_failures s \<Longrightarrow> map_of (fr_entries ?r) key = Some s \<Longrightarrow> fs_locked_until s = None" for s
    using locks by (force simp: locks_counted_def dest: map_of_SomeD)
  show ?thesis
  proof (cases "map_of (fr_entries ?r) key")
    case None
    with ok assms(3) show ?thesis
      by (auto simp: record_auth_failure_in_registry_def Let_def counting_def registry_ok_def sat_add_def
          split: if_splits)
  next
    case (Some s)
    with ok assms(3) low [of s] show ?thesis
      by (auto simp: record_auth_failure_in_registry_def Let_def counting_def registry_ok_def sat_add_def
          split: if_splits)
  qed
qed

lemma counting_limited:
  assumes "counting key T 5 r" "in_window T now"
  shows "snd (auth_attempt_is_limited key now n r)"
proof -
  from counting_prepare [OF assms, of key n] obtain s u where
    "map_of (fr_entries (prepare_registry key now n r)) key = Some s" "fs_locked_until s = Some u"
    "sat_add u64_max T 60 \<le> u" by (auto simp: counting_def)
  with assms(2) show ?thesis by (simp add: auth_attempt_is_limited_def Let_def in_window_def)
qed

text \<open>
  C34. Five failures lock a key. From the start of the server, after any sequence of login
  attempts, failures and successes: when a failure of a key is recorded at \<open>T\<close> (the registry had room for it), at least four
  more failures of it follow within the next 60 seconds and no login of the key succeeds in between, every
  attempt for the key that comes after them inside that minute is answered 429, whatever attempts of the key, and attempts, failures and
  successes of other keys, are interleaved and however often the registry prunes itself.
\<close>

theorem five_failures_lock:
  fixes n :: nat
  defines "run \<equiv> foldl (lockout_step n)"
  assumes "snd (record_auth_failure_in_registry key T n (run failure_registry_new before))"
    and "\<forall>op \<in> set ops. op_in_window key T op"
    and "4 \<le> length (filter (is_failure_of key) ops)"
    and "in_window T now"
  shows "snd (ensure_auth_not_locked key now n (run failure_registry_new (before @ Failure key T # ops))) =
         Inl (api_err Too_Many_Requests ''Too many failed login attempts'')"
proof -
  let ?r = "run failure_registry_new before"
  have "counting key T 1 (lockout_step n ?r (Failure key T))"
    using assms(2) registry_ok_run [OF locks_counted_new(2)] locks_counted_run [OF locks_counted_new(1)]
    using counting_first_failure by (simp add: run_def)
  then have "counting key T (1 + length (filter (is_failure_of key) ops))
               (run failure_registry_new (before @ Failure key T # ops))"
    using counting_run [OF _ assms(3), of 1 _ n] by (simp add: run_def)
  then have "counting key T 5 (run failure_registry_new (before @ Failure key T # ops))"
    using assms(4) by (auto simp: counting_def min_def)
  from counting_limited [OF this assms(5), of n] show ?thesis
    by (auto simp: ensure_auth_not_locked_def split: prod.splits)
qed

lemma five_failures_lock_witness:
  "snd (ensure_auth_not_locked ''user:a'' 150 3 (foldl (lockout_step 3) failure_registry_new
     ([Success ''user:b''] @ Failure ''user:a'' 100 #
      [Failure ''user:a'' 101, Failure ''user:b'' 101, Failure ''user:a'' 102, Attempt ''user:c'' 103,
       Failure ''user:a'' 104, Failure ''user:a'' 105]))) =
   Inl (api_err Too_Many_Requests ''Too many failed login attempts'')"
  by (rule five_failures_lock)
    (simp_all add: in_window_def sat_add_def record_auth_failure_in_registry_def Let_def prepare_registry_def
      remove_expired_auth_failure_def maintain_auth_failure_registry_def registry_full_for_def
      failure_registry_new_def clear_auth_failure_def hm_remove_def hm_contains_def)

text \<open>
  The lockout registry stays within its bound: whatever keys attackers try, after any sequence
  of operations it holds at most \<open>max_entries\<close> entries, each key once.
\<close>

theorem lockout_registry_bounded:
  "length (fr_entries (foldl (lockout_step n) failure_registry_new ops)) \<le> n \<and>
   distinct (map fst (fr_entries (foldl (lockout_step n) failure_registry_new ops)))"
  using registry_ok_run [OF locks_counted_new(2), of n ops] by (simp add: registry_ok_def hm_ok_def)

section \<open>The header reads back\<close>

text \<open>A value as a client writes it: every byte percent-encoded, between quotes.\<close>

definition percent_encode :: "string \<Rightarrow> string" where
  "percent_encode v = concat (map (\<lambda>c. CHR ''%'' # show_hex_fixed 2 (byte c)) v)"

definition header_pair :: "string \<times> string \<Rightarrow> string" where
  "header_pair kv = fst kv @ [CHR ''='', CHR 0x22] @ percent_encode (snd kv) @ [CHR 0x22]"

definition media_browser_header :: "(string \<times> string) list \<Rightarrow> string" where
  "media_browser_header kvs = ''MediaBrowser '' @ join_with '', '' (map header_pair kvs)"

definition plain_key :: "string \<Rightarrow> bool" where
  "plain_key k \<longleftrightarrow> k \<noteq> [] \<and> list_all is_alnum k"

lemma hex_value_hex_char: "d < 16 \<Longrightarrow> hex_value (hex_char d) = Some d"
  by (auto simp: hex_value_def hex_char_def is_digit_def byte_in_def)

lemma hex_char_not_special:
  "d < 16 \<Longrightarrow> hex_char d \<noteq> CHR '',''" "d < 16 \<Longrightarrow> hex_char d \<noteq> CHR 0x22"
  using hex_char_digit [of d] by (auto simp: hex_digit_def is_digit_def byte_in_def byte_def)

lemma show_hex_2: "show_hex_fixed 2 n = [hex_char (n div 16 mod 16), hex_char (n mod 16)]"
  by (simp add: numeral_2_eq_2)

lemma percent_encode_simps:
  "percent_encode [] = []"
  "percent_encode (c # v) =
     CHR ''%'' # hex_char (byte c div 16) # hex_char (byte c mod 16) # percent_encode v"
  using byte_bound [of c] by (simp_all add: percent_encode_def show_hex_2)

lemma decode_percent_encode: "decode_bytes (percent_encode v) = v"
proof (induction v)
  case (Cons c v)
  have "char_of (16 * (byte c div 16) + byte c mod 16) = c"
    by (simp add: byte_def)
  with Cons byte_bound [of c] show ?case
    by (simp add: percent_encode_simps hex_value_hex_char)
qed (simp add: percent_encode_simps)

lemma percent_encode_set: "CHR '','' \<notin> set (percent_encode v)" "CHR 0x22 \<notin> set (percent_encode v)"
proof (induction v)
  case (Cons c v)
  have "byte c div 16 < 16" "byte c mod 16 < 16" using byte_bound [of c] by auto
  note hex = this [THEN hex_char_not_special(1)] this [THEN hex_char_not_special(2)]
  {
    case 1
    with Cons hex show ?case by (auto simp: percent_encode_simps)
  next
    case 2
    with Cons hex show ?case by (auto simp: percent_encode_simps)
  }
qed (simp_all add: percent_encode_simps)

lemma trim_quotes_encoded: "trim_char (CHR 0x22) (CHR 0x22 # percent_encode v @ [CHR 0x22]) = percent_encode v"
proof (cases v)
  case Nil
  then show ?thesis by (simp add: percent_encode_simps trim_char_def trim_start_char_def trim_end_char_def)
next
  case (Cons c w)
  have "dropWhile (\<lambda>x. x = CHR 0x22) (percent_encode v @ zs) = percent_encode v @ zs" for zs
    using Cons by (simp add: percent_encode_simps)
  moreover have "dropWhile (\<lambda>x. x = CHR 0x22) (rev (percent_encode v)) = rev (percent_encode v)"
    using percent_encode_set(2) [of v] 
    by (auto simp: dropWhile_eq_self_iff hd_rev) (metis last_in_set)
  ultimately show ?thesis by (simp add: trim_char_def trim_start_char_def trim_end_char_def)
qed

lemma quoted_plain: "trim (CHR 0x22 # s @ [CHR 0x22]) = CHR 0x22 # s @ [CHR 0x22]"
  by (rule trim_plain) (simp add: plain_char_def byte_def)

lemma alnum_plain: "is_alnum c \<Longrightarrow> plain_char c" "is_alnum c \<Longrightarrow> c \<noteq> CHR '',''" "is_alnum c \<Longrightarrow> c \<noteq> CHR ''=''"
  by (auto simp: is_alnum_def is_digit_def is_upper_def is_lower_def plain_char_def byte_def)

lemma plain_key_facts:
  assumes "plain_key k"
  shows "trim k = k" "CHR '','' \<notin> set k" "CHR ''='' \<notin> set k" "k \<noteq> []" "plain_char (hd k)"
proof -
  have "\<forall>c \<in> set k. is_alnum c" and ne: "k \<noteq> []"
    using assms by (auto simp: plain_key_def list_all_iff)
  then have all: "\<forall>c \<in> set k. plain_char c \<and> c \<noteq> CHR '','' \<and> c \<noteq> CHR ''=''"
    using alnum_plain by blast
  then show "CHR '','' \<notin> set k" "CHR ''='' \<notin> set k" by blast+
  show "k \<noteq> []" by (fact ne)
  show "plain_char (hd k)" using all ne by simp
  show "trim k = k" using all ne by (intro trim_plain) simp
qed

lemma header_pair_facts:
  assumes "plain_key (fst kv)"
  shows "CHR '','' \<notin> set (header_pair kv)" "header_pair kv \<noteq> []"
    "trim (header_pair kv) = header_pair kv" "trim (CHR '' '' # header_pair kv) = header_pair kv"
proof -
  note k = plain_key_facts [OF assms]
  show "CHR '','' \<notin> set (header_pair kv)" using k percent_encode_set by (auto simp: header_pair_def)
  show ne: "header_pair kv \<noteq> []" by (simp add: header_pair_def)
  have ends: "plain_char (hd (header_pair kv))" "plain_char (last (header_pair kv))"
    using k by (simp_all add: header_pair_def) (simp add: plain_char_def byte_def)
  show "trim (header_pair kv) = header_pair kv" using ends by (intro trim_plain) simp
  show "trim (CHR '' '' # header_pair kv) = header_pair kv" using ne ends by (rule trim_space_plain)
qed

lemma split_header_pairs:
  assumes "\<forall>kv \<in> set kvs. plain_key (fst kv)" "kvs \<noteq> []" "pre \<in> {[], '' ''}"
  shows "map trim (split_on (CHR '','') (pre @ join_with '', '' (map header_pair kvs))) = map header_pair kvs"
  using assms
proof (induction kvs arbitrary: pre)
  case (Cons kv kvs)
  have c: "CHR '','' \<notin> set (pre @ header_pair kv)" and t: "trim (pre @ header_pair kv) = header_pair kv"
    using Cons.prems header_pair_facts [of kv] by auto
  show ?case
  proof (cases kvs)
    case Nil
    with c t show ?thesis by (simp add: split_on_absent del: append_assoc flip: append_assoc)
  next
    case (Cons kv' rest)
    have "map trim (split_on (CHR '','') ('' '' @ join_with '', '' (map header_pair kvs))) = map header_pair kvs"
      by (rule Cons.IH) (use Cons Cons.prems in simp_all)
    moreover have "pre @ join_with '', '' (map header_pair (kv # kvs)) =
        (pre @ header_pair kv) @ CHR '','' # ('' '' @ join_with '', '' (map header_pair kvs))"
      using Cons by simp
    ultimately show ?thesis using c t by (simp only: split_on_append_sep split_on_absent [OF c] append_Cons append_Nil list.map)
  qed
qed simp

lemma parse_header_pair:
  assumes "plain_key (fst kv)" "utf8_valid (snd kv)"
  shows "map_option (\<lambda>(key, v). (to_ascii_lowercase (trim key),
            decode_media_browser_value (trim_char (char_of (34::nat)) (trim v))))
           (split_once (CHR ''='') (header_pair kv)) =
         Some (to_ascii_lowercase (fst kv), snd kv)"
proof -
  have "split_once (CHR ''='') (header_pair kv) = Some (fst kv, CHR 0x22 # percent_encode (snd kv) @ [CHR 0x22])"
    using plain_key_facts(3) [OF assms(1)] split_once_append by (simp add: header_pair_def)
  moreover have "char_of (34::nat) = CHR 0x22" by (simp add: char_of_eq_iff byte_def)
  ultimately show ?thesis using assms plain_key_facts(1)
    by (simp add: quoted_plain trim_quotes_encoded decode_media_browser_value_def decode_percent_encode)
qed

text \<open>
  The authorization header reads back. A client that writes its fields as
  \<open>MediaBrowser Key="value", ...\<close> with every byte of the values percent-encoded gets exactly those
  values on the server, in order, with the keys in lower case: commas, quotes, equal signs, plus
  signs and non-ASCII text in a value do not break the header apart.
\<close>

theorem media_browser_header_reads_back:
  assumes "\<forall>kv \<in> set kvs. plain_key (fst kv) \<and> utf8_valid (snd kv)" "kvs \<noteq> []"
  shows "parse_media_browser_pairs (media_browser_header kvs) =
         map (\<lambda>(k, v). (to_ascii_lowercase k, v)) kvs"
proof -
  let ?f = "\<lambda>part. map_option (\<lambda>(key, v). (to_ascii_lowercase (trim key),
      decode_media_browser_value (trim_char (char_of (34::nat)) (trim v)))) (split_once (CHR ''='') part)"
  have "parse_media_browser_pairs (media_browser_header kvs) =
      List.map_filter ?f (map trim (split_on (CHR '','') ([] @ join_with '', '' (map header_pair kvs))))"
    by (simp add: parse_media_browser_pairs_def media_browser_header_def strip_prefix_def starts_with_def
        List.map_filter_def filter_map comp_def)
  also have "\<dots> = List.map_filter ?f (map header_pair kvs)"
    using assms by (subst split_header_pairs) auto
  also have "\<dots> = map (\<lambda>(k, v). (to_ascii_lowercase k, v)) kvs"
    using assms(1)
  proof (induction kvs)
    case (Cons kv kvs)
    then have "?f (header_pair kv) = Some (to_ascii_lowercase (fst kv), snd kv)"
      by (intro parse_header_pair) auto
    moreover have "List.map_filter ?f (map header_pair kvs) = map (\<lambda>(k, v). (to_ascii_lowercase k, v)) kvs"
      using Cons by simp
    ultimately show ?case by (simp only: list.map List.map_filter_simps option.case split_def)
  qed (simp add: List.map_filter_simps)
  finally show ?thesis .
qed

lemma media_browser_header_reads_back_witness:
  "parse_media_browser_pairs (media_browser_header [(''Client'', ''a, b''), (''Token'', ''x=+1'')]) =
   map (\<lambda>(k, v). (to_ascii_lowercase k, v)) [(''Client'', ''a, b''), (''Token'', ''x=+1'')]"
  by (rule media_browser_header_reads_back)
    (auto simp: plain_key_def is_alnum_def is_digit_def is_upper_def is_lower_def byte_def)

section \<open>Authorisation\<close>

text \<open>
  Only an administrator passes the administrator checks, and only with a token the database
  knows, whether it comes from a header or the query; before the startup wizard is complete the
  setup routes are open, after it they demand an administrator.
\<close>

theorem require_admin_sound:
  "(require_admin db h q = Inr u \<longleftrightarrow>
     (\<exists>token t. opt_or (bearer_token h) q = Some token \<and>
        opt_or (db_user_by_token db token) (db_user_by_api_key db token) = Some (u, t) \<and>
        user_is_administrator u)) \<and>
   (require_admin_or_startup_incomplete db h q = Inr () \<longleftrightarrow>
     db_startup_completed db = Inr False \<or>
     db_startup_completed db = Inr True \<and> (\<exists>v. require_admin db h q = Inr v))"
  by (auto simp: require_admin_def require_request_user_def require_user_def
      require_admin_or_startup_incomplete_def require_admin_or_startup_incomplete_user_def
      split: option.splits sum.splits if_splits)

end
