(* ===== verification/Query_Strings.thy ===== *)
theory Query_Strings
  imports Auth
begin

text \<open>
  Query strings of the API (\<open>crates/jellyrin-api/src/lib.rs\<close>, 33370--33376 and 33437--33474): the
  percent decoding of one component and the Boolean flags. \<open>String::from_utf8_lossy\<close> replaces every
  maximal ill-formed part by U+FFFD.
\<close>

text \<open>The length of the first character, or of the first ill-formed part.\<close>

definition second_ok :: "char \<Rightarrow> char \<Rightarrow> bool" where
  "second_ok a b =
     (if byte_in 224 239 a then
        byte_in (if byte a = 224 then 160 else 128) (if byte a = 237 then 159 else 191) b
      else byte_in (if byte a = 240 then 144 else 128) (if byte a = 244 then 143 else 191) b)"

definition nth_cont :: "nat \<Rightarrow> string \<Rightarrow> bool" where
  "nth_cont i s \<longleftrightarrow> i < length s \<and> is_cont (s ! i)"

fun utf8_step :: "string \<Rightarrow> nat \<times> bool" where
  "utf8_step [] = (0, True)"
| "utf8_step (a # s) =
     (if byte a < 128 then (1, True)
      else if byte_in 194 223 a then (if nth_cont 0 s then (2, True) else (1, False))
      else if byte_in 224 244 a then
        (if s = [] \<or> \<not> second_ok a (hd s) then (1, False)
         else if \<not> nth_cont 1 s then (2, False)
         else if byte_in 224 239 a then (3, True)
         else if \<not> nth_cont 2 s then (3, False)
         else (4, True))
      else (1, False))"

lemma utf8_step_pos: "s \<noteq> [] \<Longrightarrow> 0 < fst (utf8_step s)"
  by (cases s) auto

definition replacement :: string where
  "replacement = [CHR 0xEF, CHR 0xBF, CHR 0xBD]"

function from_utf8_lossy :: "string \<Rightarrow> string" where
  "from_utf8_lossy s =
     (if s = [] then []
      else case utf8_step s of
        (n, ok) \<Rightarrow> (if ok then take n s else replacement) @ from_utf8_lossy (drop n s))"
  by auto
termination
  by (relation "measure length") (use utf8_step_pos in \<open>auto simp: diff_less\<close>, metis fst_conv length_greater_0_conv diff_less)

declare from_utf8_lossy.simps [simp del]

definition percent_decode_query_component :: "string \<Rightarrow> string" where
  "percent_decode_query_component v = from_utf8_lossy (decode_bytes v)"

definition parse_query_bool :: "string \<Rightarrow> bool option" where
  "parse_query_bool v =
     (let n = to_ascii_lowercase v
      in if n = ''true'' then Some True else if n = ''false'' then Some False else None)"

section \<open>Decoding is well formed and faithful\<close>

lemma utf8_valid_step:
  assumes "utf8_step s = (n, True)"
  shows "utf8_valid (take n s @ t) = utf8_valid t"
proof (cases s)
  case (Cons a r)
  show ?thesis
  proof (cases r)
    case Nil
    then show ?thesis using assms Cons by (auto simp: nth_cont_def split: if_splits)
  next
    case c2: (Cons b r2)
    show ?thesis
    proof (cases r2)
      case Nil
      then show ?thesis using assms Cons c2 by (auto simp: nth_cont_def split: if_splits)
    next
      case c3: (Cons c r3)
      show ?thesis
        using assms Cons c2 c3
        by (cases r3) (auto simp: nth_cont_def second_ok_def byte_in_def split: if_splits)
    qed
  qed
qed (use assms in simp)

lemma utf8_step_of_valid:
  "utf8_valid s \<Longrightarrow> snd (utf8_step s)"
  by (cases s rule: utf8_valid.cases)
    (auto simp: nth_cont_def second_ok_def byte_in_def is_cont_def split: list.splits if_splits)

lemma replacement_valid: "utf8_valid (replacement @ t) = utf8_valid t"
  by (simp add: replacement_def byte_in_def is_cont_def byte_def)

text \<open>
  The decoded component is always well-formed UTF-8, whatever bytes the client sent, and text that
  was well formed and percent-encoded byte by byte comes back unchanged.
\<close>

theorem percent_decode_query_component_text:
  "utf8_valid (percent_decode_query_component v) \<and>
   percent_decode_query_component (percent_encode t) = from_utf8_lossy t \<and>
   from_utf8_lossy (percent_decode_query_component v) = percent_decode_query_component v"
proof -
  have valid: "utf8_valid (from_utf8_lossy s)" for s
  proof (induction s rule: from_utf8_lossy.induct)
    case (1 s)
    show ?case
    proof (cases "s = []")
      case False
      obtain n ok where st: "utf8_step s = (n, ok)" by force
      with 1 False have "utf8_valid (from_utf8_lossy (drop n s))" by simp
      then show ?thesis using False st utf8_valid_step [of s n] replacement_valid
        by (subst from_utf8_lossy.simps) auto
    qed (simp add: from_utf8_lossy.simps)
  qed
  have keep: "utf8_valid s \<Longrightarrow> from_utf8_lossy s = s" for s
  proof (induction s rule: from_utf8_lossy.induct)
    case (1 s)
    show ?case
    proof (cases "s = []")
      case False
      obtain n where st: "utf8_step s = (n, True)" using utf8_step_of_valid [OF "1.prems"] by (metis prod.collapse)
      then have "utf8_valid (drop n s)" using utf8_valid_step [OF st, of "drop n s"] "1.prems" by simp
      with 1 False st show ?thesis by (subst from_utf8_lossy.simps) simp
    qed (simp add: from_utf8_lossy.simps)
  qed
  show ?thesis using valid keep by (simp add: percent_decode_query_component_def decode_percent_encode)
qed

end
