(* ===== verification/Sync_Play_State.thy ===== *)
theory Sync_Play_State
  imports Json "HOL-Library.Multiset"
begin

text \<open>
  The shared playback state of a SyncPlay group and the commands that change it
  (\<open>crates/jellyrin-api/src/lib.rs\<close>, lines 19326--19576). The state is a JSON object; times are
  nanoseconds since the epoch; formatting and parsing a time is the \<open>time\<close> crate's and a parameter.
  Arithmetic is on \<open>i64\<close> as the release profile compiles it: \<open>+\<close> and \<open>abs\<close> wrap.
\<close>

record clock_ops =
  ck_format :: "int \<Rightarrow> string"
  ck_parse :: "string \<Rightarrow> int option"

section \<open>Positions and drift\<close>

definition syncplay_position_ticks_from_payload :: "json \<Rightarrow> int option" where
  "syncplay_position_ticks_from_payload payload =
     json_i64_any_field payload
       [''PositionTicks'', ''SeekPositionTicks'', ''NewPositionTicks'', ''StartPositionTicks'']"

definition syncplay_duration_to_ticks :: "int \<Rightarrow> int" where
  "syncplay_duration_to_ticks nanos = clamp_i64 (trunc_div (nanos * 10000000) 1000000000)"

definition syncplay_drift_threshold_ticks :: int where
  "syncplay_drift_threshold_ticks = 5000000"

definition syncplay_timeline_drift_json :: "clock_ops \<Rightarrow> json \<Rightarrow> json \<Rightarrow> int \<Rightarrow> json option" where
  "syncplay_timeline_drift_json ck state payload now =
     Option.bind (syncplay_position_ticks_from_payload payload) (\<lambda>client_position.
     Option.bind (json_string_any_field payload [''When'', ''when'']) (\<lambda>client_when.
     Option.bind (ck_parse ck client_when) (\<lambda>parsed.
       (let elapsed = syncplay_duration_to_ticks (now - parsed);
            estimated = clamp_i64 (client_position + elapsed);
            server_position = unwrap_or client_position (Option.bind (jget ''PositionTicks'' state) as_i64);
            drift = clamp_i64 (estimated - server_position);
            correction = (if syncplay_drift_threshold_ticks \<le> wrapping_abs drift then Some estimated else None)
        in Some (json_obj
             [(''ClientWhen'', JStr client_when),
              (''ServerReceivedAt'', JStr (ck_format ck now)),
              (''ClientPositionTicks'', json_int client_position),
              (''ClientElapsedTicks'', json_int elapsed),
              (''ServerPositionTicks'', json_int server_position),
              (''EstimatedServerPositionTicks'', json_int estimated),
              (''DriftTicks'', json_int drift),
              (''DriftThresholdTicks'', json_int syncplay_drift_threshold_ticks),
              (''IsCorrectionRequired'', JBool (correction \<noteq> None)),
              (''CorrectionPositionTicks'', json_opt json_int correction)])))))"

section \<open>Commands\<close>

type_synonym jmap = "(string, json) bmap"

definition syncplay_queue_item_matches :: "json \<Rightarrow> string \<Rightarrow> bool" where
  "syncplay_queue_item_matches item item_id \<longleftrightarrow>
     as_str item = Some item_id \<or>
     Option.bind (opt_or (jget ''Id'' item) (jget ''ItemId'' item)) as_str = Some item_id"

definition payload_queue :: "json \<Rightarrow> json option" where
  "payload_queue payload =
     opt_filter is_array (opt_or (jget ''Queue'' payload)
       (opt_or (jget ''Items'' payload) (jget ''ItemIds'' payload)))"

definition set_queue :: "json \<Rightarrow> int \<Rightarrow> jmap \<Rightarrow> jmap" where
  "set_queue payload now m =
     (case payload_queue payload of
        None \<Rightarrow> m
      | Some queue \<Rightarrow> bt_insert ''QueueVersion'' (JStr (show_int now)) (bt_insert ''Queue'' queue m))"

text \<open>The fields every command writes before its own.\<close>

definition command_header :: "clock_ops \<Rightarrow> string \<Rightarrow> json \<Rightarrow> int \<Rightarrow> nat \<Rightarrow> jmap \<Rightarrow> jmap" where
  "command_header ck command payload now seq m =
     (let m = bt_insert ''LastCommand'' payload m;
          m = bt_insert ''LastCommandName'' (JStr command) m;
          m = bt_insert ''LastCommandDate'' (JStr (ck_format ck now)) m;
          m = bt_insert ''CommandSequence'' (json_nat seq) m
      in bt_insert ''LastCommandSequence'' (json_nat seq) m)"

definition insert_opt :: "string \<Rightarrow> json option \<Rightarrow> jmap \<Rightarrow> jmap" where
  "insert_opt key x m = (case x of Some v \<Rightarrow> bt_insert key v m | None \<Rightarrow> m)"

definition command_position :: "json \<Rightarrow> json option \<Rightarrow> jmap \<Rightarrow> jmap" where
  "command_position payload timeline_drift m =
     (let m = insert_opt ''PositionTicks''
                (map_option json_int (syncplay_position_ticks_from_payload payload)) m;
          m = insert_opt ''LastClientWhen''
                (map_option JStr (json_string_any_field payload [''When'', ''when''])) m;
          m = insert_opt ''PlaylistItemId''
                (map_option JStr (json_string_any_field payload [''PlaylistItemId'', ''ItemId''])) m
      in case timeline_drift of
           None \<Rightarrow> m
         | Some t \<Rightarrow>
             bt_insert ''IsDriftCorrectionRequired'' (jindex t ''IsCorrectionRequired'')
             (bt_insert ''CorrectionPositionTicks'' (jindex t ''CorrectionPositionTicks'')
             (bt_insert ''DriftTicks'' (jindex t ''DriftTicks'') (bt_insert ''Timeline'' t m))))"

definition remove_at :: "nat \<Rightarrow> 'a list \<Rightarrow> 'a list" where
  "remove_at i xs = take i xs @ drop (Suc i) xs"

definition insert_at :: "nat \<Rightarrow> 'a \<Rightarrow> 'a list \<Rightarrow> 'a list" where
  "insert_at i x xs = take i xs @ x # drop i xs"

text \<open>\<open>get_mut("Queue").and_then(as_array_mut)\<close>: edit the queue in place when there is one.\<close>

definition edit_queue :: "(json list \<Rightarrow> json list) \<Rightarrow> jmap \<Rightarrow> jmap" where
  "edit_queue f m =
     (case Option.bind (map_of m ''Queue'') as_array of
        Some queue \<Rightarrow> bt_insert ''Queue'' (JArr (f queue)) m
      | None \<Rightarrow> m)"

definition remove_from_queue :: "json \<Rightarrow> json list \<Rightarrow> json list" where
  "remove_from_queue payload queue =
     (case json_i64_any_field payload [''PlaylistItemIndex'', ''Index''] of
        Some index \<Rightarrow> if 0 \<le> index \<and> nat index < length queue then remove_at (nat index) queue else queue
      | None \<Rightarrow>
          (case json_string_any_field payload [''PlaylistItemId'', ''ItemId''] of
             Some item_id \<Rightarrow> filter (\<lambda>item. \<not> syncplay_queue_item_matches item item_id) queue
           | None \<Rightarrow> queue))"

definition move_in_queue :: "json \<Rightarrow> json list \<Rightarrow> json list" where
  "move_in_queue payload queue =
     (case (json_i64_any_field payload [''PlaylistItemIndex'', ''OldIndex'', ''FromIndex''],
            json_i64_any_field payload [''NewIndex'', ''ToIndex'']) of
        (Some source, Some target) \<Rightarrow>
          if 0 \<le> source \<and> 0 \<le> target \<and> nat source < length queue \<and> nat target < length queue
          then insert_at (nat target) (queue ! nat source) (remove_at (nat source) queue)
          else queue
      | _ \<Rightarrow> queue)"

definition current_index :: "jmap \<Rightarrow> int" where
  "current_index m = unwrap_or 0 (Option.bind (map_of m ''PlaylistItemIndex'') as_i64)"

definition set_play_state :: "string \<Rightarrow> jmap \<Rightarrow> jmap" where
  "set_play_state s m = bt_insert ''PlayState'' (JStr s) m"

definition set_paused :: "bool \<Rightarrow> jmap \<Rightarrow> jmap" where
  "set_paused b m = bt_insert ''IsPaused'' (JBool b) m"

definition playback_command :: "string \<Rightarrow> json \<Rightarrow> int \<Rightarrow> jmap \<Rightarrow> jmap" where
  "playback_command name payload now m =
     (if name = ''play'' then set_queue payload now (set_play_state ''Playing'' (set_paused False m))
      else if name = ''pause'' then set_play_state ''Paused'' (set_paused True m)
      else if name = ''unpause'' then set_play_state ''Playing'' (set_paused False m)
      else if name = ''seek'' then set_play_state ''Seeking'' m
      else if name = ''buffering'' then set_play_state ''Buffering'' m
      else if name = ''stop'' then set_play_state ''Stopped'' (set_paused False m)
      else if name = ''queue'' \<or> name = ''setnewqueue'' then set_play_state ''Queued'' (set_queue payload now m)
      else m)"

definition playlist_command :: "string \<Rightarrow> json \<Rightarrow> jmap \<Rightarrow> jmap" where
  "playlist_command name payload m =
     (if name = ''removefromplaylist'' then edit_queue (remove_from_queue payload) m
      else if name = ''moveplaylistitem'' then edit_queue (move_in_queue payload) m
      else if name = ''nextitem'' then
        bt_insert ''PlaylistItemIndex'' (json_int (wrap_i64 (current_index m + 1))) m
      else if name = ''previousitem'' then
        bt_insert ''PlaylistItemIndex'' (json_int (clamp_i64 (current_index m - 1))) m
      else if name = ''setplaylistitem'' then
        insert_opt ''PlaylistItemIndex''
          (map_option json_int (json_i64_any_field payload [''PlaylistItemIndex'', ''Index'']))
        (insert_opt ''PlaylistItemId''
          (map_option JStr (json_string_any_field payload [''PlaylistItemId'', ''ItemId''])) m)
      else m)"

definition option_command :: "string \<Rightarrow> json \<Rightarrow> jmap \<Rightarrow> jmap" where
  "option_command name payload m =
     (if name = ''setrepeatmode'' then
        insert_opt ''RepeatMode'' (map_option JStr (json_string_any_field payload [''RepeatMode'', ''Mode''])) m
      else if name = ''setshufflemode'' then
        insert_opt ''ShuffleMode'' (map_option JBool
          (Option.bind (opt_or (jget ''ShuffleMode'' payload) (jget ''Shuffle'' payload)) as_bool)) m
      else if name = ''setignorewait'' then
        insert_opt ''IgnoreWait'' (map_option JBool
          (Option.bind (opt_or (jget ''IgnoreWait'' payload) (jget ''IgnoreWaitEnabled'' payload)) as_bool)) m
      else if name = ''ready'' then bt_insert ''IsReady'' (JBool True) m
      else m)"

definition state_object :: "json \<Rightarrow> jmap" where
  "state_object state = unwrap_or [] (as_object state)"

definition syncplay_apply_command_to_state ::
  "clock_ops \<Rightarrow> json \<Rightarrow> string \<Rightarrow> json \<Rightarrow> int \<Rightarrow> nat \<Rightarrow> json" where
  "syncplay_apply_command_to_state ck state command payload now seq =
     (let m = state_object state;
          timeline_drift = syncplay_timeline_drift_json ck (JObj m) payload now;
          m = command_position payload timeline_drift (command_header ck command payload now seq m);
          name = to_ascii_lowercase command
      in JObj (option_command name payload
                (playlist_command name payload (playback_command name payload now m))))"


section \<open>The state stays well formed and numbered\<close>

named_theorems command_simps \<comment> \<open>the effect of one group of fields on a sorted object\<close>

lemma insert_opt_ok [simp]: "bt_ok m \<Longrightarrow> bt_ok (insert_opt k x m)"
  by (simp add: insert_opt_def split: option.split)

lemma map_of_insert_opt [command_simps]:
  "bt_ok m \<Longrightarrow> map_of (insert_opt k x m) j = (if j = k then opt_or x (map_of m j) else map_of m j)"
  by (simp add: insert_opt_def map_of_bt_insert split: option.split)

lemma edit_queue_ok [simp]: "bt_ok m \<Longrightarrow> bt_ok (edit_queue f m)"
  by (simp add: edit_queue_def split: option.split)

lemma map_of_edit_queue [command_simps]:
  "bt_ok m \<Longrightarrow> map_of (edit_queue f m) j =
     (if j = ''Queue''
      then case Option.bind (map_of m j) as_array of Some q \<Rightarrow> Some (JArr (f q)) | None \<Rightarrow> map_of m j
      else map_of m j)"
  by (auto simp: edit_queue_def map_of_bt_insert split: option.split)

lemma set_queue_ok [simp]: "bt_ok m \<Longrightarrow> bt_ok (set_queue payload now m)"
  by (simp add: set_queue_def split: option.split)

lemma command_header_ok [simp]: "bt_ok m \<Longrightarrow> bt_ok (command_header ck c payload now seq m)"
  by (simp add: command_header_def Let_def)

lemma command_position_ok [simp]: "bt_ok m \<Longrightarrow> bt_ok (command_position payload t m)"
  by (simp add: command_position_def Let_def split: option.split)

lemma playback_command_ok [simp]: "bt_ok m \<Longrightarrow> bt_ok (playback_command n payload now m)"
  by (simp add: playback_command_def set_play_state_def set_paused_def)

lemma playlist_command_ok [simp]: "bt_ok m \<Longrightarrow> bt_ok (playlist_command n payload m)"
  by (simp add: playlist_command_def)

lemma option_command_ok [simp]: "bt_ok m \<Longrightarrow> bt_ok (option_command n payload m)"
  by (simp add: option_command_def)

definition state_keys :: "string set" where
  "state_keys = {''IsPaused'', ''PlayState'', ''Queue'', ''QueueVersion'', ''PlaylistItemIndex'',
     ''PlaylistItemId'', ''RepeatMode'', ''ShuffleMode'', ''IgnoreWait'', ''IsReady''}"

lemma commands_keep_other_keys:
  assumes "bt_ok m" "k \<notin> state_keys"
  shows "map_of (option_command n payload (playlist_command n payload (playback_command n payload now m))) k =
    map_of m k"
proof -
  have pb: "map_of (playback_command n payload now m) k = map_of m k"
    using assms by (simp add: playback_command_def set_play_state_def set_paused_def set_queue_def
        state_keys_def map_of_bt_insert split: option.split)
  have pl: "bt_ok p \<Longrightarrow> map_of (playlist_command n payload p) k = map_of p k" for p
    using assms(2) by (simp add: playlist_command_def state_keys_def map_of_bt_insert command_simps)
  have op: "bt_ok p \<Longrightarrow> map_of (option_command n payload p) k = map_of p k" for p
    using assms(2) by (simp add: option_command_def state_keys_def map_of_bt_insert command_simps)
  show ?thesis using assms(1) by (simp add: op pl pb)
qed

lemma command_header_seq:
  "bt_ok m \<Longrightarrow> map_of (command_header ck c payload now seq m) ''CommandSequence'' = Some (json_nat seq)"
  by (simp add: command_header_def Let_def map_of_bt_insert)

lemma command_position_keeps:
  assumes "bt_ok m" "k \<notin> {''PositionTicks'', ''LastClientWhen'', ''PlaylistItemId'', ''Timeline'',
    ''DriftTicks'', ''CorrectionPositionTicks'', ''IsDriftCorrectionRequired''}"
  shows "map_of (command_position payload t m) k = map_of m k"
  using assms by (simp add: command_position_def Let_def map_of_bt_insert command_simps split: option.split)

lemma apply_command_ok:
  "bt_ok (state_object state) \<Longrightarrow>
   bt_ok (state_object (syncplay_apply_command_to_state ck state c payload now seq))"
  by (simp add: syncplay_apply_command_to_state_def Let_def state_object_def [of "JObj _"])

lemma apply_command_seq:
  assumes "bt_ok (state_object state)"
  shows "jget ''CommandSequence'' (syncplay_apply_command_to_state ck state c payload now seq) =
    Some (json_nat seq)"
  using assms by (simp add: syncplay_apply_command_to_state_def Let_def jget_def commands_keep_other_keys
      command_position_keeps command_header_seq state_keys_def)

section \<open>Editing the playlist\<close>

lemma mset_remove_at: "i < length xs \<Longrightarrow> add_mset (xs ! i) (mset (remove_at i xs)) = mset xs"
  by (metis remove_at_def id_take_nth_drop mset.simps(2) mset_append union_mset_add_mset_right)

lemma mset_insert_at: "mset (insert_at i x xs) = add_mset x (mset xs)"
  by (metis append_take_drop_id insert_at_def mset.simps(2) mset_append union_mset_add_mset_right)

lemma length_remove_at: "i < length xs \<Longrightarrow> length (remove_at i xs) = length xs - 1"
  by (simp add: remove_at_def)

lemma remove_insert_at: "i \<le> length xs \<Longrightarrow> remove_at i (insert_at i x xs) = xs \<and> insert_at i x xs ! i = x"
  by (simp add: remove_at_def insert_at_def nth_append)

lemma move_in_queue_perm: "mset (move_in_queue payload q) = mset q"
  by (auto simp: move_in_queue_def mset_insert_at mset_remove_at split: option.split)

lemma move_in_queue_moves:
  assumes "json_i64_any_field payload [''PlaylistItemIndex'', ''OldIndex'', ''FromIndex''] = Some (int i)"
    and "json_i64_any_field payload [''NewIndex'', ''ToIndex''] = Some (int j)"
    and "i < length q" "j < length q"
  shows "move_in_queue payload q ! j = q ! i \<and> remove_at j (move_in_queue payload q) = remove_at i q"
  using assms remove_insert_at [of j "remove_at i q" "q ! i"]
  by (simp add: move_in_queue_def length_remove_at)

lemma command_queue:
  assumes "bt_ok (state_object state)" "to_ascii_lowercase c = ''moveplaylistitem''"
    and "jget ''Queue'' state = Some (JArr q)"
  shows "jget ''Queue'' (syncplay_apply_command_to_state ck state c payload now seq) =
    Some (JArr (move_in_queue payload q))"
proof -
  let ?m = "state_object state"
  have q: "map_of ?m ''Queue'' = Some (JArr q)"
    using assms(3) by (cases state) (auto simp: jget_def state_object_def)
  have "map_of (command_position payload t (command_header ck c payload now seq ?m)) ''Queue'' = Some (JArr q)" for t
    using assms(1) q by (simp add: command_position_keeps command_header_def map_of_bt_insert)
  then show ?thesis
    using assms(1,2) by (simp add: syncplay_apply_command_to_state_def Let_def jget_def playback_command_def
        playlist_command_def option_command_def command_simps)
qed

text \<open>
  Moving a playlist item loses nothing: in any letter case of the command and for any payload the
  queue afterwards is a permutation of the queue before; when both indexes are in range the item
  stands at its new place and the order of all the others is unchanged.
\<close>

theorem syncplay_move_item:
  assumes "bt_ok (state_object state)" "eq_ignore_case command ''moveplaylistitem''"
    and "jget ''Queue'' state = Some (JArr q)"
  shows "\<exists>q'. jget ''Queue'' (syncplay_apply_command_to_state ck state command payload now seq) = Some (JArr q') \<and>
    mset q' = mset q \<and>
    (\<forall>i j. json_i64_any_field payload [''PlaylistItemIndex'', ''OldIndex'', ''FromIndex''] = Some (int i) \<and>
       json_i64_any_field payload [''NewIndex'', ''ToIndex''] = Some (int j) \<and> i < length q \<and> j < length q \<longrightarrow>
       q' ! j = q ! i \<and> remove_at j q' = remove_at i q)"
proof -
  have "to_ascii_lowercase command = ''moveplaylistitem''"
    using assms(2) by (simp add: eq_ignore_case_def to_ascii_lowercase_def char_eval)
  from command_queue [OF assms(1) this assms(3)] show ?thesis
    using move_in_queue_perm move_in_queue_moves by blast
qed

lemma syncplay_move_item_witness:
  "let st = json_obj [(''Queue'', JArr [JStr ''a'', JStr ''b'', JStr ''c''])];
       p = json_obj [(''OldIndex'', json_int 0), (''NewIndex'', json_int 2)]
   in \<exists>q'. jget ''Queue'' (syncplay_apply_command_to_state \<lparr> ck_format = (\<lambda>_. ''t''), ck_parse = (\<lambda>_. None) \<rparr>
          st ''MovePlaylistItem'' p 7 1) = Some (JArr q') \<and> q' ! 2 = JStr ''a'' \<and> length q' = 3"
proof -
  let ?st = "json_obj [(''Queue'', JArr [JStr ''a'', JStr ''b'', JStr ''c''])]"
  let ?p = "json_obj [(''OldIndex'', json_int 0), (''NewIndex'', json_int 2)]"
  have f: "json_i64_any_field ?p [''PlaylistItemIndex'', ''OldIndex'', ''FromIndex''] = Some (int 0)"
    "json_i64_any_field ?p [''NewIndex'', ''ToIndex''] = Some (int 2)"
    by (simp_all add: json_i64_any_field_def jget_json_obj json_int_def)
  have "eq_ignore_case ''MovePlaylistItem'' ''moveplaylistitem''"
    by (simp add: eq_ignore_case_def to_ascii_lowercase_def char_eval)
  moreover have "bt_ok (state_object ?st)" "jget ''Queue'' ?st = Some (JArr [JStr ''a'', JStr ''b'', JStr ''c''])"
    by (simp_all add: json_obj_def state_object_def jget_def bt_ok_def)
  ultimately show ?thesis
    using syncplay_move_item [of ?st "''MovePlaylistItem''" "[JStr ''a'', JStr ''b'', JStr ''c'']"
        "\<lparr> ck_format = (\<lambda>_. ''t''), ck_parse = (\<lambda>_. None) \<rparr>" ?p 7 1] f
    by (fastforce simp: Let_def dest: mset_eq_length)
qed

section \<open>Drift correction\<close>

lemma wrapping_abs_in_i64: "in_i64 x \<Longrightarrow> wrapping_abs x = (if x = i64_min then i64_min else \<bar>x\<bar>)"
  by (auto simp: wrapping_abs_def wrap_i64_def in_i64_def abs_if)

lemma drift_threshold_clamped:
  "syncplay_drift_threshold_ticks \<le> wrapping_abs (clamp_i64 d) \<longleftrightarrow> 5000000 \<le> \<bar>d\<bar> \<and> i64_min < d"
  using wrapping_abs_in_i64 [OF clamp_i64_in, of d]
  by (auto simp: syncplay_drift_threshold_ticks_def clamp_i64_def split: if_splits)

text \<open>
  A correction is demanded exactly when the client is at least half a second away from the
  server's position, and it sends the client to its own extrapolated position; the one exception is
  a distance of \<open>i64::MIN\<close> or more, where the wrapping \<open>abs\<close> stays negative and none is demanded.
\<close>

theorem syncplay_drift_correction:
  assumes "syncplay_timeline_drift_json ck state payload now = Some t"
  shows "\<exists>p w c. syncplay_position_ticks_from_payload payload = Some p \<and>
    json_string_any_field payload [''When'', ''when''] = Some w \<and> ck_parse ck w = Some c \<and>
    (let estimated = clamp_i64 (p + syncplay_duration_to_ticks (now - c));
         server = unwrap_or p (Option.bind (jget ''PositionTicks'' state) as_i64);
         required = (5000000 \<le> \<bar>estimated - server\<bar> \<and> i64_min < estimated - server)
     in jget ''IsCorrectionRequired'' t = Some (JBool required) \<and>
        jget ''CorrectionPositionTicks'' t = Some (if required then json_int estimated else JNull) \<and>
        jget ''DriftTicks'' t = Some (json_int (clamp_i64 (estimated - server))))"
  using assms
  by (auto simp: syncplay_timeline_drift_json_def bind_eq_Some_conv Let_def jget_json_obj json_opt_def
      drift_threshold_clamped)

lemma syncplay_drift_correction_witness:
  "let t = the (syncplay_timeline_drift_json \<lparr> ck_format = (\<lambda>_. ''t''), ck_parse = (\<lambda>_. Some 0) \<rparr>
         (json_obj [(''PositionTicks'', json_int 0)])
         (json_obj [(''PositionTicks'', json_int 100), (''When'', JStr ''w'')]) 1000000000)
   in jget ''IsCorrectionRequired'' t = Some (JBool True)"
proof -
  let ?ck = "\<lparr> ck_format = (\<lambda>_. ''t''), ck_parse = (\<lambda>_. Some 0) \<rparr>"
  let ?st = "json_obj [(''PositionTicks'', json_int 0)]"
  let ?p = "json_obj [(''PositionTicks'', json_int 100), (''When'', JStr ''w'')]"
  have p: "syncplay_position_ticks_from_payload ?p = Some 100"
    by (simp add: syncplay_position_ticks_from_payload_def json_i64_any_field_def jget_json_obj json_int_def)
  have "trim ''w'' = ''w''" by (rule trim_plain) (simp add: plain_char_def byte_def)
  then have w: "json_string_any_field ?p [''When'', ''when''] = Some ''w''"
    by (simp add: json_string_any_field_def jget_json_obj)
  obtain t where t: "syncplay_timeline_drift_json ?ck ?st ?p 1000000000 = Some t"
    using p w by (simp add: syncplay_timeline_drift_json_def Let_def)
  have s: "Option.bind (jget ''PositionTicks'' ?st) as_i64 = Some 0"
    by (simp add: jget_json_obj json_int_def)
  have e: "syncplay_duration_to_ticks 1000000000 = 10000000"
    by (simp add: syncplay_duration_to_ticks_def trunc_div_def clamp_i64_def)
  have "jget ''IsCorrectionRequired'' t = Some (JBool True)"
    using syncplay_drift_correction [OF t] unfolding p w s by (simp add: e Let_def clamp_i64_def)
  with t show ?thesis by simp
qed

end
