(* ===== verification/Sync_Play.thy ===== *)
theory Sync_Play
  imports Auth Sync_Play_State
begin

text \<open>
  SyncPlay groups (\<open>crates/jellyrin-api/src/syncplay_types.rs\<close>, \<open>lib.rs\<close> 18831--19324 and
  19578--19608). The groups are one hash map behind one lock; every function here that takes the map
  and returns it is one critical section, and a handler is the sequence of its sections. Broadcast
  messages are collected in order, before the sender adds a fresh message id to each. A handler reads
  the clock several times; the model gives its reads one value.
\<close>

section \<open>Groups and participants\<close>

record sp_participant =
  pt_user_id :: uuid
  pt_user_name :: string
  pt_session_id :: string
  pt_device_id :: string
  pt_is_ready :: bool
  pt_is_buffering :: bool
  pt_last_seen_at :: int

record sp_group =
  gr_id :: string
  gr_name :: string
  gr_owner_user_id :: uuid
  gr_participants :: "(string, sp_participant) bmap"
  gr_state :: json
  gr_command_sequence :: nat
  gr_updated_at :: int

type_synonym sp_groups = "(string, sp_group) hmap"
type_synonym sp_messages = "(string \<times> json) list"

definition syncplay_participant :: "user \<Rightarrow> device_token \<Rightarrow> int \<Rightarrow> sp_participant" where
  "syncplay_participant u token now =
     \<lparr> pt_user_id = user_id u, pt_user_name = user_name u, pt_session_id = token_access_token token,
       pt_device_id = token_device_id token, pt_is_ready = False, pt_is_buffering = False,
       pt_last_seen_at = now \<rparr>"

definition user_can_create_syncplay_group :: "user \<Rightarrow> bool" where
  "user_can_create_syncplay_group u = eq_ignore_case (user_sync_play_access u) ''CreateAndJoinGroups''"

definition user_can_join_syncplay_group :: "user \<Rightarrow> bool" where
  "user_can_join_syncplay_group u \<longleftrightarrow>
     to_ascii_lowercase (user_sync_play_access u) \<in> {''createandjoingroups'', ''joingroups''}"

definition require_syncplay_create_access :: "user \<Rightarrow> api_error + unit" where
  "require_syncplay_create_access u =
     (if user_can_create_syncplay_group u then Inr ()
      else Inl (forbidden ''User cannot create SyncPlay groups''))"

definition require_syncplay_join_access :: "user \<Rightarrow> api_error + unit" where
  "require_syncplay_join_access u =
     (if user_can_join_syncplay_group u then Inr ()
      else Inl (forbidden ''User cannot join SyncPlay groups''))"

definition syncplay_insert_participant ::
  "sp_participant \<Rightarrow> (string, sp_participant) bmap \<Rightarrow> (string, sp_participant) bmap" where
  "syncplay_insert_participant p ps =
     bt_insert (pt_session_id p) p
       (bt_retain (\<lambda>sid e. sid = pt_session_id p \<or> pt_user_id e \<noteq> pt_user_id p \<or>
          pt_device_id e \<noteq> pt_device_id p) ps)"

text \<open>The time-out for stale participants, in nanoseconds, from the environment variable.\<close>

definition syncplay_stale_timeout :: "string option \<Rightarrow> int" where
  "syncplay_stale_timeout env =
     unwrap_or 120000 (opt_filter (\<lambda>v. 0 < v) (Option.bind env (\<lambda>v. parse_i64 (trim v)))) * 1000000"

text \<open>Uuids appear in JSON in their text form, whose rendering is the \<open>uuid\<close> crate's.\<close>

record sp_env =
  env_clock :: clock_ops
  env_show_uuid :: "uuid \<Rightarrow> string"

definition participant_json :: "sp_env \<Rightarrow> uuid \<Rightarrow> sp_participant \<Rightarrow> json" where
  "participant_json env owner p = json_obj
     [(''UserId'', JStr (env_show_uuid env (pt_user_id p))),
      (''UserName'', JStr (pt_user_name p)),
      (''SessionId'', JStr (pt_session_id p)),
      (''DeviceId'', JStr (pt_device_id p)),
      (''IsGroupOwner'', JBool (pt_user_id p = owner)),
      (''IsReady'', JBool (pt_is_ready p)),
      (''IsBuffering'', JBool (pt_is_buffering p)),
      (''LastSeenDate'', JStr (ck_format (env_clock env) (pt_last_seen_at p)))]"

definition syncplay_group_json :: "sp_env \<Rightarrow> sp_group \<Rightarrow> json" where
  "syncplay_group_json env g = json_obj
     [(''GroupId'', JStr (gr_id g)), (''Id'', JStr (gr_id g)),
      (''GroupName'', JStr (gr_name g)), (''Name'', JStr (gr_name g)),
      (''Participants'', JArr (map (\<lambda>(_, p). participant_json env (gr_owner_user_id g) p) (gr_participants g))),
      (''State'', gr_state g),
      (''CommandSequence'', json_nat (gr_command_sequence g)),
      (''LastActivityDate'', JStr (ck_format (env_clock env) (gr_updated_at g)))]"

section \<open>Messages\<close>

definition broadcast_syncplay_group_update :: "string list \<Rightarrow> json \<Rightarrow> string \<Rightarrow> sp_messages" where
  "broadcast_syncplay_group_update sessions gj reason =
     map (\<lambda>sid. (sid, json_obj
       [(''MessageType'', JStr ''SyncPlayGroupUpdate''),
        (''Data'', json_obj
           [(''Reason'', JStr reason), (''Command'', JStr reason), (''Payload'', json_obj []),
            (''GroupId'', jindex gj ''GroupId''), (''Group'', gj)])])) sessions"

definition broadcast_syncplay_group_updates :: "(json \<times> string list) list \<Rightarrow> string \<Rightarrow> sp_messages" where
  "broadcast_syncplay_group_updates updates reason =
     concat (map (\<lambda>(gj, sessions). broadcast_syncplay_group_update sessions gj reason) updates)"

definition syncplay_command_from_uri :: "string \<Rightarrow> string" where
  "syncplay_command_from_uri path =
     unwrap_or ''Command'' (opt_filter (\<lambda>s. s \<noteq> [])
       (Some (last (split_on (CHR ''/'') (trim_char (CHR ''/'') path)))))"

definition syncplay_command_message_payload ::
  "clock_ops \<Rightarrow> string \<Rightarrow> string \<Rightarrow> json \<Rightarrow> json \<Rightarrow> int \<Rightarrow> nat \<Rightarrow> json" where
  "syncplay_command_message_payload ck group_id command payload gj now seq =
     (let emitted_at = ck_format ck now;
          state = jindex gj ''State'';
          item = unwrap_or (unwrap_or '''' (as_str (jindex state ''PlaylistItemId'')))
                   (json_string_any_field payload [''PlaylistItemId'', ''ItemId''])
      in json_obj
           [(''GroupId'', JStr group_id), (''Command'', JStr command), (''Payload'', payload),
            (''Group'', gj),
            (''When'', JStr (unwrap_or emitted_at (json_string_any_field payload [''When'', ''when'']))),
            (''EmittedAt'', JStr emitted_at), (''CommandSequence'', json_nat seq),
            (''Timeline'', jindex state ''Timeline''), (''DriftTicks'', jindex state ''DriftTicks''),
            (''CorrectionPositionTicks'', jindex state ''CorrectionPositionTicks''),
            (''PositionTicks'', json_opt json_int (syncplay_position_ticks_from_payload payload)),
            (''PlaylistItemId'', JStr item)])"

section \<open>Sweeping all groups\<close>

text \<open>
  Leaving and the stale sweep visit every group, collect the ids of those that became empty and
  remove them afterwards; the groups that changed and live on are announced.
\<close>

datatype group_change = Unchanged | Emptied sp_group | Changed sp_group

fun changed_group :: "sp_group \<Rightarrow> group_change \<Rightarrow> sp_group" where
  "changed_group g Unchanged = g"
| "changed_group g (Emptied h) = h"
| "changed_group g (Changed h) = h"

definition sweep_groups ::
  "sp_env \<Rightarrow> (sp_group \<Rightarrow> group_change) \<Rightarrow> sp_groups \<Rightarrow> sp_groups \<times> (json \<times> string list) list" where
  "sweep_groups env f groups =
     (let empty_ids = List.map_filter (\<lambda>(_, g). case f g of Emptied h \<Rightarrow> Some (gr_id h) | _ \<Rightarrow> None) groups;
          updates = List.map_filter (\<lambda>(_, g). case f g of
              Changed h \<Rightarrow> Some (syncplay_group_json env h, map fst (gr_participants h)) | _ \<Rightarrow> None) groups
      in (foldl (\<lambda>m i. hm_remove i m) (map (\<lambda>(k, g). (k, changed_group g (f g))) groups) empty_ids, updates))"

definition hand_over :: "bool \<Rightarrow> sp_group \<Rightarrow> sp_group" where
  "hand_over owner_left g =
     (case gr_participants g of
        (_, first) # _ \<Rightarrow> if owner_left then g\<lparr> gr_owner_user_id := pt_user_id first \<rparr> else g
      | [] \<Rightarrow> g)"

definition detach_session :: "string \<Rightarrow> string option \<Rightarrow> int \<Rightarrow> sp_group \<Rightarrow> group_change" where
  "detach_session session except now g =
     (if is_some_and (\<lambda>i. gr_id g = i) except then Unchanged
      else case map_of (gr_participants g) session of
        None \<Rightarrow> Unchanged
      | Some removed \<Rightarrow>
          (let h = g\<lparr> gr_participants := bt_remove session (gr_participants g), gr_updated_at := now \<rparr>
           in if gr_participants h = [] then Emptied h
              else Changed (hand_over (pt_user_id removed = gr_owner_user_id g) h)))"

definition syncplay_detach_session_from_groups ::
  "sp_env \<Rightarrow> string \<Rightarrow> string option \<Rightarrow> int \<Rightarrow> sp_groups \<Rightarrow> sp_groups \<times> (json \<times> string list) list" where
  "syncplay_detach_session_from_groups env session except now =
     sweep_groups env (detach_session session except now)"

definition stale_sessions :: "int \<Rightarrow> int \<Rightarrow> sp_group \<Rightarrow> string list" where
  "stale_sessions timeout now g =
     map fst (filter (\<lambda>(_, p). timeout < now - pt_last_seen_at p) (gr_participants g))"

definition drop_stale :: "int \<Rightarrow> int \<Rightarrow> sp_group \<Rightarrow> group_change" where
  "drop_stale timeout now g =
     (let stale = stale_sessions timeout now g
      in if stale = [] then Unchanged
         else
           (let owner_removed = list_ex (\<lambda>s. is_some_and (\<lambda>p. pt_user_id p = gr_owner_user_id g)
                  (map_of (gr_participants g) s)) stale;
                h = g\<lparr> gr_participants := foldl (\<lambda>ps s. bt_remove s ps) (gr_participants g) stale,
                       gr_updated_at := now \<rparr>
            in if gr_participants h = [] then Emptied h else Changed (hand_over owner_removed h)))"

definition syncplay_cleanup_stale_participants ::
  "sp_env \<Rightarrow> int \<Rightarrow> int \<Rightarrow> string \<Rightarrow> sp_groups \<Rightarrow> sp_groups \<times> sp_messages" where
  "syncplay_cleanup_stale_participants env timeout now reason groups =
     (case sweep_groups env (drop_stale timeout now) groups of
        (groups, updates) \<Rightarrow> (groups, broadcast_syncplay_group_updates updates reason))"

definition syncplay_remove_session ::
  "sp_env \<Rightarrow> string \<Rightarrow> string \<Rightarrow> int \<Rightarrow> sp_groups \<Rightarrow> sp_groups \<times> sp_messages" where
  "syncplay_remove_session env session reason now groups =
     (case syncplay_detach_session_from_groups env session None now groups of
        (groups, updates) \<Rightarrow> (groups, broadcast_syncplay_group_updates updates reason))"

section \<open>Creating, joining, commanding\<close>

definition initial_state :: json where
  "initial_state = json_obj
     [(''PlayState'', JStr ''Idle''), (''PositionTicks'', json_int 0), (''IsPaused'', JBool False),
      (''CommandSequence'', json_nat 0), (''Queue'', JArr [])]"

definition new_group :: "user \<Rightarrow> device_token \<Rightarrow> json \<Rightarrow> string \<Rightarrow> int \<Rightarrow> sp_group" where
  "new_group u token payload fresh_id now =
     \<lparr> gr_id = unwrap_or fresh_id (json_string_any_field payload [''GroupId'', ''Id'']),
       gr_name = unwrap_or (user_name u @ [CHR 0x27] @ ''s group'')
                   (json_string_any_field payload [''Name'', ''GroupName'']),
       gr_owner_user_id = user_id u,
       gr_participants = syncplay_insert_participant (syncplay_participant u token now) [],
       gr_state = initial_state, gr_command_sequence = 0, gr_updated_at = now \<rparr>"

definition create_group ::
  "sp_env \<Rightarrow> user \<Rightarrow> device_token \<Rightarrow> json \<Rightarrow> string \<Rightarrow> int \<Rightarrow> sp_groups \<Rightarrow> sp_groups \<times> sp_messages \<times> json" where
  "create_group env u token payload fresh_id now groups =
     (let g = new_group u token payload fresh_id now
      in case syncplay_detach_session_from_groups env (token_access_token token) None now groups of
           (groups, updates) \<Rightarrow>
             (hm_insert (gr_id g) g groups, broadcast_syncplay_group_updates updates ''Leave'',
              syncplay_group_json env g))"

definition join_group ::
  "sp_env \<Rightarrow> user \<Rightarrow> device_token \<Rightarrow> string \<Rightarrow> int \<Rightarrow> sp_groups \<Rightarrow>
   (sp_groups \<times> sp_messages \<times> (api_error + json)) option" where
  "join_group env u token group_id now groups =
     (if \<not> hm_contains (trim group_id) groups
      then Some (groups, [], Inl (not_found ''SyncPlay group not found''))
      else case syncplay_detach_session_from_groups env (token_access_token token) (Some (trim group_id)) now groups of
        (groups, updates) \<Rightarrow>
          (case map_of groups (trim group_id) of
             None \<Rightarrow> None
           | Some g \<Rightarrow>
               (let g = g\<lparr> gr_participants := syncplay_insert_participant (syncplay_participant u token now)
                                                 (gr_participants g), gr_updated_at := now \<rparr>;
                    gj = syncplay_group_json env g
                in Some (hm_insert (trim group_id) g groups,
                     broadcast_syncplay_group_updates updates ''Leave'' @
                     broadcast_syncplay_group_update (map fst (gr_participants g)) gj ''Join'', Inr gj))))"

definition touch_participant :: "string \<Rightarrow> int \<Rightarrow> sp_group \<Rightarrow> sp_group" where
  "touch_participant session now g =
     (case map_of (gr_participants g) session of
        None \<Rightarrow> g
      | Some p \<Rightarrow> g\<lparr> gr_participants := bt_insert session (p\<lparr> pt_last_seen_at := now \<rparr>) (gr_participants g) \<rparr>)"

definition ping_groups :: "sp_env \<Rightarrow> string \<Rightarrow> int \<Rightarrow> sp_groups \<Rightarrow> sp_groups \<times> sp_messages" where
  "ping_groups env session now groups =
     (case sweep_groups env (\<lambda>g. if map_of (gr_participants g) session = None then Unchanged
               else Changed ((touch_participant session now g)\<lparr> gr_updated_at := now \<rparr>)) groups of
        (groups, updates) \<Rightarrow> (groups, broadcast_syncplay_group_updates updates ''Ping''))"

definition participant_command :: "string \<Rightarrow> json \<Rightarrow> sp_participant \<Rightarrow> sp_participant" where
  "participant_command name payload p =
     (if name = ''ready'' then
        p\<lparr> pt_is_ready := unwrap_or True
               (Option.bind (opt_or (jget ''IsReady'' payload) (jget ''Ready'' payload)) as_bool),
           pt_is_buffering := False \<rparr>
      else if name = ''buffering'' then
        (let b = unwrap_or True
               (Option.bind (opt_or (jget ''IsBuffering'' payload) (jget ''Buffering'' payload)) as_bool)
         in p\<lparr> pt_is_buffering := b, pt_is_ready := (if b then False else pt_is_ready p) \<rparr>)
      else if name \<in> {''pause'', ''unpause'', ''seek'', ''stop''} then p\<lparr> pt_is_buffering := False \<rparr>
      else p)"

definition syncplay_apply_participant_command ::
  "string \<Rightarrow> string \<Rightarrow> json \<Rightarrow> int \<Rightarrow> sp_group \<Rightarrow> sp_group" where
  "syncplay_apply_participant_command session command payload now g =
     (case map_of (gr_participants g) session of
        None \<Rightarrow> g
      | Some p \<Rightarrow>
          g\<lparr> gr_participants := bt_insert session
               (participant_command (to_ascii_lowercase command) payload (p\<lparr> pt_last_seen_at := now \<rparr>))
               (gr_participants g) \<rparr>)"

definition command_group ::
  "sp_env \<Rightarrow> string \<Rightarrow> string \<Rightarrow> json \<Rightarrow> int \<Rightarrow> sp_group \<Rightarrow> sp_group" where
  "command_group env session command payload now g =
     (let g = syncplay_apply_participant_command session command payload now (touch_participant session now g);
          seq = sat_add u64_max (gr_command_sequence g) 1
      in g\<lparr> gr_command_sequence := seq,
            gr_state := syncplay_apply_command_to_state (env_clock env) (gr_state g) command payload now seq,
            gr_updated_at := now \<rparr>)"

text \<open>\<open>values_mut().find\<close>: the first group in iteration order that holds the session.\<close>

definition group_of_session :: "string \<Rightarrow> sp_groups \<Rightarrow> (string \<times> sp_group) option" where
  "group_of_session session groups =
     find (\<lambda>(_, g). map_of (gr_participants g) session \<noteq> None) groups"

definition run_command ::
  "sp_env \<Rightarrow> string \<Rightarrow> string \<Rightarrow> json \<Rightarrow> int \<Rightarrow> sp_groups \<Rightarrow> sp_groups \<times> sp_messages \<times> (api_error + unit)" where
  "run_command env session command payload now groups =
     (case group_of_session session groups of
        None \<Rightarrow> (groups, [], Inl (not_found ''SyncPlay group not found''))
      | Some (k, g) \<Rightarrow>
          (let h = command_group env session command payload now g;
               gj = syncplay_group_json env h
           in (hm_insert k h groups,
               map (\<lambda>sid. (sid, json_obj
                 [(''MessageType'', JStr ''SyncPlayCommand''),
                  (''Data'', syncplay_command_message_payload (env_clock env) (gr_id h) command payload gj now
                     (gr_command_sequence h))])) (map fst (gr_participants h)),
               Inr ())))"


section \<open>Handlers\<close>

text \<open>
  A request as the handlers see it: the answer of \<open>require_user\<close> and the body, read within its limit
  and not yet parsed; \<open>parse\<close> is \<open>serde_json\<close>'s.
\<close>

record sp_request =
  rq_auth :: "api_error + user \<times> device_token"
  rq_body :: "api_error + string"

definition optional_json_body :: "(string \<Rightarrow> json option) \<Rightarrow> api_error + string \<Rightarrow> api_error + json" where
  "optional_json_body parse body =
     (case body of
        Inl e \<Rightarrow> Inl e
      | Inr bytes \<Rightarrow>
          if bytes = [] then Inr (json_obj [])
          else (case parse bytes of Some v \<Rightarrow> Inr v | None \<Rightarrow> Inl (bad_request ''Invalid JSON body'')))"

record sp_server =
  sv_env :: sp_env
  sv_parse :: "string \<Rightarrow> json option"
  sv_timeout :: int

type_synonym 'a sp_answer = "sp_groups \<times> sp_messages \<times> (api_error + 'a)"

definition sweep_stale :: "sp_server \<Rightarrow> int \<Rightarrow> sp_groups \<Rightarrow> sp_groups \<times> sp_messages" where
  "sweep_stale sv now groups =
     syncplay_cleanup_stale_participants (sv_env sv) (sv_timeout sv) now ''Stale'' groups"

definition syncplay_list :: "sp_server \<Rightarrow> api_error + user \<Rightarrow> int \<Rightarrow> sp_groups \<Rightarrow> json list sp_answer" where
  "syncplay_list sv auth now groups =
     (case auth of
        Inl e \<Rightarrow> (groups, [], Inl e)
      | Inr _ \<Rightarrow> (case sweep_stale sv now groups of
          (groups, sent) \<Rightarrow> (groups, sent, Inr (map (\<lambda>(_, g). syncplay_group_json (sv_env sv) g) groups))))"

definition syncplay_group :: "sp_server \<Rightarrow> api_error + user \<Rightarrow> string \<Rightarrow> int \<Rightarrow> sp_groups \<Rightarrow> json sp_answer" where
  "syncplay_group sv auth group_id now groups =
     (case auth of
        Inl e \<Rightarrow> (groups, [], Inl e)
      | Inr _ \<Rightarrow> (case sweep_stale sv now groups of
          (groups, sent) \<Rightarrow> (groups, sent,
            case map_of groups (trim group_id) of
              None \<Rightarrow> Inl (not_found ''SyncPlay group not found'')
            | Some g \<Rightarrow> Inr (syncplay_group_json (sv_env sv) g))))"

definition syncplay_new :: "sp_server \<Rightarrow> sp_request \<Rightarrow> string \<Rightarrow> int \<Rightarrow> sp_groups \<Rightarrow> json sp_answer" where
  "syncplay_new sv rq fresh_id now groups =
     (case rq_auth rq of
        Inl e \<Rightarrow> (groups, [], Inl e)
      | Inr (u, token) \<Rightarrow>
          (case require_syncplay_create_access u of
             Inl e \<Rightarrow> (groups, [], Inl e)
           | Inr _ \<Rightarrow>
               (case sweep_stale sv now groups of
                  (groups, sent) \<Rightarrow>
                    (case optional_json_body (sv_parse sv) (rq_body rq) of
                       Inl e \<Rightarrow> (groups, sent, Inl e)
                     | Inr payload \<Rightarrow>
                         (case create_group (sv_env sv) u token payload fresh_id now groups of
                            (groups, sent', gj) \<Rightarrow> (groups, sent @ sent', Inr gj))))))"

definition syncplay_join :: "sp_server \<Rightarrow> sp_request \<Rightarrow> int \<Rightarrow> sp_groups \<Rightarrow> json sp_answer option" where
  "syncplay_join sv rq now groups =
     (case rq_auth rq of
        Inl e \<Rightarrow> Some (groups, [], Inl e)
      | Inr (u, token) \<Rightarrow>
          (case require_syncplay_join_access u of
             Inl e \<Rightarrow> Some (groups, [], Inl e)
           | Inr _ \<Rightarrow>
               (case sweep_stale sv now groups of
                  (groups, sent) \<Rightarrow>
                    (case optional_json_body (sv_parse sv) (rq_body rq) of
                       Inl e \<Rightarrow> Some (groups, sent, Inl e)
                     | Inr payload \<Rightarrow>
                         (case json_string_any_field payload [''GroupId'', ''Id''] of
                            None \<Rightarrow> Some (groups, sent, Inl (bad_request ''SyncPlay group id is required''))
                          | Some group_id \<Rightarrow>
                              map_option (\<lambda>(groups, sent', r). (groups, sent @ sent', r))
                                (join_group (sv_env sv) u token group_id now groups))))))"

definition syncplay_leave :: "sp_server \<Rightarrow> sp_request \<Rightarrow> int \<Rightarrow> sp_groups \<Rightarrow> unit sp_answer" where
  "syncplay_leave sv rq now groups =
     (case rq_auth rq of
        Inl e \<Rightarrow> (groups, [], Inl e)
      | Inr (u, token) \<Rightarrow>
          (case syncplay_remove_session (sv_env sv) (token_access_token token) ''Leave'' now groups of
             (groups, sent) \<Rightarrow> (groups, sent, Inr ())))"

definition syncplay_ping :: "sp_server \<Rightarrow> sp_request \<Rightarrow> int \<Rightarrow> sp_groups \<Rightarrow> unit sp_answer" where
  "syncplay_ping sv rq now groups =
     (case rq_auth rq of
        Inl e \<Rightarrow> (groups, [], Inl e)
      | Inr (u, token) \<Rightarrow>
          (case ping_groups (sv_env sv) (token_access_token token) now groups of
             (groups, sent) \<Rightarrow>
               (case sweep_stale sv now groups of (groups, sent') \<Rightarrow> (groups, sent @ sent', Inr ()))))"

definition syncplay_group_command ::
  "sp_server \<Rightarrow> sp_request \<Rightarrow> string \<Rightarrow> int \<Rightarrow> sp_groups \<Rightarrow> unit sp_answer" where
  "syncplay_group_command sv rq path now groups =
     (case rq_auth rq of
        Inl e \<Rightarrow> (groups, [], Inl e)
      | Inr (u, token) \<Rightarrow>
          (case optional_json_body (sv_parse sv) (rq_body rq) of
             Inl e \<Rightarrow> (groups, [], Inl e)
           | Inr payload \<Rightarrow>
               (case run_command (sv_env sv) (token_access_token token) (syncplay_command_from_uri path)
                       payload now groups of
                  (groups, sent, Inl e) \<Rightarrow> (groups, sent, Inl e)
                | (groups, sent, Inr _) \<Rightarrow>
                    (case sweep_stale sv now groups of (groups, sent') \<Rightarrow> (groups, sent @ sent', Inr ())))))"

section \<open>The invariant\<close>

definition sessions :: "sp_group \<Rightarrow> string set" where
  "sessions g = fst ` set (gr_participants g)"

definition group_ok :: "(string \<Rightarrow> uuid) \<Rightarrow> sp_group \<Rightarrow> bool" where
  "group_ok hl g \<longleftrightarrow>
     bt_ok (gr_participants g) \<and>
     (\<forall>(s, p) \<in> set (gr_participants g). pt_session_id p = s \<and> pt_user_id p = hl s) \<and>
     gr_owner_user_id g \<in> (\<lambda>(s, p). pt_user_id p) ` set (gr_participants g) \<and>
     bt_ok (state_object (gr_state g)) \<and>
     jget ''CommandSequence'' (gr_state g) = Some (json_nat (gr_command_sequence g))"

definition groups_ok :: "(string \<Rightarrow> uuid) \<Rightarrow> sp_groups \<Rightarrow> bool" where
  "groups_ok hl gs \<longleftrightarrow>
     hm_ok gs \<and>
     (\<forall>k g. map_of gs k = Some g \<longrightarrow> gr_id g = k \<and> group_ok hl g) \<and>
     (\<forall>k g k' g'. map_of gs k = Some g \<longrightarrow> map_of gs k' = Some g' \<longrightarrow> k \<noteq> k' \<longrightarrow> sessions g \<inter> sessions g' = {})"

fun change_ok :: "(string \<Rightarrow> uuid) \<Rightarrow> sp_group \<Rightarrow> group_change \<Rightarrow> bool" where
  "change_ok hl g Unchanged = True"
| "change_ok hl g (Emptied h) = (gr_id h = gr_id g)"
| "change_ok hl g (Changed h) = (gr_id h = gr_id g \<and> group_ok hl h \<and> sessions h \<subseteq> sessions g)"

definition survivor :: "sp_group \<Rightarrow> group_change \<Rightarrow> sp_group option" where
  "survivor g c = (case c of Emptied _ \<Rightarrow> None | _ \<Rightarrow> Some (changed_group g c))"

text \<open>The contract of one group's part in a sweep, and what the sweep then keeps.\<close>

locale group_sweep =
  fixes hl :: "string \<Rightarrow> uuid" and f :: "sp_group \<Rightarrow> group_change"
  assumes change: "group_ok hl g \<Longrightarrow> change_ok hl g (f g)"
begin

lemma same_id: "group_ok hl g \<Longrightarrow> gr_id (changed_group g (f g)) = gr_id g"
  using change [of g] by (cases "f g") auto

lemma survivor_ok:
  "group_ok hl g \<Longrightarrow> survivor g (f g) = Some h \<Longrightarrow> gr_id h = gr_id g \<and> group_ok hl h \<and> sessions h \<subseteq> sessions g"
  using change [of g] by (cases "f g") (auto simp: survivor_def)

end

lemma map_of_foldl_remove: "map_of (foldl (\<lambda>m i. hm_remove i m) m is) k = (if k \<in> set is then None else map_of m k)"
  by (induction "is" arbitrary: m) auto

lemma hm_ok_foldl_remove: "hm_ok m \<Longrightarrow> hm_ok (foldl (\<lambda>m i. hm_remove i m) m is)"
  by (induction "is" arbitrary: m) auto

lemma map_of_map_snd: "map_of (map (\<lambda>(k, v). (k, f v)) m) k = map_option f (map_of m k)"
  by (induction m) auto

lemma set_map_filter: "set (List.map_filter f xs) = {y. \<exists>x \<in> set xs. f x = Some y}"
  by (force simp: List.map_filter_def)

context group_sweep
begin

lemma sweep_lookup:
  assumes "groups_ok hl gs"
  shows "map_of (fst (sweep_groups env f gs)) k = Option.bind (map_of gs k) (\<lambda>g. survivor g (f g))"
proof -
  let ?ids = "List.map_filter (\<lambda>(_, g). case f g of Emptied h \<Rightarrow> Some (gr_id h) | _ \<Rightarrow> None) gs"
  have ids: "k \<in> set ?ids \<longleftrightarrow> (\<exists>g h. map_of gs k = Some g \<and> f g = Emptied h)"
  proof
    assume "k \<in> set ?ids"
    then obtain j g h where g: "(j, g) \<in> set gs" "f g = Emptied h" "gr_id h = k"
      by (auto simp: set_map_filter split: group_change.splits)
    then have m: "map_of gs j = Some g" using assms by (simp add: groups_ok_def hm_ok_def)
    then have "group_ok hl g" "gr_id g = j" using assms by (auto simp: groups_ok_def)
    then have "j = k" using change [of g] g by simp
    then show "\<exists>g h. map_of gs k = Some g \<and> f g = Emptied h" using m g by blast
  next
    assume "\<exists>g h. map_of gs k = Some g \<and> f g = Emptied h"
    then obtain g h where g: "map_of gs k = Some g" "f g = Emptied h" by blast
    then have "group_ok hl g" "gr_id g = k" using assms by (auto simp: groups_ok_def)
    then have "gr_id h = k" using change [of g] g by simp
    then show "k \<in> set ?ids" using g map_of_SomeD [OF g(1)] by (force simp: set_map_filter)
  qed
  show ?thesis
    by (cases "map_of gs k")
      (auto simp: sweep_groups_def Let_def map_of_foldl_remove ids map_of_map_snd survivor_def split: group_change.splits)
qed

lemma sweep_hm_ok: "hm_ok gs \<Longrightarrow> hm_ok (fst (sweep_groups env f gs))"
  unfolding sweep_groups_def Let_def fst_conv
  by (rule hm_ok_foldl_remove) (simp add: hm_ok_def comp_def split_def)

lemma sweep_ok:
  assumes "groups_ok hl gs"
  shows "groups_ok hl (fst (sweep_groups env f gs))"
proof -
  have look: "\<exists>g. map_of gs k = Some g \<and> gr_id h = gr_id g \<and> gr_id g = k \<and> group_ok hl h \<and> sessions h \<subseteq> sessions g"
    if "map_of (fst (sweep_groups env f gs)) k = Some h" for k h
  proof -
    from that obtain g where g: "map_of gs k = Some g" "survivor g (f g) = Some h"
      by (auto simp: sweep_lookup [OF assms] bind_eq_Some_conv)
    then have "group_ok hl g" "gr_id g = k" using assms by (auto simp: groups_ok_def)
    with g survivor_ok [of g h] show ?thesis by auto
  qed
  show ?thesis
    unfolding groups_ok_def
  proof (intro conjI allI impI)
    show "hm_ok (fst (sweep_groups env f gs))" using assms by (simp add: sweep_hm_ok groups_ok_def)
  next
    fix k h assume "map_of (fst (sweep_groups env f gs)) k = Some h"
    from look [OF this] show "gr_id h = k" "group_ok hl h" by auto
  next
    fix k h k' h'
    assume a: "map_of (fst (sweep_groups env f gs)) k = Some h" "map_of (fst (sweep_groups env f gs)) k' = Some h'"
      and "k \<noteq> k'"
    obtain g g' where "map_of gs k = Some g" "map_of gs k' = Some g'" "sessions h \<subseteq> sessions g" "sessions h' \<subseteq> sessions g'"
      using look [OF a(1)] look [OF a(2)] by auto
    moreover from this have "sessions g \<inter> sessions g' = {}" using assms \<open>k \<noteq> k'\<close> by (auto simp: groups_ok_def)
    ultimately show "sessions h \<inter> sessions h' = {}" by blast
  qed
qed

end


section \<open>The sweeps meet the contract\<close>

lemma hand_over_fields [simp]:
  "gr_id (hand_over b g) = gr_id g" "gr_participants (hand_over b g) = gr_participants g"
  "gr_state (hand_over b g) = gr_state g" "gr_command_sequence (hand_over b g) = gr_command_sequence g"
  "gr_updated_at (hand_over b g) = gr_updated_at g"
  by (simp_all add: hand_over_def split: list.split prod.split)

lemma hand_over_owner:
  "gr_participants g \<noteq> [] \<Longrightarrow> gr_owner_user_id (hand_over True g) \<in> (\<lambda>(s, p). pt_user_id p) ` set (gr_participants g)"
  by (cases "gr_participants g") (auto simp: hand_over_def)

lemma hand_over_kept [simp]: "gr_owner_user_id (hand_over False g) = gr_owner_user_id g"
  by (simp add: hand_over_def split: list.split prod.split)

text \<open>Participants leave; if the owner is among them the group is handed over.\<close>

lemma shrink_ok:
  assumes "group_ok hl g" "set ps \<subseteq> set (gr_participants g)" "bt_ok ps" "ps \<noteq> []"
    and "\<not> b \<Longrightarrow> \<forall>(s, p) \<in> set (gr_participants g) - set ps. pt_user_id p \<noteq> gr_owner_user_id g"
  shows "change_ok hl g (Changed (hand_over b (g\<lparr> gr_participants := ps, gr_updated_at := now \<rparr>)))"
proof -
  have owner: "gr_owner_user_id (hand_over b (g\<lparr> gr_participants := ps, gr_updated_at := now \<rparr>)) \<in> (\<lambda>(s, p). pt_user_id p) ` set ps"
  proof (cases b)
    case True
    then show ?thesis
      using hand_over_owner [of "g\<lparr> gr_participants := ps, gr_updated_at := now \<rparr>"] assms(4) by simp
  next
    case False
    obtain s p where "(s, p) \<in> set (gr_participants g)" "pt_user_id p = gr_owner_user_id g"
      using assms(1) by (auto simp: group_ok_def)
    with assms(5) False have "(s, p) \<in> set ps" by auto
    with False \<open>pt_user_id p = gr_owner_user_id g\<close> show ?thesis by force
  qed
  with assms show ?thesis by (auto simp: group_ok_def sessions_def)
qed

lemma bt_memD: "bt_ok m \<Longrightarrow> (k, v) \<in> set m \<Longrightarrow> map_of m k = Some v"
  by (simp add: bt_ok_hm_ok hm_get_mem)

lemma detach_session_change: "group_ok hl g \<Longrightarrow> change_ok hl g (detach_session session except now g)"
proof -
  assume g: "group_ok hl g"
  then have ok: "bt_ok (gr_participants g)" by (simp add: group_ok_def)
  have "change_ok hl g (Changed (hand_over (pt_user_id removed = gr_owner_user_id g)
        (g\<lparr> gr_participants := bt_remove session (gr_participants g), gr_updated_at := now \<rparr>)))"
    if r: "map_of (gr_participants g) session = Some removed" and ne: "bt_remove session (gr_participants g) \<noteq> []"
    for removed
  proof (rule shrink_ok [OF g _ _ ne])
    show "set (bt_remove session (gr_participants g)) \<subseteq> set (gr_participants g)" by (auto simp: bt_remove_def)
    show "bt_ok (bt_remove session (gr_participants g))" using ok by simp
    show "\<forall>(s, p) \<in> set (gr_participants g) - set (bt_remove session (gr_participants g)). pt_user_id p \<noteq> gr_owner_user_id g"
      if "pt_user_id removed \<noteq> gr_owner_user_id g"
      using that r ok by (auto simp: bt_remove_def dest: bt_memD)
  qed
  then show ?thesis by (auto simp: detach_session_def Let_def split: option.split)
qed

lemma foldl_bt_remove: "foldl (\<lambda>ps s. bt_remove s ps) ps ss = filter (\<lambda>(s, p). s \<notin> set ss) ps"
  by (induction ss arbitrary: ps) (auto simp: bt_remove_def intro!: filter_cong)

lemma drop_stale_change: "group_ok hl g \<Longrightarrow> change_ok hl g (drop_stale timeout now g)"
proof -
  assume g: "group_ok hl g"
  then have ok: "bt_ok (gr_participants g)" by (simp add: group_ok_def)
  let ?ss = "stale_sessions timeout now g"
  let ?ps = "filter (\<lambda>(s, p). s \<notin> set ?ss) (gr_participants g)"
  let ?b = "list_ex (\<lambda>s. is_some_and (\<lambda>p. pt_user_id p = gr_owner_user_id g) (map_of (gr_participants g) s)) ?ss"
  have "change_ok hl g (Changed (hand_over ?b (g\<lparr> gr_participants := ?ps, gr_updated_at := now \<rparr>)))" if ne: "?ps \<noteq> []"
  proof (rule shrink_ok [OF g _ _ ne])
    show "set ?ps \<subseteq> set (gr_participants g)" by auto
    show "bt_ok ?ps" using ok by (rule bt_ok_filter)
    show "\<forall>(s, p) \<in> set (gr_participants g) - set ?ps. pt_user_id p \<noteq> gr_owner_user_id g" if "\<not> ?b"
      using that ok by (auto simp: list_ex_iff) (metis bt_memD opt_simps(8))
  qed
  then show ?thesis by (auto simp: drop_stale_def Let_def foldl_bt_remove)
qed

lemma update_participant_ok:
  assumes "group_ok hl g" "map_of (gr_participants g) s = Some p"
    and "pt_user_id q = pt_user_id p" "pt_session_id q = pt_session_id p"
  shows "group_ok hl (g\<lparr> gr_participants := bt_insert s q (gr_participants g) \<rparr>) \<and>
    sessions (g\<lparr> gr_participants := bt_insert s q (gr_participants g) \<rparr>) = sessions g"
proof -
  have ok: "bt_ok (gr_participants g)" using assms by (simp add: group_ok_def)
  have mem: "(s, p) \<in> set (gr_participants g)" using assms(2) by (rule map_of_SomeD)
  have "gr_owner_user_id g \<in> (\<lambda>(s, p). pt_user_id p) ` set (bt_insert s q (gr_participants g))"
  proof -
    obtain j r where r: "(j, r) \<in> set (gr_participants g)" "pt_user_id r = gr_owner_user_id g"
      using assms(1) by (auto simp: group_ok_def)
    show ?thesis
    proof (cases "j = s")
      case True
      then have "r = p" using r mem ok assms(2) by (simp add: bt_ok_hm_ok flip: hm_get_mem)
      then show ?thesis using r assms(3) by (force simp: set_bt_insert [OF ok])
    next
      case False
      then show ?thesis using r by (force simp: set_bt_insert [OF ok])
    qed
  qed
  moreover have "\<forall>(j, r) \<in> set (bt_insert s q (gr_participants g)). pt_session_id r = j \<and> pt_user_id r = hl j"
    using assms mem by (auto simp: set_bt_insert [OF ok] group_ok_def)
  moreover have "fst ` set (bt_insert s q (gr_participants g)) = fst ` set (gr_participants g)"
    using mem by (force simp: fst_set_bt_insert)
  ultimately show ?thesis using assms(1) ok by (simp add: group_ok_def sessions_def)
qed

lemma touch_participant_ok:
  "group_ok hl g \<Longrightarrow> group_ok hl (touch_participant s now g) \<and> sessions (touch_participant s now g) = sessions g \<and>
     gr_id (touch_participant s now g) = gr_id g \<and>
     gr_command_sequence (touch_participant s now g) = gr_command_sequence g \<and>
     gr_state (touch_participant s now g) = gr_state g"
  using update_participant_ok [of hl g s] by (auto simp: touch_participant_def split: option.split)

lemma group_ok_updated [simp]: "group_ok hl (g\<lparr> gr_updated_at := now \<rparr>) = group_ok hl g"
  "sessions (g\<lparr> gr_updated_at := now \<rparr>) = sessions g"
  by (simp_all add: group_ok_def sessions_def)

interpretation leave: group_sweep hl "detach_session session except now" for hl session except now
  by unfold_locales (rule detach_session_change)

interpretation stale: group_sweep hl "drop_stale timeout now" for hl timeout now
  by unfold_locales (rule drop_stale_change)

interpretation ping: group_sweep hl
  "\<lambda>g. if map_of (gr_participants g) session = None then Unchanged
       else Changed ((touch_participant session now g)\<lparr> gr_updated_at := now \<rparr>)" for hl session now
  by unfold_locales (simp add: touch_participant_ok)


section \<open>Reachable states\<close>

text \<open>
  The critical sections of the handlers as steps: any number of clients interleave them in any
  order. A step may carry any user, token, payload, fresh id and time.
\<close>

datatype sp_step =
    Cleanup int int
  | Detach string int
  | Create user device_token json string int
  | Join user device_token string int
  | Ping string int
  | Command string string json int

fun sp_exec :: "sp_env \<Rightarrow> sp_groups \<Rightarrow> sp_step \<Rightarrow> sp_groups" where
  "sp_exec env gs (Cleanup timeout now) = fst (syncplay_cleanup_stale_participants env timeout now ''Stale'' gs)"
| "sp_exec env gs (Detach session now) = fst (syncplay_remove_session env session ''Leave'' now gs)"
| "sp_exec env gs (Create u token payload fresh_id now) = fst (create_group env u token payload fresh_id now gs)"
| "sp_exec env gs (Join u token group_id now) =
     (case join_group env u token group_id now gs of Some (gs, _) \<Rightarrow> gs | None \<Rightarrow> gs)"
| "sp_exec env gs (Ping session now) = fst (ping_groups env session now gs)"
| "sp_exec env gs (Command session command payload now) = fst (run_command env session command payload now gs)"

lemma groups_ok_empty: "groups_ok hl []"
  by (simp add: groups_ok_def)

lemma groups_ok_insert:
  assumes "groups_ok hl gs" "group_ok hl g" "gr_id g = k"
    and "\<And>j h. map_of gs j = Some h \<Longrightarrow> j \<noteq> k \<Longrightarrow> sessions g \<inter> sessions h = {}"
  shows "groups_ok hl (hm_insert k g gs)"
  using assms by (auto simp: groups_ok_def Int_commute)

text \<open>After a session was detached it is in no group but the excepted one.\<close>

lemma detach_gone:
  assumes "groups_ok hl gs" "map_of (fst (syncplay_detach_session_from_groups env s except now gs)) k = Some g"
    and "except \<noteq> Some k"
  shows "s \<notin> sessions g"
proof -
  obtain h where h: "map_of gs k = Some h" "survivor h (detach_session s except now h) = Some g"
    using assms(1,2) by (auto simp: syncplay_detach_session_from_groups_def leave.sweep_lookup bind_eq_Some_conv)
  then have "gr_id h = k" "group_ok hl h" using assms(1) by (auto simp: groups_ok_def)
  then show ?thesis using h assms(3)
    by (cases except) (auto simp: detach_session_def survivor_def Let_def sessions_def bt_remove_def map_of_eq_None_iff
        split: option.splits if_splits)
qed

lemma detach_ok: "groups_ok hl gs \<Longrightarrow> groups_ok hl (fst (syncplay_detach_session_from_groups env s except now gs))"
  by (simp add: syncplay_detach_session_from_groups_def leave.sweep_ok)

lemma groups_ok_id: "groups_ok hl gs \<Longrightarrow> map_of gs k = Some g \<Longrightarrow> gr_id g = k \<and> group_ok hl g"
  by (simp add: groups_ok_def)

lemma detach_except:
  assumes "groups_ok hl gs"
  shows "map_of (fst (syncplay_detach_session_from_groups env s (Some k) now gs)) k = map_of gs k"
  using groups_ok_id [OF assms, of k]
  by (cases "map_of gs k")
    (auto simp: syncplay_detach_session_from_groups_def leave.sweep_lookup [OF assms] detach_session_def survivor_def)

lemma new_group_ok: "user_id u = hl (token_access_token token) \<Longrightarrow> group_ok hl (new_group u token payload fresh_id now)"
  by (simp add: group_ok_def new_group_def syncplay_insert_participant_def bt_retain_def bt_ok_def
      syncplay_participant_def initial_state_def state_object_def jget_json_obj)
    (simp add: json_obj_def state_object_def)

lemma new_group_sessions: "sessions (new_group u token payload fresh_id now) = {token_access_token token}"
  by (simp add: sessions_def new_group_def syncplay_insert_participant_def bt_retain_def syncplay_participant_def)

lemma create_ok:
  assumes "groups_ok hl gs" "user_id u = hl (token_access_token token)"
  shows "groups_ok hl (fst (create_group env u token payload fresh_id now gs))"
proof -
  let ?gs = "fst (syncplay_detach_session_from_groups env (token_access_token token) None now gs)"
  let ?g = "new_group u token payload fresh_id now"
  have "groups_ok hl (hm_insert (gr_id ?g) ?g ?gs)"
    using detach_ok [OF assms(1)] detach_gone [OF assms(1)] assms(2)
    by (intro groups_ok_insert) (auto simp: new_group_ok new_group_sessions)
  then show ?thesis by (auto simp: create_group_def Let_def split: prod.splits)
qed

lemma insert_participant_set:
  assumes "bt_ok ps"
  shows "set (syncplay_insert_participant p ps) =
    insert (pt_session_id p, p) {(s, q) \<in> set ps. s \<noteq> pt_session_id p \<and>
      (pt_user_id q \<noteq> pt_user_id p \<or> pt_device_id q \<noteq> pt_device_id p)}"
  using assms by (auto simp: syncplay_insert_participant_def set_bt_insert) (auto simp: bt_retain_def)

lemma joined_ok:
  assumes "group_ok hl g" "pt_session_id p = s" "pt_user_id p = hl s"
  shows "group_ok hl (g\<lparr> gr_participants := syncplay_insert_participant p (gr_participants g), gr_updated_at := now \<rparr>) \<and>
    sessions (g\<lparr> gr_participants := syncplay_insert_participant p (gr_participants g), gr_updated_at := now \<rparr>)
      \<subseteq> insert s (sessions g)"
proof -
  have ok: "bt_ok (gr_participants g)" using assms by (simp add: group_ok_def)
  have "gr_owner_user_id g \<in> (\<lambda>(s, p). pt_user_id p) ` set (syncplay_insert_participant p (gr_participants g))"
  proof (cases "pt_user_id p = gr_owner_user_id g")
    case other: False
    obtain j q where q: "(j, q) \<in> set (gr_participants g)" "pt_user_id q = gr_owner_user_id g"
      using assms(1) by (auto simp: group_ok_def)
    show ?thesis
    proof (cases "j = s")
      case True
      then have "pt_user_id q = hl s" using q assms(1) by (auto simp: group_ok_def)
      with q assms(3) other show ?thesis by simp
    next
      case False
      then show ?thesis using q other assms(2) by (force simp: insert_participant_set [OF ok])
    qed
  qed (force simp: insert_participant_set [OF ok])
  moreover have "bt_ok (syncplay_insert_participant p (gr_participants g))"
    using ok by (simp add: syncplay_insert_participant_def)
  ultimately show ?thesis
    using assms by (auto simp: group_ok_def sessions_def insert_participant_set [OF ok])
qed


lemma join_total:
  assumes "groups_ok hl gs"
  shows "join_group env u token group_id now gs \<noteq> None"
  using detach_except [OF assms, of env "token_access_token token" "trim group_id" now]
  by (auto simp: join_group_def Let_def hm_contains_def split: prod.splits option.splits)

lemma join_ok:
  assumes "groups_ok hl gs" "user_id u = hl (token_access_token token)"
    and "join_group env u token group_id now gs = Some (gs', r)"
  shows "groups_ok hl gs'"
proof (cases "hm_contains (trim group_id) gs")
  case False
  with assms show ?thesis by (simp add: join_group_def)
next
  case True
  let ?s = "token_access_token token" and ?k = "trim group_id"
  let ?gs = "fst (syncplay_detach_session_from_groups env ?s (Some ?k) now gs)"
  obtain g where g: "map_of gs ?k = Some g" using True by (auto simp: hm_contains_def)
  have look: "map_of ?gs ?k = Some g" using g detach_except [OF assms(1)] by simp
  have g_ok: "gr_id g = ?k" "group_ok hl g" using groups_ok_id [OF assms(1) g] by auto
  let ?p = "syncplay_participant u token now"
  let ?h = "g\<lparr> gr_participants := syncplay_insert_participant ?p (gr_participants g), gr_updated_at := now \<rparr>"
  have gs': "gs' = hm_insert ?k ?h ?gs"
    using assms(3) True look by (auto simp: join_group_def Let_def split: prod.splits)
  have h: "group_ok hl ?h \<and> sessions ?h \<subseteq> insert ?s (sessions g)"
    using g_ok assms(2) by (intro joined_ok) (simp_all add: syncplay_participant_def)
  have "sessions ?h \<inter> sessions g' = {}" if g': "map_of ?gs j = Some g'" "j \<noteq> ?k" for j g'
  proof -
    have "?s \<notin> sessions g'" using g' by (intro detach_gone [OF assms(1)]) auto
    moreover have "sessions g \<inter> sessions g' = {}"
      using detach_ok [OF assms(1), of env ?s "Some ?k" now] look g' by (auto simp: groups_ok_def)
    ultimately show ?thesis using h by blast
  qed
  then show ?thesis unfolding gs' using g_ok h detach_ok [OF assms(1)] by (intro groups_ok_insert) auto
qed

lemma apply_participant_ok:
  "group_ok hl g \<Longrightarrow>
   (let h = syncplay_apply_participant_command s c payload now g
    in group_ok hl h \<and> sessions h = sessions g \<and> gr_id h = gr_id g \<and> gr_state h = gr_state g \<and>
       gr_command_sequence h = gr_command_sequence g)"
  using update_participant_ok [of hl g s]
  by (auto simp: syncplay_apply_participant_command_def participant_command_def Let_def split: option.split)

lemma command_group_ok:
  assumes "group_ok hl g"
  shows "group_ok hl (command_group env s c payload now g) \<and>
    sessions (command_group env s c payload now g) = sessions g \<and> gr_id (command_group env s c payload now g) = gr_id g"
proof -
  let ?t = "touch_participant s now g"
  have t: "group_ok hl ?t" "sessions ?t = sessions g" "gr_id ?t = gr_id g" using touch_participant_ok [OF assms] by auto
  let ?a = "syncplay_apply_participant_command s c payload now ?t"
  have a: "group_ok hl ?a" "sessions ?a = sessions g" "gr_id ?a = gr_id g"
    using apply_participant_ok [OF t(1)] t by (simp_all add: Let_def)
  then show ?thesis
    by (simp add: command_group_def Let_def group_ok_def sessions_def apply_command_ok apply_command_seq)
qed

lemma group_of_session_mem:
  assumes "groups_ok hl gs" "group_of_session s gs = Some (k, g)"
  shows "map_of gs k = Some g \<and> s \<in> sessions g"
proof -
  have m: "(k, g) \<in> set gs" "map_of (gr_participants g) s \<noteq> None"
    using find_SomeD [OF assms(2) [unfolded group_of_session_def]] by auto
  then have "map_of gs k = Some g" using assms(1) by (simp add: groups_ok_def hm_ok_def)
  with m(2) show ?thesis by (force simp: sessions_def dest: map_of_SomeD)
qed

lemma run_command_ok:
  assumes "groups_ok hl gs"
  shows "groups_ok hl (fst (run_command env s c payload now gs))"
proof (cases "group_of_session s gs")
  case None
  with assms show ?thesis by (simp add: run_command_def)
next
  case (Some kg)
  obtain k g where kg: "kg = (k, g)" by (cases kg)
  have m: "map_of gs k = Some g" using group_of_session_mem [OF assms] Some kg by auto
  have g: "gr_id g = k" "group_ok hl g" using groups_ok_id [OF assms m] by auto
  have "groups_ok hl (hm_insert k (command_group env s c payload now g) gs)"
    using command_group_ok [OF g(2)] g(1) m assms
    by (intro groups_ok_insert) (auto simp: groups_ok_def)
  then show ?thesis using Some kg by (simp add: run_command_def Let_def)
qed

text \<open>A token belongs to one user: the database resolves it through its primary key.\<close>

fun step_ok :: "(string \<Rightarrow> uuid) \<Rightarrow> sp_step \<Rightarrow> bool" where
  "step_ok hl (Create u token _ _ _) = (user_id u = hl (token_access_token token))"
| "step_ok hl (Join u token _ _) = (user_id u = hl (token_access_token token))"
| "step_ok hl _ = True"

lemma sp_exec_ok:
  assumes "groups_ok hl gs" "step_ok hl step"
  shows "groups_ok hl (sp_exec env gs step)"
proof (cases step)
  case (Cleanup timeout now)
  with stale.sweep_ok [OF assms(1), of env timeout now] show ?thesis
    by (auto simp: syncplay_cleanup_stale_participants_def split: prod.split)
next
  case (Detach s now)
  with detach_ok [OF assms(1), of env s None now] show ?thesis
    by (auto simp: syncplay_remove_session_def split: prod.split)
next
  case (Create u token payload fresh_id now)
  with assms create_ok show ?thesis by simp
next
  case (Join u token group_id now)
  with assms join_ok [OF assms(1)] show ?thesis by (fastforce split: option.split)
next
  case (Ping s now)
  with ping.sweep_ok [OF assms(1), of env s now] show ?thesis
    by (auto simp: ping_groups_def split: prod.split)
next
  case (Command s c payload now)
  with assms run_command_ok show ?thesis by simp
qed

inductive sp_reachable :: "sp_env \<Rightarrow> (string \<Rightarrow> uuid) \<Rightarrow> sp_groups \<Rightarrow> bool" for env hl where
  sp_start: "sp_reachable env hl []"
| sp_next: "sp_reachable env hl gs \<Longrightarrow> step_ok hl step \<Longrightarrow> sp_reachable env hl (sp_exec env gs step)"

lemma sp_reachable_ok: "sp_reachable env hl gs \<Longrightarrow> groups_ok hl gs"
  by (induction rule: sp_reachable.induct) (auto simp: groups_ok_empty sp_exec_ok)

text \<open>
  C4. However clients create, join, leave, ping, command and go stale, in every reachable state each
  session is in at most one group; no group is empty; its owner is one of its participants; every
  participant is filed under its own session; the groups are filed under their ids; and the sequence
  number in the shared state is the group's.
\<close>

theorem syncplay_groups_invariant:
  assumes "sp_reachable env hl gs" "map_of gs k = Some g"
  shows "gr_id g = k \<and> gr_participants g \<noteq> [] \<and>
    (\<exists>(s, p) \<in> set (gr_participants g). pt_user_id p = gr_owner_user_id g) \<and>
    (\<forall>(s, p) \<in> set (gr_participants g). pt_session_id p = s \<and> pt_user_id p = hl s) \<and>
    (\<forall>k' g' s. map_of gs k' = Some g' \<longrightarrow> s \<in> sessions g \<longrightarrow> s \<in> sessions g' \<longrightarrow> k' = k) \<and>
    jget ''CommandSequence'' (gr_state g) = Some (json_nat (gr_command_sequence g))"
proof -
  have ok: "groups_ok hl gs" using assms(1) by (rule sp_reachable_ok)
  then have g: "gr_id g = k" "group_ok hl g" using groups_ok_id [OF ok assms(2)] by auto
  moreover have "\<forall>k' g' s. map_of gs k' = Some g' \<longrightarrow> s \<in> sessions g \<longrightarrow> s \<in> sessions g' \<longrightarrow> k' = k"
    using ok assms(2) by (fastforce simp: groups_ok_def)
  moreover have "\<exists>(s, p) \<in> set (gr_participants g). pt_user_id p = gr_owner_user_id g"
    using g(2) by (force simp: group_ok_def)
  ultimately show ?thesis by (auto simp: group_ok_def)
qed

definition sample_env :: sp_env where
  "sample_env = \<lparr> env_clock = \<lparr> ck_format = (\<lambda>_. ''t''), ck_parse = (\<lambda>_. None) \<rparr>, env_show_uuid = (\<lambda>_. ''u'') \<rparr>"

definition sample_user :: "uuid \<Rightarrow> user" where
  "sample_user i = \<lparr> user_id = i, user_name = ''ann'', user_is_administrator = False, user_is_disabled = False,
     user_sync_play_access = ''CreateAndJoinGroups'', user_created_at = 0, user_updated_at = 0 \<rparr>"

definition sample_token :: "string \<Rightarrow> uuid \<Rightarrow> device_token" where
  "sample_token s i = \<lparr> token_access_token = s, token_user_id = i, token_device_id = ''d'',
     token_device_name = ''n'', token_client = ''c'', token_version = ''1'' \<rparr>"

definition sample_groups :: sp_groups where
  "sample_groups = sp_exec sample_env [] (Create (sample_user 5) (sample_token ''s'' 5) (json_obj []) ''g'' 7)"

lemma sample_groups_reachable: "sp_reachable sample_env (\<lambda>_. 5) sample_groups"
  unfolding sample_groups_def by (intro sp_next sp_start) (simp add: sample_user_def)

lemma sample_groups_lookup: "map_of sample_groups ''g'' =
  Some (new_group (sample_user 5) (sample_token ''s'' 5) (json_obj []) ''g'' 7)"
  by (simp add: sample_groups_def create_group_def syncplay_detach_session_from_groups_def sweep_groups_def
      Let_def new_group_def json_string_any_field_def jget_json_obj map_filter_def)

lemma syncplay_groups_invariant_witness:
  "\<exists>g. map_of sample_groups ''g'' = Some g \<and> gr_id g = ''g'' \<and> gr_participants g \<noteq> []"
  using syncplay_groups_invariant [OF sample_groups_reachable sample_groups_lookup] sample_groups_lookup by blast

text \<open>
  A command is numbered and announced once: in a reachable state the command of a session is
  applied to that session's group only, its sequence number goes up by one (until the counter is
  full), the new number stands in the shared state and in every message, each participant gets
  exactly one message, and every other group is unchanged.
\<close>

theorem syncplay_command_numbered:
  assumes "sp_reachable env hl gs" "map_of gs k = Some g" "s \<in> sessions g"
  shows "\<exists>gs' sent h. run_command env s c payload now gs = (gs', sent, Inr ()) \<and>
    map_of gs' = (map_of gs)(k \<mapsto> h) \<and>
    gr_command_sequence h = min u64_max (gr_command_sequence g + 1) \<and>
    jget ''CommandSequence'' (gr_state h) = Some (json_nat (gr_command_sequence h)) \<and>
    map fst sent = map fst (gr_participants h) \<and> sessions h = sessions g \<and>
    list_all (\<lambda>(_, m). jget ''CommandSequence'' (jindex m ''Data'') = Some (json_nat (gr_command_sequence h))) sent"
proof -
  have ok: "groups_ok hl gs" using assms(1) by (rule sp_reachable_ok)
  have "map_of (gr_participants g) s \<noteq> None"
    using assms(3) by (auto simp: sessions_def map_of_eq_None_iff)
  then have "group_of_session s gs \<noteq> None"
    using map_of_SomeD [OF assms(2)] by (auto simp: group_of_session_def find_None_iff)
  then obtain j h where jh: "group_of_session s gs = Some (j, h)" by auto
  have "map_of gs j = Some h" "s \<in> sessions h" using group_of_session_mem [OF ok jh] by auto
  with assms(2,3) ok have same: "j = k" "h = g" by (fastforce simp: groups_ok_def)+
  let ?h = "command_group env s c payload now g"
  have g: "group_ok hl g" using groups_ok_id [OF ok assms(2)] by simp
  have h: "group_ok hl ?h" "sessions ?h = sessions g" using command_group_ok [OF g] by auto
  have "gr_command_sequence ?h = min u64_max (gr_command_sequence g + 1)"
  proof -
    have t: "group_ok hl (touch_participant s now g)"
      "gr_command_sequence (touch_participant s now g) = gr_command_sequence g"
      using touch_participant_ok [OF g] by auto
    show ?thesis using apply_participant_ok [OF t(1)] t(2)
      by (simp add: command_group_def Let_def sat_add_def)
  qed
  moreover have "jget ''CommandSequence'' (gr_state ?h) = Some (json_nat (gr_command_sequence ?h))"
    using h(1) by (simp add: group_ok_def)
  moreover obtain sent where "run_command env s c payload now gs = (hm_insert k ?h gs, sent, Inr ())"
    and "map fst sent = map fst (gr_participants ?h)"
    and "list_all (\<lambda>(_, m). jget ''CommandSequence'' (jindex m ''Data'') = Some (json_nat (gr_command_sequence ?h))) sent"
    using jh same by (simp add: run_command_def Let_def comp_def list_all_iff jindex_def jget_json_obj
        syncplay_command_message_payload_def)
  ultimately show ?thesis using h(2)
    by (intro exI [of _ "hm_insert k ?h gs"] exI [of _ sent] exI [of _ ?h]) simp
qed

lemma syncplay_command_numbered_witness:
  "\<exists>gs' sent h. run_command sample_env ''s'' ''Pause'' (json_obj []) 9 sample_groups = (gs', sent, Inr ()) \<and>
    map_of gs' ''g'' = Some h \<and> gr_command_sequence h = 1"
proof -
  have "''s'' \<in> sessions (new_group (sample_user 5) (sample_token ''s'' 5) (json_obj []) ''g'' 7)"
    by (simp add: new_group_sessions sample_token_def)
  from syncplay_command_numbered [OF sample_groups_reachable sample_groups_lookup this,
      of "''Pause''" "json_obj []" 9]
  show ?thesis by (fastforce simp: new_group_def)
qed

end
