(* ===== verification/Playback_Profiles.thy ===== *)
theory Playback_Profiles
  imports Query_Strings Rust_Float Hls_Command
begin

text \<open>
  Device profiles of a playback request (\<open>crates/jellyrin-api/src/lib.rs\<close>, 39969--40078,
  40234--40678): the matchers and the codec conditions, and their parsing from the request body. The
  text of a floating-point JSON number is \<open>serde_json\<close>'s and a parameter; the text of an integer is its
  decimal form. Frame rates and levels go through \<open>f64\<close>, in the exact model of \<open>Rust_Float\<close>.
\<close>

section \<open>Matchers\<close>

record direct_play_profile =
  dp_profile_type :: "string option"
  dp_containers :: "string list"
  dp_video_codecs :: "string list"
  dp_audio_codecs :: "string list"

record transcoding_profile =
  tp_profile_type :: "string option"
  tp_context :: "string option"
  tp_containers :: "string list"
  tp_protocols :: "string list"
  tp_video_codecs :: "string list"
  tp_audio_codecs :: "string list"
  tp_max_width :: "nat option"
  tp_max_height :: "nat option"
  tp_video_bitrate :: "nat option"
  tp_audio_bitrate :: "nat option"

record subtitle_profile =
  sp_format :: "string option"
  sp_method :: "string option"

datatype condition_property =
    Prop_Width | Prop_Height | Prop_Video_Bitrate | Prop_Audio_Bitrate | Prop_Video_Profile
  | Prop_Audio_Profile | Prop_Video_Level | Prop_Video_Bit_Depth | Prop_Video_Frame_Rate
  | Prop_Audio_Channels

datatype condition_comparison =
    Cmp_Equal | Cmp_Not_Equal | Cmp_Equal_Any | Cmp_Not_Equal_Any | Cmp_Less | Cmp_Less_Equal
  | Cmp_Greater | Cmp_Greater_Equal

datatype condition_value = Numeric nat | Text string

record codec_condition =
  cc_property :: condition_property
  cc_comparison :: condition_comparison
  cc_values :: "condition_value list"
  cc_is_required :: bool

record codec_profile =
  cp_profile_type :: "string option"
  cp_codecs :: "string list"
  cp_conditions :: "codec_condition list"
  cp_invalid_required :: "condition_property option list"

record playback_options =
  po_enable_direct_play :: bool
  po_enable_direct_stream :: bool
  po_enable_transcoding :: bool
  po_max_streaming_bitrate :: "nat option"
  po_media_source_id :: "string option"
  po_audio_stream_index :: "int option"
  po_subtitle_stream_index :: "int option"
  po_burn_in_subtitle :: bool
  po_start_position_ticks :: int
  po_start_position_ticks_provided :: bool
  po_direct_play_profiles :: "direct_play_profile list option"
  po_transcoding_profiles :: "transcoding_profile list option"
  po_subtitle_profiles :: "subtitle_profile list option"
  po_hls_subtitles_as_embedded :: bool
  po_plugin_vod_selection_hls :: bool
  po_codec_profiles :: "codec_profile list"

definition default_playback_options :: playback_options where
  "default_playback_options =
     \<lparr> po_enable_direct_play = True, po_enable_direct_stream = True, po_enable_transcoding = True,
       po_max_streaming_bitrate = None, po_media_source_id = None, po_audio_stream_index = None,
       po_subtitle_stream_index = None, po_burn_in_subtitle = False, po_start_position_ticks = 0,
       po_start_position_ticks_provided = False, po_direct_play_profiles = None,
       po_transcoding_profiles = None, po_subtitle_profiles = None, po_hls_subtitles_as_embedded = False,
       po_plugin_vod_selection_hls = False, po_codec_profiles = [] \<rparr>"

section \<open>Fields\<close>

definition json_value_i64 :: "json \<Rightarrow> int option" where
  "json_value_i64 v = (case v of JNum _ \<Rightarrow> as_i64 v | JStr s \<Rightarrow> parse_i64 s | _ \<Rightarrow> None)"

definition positive_u32 :: "int \<Rightarrow> nat option" where
  "positive_u32 v = (if 0 < v \<and> v \<le> int u32_max then Some (nat v) else None)"

definition json_bool_field :: "json \<Rightarrow> string \<Rightarrow> bool option" where
  "json_bool_field v field =
     Option.bind (as_object v) (find_map (\<lambda>(k, w). if eq_ignore_case k field then as_bool w else None))"

definition json_i64_field :: "json \<Rightarrow> string \<Rightarrow> int option" where
  "json_i64_field v field = Option.bind (json_field_case_insensitive v field) json_value_i64"

definition json_positive_u32_field :: "json \<Rightarrow> string \<Rightarrow> nat option" where
  "json_positive_u32_field v field = Option.bind (json_i64_field v field) positive_u32"

fun split_any :: "(char \<Rightarrow> bool) \<Rightarrow> string \<Rightarrow> string list" where
  "split_any P [] = [[]]"
| "split_any P (c # cs) =
     (if P c then [] # split_any P cs
      else case split_any P cs of [] \<Rightarrow> [[c]] | w # ws \<Rightarrow> (c # w) # ws)"

abbreviation list_separator :: "char \<Rightarrow> bool" where
  "list_separator c \<equiv> c = CHR '','' \<or> c = CHR ''|''"

definition separated_values :: "string \<Rightarrow> string list" where
  "separated_values s = filter (\<lambda>w. w \<noteq> []) (map trim (split_any list_separator s))"

definition json_csv_field :: "json \<Rightarrow> string \<Rightarrow> string list" where
  "json_csv_field v field =
     (case json_string_field v field of
        Some s \<Rightarrow> map to_ascii_lowercase (separated_values s)
      | None \<Rightarrow> [])"

section \<open>Decimal numbers\<close>

text \<open>
  \<open>str::parse::<f64>\<close>: an optional sign, then \<open>inf\<close>, \<open>infinity\<close> or \<open>nan\<close>, or digits with an optional
  point and an optional exponent, rounded to the nearest double. A value too large for a double is
  kept finite here: the callers reject both large and infinite values. A value below half the least double
  is zero, which the callers reject as well.
\<close>

datatype parsed_f64 = Finite bool f64 | Infinity bool | Not_A_Number

definition f64_mul :: "f64 \<Rightarrow> nat \<Rightarrow> f64" where
  "f64_mul x k = f64_of_ratio (fst (f64_ratio x) * k, snd (f64_ratio x))"

definition f64_nearest :: "nat \<times> nat \<Rightarrow> f64" where
  "f64_nearest q = (if fst q = 0 then F64 0 0 else round_at (max (- 1074) (f64_exponent q)) q)"

definition parse_exponent :: "string \<Rightarrow> int option" where
  "parse_exponent s =
     (case s of
        [] \<Rightarrow> Some 0
      | c # r \<Rightarrow>
          if c \<noteq> CHR ''e'' \<and> c \<noteq> CHR ''E'' then None
          else (let neg = (r \<noteq> [] \<and> hd r = CHR ''-'');
                    ds = (if r \<noteq> [] \<and> (hd r = CHR ''-'' \<or> hd r = CHR ''+'') then tl r else r)
                in map_option (\<lambda>n. if neg then - int n else int n) (parse_digits ds)))"

definition parse_decimal :: "string \<Rightarrow> f64 option" where
  "parse_decimal s =
     (let whole = takeWhile is_digit s; rest = dropWhile is_digit s;
          point = (rest \<noteq> [] \<and> hd rest = CHR ''.'');
          part = (if point then takeWhile is_digit (tl rest) else []);
          rest = (if point then dropWhile is_digit (tl rest) else rest)
      in if whole = [] \<and> part = [] then None
         else map_option (\<lambda>e.
                (let n = digits_value (whole @ part); k = e - int (length part)
                 in f64_nearest (if 0 \<le> k then (n * 10 ^ nat k, 1) else (n, 10 ^ nat (- k)))))
              (parse_exponent rest))"

definition parse_f64 :: "string \<Rightarrow> parsed_f64 option" where
  "parse_f64 s =
     (let neg = (s \<noteq> [] \<and> hd s = CHR ''-'');
          t = (if s \<noteq> [] \<and> (hd s = CHR ''-'' \<or> hd s = CHR ''+'') then tl s else s);
          name = to_ascii_lowercase t
      in if name = ''inf'' \<or> name = ''infinity'' then Some (Infinity neg)
         else if name = ''nan'' then Some Not_A_Number
         else map_option (Finite neg) (parse_decimal t))"

text \<open>\<open>f64::round\<close> of a non-negative number: half away from zero.\<close>

definition f64_round :: "f64 \<Rightarrow> nat" where
  "f64_round x = (2 * fst (f64_ratio x) + snd (f64_ratio x)) div (2 * snd (f64_ratio x))"

definition f64_exceeds :: "f64 \<Rightarrow> nat \<Rightarrow> nat \<Rightarrow> bool" where
  "f64_exceeds x num den \<longleftrightarrow> num * snd (f64_ratio x) < den * fst (f64_ratio x)"

definition near_integer :: "f64 \<Rightarrow> bool" where
  "near_integer x \<longleftrightarrow>
     (let (n, d) = f64_ratio x; (en, ed) = f64_ratio (f64_of_ratio (1, 1000))
      in nat \<bar>int (f64_round x * d) - int n\<bar> * ed < en * d)"

definition parse_codec_level :: "string \<Rightarrow> nat option" where
  "parse_codec_level s =
     (if CHR ''.'' \<in> set s then
        (case parse_f64 s of
           Some (Finite neg x) \<Rightarrow>
             if neg \<or> significand x = 0 \<or> f64_exceeds x 255 10 then None
             else if near_integer (f64_mul x 10) then Some (f64_round (f64_mul x 10)) else None
         | _ \<Rightarrow> None)
      else opt_filter (\<lambda>n. 1 \<le> n \<and> n \<le> 255) (parse_u32 s))"

definition parse_frame_rate_millihertz :: "string \<Rightarrow> nat option" where
  "parse_frame_rate_millihertz s =
     (case parse_f64 s of
        Some (Finite neg x) \<Rightarrow>
          if neg \<or> significand x = 0 \<or> f64_exceeds x 1000 1 then None
          else opt_filter (\<lambda>n. 0 < n) (Some (f64_round (f64_mul x 1000)))
      | _ \<Rightarrow> None)"

section \<open>Codec conditions\<close>

definition squash :: "string \<Rightarrow> string" where
  "squash s = to_ascii_lowercase (filter (\<lambda>c. c \<notin> {CHR ''_'', CHR ''-'', CHR '' ''}) s)"

definition parse_codec_condition_property :: "string \<Rightarrow> condition_property option" where
  "parse_codec_condition_property s =
     (let n = squash s
      in if n = ''width'' then Some Prop_Width
         else if n = ''height'' then Some Prop_Height
         else if n = ''videobitrate'' then Some Prop_Video_Bitrate
         else if n = ''audiobitrate'' then Some Prop_Audio_Bitrate
         else if n = ''videoprofile'' then Some Prop_Video_Profile
         else if n = ''audioprofile'' then Some Prop_Audio_Profile
         else if n = ''videolevel'' then Some Prop_Video_Level
         else if n = ''videobitdepth'' \<or> n = ''bitdepth'' then Some Prop_Video_Bit_Depth
         else if n = ''videoframerate'' \<or> n = ''framerate'' then Some Prop_Video_Frame_Rate
         else if n = ''audiochannels'' \<or> n = ''channels'' then Some Prop_Audio_Channels
         else None)"

definition parse_codec_condition_comparison :: "string \<Rightarrow> condition_comparison option" where
  "parse_codec_condition_comparison s =
     (let n = squash s
      in if n = ''equals'' \<or> n = ''equal'' then Some Cmp_Equal
         else if n = ''notequals'' \<or> n = ''notequal'' then Some Cmp_Not_Equal
         else if n = ''equalsany'' \<or> n = ''equalany'' then Some Cmp_Equal_Any
         else if n = ''notequalsany'' \<or> n = ''notequalany'' then Some Cmp_Not_Equal_Any
         else if n = ''lessthan'' then Some Cmp_Less
         else if n = ''lessthanequal'' \<or> n = ''lessthanorequal'' then Some Cmp_Less_Equal
         else if n = ''greaterthan'' then Some Cmp_Greater
         else if n = ''greaterthanequal'' \<or> n = ''greaterthanorequal'' then Some Cmp_Greater_Equal
         else None)"

definition codec_condition_raw_value :: "(nat \<Rightarrow> string) \<Rightarrow> json \<Rightarrow> string option" where
  "codec_condition_raw_value show_float v =
     (case v of
        JStr s \<Rightarrow> if trim s = [] then None else Some (trim s)
      | JNum (PosInt n) \<Rightarrow> Some (show_nat n)
      | JNum (NegInt i) \<Rightarrow> Some (show_int i)
      | JNum (JFloat bits) \<Rightarrow> Some (show_float bits)
      | _ \<Rightarrow> None)"

definition normalize_codec_profile :: "condition_property \<Rightarrow> string \<Rightarrow> string option" where
  "normalize_codec_profile p s =
     (let n = filter (\<lambda>c. c \<notin> {CHR '' '', CHR ''_'', CHR ''-'', CHR ''.''}) (to_ascii_lowercase (trim s))
      in if n = [] then None
         else Some (if p = Prop_Audio_Profile \<and> n \<in> {''aaclc'', ''aaclow'', ''lowcomplexity''} then ''lc'' else n))"

definition parse_codec_condition_value :: "condition_property \<Rightarrow> string \<Rightarrow> condition_value option" where
  "parse_codec_condition_value p s =
     (case p of
        Prop_Video_Profile \<Rightarrow> map_option Text (normalize_codec_profile p s)
      | Prop_Audio_Profile \<Rightarrow> map_option Text (normalize_codec_profile p s)
      | Prop_Video_Level \<Rightarrow> map_option Numeric (parse_codec_level s)
      | Prop_Video_Frame_Rate \<Rightarrow> map_option Numeric (parse_frame_rate_millihertz s)
      | _ \<Rightarrow> map_option Numeric
          (opt_filter (\<lambda>n. 0 < n \<and> (p = Prop_Video_Bit_Depth \<or> p = Prop_Audio_Channels \<longrightarrow> n \<le> 32)) (parse_u32 s)))"

definition condition_raw_values :: "condition_comparison \<Rightarrow> string \<Rightarrow> string list" where
  "condition_raw_values kind raw =
     (if kind = Cmp_Equal_Any \<or> kind = Cmp_Not_Equal_Any then separated_values raw else [trim raw])"

text \<open>\<open>Inl\<close> is a required condition that cannot be understood, with its property when that is known.\<close>

definition parse_codec_condition ::
  "(nat \<Rightarrow> string) \<Rightarrow> json \<Rightarrow> condition_property option + codec_condition option" where
  "parse_codec_condition show_float c =
     (let required = unwrap_or False (json_bool_field c ''IsRequired'');
          give_up = (\<lambda>p. if required then Inl p else Inr None)
      in case Option.bind (json_string_field c ''Property'') parse_codec_condition_property of
           None \<Rightarrow> give_up None
         | Some p \<Rightarrow>
             (case Option.bind (json_string_field c ''Condition'') parse_codec_condition_comparison of
                None \<Rightarrow> give_up (Some p)
              | Some kind \<Rightarrow>
                  (case Option.bind (json_field_case_insensitive c ''Value'') (codec_condition_raw_value show_float) of
                     None \<Rightarrow> give_up (Some p)
                   | Some raw \<Rightarrow>
                       (case opt_filter (\<lambda>vs. vs \<noteq> [])
                               (those (map (parse_codec_condition_value p) (condition_raw_values kind raw))) of
                          None \<Rightarrow> give_up (Some p)
                        | Some vs \<Rightarrow> Inr (Some \<lparr> cc_property = p, cc_comparison = kind, cc_values = vs,
                                                 cc_is_required = required \<rparr>)))))"

definition json_array_field :: "json \<Rightarrow> string \<Rightarrow> json list option" where
  "json_array_field v field = Option.bind (json_field_case_insensitive v field) as_array"

definition parse_codec_profile :: "(nat \<Rightarrow> string) \<Rightarrow> json \<Rightarrow> codec_profile option" where
  "parse_codec_profile show_float v =
     (if as_object v = None then None
      else (let parsed = map (parse_codec_condition show_float) (unwrap_or [] (json_array_field v ''Conditions''))
            in Some \<lparr> cp_profile_type = json_string_field v ''Type'', cp_codecs = json_csv_field v ''Codec'',
                 cp_conditions = List.map_filter (\<lambda>r. case r of Inr c \<Rightarrow> c | Inl _ \<Rightarrow> None) parsed,
                 cp_invalid_required = List.map_filter (\<lambda>r. case r of Inl p \<Rightarrow> Some p | Inr _ \<Rightarrow> None) parsed \<rparr>))"

section \<open>Profiles of a request body\<close>

definition device_profile_list :: "json \<Rightarrow> string \<Rightarrow> json list option" where
  "device_profile_list body field =
     Option.bind (json_field_case_insensitive body ''DeviceProfile'') (\<lambda>d. json_array_field d field)"

definition parse_direct_play_profile :: "json \<Rightarrow> direct_play_profile option" where
  "parse_direct_play_profile v =
     (if as_object v = None then None
      else Some \<lparr> dp_profile_type = json_string_field v ''Type'', dp_containers = json_csv_field v ''Container'',
             dp_video_codecs = json_csv_field v ''VideoCodec'', dp_audio_codecs = json_csv_field v ''AudioCodec'' \<rparr>)"

definition parse_direct_play_profiles :: "json \<Rightarrow> direct_play_profile list option" where
  "parse_direct_play_profiles body =
     map_option (List.map_filter parse_direct_play_profile) (device_profile_list body ''DirectPlayProfiles'')"

definition parse_transcoding_profile :: "json \<Rightarrow> transcoding_profile option" where
  "parse_transcoding_profile v =
     (if as_object v = None then None
      else Some \<lparr> tp_profile_type = json_string_field v ''Type'', tp_context = json_string_field v ''Context'',
             tp_containers = json_csv_field v ''Container'', tp_protocols = json_csv_field v ''Protocol'',
             tp_video_codecs = json_csv_field v ''VideoCodec'', tp_audio_codecs = json_csv_field v ''AudioCodec'',
             tp_max_width = json_positive_u32_field v ''MaxWidth'',
             tp_max_height = json_positive_u32_field v ''MaxHeight'',
             tp_video_bitrate = opt_or (json_positive_u32_field v ''VideoBitrate'')
                                  (json_positive_u32_field v ''MaxVideoBitrate''),
             tp_audio_bitrate = opt_or (json_positive_u32_field v ''AudioBitrate'')
                                  (json_positive_u32_field v ''MaxAudioBitrate'') \<rparr>)"

definition parse_transcoding_profiles :: "json \<Rightarrow> transcoding_profile list option" where
  "parse_transcoding_profiles body =
     map_option (List.map_filter parse_transcoding_profile) (device_profile_list body ''TranscodingProfiles'')"

definition parse_subtitle_profiles :: "json \<Rightarrow> subtitle_profile list option" where
  "parse_subtitle_profiles body =
     map_option
       (\<lambda>ps. map (\<lambda>v. \<lparr> sp_format = map_option to_ascii_lowercase (json_string_field v ''Format''),
                        sp_method = map_option to_ascii_lowercase (json_string_field v ''Method'') \<rparr>)
          (filter (\<lambda>v. as_object v \<noteq> None) ps))
       (device_profile_list body ''SubtitleProfiles'')"

definition parse_codec_profiles :: "(nat \<Rightarrow> string) \<Rightarrow> json \<Rightarrow> codec_profile list" where
  "parse_codec_profiles show_float body =
     List.map_filter (parse_codec_profile show_float) (unwrap_or [] (device_profile_list body ''CodecProfiles''))"


section \<open>The options of a request\<close>

definition playback_info_options_from_body :: "(nat \<Rightarrow> string) \<Rightarrow> json \<Rightarrow> playback_options" where
  "playback_info_options_from_body show_float body =
     (let start = opt_or (json_i64_field body ''StartTimeTicks'') (json_i64_field body ''StartPositionTicks'')
      in default_playback_options
           \<lparr> po_enable_direct_play := unwrap_or True (json_bool_field body ''EnableDirectPlay''),
             po_enable_direct_stream := unwrap_or True (json_bool_field body ''EnableDirectStream''),
             po_enable_transcoding := unwrap_or True (json_bool_field body ''EnableTranscoding''),
             po_max_streaming_bitrate := opt_or (json_positive_u32_field body ''MaxStreamingBitrate'')
               (Option.bind (json_field_case_insensitive body ''DeviceProfile'')
                  (\<lambda>d. json_positive_u32_field d ''MaxStreamingBitrate'')),
             po_media_source_id := json_string_field body ''MediaSourceId'',
             po_audio_stream_index := json_i64_field body ''AudioStreamIndex'',
             po_subtitle_stream_index := json_i64_field body ''SubtitleStreamIndex'',
             po_start_position_ticks := (case start of Some v \<Rightarrow> max 0 v | None \<Rightarrow> 0),
             po_start_position_ticks_provided := (start \<noteq> None),
             po_direct_play_profiles := parse_direct_play_profiles body,
             po_transcoding_profiles := parse_transcoding_profiles body,
             po_subtitle_profiles := parse_subtitle_profiles body,
             po_codec_profiles := parse_codec_profiles show_float body \<rparr>)"

definition apply_query_option :: "playback_options \<Rightarrow> string \<Rightarrow> playback_options" where
  "apply_query_option o0 part =
     (let (k, v) = unwrap_or (part, []) (split_once (CHR ''='') part);
          key = to_ascii_lowercase (percent_decode_query_component k);
          v = percent_decode_query_component v
      in if key = ''enabledirectplay'' then
           (case parse_query_bool v of Some b \<Rightarrow> o0\<lparr> po_enable_direct_play := b \<rparr> | None \<Rightarrow> o0)
         else if key = ''enabledirectstream'' then
           (case parse_query_bool v of Some b \<Rightarrow> o0\<lparr> po_enable_direct_stream := b \<rparr> | None \<Rightarrow> o0)
         else if key = ''enabletranscoding'' then
           (case parse_query_bool v of Some b \<Rightarrow> o0\<lparr> po_enable_transcoding := b \<rparr> | None \<Rightarrow> o0)
         else if key = ''maxstreamingbitrate'' then
           (case opt_filter (\<lambda>n. 0 < n) (parse_u32 v) of
              Some n \<Rightarrow> o0\<lparr> po_max_streaming_bitrate := Some n \<rparr> | None \<Rightarrow> o0)
         else if key = ''mediasourceid'' then
           (if trim v \<noteq> [] then o0\<lparr> po_media_source_id := Some (trim v) \<rparr> else o0)
         else if key = ''audiostreamindex'' then
           (case parse_i64 v of Some i \<Rightarrow> o0\<lparr> po_audio_stream_index := Some i \<rparr> | None \<Rightarrow> o0)
         else if key = ''subtitlestreamindex'' then
           (case parse_i64 v of Some i \<Rightarrow> o0\<lparr> po_subtitle_stream_index := Some i \<rparr> | None \<Rightarrow> o0)
         else if key = ''starttimeticks'' \<or> key = ''startpositionticks'' then
           (case parse_i64 v of
              Some i \<Rightarrow> o0\<lparr> po_start_position_ticks := max 0 i, po_start_position_ticks_provided := True \<rparr>
            | None \<Rightarrow> o0)
         else o0)"

definition parse_playback_info_options ::
  "(nat \<Rightarrow> string) \<Rightarrow> string option \<Rightarrow> json option \<Rightarrow> playback_options" where
  "parse_playback_info_options show_float raw_query body =
     (let o0 = (case body of Some b \<Rightarrow> playback_info_options_from_body show_float b | None \<Rightarrow> default_playback_options)
      in case raw_query of
           None \<Rightarrow> o0
         | Some q \<Rightarrow> foldl apply_query_option o0 (filter (\<lambda>p. p \<noteq> []) (split_on (CHR ''&'') q)))"

section \<open>What parsing guarantees\<close>

text \<open>Every understood condition has a value its property can take, so no comparison lacks an operand.\<close>

fun value_fits :: "condition_property \<Rightarrow> condition_value \<Rightarrow> bool" where
  "value_fits p (Text s) = ((p = Prop_Video_Profile \<or> p = Prop_Audio_Profile) \<and> s \<noteq> [])"
| "value_fits p (Numeric n) = (p \<noteq> Prop_Video_Profile \<and> p \<noteq> Prop_Audio_Profile \<and> n \<le> u32_max)"

definition condition_ok :: "codec_condition \<Rightarrow> bool" where
  "condition_ok c \<longleftrightarrow> cc_values c \<noteq> [] \<and> list_all (value_fits (cc_property c)) (cc_values c)"

lemma snd_ratio_pos: "0 < snd (f64_ratio x)"
  by (simp add: f64_ratio_def)

lemma fst_ratio_pos: "0 < significand x \<Longrightarrow> 0 < fst (f64_ratio x)"
  by (simp add: f64_ratio_def scale2_def)

lemma not_exceeds_val: "0 < den \<Longrightarrow> \<not> f64_exceeds x num den \<Longrightarrow> val (f64_ratio x) \<le> real num / real den"
  using snd_ratio_pos [of x]
  by (simp add: f64_exceeds_def val_def field_simps not_less flip: of_nat_mult)

text \<open>Multiplying by a constant and rounding: at most one part in \<open>2 ^ 53\<close> away.\<close>

lemma f64_mul_error:
  assumes "0 < significand x" "0 < k"
  shows "\<bar>val (f64_ratio (f64_mul x k)) - val (f64_ratio x) * real k\<bar> \<le> val (f64_ratio x) * real k / 2 ^ 53"
proof -
  have "val (fst (f64_ratio x) * k, snd (f64_ratio x)) = val (f64_ratio x) * real k" by (simp add: val_def)
  with f64_of_ratio_error [of "fst (f64_ratio x) * k" "snd (f64_ratio x)"] assms snd_ratio_pos fst_ratio_pos
  show ?thesis by (simp add: f64_mul_def)
qed

lemma f64_round_bounds:
  "real (f64_round x) \<le> val (f64_ratio x) + 1 / 2" "val (f64_ratio x) - 1 / 2 < real (f64_round x)"
proof -
  let ?p = "fst (f64_ratio x)" and ?q = "snd (f64_ratio x)"
  have q: "0 < ?q" by (rule snd_ratio_pos)
  have "f64_round x * (2 * ?q) \<le> 2 * ?p + ?q" by (simp add: f64_round_def)
  then have "real (f64_round x * (2 * ?q)) \<le> real (2 * ?p + ?q)" by (simp only: of_nat_le_iff)
  then have "real (f64_round x) * (2 * real ?q) \<le> 2 * real ?p + real ?q" by simp
  then show "real (f64_round x) \<le> val (f64_ratio x) + 1 / 2" using q by (simp add: val_def field_simps)
  have "2 * ?p + ?q < (f64_round x + 1) * (2 * ?q)"
    using q dividend_less_div_times [of "2 * ?q" "2 * ?p + ?q"] by (simp add: f64_round_def algebra_simps)
  then have "real (2 * ?p + ?q) < real ((f64_round x + 1) * (2 * ?q))" by (simp only: of_nat_less_iff)
  then have "2 * real ?p + real ?q < (real (f64_round x) + 1) * (2 * real ?q)" by (simp add: algebra_simps)
  then show "val (f64_ratio x) - 1 / 2 < real (f64_round x)" using q by (simp add: val_def field_simps)
qed

lemma val_nonneg: "0 \<le> val (f64_ratio x)"
  by (simp add: val_def)

lemma f64_round_mul_le:
  assumes "0 < significand x" "0 < k" "val (f64_ratio x) * real k \<le> real m" "m \<le> 2 ^ 50"
  shows "f64_round (f64_mul x k) \<le> m"
proof -
  have "val (f64_ratio (f64_mul x k)) \<le> val (f64_ratio x) * real k + val (f64_ratio x) * real k / 2 ^ 53"
    using f64_mul_error [OF assms(1,2)] by linarith
  also have "\<dots> \<le> real m + real m / 2 ^ 53" using assms(3) by (intro add_mono divide_right_mono) auto
  also have "real m / 2 ^ 53 \<le> 1 / 8" using assms(4) by (simp add: field_simps)
  finally have "real (f64_round (f64_mul x k)) < real (Suc m)" using f64_round_bounds(1) [of "f64_mul x k"] by simp
  then show ?thesis by (simp only: of_nat_less_iff less_Suc_eq_le)
qed

lemma parse_frame_rate_le: "parse_frame_rate_millihertz s = Some n \<Longrightarrow> 0 < n \<and> n \<le> 1000000"
  using not_exceeds_val [of 1 _ 1000]
  by (auto simp: parse_frame_rate_millihertz_def split: option.splits parsed_f64.splits if_splits
      intro!: f64_round_mul_le)

lemma parse_codec_level_le: "parse_codec_level s = Some n \<Longrightarrow> n \<le> 255"
  using not_exceeds_val [of 10 _ 255]
  by (auto simp: mult.commute [of 2] parse_codec_level_def split: option.splits parsed_f64.splits if_splits
      intro!: f64_round_mul_le dest!: opt_filter_SomeD)

lemma parse_u32_le: "parse_u32 s = Some n \<Longrightarrow> n \<le> u32_max"
  by (auto simp: parse_u32_def dest: parse_unsigned_le)


lemma parse_value_fits:
  "parse_codec_condition_value p s = Some v \<Longrightarrow> value_fits p v"
  by (cases p) (auto simp: parse_codec_condition_value_def normalize_codec_profile_def Let_def
      dest!: parse_frame_rate_le parse_codec_level_le parse_u32_le opt_filter_SomeD split: if_splits)

lemma those_SomeD: "those (map f xs) = Some ys \<Longrightarrow> \<forall>y \<in> set ys. \<exists>x \<in> set xs. f x = Some y"
proof (induction xs arbitrary: ys)
  case (Cons x xs)
  then obtain z zs where "ys = z # zs" "f x = Some z" "those (map f xs) = Some zs"
    by (auto split: option.splits)
  with Cons.IH [of zs] show ?case by auto
qed simp

lemma parse_codec_condition_ok:
  "parse_codec_condition show_float c = Inr (Some cc) \<Longrightarrow> condition_ok cc"
  by (auto simp: parse_codec_condition_def Let_def condition_ok_def list_all_iff
      dest!: opt_filter_SomeD those_SomeD split: option.splits if_splits)
    (metis parse_value_fits)

text \<open>
  C38. Parsing a request types its codec conditions: whatever JSON the client sends, every condition
  that is kept has at least one operand, and every operand is of its property's kind and fits
  \<open>u32\<close> (a non-empty normalised profile name, or a number), so no comparison is left without a value
  to compare with.
\<close>

theorem parsed_conditions_typed:
  "list_all (\<lambda>p. list_all condition_ok (cp_conditions p))
     (po_codec_profiles (parse_playback_info_options show_float raw_query body))"
proof -
  have body: "list_all (\<lambda>p. list_all condition_ok (cp_conditions p)) (parse_codec_profiles show_float b)" for b
    by (auto simp: parse_codec_profiles_def parse_codec_profile_def list_all_iff List.map_filter_def Let_def
        parse_codec_condition_ok split: sum.splits option.splits if_splits)
  have step: "po_codec_profiles (apply_query_option o0 part) = po_codec_profiles o0" for o0 part
    by (auto simp: apply_query_option_def Let_def split: prod.splits option.splits)
  have run: "po_codec_profiles (foldl apply_query_option o0 parts) = po_codec_profiles o0" for o0 parts
    by (induction parts arbitrary: o0) (simp_all add: step)
  show ?thesis using body
    by (simp add: parse_playback_info_options_def Let_def run playback_info_options_from_body_def
        default_playback_options_def split: option.splits)
qed

end
