(* ===== verification/Media_Streams.thy ===== *)
theory Media_Streams
  imports Playback_Profiles Rust_Path Media_Paths
begin

text \<open>
  The media streams of an item as the API presents them (\<open>crates/jellyrin-api/src/lib.rs\<close>,
  59104--59172, 60581--60586 and 60909--61421): the synthetic stream of an item that was never probed, the
  normalisation of a stored stream and its display texts, the context the subtitle streams take from
  the video, and the lookups the playback decision makes. A stored stream is a JSON object of the
  sorted map of \<open>Json\<close>.
\<close>

type_synonym json_map = "(string \<times> json) list"

section \<open>Text helpers\<close>

definition ascii_upper :: "char \<Rightarrow> char" where
  "ascii_upper c = (if is_lower c then char_of (byte c - 32) else c)"

definition to_ascii_uppercase :: "string \<Rightarrow> string" where
  "to_ascii_uppercase s = map ascii_upper s"

definition contains_text :: "string \<Rightarrow> string \<Rightarrow> bool" where
  "contains_text needle s = list_ex (starts_with needle) (suffixes s)"

text \<open>\<open>str::trim_end_matches\<close> with a string pattern removes every copy at the end.\<close>

lemma ends_with_shorter: "pat \<noteq> [] \<Longrightarrow> ends_with pat s \<Longrightarrow> length s - length pat < length s"
  by (cases pat; cases s) (auto simp: ends_with_def)

function trim_end_matches :: "string \<Rightarrow> string \<Rightarrow> string" where
  "trim_end_matches pat s =
     (if pat \<noteq> [] \<and> ends_with pat s then trim_end_matches pat (take (length s - length pat) s) else s)"
  by pat_completeness auto
termination
  by (relation "measure (\<lambda>(pat, s). length s)") (auto simp: ends_with_shorter)

declare trim_end_matches.simps [simp del]

section \<open>Names shown to the user\<close>

definition media_stream_api_codec :: "string \<Rightarrow> string \<Rightarrow> string" where
  "media_stream_api_codec stream_type codec =
     (if stream_type = ''Subtitle'' \<and> to_ascii_lowercase codec = ''hdmv_pgs_subtitle'' then ''PGSSUB'' else codec)"

definition codec_display_name :: "string \<Rightarrow> string" where
  "codec_display_name codec =
     (let c = to_ascii_lowercase codec
      in if c = ''ac3'' then ''Dolby Digital''
         else if c = ''eac3'' then ''Dolby Digital+''
         else if c = ''aac'' then ''AAC''
         else if c = ''dts'' then ''DTS''
         else if c = ''truehd'' then ''TrueHD''
         else if c = ''flac'' then ''FLAC''
         else if c = ''hevc'' \<or> c = ''h265'' then ''HEVC''
         else if c = ''h264'' then ''H264''
         else if c = ''hdmv_pgs_subtitle'' \<or> c = ''pgssub'' then ''PGSSUB''
         else if c = ''subrip'' then ''SRT''
         else if c = ''ass'' \<or> c = ''ssa'' then to_ascii_uppercase codec
         else codec)"

definition language_display_name :: "string option \<Rightarrow> string option" where
  "language_display_name language =
     Option.bind language (\<lambda>l.
       let l = trim l; c = to_ascii_lowercase l
       in if l = [] \<or> eq_ignore_case l ''und'' then None
          else Some (if c = ''eng'' \<or> c = ''en'' then ''English''
                else if c = ''spa'' \<or> c = ''es'' then ''Spanish; Castilian''
                else if c = ''fre'' \<or> c = ''fra'' \<or> c = ''fr'' then ''French''
                else if c = ''ger'' \<or> c = ''deu'' \<or> c = ''de'' then ''German''
                else if c = ''dan'' \<or> c = ''da'' then ''Danish''
                else if c = ''fin'' \<or> c = ''fi'' then ''Finnish''
                else if c = ''nob'' then ''Norwegian (Bokmal)''
                else if c = ''nor'' \<or> c = ''no'' then ''Norwegian''
                else if c = ''swe'' \<or> c = ''sv'' then ''Swedish''
                else l))"

definition normalize_language_code :: "string \<Rightarrow> string option" where
  "normalize_language_code language =
     (let l = trim language; c = to_ascii_lowercase l
      in if l = [] \<or> eq_ignore_case l ''und'' then None
         else Some (if c = ''fre'' then ''fra'' else if c = ''ger'' then ''deu'' else l))"

definition audio_channel_display :: "int option \<Rightarrow> string option \<Rightarrow> string option" where
  "audio_channel_display channels layout =
     opt_or
       (opt_filter (\<lambda>n. n \<noteq> [] \<and> n \<noteq> ''0'')
          (map_option (\<lambda>l. trim (trim_end_matches ''(side)'' (trim l))) layout))
       (case channels of
          None \<Rightarrow> None
        | Some n \<Rightarrow> if n = 1 then Some ''Mono''
                   else if n = 2 then Some ''Stereo''
                   else if n = 6 then Some ''5.1''
                   else if n = 8 then Some ''7.1''
                   else if 0 < n then Some (show_int n @ '' ch'')
                   else None)"

definition is_text_subtitle_codec :: "string \<Rightarrow> bool" where
  "is_text_subtitle_codec codec \<longleftrightarrow>
     to_ascii_lowercase codec \<in> {''subrip'', ''srt'', ''ass'', ''ssa'', ''webvtt'', ''vtt'', ''mov_text''}"

definition subtitle_supports_external_stream :: "string \<Rightarrow> bool" where
  "subtitle_supports_external_stream codec = (\<not> is_text_subtitle_codec codec)"

definition media_stream_display_title ::
  "string \<Rightarrow> string \<Rightarrow> string option \<Rightarrow> string option \<Rightarrow> int option \<Rightarrow> string option \<Rightarrow> bool \<Rightarrow> bool \<Rightarrow> string" where
  "media_stream_display_title stream_type codec language title channels layout is_default is_forced =
     (let opt = (\<lambda>x. case x of Some w \<Rightarrow> [w] | None \<Rightarrow> []);
          parts = opt (opt_filter (\<lambda>t. t \<noteq> []) (map_option trim title))
                @ opt (language_display_name language)
                @ [codec_display_name codec]
                @ (if stream_type = ''Audio'' then opt (audio_channel_display channels layout) else [])
                @ (if is_default then [''Default''] else [])
                @ (if is_forced then [''Forced''] else [])
      in if parts = [] then stream_type else join_with '' - '' parts)"

definition video_resolution_display :: "int option \<Rightarrow> int option \<Rightarrow> string option" where
  "video_resolution_display width height =
     Option.bind (opt_filter (\<lambda>h. 0 < h) height) (\<lambda>h.
       let label = (if h \<le> 479 then show_int h @ ''p''
                    else if h \<le> 719 then ''480p''
                    else if h \<le> 1079 then ''720p''
                    else if h \<le> 1439 then ''1080p''
                    else if h \<le> 2159 then ''1440p''
                    else if h \<le> 4319 then ''4K''
                    else show_int h @ ''p'')
       in if is_some_and (\<lambda>w. 3800 \<le> w) width \<and> 2000 \<le> h then Some ''4K'' else Some label)"

definition video_stream_display_title :: "string \<Rightarrow> int option \<Rightarrow> int option \<Rightarrow> string option \<Rightarrow> string" where
  "video_stream_display_title codec width height video_range =
     (let opt = (\<lambda>x. case x of Some w \<Rightarrow> [w] | None \<Rightarrow> [])
      in join_with '' ''
           (opt (video_resolution_display width height) @ [codec_display_name codec] @
            opt (map_option to_ascii_uppercase
                   (opt_filter (\<lambda>r. r \<noteq> [] \<and> \<not> eq_ignore_case r ''Unknown'') (map_option trim video_range)))))"

text \<open>Rust's \<open>%\<close> keeps the sign of the dividend.\<close>

definition trunc_rem :: "int \<Rightarrow> int \<Rightarrow> int" where
  "trunc_rem a b = a - b * trunc_div a b"

lemma trunc_rem_abs: "\<bar>trunc_rem a b\<bar> = \<bar>a\<bar> mod \<bar>b\<bar>"
proof -
  have "b * (sgn a * sgn b * (\<bar>a\<bar> div \<bar>b\<bar>)) = sgn a * ((sgn b * b) * (\<bar>a\<bar> div \<bar>b\<bar>))" by (simp only: mult_ac)
  then have "trunc_rem a b = sgn a * \<bar>a\<bar> - sgn a * (\<bar>b\<bar> * (\<bar>a\<bar> div \<bar>b\<bar>))"
    by (simp only: trunc_rem_def trunc_div_def sgn_mult_self_eq abs_sgn [symmetric] mult.commute [of b "sgn b"]
        mult_sgn_abs mult.commute [of "sgn b" b])
  then have "trunc_rem a b = sgn a * (\<bar>a\<bar> mod \<bar>b\<bar>)"
    by (simp only: right_diff_distrib [symmetric] minus_mult_div_eq_mod)
  then show ?thesis by (cases "a = 0"; cases "b = 0") (auto simp: abs_mult abs_sgn_eq)
qed

function gcd_i64 :: "int \<Rightarrow> int \<Rightarrow> int" where
  "gcd_i64 left right = (if right = 0 then max 1 \<bar>left\<bar> else gcd_i64 right (trunc_rem left right))"
  by pat_completeness auto
termination
  by (relation "measure (\<lambda>(l, r). nat \<bar>r\<bar>)") (auto simp: trunc_rem_abs nat_less_iff)

declare gcd_i64.simps [simp del]

definition video_aspect_ratio :: "int option \<Rightarrow> int option \<Rightarrow> string option" where
  "video_aspect_ratio width height =
     Option.bind (opt_filter (\<lambda>w. 0 < w) width) (\<lambda>w.
     map_option (\<lambda>h.
       (let d = gcd_i64 w h in show_int (trunc_div w d) @ '':'' @ show_int (trunc_div h d)))
       (opt_filter (\<lambda>h. 0 < h) height))"

definition obj_str :: "string \<Rightarrow> json_map \<Rightarrow> string option" where
  "obj_str k m = Option.bind (map_of m k) as_str"

definition obj_int :: "string \<Rightarrow> json_map \<Rightarrow> int option" where
  "obj_int k m = Option.bind (map_of m k) json_value_i64"

definition obj_flag :: "string \<Rightarrow> json_map \<Rightarrow> bool" where
  "obj_flag k m = unwrap_or False (Option.bind (map_of m k) as_bool)"

definition video_stream_range :: "json_map \<Rightarrow> string" where
  "video_stream_range m =
     (let existing = unwrap_or [] (obj_str ''VideoRange'' m);
          transfer = to_ascii_lowercase (unwrap_or [] (obj_str ''ColorTransfer'' m))
      in if list_ex (eq_ignore_case existing) [''HDR'', ''HDR10'', ''HLG'', ''DolbyVision''] then ''HDR''
         else if transfer = ''smpte2084'' \<or> transfer = ''arib-std-b67'' then ''HDR'' else ''SDR'')"

definition video_bit_depth_from_pixel_format :: "string option \<Rightarrow> int option" where
  "video_bit_depth_from_pixel_format pixel_format =
     Option.bind pixel_format (\<lambda>p.
       let p = to_ascii_lowercase p
       in if contains_text ''12'' p then Some 12 else if contains_text ''10'' p then Some 10 else None)"

section \<open>Normalisation\<close>

definition insert_if_missing_or_null :: "string \<Rightarrow> json \<Rightarrow> json_map \<Rightarrow> json_map" where
  "insert_if_missing_or_null k v m =
     (if map_of m k = None \<or> map_of m k = Some JNull then bt_insert k v m else m)"

definition insert_some :: "string \<Rightarrow> ('a \<Rightarrow> json) \<Rightarrow> 'a option \<Rightarrow> json_map \<Rightarrow> json_map" where
  "insert_some k f x m = (case x of Some v \<Rightarrow> bt_insert k (f v) m | None \<Rightarrow> m)"

definition insert_some_if_missing :: "string \<Rightarrow> ('a \<Rightarrow> json) \<Rightarrow> 'a option \<Rightarrow> json_map \<Rightarrow> json_map" where
  "insert_some_if_missing k f x m = (case x of Some v \<Rightarrow> insert_if_missing_or_null k (f v) m | None \<Rightarrow> m)"

definition common_fields :: "string option \<Rightarrow> json_map \<Rightarrow> json_map" where
  "common_fields language m =
     (let m = insert_if_missing_or_null ''TimeBase'' (JStr ''1/1000'') m;
          m = insert_if_missing_or_null ''VideoRange'' (JStr ''Unknown'') m;
          m = insert_if_missing_or_null ''VideoRangeType'' (JStr ''Unknown'') m;
          m = insert_if_missing_or_null ''AudioSpatialFormat'' (JStr ''None'') m;
          m = insert_if_missing_or_null ''IsHearingImpaired'' (JBool False) m;
          m = insert_if_missing_or_null ''IsOriginal'' (JBool False) m;
          m = insert_if_missing_or_null ''IsInterlaced'' (JBool False) m;
          m = insert_if_missing_or_null ''IsTextSubtitleStream'' (JBool False) m;
          m = insert_some ''LocalizedLanguage'' JStr (language_display_name language) m;
          m = bt_insert ''LocalizedDefault'' (JStr ''Default'') m
      in bt_insert ''LocalizedExternal'' (JStr ''External'') m)"

definition subtitle_fields :: "string \<Rightarrow> json_map \<Rightarrow> json_map" where
  "subtitle_fields codec m =
     (let m = bt_insert ''IsTextSubtitleStream'' (JBool (is_text_subtitle_codec codec)) m;
          m = bt_insert ''SupportsExternalStream'' (JBool (subtitle_supports_external_stream codec)) m;
          m = bt_insert ''LocalizedUndefined'' (JStr ''Undefined'') m;
          m = bt_insert ''LocalizedForced'' (JStr ''Forced'') m
      in bt_insert ''LocalizedHearingImpaired'' (JStr ''Hearing Impaired'') m)"

definition audio_fields :: "int option \<Rightarrow> string option \<Rightarrow> json_map \<Rightarrow> json_map" where
  "audio_fields channels layout m =
     (let m = bt_insert ''IsTextSubtitleStream'' (JBool False) m;
          m = bt_insert ''SupportsExternalStream'' (JBool False) m;
          m = bt_insert ''LocalizedOriginal'' (JStr ''Original'') m
      in insert_some ''ChannelLayout'' JStr (audio_channel_display channels layout) m)"

definition video_absent_keys :: "string list" where
  "video_absent_keys = [''ChannelLayout'', ''Channels'', ''CodecTag'', ''LocalizedDefault'',
     ''LocalizedExternal'', ''Path'', ''SampleRate'', ''Title'']"

definition reference_frame_rate_field :: "json_map \<Rightarrow> json_map" where
  "reference_frame_rate_field m =
     insert_some_if_missing ''ReferenceFrameRate'' (\<lambda>v. v)
       (opt_filter (\<lambda>v. v \<noteq> JNull) (opt_or (map_of m ''RealFrameRate'') (map_of m ''AverageFrameRate''))) m"

definition range_fields :: "json_map \<Rightarrow> json_map" where
  "range_fields m =
     (let stream_range = JStr (video_stream_range m)
      in bt_insert ''VideoRangeType'' stream_range (bt_insert ''VideoRange'' stream_range m))"

definition h264_fields :: "json_map \<Rightarrow> json_map" where
  "h264_fields m =
     insert_if_missing_or_null ''RefFrames'' (json_nat 1)
       (insert_if_missing_or_null ''Level'' (json_nat 30)
         (insert_if_missing_or_null ''NalLengthSize'' (JStr ''4'') m))"

definition video_fields :: "string \<Rightarrow> int option \<Rightarrow> int option \<Rightarrow> int option \<Rightarrow> json_map \<Rightarrow> json_map" where
  "video_fields codec bit_depth width height m =
     (let m = insert_some ''BitDepth'' json_int bit_depth m;
          m = fold bt_remove video_absent_keys m;
          is_h264 = eq_ignore_case codec ''h264'';
          m = insert_if_missing_or_null ''IsAVC'' (JBool is_h264) m;
          m = insert_if_missing_or_null ''IsAnamorphic'' (JBool False) m;
          m = insert_if_missing_or_null ''IsInterlaced'' (JBool False) m;
          m = insert_if_missing_or_null ''SupportsExternalStream'' (JBool False) m;
          m = insert_some_if_missing ''AspectRatio'' JStr (video_aspect_ratio width height) m;
          m = (if is_h264 then h264_fields m else m)
      in range_fields (reference_frame_rate_field m))"

definition stored_type :: "json_map \<Rightarrow> string" where
  "stored_type m = unwrap_or [] (obj_str ''Type'' m)"

definition stream_api_codec :: "json_map \<Rightarrow> string" where
  "stream_api_codec m = media_stream_api_codec (stored_type m) (unwrap_or ''unknown'' (obj_str ''Codec'' m))"

definition stream_language :: "json_map \<Rightarrow> string option" where
  "stream_language m = Option.bind (obj_str ''Language'' m) normalize_language_code"

definition codec_and_language :: "json_map \<Rightarrow> json_map" where
  "codec_and_language m =
     insert_some ''Language'' JStr (stream_language m)
       (if stream_api_codec m \<noteq> unwrap_or ''unknown'' (obj_str ''Codec'' m)
        then bt_insert ''Codec'' (JStr (stream_api_codec m)) m else m)"

text \<open>\<open>m0\<close> is the stored object and \<open>m\<close> has its codec and language normalised.\<close>

definition kind_fields :: "json_map \<Rightarrow> json_map \<Rightarrow> json_map" where
  "kind_fields m0 m =
     (let kind = stored_type m0; codec = stream_api_codec m0;
          bit_depth = opt_or (obj_int ''BitDepth'' m) (video_bit_depth_from_pixel_format (obj_str ''PixelFormat'' m));
          m' = common_fields (stream_language m0) m
      in if kind = ''Subtitle'' then subtitle_fields codec m'
         else if kind = ''Audio'' then audio_fields (obj_int ''Channels'' m) (obj_str ''ChannelLayout'' m) m'
         else if kind = ''Video'' then video_fields codec bit_depth (obj_int ''Width'' m) (obj_int ''Height'' m) m'
         else m')"

definition stream_title :: "json_map \<Rightarrow> json_map \<Rightarrow> json_map \<Rightarrow> string" where
  "stream_title m0 m m' =
     (if stored_type m0 = ''Video''
      then video_stream_display_title (stream_api_codec m0) (obj_int ''Width'' m) (obj_int ''Height'' m)
             (obj_str ''VideoRange'' m')
      else media_stream_display_title (stored_type m0) (stream_api_codec m0) (stream_language m0)
             (obj_str ''Title'' m) (obj_int ''Channels'' m) (obj_str ''ChannelLayout'' m)
             (obj_flag ''IsDefault'' m) (obj_flag ''IsForced'' m))"

definition normalize_stream_object :: "json_map \<Rightarrow> json_map" where
  "normalize_stream_object m0 =
     (let m = codec_and_language m0; m' = kind_fields m0 m
      in bt_insert ''DisplayTitle'' (JStr (stream_title m0 m m')) m')"

definition normalize_media_stream :: "json \<Rightarrow> json" where
  "normalize_media_stream v = (case v of JObj m \<Rightarrow> JObj (normalize_stream_object m) | _ \<Rightarrow> v)"

definition stream_of_type :: "string \<Rightarrow> json \<Rightarrow> bool" where
  "stream_of_type t v \<longleftrightarrow> is_some_and (\<lambda>w. eq_ignore_case w t) (Option.bind (jget ''Type'' v) as_str)"

definition enrich_media_streams_with_context :: "json list \<Rightarrow> json list" where
  "enrich_media_streams_with_context streams =
     (case find (stream_of_type ''Video'') streams of
        None \<Rightarrow> streams
      | Some v \<Rightarrow>
          (let width = jindex v ''Width''; height = jindex v ''Height''
           in if width = JNull \<and> height = JNull then streams
              else map (\<lambda>s. case s of
                     JObj m \<Rightarrow>
                       if stream_of_type ''Subtitle'' s
                       then JObj (insert_if_missing_or_null ''Height'' height
                                    (insert_if_missing_or_null ''Width'' width m))
                       else s
                   | _ \<Rightarrow> s) streams))"

section \<open>The streams of an item\<close>

text \<open>\<open>Path::extension\<close>: the text after the last dot of the file name, unless that dot is its first byte.\<close>

definition path_extension :: "string \<Rightarrow> string option" where
  "path_extension p =
     Option.bind (file_name p) (\<lambda>n.
       case rsplit_once (CHR ''.'') n of Some (stem, ext) \<Rightarrow> if stem = [] then None else Some ext | None \<Rightarrow> None)"

definition media_item_container :: "media_item \<Rightarrow> string option" where
  "media_item_container item = map_option to_ascii_lowercase (path_extension (item_path item))"

definition unprobed_audio_stream :: "media_item \<Rightarrow> json" where
  "unprobed_audio_stream item =
     json_obj [
       (''Codec'', JStr (unwrap_or ''unknown'' (media_item_container item))), (''Language'', JNull),
       (''DisplayTitle'', JStr ''Audio''), (''IsInterlaced'', JBool False),
       (''BitRate'', json_opt json_int (item_bitrate item)), (''BitDepth'', JNull), (''Channels'', JNull),
       (''SampleRate'', JNull), (''IsDefault'', JBool True), (''IsForced'', JBool False),
       (''Type'', JStr ''Audio''), (''Index'', json_nat 0), (''IsExternal'', JBool False), (''Path'', JNull)]"

definition unprobed_video_stream :: "media_item \<Rightarrow> json" where
  "unprobed_video_stream item =
     json_obj [
       (''Codec'', JStr (unwrap_or ''unknown'' (media_item_container item))), (''Language'', JNull),
       (''ColorTransfer'', JNull), (''ColorPrimaries'', JNull), (''ColorSpace'', JNull), (''TimeBase'', JNull),
       (''VideoRange'', JNull), (''DisplayTitle'', JStr ''Video''), (''NalLengthSize'', JNull),
       (''IsInterlaced'', JBool False), (''IsAVC'', JNull),
       (''BitRate'', json_opt json_int (item_bitrate item)), (''BitDepth'', JNull), (''RefFrames'', JNull),
       (''IsDefault'', JBool True), (''IsForced'', JBool False),
       (''Height'', json_opt json_int (item_height item)), (''Width'', json_opt json_int (item_width item)),
       (''AverageFrameRate'', JNull), (''RealFrameRate'', JNull), (''Profile'', JNull), (''Type'', JStr ''Video''),
       (''AspectRatio'', JNull), (''Index'', json_nat 0), (''IsExternal'', JBool False),
       (''IsTextSubtitleStream'', JBool False), (''SupportsExternalStream'', JBool False), (''Path'', JNull),
       (''PixelFormat'', JNull), (''Level'', JNull), (''IsAnamorphic'', JNull)]"

definition media_item_streams :: "media_item \<Rightarrow> json list" where
  "media_item_streams item =
     (if item_media_streams item \<noteq> []
      then enrich_media_streams_with_context (map normalize_media_stream (item_media_streams item))
      else if item_media_type item = ''Audio'' then [normalize_media_stream (unprobed_audio_stream item)]
      else if item_media_type item = ''Video'' then [normalize_media_stream (unprobed_video_stream item)]
      else [])"

section \<open>Lookups\<close>

definition stream_index :: "json \<Rightarrow> int option" where
  "stream_index v = Option.bind (jget ''Index'' v) json_value_i64"

definition stream_default :: "json \<Rightarrow> bool" where
  "stream_default v = unwrap_or False (Option.bind (jget ''IsDefault'' v) as_bool)"

fun default_audio_from :: "int option \<Rightarrow> json list \<Rightarrow> int option" where
  "default_audio_from first_audio [] = first_audio"
| "default_audio_from first_audio (v # vs) =
     (case (stream_of_type ''Audio'' v, stream_index v) of
        (True, Some i) \<Rightarrow>
          if stream_default v then Some i
          else default_audio_from (if first_audio = None then Some i else first_audio) vs
      | _ \<Rightarrow> default_audio_from first_audio vs)"

definition default_audio_stream_index :: "json list \<Rightarrow> int option" where
  "default_audio_stream_index streams = default_audio_from None streams"

definition first_stream_index :: "json list \<Rightarrow> string \<Rightarrow> int option" where
  "first_stream_index streams t = find_map (\<lambda>v. if stream_of_type t v then stream_index v else None) streams"

definition default_subtitle_stream_index :: "json list \<Rightarrow> int option" where
  "default_subtitle_stream_index streams =
     find_map (\<lambda>v. if stream_of_type ''Subtitle'' v \<and> stream_default v then stream_index v else None) streams"

definition media_item_has_stream_type :: "media_item \<Rightarrow> string \<Rightarrow> bool" where
  "media_item_has_stream_type item t = list_ex (stream_of_type t) (media_item_streams item)"

definition media_item_has_stream_index :: "media_item \<Rightarrow> string \<Rightarrow> int \<Rightarrow> bool" where
  "media_item_has_stream_index item t i =
     list_ex (\<lambda>v. stream_of_type t v \<and> stream_index v = Some i) (media_item_streams item)"

definition stream_codec :: "json \<Rightarrow> string option" where
  "stream_codec v =
     map_option trim (opt_filter (\<lambda>c. trim c \<noteq> []) (Option.bind (jget ''Codec'' v) as_str))"

definition media_item_stream_codec :: "media_item \<Rightarrow> string \<Rightarrow> string option" where
  "media_item_stream_codec item t =
     find_map (\<lambda>v. if stream_of_type t v then stream_codec v else None) (item_media_streams item)"

definition media_item_stream_codec_by_index :: "media_item \<Rightarrow> string \<Rightarrow> int \<Rightarrow> string option" where
  "media_item_stream_codec_by_index item t i =
     find_map (\<lambda>v. if stream_of_type t v \<and> stream_index v = Some i then stream_codec v else None)
       (item_media_streams item)"

definition media_item_stream_u32 :: "media_item \<Rightarrow> string \<Rightarrow> int option \<Rightarrow> string \<Rightarrow> nat option" where
  "media_item_stream_u32 item t selected field =
     find_map
       (\<lambda>v. if \<not> stream_of_type t v \<or> (selected \<noteq> None \<and> stream_index v \<noteq> selected) then None
            else Option.bind (Option.bind (jget field v) json_value_i64) positive_u32)
       (media_item_streams item)"

definition selected_subtitle_stream_is_image :: "json list \<Rightarrow> int option \<Rightarrow> bool" where
  "selected_subtitle_stream_is_image streams selected =
     (case opt_filter (\<lambda>i. 0 \<le> i) selected of
        None \<Rightarrow> False
      | Some i \<Rightarrow>
          list_ex (\<lambda>v. stream_of_type ''Subtitle'' v \<and> stream_index v = Some i \<and>
                       is_some_and (\<lambda>c. \<not> is_text_subtitle_codec c) (Option.bind (jget ''Codec'' v) as_str))
            streams)"

section \<open>Aspect ratios\<close>

lemma gcd_trunc_rem: "gcd b (trunc_rem a b) = gcd a b"
proof -
  have "gcd b (- trunc_div a b * b + a) = gcd b a" by (rule gcd_add_mult)
  then show ?thesis by (simp add: trunc_rem_def gcd.commute algebra_simps)
qed

lemma gcd_i64_gcd: "gcd_i64 a b = max 1 (gcd a b)"
proof (induction a b rule: gcd_i64.induct)
  case (1 l r)
  then show ?case by (subst gcd_i64.simps) (simp add: gcd_trunc_rem)
qed

lemma trunc_div_pos: "0 < a \<Longrightarrow> 0 < b \<Longrightarrow> trunc_div a b = a div b"
  by (simp add: trunc_div_def)

text \<open>
  The aspect ratio shown for a video is its resolution in lowest terms: two coprime numbers in the
  proportion of width and height.
\<close>

theorem video_aspect_ratio_reduced:
  assumes "0 < w" "0 < h"
  shows "\<exists>a b. video_aspect_ratio (Some w) (Some h) = Some (show_int a @ '':'' @ show_int b) \<and>
    coprime a b \<and> a * h = b * w"
proof (intro exI conjI)
  let ?d = "gcd w h"
  have d: "gcd_i64 w h = ?d" "0 < ?d"
    using assms gcd_pos_int [of w h] by (simp_all add: gcd_i64_gcd del: gcd_pos_int)
  show "video_aspect_ratio (Some w) (Some h) = Some (show_int (w div ?d) @ '':'' @ show_int (h div ?d))"
    using assms d by (simp add: video_aspect_ratio_def opt_filter_def trunc_div_pos Let_def)
  show "coprime (w div ?d) (h div ?d)"
    using assms by (intro div_gcd_coprime) auto
  show "(w div ?d) * h = (h div ?d) * w"
    by (metis div_mult_swap gcd_dvd1 gcd_dvd2 mult.commute)
qed

theorem video_aspect_ratio_reduced_witness:
  "\<exists>a b. video_aspect_ratio (Some 1920) (Some 1080) = Some (show_int a @ '':'' @ show_int b) \<and>
    coprime a b \<and> a * 1080 = b * 1920"
  by (rule video_aspect_ratio_reduced) simp_all

section \<open>What normalisation keeps\<close>

lemma bt_insert_other [simp]: "k \<noteq> j \<Longrightarrow> map_of (bt_insert j v m) k = map_of m k"
  by (induction j v m rule: bt_insert.induct) auto

lemma insert_if_missing_other [simp]: "k \<noteq> j \<Longrightarrow> map_of (insert_if_missing_or_null j v m) k = map_of m k"
  by (simp add: insert_if_missing_or_null_def)

lemma insert_some_other [simp]: "k \<noteq> j \<Longrightarrow> map_of (insert_some j f x m) k = map_of m k"
  by (simp add: insert_some_def split: option.split)

lemma insert_some_if_missing_other [simp]: "k \<noteq> j \<Longrightarrow> map_of (insert_some_if_missing j f x m) k = map_of m k"
  by (simp add: insert_some_if_missing_def split: option.split)

lemma reference_frame_rate_field_other:
  "k \<noteq> ''ReferenceFrameRate'' \<Longrightarrow> map_of (reference_frame_rate_field m) k = map_of m k"
  by (simp add: reference_frame_rate_field_def)

lemma range_fields_other:
  "k \<noteq> ''VideoRange'' \<Longrightarrow> k \<noteq> ''VideoRangeType'' \<Longrightarrow> map_of (range_fields m) k = map_of m k"
  by (simp add: range_fields_def Let_def)

lemma fold_bt_remove_other: "k \<notin> set js \<Longrightarrow> map_of (fold bt_remove js m) k = map_of m k"
  by (induction js arbitrary: m) auto

definition kept_keys :: "string list" where
  "kept_keys = [''Type'', ''Index'', ''IsDefault'', ''IsForced'', ''BitRate'', ''Width'', ''Height'', ''Profile'',
     ''RealFrameRate'', ''AverageFrameRate'']"

definition written_keys :: "string list" where
  "written_keys = video_absent_keys @
     [''TimeBase'', ''VideoRange'', ''VideoRangeType'', ''AudioSpatialFormat'', ''IsHearingImpaired'',
      ''IsOriginal'', ''IsInterlaced'', ''IsTextSubtitleStream'', ''LocalizedLanguage'', ''SupportsExternalStream'',
      ''LocalizedUndefined'', ''LocalizedForced'', ''LocalizedHearingImpaired'', ''LocalizedOriginal'', ''BitDepth'',
      ''IsAVC'', ''IsAnamorphic'', ''AspectRatio'', ''RefFrames'', ''Level'', ''NalLengthSize'',
      ''ReferenceFrameRate'', ''DisplayTitle'', ''Codec'', ''Language'']"

lemma kept_keys_not_written: "list_all (\<lambda>k. list_all (\<lambda>j. k \<noteq> j) written_keys) kept_keys"
  by code_simp

lemma kept_keys_other: "k \<in> set kept_keys \<Longrightarrow> list_all (\<lambda>j. k \<noteq> j) written_keys"
  using kept_keys_not_written by (simp add: list_all_iff)

lemma common_fields_keeps: "k \<in> set kept_keys \<Longrightarrow> map_of (common_fields l m) k = map_of m k"
  by (drule kept_keys_other) (simp add: written_keys_def common_fields_def Let_def video_absent_keys_def)

lemma subtitle_fields_keeps: "k \<in> set kept_keys \<Longrightarrow> map_of (subtitle_fields c m) k = map_of m k"
  by (drule kept_keys_other) (simp add: written_keys_def subtitle_fields_def Let_def video_absent_keys_def)

lemma audio_fields_keeps: "k \<in> set kept_keys \<Longrightarrow> map_of (audio_fields c l m) k = map_of m k"
  by (drule kept_keys_other) (simp add: written_keys_def audio_fields_def Let_def video_absent_keys_def)

lemma h264_fields_keeps: "k \<in> set kept_keys \<Longrightarrow> map_of (h264_fields m) k = map_of m k"
  by (drule kept_keys_other) (simp add: written_keys_def h264_fields_def)

lemma video_fields_keeps: "k \<in> set kept_keys \<Longrightarrow> map_of (video_fields c b w h m) k = map_of m k"
proof -
  assume k: "k \<in> set kept_keys"
  have absent: "k \<notin> set video_absent_keys" and other: "k \<noteq> ''BitDepth''" "k \<noteq> ''IsAVC''" "k \<noteq> ''IsAnamorphic''"
    "k \<noteq> ''IsInterlaced''" "k \<noteq> ''SupportsExternalStream''" "k \<noteq> ''AspectRatio''" "k \<noteq> ''VideoRange''"
    "k \<noteq> ''VideoRangeType''" "k \<noteq> ''ReferenceFrameRate''"
    using kept_keys_other [OF k] by (auto simp: written_keys_def list_all_iff)
  show ?thesis
    unfolding video_fields_def Let_def if_distribR
    using h264_fields_keeps [OF k]
    by (simp only: range_fields_other reference_frame_rate_field_other insert_some_if_missing_other
        insert_if_missing_other insert_some_other fold_bt_remove_other [OF absent] other not_False_eq_True
        if_distrib [of "\<lambda>m. map_of m k"] if_cancel)
qed

lemma normalize_stream_object_keeps:
  assumes "k \<in> set kept_keys"
  shows "map_of (normalize_stream_object m) k = map_of m k"
proof -
  have other: "k \<noteq> ''DisplayTitle''" "k \<noteq> ''Codec''" "k \<noteq> ''Language''"
    using kept_keys_other [OF assms] by (simp_all add: written_keys_def)
  have "map_of (kind_fields m0 m) k = map_of m k" for m0 m
    by (simp add: kind_fields_def Let_def common_fields_keeps [OF assms] subtitle_fields_keeps [OF assms]
        audio_fields_keeps [OF assms] video_fields_keeps [OF assms])
  moreover have "map_of (codec_and_language m) k = map_of m k"
    using other by (simp add: codec_and_language_def)
  ultimately show ?thesis using other(1) by (simp add: normalize_stream_object_def Let_def)
qed

lemma normalize_media_stream_keeps: "k \<in> set kept_keys \<Longrightarrow> jget k (normalize_media_stream v) = jget k v"
  by (cases v) (simp_all add: normalize_media_stream_def jget_def normalize_stream_object_keeps)

definition same_stream :: "json \<Rightarrow> json \<Rightarrow> bool" where
  "same_stream v w \<longleftrightarrow> (\<forall>k \<in> {''Type'', ''Index'', ''IsDefault''}. jget k v = jget k w)"

lemma normalize_same_stream: "same_stream (normalize_media_stream v) v"
  by (auto simp: same_stream_def kept_keys_def intro!: normalize_media_stream_keeps)

lemma default_audio_from_same:
  "list_all2 same_stream vs ws \<Longrightarrow> default_audio_from f vs = default_audio_from f ws"
proof (induction vs ws arbitrary: f rule: list_all2_induct)
  case (Cons v vs w ws)
  then have "stream_of_type ''Audio'' v = stream_of_type ''Audio'' w" "stream_index v = stream_index w"
    "stream_default v = stream_default w"
    by (simp_all add: same_stream_def stream_of_type_def stream_index_def stream_default_def)
  with Cons.IH show ?case by (cases f) (auto split: option.split bool.split)
qed simp

lemma enrich_same_stream: "list_all2 same_stream (enrich_media_streams_with_context vs) vs"
  by (auto simp: enrich_media_streams_with_context_def Let_def list_all2_conv_all_nth same_stream_def jget_def
      split: option.split json.split)

lemma same_stream_trans: "same_stream u v \<Longrightarrow> same_stream v w \<Longrightarrow> same_stream u w"
  by (simp add: same_stream_def)

lemma unprobed_fields:
  "jget ''Type'' (unprobed_audio_stream item) = Some (JStr ''Audio'')"
  "jget ''Index'' (unprobed_audio_stream item) = Some (json_nat 0)"
  "jget ''IsDefault'' (unprobed_audio_stream item) = Some (JBool True)"
  "jget ''Type'' (unprobed_video_stream item) = Some (JStr ''Video'')"
  by (simp_all add: unprobed_audio_stream_def unprobed_video_stream_def jget_json_obj)

lemma video_not_audio: "\<not> eq_ignore_case ''Video'' ''Audio''"
  by code_simp

text \<open>
  The audio track chosen by default is that of the stored streams: normalising the streams and
  adding the subtitles' context changes nothing that the choice depends on, an audio item that was
  never probed gets its one synthetic track, and any other unprobed item has none.
\<close>

theorem default_audio_of_presented_streams:
  "default_audio_stream_index (media_item_streams item) =
     (if item_media_streams item \<noteq> [] then default_audio_stream_index (item_media_streams item)
      else if item_media_type item = ''Audio'' then Some 0 else None)"
proof (cases "item_media_streams item = []")
  case False
  have stored: "list_all2 same_stream (map normalize_media_stream vs) vs" for vs
    by (simp add: list_all2_conv_all_nth normalize_same_stream)
  have "list_all2 same_stream (enrich_media_streams_with_context (map normalize_media_stream vs)) vs" for vs
    by (rule list_all2_trans [of same_stream same_stream same_stream, OF _ enrich_same_stream stored])
      (rule same_stream_trans)
  with False show ?thesis
    by (simp add: media_item_streams_def default_audio_stream_index_def default_audio_from_same)
next
  case True
  have one: "default_audio_stream_index [normalize_media_stream v] = default_audio_stream_index [v]" for v
    unfolding default_audio_stream_index_def
    by (rule default_audio_from_same) (simp add: normalize_same_stream)
  have "default_audio_stream_index [unprobed_audio_stream item] = Some 0"
    "default_audio_stream_index [unprobed_video_stream item] = None"
    by (simp_all add: default_audio_stream_index_def stream_of_type_def stream_index_def stream_default_def
        unprobed_fields is_some_and_def video_not_audio json_value_i64_def json_nat_def unwrap_or_def)
  moreover have "default_audio_stream_index [] = None" by (simp add: default_audio_stream_index_def)
  ultimately show ?thesis using True by (simp add: media_item_streams_def one)
qed

end
