(* ===== verification/Playback_Decision.thy ===== *)
theory Playback_Decision
  imports Media_Streams Job_Admission
begin

text \<open>
  Whether an item is played directly, remuxed or transcoded for a client, with which stream modes,
  output limits and reasons (\<open>crates/jellyrin-api/src/lib.rs\<close>, 40065--40086, 40194--40201,
  41831--41859, 43369--44806). Whether the item is remote is read from its metadata by the provider
  code and is part of \<open>playback_source\<close>; the text of a floating-point JSON number is a parameter.
\<close>

section \<open>Outcome\<close>

record output_constraints =
  oc_max_width :: "nat option"
  oc_max_height :: "nat option"
  oc_video_bitrate :: "nat option"
  oc_audio_bitrate :: "nat option"
  oc_video_profile :: "h264_profile option"
  oc_video_level :: "nat option"
  oc_video_bit_depth :: "nat option"
  oc_max_frame_rate :: "nat option"
  oc_audio_profile :: "aac_profile option"
  oc_audio_channels :: "nat option"

definition no_constraints :: output_constraints where
  "no_constraints =
     \<lparr> oc_max_width = None, oc_max_height = None, oc_video_bitrate = None, oc_audio_bitrate = None,
       oc_video_profile = None, oc_video_level = None, oc_video_bit_depth = None, oc_max_frame_rate = None,
       oc_audio_profile = None, oc_audio_channels = None \<rparr>"

datatype delivery_mode = DirectLocal | DirectProxy | HlsRemux | HlsTranscode | Unsupported

record transcode_decision =
  td_delivery :: delivery_mode
  td_video :: hls_stream_mode
  td_audio :: hls_stream_mode
  td_reasons :: "string list"
  td_output :: output_constraints

text \<open>What the metadata says of the source: a plugin's video on demand, or any remote item.\<close>

record playback_source =
  src_item :: media_item
  src_xtream_remote :: bool
  src_plugin_vod :: bool

section \<open>Direct play profiles\<close>

definition listed :: "string list \<Rightarrow> string \<Rightarrow> bool" where
  "listed allowed x = list_ex (\<lambda>c. eq_ignore_case c x) allowed"

definition type_matches :: "string option \<Rightarrow> media_item \<Rightarrow> bool" where
  "type_matches profile_type item =
     (case profile_type of Some t \<Rightarrow> eq_ignore_case t (item_media_type item) | None \<Rightarrow> True)"

definition direct_play_profile_matches :: "media_item \<Rightarrow> direct_play_profile \<Rightarrow> bool" where
  "direct_play_profile_matches item p =
     (type_matches (dp_profile_type p) item \<and>
      (case media_item_container item of
         None \<Rightarrow> False
       | Some c \<Rightarrow>
           (dp_containers p = [] \<or> listed (dp_containers p) c) \<and>
           (dp_video_codecs p = [] \<or>
              (case media_item_stream_codec item ''Video'' of Some v \<Rightarrow> listed (dp_video_codecs p) v | None \<Rightarrow> False)) \<and>
           (dp_audio_codecs p = [] \<or>
              (case media_item_stream_codec item ''Audio'' of Some a \<Rightarrow> listed (dp_audio_codecs p) a | None \<Rightarrow> True))))"

definition some_profile :: "'a list option \<Rightarrow> ('a \<Rightarrow> bool) \<Rightarrow> bool" where
  "some_profile profiles P = (case profiles of None \<Rightarrow> True | Some ps \<Rightarrow> list_ex P ps)"

definition playback_direct_play_supported :: "media_item \<Rightarrow> playback_options \<Rightarrow> bool" where
  "playback_direct_play_supported item opts =
     (po_enable_direct_play opts \<and> some_profile (po_direct_play_profiles opts) (direct_play_profile_matches item))"

definition playback_profile_compatible :: "media_item \<Rightarrow> playback_options \<Rightarrow> bool" where
  "playback_profile_compatible item opts =
     some_profile (po_direct_play_profiles opts) (direct_play_profile_matches item)"

definition plugin_vod_direct_stream_profile_compatible :: "media_item \<Rightarrow> playback_options \<Rightarrow> bool" where
  "plugin_vod_direct_stream_profile_compatible item opts =
     (if eq_ignore_case (item_media_type item) ''Video'' \<and> \<not> media_item_has_stream_type item ''Video'' then False
      else some_profile (po_direct_play_profiles opts) (\<lambda>p.
        type_matches (dp_profile_type p) item \<and>
        (case media_item_container item of
           None \<Rightarrow> False
         | Some c \<Rightarrow>
             (dp_containers p = [] \<or> listed (dp_containers p) c) \<and>
             (case media_item_stream_codec item ''Video'' of
                Some v \<Rightarrow> dp_video_codecs p = [] \<or> listed (dp_video_codecs p) v | None \<Rightarrow> True) \<and>
             (case media_item_stream_codec item ''Audio'' of
                Some a \<Rightarrow> dp_audio_codecs p = [] \<or> listed (dp_audio_codecs p) a | None \<Rightarrow> True))))"

definition selected_audio_index :: "media_item \<Rightarrow> playback_options \<Rightarrow> int option" where
  "selected_audio_index item opts =
     opt_or (po_audio_stream_index opts) (default_audio_stream_index (media_item_streams item))"

definition selected_audio_codec :: "media_item \<Rightarrow> playback_options \<Rightarrow> string option" where
  "selected_audio_codec item opts =
     Option.bind (selected_audio_index item opts) (media_item_stream_codec_by_index item ''Audio'')"

definition playback_profile_codecs_compatible :: "media_item \<Rightarrow> playback_options \<Rightarrow> bool" where
  "playback_profile_codecs_compatible item opts =
     some_profile (po_direct_play_profiles opts) (\<lambda>p.
       type_matches (dp_profile_type p) item \<and>
       (dp_video_codecs p = [] \<or>
          (case media_item_stream_codec item ''Video'' of Some v \<Rightarrow> listed (dp_video_codecs p) v | None \<Rightarrow> False)) \<and>
       (dp_audio_codecs p = [] \<or>
          (case selected_audio_codec item opts of Some a \<Rightarrow> listed (dp_audio_codecs p) a | None \<Rightarrow> True)))"

definition playback_profile_video_codec_compatible :: "media_item \<Rightarrow> playback_options \<Rightarrow> bool" where
  "playback_profile_video_codec_compatible item opts =
     some_profile (po_direct_play_profiles opts) (\<lambda>p.
       type_matches (dp_profile_type p) item \<and>
       (dp_video_codecs p = [] \<or>
          is_some_and (listed (dp_video_codecs p)) (media_item_stream_codec item ''Video'')))"

section \<open>Codec conditions\<close>

definition codec_profile_targets_stream :: "codec_profile \<Rightarrow> media_item \<Rightarrow> string \<Rightarrow> string option \<Rightarrow> bool" where
  "codec_profile_targets_stream p item stream_type codec =
     ((case map_option to_ascii_lowercase (cp_profile_type p) of
         None \<Rightarrow> True
       | Some t \<Rightarrow>
           if t = ''video'' then eq_ignore_case stream_type ''Video''
           else if t = ''videoaudio'' then
             eq_ignore_case (item_media_type item) ''Video'' \<and> eq_ignore_case stream_type ''Audio''
           else if t = ''audio'' then
             eq_ignore_case (item_media_type item) ''Audio'' \<and> eq_ignore_case stream_type ''Audio''
           else False) \<and>
      (cp_codecs p = [] \<or> is_some_and (listed (cp_codecs p)) codec))"

definition audio_channels_from_layout :: "string \<Rightarrow> nat option" where
  "audio_channels_from_layout v =
     (let v = to_ascii_lowercase (trim v);
          base = trim (case split_once (CHR ''('') v of Some (b, _) \<Rightarrow> b | None \<Rightarrow> v)
      in if v = ''mono'' then Some 1
         else if v = ''stereo'' then Some 2
         else map_of [(''1.0'', 1), (''2.0'', 2), (''2.1'', 3), (''3.0'', 3), (''4.0'', 4), (''5.0'', 5),
                      (''5.1'', 6), (''6.1'', 7), (''7.1'', 8)] base)"

definition codec_condition_stream :: "media_item \<Rightarrow> playback_options \<Rightarrow> string \<Rightarrow> json option" where
  "codec_condition_stream item opts t =
     (let selected = (if eq_ignore_case t ''Audio'' then selected_audio_index item opts else None)
      in find (\<lambda>v. is_some_and (\<lambda>w. eq_ignore_case w t) (json_string_field v ''Type'') \<and>
                   (selected = None \<or> json_i64_field v ''Index'' = selected))
           (media_item_streams item))"

definition stream_profile :: "condition_property \<Rightarrow> json \<Rightarrow> condition_value option" where
  "stream_profile p v = map_option Text (Option.bind (json_string_field v ''Profile'') (normalize_codec_profile p))"

fun codec_condition_property_value ::
  "(nat \<Rightarrow> string) \<Rightarrow> media_item \<Rightarrow> playback_options \<Rightarrow> condition_property \<Rightarrow> condition_value option" where
  "codec_condition_property_value show_float item opts Prop_Width =
     map_option Numeric (opt_or (Option.bind (item_width item) positive_u32)
       (media_item_stream_u32 item ''Video'' None ''Width''))"
| "codec_condition_property_value show_float item opts Prop_Height =
     map_option Numeric (opt_or (Option.bind (item_height item) positive_u32)
       (media_item_stream_u32 item ''Video'' None ''Height''))"
| "codec_condition_property_value show_float item opts Prop_Video_Bitrate =
     map_option Numeric (opt_or (media_item_stream_u32 item ''Video'' None ''BitRate'')
       (Option.bind (item_bitrate item) positive_u32))"
| "codec_condition_property_value show_float item opts Prop_Audio_Bitrate =
     map_option Numeric (opt_or (media_item_stream_u32 item ''Audio'' (selected_audio_index item opts) ''BitRate'')
       (if eq_ignore_case (item_media_type item) ''Audio'' then Option.bind (item_bitrate item) positive_u32 else None))"
| "codec_condition_property_value show_float item opts Prop_Video_Profile =
     Option.bind (codec_condition_stream item opts ''Video'') (stream_profile Prop_Video_Profile)"
| "codec_condition_property_value show_float item opts Prop_Audio_Profile =
     Option.bind (codec_condition_stream item opts ''Audio'') (stream_profile Prop_Audio_Profile)"
| "codec_condition_property_value show_float item opts Prop_Video_Level =
     map_option Numeric
       (Option.bind (codec_condition_stream item opts ''Video'') (\<lambda>v.
          Option.bind (Option.bind (json_field_case_insensitive v ''Level'') (codec_condition_raw_value show_float))
            parse_codec_level))"
| "codec_condition_property_value show_float item opts Prop_Video_Bit_Depth =
     map_option Numeric
       (Option.bind (codec_condition_stream item opts ''Video'') (\<lambda>v. json_positive_u32_field v ''BitDepth''))"
| "codec_condition_property_value show_float item opts Prop_Video_Frame_Rate =
     map_option Numeric
       (Option.bind (codec_condition_stream item opts ''Video'') (\<lambda>v.
          Option.bind
            (find_map (\<lambda>field. Option.bind (json_field_case_insensitive v field) (codec_condition_raw_value show_float))
               [''RealFrameRate'', ''ReferenceFrameRate'', ''AverageFrameRate''])
            parse_frame_rate_millihertz))"
| "codec_condition_property_value show_float item opts Prop_Audio_Channels =
     map_option Numeric
       (Option.bind (codec_condition_stream item opts ''Audio'') (\<lambda>v.
          opt_or (json_positive_u32_field v ''Channels'')
            (Option.bind (json_string_field v ''ChannelLayout'') audio_channels_from_layout)))"

fun compare_numbers :: "condition_comparison \<Rightarrow> nat \<Rightarrow> nat \<Rightarrow> bool" where
  "compare_numbers Cmp_Less a b = (a < b)"
| "compare_numbers Cmp_Less_Equal a b = (a \<le> b)"
| "compare_numbers Cmp_Greater a b = (a > b)"
| "compare_numbers Cmp_Greater_Equal a b = (a \<ge> b)"
| "compare_numbers _ a b = False"

definition first_value :: "codec_condition \<Rightarrow> condition_value option" where
  "first_value c = (case cc_values c of [] \<Rightarrow> None | v # _ \<Rightarrow> Some v)"

definition codec_condition_matches :: "codec_condition \<Rightarrow> condition_value option \<Rightarrow> bool" where
  "codec_condition_matches c actual =
     (case actual of
        None \<Rightarrow> \<not> cc_is_required c
      | Some a \<Rightarrow>
          (case cc_comparison c of
             Cmp_Equal \<Rightarrow> first_value c = Some a
           | Cmp_Not_Equal \<Rightarrow> first_value c \<noteq> Some a
           | Cmp_Equal_Any \<Rightarrow> a \<in> set (cc_values c)
           | Cmp_Not_Equal_Any \<Rightarrow> a \<notin> set (cc_values c)
           | kind \<Rightarrow>
               (case (a, first_value c) of
                  (Numeric n, Some (Numeric v)) \<Rightarrow> compare_numbers kind n v
                | _ \<Rightarrow> False)))"

definition conditions_codec :: "media_item \<Rightarrow> playback_options \<Rightarrow> string \<Rightarrow> string option" where
  "conditions_codec item opts stream_type =
     (if eq_ignore_case stream_type ''Audio'' then selected_audio_codec item opts
      else media_item_stream_codec item stream_type)"

definition targeting_profiles ::
  "media_item \<Rightarrow> playback_options \<Rightarrow> string \<Rightarrow> string option \<Rightarrow> codec_profile list" where
  "targeting_profiles item opts stream_type codec =
     filter (\<lambda>p. codec_profile_targets_stream p item stream_type codec) (po_codec_profiles opts)"

definition playback_codec_conditions_compatible ::
  "(nat \<Rightarrow> string) \<Rightarrow> media_item \<Rightarrow> playback_options \<Rightarrow> string \<Rightarrow> bool" where
  "playback_codec_conditions_compatible show_float item opts stream_type =
     list_all
       (\<lambda>p. cp_invalid_required p = [] \<and>
            list_all (\<lambda>c. codec_condition_matches c
                (codec_condition_property_value show_float item opts (cc_property c))) (cp_conditions p))
       (targeting_profiles item opts stream_type (conditions_codec item opts stream_type))"

definition codec_condition_property_compatible ::
  "(nat \<Rightarrow> string) \<Rightarrow> media_item \<Rightarrow> playback_options \<Rightarrow> string \<Rightarrow> condition_property \<Rightarrow> bool" where
  "codec_condition_property_compatible show_float item opts stream_type property =
     (let profiles = targeting_profiles item opts stream_type (conditions_codec item opts stream_type)
      in if list_ex (\<lambda>p. Some property \<in> set (cp_invalid_required p)) profiles then False
         else list_all (\<lambda>c. codec_condition_matches c
                (codec_condition_property_value show_float item opts (cc_property c)))
              (filter (\<lambda>c. cc_property c = property) (concat (map cp_conditions profiles))))"

definition codec_conditions_have_unknown_required_condition ::
  "media_item \<Rightarrow> playback_options \<Rightarrow> string \<Rightarrow> bool" where
  "codec_conditions_have_unknown_required_condition item opts stream_type =
     list_ex (\<lambda>p. codec_profile_targets_stream p item stream_type (conditions_codec item opts stream_type) \<and>
                  None \<in> set (cp_invalid_required p)) (po_codec_profiles opts)"

section \<open>Limits of an encoded output\<close>

fun codec_numeric_value :: "condition_value \<Rightarrow> nat option" where
  "codec_numeric_value (Numeric n) = Some n"
| "codec_numeric_value (Text _) = None"

definition list_max :: "nat list \<Rightarrow> nat option" where
  "list_max xs = (if xs = [] then None else Some (Max (set xs)))"

definition list_min :: "nat list \<Rightarrow> nat option" where
  "list_min xs = (if xs = [] then None else Some (Min (set xs)))"

definition codec_output_conditions ::
  "media_item \<Rightarrow> playback_options \<Rightarrow> string \<Rightarrow> string \<Rightarrow> condition_property \<Rightarrow> codec_condition list" where
  "codec_output_conditions item opts stream_type codec property =
     filter (\<lambda>c. cc_property c = property)
       (concat (map cp_conditions (targeting_profiles item opts stream_type (Some codec))))"

definition condition_upper_bound :: "codec_condition \<Rightarrow> nat option" where
  "condition_upper_bound c =
     (case cc_comparison c of
        Cmp_Equal \<Rightarrow> Option.bind (first_value c) codec_numeric_value
      | Cmp_Less_Equal \<Rightarrow> Option.bind (first_value c) codec_numeric_value
      | Cmp_Equal_Any \<Rightarrow> list_max (List.map_filter codec_numeric_value (cc_values c))
      | Cmp_Less \<Rightarrow> Option.bind (Option.bind (first_value c) codec_numeric_value)
                     (\<lambda>v. if v = 0 then None else Some (v - 1))
      | _ \<Rightarrow> None)"

definition codec_output_upper_bound ::
  "media_item \<Rightarrow> playback_options \<Rightarrow> string \<Rightarrow> string \<Rightarrow> condition_property \<Rightarrow> nat option" where
  "codec_output_upper_bound item opts stream_type codec property =
     list_min (List.map_filter condition_upper_bound
       (codec_output_conditions item opts stream_type codec property))"

definition min_optional_u32 :: "nat option \<Rightarrow> nat option \<Rightarrow> nat option" where
  "min_optional_u32 a b =
     (case (a, b) of
        (Some x, Some y) \<Rightarrow> Some (min x y)
      | (Some x, None) \<Rightarrow> Some x
      | (None, Some y) \<Rightarrow> Some y
      | (None, None) \<Rightarrow> None)"

definition codec_output_has_invalid_required_condition ::
  "media_item \<Rightarrow> playback_options \<Rightarrow> string \<Rightarrow> string \<Rightarrow> bool" where
  "codec_output_has_invalid_required_condition item opts stream_type codec =
     list_ex (\<lambda>p. codec_profile_targets_stream p item stream_type (Some codec) \<and> cp_invalid_required p \<noteq> [])
       (po_codec_profiles opts)"

definition codec_output_conditions_match :: "codec_condition list \<Rightarrow> condition_value \<Rightarrow> bool" where
  "codec_output_conditions_match conditions v = list_all (\<lambda>c. codec_condition_matches c (Some v)) conditions"

text \<open>
  Each selection is \<open>None\<close> when no value the encoder offers meets the conditions, and \<open>Some None\<close> when
  there is nothing to constrain.
\<close>

definition h264_profile_text :: "h264_profile \<Rightarrow> condition_value" where
  "h264_profile_text p = Text (profile_value p)"

definition selected_h264_output_profile :: "media_item \<Rightarrow> playback_options \<Rightarrow> h264_profile option option" where
  "selected_h264_output_profile item opts =
     (let conditions = codec_output_conditions item opts ''Video'' ''h264'' Prop_Video_Profile
      in if conditions = [] then Some None
         else map_option Some (find (\<lambda>p. codec_output_conditions_match conditions (h264_profile_text p))
                [MainProfile, Baseline, High]))"

definition levels_descending :: "nat list" where
  "levels_descending = [62, 61, 60, 52, 51, 50, 42, 41, 40, 32, 31, 30, 22, 21, 20, 13, 12, 11, 10]"

definition selected_h264_output_level :: "media_item \<Rightarrow> playback_options \<Rightarrow> nat option option" where
  "selected_h264_output_level item opts =
     (let conditions = codec_output_conditions item opts ''Video'' ''h264'' Prop_Video_Level
      in if conditions = [] then Some None
         else map_option Some (find (\<lambda>l. codec_output_conditions_match conditions (Numeric l)) levels_descending))"

definition selected_video_bit_depth :: "media_item \<Rightarrow> playback_options \<Rightarrow> nat option option" where
  "selected_video_bit_depth item opts =
     (let conditions = codec_output_conditions item opts ''Video'' ''h264'' Prop_Video_Bit_Depth
      in if conditions = [] then Some None
         else if codec_output_conditions_match conditions (Numeric 8) then Some (Some 8) else None)"

definition selected_aac_output_profile :: "media_item \<Rightarrow> playback_options \<Rightarrow> aac_profile option option" where
  "selected_aac_output_profile item opts =
     (let conditions = codec_output_conditions item opts ''Audio'' ''aac'' Prop_Audio_Profile
      in if conditions = [] then Some None
         else if codec_output_conditions_match conditions (Text (aac_profile_str LowComplexity))
              then Some (Some LowComplexity) else None)"

definition source_numeric :: "(nat \<Rightarrow> string) \<Rightarrow> media_item \<Rightarrow> playback_options \<Rightarrow> condition_property \<Rightarrow> nat option" where
  "source_numeric show_float item opts p =
     Option.bind (codec_condition_property_value show_float item opts p) codec_numeric_value"

definition selected_aac_output_channels ::
  "(nat \<Rightarrow> string) \<Rightarrow> media_item \<Rightarrow> playback_options \<Rightarrow> nat option option" where
  "selected_aac_output_channels show_float item opts =
     (let conditions = codec_output_conditions item opts ''Audio'' ''aac'' Prop_Audio_Channels;
          input = opt_filter (\<lambda>n. n \<le> u8_max) (source_numeric show_float item opts Prop_Audio_Channels);
          preferred = min (unwrap_or 2 input) 8
      in if conditions = [] then Some None
         else map_option Some
                (find (\<lambda>n. codec_output_conditions_match conditions (Numeric n))
                  (filter (\<lambda>n. n \<le> preferred) (preferred # [8, 7, 6, 5, 4, 3, 2, 1]))))"

definition frame_rate_candidates :: "codec_condition \<Rightarrow> nat list" where
  "frame_rate_candidates c =
     concat (map (\<lambda>v. v # (case cc_comparison c of
                        Cmp_Less \<Rightarrow> if v = 0 then [] else [v - 1]
                      | Cmp_Greater \<Rightarrow> if v = u32_max then [] else [v + 1]
                      | _ \<Rightarrow> []))
       (List.map_filter codec_numeric_value (cc_values c)))"

definition selected_video_frame_rate_limit ::
  "(nat \<Rightarrow> string) \<Rightarrow> media_item \<Rightarrow> playback_options \<Rightarrow> nat option option" where
  "selected_video_frame_rate_limit show_float item opts =
     (let conditions = codec_output_conditions item opts ''Video'' ''h264'' Prop_Video_Frame_Rate;
          input = source_numeric show_float item opts Prop_Video_Frame_Rate;
          candidates = (case input of Some i \<Rightarrow> [i] | None \<Rightarrow> []) @ concat (map frame_rate_candidates conditions)
      in if conditions = [] then Some None
         else if is_some_and (\<lambda>i. codec_output_conditions_match conditions (Numeric i)) input then Some None
         else map_option (\<lambda>s. if input = Some s then None else Some s)
                (find (\<lambda>n. codec_output_conditions_match conditions (Numeric n))
                  (filter (\<lambda>n. case input of Some i \<Rightarrow> n \<le> i | None \<Rightarrow> True)
                    (remdups_adj (rev (sort candidates))))))"

fun encoded_output_codec_property_value ::
  "(nat \<Rightarrow> string) \<Rightarrow> media_item \<Rightarrow> playback_options \<Rightarrow> condition_property \<Rightarrow> output_constraints \<Rightarrow>
   condition_value option" where
  "encoded_output_codec_property_value show_float item opts Prop_Width out =
     map_option (\<lambda>v. Numeric (case oc_max_width out of Some m \<Rightarrow> min v m | None \<Rightarrow> v))
       (source_numeric show_float item opts Prop_Width)"
| "encoded_output_codec_property_value show_float item opts Prop_Height out =
     map_option (\<lambda>v. Numeric (case oc_max_height out of Some m \<Rightarrow> min v m | None \<Rightarrow> v))
       (source_numeric show_float item opts Prop_Height)"
| "encoded_output_codec_property_value show_float item opts Prop_Video_Bitrate out =
     map_option Numeric (opt_or (oc_video_bitrate out) (source_numeric show_float item opts Prop_Video_Bitrate))"
| "encoded_output_codec_property_value show_float item opts Prop_Audio_Bitrate out =
     map_option Numeric (opt_or (oc_audio_bitrate out) (source_numeric show_float item opts Prop_Audio_Bitrate))"
| "encoded_output_codec_property_value show_float item opts Prop_Video_Profile out =
     Some (h264_profile_text (unwrap_or MainProfile (oc_video_profile out)))"
| "encoded_output_codec_property_value show_float item opts Prop_Audio_Profile out =
     Some (Text (aac_profile_str (unwrap_or LowComplexity (oc_audio_profile out))))"
| "encoded_output_codec_property_value show_float item opts Prop_Video_Level out =
     map_option Numeric (oc_video_level out)"
| "encoded_output_codec_property_value show_float item opts Prop_Video_Bit_Depth out =
     Some (Numeric (unwrap_or 8 (oc_video_bit_depth out)))"
| "encoded_output_codec_property_value show_float item opts Prop_Video_Frame_Rate out =
     map_option Numeric (opt_or (oc_max_frame_rate out) (source_numeric show_float item opts Prop_Video_Frame_Rate))"
| "encoded_output_codec_property_value show_float item opts Prop_Audio_Channels out =
     Some (Numeric (unwrap_or 2 (oc_audio_channels out)))"

definition encoded_output_codec_conditions_compatible ::
  "(nat \<Rightarrow> string) \<Rightarrow> media_item \<Rightarrow> playback_options \<Rightarrow> string \<Rightarrow> string \<Rightarrow> output_constraints \<Rightarrow> bool" where
  "encoded_output_codec_conditions_compatible show_float item opts stream_type codec out =
     list_all
       (\<lambda>p. cp_invalid_required p = [] \<and>
            list_all (\<lambda>c. codec_condition_matches c
                (encoded_output_codec_property_value show_float item opts (cc_property c) out)) (cp_conditions p))
       (targeting_profiles item opts stream_type (Some codec))"

definition min_video_transcode_bitrate :: nat where "min_video_transcode_bitrate = 2000000"
definition max_video_transcode_bitrate :: nat where "max_video_transcode_bitrate = 8000000"

definition clamp_nat :: "nat \<Rightarrow> nat \<Rightarrow> nat \<Rightarrow> nat" where
  "clamp_nat low high n = max low (min n high)"

text \<open>The limits of the profile and of the codec conditions, for the streams that are encoded.\<close>

definition video_limits ::
  "(nat \<Rightarrow> string) \<Rightarrow> media_item \<Rightarrow> playback_options \<Rightarrow> hls_stream_mode \<Rightarrow> output_constraints \<Rightarrow>
   output_constraints option" where
  "video_limits show_float item opts mode out =
     (if mode \<noteq> Encode then Some (out\<lparr> oc_max_width := None, oc_max_height := None, oc_video_bitrate := None \<rparr>)
      else if codec_output_has_invalid_required_condition item opts ''Video'' ''h264'' then None
      else
        Option.bind (selected_h264_output_profile item opts) (\<lambda>video_profile.
        Option.bind (selected_h264_output_level item opts) (\<lambda>level.
        Option.bind (selected_video_bit_depth item opts) (\<lambda>bit_depth.
        map_option (\<lambda>frame_rate.
          out\<lparr> oc_max_width := min_optional_u32 (oc_max_width out)
                 (codec_output_upper_bound item opts ''Video'' ''h264'' Prop_Width),
               oc_max_height := min_optional_u32 (oc_max_height out)
                 (codec_output_upper_bound item opts ''Video'' ''h264'' Prop_Height),
               oc_video_bitrate := min_optional_u32 (oc_video_bitrate out)
                 (codec_output_upper_bound item opts ''Video'' ''h264'' Prop_Video_Bitrate),
               oc_video_profile := video_profile, oc_video_level := level, oc_video_bit_depth := bit_depth,
               oc_max_frame_rate := frame_rate \<rparr>)
          (selected_video_frame_rate_limit show_float item opts)))))"

definition audio_limits ::
  "(nat \<Rightarrow> string) \<Rightarrow> media_item \<Rightarrow> playback_options \<Rightarrow> hls_stream_mode \<Rightarrow> output_constraints \<Rightarrow>
   output_constraints option" where
  "audio_limits show_float item opts mode out =
     (if mode \<noteq> Encode then Some (out\<lparr> oc_audio_bitrate := None \<rparr>)
      else if codec_output_has_invalid_required_condition item opts ''Audio'' ''aac'' then None
      else
        Option.bind (selected_aac_output_profile item opts) (\<lambda>audio_profile.
        map_option (\<lambda>channels.
          out\<lparr> oc_audio_bitrate := min_optional_u32 (oc_audio_bitrate out)
                 (codec_output_upper_bound item opts ''Audio'' ''aac'' Prop_Audio_Bitrate),
               oc_audio_profile := audio_profile, oc_audio_channels := channels \<rparr>)
          (selected_aac_output_channels show_float item opts)))"

text \<open>The client's total bitrate, shared between the audio and the encoded video.\<close>

definition suggested_audio_bitrate :: "nat \<Rightarrow> nat" where
  "suggested_audio_bitrate budget = min (clamp_nat 16000 192000 (budget div 5)) (max 1 (budget div 2))"

definition total_bitrate_limits ::
  "(nat \<Rightarrow> string) \<Rightarrow> media_item \<Rightarrow> playback_options \<Rightarrow> hls_stream_mode \<Rightarrow> hls_stream_mode \<Rightarrow>
   output_constraints \<Rightarrow> output_constraints" where
  "total_bitrate_limits show_float item opts video_mode audio_mode out =
     (case po_max_streaming_bitrate opts of
        None \<Rightarrow> out
      | Some budget \<Rightarrow>
          if eq_ignore_case (item_media_type item) ''Audio'' then
            (if audio_mode = Encode
             then out\<lparr> oc_audio_bitrate := Some (min (unwrap_or 192000 (oc_audio_bitrate out)) budget) \<rparr> else out)
          else
            (let has_audio = (selected_audio_index item opts \<noteq> None);
                 suggested = suggested_audio_bitrate budget;
                 constrained = min (unwrap_or 192000 (oc_audio_bitrate out)) suggested;
                 audio_budget =
                   (if \<not> has_audio then 0
                    else if audio_mode = Encode then constrained
                    else min (unwrap_or suggested (source_numeric show_float item opts Prop_Audio_Bitrate)) (budget - 1));
                 out = (if has_audio \<and> audio_mode = Encode then out\<lparr> oc_audio_bitrate := Some constrained \<rparr> else out);
                 video_budget = max 1 (budget - audio_budget)
             in if video_mode = Encode
                then out\<lparr> oc_video_bitrate := Some (min (unwrap_or video_budget (oc_video_bitrate out)) video_budget) \<rparr>
                else out))"

definition source_bitrate_limit :: "media_item \<Rightarrow> hls_stream_mode \<Rightarrow> output_constraints \<Rightarrow> output_constraints" where
  "source_bitrate_limit item video_mode out =
     (if video_mode \<noteq> Encode then out
      else (let ceiling = (case Option.bind (item_bitrate item) positive_u32 of
                             Some b \<Rightarrow> clamp_nat min_video_transcode_bitrate max_video_transcode_bitrate (sat_mul u32_max b 2)
                           | None \<Rightarrow> max_video_transcode_bitrate)
            in out\<lparr> oc_video_bitrate := Some (min (unwrap_or ceiling (oc_video_bitrate out)) ceiling) \<rparr>))"

definition profile_limits :: "transcoding_profile option \<Rightarrow> output_constraints" where
  "profile_limits profile =
     no_constraints\<lparr> oc_max_width := Option.bind profile tp_max_width, oc_max_height := Option.bind profile tp_max_height,
       oc_video_bitrate := Option.bind profile tp_video_bitrate, oc_audio_bitrate := Option.bind profile tp_audio_bitrate \<rparr>"

definition playback_output_constraints ::
  "(nat \<Rightarrow> string) \<Rightarrow> media_item \<Rightarrow> playback_options \<Rightarrow> transcoding_profile option \<Rightarrow> hls_stream_mode \<Rightarrow>
   hls_stream_mode \<Rightarrow> output_constraints option" where
  "playback_output_constraints show_float item opts profile video_mode audio_mode =
     Option.bind (video_limits show_float item opts video_mode (profile_limits profile)) (\<lambda>out.
     Option.bind (audio_limits show_float item opts audio_mode out) (\<lambda>out.
       let out = source_bitrate_limit item video_mode
                   (total_bitrate_limits show_float item opts video_mode audio_mode out)
       in if video_mode = Encode \<and>
             \<not> encoded_output_codec_conditions_compatible show_float item opts ''Video'' ''h264'' out then None
          else if audio_mode = Encode \<and>
             \<not> encoded_output_codec_conditions_compatible show_float item opts ''Audio'' ''aac'' out then None
          else Some out))"

section \<open>Subtitles and transcoding profiles\<close>

definition text_subtitle_stream :: "json \<Rightarrow> bool" where
  "text_subtitle_stream v \<longleftrightarrow>
     stream_of_type ''Subtitle'' v \<and> is_some_and is_text_subtitle_codec (Option.bind (jget ''Codec'' v) as_str)"

definition vtt_profile :: "string \<Rightarrow> subtitle_profile \<Rightarrow> bool" where
  "vtt_profile kind p \<longleftrightarrow> sp_method p = Some kind \<and> sp_format p \<in> {Some ''vtt'', Some ''webvtt''}"

definition text_subtitle_profile_supports_external :: "media_item \<Rightarrow> playback_options \<Rightarrow> bool" where
  "text_subtitle_profile_supports_external item opts =
     (list_ex text_subtitle_stream (media_item_streams item) \<and>
      is_some_and (list_ex (vtt_profile ''external'')) (po_subtitle_profiles opts))"

definition selected_text_subtitle_can_use_external :: "media_item \<Rightarrow> playback_options \<Rightarrow> bool" where
  "selected_text_subtitle_can_use_external item opts =
     (case opt_filter (\<lambda>i. 0 \<le> i) (po_subtitle_stream_index opts) of
        None \<Rightarrow> False
      | Some i \<Rightarrow>
          list_ex (\<lambda>v. text_subtitle_stream v \<and> stream_index v = Some i) (media_item_streams item) \<and>
          text_subtitle_profile_supports_external item opts)"

definition selected_text_subtitle_prefers_hls :: "playback_options \<Rightarrow> bool" where
  "selected_text_subtitle_prefers_hls opts = is_some_and (list_ex (vtt_profile ''hls'')) (po_subtitle_profiles opts)"

definition output_codec :: "hls_stream_mode \<Rightarrow> string \<Rightarrow> string option \<Rightarrow> string option" where
  "output_codec mode encoder source = (case mode of Encode \<Rightarrow> Some encoder | Copy \<Rightarrow> source | Drop \<Rightarrow> None)"

definition allows_codec :: "string list \<Rightarrow> string option \<Rightarrow> bool" where
  "allows_codec allowed codec = (case codec of None \<Rightarrow> True | Some c \<Rightarrow> allowed = [] \<or> listed allowed c)"

definition hls_transcoding_profile_matches ::
  "media_item \<Rightarrow> playback_options \<Rightarrow> hls_stream_mode \<Rightarrow> hls_stream_mode \<Rightarrow> transcoding_profile \<Rightarrow> bool" where
  "hls_transcoding_profile_matches item opts video_mode audio_mode p =
     (type_matches (tp_profile_type p) item \<and>
      (case tp_context p of Some c \<Rightarrow> eq_ignore_case c ''Streaming'' | None \<Rightarrow> True) \<and>
      (tp_protocols p = [] \<or> listed (tp_protocols p) ''hls'') \<and>
      (tp_containers p = [] \<or> list_ex (\<lambda>c. c = ''ts'' \<or> c = ''mpegts'') (tp_containers p)) \<and>
      allows_codec (tp_video_codecs p) (output_codec video_mode ''h264'' (media_item_stream_codec item ''Video'')) \<and>
      allows_codec (tp_audio_codecs p) (output_codec audio_mode ''aac'' (selected_audio_codec item opts)))"

definition selected_hls_transcoding_profile ::
  "media_item \<Rightarrow> playback_options \<Rightarrow> hls_stream_mode \<Rightarrow> hls_stream_mode \<Rightarrow> transcoding_profile option" where
  "selected_hls_transcoding_profile item opts video_mode audio_mode =
     Option.bind (po_transcoding_profiles opts)
       (find (hls_transcoding_profile_matches item opts video_mode audio_mode))"

definition hls_transcoding_profile_supported ::
  "media_item \<Rightarrow> playback_options \<Rightarrow> hls_stream_mode \<Rightarrow> hls_stream_mode \<Rightarrow> bool" where
  "hls_transcoding_profile_supported item opts video_mode audio_mode =
     (po_transcoding_profiles opts = None \<or>
      selected_hls_transcoding_profile item opts video_mode audio_mode \<noteq> None)"

section \<open>Reasons\<close>

definition push_transcode_reason :: "string \<Rightarrow> string list \<Rightarrow> string list" where
  "push_transcode_reason reason reasons = (if reason \<in> set reasons then reasons else reasons @ [reason])"

definition stream_properties :: "string \<Rightarrow> condition_property list" where
  "stream_properties stream_type =
     (if eq_ignore_case stream_type ''Video''
      then [Prop_Video_Profile, Prop_Video_Level, Prop_Video_Bit_Depth, Prop_Video_Frame_Rate, Prop_Width,
            Prop_Height, Prop_Video_Bitrate]
      else [Prop_Audio_Profile, Prop_Audio_Channels, Prop_Audio_Bitrate])"

fun property_reason :: "condition_property \<Rightarrow> string" where
  "property_reason Prop_Video_Profile = ''VideoProfileNotSupported''"
| "property_reason Prop_Video_Level = ''VideoLevelNotSupported''"
| "property_reason Prop_Video_Bit_Depth = ''VideoBitDepthNotSupported''"
| "property_reason Prop_Video_Frame_Rate = ''VideoFramerateNotSupported''"
| "property_reason Prop_Width = ''VideoResolutionNotSupported''"
| "property_reason Prop_Height = ''VideoResolutionNotSupported''"
| "property_reason Prop_Video_Bitrate = ''ContainerBitrateExceedsLimit''"
| "property_reason Prop_Audio_Profile = ''AudioProfileNotSupported''"
| "property_reason Prop_Audio_Channels = ''AudioChannelsNotSupported''"
| "property_reason Prop_Audio_Bitrate = ''AudioBitrateNotSupported''"

definition codec_condition_incompatibility_reasons ::
  "(nat \<Rightarrow> string) \<Rightarrow> media_item \<Rightarrow> playback_options \<Rightarrow> string \<Rightarrow> string list" where
  "codec_condition_incompatibility_reasons show_float item opts stream_type =
     (let reasons = fold
            (\<lambda>p rs. if codec_condition_property_compatible show_float item opts stream_type p then rs
                    else push_transcode_reason (property_reason p) rs)
            (stream_properties stream_type) []
      in if codec_conditions_have_unknown_required_condition item opts stream_type
         then push_transcode_reason ''NoCompatibleStream'' reasons else reasons)"

section \<open>The decision\<close>

definition hls_video_stream_copy_supported :: "media_item \<Rightarrow> bool" where
  "hls_video_stream_copy_supported item =
     (item_media_type item \<noteq> ''Video'' \<or>
      is_some_and (\<lambda>c. eq_ignore_case c ''h264'') (media_item_stream_codec item ''Video''))"

definition hls_audio_stream_copy_supported :: "media_item \<Rightarrow> playback_options \<Rightarrow> bool" where
  "hls_audio_stream_copy_supported item opts =
     (case selected_audio_index item opts of
        None \<Rightarrow> True
      | Some i \<Rightarrow> is_some_and (\<lambda>c. to_ascii_lowercase c \<in> {''aac'', ''mp3''})
                   (media_item_stream_codec_by_index item ''Audio'' i))"

definition selected_audio_stream_needs_transcode :: "media_item \<Rightarrow> playback_options \<Rightarrow> bool" where
  "selected_audio_stream_needs_transcode item opts =
     (item_media_type item = ''Video'' \<and>
      is_some_and (\<lambda>c. to_ascii_lowercase c \<in> {''ac3'', ''eac3'', ''dts'', ''truehd'', ''mlp'', ''flac''})
        (selected_audio_codec item opts))"

definition plugin_vod_has_nondefault_stream_selection :: "media_item \<Rightarrow> playback_options \<Rightarrow> bool" where
  "plugin_vod_has_nondefault_stream_selection item opts =
     (is_some_and (\<lambda>s. is_some_and (\<lambda>d. s \<noteq> d) (default_audio_stream_index (media_item_streams item)))
        (po_audio_stream_index opts) \<or>
      is_some_and (\<lambda>s. 0 \<le> s) (po_subtitle_stream_index opts))"

definition unsupported :: "string list \<Rightarrow> transcode_decision" where
  "unsupported reasons =
     \<lparr> td_delivery = Unsupported, td_video = Drop, td_audio = Drop, td_reasons = reasons, td_output = no_constraints \<rparr>"

definition stream_selection_requires_hls :: "playback_source \<Rightarrow> playback_options \<Rightarrow> ffmpeg_mode \<Rightarrow> bool" where
  "stream_selection_requires_hls src opts mode =
     (po_plugin_vod_selection_hls opts \<and> mode \<noteq> Disabled \<and> src_plugin_vod src \<and>
      plugin_vod_has_nondefault_stream_selection (src_item src) opts)"

definition bitrate_exceeded :: "media_item \<Rightarrow> playback_options \<Rightarrow> bool" where
  "bitrate_exceeded item opts =
     is_some_and (\<lambda>limit. is_some_and (\<lambda>b. b > limit) (Option.bind (item_bitrate item) positive_u32))
       (po_max_streaming_bitrate opts)"

definition subtitle_requires_processing :: "media_item \<Rightarrow> playback_options \<Rightarrow> bool" where
  "subtitle_requires_processing item opts =
     (is_some_and (\<lambda>i. 0 \<le> i) (po_subtitle_stream_index opts) \<and>
      \<not> selected_text_subtitle_can_use_external item opts)"

definition profile_compatible :: "playback_source \<Rightarrow> playback_options \<Rightarrow> bool" where
  "profile_compatible src opts =
     (if src_plugin_vod src then plugin_vod_direct_stream_profile_compatible (src_item src) opts
      else playback_profile_compatible (src_item src) opts)"

definition video_conditions_ok :: "(nat \<Rightarrow> string) \<Rightarrow> media_item \<Rightarrow> playback_options \<Rightarrow> bool" where
  "video_conditions_ok show_float item opts =
     (item_media_type item \<noteq> ''Video'' \<or> playback_codec_conditions_compatible show_float item opts ''Video'')"

definition transcode_reasons :: "(nat \<Rightarrow> string) \<Rightarrow> playback_source \<Rightarrow> playback_options \<Rightarrow> string list" where
  "transcode_reasons show_float src opts =
     (let item = src_item src; note = (\<lambda>b r rs. if b then push_transcode_reason r rs else rs);
          rs = note (\<not> profile_compatible src opts) ''ContainerOrCodecNotSupported'' [];
          rs = note (selected_audio_stream_needs_transcode item opts) ''AudioCodecNotSupported'' rs;
          rs = note (subtitle_requires_processing item opts) ''SubtitleCodecNotSupported'' rs;
          rs = (if video_conditions_ok show_float item opts then rs
                else fold push_transcode_reason
                       (codec_condition_incompatibility_reasons show_float item opts ''Video'') rs);
          rs = (if playback_codec_conditions_compatible show_float item opts ''Audio'' then rs
                else fold push_transcode_reason
                       (codec_condition_incompatibility_reasons show_float item opts ''Audio'') rs);
          rs = note (bitrate_exceeded item opts) ''ContainerBitrateExceedsLimit'' rs
      in note (\<not> (po_enable_direct_play opts \<or> po_enable_direct_stream opts)) ''DirectPlayDisabled'' rs)"

definition transcode_video_mode ::
  "(nat \<Rightarrow> string) \<Rightarrow> playback_source \<Rightarrow> playback_options \<Rightarrow> ffmpeg_mode \<Rightarrow> hls_stream_mode" where
  "transcode_video_mode show_float src opts mode =
     (let item = src_item src
      in if item_media_type item \<noteq> ''Video'' then Drop
         else if (stream_selection_requires_hls src opts mode \<or> hls_video_stream_copy_supported item) \<and>
                 playback_profile_video_codec_compatible item opts \<and> video_conditions_ok show_float item opts \<and>
                 \<not> bitrate_exceeded item opts \<and>
                 \<not> selected_subtitle_stream_is_image (media_item_streams item) (po_subtitle_stream_index opts)
         then Copy else Encode)"

definition transcode_audio_mode ::
  "(nat \<Rightarrow> string) \<Rightarrow> playback_source \<Rightarrow> playback_options \<Rightarrow> hls_stream_mode" where
  "transcode_audio_mode show_float src opts =
     (let item = src_item src
      in if hls_audio_stream_copy_supported item opts \<and> \<not> selected_audio_stream_needs_transcode item opts \<and>
            playback_codec_conditions_compatible show_float item opts ''Audio'' \<and> \<not> bitrate_exceeded item opts
         then Copy else Encode)"

definition transcode_plan ::
  "(nat \<Rightarrow> string) \<Rightarrow> playback_source \<Rightarrow> playback_options \<Rightarrow> ffmpeg_mode \<Rightarrow> transcode_decision" where
  "transcode_plan show_float src opts mode =
     (let item = src_item src; reasons = transcode_reasons show_float src opts;
          video = transcode_video_mode show_float src opts mode;
          audio = transcode_audio_mode show_float src opts
      in if \<not> hls_transcoding_profile_supported item opts video audio then unsupported [''NoCompatibleStream'']
         else case playback_output_constraints show_float item opts
                     (selected_hls_transcoding_profile item opts video audio) video audio of
                None \<Rightarrow> unsupported (push_transcode_reason ''NoCompatibleStream'' reasons)
              | Some out \<Rightarrow> \<lparr> td_delivery = HlsTranscode, td_video = video, td_audio = audio,
                               td_reasons = reasons, td_output = out \<rparr>)"

definition item_remote :: "playback_source \<Rightarrow> bool" where
  "item_remote src \<longleftrightarrow> src_xtream_remote src \<or> src_plugin_vod src"

definition copy_mode :: "media_item \<Rightarrow> hls_stream_mode" where
  "copy_mode item = (if item_media_type item = ''Video'' then Copy else Drop)"

definition direct_allowed ::
  "(nat \<Rightarrow> string) \<Rightarrow> playback_source \<Rightarrow> playback_options \<Rightarrow> ffmpeg_mode \<Rightarrow> bool" where
  "direct_allowed show_float src opts mode \<longleftrightarrow>
     (let item = src_item src;
          direct_requested = (po_enable_direct_play opts \<or> po_enable_direct_stream opts);
          direct_compatible =
            ((profile_compatible src opts \<or> (\<not> item_remote src \<and> po_enable_direct_stream opts)) \<and>
             video_conditions_ok show_float item opts \<and>
             playback_codec_conditions_compatible show_float item opts ''Audio'' \<and>
             \<not> bitrate_exceeded item opts)
      in direct_requested \<and> direct_compatible \<and> \<not> selected_audio_stream_needs_transcode item opts \<and>
         \<not> subtitle_requires_processing item opts \<and> \<not> stream_selection_requires_hls src opts mode)"

definition remux_allowed ::
  "(nat \<Rightarrow> string) \<Rightarrow> media_item \<Rightarrow> playback_options \<Rightarrow> ffmpeg_mode \<Rightarrow> bool" where
  "remux_allowed show_float item opts mode \<longleftrightarrow>
     (let hls_subtitle = selected_text_subtitle_prefers_hls opts
      in mode \<noteq> Disabled \<and> po_enable_direct_stream opts \<and> playback_profile_codecs_compatible item opts \<and>
         video_conditions_ok show_float item opts \<and>
         playback_codec_conditions_compatible show_float item opts ''Audio'' \<and>
         \<not> bitrate_exceeded item opts \<and> \<not> selected_audio_stream_needs_transcode item opts \<and>
         (\<not> subtitle_requires_processing item opts \<or> hls_subtitle) \<and>
         (hls_video_stream_copy_supported item \<or> hls_subtitle) \<and> hls_audio_stream_copy_supported item opts \<and>
         hls_transcoding_profile_supported item opts (copy_mode item) Copy)"

definition playback_delivery_decision ::
  "(nat \<Rightarrow> string) \<Rightarrow> playback_source \<Rightarrow> playback_options \<Rightarrow> ffmpeg_mode \<Rightarrow> transcode_decision" where
  "playback_delivery_decision show_float src opts mode =
     (let item = src_item src
      in if direct_allowed show_float src opts mode
         then \<lparr> td_delivery = (if item_remote src then DirectProxy else DirectLocal), td_video = copy_mode item,
                td_audio = Copy, td_reasons = [], td_output = no_constraints \<rparr>
         else if remux_allowed show_float item opts mode
         then \<lparr> td_delivery = HlsRemux, td_video = copy_mode item, td_audio = Copy,
                td_reasons = [''ContainerNotSupported''], td_output = no_constraints \<rparr>
         else if mode = Enabled \<and> po_enable_transcoding opts \<and> item_media_type item \<in> {''Audio'', ''Video''}
         then transcode_plan show_float src opts mode
         else unsupported [''NoCompatibleStream''])"

section \<open>What the decision guarantees\<close>

lemma clamp_nat_le: "low \<le> high \<Longrightarrow> clamp_nat low high n \<le> high"
  by (simp add: clamp_nat_def)

lemma source_bitrate_limit_video:
  "\<exists>v. oc_video_bitrate (source_bitrate_limit item Encode out) = Some v \<and> v \<le> max_video_transcode_bitrate \<and>
       (case oc_video_bitrate out of Some w \<Rightarrow> v \<le> w | None \<Rightarrow> True)"
proof -
  let ?ceiling = "case Option.bind (item_bitrate item) positive_u32 of
      Some b \<Rightarrow> clamp_nat min_video_transcode_bitrate max_video_transcode_bitrate (sat_mul u32_max b 2)
    | None \<Rightarrow> max_video_transcode_bitrate"
  have "?ceiling \<le> max_video_transcode_bitrate"
    by (simp add: min_video_transcode_bitrate_def max_video_transcode_bitrate_def clamp_nat_le split: option.split)
  then show ?thesis
    by (cases "oc_video_bitrate out") (auto simp: source_bitrate_limit_def Let_def min_le_iff_disj)
qed

lemma source_bitrate_limit_audio [simp]:
  "oc_audio_bitrate (source_bitrate_limit item mode out) = oc_audio_bitrate out"
  by (simp add: source_bitrate_limit_def Let_def)

text \<open>
  What the budget of the client sets aside for the audio: the encoded bitrate; for a copied track its known
  bitrate below the limit, or the suggested one when it is unknown.
\<close>

definition audio_share ::
  "(nat \<Rightarrow> string) \<Rightarrow> media_item \<Rightarrow> playback_options \<Rightarrow> nat \<Rightarrow> hls_stream_mode \<Rightarrow> output_constraints \<Rightarrow> nat" where
  "audio_share show_float item opts budget audio_mode out =
     (if selected_audio_index item opts = None then 0
      else if audio_mode = Encode then unwrap_or 0 (oc_audio_bitrate out)
      else min (unwrap_or (suggested_audio_bitrate budget) (source_numeric show_float item opts Prop_Audio_Bitrate)) (budget - 1))"

lemma suggested_le:
  assumes "2 \<le> budget"
  shows "suggested_audio_bitrate budget \<le> budget - 1"
proof -
  have "max 1 (budget div 2) \<le> budget - 1" using assms by auto
  then show ?thesis unfolding suggested_audio_bitrate_def by (rule min.coboundedI2)
qed

lemma budget_shared: "s \<le> budget - 1 \<Longrightarrow> 2 \<le> budget \<Longrightarrow> min x (max 1 (budget - s)) + s \<le> (budget :: nat)"
  by linarith

lemma total_bitrate_limits_split:
  assumes "po_max_streaming_bitrate opts = Some budget" "2 \<le> budget"
    "\<not> eq_ignore_case (item_media_type item) ''Audio''"
  shows "\<exists>v. oc_video_bitrate (total_bitrate_limits show_float item opts Encode mode out) = Some v \<and>
    v + audio_share show_float item opts budget mode (total_bitrate_limits show_float item opts Encode mode out)
      \<le> budget"
proof -
  let ?total = "total_bitrate_limits show_float item opts Encode mode out" and ?w = "oc_video_bitrate out"
  let ?share = "\<lambda>s. oc_video_bitrate ?total = Some (min (unwrap_or (max 1 (budget - s)) ?w) (max 1 (budget - s))) \<and>
    audio_share show_float item opts budget mode ?total \<le> s \<and> s \<le> budget - 1"
  have "\<exists>s. ?share s"
  proof (cases "selected_audio_index item opts")
    case None
    then have "?share 0" using assms unfolding total_bitrate_limits_def Let_def audio_share_def by simp
    then show ?thesis ..
  next
    case (Some i)
    show ?thesis
    proof (cases "mode = Encode")
      case True
      let ?a = "min (unwrap_or 192000 (oc_audio_bitrate out)) (suggested_audio_bitrate budget)"
      have "?a \<le> budget - 1" using suggested_le [OF assms(2)] by (rule min.coboundedI2)
      then have "?share ?a" using assms Some True
        unfolding total_bitrate_limits_def Let_def audio_share_def by (simp add: unwrap_or_def)
      then show ?thesis ..
    next
      case False
      let ?s = "source_numeric show_float item opts Prop_Audio_Bitrate"
      let ?a = "min (unwrap_or (suggested_audio_bitrate budget) ?s) (budget - 1)"
      have "?share ?a" using assms Some False
        unfolding total_bitrate_limits_def Let_def audio_share_def by simp
      then show ?thesis ..
    qed
  qed
  then obtain s where "?share s" ..
  then show ?thesis
    using order_trans [OF add_left_mono [of _ s] budget_shared [of s budget]] assms(2) by blast
qed

lemma total_bitrate_limits_audio:
  "po_max_streaming_bitrate opts = Some budget \<Longrightarrow> \<not> eq_ignore_case (item_media_type item) ''Audio'' \<Longrightarrow>
   selected_audio_index item opts \<noteq> None \<Longrightarrow> \<exists>a. oc_audio_bitrate (total_bitrate_limits show_float item opts video Encode out) = Some a"
  by (auto simp: total_bitrate_limits_def Let_def)

lemma playback_output_constraints_SomeD:
  assumes "playback_output_constraints show_float item opts profile video audio = Some out"
  obtains out0 where
    "out = source_bitrate_limit item video (total_bitrate_limits show_float item opts video audio out0)"
    "video = Encode \<longrightarrow> encoded_output_codec_conditions_compatible show_float item opts ''Video'' ''h264'' out"
    "audio = Encode \<longrightarrow> encoded_output_codec_conditions_compatible show_float item opts ''Audio'' ''aac'' out"
  using assms by (auto simp: playback_output_constraints_def Let_def bind_eq_Some_conv split: if_splits)

lemma unsupported_simps [simp]:
  "td_delivery (unsupported rs) = Unsupported" "td_video (unsupported rs) = Drop" "td_audio (unsupported rs) = Drop"
  by (simp_all add: unsupported_def)

lemma delivery_cases [case_names direct remux transcode refused]:
  obtains
    "direct_allowed show_float src opts mode"
    "playback_delivery_decision show_float src opts mode =
       \<lparr> td_delivery = (if item_remote src then DirectProxy else DirectLocal), td_video = copy_mode (src_item src),
         td_audio = Copy, td_reasons = [], td_output = no_constraints \<rparr>"
  | "remux_allowed show_float (src_item src) opts mode"
    "playback_delivery_decision show_float src opts mode =
       \<lparr> td_delivery = HlsRemux, td_video = copy_mode (src_item src), td_audio = Copy,
         td_reasons = [''ContainerNotSupported''], td_output = no_constraints \<rparr>"
  | "mode = Enabled" "po_enable_transcoding opts"
    "item_media_type (src_item src) = ''Audio'' \<or> item_media_type (src_item src) = ''Video''"
    "playback_delivery_decision show_float src opts mode = transcode_plan show_float src opts mode"
  | "playback_delivery_decision show_float src opts mode = unsupported [''NoCompatibleStream'']"
  unfolding playback_delivery_decision_def Let_def
  by (cases "direct_allowed show_float src opts mode"; cases "remux_allowed show_float (src_item src) opts mode";
      cases "mode = Enabled \<and> po_enable_transcoding opts \<and> item_media_type (src_item src) \<in> {''Audio'', ''Video''}")
    (simp_all only: simp_thms if_True if_False insert_iff empty_iff)

lemma copies_conditions:
  "direct_allowed f src opts mode \<or> remux_allowed f (src_item src) opts mode \<Longrightarrow>
   video_conditions_ok f (src_item src) opts \<and> playback_codec_conditions_compatible f (src_item src) opts ''Audio'' \<and>
   \<not> bitrate_exceeded (src_item src) opts"
  unfolding direct_allowed_def remux_allowed_def Let_def by blast

lemma remux_allowed_mode: "remux_allowed f item opts mode \<Longrightarrow> mode \<noteq> Disabled \<and> po_enable_direct_stream opts"
  unfolding remux_allowed_def Let_def by blast

lemma playback_delivery_decision_HlsTranscodeD:
  assumes "td_delivery (playback_delivery_decision show_float src opts mode) = HlsTranscode"
  obtains profile where "mode = Enabled" "po_enable_transcoding opts"
    "item_media_type (src_item src) = ''Audio'' \<or> item_media_type (src_item src) = ''Video''"
    "playback_delivery_decision show_float src opts mode = transcode_plan show_float src opts mode"
    "playback_output_constraints show_float (src_item src) opts profile
       (td_video (playback_delivery_decision show_float src opts mode))
       (td_audio (playback_delivery_decision show_float src opts mode)) =
     Some (td_output (playback_delivery_decision show_float src opts mode))"
proof -
  have eq: "mode = Enabled" "po_enable_transcoding opts"
    "item_media_type (src_item src) = ''Audio'' \<or> item_media_type (src_item src) = ''Video''"
    "playback_delivery_decision show_float src opts mode = transcode_plan show_float src opts mode"
    by (cases rule: delivery_cases [of show_float src opts mode]; use assms in \<open>simp split: if_splits\<close>)+
  have "\<exists>profile. playback_output_constraints show_float (src_item src) opts profile (td_video d) (td_audio d) =
      Some (td_output d)" if "d = transcode_plan show_float src opts mode" "td_delivery d = HlsTranscode" for d
    using that by (auto simp: transcode_plan_def Let_def split: if_split_asm option.split_asm)
  with eq assms that show ?thesis by metis
qed

definition delivery_permitted :: "playback_source \<Rightarrow> playback_options \<Rightarrow> ffmpeg_mode \<Rightarrow> transcode_decision \<Rightarrow> bool" where
  "delivery_permitted src opts mode d =
     (case td_delivery d of
        HlsTranscode \<Rightarrow> mode = Enabled \<and> po_enable_transcoding opts \<and>
          item_media_type (src_item src) \<in> {''Audio'', ''Video''}
      | HlsRemux \<Rightarrow> mode \<noteq> Disabled \<and> po_enable_direct_stream opts
      | DirectProxy \<Rightarrow> item_remote src
      | DirectLocal \<Rightarrow> \<not> item_remote src
      | Unsupported \<Rightarrow> True)"

text \<open>
  The server starts only the ffmpeg work its mode and the client allow: a transcode only in the
  enabled mode, for audio or video, when the client enables transcoding; a remux never in the disabled
  mode and only when the client enables direct streaming; a direct delivery otherwise, proxied exactly
  for remote items.
\<close>

theorem delivery_respects_mode:
  "delivery_permitted src opts mode (playback_delivery_decision show_float src opts mode)"
proof -
  have plan: "delivery_permitted src opts mode (transcode_plan show_float src opts mode)"
    if "mode = Enabled" "po_enable_transcoding opts"
      "item_media_type (src_item src) = ''Audio'' \<or> item_media_type (src_item src) = ''Video''"
    using that by (simp add: delivery_permitted_def transcode_plan_def Let_def split: option.split)
  show ?thesis
  proof (cases rule: delivery_cases [of show_float src opts mode])
    case direct
    then show ?thesis by (simp add: delivery_permitted_def)
  next
    case remux
    then show ?thesis using remux_allowed_mode by (simp add: delivery_permitted_def)
  next
    case transcode
    then show ?thesis using plan by (simp only: simp_thms)
  next
    case refused
    then show ?thesis by (simp add: delivery_permitted_def)
  qed
qed

text \<open>
  What a condition of the client means, told apart from the code: the value is the one asked for, is not it,
  is one of those listed, is none of them, or is a number on the right side of the bound.
\<close>

inductive condition_met :: "codec_condition \<Rightarrow> condition_value \<Rightarrow> bool" where
  equal: "cc_comparison c = Cmp_Equal \<Longrightarrow> cc_values c = a # vs \<Longrightarrow> condition_met c a"
| not_equal: "cc_comparison c = Cmp_Not_Equal \<Longrightarrow> take 1 (cc_values c) \<noteq> [a] \<Longrightarrow> condition_met c a"
| any: "cc_comparison c = Cmp_Equal_Any \<Longrightarrow> a \<in> set (cc_values c) \<Longrightarrow> condition_met c a"
| none_of: "cc_comparison c = Cmp_Not_Equal_Any \<Longrightarrow> a \<notin> set (cc_values c) \<Longrightarrow> condition_met c a"
| less: "cc_comparison c = Cmp_Less \<Longrightarrow> cc_values c = Numeric bound # vs \<Longrightarrow> n < bound \<Longrightarrow> condition_met c (Numeric n)"
| at_most: "cc_comparison c = Cmp_Less_Equal \<Longrightarrow> cc_values c = Numeric bound # vs \<Longrightarrow> n \<le> bound \<Longrightarrow> condition_met c (Numeric n)"
| greater: "cc_comparison c = Cmp_Greater \<Longrightarrow> cc_values c = Numeric bound # vs \<Longrightarrow> bound < n \<Longrightarrow> condition_met c (Numeric n)"
| at_least: "cc_comparison c = Cmp_Greater_Equal \<Longrightarrow> cc_values c = Numeric bound # vs \<Longrightarrow> bound \<le> n \<Longrightarrow> condition_met c (Numeric n)"

text \<open>The code decides it, and lets a condition on an unknown value pass unless it is required.\<close>

lemma codec_condition_matches_met:
  "codec_condition_matches c actual \<Longrightarrow> (case actual of None \<Rightarrow> \<not> cc_is_required c | Some a \<Rightarrow> condition_met c a)"
  by (cases actual; cases "cc_values c"; cases "cc_comparison c")
    (auto simp: codec_condition_matches_def first_value_def condition_met.simps split: condition_value.splits)

text \<open>What a copied stream of a type promises: the conditions of every profile that speaks of it, and the known bitrate.\<close>

definition stream_copy_allowed :: "(nat \<Rightarrow> string) \<Rightarrow> media_item \<Rightarrow> playback_options \<Rightarrow> string \<Rightarrow> bool" where
  "stream_copy_allowed show_float item opts t \<longleftrightarrow> playback_codec_conditions_compatible show_float item opts t \<and> \<not> bitrate_exceeded item opts"

lemma decision_copies:
  assumes "d = playback_delivery_decision show_float src opts mode"
  shows "td_video d = Copy \<Longrightarrow> stream_copy_allowed show_float (src_item src) opts ''Video''"
    and "td_audio d = Copy \<Longrightarrow> stream_copy_allowed show_float (src_item src) opts ''Audio''"
proof -
  let ?ok = "\<lambda>d. (td_video d = Copy \<longrightarrow> stream_copy_allowed show_float (src_item src) opts ''Video'') \<and>
      (td_audio d = Copy \<longrightarrow> stream_copy_allowed show_float (src_item src) opts ''Audio'')"
  have plan: "?ok (transcode_plan show_float src opts mode)"
    by (auto simp: stream_copy_allowed_def transcode_plan_def transcode_video_mode_def transcode_audio_mode_def
        Let_def video_conditions_ok_def split: option.splits)
  have "?ok d"
  proof (cases rule: delivery_cases [of show_float src opts mode])
    case transcode
    then show ?thesis using plan by (simp only: assms simp_thms)
  qed (use copies_conditions [of show_float src opts mode] in
      \<open>simp_all add: assms stream_copy_allowed_def copy_mode_def video_conditions_ok_def\<close>)
  then show "td_video d = Copy \<Longrightarrow> stream_copy_allowed show_float (src_item src) opts ''Video''"
    and "td_audio d = Copy \<Longrightarrow> stream_copy_allowed show_float (src_item src) opts ''Audio''" by blast+
qed

lemma stream_copy_conditions:
  assumes "stream_copy_allowed show_float item opts t" "p \<in> set (po_codec_profiles opts)"
    "codec_profile_targets_stream p item t (conditions_codec item opts t)"
  shows "cp_invalid_required p = []"
    and "c \<in> set (cp_conditions p) \<Longrightarrow>
      (case codec_condition_property_value show_float item opts (cc_property c) of
         None \<Rightarrow> \<not> cc_is_required c | Some a \<Rightarrow> condition_met c a)"
  using assms by (auto simp: stream_copy_allowed_def playback_codec_conditions_compatible_def targeting_profiles_def
      list_all_iff intro!: codec_condition_matches_met)

lemma stream_copy_bitrate:
  "stream_copy_allowed show_float item opts t \<Longrightarrow> item_bitrate item = Some b \<Longrightarrow> 0 < b \<Longrightarrow> b < 2 ^ 32 \<Longrightarrow>
   po_max_streaming_bitrate opts = Some limit \<Longrightarrow> b \<le> int limit"
  by (auto simp: stream_copy_allowed_def bitrate_exceeded_def positive_u32_def is_some_and_def)

text \<open>
  C9. Whatever the mode and the way of delivery, a stream that is sent without encoding it meets the codec profiles
  of the client: a profile that speaks of it has no required condition that the server could not read,
  and each of its conditions holds of the item's value, or is not required and the item does not tell the value.
  And a bitrate the item tells, as a positive 32-bit number, is at most the client's limit.
\<close>

theorem copied_streams_allowed:
  assumes "d = playback_delivery_decision show_float src opts mode" "item = src_item src"
    "td_video d = Copy \<and> t = ''Video'' \<or> td_audio d = Copy \<and> t = ''Audio''"
  shows "(\<forall>p \<in> set (po_codec_profiles opts). codec_profile_targets_stream p item t (conditions_codec item opts t) \<longrightarrow>
       cp_invalid_required p = [] \<and>
       (\<forall>c \<in> set (cp_conditions p). case codec_condition_property_value show_float item opts (cc_property c) of
          None \<Rightarrow> \<not> cc_is_required c | Some a \<Rightarrow> condition_met c a)) \<and>
    (\<forall>b limit. item_bitrate item = Some b \<and> 0 < b \<and> b < 2 ^ 32 \<and> po_max_streaming_bitrate opts = Some limit \<longrightarrow> b \<le> int limit)"
proof -
  have "stream_copy_allowed show_float item opts t" using assms(3) decision_copies [OF assms(1)] assms(2) by blast
  then show ?thesis using stream_copy_conditions stream_copy_bitrate by blast
qed

text \<open>
  C17. When a video is encoded for a client with a limit of at least two bits per second, the encoder's video bitrate is at
  most 8 Mbit/s and at most the limit. With an encoded audio track the two bitrates together fit in the limit;
  with a copied track the video leaves room for its known bitrate, if that is below the limit (one bit
  per second is left to the video when it is not), and for the suggested audio bitrate when it is unknown.
\<close>

theorem transcode_bitrate_budget:
  assumes "d = playback_delivery_decision show_float src opts mode" "item = src_item src"
    "td_delivery d = HlsTranscode" "td_video d = Encode" "po_max_streaming_bitrate opts = Some budget" "2 \<le> budget"
  shows "\<exists>v. oc_video_bitrate (td_output d) = Some v \<and> v \<le> 8000000 \<and> v \<le> budget \<and>
    (selected_audio_index item opts \<noteq> None \<longrightarrow>
       (if td_audio d = Encode then \<exists>a. oc_audio_bitrate (td_output d) = Some a \<and> v + a \<le> budget
        else case source_numeric show_float item opts Prop_Audio_Bitrate of
               Some a \<Rightarrow> v + min a (budget - 1) \<le> budget
             | None \<Rightarrow> v + suggested_audio_bitrate budget \<le> budget))"
proof -
  obtain profile where d: "d = transcode_plan show_float src opts mode"
    and out: "playback_output_constraints show_float item opts profile (td_video d) (td_audio d) = Some (td_output d)"
    using assms(3) unfolding assms(1,2) by (rule playback_delivery_decision_HlsTranscodeD)
  have video: "item_media_type item = ''Video''"
    using assms(2,4) by (auto simp: d transcode_plan_def transcode_video_mode_def Let_def split: option.splits if_splits)
  have not_audio: "\<not> eq_ignore_case (item_media_type item) ''Audio''" unfolding video by code_simp
  obtain out0 where out0: "td_output d =
      source_bitrate_limit item Encode (total_bitrate_limits show_float item opts Encode (td_audio d) out0)"
    using playback_output_constraints_SomeD [OF out] assms(4) by metis
  let ?total = "total_bitrate_limits show_float item opts Encode (td_audio d) out0"
  obtain w where w: "oc_video_bitrate ?total = Some w" "w + audio_share show_float item opts budget (td_audio d) ?total \<le> budget"
    using total_bitrate_limits_split [OF assms(5,6), of item] not_audio by blast
  obtain v where v: "oc_video_bitrate (td_output d) = Some v" "v \<le> max_video_transcode_bitrate" "v \<le> w"
    using source_bitrate_limit_video [of item ?total] w(1) by (auto simp: out0)
  have "audio_share show_float item opts budget (td_audio d) (td_output d) = audio_share show_float item opts budget (td_audio d) ?total"
    by (simp add: out0 audio_share_def)
  with w(2) v(3) have "v + audio_share show_float item opts budget (td_audio d) (td_output d) \<le> budget" by linarith
  moreover have "td_audio d = Encode \<Longrightarrow> selected_audio_index item opts \<noteq> None \<Longrightarrow> \<exists>a. oc_audio_bitrate (td_output d) = Some a"
    using total_bitrate_limits_audio [OF assms(5) not_audio] by (simp add: out0)
  moreover have "min (suggested_audio_bitrate budget) (budget - 1) = suggested_audio_bitrate budget"
    using suggested_le [OF assms(6)] by (rule min_absorb1)
  moreover have "v + audio_share show_float item opts budget (td_audio d) (td_output d) \<le> budget \<Longrightarrow> v \<le> budget" by (rule add_leD1)
  ultimately show ?thesis using v(1,2)
    by (cases "source_numeric show_float item opts Prop_Audio_Bitrate")
      (auto simp: audio_share_def max_video_transcode_bitrate_def unwrap_or_def)
qed

text \<open>
  What the encoder is told to produce meets every codec condition the client sent for H.264 and AAC:
  a transcode whose output would still break one of them is refused instead.
\<close>

theorem encoded_output_meets_conditions:
  assumes "td_delivery (playback_delivery_decision show_float src opts mode) = HlsTranscode"
  shows "let d = playback_delivery_decision show_float src opts mode; item = src_item src
    in (td_video d = Encode \<longrightarrow>
          encoded_output_codec_conditions_compatible show_float item opts ''Video'' ''h264'' (td_output d)) \<and>
       (td_audio d = Encode \<longrightarrow>
          encoded_output_codec_conditions_compatible show_float item opts ''Audio'' ''aac'' (td_output d))"
  using assms unfolding Let_def
  by (rule playback_delivery_decision_HlsTranscodeD) (metis playback_output_constraints_SomeD)

text \<open>Why a stream is refused: the reasons speak for the conditions, when these are of the stream's own kind.\<close>

definition conditions_of_stream :: "media_item \<Rightarrow> playback_options \<Rightarrow> string \<Rightarrow> bool" where
  "conditions_of_stream item opts stream_type =
     list_all
       (\<lambda>p. list_all (\<lambda>c. cc_property c \<in> set (stream_properties stream_type)) (cp_conditions p) \<and>
            list_all (\<lambda>q. case q of Some q \<Rightarrow> q \<in> set (stream_properties stream_type) | None \<Rightarrow> True)
              (cp_invalid_required p))
       (targeting_profiles item opts stream_type (conditions_codec item opts stream_type))"

lemma push_transcode_reason_nonempty [simp]: "push_transcode_reason r rs \<noteq> []"
  by (auto simp: push_transcode_reason_def)

lemma reasons_fold_Nil:
  "fold (\<lambda>p rs. if ok p then rs else push_transcode_reason (f p) rs) ps rs = [] \<longleftrightarrow> rs = [] \<and> list_all ok ps"
  by (induction ps arbitrary: rs) auto

text \<open>
  A transcode forced by codec conditions is explained: when the conditions that target a stream are
  about that stream's own properties, they are met exactly when no incompatibility reason is reported.
\<close>

theorem reasons_explain_conditions:
  assumes "conditions_of_stream item opts stream_type"
  shows "playback_codec_conditions_compatible show_float item opts stream_type \<longleftrightarrow>
    codec_condition_incompatibility_reasons show_float item opts stream_type = []"
proof -
  let ?ps = "targeting_profiles item opts stream_type (conditions_codec item opts stream_type)"
  let ?kinds = "set (stream_properties stream_type)"
  let ?holds = "\<lambda>c. codec_condition_matches c (codec_condition_property_value show_float item opts (cc_property c))"
  have unknown: "codec_conditions_have_unknown_required_condition item opts stream_type \<longleftrightarrow>
      (\<exists>p \<in> set ?ps. None \<in> set (cp_invalid_required p))"
    by (auto simp: codec_conditions_have_unknown_required_condition_def targeting_profiles_def list_ex_iff)
  have property: "codec_condition_property_compatible show_float item opts stream_type q \<longleftrightarrow>
      (\<forall>p \<in> set ?ps. Some q \<notin> set (cp_invalid_required p) \<and>
         (\<forall>c \<in> set (cp_conditions p). cc_property c = q \<longrightarrow> ?holds c))" for q
    by (auto simp: codec_condition_property_compatible_def Let_def list_ex_iff list_all_iff)
  have invalid: "cp_invalid_required p = [] \<longleftrightarrow>
      None \<notin> set (cp_invalid_required p) \<and> (\<forall>q \<in> ?kinds. Some q \<notin> set (cp_invalid_required p))"
    if "p \<in> set ?ps" for p
  proof -
    have "\<exists>q \<in> ?kinds. x = Some q" if "x \<in> set (cp_invalid_required p)" "x \<noteq> None" for x
      using assms \<open>p \<in> set ?ps\<close> that by (force simp: conditions_of_stream_def list_all_iff)
    then show ?thesis by (metis list.set_intros(1) neq_Nil_conv not_Cons_self2 empty_iff list.set(1))
  qed
  have "playback_codec_conditions_compatible show_float item opts stream_type \<longleftrightarrow>
      (\<forall>p \<in> set ?ps. cp_invalid_required p = [] \<and> (\<forall>c \<in> set (cp_conditions p). ?holds c))"
    by (simp add: playback_codec_conditions_compatible_def list_all_iff)
  also have "\<dots> \<longleftrightarrow> (\<forall>p \<in> set ?ps. None \<notin> set (cp_invalid_required p)) \<and>
      (\<forall>q \<in> ?kinds. codec_condition_property_compatible show_float item opts stream_type q)"
    using assms invalid unfolding property conditions_of_stream_def list_all_iff by blast
  also have "\<dots> \<longleftrightarrow> codec_condition_incompatibility_reasons show_float item opts stream_type = []"
    by (auto simp: codec_condition_incompatibility_reasons_def Let_def reasons_fold_Nil unknown list_all_iff)
  finally show ?thesis .
qed

section \<open>A film\<close>

text \<open>A film whose streams are not known yet, above the client's bitrate.\<close>

definition film :: playback_source where
  "film = \<lparr> src_item = (sample_item 1 ''a'' ''/m/a.mkv'')
              \<lparr> item_media_type := ''Video'', item_bitrate := Some 5000000, item_media_streams := [JNull] \<rparr>,
            src_xtream_remote = False, src_plugin_vod = False \<rparr>"

definition film_options :: playback_options where
  "film_options = default_playback_options
     \<lparr> po_max_streaming_bitrate := Some 3000000, po_audio_stream_index := Some 1 \<rparr>"

lemma film_facts:
  "item_media_type (src_item film) = ''Video''" "item_bitrate (src_item film) = Some 5000000"
  "media_item_streams (src_item film) = [JNull]" "media_item_stream_codec (src_item film) t = None"
  "media_item_stream_codec_by_index (src_item film) t i = None" "\<not> src_plugin_vod film" "\<not> src_xtream_remote film"
  by (simp_all add: film_def sample_item_def media_item_streams_def normalize_media_stream_def
      enrich_media_streams_with_context_def stream_of_type_def jget_def media_item_stream_codec_def
      media_item_stream_codec_by_index_def)

lemma film_option_facts:
  "po_enable_transcoding film_options" "po_max_streaming_bitrate film_options = Some 3000000"
  "po_audio_stream_index film_options = Some 1" "po_subtitle_stream_index film_options = None"
  "po_transcoding_profiles film_options = None" "po_codec_profiles film_options = []"
  "po_direct_play_profiles film_options = None"
  by (simp_all add: film_options_def default_playback_options_def)

lemma film_modes:
  "bitrate_exceeded (src_item film) film_options"
  "transcode_video_mode f film film_options Enabled = Encode" "transcode_audio_mode f film film_options = Encode"
  "selected_audio_index (src_item film) film_options = Some 1"
  by (simp_all add: bitrate_exceeded_def transcode_video_mode_def transcode_audio_mode_def Let_def film_facts
      film_option_facts positive_u32_def selected_audio_index_def opt_or_def is_some_and_def)

lemma film_limits:
  "playback_output_constraints f (src_item film) film_options None Encode Encode =
     Some (no_constraints\<lparr> oc_audio_bitrate := Some 192000, oc_video_bitrate := Some 2808000 \<rparr>)"
  by (simp add: playback_output_constraints_def Let_def video_limits_def audio_limits_def profile_limits_def
      codec_output_has_invalid_required_condition_def film_option_facts film_facts film_modes
      selected_h264_output_profile_def selected_h264_output_level_def selected_video_bit_depth_def
      selected_video_frame_rate_limit_def selected_aac_output_profile_def selected_aac_output_channels_def
      codec_output_conditions_def targeting_profiles_def codec_output_upper_bound_def list_min_def
      List.map_filter_simps min_optional_u32_def no_constraints_def total_bitrate_limits_def
      source_bitrate_limit_def suggested_audio_bitrate_def clamp_nat_def unwrap_or_def positive_u32_def
      max_video_transcode_bitrate_def min_video_transcode_bitrate_def sat_mul_def eq_ignore_case_def
      to_ascii_lowercase_def ascii_lower_def is_upper_def byte_def encoded_output_codec_conditions_compatible_def)

lemma film_transcoded:
  "playback_delivery_decision f film film_options Enabled =
     \<lparr> td_delivery = HlsTranscode, td_video = Encode, td_audio = Encode,
       td_reasons = transcode_reasons f film film_options,
       td_output = no_constraints\<lparr> oc_audio_bitrate := Some 192000, oc_video_bitrate := Some 2808000 \<rparr> \<rparr>"
  by (simp add: playback_delivery_decision_def Let_def direct_allowed_def remux_allowed_def film_modes film_facts
      film_option_facts transcode_plan_def hls_transcoding_profile_supported_def
      selected_hls_transcoding_profile_def film_limits)

theorem transcode_bitrate_budget_witness:
  "2808000 + 192000 \<le> (3000000 :: nat) \<and>
   td_output (playback_delivery_decision (\<lambda>_. []) film film_options Enabled) =
     no_constraints\<lparr> oc_audio_bitrate := Some 192000, oc_video_bitrate := Some 2808000 \<rparr>"
  using transcode_bitrate_budget [OF refl refl, of "\<lambda>_. []" film film_options Enabled 3000000] film_transcoded [of "\<lambda>_. []"]
    film_option_facts(2) film_modes(4) by (simp add: unwrap_or_def)

theorem encoded_output_meets_conditions_witness:
  "encoded_output_codec_conditions_compatible (\<lambda>_. []) (src_item film) film_options ''Video'' ''h264''
     (no_constraints\<lparr> oc_audio_bitrate := Some 192000, oc_video_bitrate := Some 2808000 \<rparr>)"
  using encoded_output_meets_conditions [of "\<lambda>_. []" film film_options Enabled] film_transcoded [of "\<lambda>_. []"]
  by (simp add: Let_def)

text \<open>A profile that asks for eight-bit video, of an item whose bit depth is not known.\<close>

definition bit_depth_options :: playback_options where
  "bit_depth_options = film_options
     \<lparr> po_codec_profiles := [\<lparr> cp_profile_type = Some ''Video'', cp_codecs = [],
         cp_conditions = [\<lparr> cc_property = Prop_Video_Bit_Depth, cc_comparison = Cmp_Less_Equal,
                            cc_values = [Numeric 8], cc_is_required = True \<rparr>],
         cp_invalid_required = [] \<rparr>] \<rparr>"

lemma bit_depth_conditions: "conditions_of_stream (src_item film) bit_depth_options ''Video''"
  by (auto simp: conditions_of_stream_def targeting_profiles_def bit_depth_options_def stream_properties_def
      eq_ignore_case_def)

lemma lower_video: "to_ascii_lowercase ''Video'' = ''video''"
  by code_simp

lemma bit_depth_unmet: "\<not> playback_codec_conditions_compatible f (src_item film) bit_depth_options ''Video''"
  by (simp add: lower_video playback_codec_conditions_compatible_def targeting_profiles_def bit_depth_options_def
      codec_profile_targets_stream_def codec_condition_stream_def film_facts json_string_field_def
      json_field_case_insensitive_def codec_condition_matches_def eq_ignore_case_def is_some_and_def Let_def)

theorem reasons_explain_conditions_witness:
  "codec_condition_incompatibility_reasons (\<lambda>_. []) (src_item film) bit_depth_options ''Video'' \<noteq> []"
  using reasons_explain_conditions [OF bit_depth_conditions, of "\<lambda>_. []"] bit_depth_unmet by simp

text \<open>A client that takes video of at most 1920 pixels' width, and a film of that width below its bitrate.\<close>

definition wide_film :: playback_source where
  "wide_film = film\<lparr> src_item := (src_item film)\<lparr> item_width := Some 1920 \<rparr> \<rparr>"

definition at_most_1920 :: codec_condition where
  "at_most_1920 = \<lparr> cc_property = Prop_Width, cc_comparison = Cmp_Less_Equal, cc_values = [Numeric 1920], cc_is_required = True \<rparr>"

definition width_profile :: codec_profile where
  "width_profile = \<lparr> cp_profile_type = Some ''Video'', cp_codecs = [], cp_conditions = [at_most_1920], cp_invalid_required = [] \<rparr>"

definition width_options :: playback_options where
  "width_options = default_playback_options
     \<lparr> po_max_streaming_bitrate := Some 6000000, po_codec_profiles := [width_profile] \<rparr>"

lemmas width_eval = wide_film_def film_def sample_item_def width_options_def width_profile_def at_most_1920_def
  default_playback_options_def

lemma wide_film_targeted:
  "codec_profile_targets_stream width_profile (src_item wide_film) ''Video''
     (conditions_codec (src_item wide_film) width_options ''Video'')"
  by (simp add: codec_profile_targets_stream_def width_profile_def lower_video eq_ignore_case_def)

lemma wide_film_value:
  "codec_condition_property_value f (src_item wide_film) width_options Prop_Width = Some (Numeric 1920)"
  by (simp add: width_eval positive_u32_def opt_or_def)

lemma wide_film_facts:
  "item_media_type (src_item wide_film) = ''Video''" "item_bitrate (src_item wide_film) = Some 5000000"
  "media_item_streams (src_item wide_film) = [JNull]" "src_plugin_vod wide_film = False" "src_xtream_remote wide_film = False"
  "media_item_stream_codec_by_index (src_item wide_film) t i = None"
  by (simp_all add: wide_film_def film_def sample_item_def media_item_streams_def normalize_media_stream_def
      enrich_media_streams_with_context_def stream_of_type_def jget_def media_item_stream_codec_by_index_def)

lemma width_option_facts:
  "po_enable_direct_stream width_options" "po_max_streaming_bitrate width_options = Some 6000000"
  "po_audio_stream_index width_options = None" "po_subtitle_stream_index width_options = None"
  "po_codec_profiles width_options = [width_profile]" "po_plugin_vod_selection_hls width_options = False"
  by (simp_all add: width_options_def default_playback_options_def)

lemma wide_film_conditions:
  "playback_codec_conditions_compatible f (src_item wide_film) width_options ''Video''"
  "playback_codec_conditions_compatible f (src_item wide_film) width_options ''Audio''"
proof -
  have "targeting_profiles (src_item wide_film) width_options ''Video''
      (conditions_codec (src_item wide_film) width_options ''Video'') = [width_profile]"
    using wide_film_targeted by (simp add: targeting_profiles_def width_option_facts)
  then show "playback_codec_conditions_compatible f (src_item wide_film) width_options ''Video''"
    using wide_film_value [of f]
    by (simp add: playback_codec_conditions_compatible_def width_profile_def at_most_1920_def codec_condition_matches_def first_value_def
        del: codec_condition_property_value.simps)
  have "\<not> codec_profile_targets_stream width_profile (src_item wide_film) ''Audio'' codec" for codec
    by (simp add: codec_profile_targets_stream_def width_profile_def lower_video eq_ignore_case_def to_ascii_lowercase_def ascii_lower_def
        is_upper_def byte_def)
  then show "playback_codec_conditions_compatible f (src_item wide_film) width_options ''Audio''"
    by (simp add: playback_codec_conditions_compatible_def targeting_profiles_def width_option_facts)
qed

lemma wide_film_no_audio: "selected_audio_codec (src_item wide_film) width_options = None"
  by (simp add: selected_audio_codec_def bind_eq_None_conv wide_film_facts)

lemma wide_film_copied:
  "td_video (playback_delivery_decision f wide_film width_options Disabled) = Copy"
  by (simp add: playback_delivery_decision_def direct_allowed_def Let_def wide_film_facts width_option_facts wide_film_conditions
      video_conditions_ok_def bitrate_exceeded_def positive_u32_def is_some_and_def item_remote_def copy_mode_def
      selected_audio_stream_needs_transcode_def wide_film_no_audio opt_or_def subtitle_requires_processing_def
      stream_selection_requires_hls_def)

theorem copied_streams_allowed_witness:
  "condition_met at_most_1920 (Numeric 1920) \<and> 5000000 \<le> (6000000 :: int)"
proof -
  have facts: "width_profile \<in> set (po_codec_profiles width_options)" "at_most_1920 \<in> set (cp_conditions width_profile)"
    "cc_property at_most_1920 = Prop_Width" "item_bitrate (src_item wide_film) = Some 5000000"
    "po_max_streaming_bitrate width_options = Some 6000000"
    by (simp_all add: width_eval)
  note copied = copied_streams_allowed [OF refl refl, of "\<lambda>_. []" wide_film width_options Disabled "''Video''"]
  from copied wide_film_copied wide_film_targeted facts(1,2)
  have "case codec_condition_property_value (\<lambda>_. []) (src_item wide_film) width_options (cc_property at_most_1920) of
      None \<Rightarrow> \<not> cc_is_required at_most_1920 | Some a \<Rightarrow> condition_met at_most_1920 a" by blast
  then have "condition_met at_most_1920 (Numeric 1920)" unfolding facts(3) wide_film_value by simp
  moreover from copied wide_film_copied facts(4,5) have "5000000 \<le> int 6000000" by simp
  ultimately show ?thesis by simp
qed

end
