(* ===== verification/Rust_Result.thy ===== *)
theory Rust_Result
  imports Prelude
begin

text \<open>
  \<open>Result\<close> as a sum whose left side is the error: the \<open>?\<close> operator, \<open>ensure!\<close> and \<open>context\<close>, a fallible
  map over a list, and the rules that take a successful chain apart.
\<close>

definition and_then :: "'e + 'a \<Rightarrow> ('a \<Rightarrow> 'e + 'b) \<Rightarrow> 'e + 'b" where
  "and_then r f = (case r of Inl e \<Rightarrow> Inl e | Inr v \<Rightarrow> f v)"

definition check :: "bool \<Rightarrow> 'e \<Rightarrow> 'e + unit" where
  "check b e = (if b then Inr () else Inl e)"

definition some_or :: "'e \<Rightarrow> 'a option \<Rightarrow> 'e + 'a" where
  "some_or e x = (case x of Some v \<Rightarrow> Inr v | None \<Rightarrow> Inl e)"

fun traverse :: "('a \<Rightarrow> 'e + 'b) \<Rightarrow> 'a list \<Rightarrow> 'e + 'b list" where
  "traverse f [] = Inr []"
| "traverse f (x # xs) = and_then (f x) (\<lambda>y. and_then (traverse f xs) (\<lambda>ys. Inr (y # ys)))"

definition result_ok :: "'e + 'a \<Rightarrow> 'a option" where
  "result_ok r = (case r of Inl _ \<Rightarrow> None | Inr v \<Rightarrow> Some v)"

text \<open>A loop whose steps may fail and change a state.\<close>

fun traverse_state :: "('a \<Rightarrow> 's \<Rightarrow> 'e + 'b \<times> 's) \<Rightarrow> 'a list \<Rightarrow> 's \<Rightarrow> 'e + 'b list \<times> 's" where
  "traverse_state f [] s = Inr ([], s)"
| "traverse_state f (x # xs) s =
     and_then (f x s) (\<lambda>(y, s). and_then (traverse_state f xs s) (\<lambda>(ys, s). Inr (y # ys, s)))"

named_theorems result_iffs \<comment> \<open>when a chain of results succeeds\<close>

lemma and_then_simps [simp]: "and_then (Inl e) f = Inl e" "and_then (Inr v) f = f v"
  by (simp_all add: and_then_def)

lemma and_then_Inr_iff [result_iffs]: "and_then r f = Inr w \<longleftrightarrow> (\<exists>v. r = Inr v \<and> f v = Inr w)"
  by (cases r) auto

lemma check_Inr_iff [result_iffs]: "check b e = Inr u \<longleftrightarrow> b"
  by (simp add: check_def)

lemma check_simps [simp]: "check True e = Inr ()" "check False e = Inl e"
  by (simp_all add: check_def)

lemma some_or_Inr_iff [result_iffs]: "some_or e x = Inr v \<longleftrightarrow> x = Some v"
  by (simp add: some_or_def split: option.split)

lemma result_ok_iff [result_iffs]: "result_ok r = Some v \<longleftrightarrow> r = Inr v"
  by (simp add: result_ok_def split: sum.split)

lemma some_or_simps [simp]: "some_or e (Some v) = Inr v" "some_or e None = Inl e"
  by (simp_all add: some_or_def)

lemma traverse_Inr_iff: "traverse f xs = Inr ys \<longleftrightarrow> list_all2 (\<lambda>x y. f x = Inr y) xs ys"
  by (induction xs arbitrary: ys) (auto simp: result_iffs list_all2_Cons1)

lemma traverse_cong [fundef_cong]:
  "xs = ys \<Longrightarrow> (\<And>x. x \<in> set ys \<Longrightarrow> f x = g x) \<Longrightarrow> traverse f xs = traverse g ys"
  by (induction xs arbitrary: ys) auto

lemma traverse_InlD: "traverse f xs = Inl e \<Longrightarrow> \<exists>x \<in> set xs. f x = Inl e"
proof (induction xs)
  case (Cons x xs)
  then show ?case by (cases "f x"; cases "traverse f xs") auto
qed simp

lemma traverse_state_all:
  "traverse_state f xs s = Inr (ys, s') \<Longrightarrow> (\<And>x y t t'. x \<in> set xs \<Longrightarrow> f x t = Inr (y, t') \<Longrightarrow> P x y) \<Longrightarrow>
   list_all2 P xs ys"
proof (induction xs arbitrary: s ys)
  case (Cons x xs)
  then show ?case by (fastforce simp: result_iffs)
qed simp

end
