(* ===== verification/Plugin_Rpc.thy ===== *)
theory Plugin_Rpc
  imports Process_Control
begin

text \<open>
  The JSON-lines protocol between the server and a plugin host, and the client that owns the host
  process (\<open>crates/jellyrin-plugin-rpc/src/lib.rs\<close>, 43--93, 95--160, 199--335, 337--445, 478--535).
  Serialising a message and parsing a line are \<open>serde\<close>'s and parameters. A reader is the list of the
  buffers its next reads return; what the operating system answers is an argument, as in
  \<open>Process_Control\<close>, whose signals, group tests and reaping the plugin client repeats.
\<close>

section \<open>Messages\<close>

datatype rpc_method =
    Handshake | Load_Plugin | Unload_Plugin | Get_Manifest | Get_Configuration | Update_Configuration
  | List_Web_Pages | Get_Embedded_Image | List_Capabilities | Invoke_Capability | Health | Shutdown

datatype rpc_error_code =
    Invalid_Request | Protocol_Version_Mismatch | Unsupported_Method | Plugin_Not_Found | Plugin_Not_Loaded
  | Capability_Not_Found | Permission_Denied | Rpc_Timeout | Host_Unavailable | Host_Failed

definition plugin_rpc_protocol_version :: nat where
  "plugin_rpc_protocol_version = 1"

record 'p envelope =
  env_protocol_version :: nat
  env_correlation_id :: string
  env_method :: rpc_method
  env_payload :: 'p

definition envelope_new :: "string \<Rightarrow> rpc_method \<Rightarrow> 'p \<Rightarrow> 'p envelope" where
  "envelope_new correlation_id rpc payload =
     \<lparr> env_protocol_version = plugin_rpc_protocol_version, env_correlation_id = correlation_id,
       env_method = rpc, env_payload = payload \<rparr>"

definition map_payload :: "'p envelope \<Rightarrow> 'q \<Rightarrow> 'q envelope" where
  "map_payload e payload =
     \<lparr> env_protocol_version = env_protocol_version e, env_correlation_id = env_correlation_id e,
       env_method = env_method e, env_payload = payload \<rparr>"

record rpc_error =
  err_code :: rpc_error_code
  err_message :: string
  err_details :: "string list"

definition rpc_error_new :: "rpc_error_code \<Rightarrow> string \<Rightarrow> rpc_error" where
  "rpc_error_new code message = \<lparr> err_code = code, err_message = message, err_details = [] \<rparr>"

record 'r response =
  rsp_protocol_version :: nat
  rsp_correlation_id :: string
  rsp_ok :: bool
  rsp_result :: "'r option"
  rsp_error :: "rpc_error option"

definition response_success :: "string \<Rightarrow> 'r \<Rightarrow> 'r response" where
  "response_success correlation_id result =
     \<lparr> rsp_protocol_version = plugin_rpc_protocol_version, rsp_correlation_id = correlation_id, rsp_ok = True,
       rsp_result = Some result, rsp_error = None \<rparr>"

definition response_failure :: "string \<Rightarrow> rpc_error \<Rightarrow> 'r response" where
  "response_failure correlation_id error =
     \<lparr> rsp_protocol_version = plugin_rpc_protocol_version, rsp_correlation_id = correlation_id, rsp_ok = False,
       rsp_result = None, rsp_error = Some error \<rparr>"

datatype codec_error = Message_Too_Large nat | Unexpected_Eof | Json_Error

datatype transport_error =
    Codec codec_error
  | Io os_error
  | Broken_Pipe
  | Call_Timeout nat
  | Correlation_Mismatch string string

section \<open>Lines\<close>

definition newline :: char where
  "newline = CHR 0x0A"

definition encode_json_line :: "('a \<Rightarrow> string option) \<Rightarrow> nat \<Rightarrow> 'a \<Rightarrow> codec_error + string" where
  "encode_json_line ser max_bytes message =
     (case ser message of
        None \<Rightarrow> Inl Json_Error
      | Some bytes \<Rightarrow> if max_bytes < length bytes then Inl (Message_Too_Large max_bytes) else Inr (bytes @ [newline]))"

definition decode_json_line :: "(string \<Rightarrow> 'a option) \<Rightarrow> nat \<Rightarrow> string \<Rightarrow> codec_error + 'a" where
  "decode_json_line de max_bytes line =
     (let line = unwrap_or line (strip_suffix [newline] line)
      in if max_bytes < length line then Inl (Message_Too_Large max_bytes)
         else case de line of None \<Rightarrow> Inl Json_Error | Some m \<Rightarrow> Inr m)"

text \<open>
  \<open>read_bounded_line\<close>: an empty buffer is the end of the stream; what follows the newline stays in the
  buffer for the next read. The result comes with the line so far and the reader afterwards.
\<close>

type_synonym reader = "(os_error + string) list"

definition find_newline :: "string \<Rightarrow> nat option" where
  "find_newline s = (if newline \<in> set s then Some (length (takeWhile (\<lambda>c. c \<noteq> newline) s)) else None)"

definition keep_buffer :: "string \<Rightarrow> reader \<Rightarrow> reader" where
  "keep_buffer buffer r = (if buffer = [] then r else Inr buffer # r)"

fun read_bounded_line :: "nat \<Rightarrow> string \<Rightarrow> reader \<Rightarrow> (transport_error + unit) \<times> string \<times> reader" where
  "read_bounded_line max_bytes line [] = (Inl (Codec Unexpected_Eof), line, [])"
| "read_bounded_line max_bytes line (Inl e # r) = (Inl (Io e), line, r)"
| "read_bounded_line max_bytes line (Inr buffer # r) =
     (if buffer = [] then (Inl (Codec Unexpected_Eof), line, r)
      else
        (let position = find_newline buffer; payload = unwrap_or (length buffer) position
         in if max_bytes < sat_add usize_max (length line) payload
            then (Inl (Codec (Message_Too_Large max_bytes)), line, Inr buffer # r)
            else case position of
                Some i \<Rightarrow> (Inr (), line @ take (Suc i) buffer, keep_buffer (drop (Suc i) buffer) r)
              | None \<Rightarrow> read_bounded_line max_bytes (line @ buffer) r))"

definition read_response :: "(string \<Rightarrow> 'a option) \<Rightarrow> nat \<Rightarrow> reader \<Rightarrow> (transport_error + 'a) \<times> reader" where
  "read_response de max_bytes r =
     (case read_bounded_line max_bytes [] r of
        (Inl e, _, r') \<Rightarrow> (Inl e, r')
      | (Inr _, line, r') \<Rightarrow>
          (case decode_json_line de max_bytes line of Inl e \<Rightarrow> (Inl (Codec e), r') | Inr m \<Rightarrow> (Inr m, r')))"

section \<open>Calls\<close>

text \<open>
  An exchange either completes, with the answer of writing the request, or is dropped at the deadline,
  with whatever the reader then holds.
\<close>

datatype exchange = Completed "os_error + unit" | Dropped reader

record ('p, 'r) codec =
  cd_ser :: "'p envelope \<Rightarrow> string option"
  cd_de :: "string \<Rightarrow> 'r response option"

definition transport_call ::
  "('p, 'r) codec \<Rightarrow> nat \<Rightarrow> nat \<Rightarrow> 'p envelope \<Rightarrow> exchange \<Rightarrow> reader \<Rightarrow>
   (transport_error + 'r response) \<times> reader" where
  "transport_call cd max_bytes timeout_ms e x r =
     (case x of
        Dropped left \<Rightarrow> (Inl (Call_Timeout (min timeout_ms u64_max)), left)
      | Completed written \<Rightarrow>
          (case encode_json_line (cd_ser cd) max_bytes e of
             Inl err \<Rightarrow> (Inl (Codec err), r)
           | Inr bytes \<Rightarrow>
               (case written of
                  Inl err \<Rightarrow> (Inl (Io err), r)
                | Inr _ \<Rightarrow>
                    (case read_response (cd_de cd) max_bytes r of
                       (Inl err, r') \<Rightarrow> (Inl err, r')
                     | (Inr rsp, r') \<Rightarrow>
                         if rsp_correlation_id rsp \<noteq> env_correlation_id e
                         then (Inl (Correlation_Mismatch (env_correlation_id e) (rsp_correlation_id rsp)), r')
                         else (Inr rsp, r')))))"

section \<open>The host process\<close>

record host_answers =
  ha_first_try :: wait_answer
  ha_exists :: kill_answer
  ha_term :: kill_answer
  ha_kill :: kill_answer
  ha_polls :: "group_poll list"
  ha_reap :: reap_answers

definition reaped :: "exit_status option \<Rightarrow> reap_answers \<Rightarrow> os_error + exit_status" where
  "reaped status a = (case status of Some s \<Rightarrow> Inr s | None \<Rightarrow> force_kill_and_reap a)"

definition terminate_host_group ::
  "int option \<Rightarrow> host_answers \<Rightarrow> (signal list \<times> (os_error + exit_status)) option" where
  "terminate_host_group pgid a =
     (case opt_filter (\<lambda>g. 0 < g) pgid of
        None \<Rightarrow> Some ([], force_kill_and_reap (ha_reap a))
      | Some g \<Rightarrow>
          (case ha_first_try a of
             Inl e \<Rightarrow> Some ([], Inl e)
           | Inr status \<Rightarrow>
               (case process_group_exists g (ha_exists a) of
                  Inl e \<Rightarrow> Some ([], Inl e)
                | Inr False \<Rightarrow> Some ([], reaped status (ha_reap a))
                | Inr True \<Rightarrow>
                    (case signal_process_group g Sig_Term (ha_term a) of
                       (sent, Inl e) \<Rightarrow>
                         Some (sent @ fst (signal_process_group g Sig_Kill (ha_kill a)),
                               if status = None then force_kill_and_reap (ha_reap a) else Inl e)
                     | (sent, Inr _) \<Rightarrow>
                         map_option (\<lambda>(signals, r). (sent @ signals,
                             case r of Inl e \<Rightarrow> Inl e | Inr status \<Rightarrow> reaped status (ha_reap a)))
                           (terminate_loop g status (ha_polls a))))))"

record plugin_client =
  pc_child :: bool \<comment> \<open>the child handle is still held\<close>
  pc_group :: "int option"
  pc_reader :: reader

definition client_terminate_and_reap ::
  "host_answers \<Rightarrow> plugin_client \<Rightarrow> (plugin_client \<times> signal list \<times> (os_error + unit)) option" where
  "client_terminate_and_reap a c =
     (if \<not> pc_child c then Some (c\<lparr> pc_group := None \<rparr>, [], Inr ())
      else map_option (\<lambda>(signals, r).
             case r of
               Inl e \<Rightarrow> (c, signals, Inl e)
             | Inr _ \<Rightarrow> (c\<lparr> pc_group := None, pc_child := False \<rparr>, signals, Inr ()))
           (terminate_host_group (pc_group c) a))"

text \<open>None while the polls given do not end the termination.\<close>

definition client_call ::
  "('p, 'r) codec \<Rightarrow> nat \<Rightarrow> nat \<Rightarrow> 'p envelope \<Rightarrow> exchange \<Rightarrow> host_answers \<Rightarrow> plugin_client \<Rightarrow>
   (plugin_client \<times> signal list \<times> (transport_error + 'r response)) option" where
  "client_call cd max_bytes timeout_ms e x a c =
     (if \<not> pc_child c then Some (c, [], Inl Broken_Pipe)
      else
        (case transport_call cd max_bytes timeout_ms e x (pc_reader c) of
           (result, r) \<Rightarrow>
             (let c = c\<lparr> pc_reader := r \<rparr>
              in case result of
                   Inl (Call_Timeout _) \<Rightarrow>
                     map_option (\<lambda>(c, signals, _). (c, signals, result)) (client_terminate_and_reap a c)
                 | _ \<Rightarrow> Some (c, [], result))))"

definition client_drop :: "kill_answer \<Rightarrow> plugin_client \<Rightarrow> signal list" where
  "client_drop kill c = group_kill (pc_group c) kill"

text \<open>
  \<open>shutdown\<close> consumes the client: the signals include those of dropping it on return. The answer of the
  shutdown request itself is ignored, and the request has its own codec.
\<close>

definition client_shutdown ::
  "('p, 'r) codec \<Rightarrow> nat \<Rightarrow> 'p \<Rightarrow> wait_answer \<Rightarrow> exchange \<Rightarrow> host_answers \<Rightarrow> kill_answer \<Rightarrow> plugin_client \<Rightarrow>
   (signal list \<times> (transport_error + unit)) option" where
  "client_shutdown cd max_bytes payload poll x a kill c =
     (case (if pc_child c then poll else Inr None) of
        Inl e \<Rightarrow> Some (client_drop kill c, Inl (Io e))
      | Inr status \<Rightarrow>
          (let request = envelope_new ''jellyrin-host-shutdown'' Shutdown payload;
               c = (if pc_child c \<and> status = None
                    then c\<lparr> pc_reader := snd (transport_call cd max_bytes 500 request x (pc_reader c)) \<rparr> else c)
           in map_option (\<lambda>(c, signals, r).
                  (signals @ client_drop kill c, case r of Inl e \<Rightarrow> Inl (Io e) | Inr _ \<Rightarrow> Inr ()))
                (client_terminate_and_reap a c)))"

section \<open>Reading is independent of the buffers\<close>

text \<open>The specification: the first line of the bytes, or why there is none.\<close>

definition first_line :: "nat \<Rightarrow> string \<Rightarrow> (codec_error + string) \<times> string" where
  "first_line max_bytes s =
     (let body = takeWhile (\<lambda>c. c \<noteq> newline) s
      in if max_bytes < length body then (Inl (Message_Too_Large max_bytes), [])
         else if newline \<in> set s then (Inr body, tl (dropWhile (\<lambda>c. c \<noteq> newline) s))
         else (Inl Unexpected_Eof, []))"

definition buffers :: "string list \<Rightarrow> reader" where
  "buffers bs = map Inr bs"

lemma find_newline_None: "find_newline s = None \<longleftrightarrow> newline \<notin> set s"
  by (simp add: find_newline_def)

lemma find_newline_Some:
  assumes "find_newline s = Some i"
  shows "take (Suc i) s = takeWhile (\<lambda>c. c \<noteq> newline) s @ [newline]"
    and "drop (Suc i) s = tl (dropWhile (\<lambda>c. c \<noteq> newline) s)"
    and "i = length (takeWhile (\<lambda>c. c \<noteq> newline) s)"
proof -
  have mem: "newline \<in> set s" and i: "i = length (takeWhile (\<lambda>c. c \<noteq> newline) s)"
    using assms by (auto simp: find_newline_def split: if_splits)
  show "i = length (takeWhile (\<lambda>c. c \<noteq> newline) s)" by (rule i)
  have "dropWhile (\<lambda>c. c \<noteq> newline) s \<noteq> []" "hd (dropWhile (\<lambda>c. c \<noteq> newline) s) = newline"
    using mem hd_dropWhile [of "\<lambda>c. c \<noteq> newline" s] by (auto simp: dropWhile_eq_Nil_conv)
  then obtain rest where d: "dropWhile (\<lambda>c. c \<noteq> newline) s = newline # rest" by (metis list.exhaust_sel)
  have s: "s = takeWhile (\<lambda>c. c \<noteq> newline) s @ newline # rest"
    using takeWhile_dropWhile_id [of "\<lambda>c. c \<noteq> newline" s] by (simp only: d)
  show "take (Suc i) s = takeWhile (\<lambda>c. c \<noteq> newline) s @ [newline]"
    unfolding i by (subst s) simp
  show "drop (Suc i) s = tl (dropWhile (\<lambda>c. c \<noteq> newline) s)"
    unfolding i d by (subst (2) s) simp
qed

text \<open>A reader that neither fails nor ends before its bytes.\<close>

definition sound_reader :: "reader \<Rightarrow> bool" where
  "sound_reader r \<longleftrightarrow> list_all (\<lambda>b. case b of Inr s \<Rightarrow> s \<noteq> [] | Inl _ \<Rightarrow> False) r"

definition reader_bytes :: "reader \<Rightarrow> string" where
  "reader_bytes r = concat (map (\<lambda>b. case b of Inr s \<Rightarrow> s | Inl _ \<Rightarrow> []) r)"

text \<open>What the outcome of a read is in terms of the bytes alone.\<close>

definition line_outcome :: "(codec_error + string) \<times> string \<Rightarrow> (transport_error + unit) \<times> string \<times> reader \<Rightarrow> bool" where
  "line_outcome spec out \<longleftrightarrow>
     (case (spec, out) of
        ((Inl e, _), (res, _, _)) \<Rightarrow> res = Inl (Codec e)
      | ((Inr body, rest), (res, line, r)) \<Rightarrow>
          res = Inr () \<and> line = body @ [newline] \<and> sound_reader r \<and> reader_bytes r = rest)"

lemma takeWhile_prefix_free: "x \<notin> set xs \<Longrightarrow> takeWhile (\<lambda>c. c \<noteq> x) (xs @ ys) = xs @ takeWhile (\<lambda>c. c \<noteq> x) ys"
  by (induction xs) auto

lemma dropWhile_prefix_free: "x \<notin> set xs \<Longrightarrow> dropWhile (\<lambda>c. c \<noteq> x) (xs @ ys) = dropWhile (\<lambda>c. c \<noteq> x) ys"
  by (induction xs) auto

lemma keep_buffer_sound: "sound_reader r \<Longrightarrow> sound_reader (keep_buffer b r)"
  by (simp add: keep_buffer_def sound_reader_def)

lemma keep_buffer_bytes: "reader_bytes (keep_buffer b r) = b @ reader_bytes r"
  by (simp add: keep_buffer_def reader_bytes_def)

lemma read_bounded_line_outcome:
  assumes "max_bytes < usize_max" "sound_reader r" "newline \<notin> set line" "length line \<le> max_bytes"
  shows "line_outcome (first_line max_bytes (line @ reader_bytes r)) (read_bounded_line max_bytes line r)"
  using assms
proof (induction max_bytes line r rule: read_bounded_line.induct)
  case (1 m line)
  then show ?case using length_takeWhile_le [of "\<lambda>c. c \<noteq> newline" line] by (simp add: line_outcome_def first_line_def reader_bytes_def Let_def)
next
  case (2 m line e r)
  then show ?case by (simp add: sound_reader_def)
next
  case (3 m line b r)
  have b: "b \<noteq> []" "sound_reader r" using "3.prems"(2) by (simp_all add: sound_reader_def)
  have bytes: "reader_bytes (Inr b # r) = b @ reader_bytes r" by (simp add: reader_bytes_def)
  have sat: "m < sat_add usize_max k n \<longleftrightarrow> m < k + n" for k n using "3.prems"(1) by (auto simp: sat_add_def)
  show ?case
  proof (cases "find_newline b")
    case None
    then have free: "newline \<notin> set b" by (simp add: find_newline_None)
    show ?thesis
    proof (cases "m < length line + length b")
      case True
      then show ?thesis using b None "3.prems"(3) free
        by (simp add: sat line_outcome_def first_line_def bytes Let_def takeWhile_prefix_free unwrap_or_def)
    next
      case False
      have "line_outcome (first_line m ((line @ b) @ reader_bytes r)) (read_bounded_line m (line @ b) r)"
        by (rule "3.IH" [OF b(1) refl refl]) (use False None free "3.prems" b in \<open>auto simp: sat unwrap_or_def\<close>)
      then show ?thesis using b(1) None False by (simp add: sat bytes unwrap_or_def)
    qed
  next
    case (Some i)
    note nl = find_newline_Some [OF Some]
    have mem: "newline \<in> set b" using Some by (auto simp: find_newline_def split: if_splits)
    have tw: "takeWhile (\<lambda>c. c \<noteq> newline) (line @ b @ reader_bytes r) = line @ takeWhile (\<lambda>c. c \<noteq> newline) b"
      using "3.prems"(3) mem by (simp add: takeWhile_prefix_free takeWhile_append1)
    have dw: "dropWhile (\<lambda>c. c \<noteq> newline) (line @ b @ reader_bytes r) = dropWhile (\<lambda>c. c \<noteq> newline) b @ reader_bytes r"
      using "3.prems"(3) mem by (simp add: dropWhile_prefix_free dropWhile_append1)
    have ne: "dropWhile (\<lambda>c. c \<noteq> newline) b \<noteq> []" using mem by (auto simp: dropWhile_eq_Nil_conv)
    show ?thesis using b Some mem ne
      by (auto simp: sat line_outcome_def first_line_def bytes Let_def tw dw nl(1,2) nl(3) [symmetric] unwrap_or_def keep_buffer_sound
          keep_buffer_bytes)
  qed
qed

text \<open>
  C29. The bounded line reader refines reading a line off the byte stream: whatever buffers the pipe
  delivers, it returns the bytes up to the first newline and leaves exactly the bytes after it, or it
  reports that the line is over the limit, or that the stream ended within it.
\<close>

theorem read_bounded_line_refines:
  assumes "max_bytes < usize_max" "sound_reader r"
  shows "line_outcome (first_line max_bytes (reader_bytes r)) (read_bounded_line max_bytes [] r)"
  using read_bounded_line_outcome [of max_bytes r "[]"] assms by simp

theorem read_bounded_line_refines_witness:
  "line_outcome (first_line 4 (reader_bytes [Inr ''a'', Inr (newline # ''b'')]))
     (read_bounded_line 4 [] [Inr ''a'', Inr (newline # ''b'')])"
  by (rule read_bounded_line_refines) (simp_all add: sound_reader_def)

section \<open>Responses arrive in order\<close>

fun read_responses :: "(string \<Rightarrow> 'a option) \<Rightarrow> nat \<Rightarrow> nat \<Rightarrow> reader \<Rightarrow> (transport_error + 'a) list \<times> reader" where
  "read_responses de max_bytes 0 r = ([], r)"
| "read_responses de max_bytes (Suc n) r =
     (case read_response de max_bytes r of
        (m, r') \<Rightarrow> (case read_responses de max_bytes n r' of (ms, r'') \<Rightarrow> (m # ms, r'')))"

lemma strip_newline: "strip_suffix [newline] (s @ [newline]) = Some s"
  by (simp add: strip_suffix_def ends_with_def)

lemma first_line_append:
  "newline \<notin> set body \<Longrightarrow> length body \<le> max_bytes \<Longrightarrow> first_line max_bytes (body @ newline # rest) = (Inr body, rest)"
  by (simp add: first_line_def Let_def takeWhile_prefix_free dropWhile_prefix_free)

lemma read_response_line:
  assumes "max_bytes < usize_max" "sound_reader r" "reader_bytes r = body @ newline # rest"
    and "newline \<notin> set body" "length body \<le> max_bytes" "de body = Some m"
  shows "\<exists>r'. read_response de max_bytes r = (Inr m, r') \<and> sound_reader r' \<and> reader_bytes r' = rest"
proof -
  have "line_outcome (Inr body, rest) (read_bounded_line max_bytes [] r)"
    using read_bounded_line_outcome [of max_bytes r "[]"] assms by (simp add: first_line_append)
  then obtain r' where "read_bounded_line max_bytes [] r = (Inr (), body @ [newline], r')" "sound_reader r'"
    "reader_bytes r' = rest"
    by (cases "read_bounded_line max_bytes [] r") (auto simp: line_outcome_def)
  then show ?thesis using assms(5,6)
    by (simp add: read_response_def decode_json_line_def strip_newline unwrap_or_def)
qed

lemma encode_json_line_Inr:
  "encode_json_line ser max_bytes m = Inr l \<Longrightarrow> \<exists>b. ser m = Some b \<and> l = b @ [newline] \<and> length b \<le> max_bytes"
  by (auto simp: encode_json_line_def split: option.splits if_splits)

text \<open>
  What one side encodes the other side reads: when parsing inverts serialising and serialised text
  has no raw newline, encoded messages come back complete and in order through any buffering of the
  pipe, and the bytes after them are untouched.
\<close>

theorem rpc_messages_read_back:
  assumes "max_bytes < usize_max" "sound_reader r" "reader_bytes r = concat ls @ later"
    and "list_all2 (\<lambda>m l. encode_json_line ser max_bytes m = Inr l) ms ls"
    and "\<And>m b. m \<in> set ms \<Longrightarrow> ser m = Some b \<Longrightarrow> de b = Some m \<and> newline \<notin> set b"
  shows "\<exists>r'. read_responses de max_bytes (length ms) r = (map Inr ms, r') \<and> reader_bytes r' = later"
  using assms(4,2,3,5)
proof (induction ms ls arbitrary: r rule: list_all2_induct)
  case Nil
  then show ?case by simp
next
  case (Cons m ms l ls)
  obtain b where b: "ser m = Some b" "l = b @ [newline]" "length b \<le> max_bytes"
    using encode_json_line_Inr [OF Cons.hyps(1)] by auto
  have "de b = Some m \<and> newline \<notin> set b" using Cons.prems(3) [of m] b(1) by simp
  then obtain r1 where r1: "read_response de max_bytes r = (Inr m, r1)" "sound_reader r1"
    "reader_bytes r1 = concat ls @ later"
    using read_response_line [of max_bytes r b "concat ls @ later" de m] assms(1) Cons.prems(1,2) b by auto
  obtain r2 where "read_responses de max_bytes (length ms) r1 = (map Inr ms, r2)" "reader_bytes r2 = later"
    using Cons.IH [OF r1(2,3)] Cons.prems(3) by auto
  with r1(1) show ?case by simp
qed

theorem rpc_messages_read_back_witness:
  "\<exists>r'. read_responses Some 8 (length [''ab'', ''c'']) [Inr ''a'', Inr (''b'' @ [newline] @ ''c''), Inr [newline]] =
     (map Inr [''ab'', ''c''], r') \<and> reader_bytes r' = []"
proof (rule rpc_messages_read_back [where ser = "\<lambda>m. if newline \<in> set m then None else Some m"
      and ls = "[''ab'' @ [newline], ''c'' @ [newline]]"])
  show "list_all2 (\<lambda>m l. encode_json_line (\<lambda>m. if newline \<in> set m then None else Some m) 8 m = Inr l)
      [''ab'', ''c''] [''ab'' @ [newline], ''c'' @ [newline]]"
    by (simp add: encode_json_line_def newline_def)
qed (auto simp: sound_reader_def reader_bytes_def split: if_splits)

section \<open>A host that does not answer\<close>

text \<open>The end of the host's group, and the exit of its leader, as the termination reads them.\<close>

definition host_group_ended :: "int \<Rightarrow> host_answers \<Rightarrow> signal list \<Rightarrow> bool" where
  "host_group_ended g a signals \<longleftrightarrow> Sig_Kill \<in> set signals \<or> process_group_exists g (ha_exists a) = Inr False \<or>
     (\<exists>p \<in> set (ha_polls a). process_group_exists g (gp_exists p) = Inr False)"

definition host_exit_seen :: "host_answers \<Rightarrow> exit_status \<Rightarrow> bool" where
  "host_exit_seen a status \<longleftrightarrow> ha_first_try a = Inr (Some status) \<or>
     (\<exists>p \<in> set (ha_polls a). gp_try_wait p = Inr (Some status)) \<or> reap_saw (ha_reap a) status"

lemma reaped_seen: "reaped status r = Inr s \<Longrightarrow> status = Some s \<or> reap_saw r s"
  by (auto simp: reaped_def split: option.splits dest: force_kill_and_reap_saw)

lemma terminated_host:
  assumes g: "0 < g" and t: "terminate_host_group (Some g) a = Some (signals, Inr s)"
  shows "host_group_ended g a signals \<and> host_exit_seen a s"
proof -
  obtain status where first: "ha_first_try a = Inr status"
    using t g by (cases "ha_first_try a") (auto simp: terminate_host_group_def)
  obtain b where ex: "process_group_exists g (ha_exists a) = Inr b"
    using t g first by (cases "process_group_exists g (ha_exists a)") (auto simp: terminate_host_group_def)
  obtain sent r where sigterm: "signal_process_group g Sig_Term (ha_term a) = (sent, r)" by fastforce
  show ?thesis
  proof (cases "b \<and> r = Inr ()")
    case True
    obtain sg lr where l: "terminate_loop g status (ha_polls a) = Some (sg, lr)" "signals = sent @ sg"
        and r: "(case lr of Inl e \<Rightarrow> Inl e | Inr status \<Rightarrow> reaped status (ha_reap a)) = Inr s"
      using t g first ex True sigterm by (auto simp: terminate_host_group_def)
    obtain st where st: "lr = Inr st" "reaped st (ha_reap a) = Inr s" using r by (cases lr) auto
    then show ?thesis using terminate_loop_sound [of g status "ha_polls a" sg st] l g first reaped_seen [of st "ha_reap a" s]
      by (auto simp: host_group_ended_def host_exit_seen_def)
  next
    case False
    then show ?thesis using t g first ex sigterm
      by (cases b; cases r) (auto simp: terminate_host_group_def host_group_ended_def host_exit_seen_def
          split: if_splits dest: reaped_seen force_kill_and_reap_saw)
  qed
qed

lemma terminate_host_group_ends:
  "\<exists>p \<in> set (ha_polls a). gp_expired p \<Longrightarrow> terminate_host_group pgid a \<noteq> None"
  using terminate_loop_ends [of "ha_polls a"]
  by (auto simp: terminate_host_group_def split: option.split sum.split prod.split bool.split)

text \<open>
  C20. A host, whose group has a positive id, misses a deadline. The call returns (once a poll of the termination falls after
  the grace period) and reports the time-out. If the termination succeeded, a wait for the leader gave its status (so it is reaped), the group was
  seen to be gone or a \<open>SIGKILL\<close> was sent to it, and every later call fails at once: the stale answer is not
  read. If it failed, the error is dropped, the client still holds the child, and dropping the client sends \<open>SIGKILL\<close> to the group.
\<close>

theorem timed_out_host_is_gone:
  fixes cd :: "('p, 'r) codec"
  assumes "0 < g" "pc_child c" "pc_group c = Some g"
  shows "((\<exists>p \<in> set (ha_polls a). gp_expired p) \<longrightarrow>
      (\<exists>c' signals r. client_call cd max_bytes timeout_ms e (Dropped left) a c = Some (c', signals, r))) \<and>
    (\<forall>c' signals r. client_call cd max_bytes timeout_ms e (Dropped left) a c = Some (c', signals, r) \<longrightarrow>
      r = Inl (Call_Timeout (min timeout_ms u64_max)) \<and>
      (case terminate_host_group (Some g) a of
         None \<Rightarrow> False
       | Some (sent, Inr status) \<Rightarrow> \<not> pc_child c' \<and> signals = sent \<and>
           (Sig_Kill \<in> set signals \<or> process_group_exists g (ha_exists a) = Inr False \<or>
             (\<exists>p \<in> set (ha_polls a). process_group_exists g (gp_exists p) = Inr False)) \<and>
           (ha_first_try a = Inr (Some status) \<or> (\<exists>p \<in> set (ha_polls a). gp_try_wait p = Inr (Some status)) \<or>
             reap_saw (ha_reap a) status) \<and>
           (\<forall>(cd' :: ('p, 'r) codec) max_bytes' timeout_ms' e' x' a'. client_call cd' max_bytes' timeout_ms' e' x' a' c' = Some (c', [], Inl Broken_Pipe))
       | Some (sent, Inl error) \<Rightarrow> pc_child c' \<and> pc_group c' = Some g \<and> signals = sent \<and> client_drop kill c' = [Sig_Kill]))"
proof (intro conjI impI allI)
  note call_def = client_call_def transport_call_def client_terminate_and_reap_def Let_def
  show "\<exists>c' signals r. client_call cd max_bytes timeout_ms e (Dropped left) a c = Some (c', signals, r)"
    if expired: "\<exists>p \<in> set (ha_polls a). gp_expired p"
  proof -
    obtain sg tr where "terminate_host_group (Some g) a = Some (sg, tr)"
      using terminate_host_group_ends [OF expired, of "Some g"] by auto
    then show ?thesis using assms(2,3) by (cases tr) (simp_all add: call_def)
  qed
  fix c' signals r
  assume call: "client_call cd max_bytes timeout_ms e (Dropped left) a c = Some (c', signals, r)"
  then have "terminate_host_group (Some g) a \<noteq> None" using assms(2,3) by (auto simp: call_def)
  then obtain sg tr where t: "terminate_host_group (Some g) a = Some (sg, tr)" by auto
  have r: "r = Inl (Call_Timeout (min timeout_ms u64_max))" and c': "signals = sg"
      "c' = (case tr of Inl _ \<Rightarrow> c\<lparr> pc_reader := left \<rparr> | Inr _ \<Rightarrow> c\<lparr> pc_reader := left, pc_group := None, pc_child := False \<rparr>)"
    using call assms(2,3) t by (cases tr; simp add: call_def)+
  show "r = Inl (Call_Timeout (min timeout_ms u64_max))" by (rule r)
  show "case terminate_host_group (Some g) a of
         None \<Rightarrow> False
       | Some (sent, Inr status) \<Rightarrow> \<not> pc_child c' \<and> signals = sent \<and>
           (Sig_Kill \<in> set signals \<or> process_group_exists g (ha_exists a) = Inr False \<or>
             (\<exists>p \<in> set (ha_polls a). process_group_exists g (gp_exists p) = Inr False)) \<and>
           (ha_first_try a = Inr (Some status) \<or> (\<exists>p \<in> set (ha_polls a). gp_try_wait p = Inr (Some status)) \<or>
             reap_saw (ha_reap a) status) \<and>
           (\<forall>(cd' :: ('p, 'r) codec) max_bytes' timeout_ms' e' x' a'. client_call cd' max_bytes' timeout_ms' e' x' a' c' = Some (c', [], Inl Broken_Pipe))
       | Some (sent, Inl error) \<Rightarrow> pc_child c' \<and> pc_group c' = Some g \<and> signals = sent \<and> client_drop kill c' = [Sig_Kill]"
    using terminated_host [OF assms(1), of a sg] t c' assms
    by (cases tr) (auto simp: client_drop_def host_group_ended_def host_exit_seen_def client_call_def)
qed

definition stubborn_answers :: host_answers where
  "stubborn_answers =
     \<lparr> ha_first_try = Inr None, ha_exists = Kill_Ok, ha_term = Kill_Ok, ha_kill = Kill_Ok,
       ha_polls = [\<lparr> gp_try_wait = Inr None, gp_exists = Kill_Ok, gp_expired = True, gp_kill = Kill_Ok \<rparr>],
       ha_reap = \<lparr> reap_first_try = Inr (Some \<lparr> exit_code = None, exit_success = False \<rparr>), reap_kill = Inr (),
                   reap_second_try = Inr None, reap_wait = Inl Os_Failure \<rparr> \<rparr>"

definition echo_codec :: "(string, string) codec" where
  "echo_codec = \<lparr> cd_ser = (\<lambda>e. Some (env_payload e)), cd_de = (\<lambda>s. Some (response_success ''1'' s)) \<rparr>"

definition live_client :: plugin_client where
  "live_client = \<lparr> pc_child = True, pc_group = Some 7, pc_reader = [] \<rparr>"

theorem timed_out_host_is_gone_witness:
  "\<exists>c'. client_call echo_codec 8 100 (envelope_new ''1'' Health ''x'') (Dropped []) stubborn_answers live_client =
       Some (c', [Sig_Term, Sig_Kill], Inl (Call_Timeout 100)) \<and>
     client_call echo_codec 8 100 (envelope_new ''2'' Health ''y'') (Completed (Inr ())) stubborn_answers c' =
       Some (c', [], Inl Broken_Pipe)"
proof -
  have live: "0 < (7 :: int)" "pc_child live_client" "pc_group live_client = Some 7" by (simp_all add: live_client_def)
  have t: "terminate_host_group (Some 7) stubborn_answers = Some ([Sig_Term, Sig_Kill], Inr \<lparr> exit_code = None, exit_success = False \<rparr>)"
    by (simp add: terminate_host_group_def stubborn_answers_def process_group_exists_def signal_process_group_def
        opt_filter_def reaped_def force_kill_and_reap_def)
  note gone = timed_out_host_is_gone [OF live, of stubborn_answers echo_codec 8 100 "envelope_new ''1'' Health ''x''" "[]", unfolded t]
  have "\<exists>p \<in> set (ha_polls stubborn_answers). gp_expired p" by (simp add: stubborn_answers_def)
  with gone [THEN conjunct1] obtain c' signals r where
    call: "client_call echo_codec 8 100 (envelope_new ''1'' Health ''x'') (Dropped []) stubborn_answers live_client = Some (c', signals, r)"
    by blast
  with gone [THEN conjunct2, rule_format, OF call] show ?thesis by auto
qed

end
