(* ===== verification/Provider_Secrets.thy ===== *)
theory Provider_Secrets
  imports Rust_Result Json
begin

text \<open>
  The vault that encrypts provider credentials, and the references and redaction of the configurations
  that use it (\<open>crates/jellyrin-db/src/provider_secrets.rs\<close>, 18--216, 235--310, 330--785). The cipher
  (AES-256-GCM of \<open>ring\<close>), SHA-256, base64 and \<open>serde_json\<close> are libraries and parameters, as is the
  Unicode table of \<open>to_lowercase\<close>; zeroising memory has no effect on values and is not modelled.
\<close>

section \<open>Libraries\<close>

record crypto =
  cy_seal :: "string \<Rightarrow> string \<Rightarrow> string \<Rightarrow> string \<Rightarrow> string option" \<comment> \<open>key, nonce, associated data, plaintext\<close>
  cy_open :: "string \<Rightarrow> string \<Rightarrow> string \<Rightarrow> string \<Rightarrow> string option"
  cy_write :: "json \<Rightarrow> string"
  cy_read :: "string \<Rightarrow> json option"
  cy_base64 :: "string \<Rightarrow> string option"
  cy_sha256 :: "string \<Rightarrow> string"
  cy_lowercase :: "string \<Rightarrow> string"

definition credentials_json :: "string \<Rightarrow> string \<Rightarrow> json" where
  "credentials_json username password =
     json_obj [(''username'', JStr username), (''password'', JStr password)]"

text \<open>What the code relies on: opening inverts sealing, and parsing inverts writing an object of two strings.\<close>

definition crypto_ok :: "crypto \<Rightarrow> bool" where
  "crypto_ok cy \<longleftrightarrow>
     (\<forall>key nonce aad plaintext sealed.
        cy_seal cy key nonce aad plaintext = Some sealed \<longrightarrow> cy_open cy key nonce aad sealed = Some plaintext) \<and>
     (\<forall>username password.
        cy_read cy (cy_write cy (credentials_json username password)) = Some (credentials_json username password))"

section \<open>Validation\<close>

datatype secret_error =
    Key_Not_Base64 | Key_Id_Invalid | Key_Length_Invalid | Keyring_Json_Invalid | Active_Key_Id_Missing
  | Keys_Missing | Keyring_Size_Invalid | Active_Key_Unavailable | Key_Not_String | Secret_Id_Invalid
  | Provider_Type_Invalid | Nonce_Failed | Credentials_Too_Large | Encryption_Failed | Version_Unsupported
  | Key_Unavailable | Authentication_Failed | Credentials_Unreadable | Username_Unavailable
  | Password_Unavailable | Username_Empty | Password_Empty | Configuration_Not_Object | Reference_Invalid
  | Reference_Of_Other_Provider | Plugin_Id_Not_String | Plugin_Id_Invalid | Plugin_Id_Missing
  | Plugin_Ids_Differ | Identity_Changed | Vault_Missing | Envelope_Unavailable | Envelope_Invalid
  | Username_Required | Password_Required | Credentials_Incomplete | Id_Of_Other_Provider | Revision_Overflow
  | Provider_Type_Required | Credentials_Conflict

definition validate_key_id :: "string \<Rightarrow> secret_error + string" where
  "validate_key_id value =
     (let v = trim value
      in if v \<noteq> [] \<and> length v \<le> 128 \<and>
            list_all (\<lambda>c. is_alnum c \<or> c = CHR ''.'' \<or> c = CHR ''_'' \<or> c = CHR ''-'') v
         then Inr v else Inl Key_Id_Invalid)"

definition validate_key :: "string \<Rightarrow> secret_error + unit" where
  "validate_key key = check (length key = 32) Key_Length_Invalid"

definition validate_secret_component :: "secret_error \<Rightarrow> string \<Rightarrow> secret_error + string" where
  "validate_secret_component e value =
     (let v = trim value
      in if v \<noteq> [] \<and> length v \<le> 512 \<and> \<not> has_control v \<and> CHR '':'' \<notin> set v
         then Inr (to_ascii_lowercase v) else Inl e)"

definition normalize_provider_type :: "string \<Rightarrow> secret_error + string" where
  "normalize_provider_type value =
     (let v = to_ascii_lowercase (trim value)
      in if v \<noteq> [] \<and> length v \<le> 128 \<and> list_all (\<lambda>c. is_alnum c \<or> c = CHR ''-'' \<or> c = CHR ''_'') v
         then Inr v else Inl Provider_Type_Invalid)"

section \<open>Credentials\<close>

record credentials =
  cr_username :: string
  cr_password :: string

abbreviation max_plaintext_bytes :: nat where
  "max_plaintext_bytes \<equiv> 65536"

definition credentials_new :: "string \<Rightarrow> string \<Rightarrow> secret_error + credentials" where
  "credentials_new username password =
     (if trim username = [] then Inl Username_Empty
      else if password = [] then Inl Password_Empty
      else if max_plaintext_bytes < length username + length password then Inl Credentials_Too_Large
      else Inr \<lparr> cr_username = username, cr_password = password \<rparr>)"

section \<open>The vault\<close>

record vault =
  vt_active_key_id :: string
  vt_keys :: "(string, string) hmap"

definition vault_new :: "string \<Rightarrow> string \<Rightarrow> secret_error + vault" where
  "vault_new active_key_id key =
     and_then (validate_key_id active_key_id) (\<lambda>active.
     and_then (validate_key key) (\<lambda>_.
       Inr \<lparr> vt_active_key_id = active, vt_keys = hm_insert active key [] \<rparr>))"

definition decode_key :: "crypto \<Rightarrow> string \<Rightarrow> secret_error + string" where
  "decode_key cy encoded = some_or Key_Not_Base64 (cy_base64 cy (trim encoded))"

definition vault_from_base64 :: "crypto \<Rightarrow> string \<Rightarrow> string \<Rightarrow> secret_error + vault" where
  "vault_from_base64 cy active_key_id encoded =
     and_then (decode_key cy encoded) (vault_new active_key_id)"

text \<open>The vault is only extended before it is shared.\<close>

definition with_decryption_key :: "string \<Rightarrow> string \<Rightarrow> vault \<Rightarrow> secret_error + vault" where
  "with_decryption_key key_id key v =
     and_then (validate_key_id key_id) (\<lambda>key_id.
     and_then (validate_key key) (\<lambda>_.
       Inr (v\<lparr> vt_keys := hm_insert key_id key (vt_keys v) \<rparr>)))"

fun extend_keyring :: "crypto \<Rightarrow> string \<Rightarrow> (string \<times> json) list \<Rightarrow> vault \<Rightarrow> secret_error + vault" where
  "extend_keyring cy active [] v = Inr v"
| "extend_keyring cy active ((key_id, value) # keys) v =
     (if key_id = active then extend_keyring cy active keys v
      else
        and_then (some_or Key_Not_String (as_str value)) (\<lambda>encoded.
        and_then (decode_key cy encoded) (\<lambda>key.
        and_then (with_decryption_key key_id key v) (extend_keyring cy active keys))))"

definition vault_from_keyring_json :: "crypto \<Rightarrow> string \<Rightarrow> secret_error + vault" where
  "vault_from_keyring_json cy payload =
     and_then (some_or Keyring_Json_Invalid (cy_read cy payload)) (\<lambda>document.
     and_then (some_or Active_Key_Id_Missing (Option.bind (jget ''active_key_id'' document) as_str)) (\<lambda>active.
     and_then (some_or Keys_Missing (Option.bind (jget ''keys'' document) as_object)) (\<lambda>keys.
     and_then (check (keys \<noteq> [] \<and> length keys \<le> 32) Keyring_Size_Invalid) (\<lambda>_.
     and_then (some_or Active_Key_Unavailable (Option.bind (map_of keys active) as_str)) (\<lambda>encoded.
     and_then (vault_from_base64 cy active encoded) (extend_keyring cy active keys))))))"

record secret_envelope =
  se_version :: nat
  se_key_id :: string
  se_nonce :: string
  se_ciphertext :: string

abbreviation envelope_version :: nat where
  "envelope_version \<equiv> 1"

definition provider_secret_aad :: "nat \<Rightarrow> string \<Rightarrow> string \<Rightarrow> string \<Rightarrow> string" where
  "provider_secret_aad version key_id secret_id provider_type =
     ''jellyrin:provider-secret:'' @ show_nat version @ '':'' @ key_id @ '':'' @ provider_type @ '':'' @ secret_id"

definition usable_key :: "vault \<Rightarrow> string \<Rightarrow> secret_error \<Rightarrow> secret_error + string" where
  "usable_key v key_id e =
     and_then (some_or e (map_of (vt_keys v) key_id)) (\<lambda>key.
     and_then (validate_key key) (\<lambda>_. Inr key))"

text \<open>The nonce is the random generator's answer.\<close>

definition seal ::
  "crypto \<Rightarrow> vault \<Rightarrow> string \<Rightarrow> string \<Rightarrow> credentials \<Rightarrow> string option \<Rightarrow> secret_error + secret_envelope" where
  "seal cy v secret_id provider_type creds random =
     and_then (validate_secret_component Secret_Id_Invalid secret_id) (\<lambda>secret_id.
     and_then (validate_secret_component Provider_Type_Invalid provider_type) (\<lambda>provider_type.
     and_then (usable_key v (vt_active_key_id v) Active_Key_Unavailable) (\<lambda>key.
     and_then (some_or Nonce_Failed random) (\<lambda>nonce.
     let aad = provider_secret_aad envelope_version (vt_active_key_id v) secret_id provider_type;
         plaintext = cy_write cy (credentials_json (cr_username creds) (cr_password creds))
     in and_then (check (length plaintext \<le> max_plaintext_bytes) Credentials_Too_Large) (\<lambda>_.
        and_then (some_or Encryption_Failed (cy_seal cy key nonce aad plaintext)) (\<lambda>ciphertext.
          Inr \<lparr> se_version = envelope_version, se_key_id = vt_active_key_id v, se_nonce = nonce,
                se_ciphertext = ciphertext \<rparr>))))))"

definition credentials_from_json :: "json \<Rightarrow> secret_error + credentials" where
  "credentials_from_json payload =
     and_then (some_or Username_Unavailable (Option.bind (jget ''username'' payload) as_str)) (\<lambda>username.
     and_then (some_or Password_Unavailable (Option.bind (jget ''password'' payload) as_str)) (\<lambda>password.
       credentials_new username password))"

definition open_envelope ::
  "crypto \<Rightarrow> vault \<Rightarrow> string \<Rightarrow> string \<Rightarrow> secret_envelope \<Rightarrow> secret_error + credentials" where
  "open_envelope cy v secret_id provider_type env =
     and_then (check (se_version env = envelope_version) Version_Unsupported) (\<lambda>_.
     and_then (validate_secret_component Secret_Id_Invalid secret_id) (\<lambda>secret_id.
     and_then (validate_secret_component Provider_Type_Invalid provider_type) (\<lambda>provider_type.
     and_then (usable_key v (se_key_id env) Key_Unavailable) (\<lambda>key.
     let aad = provider_secret_aad (se_version env) (se_key_id env) secret_id provider_type
     in and_then (some_or Authentication_Failed (cy_open cy key (se_nonce env) aad (se_ciphertext env))) (\<lambda>plaintext.
        and_then (some_or Credentials_Unreadable (cy_read cy plaintext)) credentials_from_json)))))"

section \<open>References\<close>

record secret_reference =
  sr_id :: string
  sr_provider_type :: string
  sr_revision :: int

abbreviation reference_field :: string where
  "reference_field \<equiv> ''JellyrinProviderSecretRef''"

definition reference_to_json :: "secret_reference \<Rightarrow> json" where
  "reference_to_json r =
     json_obj [(''Id'', JStr (sr_id r)), (''Provider'', JStr (sr_provider_type r)), (''Revision'', json_int (sr_revision r))]"

definition reference_from_json :: "json \<Rightarrow> secret_reference option" where
  "reference_from_json j =
     Option.bind (map_option trim (Option.bind (jget ''Id'' j) as_str)) (\<lambda>i.
     Option.bind (map_option trim (Option.bind (jget ''Provider'' j) as_str)) (\<lambda>p.
     Option.bind (Option.bind (jget ''Revision'' j) as_i64) (\<lambda>rev.
       if i = [] \<or> p = [] \<or> rev \<le> 0 then None
       else Some \<lparr> sr_id = i, sr_provider_type = p, sr_revision = rev \<rparr>)))"

definition reference_from_configuration :: "json \<Rightarrow> secret_reference option" where
  "reference_from_configuration configuration = Option.bind (jget reference_field configuration) reference_from_json"

definition has_reference_field :: "json \<Rightarrow> bool" where
  "has_reference_field configuration \<longleftrightarrow>
     is_some_and (list_ex (\<lambda>(k, _). eq_ignore_case k reference_field)) (as_object configuration)"

definition directly_references :: "secret_reference \<Rightarrow> string \<times> json \<Rightarrow> bool" where
  "directly_references r field \<longleftrightarrow>
     (case field of (k, v) \<Rightarrow>
        eq_ignore_case k reference_field \<and>
        is_some_and (\<lambda>i. trim i = sr_id r) (Option.bind (jget ''Id'' v) as_str) \<and>
        is_some_and (\<lambda>p. eq_ignore_case (trim p) (sr_provider_type r)) (Option.bind (jget ''Provider'' v) as_str))"

fun configuration_references :: "secret_reference \<Rightarrow> json \<Rightarrow> bool" where
  "configuration_references r (JArr vs) = list_ex (configuration_references r) vs"
| "configuration_references r (JObj m) =
     (list_ex (directly_references r) m \<or> list_ex (\<lambda>kv. configuration_references r (snd kv)) m)"
| "configuration_references r _ = False"

text \<open>The identities are inserted into a set; the list holds them in the order found.\<close>

fun collect_reference_identities :: "json \<Rightarrow> secret_error + (string \<times> string) list" where
  "collect_reference_identities (JArr vs) =
     and_then (traverse collect_reference_identities vs) (\<lambda>rs. Inr (concat rs))"
| "collect_reference_identities (JObj m) =
     and_then
       (traverse
          (\<lambda>kv. and_then
             (if eq_ignore_case (fst kv) reference_field
              then and_then (some_or Reference_Invalid (reference_from_json (snd kv))) (\<lambda>r.
                     Inr [(sr_id r, to_ascii_lowercase (sr_provider_type r))])
              else Inr [])
             (\<lambda>here. and_then (collect_reference_identities (snd kv)) (\<lambda>below. Inr (here @ below)))) m)
       (\<lambda>rs. Inr (concat rs))"
| "collect_reference_identities _ = Inr []"

section \<open>Configurations\<close>

definition credential_key :: "string \<Rightarrow> bool" where
  "credential_key k \<longleftrightarrow> eq_ignore_case k ''Username'' \<or> eq_ignore_case k ''UserName'' \<or> eq_ignore_case k ''Password''"

definition redaction_mark :: string where
  "redaction_mark = ''********''"

type_synonym submitted_credentials = "string option \<times> string option"

definition provider_credentials_from_configuration :: "json \<Rightarrow> submitted_credentials option" where
  "provider_credentials_from_configuration configuration =
     Option.bind (as_object configuration) (\<lambda>m.
       let username = find_map (\<lambda>(k, v).
             if eq_ignore_case k ''Username'' \<or> eq_ignore_case k ''UserName''
             then opt_filter (\<lambda>u. u \<noteq> [] \<and> u \<noteq> redaction_mark) (map_option trim (as_str v)) else None) m;
           password = find_map (\<lambda>(k, v).
             if eq_ignore_case k ''Password'' then opt_filter (\<lambda>p. p \<noteq> [] \<and> p \<noteq> redaction_mark) (as_str v) else None) m
       in if username = None \<and> password = None then None else Some (username, password))"

definition revision_text :: "secret_reference \<Rightarrow> string" where
  "revision_text r = ''provider-secret:'' @ sr_id r @ '':'' @ show_int (sr_revision r)"

definition redacted_provider_configuration :: "json \<Rightarrow> secret_reference \<Rightarrow> secret_error + json" where
  "redacted_provider_configuration configuration r =
     and_then (some_or Configuration_Not_Object (as_object configuration)) (\<lambda>m.
       let m = bt_retain (\<lambda>k _. \<not> credential_key k) m;
           m = bt_insert reference_field (reference_to_json r) m;
           m = bt_insert ''CredentialsConfigured'' (JBool True) m
       in Inr (JObj (bt_insert ''JellyrinConfigurationRevision'' (JStr (revision_text r)) m)))"

definition resolved_provider_configuration ::
  "json \<Rightarrow> secret_reference \<Rightarrow> credentials \<Rightarrow> secret_error + json" where
  "resolved_provider_configuration configuration r creds =
     and_then (redacted_provider_configuration configuration r) (\<lambda>redacted.
     and_then (some_or Configuration_Not_Object (as_object redacted)) (\<lambda>m.
       Inr (JObj (bt_insert ''Password'' (JStr (cr_password creds))
                   (bt_insert ''Username'' (JStr (cr_username creds)) m)))))"

definition set_provider_secret_reference :: "secret_reference \<Rightarrow> json \<Rightarrow> secret_error + json" where
  "set_provider_secret_reference r configuration =
     and_then (some_or Configuration_Not_Object (as_object configuration)) (\<lambda>m.
       Inr (JObj (bt_insert reference_field (reference_to_json r) m)))"

definition has_provider_secret_material :: "json \<Rightarrow> bool" where
  "has_provider_secret_material configuration \<longleftrightarrow>
     has_reference_field configuration \<or> provider_credentials_from_configuration configuration \<noteq> None"

definition has_provider_secret_input_field :: "json \<Rightarrow> bool" where
  "has_provider_secret_input_field configuration \<longleftrightarrow>
     is_some_and (list_ex (\<lambda>(k, _). eq_ignore_case k reference_field \<or> credential_key k)) (as_object configuration)"

section \<open>Namespaces\<close>

definition plugin_identity_key :: "crypto \<Rightarrow> string \<Rightarrow> secret_error + string" where
  "plugin_identity_key cy value =
     (let v = trim value
      in if v \<noteq> [] \<and> length v \<le> 512 \<and> \<not> has_control v then Inr (cy_lowercase cy v) else Inl Plugin_Id_Invalid)"

definition hex_bytes :: "string \<Rightarrow> string" where
  "hex_bytes s = concat (map (\<lambda>c. [hex_char (byte c div 16), hex_char (byte c mod 16)]) s)"

definition plugin_namespace :: "crypto \<Rightarrow> string \<Rightarrow> string" where
  "plugin_namespace cy identity =
     (if length identity \<le> 121 \<and> list_all (\<lambda>c. is_alnum c \<or> c = CHR ''-'' \<or> c = CHR ''_'') identity
      then ''plugin-'' @ identity
      else ''plugin-sha256-'' @ hex_bytes (cy_sha256 cy identity))"

definition configured_plugin_id :: "json \<Rightarrow> secret_error + string option" where
  "configured_plugin_id configuration =
     (case Option.bind (as_object configuration) (find (\<lambda>(k, _). eq_ignore_case k ''PluginId'')) of
        Some (_, JStr v) \<Rightarrow> Inr (Some (trim v))
      | Some _ \<Rightarrow> Inl Plugin_Id_Not_String
      | None \<Rightarrow> Inr None)"

definition derive_provider_secret_namespace :: "crypto \<Rightarrow> string \<Rightarrow> json \<Rightarrow> secret_error + string" where
  "derive_provider_secret_namespace cy provider_type configuration =
     (let p = trim provider_type;
          (kind, inline) = (case split_once (CHR '':'') p of Some (kind, i) \<Rightarrow> (kind, Some i) | None \<Rightarrow> (p, None))
      in and_then (check (p \<noteq> [] \<and> length p \<le> 512 \<and> \<not> has_control p) Provider_Type_Invalid) (\<lambda>_.
         if \<not> eq_ignore_case kind ''plugin'' then normalize_provider_type p
         else
           and_then (configured_plugin_id configuration) (\<lambda>configured.
           let inline = opt_filter (\<lambda>i. i \<noteq> []) (map_option trim inline)
           in and_then
                (case (inline, configured) of
                   (Some i, Some c) \<Rightarrow>
                     and_then (plugin_identity_key cy i) (\<lambda>a.
                     and_then (plugin_identity_key cy c) (\<lambda>b. check (a = b) Plugin_Ids_Differ))
                 | _ \<Rightarrow> Inr ()) (\<lambda>_.
              and_then (some_or Plugin_Id_Missing (opt_or inline configured)) (\<lambda>plugin_id.
              and_then (plugin_identity_key cy plugin_id) (\<lambda>identity.
                normalize_provider_type (plugin_namespace cy identity)))))))"

definition provider_secret_namespace :: "crypto \<Rightarrow> string \<Rightarrow> json \<Rightarrow> secret_error + string" where
  "provider_secret_namespace cy provider_type configuration =
     (let r = reference_from_configuration configuration
      in and_then (check (\<not> has_reference_field configuration \<or> r \<noteq> None) Reference_Invalid) (\<lambda>_.
         and_then (derive_provider_secret_namespace cy provider_type configuration) (\<lambda>namespace.
         and_then (check (\<not> is_some_and (\<lambda>r. \<not> eq_ignore_case (sr_provider_type r) namespace) r)
                     Reference_Of_Other_Provider) (\<lambda>_. Inr namespace))))"

text \<open>The configuration as submitted, the stored one, and the provider type.\<close>

definition inherit_provider_secret_reference_for_configuration ::
  "crypto \<Rightarrow> json \<Rightarrow> json option \<Rightarrow> string \<Rightarrow> secret_error + json" where
  "inherit_provider_secret_reference_for_configuration cy configuration existing provider_type =
     (if has_reference_field configuration then Inr configuration
      else case existing of
          None \<Rightarrow> Inr configuration
        | Some stored \<Rightarrow>
            (let r = reference_from_configuration stored
             in and_then (check (\<not> has_reference_field stored \<or> r \<noteq> None) Reference_Invalid) (\<lambda>_.
                case r of
                  None \<Rightarrow> Inr configuration
                | Some r \<Rightarrow>
                    and_then (set_provider_secret_reference r configuration) (\<lambda>identity_configuration.
                    and_then (derive_provider_secret_namespace cy provider_type identity_configuration) (\<lambda>expected.
                      if eq_ignore_case (sr_provider_type r) expected
                      then set_provider_secret_reference r configuration
                      else
                        and_then (check
                            (case provider_credentials_from_configuration configuration of
                               Some (Some _, Some _) \<Rightarrow> True | _ \<Rightarrow> False) Identity_Changed)
                          (\<lambda>_. Inr configuration))))))"

section \<open>Sealing and opening\<close>

definition vault_ok :: "vault \<Rightarrow> bool" where
  "vault_ok v \<longleftrightarrow> hm_ok (vt_keys v) \<and> map_of (vt_keys v) (vt_active_key_id v) \<noteq> None \<and>
     list_all (\<lambda>(_, key). length key = 32) (vt_keys v)"

lemma vault_new_ok: "vault_new active key = Inr v \<Longrightarrow> vault_ok v"
  by (auto simp: vault_new_def result_iffs validate_key_def vault_ok_def hm_insert_def hm_ok_def)

lemma hm_insert_keys: "list_all P m \<Longrightarrow> P (k, x) \<Longrightarrow> list_all P (hm_insert k x m)"
  using set_hm_insert_subset [of k x m] by (auto simp: list_all_iff)

lemma with_decryption_key_ok: "vault_ok v \<Longrightarrow> with_decryption_key key_id key v = Inr w \<Longrightarrow> vault_ok w"
  by (auto simp: with_decryption_key_def result_iffs validate_key_def vault_ok_def hm_insert_keys)

lemma extend_keyring_ok: "vault_ok v \<Longrightarrow> extend_keyring cy active keys v = Inr w \<Longrightarrow> vault_ok w"
proof (induction keys arbitrary: v)
  case (Cons entry keys)
  obtain key_id j where entry: "entry = (key_id, j)" by fastforce
  show ?case
  proof (cases "key_id = active")
    case True
    with Cons show ?thesis by (simp add: entry)
  next
    case False
    with Cons.prems(2) obtain key u where "with_decryption_key key_id key v = Inr u"
      "extend_keyring cy active keys u = Inr w"
      by (auto simp: entry result_iffs)
    then show ?thesis using Cons.IH Cons.prems(1) with_decryption_key_ok by blast
  qed
qed simp

lemma vault_from_keyring_json_ok: "vault_from_keyring_json cy payload = Inr v \<Longrightarrow> vault_ok v"
  by (auto simp: vault_from_keyring_json_def vault_from_base64_def result_iffs
      intro: extend_keyring_ok dest!: vault_new_ok)

lemma credentials_json_fields [simp]:
  "jget ''username'' (credentials_json u p) = Some (JStr u)" "jget ''password'' (credentials_json u p) = Some (JStr p)"
  by (simp_all add: credentials_json_def jget_json_obj)

definition credentials_valid :: "credentials \<Rightarrow> bool" where
  "credentials_valid c \<longleftrightarrow> credentials_new (cr_username c) (cr_password c) = Inr c"

lemma credentials_new_valid: "credentials_new u p = Inr c \<Longrightarrow> credentials_valid c"
  by (auto simp: credentials_new_def credentials_valid_def split: if_splits)

text \<open>
  Credentials sealed by the vault come back: an envelope opens, under the same secret id and
  provider type up to case and surrounding white space, to the credentials it was made from.
\<close>

theorem open_seal:
  assumes "crypto_ok cy" "credentials_valid creds"
    and "seal cy v secret_id provider_type creds random = Inr env"
    and "validate_secret_component Secret_Id_Invalid secret_id' = validate_secret_component Secret_Id_Invalid secret_id"
    and "validate_secret_component Provider_Type_Invalid provider_type' =
      validate_secret_component Provider_Type_Invalid provider_type"
  shows "open_envelope cy v secret_id' provider_type' env = Inr creds"
  using assms
  by (auto simp: seal_def open_envelope_def Let_def result_iffs crypto_ok_def credentials_from_json_def
      credentials_valid_def usable_key_def)

lemma ascii_lower_colon: "ascii_lower c = CHR '':'' \<longleftrightarrow> c = CHR '':''"
  by (auto simp: ascii_lower_def is_upper_def char_of_eq_iff byte_def)

lemma validate_secret_component_colon:
  "validate_secret_component e value = Inr v \<Longrightarrow> CHR '':'' \<notin> set v"
  by (auto simp: validate_secret_component_def Let_def to_ascii_lowercase_def split: if_splits)
    (metis ascii_lower_colon)

text \<open>A deterministic cipher and a writer for two strings, which satisfy what the code relies on.\<close>

definition plain_write :: "json \<Rightarrow> string" where
  "plain_write j =
     (case (jget ''username'' j, jget ''password'' j) of
        (Some (JStr u), Some (JStr p)) \<Rightarrow> replicate (length u) (CHR ''x'') @ CHR ''y'' # u @ p
      | _ \<Rightarrow> [])"

definition plain_read :: "string \<Rightarrow> json option" where
  "plain_read s =
     (let n = length (takeWhile (\<lambda>c. c = CHR ''x'') s); r = drop (Suc n) s
      in Some (credentials_json (take n r) (drop n r)))"

definition plain_crypto :: crypto where
  "plain_crypto = \<lparr> cy_seal = (\<lambda>_ _ _ p. Some (CHR ''#'' # p)), cy_open = (\<lambda>_ _ _ s. Some (tl s)),
     cy_write = plain_write, cy_read = plain_read, cy_base64 = Some, cy_sha256 = (\<lambda>s. s), cy_lowercase = to_ascii_lowercase \<rparr>"

lemma plain_crypto_ok [simp]: "crypto_ok plain_crypto"
  by (simp add: crypto_ok_def plain_crypto_def plain_write_def plain_read_def takeWhile_append2
      takeWhile_tail Let_def)

lemmas secret_eval = validate_secret_component_def normalize_provider_type_def Let_def trim_plain plain_char_def
  char_eval to_ascii_lowercase_def credentials_valid_def credentials_new_def plain_crypto_def plain_write_def
  credentials_json_def json_obj_def jget_def

lemma open_seal_witness:
  "open_envelope plain_crypto \<lparr> vt_active_key_id = ''k'', vt_keys = [(''k'', replicate 32 (CHR ''0''))] \<rparr> ''PS_1'' ''XTREAM''
     \<lparr> se_version = 1, se_key_id = ''k'', se_nonce = ''nonce'', se_ciphertext = ''#xyup'' \<rparr> =
   Inr \<lparr> cr_username = ''u'', cr_password = ''p'' \<rparr>"
proof (rule open_seal [where secret_id = "''ps_1''" and provider_type = "''xtream''" and random = "Some ''nonce''"])
  show "seal plain_crypto \<lparr> vt_active_key_id = ''k'', vt_keys = [(''k'', replicate 32 (CHR ''0''))] \<rparr> ''ps_1'' ''xtream''
      \<lparr> cr_username = ''u'', cr_password = ''p'' \<rparr> (Some ''nonce'') =
    Inr \<lparr> se_version = 1, se_key_id = ''k'', se_nonce = ''nonce'', se_ciphertext = ''#xyup'' \<rparr>"
    by (simp add: secret_eval seal_def usable_key_def validate_key_def)
  show "crypto_ok plain_crypto" by simp
qed (simp_all add: secret_eval)

section \<open>Associated data\<close>

text \<open>
  The data an envelope is authenticated with tells secrets apart: it determines the envelope's
  version, its key, its provider type and its secret id.
\<close>

theorem provider_secret_aad_injective:
  assumes "validate_key_id k = Inr k" "validate_key_id k' = Inr k'"
    and "validate_secret_component e i = Inr j" "validate_secret_component e i' = Inr j'"
    and "validate_secret_component f p = Inr q" "validate_secret_component f p' = Inr q'"
    and eq: "provider_secret_aad n k j q = provider_secret_aad n' k' j' q'"
  shows "n = n' \<and> k = k' \<and> q = q' \<and> j = j'"
proof -
  have key: "CHR '':'' \<notin> set x" if "validate_key_id x = Inr x" for x
    using that by (auto simp: validate_key_id_def Let_def list_all_iff char_eval split: if_splits)
  have "CHR '':'' \<notin> set (show_nat x)" for x
    using show_nat_digits [of x] by (auto simp: list_all_iff char_eval)
  then have n: "show_nat n = show_nat n'" and 1: "k @ CHR '':'' # q @ CHR '':'' # j = k' @ CHR '':'' # q' @ CHR '':'' # j'"
    using split_at_first_unique [of "show_nat n" "CHR '':''" "k @ CHR '':'' # q @ CHR '':'' # j" "show_nat n'"] eq
    by (auto simp: provider_secret_aad_def)
  have k: "k = k'" and 2: "q @ CHR '':'' # j = q' @ CHR '':'' # j'"
    using split_at_first_unique [OF 1] key assms(1,2) by auto
  have "q = q' \<and> j = j'"
    using split_at_first_unique [OF 2] assms(5,6) validate_secret_component_colon by blast
  moreover have "n = n'" using arg_cong [OF n, of digits_value] by (simp add: digits_value_show)
  ultimately show ?thesis using k by simp
qed

section \<open>References and redaction\<close>

definition reference_ok :: "secret_reference \<Rightarrow> bool" where
  "reference_ok r \<longleftrightarrow> sr_id r \<noteq> [] \<and> trim (sr_id r) = sr_id r \<and> sr_provider_type r \<noteq> [] \<and>
     trim (sr_provider_type r) = sr_provider_type r \<and> 0 < sr_revision r \<and> in_i64 (sr_revision r)"

lemma reference_from_json_ok: "reference_from_json j = Some r \<Longrightarrow> sr_revision r \<le> i64_max \<Longrightarrow> reference_ok r"
  by (auto simp: reference_from_json_def reference_ok_def bind_eq_Some_conv in_i64_def split: if_splits)

lemma reference_read_back: "reference_ok r \<Longrightarrow> reference_from_json (reference_to_json r) = Some r"
  by (simp add: reference_from_json_def reference_to_json_def reference_ok_def jget_json_obj)

lemmas credential_key_eval = credential_key_def eq_ignore_case_def to_ascii_lowercase_def char_eval

lemma marks_are_no_credential_keys [simp]:
  "\<not> credential_key ''JellyrinProviderSecretRef''" "\<not> credential_key ''CredentialsConfigured''"
  "\<not> credential_key ''JellyrinConfigurationRevision''"
  by (simp_all add: credential_key_eval)

definition redacted_fields :: "(string \<times> json) list \<Rightarrow> secret_reference \<Rightarrow> (string \<times> json) list" where
  "redacted_fields m r =
     bt_insert ''JellyrinConfigurationRevision'' (JStr (revision_text r))
       (bt_insert ''CredentialsConfigured'' (JBool True)
         (bt_insert reference_field (reference_to_json r) (bt_retain (\<lambda>k _. \<not> credential_key k) m)))"

lemma redacted_provider_configuration_object:
  "redacted_provider_configuration (JObj m) r = Inr (JObj (redacted_fields m r))"
  by (simp add: redacted_provider_configuration_def redacted_fields_def Let_def)

lemma redacted_fields_ok [simp]: "bt_ok m \<Longrightarrow> bt_ok (redacted_fields m r)"
  by (simp add: redacted_fields_def)

lemma redacted_fields_reference:
  "bt_ok m \<Longrightarrow> map_of (redacted_fields m r) reference_field = Some (reference_to_json r)"
  by (simp add: redacted_fields_def map_of_bt_insert)

lemma redacted_fields_clean: "list_all (\<lambda>kv. \<not> credential_key (fst kv)) (redacted_fields m r)"
  unfolding redacted_fields_def
  by (intro list_all_bt_insert) (simp_all add: bt_retain_def list_all_iff case_prod_beta)

lemma redacted_fields_other:
  "bt_ok m \<Longrightarrow> \<not> credential_key k \<Longrightarrow>
   k \<notin> {reference_field, ''CredentialsConfigured'', ''JellyrinConfigurationRevision''} \<Longrightarrow>
   map_of (redacted_fields m r) k = map_of m k"
  by (simp add: redacted_fields_def map_of_bt_insert map_of_bt_retain opt_filter_def split: option.split)

lemma redacted_reference:
  "bt_ok m \<Longrightarrow> reference_ok r \<Longrightarrow> reference_from_configuration (JObj (redacted_fields m r)) = Some r"
  by (simp add: reference_from_configuration_def jget_def reference_read_back redacted_fields_reference)

lemma find_map_eq_None: "find_map f xs = None \<longleftrightarrow> (\<forall>x \<in> set xs. f x = None)"
  by (induction xs) (auto split: option.splits)

lemma redacted_holds_no_credentials:
  "provider_credentials_from_configuration (JObj (redacted_fields m r)) = None"
  using redacted_fields_clean [of m r]
  by (fastforce simp: list_all_iff provider_credentials_from_configuration_def Let_def find_map_eq_None credential_key_def)

lemma directly_references_collected:
  "directly_references r kv \<Longrightarrow> reference_from_json (snd kv) = Some q \<Longrightarrow>
   sr_id q = sr_id r \<and> eq_ignore_case (sr_provider_type q) (sr_provider_type r)"
  by (auto simp: directly_references_def reference_from_json_def bind_eq_Some_conv split: if_splits prod.splits)

lemma collected_identities:
  "collect_reference_identities j = Inr ids \<Longrightarrow> configuration_references r j \<Longrightarrow>
   (sr_id r, to_ascii_lowercase (sr_provider_type r)) \<in> set ids"
proof (induction j arbitrary: ids)
  case (JArr vs)
  then obtain rs where rs: "list_all2 (\<lambda>v ids. collect_reference_identities v = Inr ids) vs rs" "ids = concat rs"
    by (auto simp: result_iffs traverse_Inr_iff)
  from JArr.prems(2) obtain i where i: "i < length vs" "configuration_references r (vs ! i)"
    by (auto simp: list_ex_iff in_set_conv_nth)
  with rs have "collect_reference_identities (vs ! i) = Inr (rs ! i)" "i < length rs"
    by (auto simp: list_all2_conv_all_nth)
  with JArr.IH [OF nth_mem [OF i(1)] this(1) i(2)] show ?case by (auto simp: rs(2))
next
  case (JObj m)
  let ?f = "\<lambda>kv. and_then
             (if eq_ignore_case (fst kv) reference_field
              then and_then (some_or Reference_Invalid (reference_from_json (snd kv))) (\<lambda>r.
                     Inr [(sr_id r, to_ascii_lowercase (sr_provider_type r))])
              else Inr [])
             (\<lambda>here. and_then (collect_reference_identities (snd kv)) (\<lambda>below. Inr (here @ below)))"
  from JObj.prems(1) obtain rs where rs: "list_all2 (\<lambda>kv ids. ?f kv = Inr ids) m rs" "ids = concat rs"
    by (auto simp: result_iffs traverse_Inr_iff)
  from JObj.prems(2) obtain i where i: "i < length m"
    "directly_references r (m ! i) \<or> configuration_references r (snd (m ! i))"
    by (auto simp: list_ex_iff in_set_conv_nth)
  then have f: "?f (m ! i) = Inr (rs ! i)" and l: "i < length rs" using rs by (auto simp: list_all2_conv_all_nth)
  have "(sr_id r, to_ascii_lowercase (sr_provider_type r)) \<in> set (rs ! i)"
    using i(2)
  proof
    assume d: "directly_references r (m ! i)"
    then have "eq_ignore_case (fst (m ! i)) reference_field" by (auto simp: directly_references_def split: prod.splits)
    with f obtain q where "reference_from_json (snd (m ! i)) = Some q"
      "(sr_id q, to_ascii_lowercase (sr_provider_type q)) \<in> set (rs ! i)"
      by (auto simp: result_iffs dest: sym [of _ "rs ! i"])
    with directly_references_collected [OF d] show ?thesis by (auto simp: eq_ignore_case_def)
  next
    assume c: "configuration_references r (snd (m ! i))"
    from f obtain here below where below: "collect_reference_identities (snd (m ! i)) = Inr below" and "rs ! i = here @ below"
      unfolding and_then_Inr_iff by (auto dest: sym [of _ "rs ! i"])
    then have "set below \<subseteq> set (rs ! i)" by simp
    moreover have "(sr_id r, to_ascii_lowercase (sr_provider_type r)) \<in> set below"
      by (rule JObj.IH [OF nth_mem [OF i(1)] _ below c]) (metis prod.collapse prod_set_simps(2) singletonI)
    ultimately show ?thesis by blast
  qed
  with l show ?case by (auto simp: rs(2))
qed auto

end
