(* ===== verification/Provider_Secret_Store.thy ===== *)
theory Provider_Secret_Store
  imports Provider_Secrets
begin

text \<open>
  The table of encrypted credentials and the rewriting of configurations around it
  (\<open>crates/jellyrin-db/src/postgres_provider_secrets.rs\<close>): reading and writing an envelope, protecting
  and resolving a configuration, the start-up back-fill, key rotation and the removal of orphans. A
  transaction is a function from the tables to a result with new tables: an error leaves none, which is
  the rollback. Row locks, advisory locks and the failures of the database connection are not modelled;
  \<open>lower\<close> of the database, the random generator and the cipher are parameters.
\<close>

section \<open>State\<close>

record secret_row =
  rw_provider_type :: string
  rw_version :: int
  rw_key_id :: string
  rw_nonce :: string
  rw_ciphertext :: string
  rw_revision :: int

text \<open>The \<open>n\<close>-th value drawn of the random generator is \<open>en_uuid n\<close> or \<open>en_nonce n\<close>.\<close>

record secret_env =
  en_crypto :: crypto
  en_vault :: "vault option"
  en_lower :: "string \<Rightarrow> string"
  en_uuid :: "nat \<Rightarrow> string"
  en_nonce :: "nat \<Rightarrow> string option"

record secret_table =
  st_rows :: "(string, secret_row) hmap"
  st_drawn :: nat

type_synonym 'a transaction = "secret_error + 'a \<times> secret_table"

section \<open>One envelope\<close>

definition selected_row :: "secret_env \<Rightarrow> secret_reference \<Rightarrow> secret_table \<Rightarrow> secret_row option" where
  "selected_row env r st =
     opt_filter (\<lambda>row. en_lower env (rw_provider_type row) = en_lower env (sr_provider_type r))
       (map_of (st_rows st) (sr_id r))"

definition provider_secret_in_connection ::
  "secret_env \<Rightarrow> secret_reference \<Rightarrow> secret_table \<Rightarrow> secret_error + secret_reference \<times> credentials" where
  "provider_secret_in_connection env r st =
     and_then (some_or Vault_Missing (en_vault env)) (\<lambda>v.
     and_then (some_or Envelope_Unavailable (selected_row env r st)) (\<lambda>row.
     and_then (check (length (rw_nonce row) = 12 \<and> 0 \<le> rw_version row) Envelope_Invalid) (\<lambda>_.
     and_then
       (open_envelope (en_crypto env) v (sr_id r) (rw_provider_type row)
          \<lparr> se_version = nat (rw_version row), se_key_id = rw_key_id row, se_nonce = rw_nonce row,
            se_ciphertext = rw_ciphertext row \<rparr>) (\<lambda>creds.
       Inr (\<lparr> sr_id = sr_id r, sr_provider_type = rw_provider_type row, sr_revision = rw_revision row \<rparr>, creds)))))"

definition row_of_envelope :: "string \<Rightarrow> secret_envelope \<Rightarrow> int \<Rightarrow> secret_row" where
  "row_of_envelope provider_type e revision =
     \<lparr> rw_provider_type = provider_type, rw_version = int (se_version e), rw_key_id = se_key_id e,
       rw_nonce = se_nonce e, rw_ciphertext = se_ciphertext e, rw_revision = revision \<rparr>"

text \<open>
  \<open>INSERT \<dots> ON CONFLICT DO UPDATE \<dots> WHERE\<close>: a new row has revision 1; an existing one keeps its provider
  type and is replaced only when the types agree up to case; the increment of a \<open>bigint\<close> is checked.
\<close>

definition insert_envelope ::
  "secret_env \<Rightarrow> string \<Rightarrow> string \<Rightarrow> secret_envelope \<Rightarrow> (string, secret_row) hmap \<Rightarrow>
     secret_error + int \<times> (string, secret_row) hmap" where
  "insert_envelope env provider_type secret_id e rows =
     (case map_of rows secret_id of
        None \<Rightarrow> Inr (1, hm_insert secret_id (row_of_envelope provider_type e 1) rows)
      | Some row \<Rightarrow>
          (if en_lower env (rw_provider_type row) \<noteq> en_lower env provider_type then Inl Id_Of_Other_Provider
           else if i64_max < rw_revision row + 1 then Inl Revision_Overflow
           else Inr (rw_revision row + 1,
             hm_insert secret_id (row_of_envelope (rw_provider_type row) e (rw_revision row + 1)) rows)))"

definition new_provider_secret_id :: "secret_env \<Rightarrow> secret_table \<Rightarrow> string \<times> secret_table" where
  "new_provider_secret_id env st = (''ps_'' @ en_uuid env (st_drawn st), st\<lparr> st_drawn := st_drawn st + 1 \<rparr>)"

definition upsert_provider_secret_in_connection ::
  "secret_env \<Rightarrow> string \<Rightarrow> string option \<Rightarrow> credentials \<Rightarrow> secret_table \<Rightarrow> secret_reference transaction" where
  "upsert_provider_secret_in_connection env provider_type secret_id creds st =
     and_then (some_or Vault_Missing (en_vault env)) (\<lambda>v.
       case (case secret_id of Some i \<Rightarrow> (i, st) | None \<Rightarrow> new_provider_secret_id env st) of
         (i, st) \<Rightarrow>
           and_then (seal (en_crypto env) v i provider_type creds (en_nonce env (st_drawn st))) (\<lambda>e.
           and_then (insert_envelope env provider_type i e (st_rows st)) (\<lambda>(revision, rows).
             Inr (\<lparr> sr_id = i, sr_provider_type = provider_type, sr_revision = revision \<rparr>,
               \<lparr> st_rows = rows, st_drawn = st_drawn st + 1 \<rparr>))))"

definition configuration_credentials_in_connection ::
  "secret_env \<Rightarrow> json \<Rightarrow> secret_table \<Rightarrow> secret_error + credentials option" where
  "configuration_credentials_in_connection env configuration st =
     (case reference_from_configuration configuration of
        Some r \<Rightarrow> and_then (provider_secret_in_connection env r st) (\<lambda>(_, creds). Inr (Some creds))
      | None \<Rightarrow>
          (case provider_credentials_from_configuration configuration of
             None \<Rightarrow> Inr None
           | Some (Some u, Some p) \<Rightarrow> and_then (credentials_new u p) (\<lambda>creds. Inr (Some creds))
           | Some _ \<Rightarrow> Inl Credentials_Incomplete))"

section \<open>Protecting a configuration\<close>

text \<open>The credentials a submission stands for: what it leaves out is taken from the stored ones.\<close>

definition merged_credentials ::
  "submitted_credentials \<Rightarrow> credentials option \<Rightarrow> secret_error + credentials" where
  "merged_credentials submitted previous =
     and_then (some_or Username_Required (opt_or (fst submitted) (map_option cr_username previous))) (\<lambda>u.
     and_then (some_or Password_Required (opt_or (snd submitted) (map_option cr_password previous)))
       (credentials_new u))"

definition store_submitted ::
  "secret_env \<Rightarrow> string \<Rightarrow> submitted_credentials \<Rightarrow> secret_reference option \<Rightarrow> secret_table \<Rightarrow>
     secret_reference transaction" where
  "store_submitted env provider_type submitted existing st =
     and_then
       (case existing of
          None \<Rightarrow> Inr None
        | Some r \<Rightarrow> and_then (provider_secret_in_connection env r st) (\<lambda>p. Inr (Some p))) (\<lambda>previous.
     and_then (merged_credentials submitted (map_option snd previous)) (\<lambda>creds.
       case previous of
         Some (current, old) \<Rightarrow>
           (if old = creds then Inr (current, st)
            else upsert_provider_secret_in_connection env provider_type (map_option sr_id existing) creds st)
       | None \<Rightarrow> upsert_provider_secret_in_connection env provider_type (map_option sr_id existing) creds st))"

definition current_reference ::
  "secret_env \<Rightarrow> string \<Rightarrow> submitted_credentials option \<Rightarrow> secret_reference option \<Rightarrow> secret_table \<Rightarrow>
     secret_reference option transaction" where
  "current_reference env provider_type submitted existing st =
     (case (submitted, existing) of
        (None, None) \<Rightarrow> Inr (None, st)
      | (None, Some r) \<Rightarrow>
          and_then (provider_secret_in_connection env r st) (\<lambda>(current, _). Inr (Some current, st))
      | (Some s, _) \<Rightarrow>
          and_then (store_submitted env provider_type s existing st) (\<lambda>(r, st). Inr (Some r, st)))"

definition protect_provider_configuration_in_connection ::
  "secret_env \<Rightarrow> string \<Rightarrow> json \<Rightarrow> secret_table \<Rightarrow> json transaction" where
  "protect_provider_configuration_in_connection env provider_type configuration st =
     (let existing = reference_from_configuration configuration;
          submitted = provider_credentials_from_configuration configuration
      in and_then (check (\<not> has_reference_field configuration \<or> existing \<noteq> None) Reference_Invalid) (\<lambda>_.
         if submitted = None \<and> \<not> has_reference_field configuration then Inr (configuration, st)
         else
           and_then (normalize_provider_type provider_type) (\<lambda>provider_type.
           and_then (current_reference env provider_type submitted existing st) (\<lambda>(r, st).
             case r of
               None \<Rightarrow> Inr (configuration, st)
             | Some r \<Rightarrow>
                 and_then (check (eq_ignore_case (sr_provider_type r) provider_type) Reference_Of_Other_Provider) (\<lambda>_.
                 and_then (redacted_provider_configuration configuration r) (\<lambda>c. Inr (c, st)))))))"

section \<open>Resolving a configuration\<close>

definition resolve_provider_configuration :: "secret_env \<Rightarrow> json \<Rightarrow> secret_table \<Rightarrow> secret_error + json" where
  "resolve_provider_configuration env configuration st =
     (case reference_from_configuration configuration of
        None \<Rightarrow> Inr configuration
      | Some r \<Rightarrow>
          and_then (provider_secret_in_connection env r st) (\<lambda>(current, creds).
            resolved_provider_configuration configuration current creds))"

definition provider_credentials_for_configuration ::
  "secret_env \<Rightarrow> json \<Rightarrow> secret_table \<Rightarrow> secret_error + (secret_reference \<times> credentials) option" where
  "provider_credentials_for_configuration env configuration st =
     (case reference_from_configuration configuration of
        None \<Rightarrow> Inr None
      | Some r \<Rightarrow> and_then (provider_secret_in_connection env r st) (\<lambda>x. Inr (Some x)))"

section \<open>Rotation\<close>

definition rotate_provider_secret :: "secret_env \<Rightarrow> secret_reference \<Rightarrow> secret_table \<Rightarrow> secret_reference transaction" where
  "rotate_provider_secret env r st =
     and_then (provider_secret_in_connection env r st) (\<lambda>(_, creds).
       upsert_provider_secret_in_connection env (sr_provider_type r) (Some (sr_id r)) creds st)"

definition validate_provider_secret_readiness :: "secret_env \<Rightarrow> secret_table \<Rightarrow> secret_error + unit" where
  "validate_provider_secret_readiness env st = check (\<not> (en_vault env = None \<and> st_rows st \<noteq> [])) Vault_Missing"

definition validate_provider_secret_write_readiness :: "secret_env \<Rightarrow> secret_error + unit" where
  "validate_provider_secret_write_readiness env = check (en_vault env \<noteq> None) Vault_Missing"

definition row_reference :: "string \<times> secret_row \<Rightarrow> secret_reference" where
  "row_reference row =
     \<lparr> sr_id = fst row, sr_provider_type = rw_provider_type (snd row), sr_revision = rw_revision (snd row) \<rparr>"

fun rotate_rows :: "secret_env \<Rightarrow> (string \<times> secret_row) list \<Rightarrow> nat \<Rightarrow> secret_table \<Rightarrow> nat transaction" where
  "rotate_rows env [] rotated st = Inr (rotated, st)"
| "rotate_rows env (row # rows) rotated st =
     (let r = row_reference row
      in and_then (provider_secret_in_connection env r st) (\<lambda>(_, creds).
         and_then (upsert_provider_secret_in_connection env (sr_provider_type r) (Some (sr_id r)) creds st) (\<lambda>(_, st).
           rotate_rows env rows (rotated + 1) st)))"

text \<open>The rows are visited in the order of the table's list, which is arbitrary.\<close>

definition rotate_provider_secrets_to_active_key :: "secret_env \<Rightarrow> secret_table \<Rightarrow> nat transaction" where
  "rotate_provider_secrets_to_active_key env st =
     (case en_vault env of
        None \<Rightarrow> and_then (validate_provider_secret_readiness env st) (\<lambda>_. Inr (0, st))
      | Some v \<Rightarrow> rotate_rows env (filter (\<lambda>row. rw_key_id (snd row) \<noteq> vt_active_key_id v) (st_rows st)) 0 st)"

section \<open>Orphans\<close>

definition delete_envelope :: "secret_env \<Rightarrow> string \<Rightarrow> string \<Rightarrow> (string, secret_row) hmap \<Rightarrow> nat \<times> (string, secret_row) hmap" where
  "delete_envelope env secret_id provider_type rows =
     (let keep = (\<lambda>(k, row). \<not> (k = secret_id \<and> en_lower env (rw_provider_type row) = en_lower env provider_type))
      in (length rows - length (filter keep rows), filter keep rows))"

definition sweep_envelope ::
  "secret_env \<Rightarrow> (string \<times> string) list \<Rightarrow> string \<times> secret_row \<Rightarrow> nat \<times> (string, secret_row) hmap \<Rightarrow>
     nat \<times> (string, secret_row) hmap" where
  "sweep_envelope env references envelope acc =
     (case (envelope, acc) of
        ((secret_id, row), (deleted, rows)) \<Rightarrow>
          (if (secret_id, to_ascii_lowercase (rw_provider_type row)) \<in> set references then (deleted, rows)
           else case delete_envelope env secret_id (rw_provider_type row) rows of (n, rows) \<Rightarrow> (deleted + n, rows)))"

text \<open>The configurations are those of the three tables that may hold references.\<close>

definition reconcile_orphaned_provider_secrets ::
  "secret_env \<Rightarrow> json list \<Rightarrow> secret_table \<Rightarrow> nat transaction" where
  "reconcile_orphaned_provider_secrets env configurations st =
     and_then (traverse collect_reference_identities configurations) (\<lambda>references.
       case fold (sweep_envelope env (concat references)) (st_rows st) (0, st_rows st) of
         (deleted, rows) \<Rightarrow> Inr (deleted, st\<lparr> st_rows := rows \<rparr>))"

section \<open>A row and its credentials\<close>

definition row_credentials :: "secret_env \<Rightarrow> string \<Rightarrow> secret_row \<Rightarrow> credentials option" where
  "row_credentials env i row =
     Option.bind (en_vault env) (\<lambda>v.
       if length (rw_nonce row) = 12 \<and> 0 \<le> rw_version row
       then result_ok (open_envelope (en_crypto env) v i (rw_provider_type row)
          \<lparr> se_version = nat (rw_version row), se_key_id = rw_key_id row, se_nonce = rw_nonce row,
            se_ciphertext = rw_ciphertext row \<rparr>)
       else None)"

text \<open>
  What the code relies on: the cipher and the JSON library; \<open>lower\<close> of the database identifies the
  strings that agree up to ASCII case (its behaviour in the C locale); nonces of 12 bytes;
  identifiers written in hexadecimal.
\<close>

definition env_ok :: "secret_env \<Rightarrow> bool" where
  "env_ok env \<longleftrightarrow> crypto_ok (en_crypto env) \<and>
     (\<forall>a b. en_lower env a = en_lower env b \<longleftrightarrow> eq_ignore_case a b) \<and>
     (\<forall>n. list_all is_alnum (en_uuid env n)) \<and> (\<forall>n nonce. en_nonce env n = Some nonce \<longrightarrow> length nonce = 12)"

definition row_ok :: "string \<times> secret_row \<Rightarrow> bool" where
  "row_ok row \<longleftrightarrow> normalize_provider_type (rw_provider_type (snd row)) = Inr (rw_provider_type (snd row)) \<and>
     reference_ok (row_reference row)"

definition table_ok :: "secret_env \<Rightarrow> secret_table \<Rightarrow> bool" where
  "table_ok env st \<longleftrightarrow> env_ok env \<and> hm_ok (st_rows st) \<and> list_all row_ok (st_rows st)"

lemma open_envelope_valid: "open_envelope cy v i p e = Inr c \<Longrightarrow> credentials_valid c"
  by (auto simp: open_envelope_def Let_def result_iffs credentials_from_json_def intro: credentials_new_valid)

lemma row_credentials_valid: "row_credentials env i row = Some c \<Longrightarrow> credentials_valid c"
  by (auto simp: row_credentials_def bind_eq_Some_conv result_iffs intro: open_envelope_valid split: if_splits)

lemma read_iff:
  "provider_secret_in_connection env r st = Inr (r', c) \<longleftrightarrow>
     (\<exists>row. selected_row env r st = Some row \<and> row_credentials env (sr_id r) row = Some c \<and>
        r' = row_reference (sr_id r, row))"
  by (auto simp: provider_secret_in_connection_def row_credentials_def bind_eq_Some_conv result_iffs
      row_reference_def split: if_splits)

lemma selected_row_iff:
  "selected_row env r st = Some row \<longleftrightarrow> map_of (st_rows st) (sr_id r) = Some row \<and>
     en_lower env (rw_provider_type row) = en_lower env (sr_provider_type r)"
  by (auto simp: selected_row_def opt_filter_def split: option.splits if_splits)

lemma table_row_ok: "table_ok env st \<Longrightarrow> map_of (st_rows st) i = Some row \<Longrightarrow> row_ok (i, row)"
  by (auto simp: table_ok_def list_all_iff dest!: map_of_SomeD)

lemma no_control: "list_all (\<lambda>c. 32 \<le> byte c \<and> byte c < 127) s \<Longrightarrow> \<not> has_control s"
  by (induction s) (auto split: list.splits)

lemma normalized_text:
  assumes "normalize_provider_type p = Inr t"
  shows "t \<noteq> []" "trim t = t" "to_ascii_lowercase t = t" "normalize_provider_type t = Inr t"
proof -
  have all: "list_all (\<lambda>c. is_alnum c \<or> c = CHR ''-'' \<or> c = CHR ''_'') t"
    and t: "t = to_ascii_lowercase (trim p)" "t \<noteq> []" "length t \<le> 128"
    using assms by (auto simp: normalize_provider_type_def Let_def split: if_splits)
  have "list_all plain_char t"
    using all by (auto simp: list_all_iff plain_char_def char_eval)
  then show trim: "trim t = t" by (intro trim_plain) (auto simp: list_all_iff)
  show "t \<noteq> []" "to_ascii_lowercase t = t" using t by simp_all
  with trim all t(3) show "normalize_provider_type t = Inr t" by (simp add: normalize_provider_type_def)
qed

lemma normalized_component:
  assumes t: "normalize_provider_type t = Inr t" and p: "to_ascii_lowercase p = t"
  shows "validate_secret_component e p = Inr t"
proof -
  have plain: "plain_char c \<and> byte c < 127 \<and> c \<noteq> CHR '':''"
    if "is_alnum (ascii_lower c) \<or> ascii_lower c = CHR ''-'' \<or> ascii_lower c = CHR ''_''" for c
  proof (cases "is_upper c")
    case True
    then show ?thesis by (auto simp: plain_char_def is_upper_def byte_def)
  next
    case False
    with that show ?thesis by (auto simp: ascii_lower_def plain_char_def is_alnum_def is_digit_def is_upper_def is_lower_def byte_def)
  qed
  have t': "list_all (\<lambda>c. is_alnum c \<or> c = CHR ''-'' \<or> c = CHR ''_'') t" "t \<noteq> []" "length t \<le> 128"
    using t normalized_text [OF t] by (auto simp: normalize_provider_type_def Let_def split: if_splits)
  then have ne: "p \<noteq> []" "length p \<le> 128" using p by (auto simp: to_ascii_lowercase_def)
  have "\<forall>c \<in> set p. is_alnum (ascii_lower c) \<or> ascii_lower c = CHR ''-'' \<or> ascii_lower c = CHR ''_''"
    using t'(1) p by (auto simp: to_ascii_lowercase_def list_all_iff)
  then have all: "list_all (\<lambda>c. plain_char c \<and> byte c < 127 \<and> c \<noteq> CHR '':'') p"
    using plain by (simp add: list_all_iff)
  with ne have "trim p = p" by (intro trim_plain) (auto simp: list_all_iff)
  moreover have "\<not> has_control p"
    by (rule no_control, rule list.pred_mono_strong [OF all]) (simp add: plain_char_def)
  moreover have "CHR '':'' \<notin> set p" using all by (auto simp: list_all_iff)
  ultimately show ?thesis using ne p by (simp add: validate_secret_component_def Let_def)
qed

text \<open>What writing an envelope does to the table.\<close>

lemma upsert_row:
  assumes up: "upsert_provider_secret_in_connection env p i creds st = Inr (r, st')"
    and ok: "table_ok env st" and valid: "credentials_valid creds"
  obtains row where "st_rows st' = hm_insert (sr_id r) row (st_rows st)" "sr_provider_type r = p"
    "row_credentials env (sr_id r) row = Some creds" "rw_revision row = sr_revision r"
    "\<And>v. en_vault env = Some v \<Longrightarrow> rw_key_id row = vt_active_key_id v"
    "sr_id r = (case i of Some i \<Rightarrow> i | None \<Rightarrow> ''ps_'' @ en_uuid env (st_drawn st))"
    "case map_of (st_rows st) (sr_id r) of
       None \<Rightarrow> rw_provider_type row = p \<and> rw_revision row = 1
     | Some old \<Rightarrow> rw_provider_type row = rw_provider_type old \<and> eq_ignore_case (rw_provider_type old) p \<and>
         rw_revision row = rw_revision old + 1 \<and> rw_revision row \<le> i64_max"
proof -
  obtain j st0 where j: "(case i of Some i \<Rightarrow> (i, st) | None \<Rightarrow> new_provider_secret_id env st) = (j, st0)"
    by fastforce
  from up obtain v e rev rows where v: "en_vault env = Some v"
    and e: "seal (en_crypto env) v j p creds (en_nonce env (st_drawn st0)) = Inr e"
    and ins: "insert_envelope env p j e (st_rows st0) = Inr (rev, rows)"
    and r: "r = \<lparr> sr_id = j, sr_provider_type = p, sr_revision = rev \<rparr>" and st': "st_rows st' = rows"
    by (auto simp: upsert_provider_secret_in_connection_def result_iffs j)
  have rows0: "st_rows st0 = st_rows st" and id: "j = (case i of Some i \<Rightarrow> i | None \<Rightarrow> ''ps_'' @ en_uuid env (st_drawn st))"
    using j by (auto simp: new_provider_secret_id_def split: option.splits)
  define old where "old = map_of (st_rows st) j"
  define t where "t = (case old of Some old \<Rightarrow> rw_provider_type old | None \<Rightarrow> p)"
  have row: "rows = hm_insert j (row_of_envelope t e rev) (st_rows st)"
    and rev: "case old of None \<Rightarrow> rev = 1 | Some old \<Rightarrow> eq_ignore_case (rw_provider_type old) p \<and> rev = rw_revision old + 1 \<and> rev \<le> i64_max"
    using ins ok by (auto simp: insert_envelope_def rows0 old_def t_def table_ok_def env_ok_def split: option.splits if_splits)
  have "validate_secret_component Provider_Type_Invalid t = validate_secret_component Provider_Type_Invalid p"
  proof (cases old)
    case (Some o')
    with ok have "normalize_provider_type (rw_provider_type o') = Inr (rw_provider_type o')"
      by (auto simp: old_def row_ok_def dest!: table_row_ok)
    note n = this normalized_text [OF this]
    with rev Some have "to_ascii_lowercase p = t" by (simp add: eq_ignore_case_def t_def)
    with n Some show ?thesis by (simp add: normalized_component t_def)
  qed (simp add: t_def)
  with e valid ok have op: "open_envelope (en_crypto env) v j t e = Inr creds"
    by (intro open_seal [of _ _ _ j p]) (auto simp: table_ok_def env_ok_def)
  have facts: "length (se_nonce e) = 12" "se_key_id e = vt_active_key_id v"
    using e ok by (auto simp: seal_def Let_def result_iffs table_ok_def env_ok_def)
  show thesis
  proof (rule that [of "row_of_envelope t e rev"])
    show "row_credentials env (sr_id r) (row_of_envelope t e rev) = Some creds"
      using op facts v by (cases e) (simp add: row_credentials_def row_of_envelope_def r result_ok_def)
  qed (use row rev id facts v in \<open>auto simp: r st' row_of_envelope_def t_def old_def split: option.splits\<close>)
qed

section \<open>Rewriting an envelope with its own credentials\<close>

text \<open>
  What rotation asks of a store: writing back what a reference reads keeps the store well formed, and
  every reference reads the same credentials as before.
\<close>

locale envelope_store =
  fixes get :: "'r \<Rightarrow> 's \<Rightarrow> 'e + 'r \<times> 'c"
    and put :: "'r \<Rightarrow> 'c \<Rightarrow> 's \<Rightarrow> 'e + 'r \<times> 's"
    and ok :: "'s \<Rightarrow> bool"
  assumes rewrite_ok: "ok s \<Longrightarrow> get r s = Inr (r', c) \<Longrightarrow> put r c s = Inr (w, s') \<Longrightarrow> ok s'"
    and rewrite_reads: "ok s \<Longrightarrow> get r s = Inr (r', c) \<Longrightarrow> put r c s = Inr (w, s') \<Longrightarrow>
      (\<exists>x. get q s' = Inr (x, d)) \<longleftrightarrow> (\<exists>x. get q s = Inr (x, d))"
begin

definition holds :: "'s \<Rightarrow> 'r \<Rightarrow> 'c \<Rightarrow> bool" where
  "holds s q d \<longleftrightarrow> (\<exists>x. get q s = Inr (x, d))"

inductive rewritten :: "'s \<Rightarrow> 's \<Rightarrow> bool" where
  unchanged: "rewritten s s"
| rewrite: "get r s = Inr (r', c) \<Longrightarrow> put r c s = Inr (w, s1) \<Longrightarrow> rewritten s1 s2 \<Longrightarrow> rewritten s s2"

lemma rewritten_invisible: "rewritten s s' \<Longrightarrow> ok s \<Longrightarrow> ok s' \<and> holds s' = holds s"
proof (induction rule: rewritten.induct)
  case (rewrite r s r' c w s1 s2)
  have "holds s1 = holds s"
    using rewrite_reads [OF rewrite.prems rewrite.hyps(1,2)] by (simp add: holds_def fun_eq_iff)
  with rewrite.IH rewrite_ok [OF rewrite.prems rewrite.hyps(1,2)] show ?case by simp
qed simp

end

lemma read_iff_eq:
  "(\<exists>x. provider_secret_in_connection env q st = Inr (x, d)) \<longleftrightarrow>
     (\<exists>row. map_of (st_rows st) (sr_id q) = Some row \<and>
        en_lower env (rw_provider_type row) = en_lower env (sr_provider_type q) \<and>
        row_credentials env (sr_id q) row = Some d)"
  by (auto simp: read_iff selected_row_iff)

lemma table_ok_write:
  assumes "table_ok env st" "st_rows st' = hm_insert i row (st_rows st)" "row_ok (i, row)"
  shows "table_ok env st'"
  using assms by (auto simp: table_ok_def hm_insert_keys)

lemma rewrite_row:
  assumes ok: "table_ok env st" and r: "provider_secret_in_connection env r st = Inr (r', c)"
    and w: "upsert_provider_secret_in_connection env (sr_provider_type r) (Some (sr_id r)) c st = Inr (w, st')"
  obtains old row where "map_of (st_rows st) (sr_id r) = Some old" "st_rows st' = hm_insert (sr_id r) row (st_rows st)"
    "row_credentials env (sr_id r) old = Some c" "row_credentials env (sr_id r) row = Some c"
    "rw_provider_type row = rw_provider_type old" "rw_revision row = rw_revision old + 1" "row_ok (sr_id r, row)"
    "\<And>v. en_vault env = Some v \<Longrightarrow> rw_key_id row = vt_active_key_id v"
proof -
  from r obtain old where old: "map_of (st_rows st) (sr_id r) = Some old" "row_credentials env (sr_id r) old = Some c"
    by (auto simp: read_iff selected_row_iff)
  show thesis
  proof (rule upsert_row [OF w ok row_credentials_valid [OF old(2)]], goal_cases)
    case (1 row)
    then have id: "sr_id w = sr_id r" by simp
    with 1(7) old(1) have kept: "rw_provider_type row = rw_provider_type old"
      "rw_revision row = rw_revision old + 1" "rw_revision row \<le> i64_max" by simp_all
    then have "row_ok (sr_id r, row)"
      using table_row_ok [OF ok old(1)] by (auto simp: row_ok_def reference_ok_def row_reference_def in_i64_def)
    with 1 kept old id show ?thesis by (intro that [of old row]) simp_all
  qed
qed

interpretation envelopes: envelope_store "provider_secret_in_connection env"
    "\<lambda>r. upsert_provider_secret_in_connection env (sr_provider_type r) (Some (sr_id r))" "table_ok env" for env
proof
  fix s r r' c w s' q d
  assume a: "table_ok env s" "provider_secret_in_connection env r s = Inr (r', c)"
    "upsert_provider_secret_in_connection env (sr_provider_type r) (Some (sr_id r)) c s = Inr (w, s')"
  from rewrite_row [OF a] obtain old row where row: "map_of (st_rows s) (sr_id r) = Some old"
    "st_rows s' = hm_insert (sr_id r) row (st_rows s)" "row_credentials env (sr_id r) old = Some c"
    "row_credentials env (sr_id r) row = Some c" "rw_provider_type row = rw_provider_type old" "row_ok (sr_id r, row)"
    by (rule rewrite_row [OF a]) (rule that; assumption)
  show "table_ok env s'" by (rule table_ok_write [OF a(1) row(2,6)])
  show "(\<exists>x. provider_secret_in_connection env q s' = Inr (x, d)) \<longleftrightarrow>
      (\<exists>x. provider_secret_in_connection env q s = Inr (x, d))"
    unfolding read_iff_eq row(2) map_of_hm_insert using row(1,3-5) by (cases "sr_id q = sr_id r") simp_all
qed

section \<open>Rotation\<close>

lemma rotate_rows_rewritten:
  "rotate_rows env rows n st = Inr (m, st') \<Longrightarrow> envelopes.rewritten env st st'"
  by (induction rows arbitrary: n st)
    (auto simp: Let_def result_iffs intro: envelopes.unchanged envelopes.rewrite)

lemma rotate_rows_keys:
  assumes "rotate_rows env rows n st = Inr (m, st')" "table_ok env st" "en_vault env = Some v"
  shows "m = n + length rows \<and> fst ` set (st_rows st') = fst ` set (st_rows st) \<and>
    (\<forall>i row. map_of (st_rows st') i = Some row \<longrightarrow>
       rw_key_id row = vt_active_key_id v \<or> i \<notin> fst ` set rows \<and> map_of (st_rows st) i = Some row)"
  using assms
proof (induction rows arbitrary: n st)
  case (Cons e rows)
  let ?r = "row_reference e"
  from Cons.prems(1) obtain q c w st1 where r: "provider_secret_in_connection env ?r st = Inr (q, c)"
    and w: "upsert_provider_secret_in_connection env (sr_provider_type ?r) (Some (sr_id ?r)) c st = Inr (w, st1)"
    and rest: "rotate_rows env rows (n + 1) st1 = Inr (m, st')"
    by (auto simp: Let_def result_iffs)
  have id: "sr_id ?r = fst e" by (simp add: row_reference_def)
  from rewrite_row [OF Cons.prems(2) r w] Cons.prems(3) obtain old row where row:
    "map_of (st_rows st) (fst e) = Some old" "st_rows st1 = hm_insert (fst e) row (st_rows st)"
    "rw_key_id row = vt_active_key_id v" unfolding id by metis
  have ok1: "table_ok env st1" by (rule envelopes.rewrite_ok [OF Cons.prems(2) r w])
  have dom: "fst ` set (st_rows st1) = fst ` set (st_rows st)"
    using row(1) by (auto simp: row(2) simp flip: dom_map_of_conv_image_fst)
  note ih = Cons.IH [OF rest ok1 Cons.prems(3)]
  have "rw_key_id x = vt_active_key_id v \<or> i \<notin> fst ` set (e # rows) \<and> map_of (st_rows st) i = Some x"
    if x: "map_of (st_rows st') i = Some x" for i x
  proof -
    from ih x have "rw_key_id x = vt_active_key_id v \<or> i \<notin> fst ` set rows \<and> map_of (st_rows st1) i = Some x" by blast
    then show ?thesis using row by (cases "i = fst e") auto
  qed
  with ih dom show ?case by simp
qed simp

lemma rotation_keys:
  assumes "table_ok env st" "en_vault env = Some v" "rotate_provider_secrets_to_active_key env st = Inr (n, st')"
  shows "list_all (\<lambda>row. rw_key_id (snd row) = vt_active_key_id v) (st_rows st')"
    and "fst ` set (st_rows st') = fst ` set (st_rows st)"
    and "n = length (filter (\<lambda>row. rw_key_id (snd row) \<noteq> vt_active_key_id v) (st_rows st))"
proof -
  let ?old = "filter (\<lambda>row. rw_key_id (snd row) \<noteq> vt_active_key_id v) (st_rows st)"
  have rot: "rotate_rows env ?old 0 st = Inr (n, st')"
    using assms(2,3) by (simp add: rotate_provider_secrets_to_active_key_def)
  note keys = rotate_rows_keys [OF rot assms(1,2)]
  then show "n = length ?old" "fst ` set (st_rows st') = fst ` set (st_rows st)" by simp_all
  have "hm_ok (st_rows st')"
    using envelopes.rewritten_invisible [OF rotate_rows_rewritten [OF rot] assms(1)] by (simp add: table_ok_def)
  then show "list_all (\<lambda>row. rw_key_id (snd row) = vt_active_key_id v) (st_rows st')"
    using keys by (force simp: list_all_iff hm_get_mem image_iff dest: map_of_SomeD)
qed

text \<open>
  C6. Key rotation is invisible to the configurations: when it succeeds, every reference reads the
  credentials it read before, the envelopes are the same, all of them are sealed with the active key,
  and the count is of those that were not.
\<close>

theorem rotation_refines_identity:
  assumes ok: "table_ok env st" and v: "en_vault env = Some v"
    and rot: "rotate_provider_secrets_to_active_key env st = Inr (n, st')"
  shows "table_ok env st' \<and>
    (\<forall>r c. (\<exists>x. provider_secret_in_connection env r st' = Inr (x, c)) \<longleftrightarrow>
           (\<exists>x. provider_secret_in_connection env r st = Inr (x, c))) \<and>
    fst ` set (st_rows st') = fst ` set (st_rows st) \<and>
    list_all (\<lambda>row. rw_key_id (snd row) = vt_active_key_id v) (st_rows st') \<and>
    n = length (filter (\<lambda>row. rw_key_id (snd row) \<noteq> vt_active_key_id v) (st_rows st))"
proof -
  have "envelopes.rewritten env st st'"
    using v rot by (auto simp: rotate_provider_secrets_to_active_key_def intro: rotate_rows_rewritten)
  from envelopes.rewritten_invisible [OF this ok] show ?thesis
    using rotation_keys [OF ok v rot] by (auto simp: envelopes.holds_def fun_eq_iff)
qed

section \<open>Protecting and resolving\<close>

lemma new_provider_secret_id_trimmed: "list_all is_alnum u \<Longrightarrow> trim (''ps_'' @ u) = ''ps_'' @ u"
  by (rule trim_plain) (auto simp: list_all_iff plain_char_def char_eval dest!: last_in_set [of u])

lemma upsert_reads:
  assumes up: "upsert_provider_secret_in_connection env p i creds st = Inr (r, st')"
    and ok: "table_ok env st" and valid: "credentials_valid creds" and p: "normalize_provider_type p = Inr p"
    and i: "\<And>j. i = Some j \<Longrightarrow> map_of (st_rows st) j \<noteq> None"
  shows "table_ok env st' \<and> provider_secret_in_connection env r st' = Inr (r, creds) \<and> reference_ok r \<and>
    eq_ignore_case (sr_provider_type r) p \<and> (\<forall>j. j \<noteq> sr_id r \<longrightarrow> map_of (st_rows st') j = map_of (st_rows st) j)"
proof (rule upsert_row [OF up ok valid], goal_cases)
  case (1 row)
  have type: "rw_provider_type row = p \<and> row_ok (sr_id r, row)"
  proof (cases "map_of (st_rows st) (sr_id r)")
    case None
    with 1 i have "sr_id r = ''ps_'' @ en_uuid env (st_drawn st)" by (auto split: option.splits)
    with ok have "trim (sr_id r) = sr_id r" "sr_id r \<noteq> []"
      using new_provider_secret_id_trimmed [of "en_uuid env (st_drawn st)"] by (simp_all add: table_ok_def env_ok_def)
    with None 1(7) p normalized_text [OF p] show ?thesis
      by (simp add: row_ok_def reference_ok_def row_reference_def in_i64_def)
  next
    case (Some old)
    have old: "row_ok (sr_id r, old)" by (rule table_row_ok [OF ok Some])
    then have "to_ascii_lowercase (rw_provider_type old) = rw_provider_type old"
      by (auto simp: row_ok_def dest: normalized_text)
    with Some 1(7) normalized_text(3) [OF p] have "rw_provider_type row = p" by (simp add: eq_ignore_case_def)
    with Some 1(7) old show ?thesis
      by (auto simp: row_ok_def reference_ok_def row_reference_def in_i64_def)
  qed
  have r: "row_reference (sr_id r, row) = r" using type 1 by (simp add: row_reference_def)
  have "table_ok env st'" by (rule table_ok_write [OF ok 1(1)]) (use type in simp)
  moreover have "provider_secret_in_connection env r st' = Inr (r, creds)"
    using 1 type r by (simp add: read_iff selected_row_iff)
  moreover have "reference_ok r" using type r by (simp add: row_ok_def)
  ultimately show ?case using 1 type by simp
qed

lemma read_current:
  assumes "provider_secret_in_connection env q st = Inr (r, c)" "table_ok env st"
  shows "provider_secret_in_connection env r st = Inr (r, c)" "reference_ok r" "sr_id r = sr_id q" "credentials_valid c"
    "map_of (st_rows st) (sr_id q) \<noteq> None"
proof -
  from assms(1) obtain row where row: "map_of (st_rows st) (sr_id q) = Some row"
    "row_credentials env (sr_id q) row = Some c" "r = row_reference (sr_id q, row)"
    by (auto simp: read_iff selected_row_iff)
  then show "provider_secret_in_connection env r st = Inr (r, c)" "sr_id r = sr_id q" "credentials_valid c"
    "map_of (st_rows st) (sr_id q) \<noteq> None"
    by (auto simp: read_iff selected_row_iff row_reference_def intro: row_credentials_valid)
  show "reference_ok r" using table_row_ok [OF assms(2) row(1)] row(3) by (simp add: row_ok_def)
qed

definition submission_kept :: "submitted_credentials option \<Rightarrow> credentials \<Rightarrow> bool" where
  "submission_kept submitted c \<longleftrightarrow>
     (case submitted of None \<Rightarrow> True
      | Some (u, p) \<Rightarrow> unwrap_or (cr_username c) u = cr_username c \<and> unwrap_or (cr_password c) p = cr_password c)"

lemma merged_credentials_kept:
  "merged_credentials s previous = Inr c \<Longrightarrow> credentials_valid c \<and> submission_kept (Some s) c"
  by (cases s) (auto simp: merged_credentials_def result_iffs submission_kept_def opt_or_def unwrap_or_def
      credentials_new_def credentials_valid_def split: option.splits if_splits)

lemma store_submitted_reads:
  assumes "store_submitted env p s existing st = Inr (r, st')" "table_ok env st" "normalize_provider_type p = Inr p"
  shows "\<exists>c. table_ok env st' \<and> provider_secret_in_connection env r st' = Inr (r, c) \<and> reference_ok r \<and>
    submission_kept (Some s) c \<and> (\<forall>j. j \<noteq> sr_id r \<longrightarrow> map_of (st_rows st') j = map_of (st_rows st) j)"
proof -
  from assms(1) obtain previous c where c: "merged_credentials s (map_option snd previous) = Inr c"
    and prev: "case existing of None \<Rightarrow> previous = None
      | Some q \<Rightarrow> \<exists>x. provider_secret_in_connection env q st = Inr x \<and> previous = Some x"
    and r: "(\<exists>q. previous = Some (q, c) \<and> (r, st') = (q, st)) \<or>
      upsert_provider_secret_in_connection env p (map_option sr_id existing) c st = Inr (r, st')"
  proof (cases existing)
    case None
    with assms(1) obtain c where "merged_credentials s None = Inr c"
      "upsert_provider_secret_in_connection env p (map_option sr_id existing) c st = Inr (r, st')"
      by (auto simp: store_submitted_def result_iffs)
    with None show thesis by (intro that [of None c]) auto
  next
    case (Some q)
    with assms(1) obtain x c where "provider_secret_in_connection env q st = Inr x"
      "merged_credentials s (Some (snd x)) = Inr c"
      "(case x of (current, old) \<Rightarrow> if old = c then Inr (current, st)
         else upsert_provider_secret_in_connection env p (map_option sr_id existing) c st) = Inr (r, st')"
      by (auto simp: store_submitted_def result_iffs)
    with Some show thesis by (intro that [of "Some x" c]) (auto split: if_splits prod.splits)
  qed
  note kept = merged_credentials_kept [OF c]
  from r show ?thesis
  proof
    assume "\<exists>q. previous = Some (q, c) \<and> (r, st') = (q, st)"
    with prev obtain q where "provider_secret_in_connection env q st = Inr (r, c)" "st' = st"
      by (auto split: option.splits)
    with read_current [OF this(1) assms(2)] kept assms(2) show ?thesis by blast
  next
    assume up: "upsert_provider_secret_in_connection env p (map_option sr_id existing) c st = Inr (r, st')"
    have "map_of (st_rows st) j \<noteq> None" if "map_option sr_id existing = Some j" for j
      using that prev read_current(5) [OF _ assms(2)] by (auto split: option.splits)
    with upsert_reads [OF up assms(2) _ assms(3)] kept show ?thesis by blast
  qed
qed

lemma current_reference_reads:
  assumes "current_reference env p submitted existing st = Inr (Some r, st')" "table_ok env st"
    "normalize_provider_type p = Inr p"
  shows "\<exists>c. table_ok env st' \<and> provider_secret_in_connection env r st' = Inr (r, c) \<and> reference_ok r \<and>
    submission_kept submitted c \<and> (\<forall>j. j \<noteq> sr_id r \<longrightarrow> map_of (st_rows st') j = map_of (st_rows st) j)"
proof (cases submitted)
  case None
  with assms(1) obtain q where "existing = Some q" by (cases existing) (auto simp: current_reference_def)
  with assms(1) None have
    "and_then (provider_secret_in_connection env q st) (\<lambda>(current, _). Inr (Some current, st)) = Inr (Some r, st')"
    by (simp add: current_reference_def)
  then obtain c where q: "provider_secret_in_connection env q st = Inr (r, c)" "st' = st"
    by (cases "provider_secret_in_connection env q st") auto
  have "submission_kept submitted c" by (simp add: None submission_kept_def)
  with read_current [OF q(1) assms(2)] q(2) assms(2) show ?thesis by blast
next
  case (Some s)
  with assms(1) have "store_submitted env p s existing st = Inr (r, st')"
    by (auto simp: current_reference_def result_iffs)
  with store_submitted_reads [OF _ assms(2,3)] Some show ?thesis by blast
qed

text \<open>
  C3. A protected configuration holds no credentials, and resolves. When protecting a configuration that
  carries credentials or a reference succeeds, the result refers to an envelope of the normalised
  provider type that opens to the submitted user name and password, what was left out being the stored
  value; no other envelope changed.
\<close>

theorem protected_configuration_resolves:
  assumes ok: "table_ok env st" and m: "bt_ok m" and mat: "has_provider_secret_material (JObj m)"
    and pro: "protect_provider_configuration_in_connection env p (JObj m) st = Inr (conf, st')"
  shows "provider_credentials_from_configuration conf = None \<and> table_ok env st' \<and>
    (\<exists>r c. reference_from_configuration conf = Some r \<and>
       provider_credentials_for_configuration env conf st' = Inr (Some (r, c)) \<and>
       eq_ignore_case (sr_provider_type r) (trim p) \<and>
       submission_kept (provider_credentials_from_configuration (JObj m)) c \<and>
       (\<forall>j. j \<noteq> sr_id r \<longrightarrow> map_of (st_rows st') j = map_of (st_rows st) j))"
proof -
  let ?existing = "reference_from_configuration (JObj m)" and ?submitted = "provider_credentials_from_configuration (JObj m)"
  have "?submitted \<noteq> None \<or> has_reference_field (JObj m)" using mat by (auto simp: has_provider_secret_material_def)
  with pro obtain t x where t: "normalize_provider_type p = Inr t" "\<not> has_reference_field (JObj m) \<or> ?existing \<noteq> None"
    and cur: "current_reference env t ?submitted ?existing st = Inr (x, st')"
    and x: "case x of None \<Rightarrow> conf = JObj m
      | Some r \<Rightarrow> eq_ignore_case (sr_provider_type r) t \<and> redacted_provider_configuration (JObj m) r = Inr conf"
    by (fastforce simp: protect_provider_configuration_in_connection_def Let_def result_iffs split: option.splits)
  have "x \<noteq> None" using cur t(2) mat
    by (auto simp: current_reference_def result_iffs has_provider_secret_material_def split: option.splits)
  then obtain r where r: "x = Some r" by blast
  with x have type: "eq_ignore_case (sr_provider_type r) t" and conf: "conf = JObj (redacted_fields m r)"
    by (simp_all add: redacted_provider_configuration_object)
  from current_reference_reads [OF cur [unfolded r] ok normalized_text(4) [OF t(1)]] obtain c where
    c: "table_ok env st'" "provider_secret_in_connection env r st' = Inr (r, c)" "reference_ok r"
    "submission_kept ?submitted c" "\<forall>j. j \<noteq> sr_id r \<longrightarrow> map_of (st_rows st') j = map_of (st_rows st) j" by blast
  have ref: "reference_from_configuration conf = Some r"
    unfolding conf by (rule redacted_reference [OF m c(3)])
  moreover have "eq_ignore_case (sr_provider_type r) (trim p)"
    using type t(1) by (auto simp: eq_ignore_case_def normalize_provider_type_def Let_def split: if_splits)
  ultimately show ?thesis using c
    by (auto simp: conf redacted_holds_no_credentials provider_credentials_for_configuration_def)
qed

section \<open>Removing orphans\<close>

definition orphaned :: "(string \<times> string) list \<Rightarrow> string \<times> secret_row \<Rightarrow> bool" where
  "orphaned references e \<longleftrightarrow> (fst e, to_ascii_lowercase (rw_provider_type (snd e))) \<notin> set references"

definition swept :: "secret_env \<Rightarrow> (string \<times> string) list \<Rightarrow> (string \<times> secret_row) list \<Rightarrow> string \<times> secret_row \<Rightarrow> bool" where
  "swept env references es kv \<longleftrightarrow>
     (\<exists>e \<in> set es. orphaned references e \<and> fst e = fst kv \<and>
        en_lower env (rw_provider_type (snd kv)) = en_lower env (rw_provider_type (snd e)))"

lemma sweep_envelope_filter:
  "sweep_envelope env references e (d, rows) =
     (let rows' = filter (\<lambda>kv. \<not> swept env references [e] kv) rows in (d + (length rows - length rows'), rows'))"
proof (cases "orphaned references e")
  obtain i r where e: "e = (i, r)" by fastforce
  case True
  then have "(\<lambda>(k, row). \<not> (k = fst e \<and> en_lower env (rw_provider_type row) = en_lower env (rw_provider_type (snd e)))) =
      (\<lambda>kv. \<not> swept env references [e] kv)"
    by (auto simp: swept_def fun_eq_iff)
  with True show ?thesis
    by (simp add: e sweep_envelope_def delete_envelope_def orphaned_def Let_def)
next
  case False
  then have "filter (\<lambda>kv. \<not> swept env references [e] kv) rows = rows" by (simp add: swept_def)
  with False show ?thesis by (cases e) (simp add: sweep_envelope_def orphaned_def Let_def)
qed

lemma sweep_envelopes:
  "fold (sweep_envelope env references) es (d, rows) =
     (let rows' = filter (\<lambda>kv. \<not> swept env references es kv) rows in (d + (length rows - length rows'), rows'))"
proof (induction es arbitrary: d rows)
  case (Cons e es)
  let ?one = "filter (\<lambda>kv. \<not> swept env references [e] kv) rows"
  have both: "filter (\<lambda>kv. \<not> swept env references es kv) ?one = filter (\<lambda>kv. \<not> swept env references (e # es) kv) rows"
    unfolding filter_filter by (rule filter_cong) (auto simp: swept_def)
  let ?all = "filter (\<lambda>kv. \<not> swept env references (e # es) kv) rows"
  have le: "length ?all \<le> length ?one" "length ?one \<le> length rows"
    unfolding both [symmetric] by (rule length_filter_le)+
  have "fold (sweep_envelope env references) (e # es) (d, rows) =
      fold (sweep_envelope env references) es (d + (length rows - length ?one), ?one)"
    by (simp add: sweep_envelope_filter Let_def)
  also have "\<dots> = (d + (length rows - length ?one) + (length ?one - length ?all), ?all)"
    unfolding Cons.IH both Let_def by (rule refl)
  also have "\<dots> = (d + (length rows - length ?all), ?all)"
    unfolding prod.inject using le by (intro conjI refl) arith
  finally show ?case by (simp add: Let_def)
qed (simp add: swept_def)

lemma swept_self:
  assumes "hm_ok rows" "kv \<in> set rows"
  shows "swept env references rows kv \<longleftrightarrow> orphaned references kv"
proof
  assume "swept env references rows kv"
  then obtain e where e: "e \<in> set rows" "orphaned references e" "fst e = fst kv" by (auto simp: swept_def)
  with assms have "e = kv" by (auto simp: hm_ok_def distinct_map dest: inj_onD)
  with e show "orphaned references kv" by simp
qed (use assms(2) in \<open>auto simp: swept_def\<close>)

lemma reconcile_rows:
  assumes "reconcile_orphaned_provider_secrets env configurations st = Inr (n, st')" "hm_ok (st_rows st)"
  obtains ids where "traverse collect_reference_identities configurations = Inr ids"
    "st_rows st' = filter (\<lambda>kv. \<not> orphaned (concat ids) kv) (st_rows st)"
    "n = length (st_rows st) - length (st_rows st')"
proof -
  from assms(1) obtain ids where ids: "traverse collect_reference_identities configurations = Inr ids"
    "n = fst (fold (sweep_envelope env (concat ids)) (st_rows st) (0, st_rows st))"
    "st' = st\<lparr> st_rows := snd (fold (sweep_envelope env (concat ids)) (st_rows st) (0, st_rows st)) \<rparr>"
    by (auto simp: reconcile_orphaned_provider_secrets_def result_iffs case_prod_beta)
  have "filter (\<lambda>kv. \<not> swept env (concat ids) (st_rows st) kv) (st_rows st) =
      filter (\<lambda>kv. \<not> orphaned (concat ids) kv) (st_rows st)"
    by (rule filter_cong) (simp_all add: swept_self assms(2))
  with ids show thesis by (intro that) (auto simp: sweep_envelopes Let_def)
qed

text \<open>
  C14. Removing orphans keeps every envelope that a persisted configuration refers to, at any depth and
  whatever the revision and the case of the provider type, removes the envelopes whose identity no
  configuration holds, and counts them.
\<close>

theorem reconcile_keeps_referenced:
  assumes ok: "table_ok env st" and rec: "reconcile_orphaned_provider_secrets env configurations st = Inr (n, st')"
    and conf: "conf \<in> set configurations" and r: "configuration_references r conf"
  shows "selected_row env r st' = selected_row env r st \<and> set (st_rows st') \<subseteq> set (st_rows st) \<and>
    n = length (st_rows st) - length (st_rows st')"
proof -
  have hm: "hm_ok (st_rows st)" using ok by (simp add: table_ok_def)
  from reconcile_rows [OF rec hm] obtain ids where ids: "traverse collect_reference_identities configurations = Inr ids"
    and rows: "st_rows st' = filter (\<lambda>kv. \<not> orphaned (concat ids) kv) (st_rows st)"
    and n: "n = length (st_rows st) - length (st_rows st')" .
  from ids conf obtain js where "collect_reference_identities conf = Inr js" "set js \<subseteq> set (concat ids)"
    by (fastforce simp: traverse_Inr_iff list_all2_conv_all_nth in_set_conv_nth)
  with collected_identities [OF _ r] have held: "(sr_id r, to_ascii_lowercase (sr_provider_type r)) \<in> set (concat ids)"
    by blast
  have kept: "\<not> orphaned (concat ids) (sr_id r, row)"
    if "en_lower env (rw_provider_type row) = en_lower env (sr_provider_type r)" for row
    using that held ok by (simp add: orphaned_def table_ok_def env_ok_def eq_ignore_case_def)
  have "hm_ok (st_rows st')"  using hm by (simp add: rows hm_ok_filter)
  then have "selected_row env r st' = Some row \<longleftrightarrow> selected_row env r st = Some row" for row
    using kept [of row] hm by (auto simp: selected_row_iff hm_get_mem rows)
  then have "selected_row env r st' = selected_row env r st"
    by (metis not_Some_eq)
  then show ?thesis using rows n by auto
qed

fun references_readable :: "json \<Rightarrow> bool" where
  "references_readable (JArr vs) = list_all references_readable vs"
| "references_readable (JObj m) =
     list_all (\<lambda>kv. \<not> (eq_ignore_case (fst kv) reference_field \<and> reference_from_json (snd kv) = None) \<and>
       references_readable (snd kv)) m"
| "references_readable _ = True"

lemma and_then_succeeds: "(\<exists>w. and_then r f = Inr w) \<longleftrightarrow> (\<exists>v. r = Inr v \<and> (\<exists>w. f v = Inr w))"
  by (auto simp: result_iffs)

lemma traverse_succeeds: "(\<exists>ys. traverse f xs = Inr ys) \<longleftrightarrow> list_all (\<lambda>x. \<exists>y. f x = Inr y) xs"
  by (induction xs) (auto simp: result_iffs)

lemma collect_succeeds: "(\<exists>ids. collect_reference_identities j = Inr ids) \<longleftrightarrow> references_readable j"
proof (induction j)
  case (JArr vs)
  then show ?case by (simp add: and_then_succeeds traverse_succeeds list_all_iff)
next
  case (JObj m)
  have "(\<exists>ids. collect_reference_identities (snd kv) = Inr ids) \<longleftrightarrow> references_readable (snd kv)" if "kv \<in> set m" for kv
    by (rule JObj.IH [OF that]) (metis prod.collapse prod_set_simps(2) singletonI)
  then show ?case
    by (auto simp: and_then_succeeds traverse_succeeds list_all_iff some_or_Inr_iff)
qed simp_all

text \<open>
  The removal of orphans fails closed: it succeeds exactly when every reference field, at every depth
  of every persisted configuration, holds a readable reference.
\<close>

theorem reconcile_fails_closed:
  "(\<exists>n st'. reconcile_orphaned_provider_secrets env configurations st = Inr (n, st')) \<longleftrightarrow>
     list_all references_readable configurations"
  unfolding reconcile_orphaned_provider_secrets_def
  by (simp add: case_prod_beta and_then_Inr_iff traverse_succeeds collect_succeeds flip: ex_simps)

section \<open>A store in use\<close>

definition plain_env :: secret_env where
  "plain_env = \<lparr> en_crypto = plain_crypto,
     en_vault = Some \<lparr> vt_active_key_id = ''k'', vt_keys = [(''k'', replicate 32 (CHR ''1'')), (''a'', replicate 32 (CHR ''0''))] \<rparr>,
     en_lower = to_ascii_lowercase, en_uuid = (\<lambda>_. ''0''), en_nonce = (\<lambda>_. Some (replicate 12 (CHR ''n''))) \<rparr>"

definition plain_row :: "string \<Rightarrow> int \<Rightarrow> secret_row" where
  "plain_row key revision = \<lparr> rw_provider_type = ''xtream'', rw_version = 1, rw_key_id = key, rw_nonce = replicate 12 (CHR ''n''),
     rw_ciphertext = ''#xyup'', rw_revision = revision \<rparr>"

lemma plain_env_ok [simp]: "env_ok plain_env"
  by (simp add: env_ok_def plain_env_def eq_ignore_case_def char_eval)

lemma normalize_xtream [simp]: "normalize_provider_type ''xtream'' = Inr ''xtream''"
  by (simp add: secret_eval)

lemma plain_table_ok [simp]: "table_ok plain_env \<lparr> st_rows = [(''ps_0'', plain_row key 1)], st_drawn = n \<rparr>"
  by (simp add: table_ok_def hm_ok_def row_ok_def plain_row_def reference_ok_def row_reference_def in_i64_def
      trim_plain plain_char_def char_eval)

lemma plain_components [simp]:
  "validate_secret_component e ''ps_0'' = Inr ''ps_0''" "validate_secret_component e ''xtream'' = Inr ''xtream''"
  by (simp_all add: secret_eval)

lemmas plain_eval = plain_env_def plain_row_def plain_crypto_def plain_read_def plain_write_def open_envelope_def
  seal_def usable_key_def validate_key_def credentials_from_json_def credentials_new_def Let_def opt_filter_def
  insert_envelope_def row_of_envelope_def hm_insert_def

lemma plain_lookup:
  "provider_secret_in_connection plain_env \<lparr> sr_id = ''ps_0'', sr_provider_type = ''xtream'', sr_revision = rv \<rparr>
     \<lparr> st_rows = [(''ps_0'', plain_row ''a'' 1)], st_drawn = n \<rparr> =
   Inr (\<lparr> sr_id = ''ps_0'', sr_provider_type = ''xtream'', sr_revision = 1 \<rparr>, \<lparr> cr_username = ''u'', cr_password = ''p'' \<rparr>)"
  by (simp add: provider_secret_in_connection_def selected_row_def plain_eval trim_plain plain_char_def char_eval)

lemma plain_store:
  "upsert_provider_secret_in_connection plain_env ''xtream'' (Some ''ps_0'') \<lparr> cr_username = ''u'', cr_password = ''p'' \<rparr>
     \<lparr> st_rows = [(''ps_0'', plain_row ''a'' 1)], st_drawn = n \<rparr> =
   Inr (\<lparr> sr_id = ''ps_0'', sr_provider_type = ''xtream'', sr_revision = 2 \<rparr>,
     \<lparr> st_rows = [(''ps_0'', plain_row ''k'' 2)], st_drawn = Suc n \<rparr>)"
  by (simp add: upsert_provider_secret_in_connection_def plain_eval)

lemma rotation_refines_identity_witness:
  "(\<exists>x. provider_secret_in_connection plain_env \<lparr> sr_id = ''ps_0'', sr_provider_type = ''xtream'', sr_revision = 1 \<rparr>
     \<lparr> st_rows = [(''ps_0'', plain_row ''k'' 2)], st_drawn = 1 \<rparr> = Inr (x, \<lparr> cr_username = ''u'', cr_password = ''p'' \<rparr>))"
proof -
  let ?st = "\<lparr> st_rows = [(''ps_0'', plain_row ''a'' 1)], st_drawn = 0 \<rparr>"
  let ?v = "\<lparr> vt_active_key_id = ''k'', vt_keys = [(''k'', replicate 32 (CHR ''1'')), (''a'', replicate 32 (CHR ''0''))] \<rparr>"
  have vault: "en_vault plain_env = Some ?v" by (simp add: plain_env_def)
  have ref: "row_reference (''ps_0'', plain_row ''a'' 1) = \<lparr> sr_id = ''ps_0'', sr_provider_type = ''xtream'', sr_revision = 1 \<rparr>"
    by (simp add: row_reference_def plain_row_def)
  have "rotate_provider_secrets_to_active_key plain_env ?st =
      Inr (1, \<lparr> st_rows = [(''ps_0'', plain_row ''k'' 2)], st_drawn = 1 \<rparr>)"
    using plain_lookup [of 1 0] plain_store [of 0]
    by (simp add: rotate_provider_secrets_to_active_key_def vault ref Let_def) (simp add: plain_row_def)
  from rotation_refines_identity [OF plain_table_ok vault this] plain_lookup [of 1 0] show ?thesis by blast
qed

lemma reconcile_keeps_referenced_witness:
  "selected_row plain_env \<lparr> sr_id = ''ps_0'', sr_provider_type = ''Xtream'', sr_revision = 1 \<rparr>
     \<lparr> st_rows = [(''ps_0'', plain_row ''k'' 2)], st_drawn = 0 \<rparr> =
   selected_row plain_env \<lparr> sr_id = ''ps_0'', sr_provider_type = ''Xtream'', sr_revision = 1 \<rparr>
     \<lparr> st_rows = [(''ps_0'', plain_row ''k'' 2), (''ps_1'', plain_row ''k'' 1)], st_drawn = 0 \<rparr>"
proof -
  let ?r = "\<lparr> sr_id = ''ps_0'', sr_provider_type = ''Xtream'', sr_revision = 1 \<rparr>"
  let ?c = "JObj [(''TunerHosts'', JArr [JObj [(''JellyrinProviderSecretRef'', reference_to_json ?r)]])]"
  let ?st = "\<lparr> st_rows = [(''ps_0'', plain_row ''k'' 2), (''ps_1'', plain_row ''k'' 1)], st_drawn = 0 \<rparr>"
  have "reference_ok ?r" by (simp add: reference_ok_def in_i64_def trim_plain plain_char_def char_eval)
  then have json: "reference_from_json (reference_to_json ?r) = Some ?r" by (rule reference_read_back)
  have leaf: "collect_reference_identities (reference_to_json ?r) = Inr []"
    by (simp add: reference_to_json_def json_obj_def json_int_def eq_ignore_case_def to_ascii_lowercase_def char_eval)
  have collected: "collect_reference_identities ?c = Inr [(''ps_0'', ''xtream'')]"
    by (simp add: json leaf) (simp add: eq_ignore_case_def to_ascii_lowercase_def char_eval)
  have "reconcile_orphaned_provider_secrets plain_env [?c] ?st =
      Inr (1, \<lparr> st_rows = [(''ps_0'', plain_row ''k'' 2)], st_drawn = 0 \<rparr>)"
    unfolding reconcile_orphaned_provider_secrets_def traverse.simps collected
    by (simp add: sweep_envelope_def delete_envelope_def plain_row_def to_ascii_lowercase_def char_eval)
  moreover have "configuration_references ?r ?c"
    by (simp add: directly_references_def reference_to_json_def jget_json_obj trim_plain plain_char_def char_eval)
  moreover have "table_ok plain_env ?st"
    by (simp add: table_ok_def hm_ok_def row_ok_def plain_row_def reference_ok_def row_reference_def in_i64_def
        trim_plain plain_char_def char_eval)
  ultimately show ?thesis using reconcile_keeps_referenced [of plain_env ?st "[?c]" 1 _ ?c ?r] by simp
qed

abbreviation plain_fields :: "(string \<times> json) list" where
  "plain_fields \<equiv> [(''Password'', JStr ''p''), (''Username'', JStr ''u'')]"

lemma plain_submission: "provider_credentials_from_configuration (JObj plain_fields) = Some (Some ''u'', Some ''p'')"
  by (simp add: provider_credentials_from_configuration_def eq_ignore_case_def to_ascii_lowercase_def trim_plain
      plain_char_def char_eval redaction_mark_def opt_filter_def)

lemma plain_protect:
  "\<exists>r st'. protect_provider_configuration_in_connection plain_env ''xtream'' (JObj plain_fields)
     \<lparr> st_rows = [], st_drawn = 0 \<rparr> = Inr (JObj (redacted_fields plain_fields r), st')"
proof -
  let ?st = "\<lparr> st_rows = [], st_drawn = 0 \<rparr>" and ?c = "\<lparr> cr_username = ''u'', cr_password = ''p'' \<rparr>"
  have ref: "reference_from_configuration (JObj plain_fields) = None"
    by (simp add: reference_from_configuration_def jget_def)
  have field: "\<not> has_reference_field (JObj plain_fields)"
    by (simp add: has_reference_field_def eq_ignore_case_def to_ascii_lowercase_def char_eval)
  have "\<exists>r st'. upsert_provider_secret_in_connection plain_env ''xtream'' None ?c ?st = Inr (r, st') \<and>
      sr_provider_type r = ''xtream''"
    by (simp add: upsert_provider_secret_in_connection_def new_provider_secret_id_def plain_eval)
  then obtain r st' where up: "upsert_provider_secret_in_connection plain_env ''xtream'' None ?c ?st = Inr (r, st')"
    and type: "sr_provider_type r = ''xtream''" by blast
  have "merged_credentials (Some ''u'', Some ''p'') None = Inr ?c"
    by (simp add: merged_credentials_def opt_or_def credentials_new_def trim_plain plain_char_def char_eval)
  then show ?thesis
    by (simp add: protect_provider_configuration_in_connection_def plain_submission ref field current_reference_def
        store_submitted_def up type redacted_provider_configuration_object) blast
qed

lemma protected_configuration_resolves_witness:
  "\<exists>conf st'. protect_provider_configuration_in_connection plain_env ''xtream''
       (JObj plain_fields) \<lparr> st_rows = [], st_drawn = 0 \<rparr> = Inr (conf, st') \<and>
     provider_credentials_from_configuration conf = None \<and>
     (\<exists>r. provider_credentials_for_configuration plain_env conf st' = Inr (Some (r, \<lparr> cr_username = ''u'', cr_password = ''p'' \<rparr>)))"
proof -
  from plain_protect obtain conf st' where pro: "protect_provider_configuration_in_connection plain_env ''xtream''
      (JObj plain_fields) \<lparr> st_rows = [], st_drawn = 0 \<rparr> = Inr (conf, st')" by blast
  have "has_provider_secret_material (JObj plain_fields)" "table_ok plain_env \<lparr> st_rows = [], st_drawn = 0 \<rparr>"
    "bt_ok plain_fields"
    by (simp_all add: has_provider_secret_material_def plain_submission table_ok_def bt_ok_def)
  from protected_configuration_resolves [OF this(2,3,1) pro] plain_submission pro show ?thesis
    by (fastforce simp: submission_kept_def)
qed

end
