(* ===== verification/Provider_Secret_Backfill.thy ===== *)
theory Provider_Secret_Backfill
  imports Provider_Secret_Store
begin

text \<open>
  The two operations that protect many configurations in one transaction: the named Live TV
  configuration with its list of tuner hosts, and the start-up back-fill that moves credentials left in
  the plugin, tuner and named configurations by earlier versions into the vault
  (\<open>crates/jellyrin-db/src/postgres_provider_secrets.rs\<close>, 37--245 and 270--333).
\<close>

section \<open>The named Live TV configuration\<close>

definition host_provider_type :: "json \<Rightarrow> string" where
  "host_provider_type host = to_ascii_lowercase (trim (unwrap_or [] (Option.bind (jget ''Type'' host) as_str)))"

definition host_has_id :: "string \<Rightarrow> json \<Rightarrow> bool" where
  "host_has_id i host \<longleftrightarrow> is_some_and (\<lambda>j. eq_ignore_case j i) (Option.bind (jget ''Id'' host) as_str)"

definition tuner_hosts :: "json \<Rightarrow> json list option" where
  "tuner_hosts configuration = Option.bind (jget ''TunerHosts'' configuration) as_array"

definition existing_host :: "json list option \<Rightarrow> json \<Rightarrow> json option" where
  "existing_host existing_hosts host =
     Option.bind (Option.bind (jget ''Id'' host) as_str) (\<lambda>i. Option.bind existing_hosts (find (host_has_id i)))"

definition protect_live_tv_host ::
  "secret_env \<Rightarrow> json list option \<Rightarrow> json \<Rightarrow> secret_table \<Rightarrow> json transaction" where
  "protect_live_tv_host env existing_hosts host st =
     (let provider_type = host_provider_type host;
          is_xtream = eq_ignore_case provider_type ''xtream'';
          is_plugin = eq_ignore_case provider_type ''plugin'' \<or>
            is_some_and (\<lambda>(kind, _). eq_ignore_case kind ''plugin'') (split_once (CHR '':'') provider_type)
      in and_then (check (\<not> has_provider_secret_input_field host \<or> is_xtream \<or> is_plugin) Provider_Type_Required) (\<lambda>_.
         if \<not> is_xtream \<and> \<not> is_plugin then Inr (host, st)
         else
           and_then (inherit_provider_secret_reference_for_configuration (en_crypto env) host
             (existing_host existing_hosts host) provider_type) (\<lambda>host.
           if \<not> has_provider_secret_material host then Inr (host, st)
           else
             and_then (provider_secret_namespace (en_crypto env) provider_type host) (\<lambda>namespace.
               protect_provider_configuration_in_connection env namespace host st))))"

definition set_field :: "string \<Rightarrow> json \<Rightarrow> json \<Rightarrow> json" where
  "set_field k v j = (case j of JObj m \<Rightarrow> JObj (bt_insert k v m) | _ \<Rightarrow> j)"

definition protect_live_tv_named_configuration_in_connection ::
  "secret_env \<Rightarrow> json \<Rightarrow> json option \<Rightarrow> secret_table \<Rightarrow> json transaction" where
  "protect_live_tv_named_configuration_in_connection env configuration existing st =
     (case tuner_hosts configuration of
        None \<Rightarrow> Inr (configuration, st)
      | Some hosts \<Rightarrow>
          and_then (traverse_state (protect_live_tv_host env (Option.bind existing tuner_hosts)) hosts st)
            (\<lambda>(hosts, st). Inr (set_field ''TunerHosts'' (JArr hosts) configuration, st)))"

section \<open>The back-fill\<close>

record tuner_row =
  tu_id :: string
  tu_provider_type :: string
  tu_configuration :: json

record config_tables =
  ct_plugin :: "json option"
  ct_tuners :: "tuner_row list"
  ct_named :: "json option"

abbreviation builtin_id :: string where
  "builtin_id \<equiv> ''xtream-plugin''"

definition builtin_tuner :: "config_tables \<Rightarrow> json option" where
  "builtin_tuner ct = map_option tu_configuration (find (\<lambda>t. eq_ignore_case (tu_id t) builtin_id) (ct_tuners ct))"

definition named_builtin :: "config_tables \<Rightarrow> json option" where
  "named_builtin ct = Option.bind (Option.bind (ct_named ct) tuner_hosts) (find (host_has_id builtin_id))"

definition legacy_sources :: "config_tables \<Rightarrow> json list" where
  "legacy_sources ct =
     filter has_provider_secret_material
       (List.map_filter (\<lambda>c. c) [ct_plugin ct, builtin_tuner ct, named_builtin ct])"

text \<open>The first source is the seed; all of them must hold its credentials.\<close>

definition canonical_configuration :: "secret_env \<Rightarrow> config_tables \<Rightarrow> secret_table \<Rightarrow> json option transaction" where
  "canonical_configuration env ct st =
     (case legacy_sources ct of
        [] \<Rightarrow> Inr (None, st)
      | seed # sources \<Rightarrow>
          (let credentials_of = (\<lambda>c.
             and_then (configuration_credentials_in_connection env c st) (some_or Credentials_Incomplete))
           in and_then (credentials_of seed) (\<lambda>canonical.
              and_then (traverse (\<lambda>c. and_then (credentials_of c) (\<lambda>creds. check (creds = canonical) Credentials_Conflict))
                (seed # sources)) (\<lambda>_.
              and_then (protect_provider_configuration_in_connection env ''xtream'' seed st) (\<lambda>(c, st). Inr (Some c, st))))))"

definition backfill_plugin ::
  "secret_env \<Rightarrow> secret_reference option \<Rightarrow> json option \<Rightarrow> secret_table \<Rightarrow> json option transaction" where
  "backfill_plugin env r plugin st =
     (case (plugin, r) of
        (Some original, Some r) \<Rightarrow>
          and_then (set_provider_secret_reference r original) (\<lambda>candidate.
          and_then (protect_provider_configuration_in_connection env ''xtream'' candidate st) (\<lambda>(protected, st).
            Inr (if protected \<noteq> original then Some protected else None, st)))
      | _ \<Rightarrow> Inr (None, st))"

definition backfill_tuner ::
  "secret_env \<Rightarrow> secret_reference option \<Rightarrow> tuner_row \<Rightarrow> secret_table \<Rightarrow> json transaction" where
  "backfill_tuner env r tuner st =
     and_then
       (if eq_ignore_case (tu_id tuner) builtin_id
        then (case r of Some r \<Rightarrow> set_provider_secret_reference r (tu_configuration tuner) | None \<Rightarrow> Inr (tu_configuration tuner))
        else Inr (tu_configuration tuner)) (\<lambda>candidate.
     and_then
       (if has_provider_secret_material candidate
        then provider_secret_namespace (en_crypto env) (tu_provider_type tuner) candidate
        else Inr (tu_provider_type tuner)) (\<lambda>namespace.
       protect_provider_configuration_in_connection env namespace candidate st))"

fun set_first_host :: "string \<Rightarrow> (json \<Rightarrow> secret_error + json) \<Rightarrow> json list \<Rightarrow> secret_error + json list" where
  "set_first_host i f [] = Inr []"
| "set_first_host i f (h # hs) =
     (if host_has_id i h then and_then (f h) (\<lambda>h. Inr (h # hs))
      else and_then (set_first_host i f hs) (\<lambda>hs. Inr (h # hs)))"

definition backfill_named ::
  "secret_env \<Rightarrow> secret_reference option \<Rightarrow> json option \<Rightarrow> secret_table \<Rightarrow> json option transaction" where
  "backfill_named env r named st =
     (case named of
        None \<Rightarrow> Inr (None, st)
      | Some original \<Rightarrow>
          and_then
            (case (r, tuner_hosts original) of
               (Some r, Some hosts) \<Rightarrow>
                 and_then (set_first_host builtin_id (set_provider_secret_reference r) hosts) (\<lambda>hosts.
                   Inr (set_field ''TunerHosts'' (JArr hosts) original))
             | _ \<Rightarrow> Inr original) (\<lambda>candidate.
          and_then (protect_live_tv_named_configuration_in_connection env candidate (Some original) st)
            (\<lambda>(protected, st). Inr (if protected \<noteq> original then Some protected else None, st))))"

definition rewrite_tuner :: "tuner_row \<Rightarrow> json \<Rightarrow> tuner_row" where
  "rewrite_tuner tuner c = tuner\<lparr> tu_configuration := c \<rparr>"

text \<open>The last check comes after the commit: its failure is an answer, not a rollback.\<close>

definition backfill_legacy_provider_secrets ::
  "secret_env \<Rightarrow> config_tables \<Rightarrow> secret_table \<Rightarrow> ((secret_error + nat) \<times> config_tables) transaction" where
  "backfill_legacy_provider_secrets env ct st =
     and_then (canonical_configuration env ct st) (\<lambda>(canonical, st).
     let r = Option.bind canonical reference_from_configuration
     in and_then (backfill_plugin env r (ct_plugin ct) st) (\<lambda>(plugin, st).
        and_then (traverse_state (backfill_tuner env r) (ct_tuners ct) st) (\<lambda>(tuners, st).
        and_then (backfill_named env r (ct_named ct) st) (\<lambda>(named, st).
        let rewritten = (if plugin \<noteq> None then 1 else 0)
              + length (filter (\<lambda>(t, c). c \<noteq> tu_configuration t) (zip (ct_tuners ct) tuners))
              + (if named \<noteq> None then 1 else 0);
            ct' = \<lparr> ct_plugin = opt_or plugin (ct_plugin ct), ct_tuners = map2 rewrite_tuner (ct_tuners ct) tuners,
                    ct_named = opt_or named (ct_named ct) \<rparr>
        in Inr ((and_then (validate_provider_secret_readiness env st) (\<lambda>_. Inr rewritten), ct'), st)))))"

section \<open>No credentials are left behind\<close>

definition fields_ok :: "json \<Rightarrow> bool" where
  "fields_ok j = (case j of JObj m \<Rightarrow> bt_ok m | _ \<Rightarrow> True)"

abbreviation no_plaintext :: "json \<Rightarrow> bool" where
  "no_plaintext j \<equiv> provider_credentials_from_configuration j = None"

lemma no_plaintext_if_no_object [simp]: "as_object j = None \<Longrightarrow> no_plaintext j"
  by (simp add: provider_credentials_from_configuration_def)

lemma no_input_field_no_plaintext: "\<not> has_provider_secret_input_field j \<Longrightarrow> no_plaintext j"
  by (cases "as_object j")
    (auto simp: has_provider_secret_input_field_def provider_credentials_from_configuration_def Let_def
      find_map_None_iff list_ex_iff credential_key_def)

lemma protect_clean:
  assumes pro: "protect_provider_configuration_in_connection env p j st = Inr (c, st')"
  shows "no_plaintext c"
proof (cases "no_plaintext j \<and> c = j")
  case False
  then obtain r st1 t where "redacted_provider_configuration j r = Inr c"
    using pro
    by (fastforce simp: protect_provider_configuration_in_connection_def Let_def result_iffs current_reference_def
        split: option.splits if_splits)
  then obtain m where "j = JObj m" "c = JObj (redacted_fields m r)"
    by (cases j) (auto simp: redacted_provider_configuration_def redacted_fields_def Let_def)
  then show ?thesis by (simp add: redacted_holds_no_credentials)
qed simp

lemma protect_live_tv_host_clean:
  assumes "protect_live_tv_host env ex host st = Inr (h, st')"
  shows "no_plaintext h"
proof -
  from assms consider "\<not> has_provider_secret_input_field h" | "\<not> has_provider_secret_material h"
    | p j where "protect_provider_configuration_in_connection env p j st = Inr (h, st')"
    by (auto simp: protect_live_tv_host_def Let_def result_iffs split: if_splits)
  then show ?thesis
  proof cases
    case 2
    then show ?thesis by (simp only: has_provider_secret_material_def de_Morgan_disj not_not)
  qed (rule no_input_field_no_plaintext protect_clean, assumption)+
qed

definition hosts_clean :: "json \<Rightarrow> bool" where
  "hosts_clean j = (case tuner_hosts j of Some hosts \<Rightarrow> list_all no_plaintext hosts | None \<Rightarrow> True)"

lemma tuner_hosts_set: "fields_ok j \<Longrightarrow> tuner_hosts j = Some hs \<Longrightarrow> tuner_hosts (set_field ''TunerHosts'' (JArr hosts) j) = Some hosts"
  by (cases j) (auto simp: tuner_hosts_def jget_def set_field_def fields_ok_def map_of_bt_insert)

lemma fields_ok_set [simp]: "fields_ok j \<Longrightarrow> fields_ok (set_field k v j)"
  by (simp add: fields_ok_def set_field_def split: json.splits)

lemma protect_named_clean:
  assumes pro: "protect_live_tv_named_configuration_in_connection env j ex st = Inr (c, st')" and "fields_ok j"
  shows "hosts_clean c"
proof (cases "tuner_hosts j")
  case None
  with pro show ?thesis by (simp add: protect_live_tv_named_configuration_in_connection_def hosts_clean_def)
next
  case (Some hosts)
  with pro obtain hosts' st1 where t: "traverse_state (protect_live_tv_host env (Option.bind ex tuner_hosts)) hosts st = Inr (hosts', st1)"
    and c: "c = set_field ''TunerHosts'' (JArr hosts') j"
    by (auto simp: protect_live_tv_named_configuration_in_connection_def result_iffs)
  have "list_all2 (\<lambda>_. no_plaintext) hosts hosts'"
    by (rule traverse_state_all [OF t]) (rule protect_live_tv_host_clean)
  then have "list_all no_plaintext hosts'" by (auto simp: list_all2_conv_all_nth list_all_length)
  with tuner_hosts_set [OF assms(2) Some] show ?thesis by (simp add: hosts_clean_def c)
qed

lemma canonical_reference:
  assumes can: "canonical_configuration env ct st = Inr (canonical, st')" and ok: "table_ok env st"
    and fields: "list_all fields_ok (legacy_sources ct)" and legacy: "legacy_sources ct \<noteq> []"
  shows "\<exists>c r. canonical = Some c \<and> reference_from_configuration c = Some r"
proof -
  obtain seed sources where seed: "legacy_sources ct = seed # sources" using legacy by (cases "legacy_sources ct") auto
  with can obtain c where c: "protect_provider_configuration_in_connection env ''xtream'' seed st = Inr (c, st')" "canonical = Some c"
    by (auto simp: canonical_configuration_def Let_def result_iffs)
  have mat: "has_provider_secret_material seed"
    using list.set_intros(1) [of seed sources] unfolding seed [symmetric] legacy_sources_def by simp
  then obtain m where m: "seed = JObj m"
    by (cases seed) (auto simp: has_provider_secret_material_def has_reference_field_def)
  then have "bt_ok m" using fields seed by (simp add: fields_ok_def)
  from protected_configuration_resolves [OF ok this mat [unfolded m] c(1) [unfolded m]] c(2) show ?thesis by blast
qed

lemma backfill_plugin_clean:
  assumes bf: "backfill_plugin env r plugin st = Inr (p', st')" and r: "\<And>c. plugin = Some c \<Longrightarrow> \<not> no_plaintext c \<Longrightarrow> r \<noteq> None"
    and c: "opt_or p' plugin = Some c"
  shows "no_plaintext c"
proof (cases "plugin = None \<or> r = None")
  case True
  with bf have "p' = None" by (auto simp: backfill_plugin_def split: option.splits)
  with c have "plugin = Some c" by (simp add: opt_or_def)
  with r True show ?thesis by blast
next
  case False
  with bf obtain x d st1 where "protect_provider_configuration_in_connection env ''xtream'' x st = Inr (d, st1)"
    "p' = (if Some d \<noteq> plugin then Some d else None)"
    by (auto simp: backfill_plugin_def result_iffs)
  with c protect_clean show ?thesis by (auto simp: opt_or_def split: if_splits)
qed

lemma backfill_named_clean:
  assumes bf: "backfill_named env r named st = Inr (n', st')" and n: "\<And>c. named = Some c \<Longrightarrow> fields_ok c"
    and c: "opt_or n' named = Some c"
  shows "hosts_clean c"
proof (cases named)
  case None
  with bf c show ?thesis by (simp add: backfill_named_def opt_or_def)
next
  case (Some original)
  let ?candidate = "case (r, tuner_hosts original) of
               (Some r, Some hosts) \<Rightarrow>
                 and_then (set_first_host builtin_id (set_provider_secret_reference r) hosts) (\<lambda>hosts.
                   Inr (set_field ''TunerHosts'' (JArr hosts) original))
             | _ \<Rightarrow> Inr original"
  have fields: "fields_ok x" if "?candidate = Inr x" for x
    using that n [OF Some] by (auto simp: result_iffs split: option.splits)
  from Some bf obtain x d st1 where x: "?candidate = Inr x"
    and d: "protect_live_tv_named_configuration_in_connection env x (Some original) st = Inr (d, st1)"
    "n' = (if d \<noteq> original then Some d else None)"
    by (auto simp: backfill_named_def and_then_Inr_iff)
  with c Some protect_named_clean [OF d(1) fields [OF x]] show ?thesis by (auto simp: opt_or_def split: if_splits)
qed

text \<open>
  After the back-fill no configuration holds credentials in clear: not the plugin's, not a tuner's,
  not a tuner host of the named Live TV configuration; and the tuners are the same ones, with the same
  provider types.
\<close>

theorem backfill_leaves_no_plaintext:
  assumes bf: "backfill_legacy_provider_secrets env ct st = Inr ((result, ct'), st')" and ok: "table_ok env st"
    and fields: "list_all fields_ok (legacy_sources ct)" "pred_option fields_ok (ct_named ct)"
  shows "list_all (\<lambda>t. no_plaintext (tu_configuration t)) (ct_tuners ct') \<and> pred_option no_plaintext (ct_plugin ct') \<and>
    pred_option hosts_clean (ct_named ct') \<and>
    map (\<lambda>t. (tu_id t, tu_provider_type t)) (ct_tuners ct') = map (\<lambda>t. (tu_id t, tu_provider_type t)) (ct_tuners ct)"
proof -
  from bf obtain canonical st1 plugin st2 tuners st3 named where
    can: "canonical_configuration env ct st = Inr (canonical, st1)"
    and plugin: "backfill_plugin env (Option.bind canonical reference_from_configuration) (ct_plugin ct) st1 = Inr (plugin, st2)"
    and tuners: "traverse_state (backfill_tuner env (Option.bind canonical reference_from_configuration)) (ct_tuners ct) st2 =
      Inr (tuners, st3)"
    and named: "backfill_named env (Option.bind canonical reference_from_configuration) (ct_named ct) st3 = Inr (named, st')"
    and ct': "ct' = \<lparr> ct_plugin = opt_or plugin (ct_plugin ct), ct_tuners = map2 rewrite_tuner (ct_tuners ct) tuners,
      ct_named = opt_or named (ct_named ct) \<rparr>"
    by (auto simp: backfill_legacy_provider_secrets_def Let_def result_iffs)
  have r: "Option.bind canonical reference_from_configuration \<noteq> None" if "ct_plugin ct = Some c" "\<not> no_plaintext c" for c
  proof -
    have "legacy_sources ct \<noteq> []" using that by (simp add: legacy_sources_def has_provider_secret_material_def)
    from canonical_reference [OF can ok fields(1) this] show ?thesis by auto
  qed
  have all: "list_all2 (\<lambda>_. no_plaintext) (ct_tuners ct) tuners"
    by (rule traverse_state_all [OF tuners]) (auto simp: backfill_tuner_def result_iffs intro: protect_clean)
  then have "list_all (\<lambda>t. no_plaintext (tu_configuration t)) (map2 rewrite_tuner (ct_tuners ct) tuners)"
    "map (\<lambda>t. (tu_id t, tu_provider_type t)) (map2 rewrite_tuner (ct_tuners ct) tuners) = map (\<lambda>t. (tu_id t, tu_provider_type t)) (ct_tuners ct)"
    by (auto simp: list_all_length list_all2_conv_all_nth rewrite_tuner_def intro!: nth_equalityI)
  moreover have "pred_option no_plaintext (opt_or plugin (ct_plugin ct))"
    using backfill_plugin_clean [OF plugin r] by (auto simp: pred_option_def)
  moreover have "pred_option hosts_clean (opt_or named (ct_named ct))"
    using backfill_named_clean [OF named] fields(2) by (auto simp: pred_option_def)
  ultimately show ?thesis by (simp add: ct')
qed

lemma backfill_leaves_no_plaintext_witness:
  "\<exists>result ct' st'. backfill_legacy_provider_secrets plain_env
      \<lparr> ct_plugin = None, ct_tuners =
         [\<lparr> tu_id = ''t'', tu_provider_type = ''xtream'',
            tu_configuration = JObj [(''Password'', JStr ''p''), (''Username'', JStr ''u'')] \<rparr>], ct_named = None \<rparr>
      \<lparr> st_rows = [], st_drawn = 0 \<rparr> = Inr ((result, ct'), st') \<and>
    list_all (\<lambda>t. no_plaintext (tu_configuration t)) (ct_tuners ct') \<and> ct_tuners ct' \<noteq> []"
proof -
  let ?j = "JObj [(''Password'', JStr ''p''), (''Username'', JStr ''u'')]"
  let ?ct = "\<lparr> ct_plugin = None,
    ct_tuners = [\<lparr> tu_id = ''t'', tu_provider_type = ''xtream'', tu_configuration = ?j \<rparr>], ct_named = None \<rparr>"
  let ?st = "\<lparr> st_rows = [], st_drawn = 0 \<rparr>"
  have id: "\<not> eq_ignore_case ''t'' builtin_id" by (simp add: eq_ignore_case_def to_ascii_lowercase_def)
  have none: "legacy_sources ?ct = []"
    by (simp add: legacy_sources_def builtin_tuner_def named_builtin_def id List.map_filter_def)
  have ns: "provider_secret_namespace plain_crypto ''xtream'' ?j = Inr ''xtream''"
    by (simp add: provider_secret_namespace_def derive_provider_secret_namespace_def reference_from_configuration_def jget_def
        has_reference_field_def eq_ignore_case_def to_ascii_lowercase_def char_eval Let_def trim_plain plain_char_def
        check_def)
  from plain_protect obtain c st' where
    pro: "protect_provider_configuration_in_connection plain_env ''xtream'' ?j ?st = Inr (c, st')" by blast
  have mat: "has_provider_secret_material ?j" by (simp add: has_provider_secret_material_def plain_submission)
  have cy: "en_crypto plain_env = plain_crypto" by (simp add: plain_env_def)
  have "\<exists>result ct'. backfill_legacy_provider_secrets plain_env ?ct ?st = Inr ((result, ct'), st') \<and> ct_tuners ct' \<noteq> []"
    by (simp add: backfill_legacy_provider_secrets_def canonical_configuration_def none backfill_plugin_def
        backfill_tuner_def id mat ns cy pro backfill_named_def Let_def)
  then obtain result ct' where bf: "backfill_legacy_provider_secrets plain_env ?ct ?st = Inr ((result, ct'), st')" "ct_tuners ct' \<noteq> []"
    by blast
  have "table_ok plain_env ?st" by (simp add: table_ok_def)
  from backfill_leaves_no_plaintext [OF bf(1) this] none bf show ?thesis by auto
qed

end
