(* ===== verification/Catalog_Cache.thy ===== *)
theory Catalog_Cache
  imports Rust_Result Rust_Text Assoc_Map
begin

text \<open>
  The shared catalogue cache (\<open>crates/jellyrin-api/src/catalog_cache.rs\<close>): the fail-open look-up in Redis
  with its bypass after a failure, the bounded table of per-key locks that keeps an expiry from computing
  one projection many times, and the cache keys. Redis answers are inputs: a value it returns is one it
  was given under that key, and it may lose any value or fail at any time. Serialisation and the hash
  are parameters.
\<close>

section \<open>One request to Redis\<close>

definition max_cache_value_bytes :: nat where
  "max_cache_value_bytes = 512 * 1024"

definition max_single_flight_keys :: nat where
  "max_single_flight_keys = 128"

definition failure_bypass_millis :: nat where
  "failure_bypass_millis = 5000"

datatype 'v lookup = Hit 'v | Miss | Unavailable

datatype redis_get = Get_Failed | Get_Nothing | Get_Payload string

text \<open>
  \<open>cc_store\<close> is what Redis was given, \<open>cc_locks\<close> the table of locks by key, with \<open>cc_next\<close> naming the next
  \<open>Arc\<close>. A lock is the one of a table entry or the overflow lock.
\<close>

record cache =
  cc_store :: "(string, string) hmap"
  cc_bypass_until :: nat
  cc_locks :: "(string, nat) hmap"
  cc_next :: nat

datatype lock = Key_Lock nat | Overflow_Lock

definition trip_bypass :: "nat \<Rightarrow> cache \<Rightarrow> cache" where
  "trip_bypass now c = c\<lparr> cc_bypass_until := sat_add u64_max now failure_bypass_millis \<rparr>"

definition cache_get :: "(string \<Rightarrow> 'v option) \<Rightarrow> nat \<Rightarrow> redis_get \<Rightarrow> cache \<Rightarrow> 'v lookup \<times> cache" where
  "cache_get de now reply c =
     (if now < cc_bypass_until c then (Unavailable, c)
      else case reply of
          Get_Failed \<Rightarrow> (Unavailable, trip_bypass now c)
        | Get_Nothing \<Rightarrow> (Miss, c)
        | Get_Payload payload \<Rightarrow>
            (if max_cache_value_bytes < length payload then Miss
             else case de payload of Some v \<Rightarrow> Hit v | None \<Rightarrow> Miss, c))"

text \<open>Redis may have stored a value although its reply was lost.\<close>

definition cache_put :: "('v \<Rightarrow> string option) \<Rightarrow> nat \<Rightarrow> bool \<Rightarrow> bool \<Rightarrow> string \<Rightarrow> 'v \<Rightarrow> cache \<Rightarrow> cache" where
  "cache_put ser now stored replied key v c =
     (case ser v of
        None \<Rightarrow> c
      | Some payload \<Rightarrow>
          (if max_cache_value_bytes < length payload then c
           else
             (let c = (if stored then c\<lparr> cc_store := hm_insert key payload (cc_store c) \<rparr> else c)
              in if replied then c else trip_bypass now c)))"

section \<open>Tasks\<close>

text \<open>
  A request for a key is a task. It looks up, takes the lock of its key, looks up again, computes and
  stores; the guard lives to the end of the function. \<open>Looking\<close> and \<open>Rechecking\<close> are before an answer of
  Redis, \<open>Bypassing\<close> before the computation that is not stored.
\<close>

datatype 'v phase =
    Looking
  | Missed
  | Waiting lock
  | Rechecking lock
  | Bypassing "lock option"
  | Filling lock
  | Storing lock 'v
  | Finished "'v option" \<comment> \<open>None: the computation failed\<close>

type_synonym 'v tasks = "(nat \<times> (string \<times> 'v phase)) list"

fun wants :: "'v phase \<Rightarrow> lock option" where
  "wants (Waiting l) = Some l"
| "wants (Rechecking l) = Some l"
| "wants (Bypassing l) = l"
| "wants (Filling l) = Some l"
| "wants (Storing l _) = Some l"
| "wants _ = None"

fun holds_lock :: "'v phase \<Rightarrow> lock option" where
  "holds_lock (Waiting _) = None"
| "holds_lock p = wants p"

text \<open>\<open>Arc::strong_count\<close> exceeds one while some task has the lock's handle.\<close>

definition lock_shared :: "'v tasks \<Rightarrow> nat \<Rightarrow> bool" where
  "lock_shared ts i \<longleftrightarrow> list_ex (\<lambda>(_, _, p). wants p = Some (Key_Lock i)) ts"

definition fill_lock :: "'v tasks \<Rightarrow> string \<Rightarrow> cache \<Rightarrow> lock \<times> cache" where
  "fill_lock ts key c =
     (let locks = hm_retain (\<lambda>_ i. lock_shared ts i) (cc_locks c)
      in case map_of locks key of
           Some i \<Rightarrow> (Key_Lock i, c\<lparr> cc_locks := locks \<rparr>)
         | None \<Rightarrow>
             (if max_single_flight_keys \<le> length locks then (Overflow_Lock, c\<lparr> cc_locks := locks \<rparr>)
              else (Key_Lock (cc_next c), c\<lparr> cc_locks := hm_insert key (cc_next c) locks, cc_next := cc_next c + 1 \<rparr>)))"

definition after_first_lookup :: "'v lookup \<Rightarrow> 'v phase" where
  "after_first_lookup r = (case r of Hit v \<Rightarrow> Finished (Some v) | Unavailable \<Rightarrow> Bypassing None | Miss \<Rightarrow> Missed)"

definition after_second_lookup :: "lock \<Rightarrow> 'v lookup \<Rightarrow> 'v phase" where
  "after_second_lookup l r =
     (case r of Hit v \<Rightarrow> Finished (Some v) | Unavailable \<Rightarrow> Bypassing (Some l) | Miss \<Rightarrow> Filling l)"

text \<open>What the environment does between two suspension points of a task.\<close>

datatype 'v event =
    Redis_Get nat redis_get
  | Take_Handle
  | Acquire
  | Computed "'v option"
  | Redis_Set nat bool bool

definition redis_truthful :: "string \<Rightarrow> redis_get \<Rightarrow> cache \<Rightarrow> bool" where
  "redis_truthful key reply c = (case reply of Get_Payload p \<Rightarrow> map_of (cc_store c) key = Some p | _ \<Rightarrow> True)"

definition lock_free :: "'v tasks \<Rightarrow> lock \<Rightarrow> bool" where
  "lock_free ts l \<longleftrightarrow> \<not> list_ex (\<lambda>(_, _, p). holds_lock p = Some l) ts"

fun task_step ::
  "('v \<Rightarrow> string option) \<Rightarrow> (string \<Rightarrow> 'v option) \<Rightarrow> 'v tasks \<Rightarrow> string \<Rightarrow> 'v phase \<Rightarrow> 'v event \<Rightarrow> cache \<Rightarrow>
     ('v phase \<times> cache) option" where
  "task_step ser de ts key Looking (Redis_Get now reply) c =
     (if redis_truthful key reply c
      then (case cache_get de now reply c of (r, c) \<Rightarrow> Some (after_first_lookup r, c)) else None)"
| "task_step ser de ts key Missed Take_Handle c =
     (case fill_lock ts key c of (l, c) \<Rightarrow> Some (Waiting l, c))"
| "task_step ser de ts key (Waiting l) Acquire c = (if lock_free ts l then Some (Rechecking l, c) else None)"
| "task_step ser de ts key (Rechecking l) (Redis_Get now reply) c =
     (if redis_truthful key reply c
      then (case cache_get de now reply c of (r, c) \<Rightarrow> Some (after_second_lookup l r, c)) else None)"
| "task_step ser de ts key (Bypassing l) (Computed r) c = Some (Finished r, c)"
| "task_step ser de ts key (Filling l) (Computed (Some v)) c = Some (Storing l v, c)"
| "task_step ser de ts key (Filling l) (Computed None) c = Some (Finished None, c)"
| "task_step ser de ts key (Storing l v) (Redis_Set now stored replied) c =
     Some (Finished (Some v), cache_put ser now stored replied key v c)"
| "task_step ser de ts key _ _ c = None"

text \<open>
  The whole: requests arrive, take their steps in any order, and may be dropped at any time. \<open>computes\<close>
  says what the database may answer for a key.
\<close>

inductive cache_reach ::
  "('v \<Rightarrow> string option) \<Rightarrow> (string \<Rightarrow> 'v option) \<Rightarrow> (string \<Rightarrow> 'v \<Rightarrow> bool) \<Rightarrow> cache \<Rightarrow> 'v tasks \<Rightarrow> bool"
  for ser de computes where
  connected: "cache_reach ser de computes
      \<lparr> cc_store = [], cc_bypass_until = 0, cc_locks = [], cc_next = 0 \<rparr> []"
| arrive: "cache_reach ser de computes c ts \<Longrightarrow> map_of ts i = None \<Longrightarrow>
    cache_reach ser de computes c (hm_insert i (key, Looking) ts)"
| progress: "cache_reach ser de computes c ts \<Longrightarrow> map_of ts i = Some (key, p) \<Longrightarrow>
    task_step ser de ts key p e c = Some (p', c') \<Longrightarrow> (\<forall>v. e = Computed (Some v) \<longrightarrow> computes key v) \<Longrightarrow>
    cache_reach ser de computes c' (hm_insert i (key, p') ts)"
| cancel: "cache_reach ser de computes c ts \<Longrightarrow> cache_reach ser de computes c (hm_remove i ts)"

section \<open>Cache keys\<close>

definition cache_namespace :: string where
  "cache_namespace = ''jellyrin:catalog:v2''"

definition nul :: char where
  "nul = CHR 0x00"

text \<open>\<open>sort\<close> and \<open>dedup\<close> of strings: by bytes, duplicates once.\<close>

definition sort_dedup :: "'a::linorder list \<Rightarrow> 'a list" where
  "sort_dedup xs = remdups_adj (sort xs)"

text \<open>A hash in hexadecimal, and identifiers as text and as 16 bytes, are parameters.\<close>

definition catalog_page_cache_key :: "(string \<Rightarrow> string) \<Rightarrow> string \<Rightarrow> string" where
  "catalog_page_cache_key sha query_fingerprint = cache_namespace @ '':catalog-page:'' @ sha query_fingerprint"

definition tv_series_listing_digest :: "string \<Rightarrow> string list option \<Rightarrow> string" where
  "tv_series_listing_digest name_filter scope =
     name_filter @ [nul] @
       (case scope of None \<Rightarrow> ''all'' | Some tuners \<Rightarrow> concat (map (\<lambda>t. t @ [nul]) (sort_dedup tuners)))"

definition tv_series_listing_cache_key ::
  "(string \<Rightarrow> string) \<Rightarrow> string option \<Rightarrow> nat \<Rightarrow> nat \<Rightarrow> bool \<Rightarrow> string \<Rightarrow> string list option \<Rightarrow> string" where
  "tv_series_listing_cache_key sha folder start_index limit include_total name_filter scope =
     cache_namespace @ '':tv-series-page:'' @ unwrap_or ''all'' folder @ '':'' @ show_nat start_index @ '':'' @
       show_nat limit @ '':'' @ (if include_total then ''true'' else ''false'') @ '':'' @
       sha (tv_series_listing_digest name_filter scope)"

definition facet_digest :: "string list \<Rightarrow> string list \<Rightarrow> string" where
  "facet_digest folder_ids item_types =
     concat (sort_dedup folder_ids) @ concat (map (\<lambda>t. nul # t) (sort_dedup item_types))"

definition facet_cache_key :: "(string \<Rightarrow> string) \<Rightarrow> string \<Rightarrow> string list \<Rightarrow> string list \<Rightarrow> string" where
  "facet_cache_key sha kind folder_ids item_types =
     cache_namespace @ '':facet:'' @ kind @ '':'' @ sha (facet_digest folder_ids item_types)"

definition folder_counts_cache_key :: string where
  "folder_counts_cache_key = cache_namespace @ '':folder-counts''"

section \<open>The invariant\<close>

fun phase_value :: "'v phase \<Rightarrow> 'v option" where
  "phase_value (Storing _ v) = Some v"
| "phase_value (Finished r) = r"
| "phase_value _ = None"

definition values_ok :: "(string \<Rightarrow> 'v option) \<Rightarrow> (string \<Rightarrow> 'v \<Rightarrow> bool) \<Rightarrow> cache \<Rightarrow> 'v tasks \<Rightarrow> bool" where
  "values_ok de computes c ts \<longleftrightarrow>
     (\<forall>key p v. map_of (cc_store c) key = Some p \<longrightarrow> de p = Some v \<longrightarrow> computes key v) \<and>
     (\<forall>i key p v. map_of ts i = Some (key, p) \<longrightarrow> phase_value p = Some v \<longrightarrow> computes key v)"

definition table_locks_ok :: "cache \<Rightarrow> bool" where
  "table_locks_ok c \<longleftrightarrow> hm_ok (cc_locks c) \<and> length (cc_locks c) \<le> max_single_flight_keys \<and>
     (\<forall>key i. map_of (cc_locks c) key = Some i \<longrightarrow> i < cc_next c) \<and>
     (\<forall>key key' i. map_of (cc_locks c) key = Some i \<longrightarrow> map_of (cc_locks c) key' = Some i \<longrightarrow> key = key')"

text \<open>A lock that a task has a handle of stays the lock of the task's key.\<close>

definition handles_ok :: "cache \<Rightarrow> 'v tasks \<Rightarrow> bool" where
  "handles_ok c ts \<longleftrightarrow>
     (\<forall>t key p i. map_of ts t = Some (key, p) \<longrightarrow> wants p = Some (Key_Lock i) \<longrightarrow> map_of (cc_locks c) key = Some i)"

definition exclusive :: "'v tasks \<Rightarrow> bool" where
  "exclusive ts \<longleftrightarrow>
     (\<forall>t t' key key' p p' l. map_of ts t = Some (key, p) \<longrightarrow> map_of ts t' = Some (key', p') \<longrightarrow>
        holds_lock p = Some l \<longrightarrow> holds_lock p' = Some l \<longrightarrow> t = t')"

definition locks_ok :: "cache \<Rightarrow> 'v tasks \<Rightarrow> bool" where
  "locks_ok c ts \<longleftrightarrow> hm_ok ts \<and> table_locks_ok c \<and> handles_ok c ts \<and> exclusive ts"

lemma holds_wants: "holds_lock p = Some l \<Longrightarrow> wants p = Some l"
  by (cases p) auto

lemma hm_list_ex: "hm_ok ts \<Longrightarrow> list_ex (\<lambda>(_, _, p). P p) ts \<longleftrightarrow> (\<exists>i key p. map_of ts i = Some (key, p) \<and> P p)"
  by (force simp: list_ex_iff hm_get_mem)

lemma fill_lock_spec:
  assumes ok: "locks_ok c ts" and f: "fill_lock ts key c = (l, c')"
  shows "cc_store c' = cc_store c" "hm_ok (cc_locks c')" "length (cc_locks c') \<le> max_single_flight_keys"
    and "map_of (cc_locks c') k = Some i \<Longrightarrow> i < cc_next c'"
    and "map_of (cc_locks c') k = Some i \<Longrightarrow> map_of (cc_locks c') k' = Some i \<Longrightarrow> k = k'"
    and "map_of ts t = Some (k, p) \<Longrightarrow> wants p = Some (Key_Lock i) \<Longrightarrow> map_of (cc_locks c') k = Some i"
    and "l = Key_Lock i \<Longrightarrow> map_of (cc_locks c') key = Some i"
proof -
  define locks where "locks = hm_retain (\<lambda>_ i. lock_shared ts i) (cc_locks c)"
  have hm: "hm_ok ts" "hm_ok (cc_locks c)" and len: "length (cc_locks c) \<le> max_single_flight_keys"
    and fresh: "\<And>k i. map_of (cc_locks c) k = Some i \<Longrightarrow> i < cc_next c"
    and inj: "\<And>k k' i. map_of (cc_locks c) k = Some i \<Longrightarrow> map_of (cc_locks c) k' = Some i \<Longrightarrow> k = k'"
    and held: "\<And>t k p i. map_of ts t = Some (k, p) \<Longrightarrow> wants p = Some (Key_Lock i) \<Longrightarrow> map_of (cc_locks c) k = Some i"
    using ok unfolding locks_ok_def table_locks_ok_def handles_ok_def by blast+
  have sub: "map_of (cc_locks c) k = Some i" if "map_of locks k = Some i" for k i
    using that by (simp add: locks_def map_of_hm_retain hm opt_filter_def split: option.splits if_splits)
  have keep: "map_of locks k = Some i" if "map_of ts t = Some (k, p)" "wants p = Some (Key_Lock i)" for t k p i
    using held [OF that] that hm_list_ex [OF hm(1), of "\<lambda>p. wants p = Some (Key_Lock i)"]
    by (auto simp: locks_def map_of_hm_retain hm opt_filter_def lock_shared_def)
  have locks: "hm_ok locks" "length locks \<le> length (cc_locks c)"
    by (simp_all add: locks_def hm hm_retain_def) (simp add: hm_ok_filter hm)?
  consider (old) j where "map_of locks key = Some j" "l = Key_Lock j" "c' = c\<lparr> cc_locks := locks \<rparr>"
    | (full) "l = Overflow_Lock" "c' = c\<lparr> cc_locks := locks \<rparr>"
    | (new) "map_of locks key = None" "length locks < max_single_flight_keys" "l = Key_Lock (cc_next c)"
      "c' = c\<lparr> cc_locks := hm_insert key (cc_next c) locks, cc_next := cc_next c + 1 \<rparr>"
    using f by (auto simp: fill_lock_def Let_def locks_def [symmetric] split: option.splits if_splits)
  note cases = this
  have "length locks \<le> max_single_flight_keys" using locks(2) len by simp
  moreover have "\<forall>k i. map_of locks k = Some i \<longrightarrow> i < cc_next c" using sub fresh by blast
  moreover have "\<forall>k k' i. map_of locks k = Some i \<longrightarrow> map_of locks k' = Some i \<longrightarrow> k = k'" using sub inj by blast
  moreover have "\<forall>t k p i. map_of ts t = Some (k, p) \<longrightarrow> wants p = Some (Key_Lock i) \<longrightarrow> map_of locks k = Some i"
    using keep by blast
  ultimately have base: "hm_ok locks \<and> length locks \<le> max_single_flight_keys \<and>
     (\<forall>k i. map_of locks k = Some i \<longrightarrow> i < cc_next c) \<and>
     (\<forall>k k' i. map_of locks k = Some i \<longrightarrow> map_of locks k' = Some i \<longrightarrow> k = k') \<and>
     (\<forall>t k p i. map_of ts t = Some (k, p) \<longrightarrow> wants p = Some (Key_Lock i) \<longrightarrow> map_of locks k = Some i)"
    using locks(1) by blast
  have all: "cc_store c' = cc_store c \<and> hm_ok (cc_locks c') \<and> length (cc_locks c') \<le> max_single_flight_keys \<and>
     (\<forall>k i. map_of (cc_locks c') k = Some i \<longrightarrow> i < cc_next c') \<and>
     (\<forall>k k' i. map_of (cc_locks c') k = Some i \<longrightarrow> map_of (cc_locks c') k' = Some i \<longrightarrow> k = k') \<and>
     (\<forall>t k p i. map_of ts t = Some (k, p) \<longrightarrow> wants p = Some (Key_Lock i) \<longrightarrow> map_of (cc_locks c') k = Some i) \<and>
     (\<forall>i. l = Key_Lock i \<longrightarrow> map_of (cc_locks c') key = Some i)"
    using cases
  proof cases
    case new
    have "map_of locks k \<noteq> Some (cc_next c)" for k using sub fresh by blast
    note unused = this
    have m: "map_of (cc_locks c') = (map_of locks)(key \<mapsto> cc_next c)" "cc_next c' = Suc (cc_next c)" "cc_store c' = cc_store c"
      by (simp_all add: new(4))
    have "hm_ok (cc_locks c')" "length (cc_locks c') \<le> max_single_flight_keys"
      using new(1,2) locks by (simp_all add: new(4) length_hm_insert hm_contains_def)
    moreover have "\<forall>k i. map_of (cc_locks c') k = Some i \<longrightarrow> i < cc_next c'"
      unfolding m using less_SucI [OF fresh [OF sub]] by simp
    moreover have "\<forall>k k' i. map_of (cc_locks c') k = Some i \<longrightarrow> map_of (cc_locks c') k' = Some i \<longrightarrow> k = k'"
      unfolding m fun_upd_apply using unused sub inj by (metis option.inject)
    moreover have "\<forall>t k p i. map_of ts t = Some (k, p) \<longrightarrow> wants p = Some (Key_Lock i) \<longrightarrow> map_of (cc_locks c') k = Some i"
    proof (intro allI impI)
      fix t k p i
      assume "map_of ts t = Some (k, p)" "wants p = Some (Key_Lock i)"
      with keep have "map_of locks k = Some i" by blast
      with new(1) show "map_of (cc_locks c') k = Some i" unfolding m by auto
    qed
    moreover have "\<forall>i. l = Key_Lock i \<longrightarrow> map_of (cc_locks c') key = Some i" using new(3) m(1) by simp
    ultimately show ?thesis using m(3) by blast
  next
    case (old j)
    then have "cc_locks c' = locks" "cc_next c' = cc_next c" "cc_store c' = cc_store c"
      "\<forall>i. l = Key_Lock i \<longrightarrow> map_of locks key = Some i" by simp_all
    with base show ?thesis by presburger
  next
    case full
    then have "cc_locks c' = locks" "cc_next c' = cc_next c" "cc_store c' = cc_store c"
      "\<forall>i. l = Key_Lock i \<longrightarrow> map_of locks key = Some i" by simp_all
    with base show ?thesis by presburger
  qed
  then show "cc_store c' = cc_store c" "hm_ok (cc_locks c')" "length (cc_locks c') \<le> max_single_flight_keys"
    and "map_of (cc_locks c') k = Some i \<Longrightarrow> i < cc_next c'"
    and "map_of (cc_locks c') k = Some i \<Longrightarrow> map_of (cc_locks c') k' = Some i \<Longrightarrow> k = k'"
    and "map_of ts t = Some (k, p) \<Longrightarrow> wants p = Some (Key_Lock i) \<Longrightarrow> map_of (cc_locks c') k = Some i"
    and "l = Key_Lock i \<Longrightarrow> map_of (cc_locks c') key = Some i"
    by blast+
qed

lemma exclusive_insert:
  assumes "exclusive ts"
    and "\<And>l t2 key2 p2. holds_lock p' = Some l \<Longrightarrow> t2 \<noteq> t \<Longrightarrow> map_of ts t2 = Some (key2, p2) \<Longrightarrow> holds_lock p2 \<noteq> Some l"
  shows "exclusive (hm_insert t (key, p') ts)"
  using assms unfolding exclusive_def map_of_hm_insert fun_upd_apply by (metis option.inject prod.inject)

lemma handles_insert:
  assumes "handles_ok c ts" "\<And>i. wants p' = Some (Key_Lock i) \<Longrightarrow> map_of (cc_locks c) key = Some i"
  shows "handles_ok c (hm_insert t (key, p') ts)"
  using assms unfolding handles_ok_def map_of_hm_insert fun_upd_apply by (metis option.inject prod.inject)

lemma same_tables: "cc_locks c' = cc_locks c \<Longrightarrow> cc_next c' = cc_next c \<Longrightarrow>
    table_locks_ok c' = table_locks_ok c \<and> handles_ok c' ts = handles_ok c ts"
  by (simp add: table_locks_ok_def handles_ok_def)

lemma locks_ok_keep:
  assumes ok: "locks_ok c ts" and t: "map_of ts t = Some (key, p)" and c: "cc_locks c' = cc_locks c" "cc_next c' = cc_next c"
    and w: "wants p' = None \<or> wants p' = wants p" and h: "holds_lock p' = None \<or> holds_lock p' = holds_lock p"
  shows "locks_ok c' (hm_insert t (key, p') ts)"
proof -
  note ok' = ok [unfolded locks_ok_def]
  have "t2 = t" if "map_of ts t2 = Some (k2, p2)" "holds_lock p2 = Some l" "holds_lock p = Some l" for t2 k2 p2 l
    using ok' t that unfolding exclusive_def by blast
  then have "exclusive (hm_insert t (key, p') ts)"
    using h ok' by (intro exclusive_insert) (blast, metis option.discI)
  moreover have "handles_ok c (hm_insert t (key, p') ts)"
    by (rule handles_insert) (use ok' t w in \<open>auto simp: handles_ok_def\<close>)
  ultimately show ?thesis using ok' same_tables [OF c, of "hm_insert t (key, p') ts"] by (simp add: locks_ok_def)
qed

lemma locks_ok_take:
  assumes ok: "locks_ok c ts" and f: "fill_lock ts key c = (l, c')"
  shows "locks_ok c' (hm_insert t (key, Waiting l) ts)"
proof -
  note spec = fill_lock_spec [OF ok f]
  have "exclusive (hm_insert t (key, Waiting l) ts)"
    by (rule exclusive_insert) (use ok in \<open>auto simp: locks_ok_def\<close>)
  moreover have "handles_ok c' ts" unfolding handles_ok_def using spec(6) by blast
  then have "handles_ok c' (hm_insert t (key, Waiting l) ts)"
    by (rule handles_insert) (use spec(7) in auto)
  moreover have "table_locks_ok c'" unfolding table_locks_ok_def using spec(2-5) by blast
  ultimately show ?thesis using ok by (simp add: locks_ok_def)
qed

lemma locks_ok_acquire:
  assumes ok: "locks_ok c ts" and t: "map_of ts t = Some (key, Waiting l)" and free: "lock_free ts l"
  shows "locks_ok c (hm_insert t (key, Rechecking l) ts)"
proof -
  have hm: "hm_ok ts" using ok by (simp add: locks_ok_def)
  have "exclusive (hm_insert t (key, Rechecking l) ts)"
    by (rule exclusive_insert)
      (use ok free hm_list_ex [OF hm, of "\<lambda>p. holds_lock p = Some l"] in \<open>auto simp: locks_ok_def lock_free_def\<close>)
  moreover have "handles_ok c (hm_insert t (key, Rechecking l) ts)"
    by (rule handles_insert) (use ok t in \<open>auto simp: locks_ok_def handles_ok_def\<close>)
  ultimately show ?thesis using ok by (simp add: locks_ok_def)
qed

lemma cache_get_fields:
  "cache_get de now reply c = (r, c') \<Longrightarrow> cc_locks c' = cc_locks c \<and> cc_next c' = cc_next c \<and> cc_store c' = cc_store c"
  by (auto simp: cache_get_def trip_bypass_def split: if_splits redis_get.splits)

lemma cache_put_fields:
  "cc_locks (cache_put ser now stored replied key v c) = cc_locks c" "cc_next (cache_put ser now stored replied key v c) = cc_next c"
  by (auto simp: cache_put_def trip_bypass_def Let_def split: option.splits)

fun_cases task_stepE: "task_step ser de ts key p e c = Some r"

lemma task_step_locks:
  assumes ok: "locks_ok c ts" and t: "map_of ts i = Some (key, p)" and st: "task_step ser de ts key p e c = Some (p', c')"
  shows "locks_ok c' (hm_insert i (key, p') ts)"
  using st
proof (cases rule: task_stepE [consumes 1])
  case 1
  then obtain r now reply where "cache_get de now reply c = (r, c')" "p' = after_first_lookup r"
    by (auto split: if_splits prod.splits)
  with cache_get_fields [OF this(1)] show ?thesis
    by (intro locks_ok_keep [OF ok t]) (auto simp: after_first_lookup_def split: lookup.split)
next
  case 2
  then obtain l where "fill_lock ts key c = (l, c')" "p' = Waiting l" by (auto split: prod.splits)
  with locks_ok_take [OF ok] show ?thesis by simp
next
  case (3 l)
  with locks_ok_acquire [OF ok] t show ?thesis by (auto split: if_splits)
next
  case (4 l now reply)
  then obtain r where "cache_get de now reply c = (r, c')" "p' = after_second_lookup l r"
    by (auto split: if_splits prod.splits)
  with cache_get_fields [OF this(1)] 4 show ?thesis
    by (intro locks_ok_keep [OF ok t]) (auto simp: after_second_lookup_def split: lookup.split)
next
  case 8
  then show ?thesis by (intro locks_ok_keep [OF ok t]) (auto simp: cache_put_fields)
qed (intro locks_ok_keep [OF ok t]; simp)+

lemma values_insert:
  assumes "values_ok de computes c ts" "cc_store c' = cc_store c" "\<And>v. phase_value p' = Some v \<Longrightarrow> computes key v"
  shows "values_ok de computes c' (hm_insert t (key, p') ts)"
  using assms unfolding values_ok_def map_of_hm_insert fun_upd_apply by (metis option.inject prod.inject)

lemma cache_get_value:
  assumes "values_ok de computes c ts" "redis_truthful key reply c" "cache_get de now reply c = (Hit v, c')"
  shows "computes key v"
  using assms by (auto simp: cache_get_def values_ok_def redis_truthful_def split: if_splits redis_get.splits option.splits)

lemma cache_put_values:
  assumes "values_ok de computes c ts" "computes key v" "\<And>v s. ser v = Some s \<Longrightarrow> de s = Some v"
  shows "values_ok de computes (cache_put ser now stored replied key v c) ts"
  using assms by (auto simp: cache_put_def values_ok_def trip_bypass_def Let_def split: option.splits)

lemma task_step_values:
  assumes ok: "values_ok de computes c ts" and t: "map_of ts i = Some (key, p)"
    and st: "task_step ser de ts key p e c = Some (p', c')"
    and e: "\<And>v. e = Computed (Some v) \<Longrightarrow> computes key v" and rt: "\<And>v s. ser v = Some s \<Longrightarrow> de s = Some v"
  shows "values_ok de computes c' (hm_insert i (key, p') ts)"
  using st
proof (cases rule: task_stepE [consumes 1])
  case 1
  then obtain r now reply where r: "cache_get de now reply c = (r, c')" "p' = after_first_lookup r" "redis_truthful key reply c"
    by (auto split: if_splits prod.splits)
  show ?thesis
    by (rule values_insert [OF ok]) (use cache_get_fields [OF r(1)] cache_get_value [OF ok r(3)] r in
        \<open>auto simp: after_first_lookup_def split: lookup.splits\<close>)
next
  case 2
  then obtain l where "fill_lock ts key c = (l, c')" "p' = Waiting l" by (auto split: prod.splits)
  then show ?thesis by (intro values_insert [OF ok]) (auto simp: fill_lock_def Let_def split: option.splits if_splits)
next
  case (3 l)
  then show ?thesis by (intro values_insert [OF ok]) (auto split: if_splits)
next
  case (4 l now reply)
  then obtain r where r: "cache_get de now reply c = (r, c')" "p' = after_second_lookup l r" "redis_truthful key reply c"
    by (auto split: if_splits prod.splits)
  show ?thesis
    by (rule values_insert [OF ok]) (use cache_get_fields [OF r(1)] cache_get_value [OF ok r(3)] r in
        \<open>auto simp: after_second_lookup_def split: lookup.splits\<close>)
next
  case (8 l v now stored replied)
  then have "computes key v" using ok t by (simp add: values_ok_def)
  from values_insert [OF cache_put_values [OF ok this rt] refl, where t = i and p' = p'] this 8 show ?thesis by simp
qed (intro values_insert [OF ok]; use e in simp)+

lemma hm_remove_invariants:
  assumes "locks_ok c ts \<and> values_ok de computes c ts"
  shows "locks_ok c (hm_remove i ts) \<and> values_ok de computes c (hm_remove i ts)"
  using assms unfolding locks_ok_def values_ok_def handles_ok_def exclusive_def map_of_hm_remove fun_upd_apply
  by (auto split: if_splits)

lemma cache_reach_ok:
  assumes "cache_reach ser de computes c ts" "\<And>v s. ser v = Some s \<Longrightarrow> de s = Some v"
  shows "locks_ok c ts \<and> values_ok de computes c ts"
  using assms(1)
proof (induction rule: cache_reach.induct)
  case connected
  show ?case by (simp add: locks_ok_def table_locks_ok_def handles_ok_def exclusive_def values_ok_def)
next
  case (arrive c ts i key)
  have "exclusive (hm_insert i (key, Looking) ts)" "handles_ok c (hm_insert i (key, Looking) ts)"
    using arrive.IH by (auto simp: locks_ok_def intro!: exclusive_insert handles_insert)
  moreover have "values_ok de computes c (hm_insert i (key, Looking) ts)"
    using arrive.IH by (intro values_insert) auto
  ultimately show ?case using arrive.IH by (simp add: locks_ok_def)
next
  case (progress c ts i key p e p' c')
  with task_step_locks [OF _ progress.hyps(2,3)] task_step_values [OF _ progress.hyps(2,3) _ assms(2)] show ?case by blast
next
  case (cancel c ts i)
  show ?case by (rule hm_remove_invariants [OF cancel.IH])
qed

section \<open>What the cache guarantees\<close>

text \<open>
  C19. Whatever Redis answers, loses or fails to answer, and however requests interleave or are dropped,
  a value returned for a key is one the database computed for that key.
\<close>

theorem shared_payload_is_computed:
  assumes rt: "\<And>v s. ser v = Some s \<Longrightarrow> de s = Some v" and reach: "cache_reach ser de computes c ts"
    and t: "map_of ts i = Some (key, Finished (Some v))"
  shows "computes key v"
  using cache_reach_ok [OF reach rt] t by (auto simp: values_ok_def)

text \<open>The tasks that hold a lock on behalf of a key: those past the second look-up included.\<close>

definition fillers :: "'v tasks \<Rightarrow> string \<Rightarrow> nat set" where
  "fillers ts key = {i. \<exists>p. map_of ts i = Some (key, p) \<and> holds_lock p \<noteq> None}"

text \<open>
  C28. Requests for one key fill it one at a time, apart from at most one more that was queued on the
  overflow lock while the table of 128 locks was full; the table never grows beyond that.
\<close>

theorem single_flight:
  assumes rt: "\<And>v s. ser v = Some s \<Longrightarrow> de s = Some v" and reach: "cache_reach ser de computes c ts"
  shows "card (fillers ts key) \<le> 2 \<and> length (cc_locks c) \<le> max_single_flight_keys \<and>
    (card (fillers ts key) = 2 \<longrightarrow> (\<exists>i p. map_of ts i = Some (key, p) \<and> holds_lock p = Some Overflow_Lock))"
proof -
  have ok: "locks_ok c ts" using cache_reach_ok [OF reach rt] by blast
  define lock_of where "lock_of i = (case map_of ts i of Some (_, p) \<Rightarrow> holds_lock p | None \<Rightarrow> None)" for i
  have l: "lock_of i = holds_lock p" if "map_of ts i = Some (key, p)" for i p using that by (simp add: lock_of_def)
  let ?locks = "{Some Overflow_Lock, map_option Key_Lock (map_of (cc_locks c) key)}"
  have range: "lock_of ` fillers ts key \<subseteq> ?locks"
  proof
    fix x
    assume "x \<in> lock_of ` fillers ts key"
    then obtain i p y where i: "map_of ts i = Some (key, p)" "holds_lock p = Some y" "x = Some y"
      using l by (auto simp: fillers_def)
    show "x \<in> ?locks"
    proof (cases y)
      case (Key_Lock j)
      with i ok holds_wants [of p] have "map_of (cc_locks c) key = Some j" by (auto simp: locks_ok_def handles_ok_def)
      with i Key_Lock show ?thesis by simp
    qed (use i in simp)
  qed
  have inj: "inj_on lock_of (fillers ts key)"
  proof (rule inj_onI)
    fix i j
    assume "i \<in> fillers ts key" "j \<in> fillers ts key" "lock_of i = lock_of j"
    then obtain p q y where "map_of ts i = Some (key, p)" "map_of ts j = Some (key, q)" "holds_lock p = Some y" "holds_lock q = Some y"
      using l by (auto simp: fillers_def)
    then show "i = j" using ok unfolding locks_ok_def exclusive_def by blast
  qed
  have card: "card (fillers ts key) = card (lock_of ` fillers ts key)" by (rule card_image [OF inj, symmetric])
  also have "\<dots> \<le> card ?locks" by (rule card_mono [OF _ range]) simp
  also have "\<dots> \<le> 2" by (simp add: card_insert_if)
  finally have two: "card (fillers ts key) \<le> 2" .
  have "\<exists>i p. map_of ts i = Some (key, p) \<and> holds_lock p = Some Overflow_Lock" if c2: "card (fillers ts key) = 2"
  proof -
    have "Some Overflow_Lock \<in> lock_of ` fillers ts key"
    proof (rule ccontr)
      assume "Some Overflow_Lock \<notin> lock_of ` fillers ts key"
      then have "lock_of ` fillers ts key \<subseteq> {map_option Key_Lock (map_of (cc_locks c) key)}"
        by (rule subset_insert [THEN iffD1, OF _ range])
      from card_mono [OF _ this] have "card (lock_of ` fillers ts key) \<le> 1" by simp
      with card c2 show False by simp
    qed
    then obtain i where i: "i \<in> fillers ts key" "lock_of i = Some Overflow_Lock" by force
    then obtain p where "map_of ts i = Some (key, p)" by (auto simp: fillers_def)
    with l i(2) show ?thesis by auto
  qed
  with two ok show ?thesis by (simp add: locks_ok_def table_locks_ok_def)
qed

lemma served_request:
  "cache_reach Some Some (\<lambda>_ v. v = ''v'') \<lparr> cc_store = [], cc_bypass_until = 5000, cc_locks = [], cc_next = 0 \<rparr>
     [(0, (''k'', Finished (Some ''v'')))]"
proof -
  let ?R = "cache_reach Some Some (\<lambda>_ v. v = ''v'')"
  let ?c0 = "\<lparr> cc_store = [], cc_bypass_until = 0, cc_locks = [], cc_next = 0 \<rparr>"
  let ?c1 = "\<lparr> cc_store = [], cc_bypass_until = 5000, cc_locks = [], cc_next = 0 \<rparr>"
  have 1: "?R ?c0 [(0, (''k'', Looking))]"
    using cache_reach.arrive [OF cache_reach.connected, of 0 Some Some "\<lambda>_ v. v = ''v''" "''k''"]
    by (simp add: hm_insert_def)
  have 2: "?R ?c1 [(0, (''k'', Bypassing None))]"
    using cache_reach.progress [OF 1, of 0 "''k''" Looking "Redis_Get 0 Get_Failed" "Bypassing None" ?c1]
    by (simp add: redis_truthful_def cache_get_def trip_bypass_def after_first_lookup_def failure_bypass_millis_def
        sat_add_def hm_insert_def)
  show ?thesis
    using cache_reach.progress [OF 2, of 0 "''k''" "Bypassing None" "Computed (Some ''v'')" "Finished (Some ''v'')" ?c1]
    by (simp add: hm_insert_def)
qed

lemma shared_payload_is_computed_witness: "(\<lambda>_ v. v = ''v'') ''k'' ''v''"
  by (rule shared_payload_is_computed [OF _ served_request, of 0]) simp_all

lemma single_flight_witness: "card (fillers [(0, (''k'', Finished (Some ''v'')))] ''k'') \<le> 2"
  using single_flight [OF _ served_request, of "''k''"] by simp

section \<open>Canonical keys\<close>

lemma distinct_remdups_adj_sorted: "sorted xs \<Longrightarrow> distinct (remdups_adj xs)"
  by (induction xs rule: remdups_adj.induct) auto

lemma sort_dedup_set: "set xs = set ys \<Longrightarrow> sort_dedup xs = sort_dedup ys"
  by (rule sorted_distinct_set_unique) (simp_all add: sort_dedup_def distinct_remdups_adj_sorted)

text \<open>
  The key of a facet listing does not depend on the order or the repetition of the folders and of the
  item types.
\<close>

theorem facet_cache_key_canonical:
  "set folders = set folders' \<Longrightarrow> set types = set types' \<Longrightarrow>
   facet_cache_key sha kind folders types = facet_cache_key sha kind folders' types'"
  by (simp add: facet_cache_key_def facet_digest_def sort_dedup_set [of folders folders'] sort_dedup_set [of types types'])

lemma facet_cache_key_canonical_witness:
  "facet_cache_key (\<lambda>s. s) ''Genre'' [''b'', ''a'', ''b''] [] = facet_cache_key (\<lambda>s. s) ''Genre'' [''a'', ''b''] []"
  by (rule facet_cache_key_canonical) auto

text \<open>
  The key of a series listing separates the visibility scopes only as long as the name filter holds no
  NUL: with one, the page cached for another scope is found.
\<close>

lemma tv_series_listing_key_collision:
  "tv_series_listing_cache_key sha folder start n with_total ''x'' (Some [''t1'', ''t2'']) =
   tv_series_listing_cache_key sha folder start n with_total (''x'' @ nul # ''t1'') (Some [''t2''])"
  by (simp add: tv_series_listing_cache_key_def tv_series_listing_digest_def sort_dedup_def)

end
