(* ===== verification/Canonical_Decimal.thy ===== *)
theory Canonical_Decimal
  imports Rust_Text Complex_Main
begin

text \<open>
  The canonical spelling of a JSON number in the digests of the migration tool
  (\<open>canonical_decimal\<close> of \<open>crates/jellyrin-migrate/src/value.rs\<close>, 276--314), and its specification: two
  spellings get the same canonical one exactly when they are the same number. The exponent's parse failure,
  a panic in the code, is None; the sum of exponents is an \<open>i64\<close> in the code and an integer here, as
  the exponents of the numbers \<open>serde_json\<close> prints are small.
\<close>

definition exponent_mark :: "char \<Rightarrow> bool" where
  "exponent_mark c \<longleftrightarrow> c = CHR ''e'' \<or> c = CHR ''E''"

definition split_exponent :: "string \<Rightarrow> (string \<times> string) option" where
  "split_exponent s =
     (let m = takeWhile (\<lambda>c. \<not> exponent_mark c) s
      in if m = s then None else Some (m, drop (Suc (length m)) s))"

text \<open>Sign, integer digits, fraction digits and exponent.\<close>

definition decimal_parts :: "string \<Rightarrow> (bool \<times> string \<times> string \<times> int) option" where
  "decimal_parts raw =
     (let (negative, unsigned) = (case strip_prefix ''-'' raw of Some v \<Rightarrow> (True, v) | None \<Rightarrow> (False, raw))
      in map_option (\<lambda>(mantissa, e).
           let (i, f) = unwrap_or (mantissa, []) (split_once (CHR ''.'') mantissa) in (negative, i, f, e))
         (case split_exponent unsigned of
            None \<Rightarrow> Some (unsigned, 0)
          | Some (m, e) \<Rightarrow> map_option (Pair m) (parse_i64 e)))"

definition canonical_digits :: "bool \<Rightarrow> string \<Rightarrow> string \<Rightarrow> int \<Rightarrow> string" where
  "canonical_digits negative i f e =
     (let digits = dropWhile (\<lambda>c. c = CHR ''0'') (i @ f); power = e - int (length f)
      in if digits = [] then ''0''
         else
           (let zeros = length (takeWhile (\<lambda>c. c = CHR ''0'') (rev digits))
            in (if negative then ''-'' else []) @ take (length digits - zeros) digits @ ''e'' @
               show_int (power + int zeros)))"

definition canonical_decimal :: "string \<Rightarrow> string option" where
  "canonical_decimal raw = map_option (\<lambda>(negative, i, f, e). canonical_digits negative i f e) (decimal_parts raw)"

section \<open>The number a spelling stands for\<close>

definition parts_value :: "bool \<times> string \<times> string \<times> int \<Rightarrow> real" where
  "parts_value p =
     (case p of (negative, i, f, e) \<Rightarrow>
        (if negative then -1 else 1) * real (digits_value (i @ f)) * 10 powi (e - int (length f)))"

definition decimal_value :: "string \<Rightarrow> real option" where
  "decimal_value raw = map_option parts_value (decimal_parts raw)"

definition decimal_digits :: "string \<Rightarrow> bool" where
  "decimal_digits raw \<longleftrightarrow>
     (case decimal_parts raw of None \<Rightarrow> False | Some (_, i, f, _) \<Rightarrow> list_all is_digit (i @ f))"

section \<open>Digits\<close>

lemma digits_value_zero_digit: "digit_value (CHR ''0'') = 0"
  by (simp add: digit_value_def byte_def)

lemma digits_value_Cons0: "digits_value (CHR ''0'' # s) = digits_value s"
  using digits_value_append [of "''0''" s] by (simp add: digits_value_def digits_value_zero_digit)

lemma digits_value_dropWhile: "digits_value (dropWhile (\<lambda>c. c = CHR ''0'') s) = digits_value s"
  by (induction s) (auto simp: digits_value_Cons0)

lemma digits_value_pos:
  assumes "list_all is_digit (c # s)" "c \<noteq> CHR ''0''"
  shows "10 ^ length s \<le> digits_value (c # s)"
proof -
  have "byte c \<noteq> byte (CHR ''0'')" using assms(2) byte_inj by blast
  then have "1 \<le> digit_value c" using assms(1) by (auto simp: digit_value_def is_digit_def byte_def)
  moreover have "digits_value (c # s) = digit_value c * 10 ^ length s + digits_value s"
    using digits_value_append [of "[c]" s] by (simp add: digits_value_def)
  ultimately show ?thesis by (metis le_add1 le_trans mult_le_mono1 nat_mult_1)
qed

lemma digits_value_bound: "list_all is_digit s \<Longrightarrow> digits_value s < 10 ^ length s"
proof (induction s rule: rev_induct)
  case (snoc c s)
  then have "digit_value c \<le> 9" "digits_value s < 10 ^ length s" by (auto simp: digit_value_def is_digit_def)
  then show ?case by (simp add: digits_value_snoc)
qed simp

lemma digits_value_inject:
  "list_all is_digit s \<Longrightarrow> list_all is_digit t \<Longrightarrow> length s = length t \<Longrightarrow> digits_value s = digits_value t \<Longrightarrow> s = t"
proof (induction s arbitrary: t rule: rev_induct)
  case (snoc c s)
  then obtain d u where t: "t = u @ [d]" by (cases t rule: rev_cases) auto
  have bound: "digit_value c < 10" "digit_value d < 10" using snoc.prems(1,2) t by (auto simp: digit_value_def is_digit_def)
  have eq: "10 * digits_value s + digit_value c = 10 * digits_value u + digit_value d"
    using snoc.prems(4) by (simp add: t digits_value_snoc)
  then have "digits_value s = digits_value u" "digit_value c = digit_value d" using bound by presburger+
  moreover have "48 \<le> byte c" "48 \<le> byte d" using snoc.prems(1,2) t by (simp_all add: is_digit_def)
  with calculation(2) have "byte c = byte d" by (simp add: digit_value_def del: byte_inj)
  ultimately show ?case using snoc t by auto
qed simp

lemma digits_unique:
  assumes "list_all is_digit s" "list_all is_digit t" "s \<noteq> []" "t \<noteq> []" "hd s \<noteq> CHR ''0''" "hd t \<noteq> CHR ''0''"
    and eq: "digits_value s = digits_value t"
  shows "s = t"
proof -
  have len: "length u \<le> length v"
    if u: "list_all is_digit u" "u \<noteq> []" "hd u \<noteq> CHR ''0''" and v: "list_all is_digit v" "digits_value u = digits_value v" for u v
  proof -
    obtain c r where "u = c # r" using u(2) by (cases u) auto
    with digits_value_pos [of c r] u v(2) have "(10::nat) ^ length r \<le> digits_value v" by simp
    also have "\<dots> < 10 ^ length v" by (rule digits_value_bound [OF v(1)])
    finally have "(10::nat) ^ length r < 10 ^ length v" .
    from power_less_imp_less_exp [OF _ this] show ?thesis using \<open>u = c # r\<close> by simp
  qed
  have "length s = length t" using len [of s t] len [of t s] assms by (intro le_antisym) auto
  then show ?thesis using digits_value_inject assms by blast
qed

lemma last_digit_not_ten:
  assumes "list_all is_digit s" "s \<noteq> []" "last s \<noteq> CHR ''0''"
  shows "\<not> 10 dvd digits_value s"
proof -
  obtain r c where s: "s = r @ [c]" using assms(2) by (cases s rule: rev_cases) auto
  have "byte c \<noteq> byte (CHR ''0'')" using assms(3) s byte_inj by fastforce
  then have "0 < digit_value c" "digit_value c < 10" using assms(1) s by (auto simp: digit_value_def is_digit_def byte_def)
  then show ?thesis by (simp add: s digits_value_snoc) presburger
qed

section \<open>Spellings of one number\<close>

text \<open>A canonical spelling other than \<open>0\<close> is a sign, a number without a trailing zero, and a power of ten.\<close>

definition normal_digits :: "string \<Rightarrow> bool" where
  "normal_digits d \<longleftrightarrow> d \<noteq> [] \<and> list_all is_digit d \<and> hd d \<noteq> CHR ''0'' \<and> last d \<noteq> CHR ''0''"

lemma canonical_digits_cases:
  assumes "list_all is_digit (i @ f)"
  obtains "digits_value (i @ f) = 0" "canonical_digits negative i f e = ''0''"
  | d p where "normal_digits d" "canonical_digits negative i f e = (if negative then ''-'' else []) @ d @ ''e'' @ show_int p"
      "parts_value (negative, i, f, e) = (if negative then -1 else 1) * real (digits_value d) * 10 powi p"
proof -
  let ?z = "\<lambda>c. c = CHR ''0''"
  define digits where "digits = dropWhile ?z (i @ f)"
  have all: "list_all is_digit digits" using assms by (auto simp: digits_def list_all_iff dest: set_dropWhileD)
  have val: "digits_value digits = digits_value (i @ f)" by (simp add: digits_def digits_value_dropWhile)
  show thesis
  proof (cases "digits = []")
    case True
    then show thesis using that(1) val by (simp add: canonical_digits_def digits_def [symmetric])
  next
    case False
    define k where "k = length (takeWhile ?z (rev digits))"
    define d where "d = take (length digits - k) digits"
    have hd: "hd digits \<noteq> CHR ''0''" using False hd_dropWhile [of ?z "i @ f"] by (simp add: digits_def)
    have tail: "takeWhile ?z (rev digits) = replicate k (CHR ''0'')"
      unfolding k_def by (intro replicate_eqI) (auto dest: set_takeWhileD)
    have d: "d = rev (dropWhile ?z (rev digits))"
      by (simp add: d_def k_def dropWhile_eq_drop rev_drop)
    have "rev digits = takeWhile ?z (rev digits) @ dropWhile ?z (rev digits)" by simp
    then have split: "digits = d @ replicate k (CHR ''0'')"
      unfolding tail d by (metis rev_append rev_replicate rev_rev_ident)
    have "d \<noteq> []"
    proof
      assume "d = []"
      with split False hd show False by (cases k) auto
    qed
    moreover have "last d \<noteq> CHR ''0''"
      using \<open>d \<noteq> []\<close> hd_dropWhile [of ?z "rev digits"] by (simp add: d last_rev)
    ultimately have normal: "normal_digits d" using all hd split by (simp add: normal_digits_def)
    have spelling: "canonical_digits negative i f e =
        (if negative then ''-'' else []) @ d @ ''e'' @ show_int (e - int (length f) + int k)"
      using False by (simp add: canonical_digits_def digits_def [symmetric] Let_def d_def k_def)
    have "real (digits_value (i @ f)) = real (digits_value d) * 10 ^ k"
      by (simp add: val [symmetric]) (simp add: split digits_value_append)
    then have "parts_value (negative, i, f, e) =
        (if negative then -1 else 1) * real (digits_value d) * (10 powi int k * 10 powi (e - int (length f)))"
      by (simp add: parts_value_def)
    also have "\<dots> = (if negative then -1 else 1) * real (digits_value d) * 10 powi (e - int (length f) + int k)"
      by (simp add: power_int_add mult.commute)
    finally show thesis by (rule that(2) [OF normal spelling])
  qed
qed

lemma not_ten_unique:
  assumes eq: "real a * 10 powi p = real b * 10 powi q" and a: "\<not> 10 dvd a" and b: "\<not> 10 dvd b"
  shows "a = b \<and> p = q"
proof -
  have le: "p \<le> q" if eq: "real a * 10 powi p = real b * 10 powi q" and a: "\<not> 10 dvd b" for a b :: nat and p q
  proof (rule ccontr)
    assume "\<not> p \<le> q"
    then obtain k where k: "p - q = int (Suc k)" by (metis Suc_pred diff_gt_0_iff_gt not_le zero_less_imp_eq_int of_nat_0_less_iff)
    have "real a * 10 powi (p - q) = real b" using eq by (simp add: power_int_diff field_simps)
    then have "real (a * 10 ^ Suc k) = real b" unfolding k power_int_of_nat by simp
    then have "a * 10 ^ Suc k = b" by (simp only: of_nat_eq_iff)
    then show False using a by auto
  qed
  have "p = q" using le [OF eq b] le [OF eq [symmetric] a] by simp
  with eq show ?thesis by simp
qed

lemma canonical_text_inject:
  assumes "normal_digits d" "normal_digits d'"
    and eq: "(if n then ''-'' else []) @ d @ ''e'' @ show_int p = (if n' then ''-'' else []) @ d' @ ''e'' @ show_int p'"
  shows "n = n' \<and> d = d' \<and> p = p'"
proof -
  have nd: "\<exists>c r. d = c # r \<and> c \<noteq> CHR ''-''" "\<exists>c r. d' = c # r \<and> c \<noteq> CHR ''-''"
    using assms(1,2) by (auto simp: normal_digits_def neq_Nil_conv)
  then have n: "n = n'" using eq by (auto split: if_splits)
  then have "d @ CHR ''e'' # show_int p = d' @ CHR ''e'' # show_int p'" using eq by (auto split: if_splits)
  moreover have "CHR ''e'' \<notin> set d" "CHR ''e'' \<notin> set d'"
    using assms(1,2) by (auto simp: normal_digits_def list_all_iff is_digit_def byte_def)
  ultimately have "d = d' \<and> show_int p = show_int p'" by (rule split_at_first_unique)
  then show ?thesis using n by (simp add: show_int_inj)
qed

text \<open>
  C36. The canonical spelling identifies exactly the numbers that are equal: two spellings with the same
  canonical one are the same real number, and the same number has one canonical spelling, however it
  is written.
\<close>

theorem canonical_decimal_exact:
  assumes r: "decimal_digits raw" and r': "decimal_digits raw'"
  shows "canonical_decimal raw = canonical_decimal raw' \<longleftrightarrow> decimal_value raw = decimal_value raw'"
proof -
  obtain n i f e where p: "decimal_parts raw = Some (n, i, f, e)" and d: "list_all is_digit (i @ f)"
    using r by (auto simp: decimal_digits_def split: option.splits)
  obtain n' i' f' e' where p': "decimal_parts raw' = Some (n', i', f', e')" and d': "list_all is_digit (i' @ f')"
    using r' by (auto simp: decimal_digits_def split: option.splits)
  let ?v = "parts_value (n, i, f, e)" and ?v' = "parts_value (n', i', f', e')"
  have zero: "parts_value (n, i, f, e) = 0" if "digits_value (i @ f) = 0" for n i f e
    using that by (simp add: parts_value_def)
  have nonzero: "digits_value d \<noteq> 0" if "normal_digits d" for d
    using that last_digit_not_ten [of d] by (metis dvd_0_right normal_digits_def)
  have "canonical_digits n i f e = canonical_digits n' i' f' e' \<longleftrightarrow> ?v = ?v'"
  proof (cases rule: canonical_digits_cases [OF d, of n e])
    case z: 1
    show ?thesis
    proof (cases rule: canonical_digits_cases [OF d', of n' e'])
      case 1
      with z zero show ?thesis by simp
    next
      case (2 c q)
      have "?v' \<noteq> 0" using nonzero [OF 2(1)] by (simp add: 2(3))
      moreover have "(if n' then ''-'' else []) @ c @ ''e'' @ show_int q \<noteq> ''0''"
        using 2(1) by (auto simp: normal_digits_def neq_Nil_conv)
      ultimately show ?thesis using z zero [OF z(1)] 2(2) by simp
    qed
  next
    case x: (2 b p)
    show ?thesis
    proof (cases rule: canonical_digits_cases [OF d', of n' e'])
      case 1
      have "?v \<noteq> 0" using nonzero [OF x(1)] by (simp add: x(3))
      moreover have "(if n then ''-'' else []) @ b @ ''e'' @ show_int p \<noteq> ''0''"
        using x(1) by (auto simp: normal_digits_def neq_Nil_conv)
      ultimately show ?thesis using 1 zero [OF 1(1)] x(2) by simp
    next
      case (2 c q)
      have "?v = ?v' \<longleftrightarrow> n = n' \<and> b = c \<and> p = q"
      proof
        assume eq: "?v = ?v'"
        have pos: "0 < real (digits_value b) * 10 powi p" "0 < real (digits_value c) * 10 powi q"
          using nonzero [OF x(1)] nonzero [OF 2(1)] by simp_all
        then have sign: "n = n'" using eq unfolding x(3) 2(3) by (auto split: if_splits)
        then have "real (digits_value b) * 10 powi p = real (digits_value c) * 10 powi q"
          using eq unfolding x(3) 2(3) by (auto split: if_splits)
        then have "digits_value b = digits_value c \<and> p = q"
          using x(1) 2(1) by (intro not_ten_unique) (simp_all add: normal_digits_def last_digit_not_ten)
        with sign show "n = n' \<and> b = c \<and> p = q"
          using x(1) 2(1) digits_unique [of b c] by (simp add: normal_digits_def)
      next
        assume "n = n' \<and> b = c \<and> p = q"
        then show "?v = ?v'" unfolding x(3) 2(3) by simp
      qed
      moreover have "(if n then ''-'' else []) @ b @ ''e'' @ show_int p = (if n' then ''-'' else []) @ c @ ''e'' @ show_int q
          \<longleftrightarrow> n = n' \<and> b = c \<and> p = q"
        by (rule iffI, erule canonical_text_inject [OF x(1) 2(1)]) simp
      ultimately show ?thesis unfolding x(2) 2(2) by (rule trans [OF _ sym, rotated])
    qed
  qed
  then show ?thesis by (simp add: canonical_decimal_def decimal_value_def p p')
qed

lemma canonical_decimal_exact_witness: "canonical_decimal ''1.2300'' = canonical_decimal ''123e-2'' \<longleftrightarrow>
    decimal_value ''1.2300'' = decimal_value ''123e-2''"
  by (rule canonical_decimal_exact; code_simp)

end
