(* ===== verification/Migration_Digest.thy ===== *)
theory Migration_Digest
  imports Canonical_Decimal Json Rust_Result "HOL-Library.Word" "HOL-Library.Multiset"
begin

text \<open>
  The digests by which the migration tool compares a table of SQLite with the one it wrote to PostgreSQL
  (\<open>crates/jellyrin-migrate/src/value.rs\<close> and \<open>lib.rs\<close>, 1087--1240): the bytes of a value, of a row, and the
  order-independent digest of a table; and the copying of a table with its final comparison. SHA-256, the
  text of floating-point numbers and both databases are parameters.
\<close>

unbundle bit_operations_syntax

section \<open>Bytes\<close>

fun be_bytes :: "nat \<Rightarrow> nat \<Rightarrow> string" where
  "be_bytes 0 n = []"
| "be_bytes (Suc k) n = be_bytes k (n div 256) @ [char_of (n mod 256)]"

definition be_value :: "string \<Rightarrow> nat" where
  "be_value s = foldl (\<lambda>n c. 256 * n + byte c) 0 s"

definition length_prefixed :: "string \<Rightarrow> string" where
  "length_prefixed s = be_bytes 8 (length s) @ s"

section \<open>Values\<close>

text \<open>A timestamp is its nanoseconds since the epoch, a float its bits, a UUID its 16 bytes.\<close>

datatype typed_value =
    TText "string option"
  | TBytes "string option"
  | TUuid "string option"
  | TTimestamp "int option"
  | TBool "bool option"
  | TI16 "int option"
  | TI32 "int option"
  | TI64 "int option"
  | TF64 "nat option"
  | TJson "json option"

fun value_is_null :: "typed_value \<Rightarrow> bool" where
  "value_is_null (TText v) = (v = None)"
| "value_is_null (TBytes v) = (v = None)"
| "value_is_null (TUuid v) = (v = None)"
| "value_is_null (TTimestamp v) = (v = None)"
| "value_is_null (TBool v) = (v = None)"
| "value_is_null (TI16 v) = (v = None)"
| "value_is_null (TI32 v) = (v = None)"
| "value_is_null (TI64 v) = (v = None)"
| "value_is_null (TF64 v) = (v = None)"
| "value_is_null (TJson v) = (v = None)"

fun number_text :: "(nat \<Rightarrow> string) \<Rightarrow> jnum \<Rightarrow> string" where
  "number_text ft (PosInt n) = show_nat n"
| "number_text ft (NegInt i) = show_int i"
| "number_text ft (JFloat b) = ft b"

text \<open>None is the panic on an exponent that is no \<open>i64\<close>.\<close>

fun encode_canonical_json :: "(nat \<Rightarrow> string) \<Rightarrow> json \<Rightarrow> string option" where
  "encode_canonical_json ft JNull = Some ''n''"
| "encode_canonical_json ft (JBool b) = Some (if b then ''b1'' else ''b0'')"
| "encode_canonical_json ft (JNum n) =
     map_option (\<lambda>d. CHR ''d'' # length_prefixed d) (canonical_decimal (number_text ft n))"
| "encode_canonical_json ft (JStr s) = Some (CHR ''s'' # length_prefixed s)"
| "encode_canonical_json ft (JArr vs) =
     map_option (\<lambda>es. CHR ''['' # be_bytes 8 (length vs) @ concat es @ '']'')
       (those (map (encode_canonical_json ft) vs))"
| "encode_canonical_json ft (JObj m) =
     map_option (\<lambda>es. CHR ''{'' # be_bytes 8 (length m) @ concat es @ ''}'')
       (those (map (\<lambda>kv. map_option (\<lambda>e. length_prefixed (fst kv) @ e) (encode_canonical_json ft (snd kv)))
         (sort_key fst m)))"

definition update_optional_bytes :: "char \<Rightarrow> string option \<Rightarrow> string" where
  "update_optional_bytes tag v = tag # (case v of Some b \<Rightarrow> ''1'' @ length_prefixed b | None \<Rightarrow> ''0'')"

definition update_optional_number :: "char \<Rightarrow> int option \<Rightarrow> string" where
  "update_optional_number tag v = update_optional_bytes tag (map_option show_int v)"

text \<open>What a value adds to the digest; \<open>to_be_bytes\<close> of an \<open>i128\<close> is its two's complement.\<close>

fun value_bytes :: "(nat \<Rightarrow> string) \<Rightarrow> typed_value \<Rightarrow> string option" where
  "value_bytes ft (TText v) = Some (update_optional_bytes (CHR ''t'') v)"
| "value_bytes ft (TBytes v) = Some (update_optional_bytes (CHR ''x'') v)"
| "value_bytes ft (TUuid v) = Some (CHR ''u'' # (case v of Some b \<Rightarrow> ''1'' @ b | None \<Rightarrow> ''0''))"
| "value_bytes ft (TTimestamp v) =
     Some (CHR ''d'' # (case v of Some t \<Rightarrow> ''1'' @ be_bytes 16 (nat (t mod 2 ^ 128)) | None \<Rightarrow> ''0''))"
| "value_bytes ft (TBool v) =
     Some (CHR ''b'' # (case v of Some True \<Rightarrow> ''11'' | Some False \<Rightarrow> ''10'' | None \<Rightarrow> ''0-''))"
| "value_bytes ft (TI16 v) = Some (update_optional_number (CHR ''s'') v)"
| "value_bytes ft (TI32 v) = Some (update_optional_number (CHR ''i'') v)"
| "value_bytes ft (TI64 v) = Some (update_optional_number (CHR ''l'') v)"
| "value_bytes ft (TF64 v) = Some (CHR ''f'' # (case v of Some b \<Rightarrow> ''1'' @ be_bytes 8 b | None \<Rightarrow> ''0''))"
| "value_bytes ft (TJson v) =
     (case v of None \<Rightarrow> Some (update_optional_bytes (CHR ''j'') None)
      | Some j \<Rightarrow> map_option (\<lambda>e. update_optional_bytes (CHR ''j'') (Some e)) (encode_canonical_json ft j))"

definition update_digest :: "(nat \<Rightarrow> string) \<Rightarrow> typed_value \<Rightarrow> string option" where
  "update_digest ft v = map_option (\<lambda>b. b @ [CHR 0x00]) (value_bytes ft v)"

section \<open>Rows and tables\<close>

record table_digest =
  td_table :: string
  td_rows :: nat
  td_xor :: "8 word list"
  td_sum :: "64 word list"
  td_sum_of_squares :: "64 word list"

definition table_digest_new :: "string \<Rightarrow> table_digest" where
  "table_digest_new table =
     \<lparr> td_table = table, td_rows = 0, td_xor = replicate 32 0, td_sum = replicate 4 0, td_sum_of_squares = replicate 4 0 \<rparr>"

definition row_input :: "(nat \<Rightarrow> string) \<Rightarrow> string \<Rightarrow> typed_value list \<Rightarrow> string option" where
  "row_input ft table values =
     map_option (\<lambda>bs. ''jellyrin-normalized-row-v1'' @ [CHR 0x00] @ length_prefixed table @
         be_bytes 8 (length values) @ concat bs)
       (those (map (update_digest ft) values))"

definition hash_words :: "string \<Rightarrow> 64 word list" where
  "hash_words h = map (\<lambda>i. of_nat (be_value (take 8 (drop (8 * i) h)))) [0..<4]"

definition add_row_hash :: "string \<Rightarrow> table_digest \<Rightarrow> table_digest" where
  "add_row_hash h d =
     d\<lparr> td_xor := map2 (\<lambda>x c. x XOR of_nat (byte c)) (td_xor d) h,
        td_sum := map2 (+) (td_sum d) (hash_words h),
        td_sum_of_squares := map2 (\<lambda>s w. s + w * w) (td_sum_of_squares d) (hash_words h),
        td_rows := td_rows d + 1 \<rparr>"

definition add_row ::
  "(string \<Rightarrow> string) \<Rightarrow> (nat \<Rightarrow> string) \<Rightarrow> typed_value list \<Rightarrow> table_digest \<Rightarrow> table_digest option" where
  "add_row sha ft values d = map_option (\<lambda>i. add_row_hash (sha i) d) (row_input ft (td_table d) values)"

definition finalize_input :: "table_digest \<Rightarrow> string" where
  "finalize_input d =
     ''jellyrin-normalized-multiset-v1'' @ [CHR 0x00] @ length_prefixed (td_table d) @ be_bytes 8 (td_rows d) @
       map (\<lambda>x. char_of (unat x)) (td_xor d) @
       concat (map (\<lambda>w. be_bytes 8 (unat w)) (td_sum d @ td_sum_of_squares d))"

fun add_rows ::
  "(string \<Rightarrow> string) \<Rightarrow> (nat \<Rightarrow> string) \<Rightarrow> typed_value list list \<Rightarrow> table_digest \<Rightarrow> table_digest option" where
  "add_rows sha ft [] d = Some d"
| "add_rows sha ft (r # rs) d = Option.bind (add_row sha ft r d) (add_rows sha ft rs)"

definition digest_of_rows :: "(string \<Rightarrow> string) \<Rightarrow> (nat \<Rightarrow> string) \<Rightarrow> string \<Rightarrow> typed_value list list \<Rightarrow> string option" where
  "digest_of_rows sha ft table rows =
     map_option (\<lambda>d. sha (finalize_input d)) (add_rows sha ft rows (table_digest_new table))"

section \<open>Fixed-width integers\<close>

lemma length_be_bytes [simp]: "length (be_bytes k n) = k"
  by (induction k n rule: be_bytes.induct) auto

lemma be_value_snoc: "be_value (s @ [c]) = 256 * be_value s + byte c"
  by (simp add: be_value_def)

lemma be_value_be_bytes: "n < 256 ^ k \<Longrightarrow> be_value (be_bytes k n) = n"
proof (induction k n rule: be_bytes.induct)
  case (2 k n)
  then have "n div 256 < 256 ^ k" by (simp add: less_mult_imp_div_less)
  moreover have "byte (char_of (n mod 256)) = n mod 256" by (rule byte_char_of) simp
  ultimately show ?case using 2 by (simp add: be_value_snoc del: char_of_mod_256)
qed (simp add: be_value_def)

lemma be_bytes_inject: "m < 256 ^ k \<Longrightarrow> n < 256 ^ k \<Longrightarrow> be_bytes k m = be_bytes k n \<longleftrightarrow> m = n"
  by (metis be_value_be_bytes)

text \<open>Lengths are those of values in memory, below \<open>2 ^ 64\<close>.\<close>

abbreviation in_memory :: "'a list \<Rightarrow> bool" where
  "in_memory xs \<equiv> length xs < 2 ^ 64"

lemma be_bytes_length_inject:
  "length xs < 2 ^ 64 \<Longrightarrow> length ys < 2 ^ 64 \<Longrightarrow> be_bytes 8 (length xs) = be_bytes 8 (length ys) \<longleftrightarrow> length xs = length ys"
  by (rule be_bytes_inject) simp_all

lemma length_prefixed_unique:
  assumes "length_prefixed a @ s = length_prefixed b @ t" "in_memory a" "in_memory b"
  shows "a = b \<and> s = t"
proof -
  from assms(1) have "be_bytes 8 (length a) = be_bytes 8 (length b) \<and> a @ s = b @ t"
    by (simp add: length_prefixed_def append_eq_append_conv)
  with assms(2,3) show ?thesis by (auto simp: be_bytes_length_inject append_eq_append_conv)
qed

section \<open>The value a canonical encoding stands for\<close>

datatype cjson = CNull | CBool bool | CNum string | CStr string | CArr "cjson list" | CObj "(string \<times> cjson) list"

text \<open>Numbers by their canonical spelling, objects by their sorted entries.\<close>

fun canonicalise :: "(nat \<Rightarrow> string) \<Rightarrow> json \<Rightarrow> cjson option" where
  "canonicalise ft JNull = Some CNull"
| "canonicalise ft (JBool b) = Some (CBool b)"
| "canonicalise ft (JNum n) = map_option CNum (canonical_decimal (number_text ft n))"
| "canonicalise ft (JStr s) = Some (CStr s)"
| "canonicalise ft (JArr vs) = map_option CArr (those (map (canonicalise ft) vs))"
| "canonicalise ft (JObj m) =
     map_option CObj (those (map (\<lambda>kv. map_option (Pair (fst kv)) (canonicalise ft (snd kv))) (sort_key fst m)))"

fun encode :: "cjson \<Rightarrow> string" where
  "encode CNull = ''n''"
| "encode (CBool b) = (if b then ''b1'' else ''b0'')"
| "encode (CNum d) = CHR ''d'' # length_prefixed d"
| "encode (CStr s) = CHR ''s'' # length_prefixed s"
| "encode (CArr vs) = CHR ''['' # be_bytes 8 (length vs) @ concat (map encode vs) @ '']''"
| "encode (CObj m) = CHR ''{'' # be_bytes 8 (length m) @
     concat (map (\<lambda>kv. length_prefixed (fst kv) @ encode (snd kv)) m) @ ''}''"

fun cjson_in_memory :: "cjson \<Rightarrow> bool" where
  "cjson_in_memory (CNum d) = in_memory d"
| "cjson_in_memory (CStr s) = in_memory s"
| "cjson_in_memory (CArr vs) = (in_memory vs \<and> list_all cjson_in_memory vs)"
| "cjson_in_memory (CObj m) = (in_memory m \<and> list_all (\<lambda>kv. in_memory (fst kv) \<and> cjson_in_memory (snd kv)) m)"
| "cjson_in_memory _ = True"

lemma those_map_option: "those (map (\<lambda>x. map_option f (g x)) xs) = map_option (map f) (those (map g xs))"
  by (induction xs) (auto split: option.splits simp: option.map_comp comp_def)

lemma those_length: "those xs = Some ys \<Longrightarrow> length ys = length xs"
  by (induction xs arbitrary: ys) (auto split: option.splits)

lemma those_map_cong: "(\<And>x. x \<in> set xs \<Longrightarrow> f x = g x) \<Longrightarrow> those (map f xs) = those (map g xs)"
  by (metis map_cong)

lemma encode_canonical_json_factors: "encode_canonical_json ft j = map_option encode (canonicalise ft j)"
proof (induction j)
  case (JArr vs)
  then have "those (map (encode_canonical_json ft) vs) = map_option (map encode) (those (map (canonicalise ft) vs))"
    unfolding those_map_option [symmetric] by (intro those_map_cong) simp
  then show ?case by (cases "those (map (canonicalise ft) vs)") (auto dest: those_length)
next
  case (JObj m)
  let ?g = "\<lambda>kv. map_option (Pair (fst kv)) (canonicalise ft (snd kv))"
  have ih: "encode_canonical_json ft (snd kv) = map_option encode (canonicalise ft (snd kv))" if "kv \<in> set m" for kv
    using JObj.IH [OF that] by (metis prod.collapse prod_set_simps(2) singletonI)
  have "those (map (\<lambda>kv. map_option (\<lambda>e. length_prefixed (fst kv) @ e) (encode_canonical_json ft (snd kv))) (sort_key fst m)) =
      those (map (\<lambda>kv. map_option (\<lambda>p. length_prefixed (fst p) @ encode (snd p)) (?g kv)) (sort_key fst m))"
    by (intro those_map_cong) (auto simp: ih option.map_comp comp_def)
  also have "\<dots> = map_option (map (\<lambda>p. length_prefixed (fst p) @ encode (snd p))) (those (map ?g (sort_key fst m)))"
    by (rule those_map_option)
  finally show ?case by (cases "those (map ?g (sort_key fst m))") (auto dest: those_length)
qed (simp_all add: option.map_comp comp_def)

text \<open>Encodings of lists of values are read back one value after the other.\<close>

lemma concat_unique:
  assumes "length xs = length ys" "concat (map f xs) @ s = concat (map f ys) @ t"
    and "\<And>x y s t. x \<in> set xs \<Longrightarrow> y \<in> set ys \<Longrightarrow> f x @ s = f y @ t \<Longrightarrow> x = y \<and> s = t"
  shows "xs = ys \<and> s = t"
  using assms
proof (induction xs ys rule: list_induct2)
  case (Cons x xs y ys)
  from Cons.prems(1) have "f x @ concat (map f xs) @ s = f y @ concat (map f ys) @ t" by simp
  from Cons.prems(2) [OF _ _ this] have "x = y" "concat (map f xs) @ s = concat (map f ys) @ t" by simp_all
  moreover from Cons.IH [OF this(2)] Cons.prems(2) have "xs = ys \<and> s = t" by (meson list.set_intros(2))
  ultimately show ?case by simp
qed simp

lemma encode_unique:
  "encode a @ s = encode b @ t \<Longrightarrow> cjson_in_memory a \<Longrightarrow> cjson_in_memory b \<Longrightarrow> a = b \<and> s = t"
proof (induction a arbitrary: b s t)
  case CNull
  then show ?case by (cases b) (auto split: if_splits)
next
  case (CBool x)
  then show ?case by (cases b) (auto split: if_splits)
next
  case (CNum d)
  then show ?case by (cases b) (auto split: if_splits dest: length_prefixed_unique)
next
  case (CStr d)
  then show ?case by (cases b) (auto split: if_splits dest: length_prefixed_unique)
next
  case (CArr vs)
  then obtain ws where b: "b = CArr ws" by (cases b) (auto split: if_splits)
  from CArr.prems(1) have "be_bytes 8 (length vs) = be_bytes 8 (length ws)"
    and c: "concat (map encode vs) @ '']'' @ s = concat (map encode ws) @ '']'' @ t" by (simp_all add: b append_eq_append_conv)
  then have l: "length vs = length ws" using CArr.prems(2,3) by (simp add: b be_bytes_length_inject)
  from concat_unique [OF l c] CArr show ?case by (auto simp: b list_all_iff)
next
  case (CObj m)
  then obtain n where b: "b = CObj n" by (cases b) (auto split: if_splits)
  let ?f = "\<lambda>kv. length_prefixed (fst kv) @ encode (snd kv)"
  from CObj.prems(1) have "be_bytes 8 (length m) = be_bytes 8 (length n)"
    and c: "concat (map ?f m) @ ''}'' @ s = concat (map ?f n) @ ''}'' @ t" by (simp_all add: b append_eq_append_conv)
  then have l: "length m = length n" using CObj.prems(2,3) by (simp add: b be_bytes_length_inject)
  have "x = y \<and> s = t" if x: "x \<in> set m" and y: "y \<in> set n" and eq: "?f x @ s = ?f y @ t" for x y s t
  proof -
    have "in_memory (fst x)" "in_memory (fst y)" "cjson_in_memory (snd x)" "cjson_in_memory (snd y)"
      using CObj.prems(2,3) x y by (auto simp: b list_all_iff)
    moreover from length_prefixed_unique [OF _ this(1,2)] eq
    have "fst x = fst y" "encode (snd x) @ s = encode (snd y) @ t" by auto
    moreover have "snd x \<in> Basic_BNFs.snds x" by (metis prod.collapse prod_set_simps(2) singletonI)
    ultimately show ?thesis using CObj.IH [OF x] by (metis prod.expand)
  qed
  from concat_unique [OF l c this] show ?case by (simp add: b)
qed

section \<open>Rows are told apart\<close>

text \<open>What a value is in the digest: integers and floats by their bits, JSON by its canonical form.\<close>

fun same_value :: "(nat \<Rightarrow> string) \<Rightarrow> typed_value \<Rightarrow> typed_value \<Rightarrow> bool" where
  "same_value ft (TJson (Some j)) (TJson (Some k)) \<longleftrightarrow> canonicalise ft j = canonicalise ft k"
| "same_value ft v w \<longleftrightarrow> v = w"

text \<open>The values of the column types: lengths in memory, integers of their widths, 16-byte UUIDs.\<close>

fun value_ok :: "(nat \<Rightarrow> string) \<Rightarrow> typed_value \<Rightarrow> bool" where
  "value_ok ft (TText v) \<longleftrightarrow> pred_option in_memory v"
| "value_ok ft (TBytes v) \<longleftrightarrow> pred_option in_memory v"
| "value_ok ft (TUuid v) \<longleftrightarrow> pred_option (\<lambda>b. length b = 16) v"
| "value_ok ft (TTimestamp v) \<longleftrightarrow> pred_option (\<lambda>t. - (2 ^ 127) \<le> t \<and> t < 2 ^ 127) v"
| "value_ok ft (TBool v) \<longleftrightarrow> True"
| "value_ok ft (TI16 v) \<longleftrightarrow> pred_option in_i64 v"
| "value_ok ft (TI32 v) \<longleftrightarrow> pred_option in_i64 v"
| "value_ok ft (TI64 v) \<longleftrightarrow> pred_option in_i64 v"
| "value_ok ft (TF64 v) \<longleftrightarrow> pred_option (\<lambda>b. b < 2 ^ 64) v"
| "value_ok ft (TJson v) \<longleftrightarrow>
     pred_option (\<lambda>j. pred_option cjson_in_memory (canonicalise ft j) \<and> pred_option in_memory (encode_canonical_json ft j)) v"

lemma length_show_nat_Suc: "length (show_nat n) \<le> Suc n"
proof (induction n rule: show_nat.induct)
  case (1 n)
  then show ?case by (subst show_nat.simps) auto
qed

lemma length_show_int: "in_i64 i \<Longrightarrow> in_memory (show_int i)"
  using length_show_nat_Suc [of "nat (- i)"] length_show_nat_Suc [of "nat i"]
  by (auto simp: in_i64_def show_int_def)

lemma update_optional_bytes_unique:
  assumes "update_optional_bytes tag v @ s = update_optional_bytes tag w @ t" "pred_option in_memory v" "pred_option in_memory w"
  shows "v = w \<and> s = t"
  using assms by (cases v; cases w) (auto simp: update_optional_bytes_def dest: length_prefixed_unique)

lemma update_optional_number_unique:
  assumes "update_optional_number tag v @ s = update_optional_number tag w @ t" "pred_option in_i64 v" "pred_option in_i64 w"
  shows "v = w \<and> s = t"
proof -
  have memory: "pred_option in_memory (map_option show_int x)" if "pred_option in_i64 x" for x
    using that length_show_int by (cases x) auto
  from update_optional_bytes_unique [OF assms(1) [unfolded update_optional_number_def] memory memory] assms(2,3)
  have "map_option show_int v = map_option show_int w \<and> s = t" by blast
  then show ?thesis by (cases v; cases w) (auto simp: show_int_inj)
qed

fun value_tag :: "typed_value \<Rightarrow> char" where
  "value_tag (TText _) = CHR ''t''"
| "value_tag (TBytes _) = CHR ''x''"
| "value_tag (TUuid _) = CHR ''u''"
| "value_tag (TTimestamp _) = CHR ''d''"
| "value_tag (TBool _) = CHR ''b''"
| "value_tag (TI16 _) = CHR ''s''"
| "value_tag (TI32 _) = CHR ''i''"
| "value_tag (TI64 _) = CHR ''l''"
| "value_tag (TF64 _) = CHR ''f''"
| "value_tag (TJson _) = CHR ''j''"

lemma value_bytes_tag: "value_bytes ft v = Some b \<Longrightarrow> \<exists>r. b = value_tag v # r"
  by (cases v) (auto simp: update_optional_bytes_def update_optional_number_def split: option.splits)

lemma wrapped_timestamp_unique:
  assumes "be_bytes 16 (nat (t mod 2 ^ 128)) = be_bytes 16 (nat (u mod 2 ^ 128))"
    and "- (2 ^ 127) \<le> t" "t < 2 ^ 127" "- (2 ^ 127) \<le> u" "u < 2 ^ 127"
  shows "t = (u :: int)"
proof -
  have "nat (x mod 2 ^ 128) < 256 ^ 16" for x :: int
    using pos_mod_bound [of "2 ^ 128" x] by (simp add: nat_less_iff)
  with assms(1) have "nat (t mod 2 ^ 128) = nat (u mod 2 ^ 128)" by (simp only: be_bytes_inject)
  then have "t mod 2 ^ 128 = u mod 2 ^ 128" by (simp add: eq_nat_nat_iff)
  then obtain k where k: "t - u = 2 ^ 128 * k" by (metis dvd_def mod_eq_dvd_iff)
  have "\<bar>t - u\<bar> < 2 ^ 128" using assms(2-5) by simp
  then have "\<bar>2 ^ 128 * k\<bar> < 2 ^ 128" unfolding k .
  then have "k = 0" by (simp add: abs_mult)
  with k show ?thesis by simp
qed

lemma json_bytes_unique:
  assumes "encode_canonical_json ft j = Some e" "encode_canonical_json ft k = Some e"
    and "pred_option cjson_in_memory (canonicalise ft j)" "pred_option cjson_in_memory (canonicalise ft k)"
  shows "canonicalise ft j = canonicalise ft k"
proof -
  from assms(1,2) obtain a b where ab: "canonicalise ft j = Some a" "canonicalise ft k = Some b" "encode a = e" "encode b = e"
    by (auto simp: encode_canonical_json_factors)
  with encode_unique [of a "[]" b "[]"] assms(3,4) show ?thesis by simp
qed

lemma value_bytes_unique:
  assumes v: "value_bytes ft v = Some b" and w: "value_bytes ft w = Some c" and eq: "b @ s = c @ t"
    and ok: "value_ok ft v" "value_ok ft w"
  shows "same_value ft v w \<and> s = t"
proof -
  have tag: "value_tag v = value_tag w" using value_bytes_tag [OF v] value_bytes_tag [OF w] eq by auto
  show ?thesis
  proof (cases v)
    case (TText x)
    with tag obtain y where "w = TText y" by (cases w) auto
    with TText v w eq ok update_optional_bytes_unique [of _ x s y t] show ?thesis by simp blast
  next
    case (TBytes x)
    with tag obtain y where "w = TBytes y" by (cases w) auto
    with TBytes v w eq ok update_optional_bytes_unique [of _ x s y t] show ?thesis by simp blast
  next
    case (TUuid x)
    with tag obtain y where "w = TUuid y" by (cases w) auto
    with TUuid v w eq ok show ?thesis by (auto split: option.splits)
  next
    case (TTimestamp x)
    with tag obtain y where "w = TTimestamp y" by (cases w) auto
    with TTimestamp v w eq ok show ?thesis
      by (auto split: option.splits simp: append_eq_append_conv dest: wrapped_timestamp_unique [simplified])
  next
    case (TBool x)
    with tag obtain y where "w = TBool y" by (cases w) auto
    with TBool v w eq show ?thesis by (auto split: option.splits bool.splits)
  next
    case (TI16 x)
    with tag obtain y where "w = TI16 y" by (cases w) auto
    with TI16 v w eq ok update_optional_number_unique [of _ x s y t] show ?thesis by simp blast
  next
    case (TI32 x)
    with tag obtain y where "w = TI32 y" by (cases w) auto
    with TI32 v w eq ok update_optional_number_unique [of _ x s y t] show ?thesis by simp blast
  next
    case (TI64 x)
    with tag obtain y where "w = TI64 y" by (cases w) auto
    with TI64 v w eq ok update_optional_number_unique [of _ x s y t] show ?thesis by simp blast
  next
    case (TF64 x)
    with tag obtain y where "w = TF64 y" by (cases w) auto
    with TF64 v w eq ok show ?thesis
      by (auto split: option.splits simp: append_eq_append_conv be_bytes_inject)
  next
    case (TJson x)
    with tag obtain y where y: "w = TJson y" by (cases w) auto
    from v w obtain e f where e: "b = update_optional_bytes (CHR ''j'') e" "c = update_optional_bytes (CHR ''j'') f"
      "case x of None \<Rightarrow> e = None | Some j \<Rightarrow> \<exists>x. encode_canonical_json ft j = Some x \<and> e = Some x"
      "case y of None \<Rightarrow> f = None | Some j \<Rightarrow> \<exists>x. encode_canonical_json ft j = Some x \<and> f = Some x"
      by (auto simp: TJson y split: option.splits)
    have "pred_option in_memory e" "pred_option in_memory f"
      using e ok by (auto simp: TJson y split: option.splits)
    with e eq have "e = f" "s = t" using update_optional_bytes_unique by blast+
    with e ok show ?thesis by (auto simp: TJson y split: option.splits dest: json_bytes_unique)
  qed
qed

lemma values_unique:
  "length vs = length ws \<Longrightarrow> those (map (update_digest ft) vs) = Some bs \<Longrightarrow> those (map (update_digest ft) ws) = Some cs \<Longrightarrow>
   concat bs @ s = concat cs @ t \<Longrightarrow> list_all (value_ok ft) vs \<Longrightarrow> list_all (value_ok ft) ws \<Longrightarrow> list_all2 (same_value ft) vs ws"
proof (induction vs ws arbitrary: bs cs rule: list_induct2)
  case (Cons v vs w ws)
  have head: "\<exists>b xs'. value_bytes ft v = Some b \<and> those (map (update_digest ft) vs) = Some xs' \<and> xs = (b @ [CHR 0x00]) # xs'"
    if "those (map (update_digest ft) (v # vs)) = Some xs" for v vs xs
  proof -
    from that obtain x xs' where x: "update_digest ft v = Some x" "those (map (update_digest ft) vs) = Some xs'" "xs = x # xs'"
      by (auto split: option.splits)
    then show ?thesis by (auto simp: update_digest_def)
  qed
  from head [OF Cons.prems(1)] head [OF Cons.prems(2)] obtain b bs' c cs' where
    bs: "value_bytes ft v = Some b" "those (map (update_digest ft) vs) = Some bs'" "bs = (b @ [CHR 0x00]) # bs'"
    and cs: "value_bytes ft w = Some c" "those (map (update_digest ft) ws) = Some cs'" "cs = (c @ [CHR 0x00]) # cs'"
    by blast
  have "b @ CHR 0x00 # concat bs' @ s = c @ CHR 0x00 # concat cs' @ t" using Cons.prems(3) by (simp add: bs cs)
  from value_bytes_unique [OF bs(1) cs(1) this] Cons.prems(4,5)
  have "same_value ft v w" "concat bs' @ s = concat cs' @ t" by auto
  with Cons.IH [OF bs(2) cs(2)] Cons.prems(4,5) show ?case by simp
qed simp

text \<open>
  C32. Rows with the same bytes are the same row: when two rows of a table are given the same input to the
  hash, they have equally many values, each pair of the same type and equal, JSON up to the order of
  object keys and the spelling of numbers.
\<close>

theorem row_input_injective:
  assumes r: "row_input ft table vs = Some b" and r': "row_input ft table ws = Some b"
    and ok: "list_all (value_ok ft) vs" "list_all (value_ok ft) ws" "in_memory vs" "in_memory ws"
  shows "list_all2 (same_value ft) vs ws"
proof -
  from r obtain bs where bs: "those (map (update_digest ft) vs) = Some bs" and b: "b = ''jellyrin-normalized-row-v1'' @ [CHR 0x00] @
      length_prefixed table @ be_bytes 8 (length vs) @ concat bs"
    by (auto simp: row_input_def)
  from r' obtain cs where cs: "those (map (update_digest ft) ws) = Some cs" and c: "b = ''jellyrin-normalized-row-v1'' @ [CHR 0x00] @
      length_prefixed table @ be_bytes 8 (length ws) @ concat cs"
    by (auto simp: row_input_def)
  from b c have "be_bytes 8 (length vs) @ concat bs = be_bytes 8 (length ws) @ concat cs" by simp
  then have "be_bytes 8 (length vs) = be_bytes 8 (length ws)" "concat bs @ [] = concat cs @ []" by (simp_all add: append_eq_append_conv)
  with values_unique [OF _ bs cs _ ok(1,2)] ok(3,4) show ?thesis by (simp add: be_bytes_length_inject)
qed

lemma row_input_injective_witness:
  "list_all2 (same_value (\<lambda>_. [])) [TText (Some ''a''), TI32 (Some 1)] [TText (Some ''a''), TI32 (Some 1)]"
proof -
  have "\<exists>b. row_input (\<lambda>_. []) ''t'' [TText (Some ''a''), TI32 (Some 1)] = Some b"
    by (simp add: row_input_def update_digest_def)
  then obtain b where "row_input (\<lambda>_. []) ''t'' [TText (Some ''a''), TI32 (Some 1)] = Some b" by blast
  from row_input_injective [OF this this] show ?thesis by (simp add: in_i64_def)
qed

section \<open>The order of rows does not matter\<close>

lemma add_row_hash_commute: "add_row_hash g (add_row_hash h d) = add_row_hash h (add_row_hash g d)"
proof -
  have x: "map2 (\<lambda>x c. x XOR of_nat (byte c)) (map2 (\<lambda>x c. x XOR of_nat (byte c)) xs h) g =
      map2 (\<lambda>x c. x XOR of_nat (byte c)) (map2 (\<lambda>x c. x XOR of_nat (byte c)) xs g) h" for xs :: "8 word list"
    by (rule nth_equalityI) (auto simp: xor.assoc xor.commute xor.left_commute)
  have s: "map2 f (map2 f xs a) b = map2 f (map2 f xs b) a"
    if "\<And>x y z. f (f x y) z = f (f x z) y" for f :: "64 word \<Rightarrow> 64 word \<Rightarrow> 64 word" and xs a b
    using that by (intro nth_equalityI) auto
  show ?thesis
    unfolding add_row_hash_def using x s [of "(+)"] s [of "\<lambda>s w. s + w * w"] by (simp add: algebra_simps)
qed

lemma add_row_hash_table [simp]: "td_table (add_row_hash h d) = td_table d" "td_rows (add_row_hash h d) = td_rows d + 1"
  by (simp_all add: add_row_hash_def)

text \<open>Adding rows is a fold of their hashes, when no row panics.\<close>

lemma add_rows_fold:
  "add_rows sha ft rows d =
     map_option (\<lambda>is. fold (\<lambda>i. add_row_hash (sha i)) is d) (those (map (row_input ft (td_table d)) rows))"
  by (induction rows arbitrary: d) (auto simp: add_row_def option.map_comp comp_def split: option.splits)

lemma those_map: "those (map f xs) = (if \<forall>x \<in> set xs. f x \<noteq> None then Some (map (\<lambda>x. the (f x)) xs) else None)"
  by (induction xs) (auto split: option.splits)

lemma add_rows_perm:
  assumes "mset rows = mset rows'"
  shows "add_rows sha ft rows d = add_rows sha ft rows' d"
proof -
  let ?f = "row_input ft (td_table d)" and ?g = "\<lambda>i. add_row_hash (sha i)"
  have "fold ?g (map (\<lambda>r. the (?f r)) rows) = fold ?g (map (\<lambda>r. the (?f r)) rows')"
    by (rule fold_multiset_equiv) (auto simp: assms fun_eq_iff add_row_hash_commute)
  moreover have "set rows = set rows'" by (rule mset_eq_setD [OF assms])
  ultimately show ?thesis by (simp add: add_rows_fold those_map)
qed

lemma digest_of_rows_perm: "mset rows = mset rows' \<Longrightarrow> digest_of_rows sha ft table rows = digest_of_rows sha ft table rows'"
  by (simp add: digest_of_rows_def add_rows_perm [of rows rows'])

text \<open>
  The digest of a table does not depend on the order in which a database returns its rows.
\<close>

theorem digest_of_rows_order_independent:
  assumes "mset rows = mset rows'"
  shows "digest_of_rows sha ft table rows = digest_of_rows sha ft table rows'"
  by (rule digest_of_rows_perm [OF assms])

lemma digest_of_rows_order_independent_witness:
  "digest_of_rows (\<lambda>s. s) (\<lambda>_. []) ''t'' [[TBool (Some True)], [TI16 None]] =
   digest_of_rows (\<lambda>s. s) (\<lambda>_. []) ''t'' [[TI16 None], [TBool (Some True)]]"
  by (rule digest_of_rows_order_independent) simp

section \<open>A changed row changes the digest\<close>

lemma add_rows_append:
  "add_rows sha ft (xs @ ys) d = Option.bind (add_rows sha ft xs d) (add_rows sha ft ys)"
  by (induction xs arbitrary: d) (auto split: bind_splits)

lemma add_rows_state:
  "add_rows sha ft rows d = Some d' \<Longrightarrow> (\<And>x. length (sha x) = 32) \<Longrightarrow>
   td_table d' = td_table d \<and> td_rows d' = td_rows d + length rows \<and> (length (td_xor d) = 32 \<longrightarrow> length (td_xor d') = 32)"
  by (induction rows arbitrary: d) (auto simp: add_row_def bind_eq_Some_conv add_row_hash_def)

lemma word_mod_inject: "unat x mod 256 = unat y mod 256 \<longleftrightarrow> x = (y :: 8 word)"
proof -
  have "unat x < 256" "unat y < 256" using unsigned_less [of x, where 'a = nat] unsigned_less [of y, where 'a = nat] by simp_all
  then show ?thesis by (simp add: word_unat_eq_iff)
qed

lemma word_xor_inject: "x XOR a = x XOR b \<longleftrightarrow> a = (b :: 8 word)"
  by (metis xor.assoc xor.left_neutral xor_self_eq)

lemma word_byte_inject: "(of_nat (byte c) :: 8 word) = of_nat (byte d) \<longleftrightarrow> c = d"
  using byte_bound [of c] byte_bound [of d] by (simp add: word_unat_eq_iff unat_of_nat take_bit_nat_eq_self)

lemma add_row_hash_inject:
  assumes len: "length g = 32" "length h = 32" "length (td_xor d) = 32"
    and eq: "finalize_input (add_row_hash g d) = finalize_input (add_row_hash h d)"
  shows "g = h"
proof -
  let ?x = "\<lambda>h. map2 (\<lambda>x c. x XOR of_nat (byte c)) (td_xor d) h :: 8 word list"
  from eq have "map (\<lambda>x. char_of (unat x)) (?x g) = (map (\<lambda>x. char_of (unat x)) (?x h) :: string)"
    by (simp add: finalize_input_def add_row_hash_def append_eq_append_conv len)
  then have "map2 (\<lambda>x c. x XOR of_nat (byte c)) (td_xor d) g ! i = ?x h ! i" if "i < 32" for i
    using that len by (auto simp: list_eq_iff_nth_eq word_mod_inject)
  then have "(of_nat (byte (g ! i)) :: 8 word) = of_nat (byte (h ! i))" if "i < 32" for i
    using that len by (auto simp: word_xor_inject)
  then show ?thesis using len by (auto intro!: nth_equalityI simp: word_byte_inject)
qed

end
