(* ===== verification/Migration_Tables.thy ===== *)
theory Migration_Tables
  imports Migration_Digest
begin

text \<open>
  Copying one table from SQLite to PostgreSQL (\<open>migrate_table\<close> of \<open>crates/jellyrin-migrate/src/lib.rs\<close>,
  1087--1180, with the conversions of \<open>value.rs\<close>), and the checks of the source that need no
  SQL: plugin ids that collide up to case (714--742) and references to provider secrets (616--712). The
  cells read from either database are inputs; the parsers of UUIDs, RFC 3339 timestamps and JSON are
  parameters. \<open>str::to_lowercase\<close> is a parameter too.
\<close>

section \<open>Columns and cells\<close>

datatype json_shape = Any_Shape | Array_Shape | Object_Shape

datatype column_kind =
    Kind_Text | Kind_Bytes | Kind_Uuid | Kind_Timestamp | Kind_Bool | Kind_I16 | Kind_I32 | Kind_I64 | Kind_F64
  | Kind_Json json_shape

record column_spec =
  cs_source :: string
  cs_target :: string
  cs_kind :: column_kind
  cs_nullable :: bool

text \<open>A cell as \<open>try_get\<close> answers it for the column's type; \<open>Cell_Mismatch\<close> is its error.\<close>

datatype cell =
    Cell_Text "string option"
  | Cell_Blob "string option"
  | Cell_Int "int option"
  | Cell_Real "nat option"
  | Cell_Mismatch

datatype migrate_error =
    Column_Unreadable | Invalid_Uuid | Invalid_Timestamp | Invalid_Bool | Integer_Too_Wide | Invalid_Json
  | Wrong_Json_Shape | Required_Null | Digest_Panic | Row_Count_Mismatch | Digest_Mismatch
  | Plugin_Id_Collision | Plugin_Id_Casing | Secret_Reference_Invalid | Secret_Envelope_Missing
  | Secret_Reference_Mismatch

record migrate_env =
  me_uuid :: "string \<Rightarrow> string option"
  me_rfc3339 :: "string \<Rightarrow> int option" \<comment> \<open>nanoseconds since the epoch\<close>
  me_json :: "string \<Rightarrow> json option"
  me_sha :: "string \<Rightarrow> string"
  me_float_text :: "nat \<Rightarrow> string"
  me_lowercase :: "string \<Rightarrow> string"

definition parse_uuid :: "migrate_env \<Rightarrow> string \<Rightarrow> migrate_error + string" where
  "parse_uuid env raw = some_or Invalid_Uuid (me_uuid env (trim raw))"

text \<open>\<open>str::get(11..)\<close>, which is nothing in the middle of a character.\<close>

definition time_and_zone :: "string \<Rightarrow> string" where
  "time_and_zone s = (let r = drop 11 s in if length s < 11 \<or> (r \<noteq> [] \<and> is_cont (hd r)) then [] else r)"

fun replace_first_space :: "string \<Rightarrow> string" where
  "replace_first_space [] = []"
| "replace_first_space (c # cs) = (if c = CHR '' '' then CHR ''T'' # cs else c # replace_first_space cs)"

definition sqlite_timestamp :: "string \<Rightarrow> string" where
  "sqlite_timestamp raw =
     (let normalized = replace_first_space raw; tz = time_and_zone normalized
      in if ends_with ''Z'' normalized \<or> ends_with ''z'' normalized \<or> CHR ''+'' \<in> set tz \<or> CHR ''-'' \<in> set tz
         then normalized else normalized @ ''Z'')"

text \<open>The sub-second part is truncated to microseconds.\<close>

definition parse_timestamp :: "migrate_env \<Rightarrow> string \<Rightarrow> migrate_error + int" where
  "parse_timestamp env raw =
     (let raw = trim raw
      in and_then
           (some_or Invalid_Timestamp
             (case me_rfc3339 env raw of Some t \<Rightarrow> Some t | None \<Rightarrow> me_rfc3339 env (sqlite_timestamp raw)))
           (\<lambda>t. Inr (t div 1000 * 1000)))"

definition parse_bool :: "int \<Rightarrow> migrate_error + bool" where
  "parse_bool raw = (if raw = 0 then Inr False else if raw = 1 then Inr True else Inl Invalid_Bool)"

definition shape_matches :: "json_shape \<Rightarrow> json \<Rightarrow> bool" where
  "shape_matches shape v \<longleftrightarrow>
     (case shape of Any_Shape \<Rightarrow> True | Array_Shape \<Rightarrow> as_array v \<noteq> None | Object_Shape \<Rightarrow> as_object v \<noteq> None)"

definition parse_json :: "migrate_env \<Rightarrow> json_shape \<Rightarrow> string \<Rightarrow> migrate_error + json" where
  "parse_json env shape raw =
     and_then (some_or Invalid_Json (me_json env raw)) (\<lambda>v.
     and_then (check (shape_matches shape v) Wrong_Json_Shape) (\<lambda>_. Inr v))"

text \<open>\<open>Option::map(\<dots>).transpose()\<close>\<close>

definition convert_opt :: "('a \<Rightarrow> 'e + 'b) \<Rightarrow> 'a option \<Rightarrow> 'e + 'b option" where
  "convert_opt f x = (case x of None \<Rightarrow> Inr None | Some v \<Rightarrow> and_then (f v) (\<lambda>w. Inr (Some w)))"

definition integer_in :: "int \<Rightarrow> int \<Rightarrow> int \<Rightarrow> migrate_error + int" where
  "integer_in lo hi i = and_then (check (lo \<le> i \<and> i \<le> hi) Integer_Too_Wide) (\<lambda>_. Inr i)"

fun convert_cell :: "migrate_env \<Rightarrow> column_kind \<Rightarrow> cell \<Rightarrow> migrate_error + typed_value" where
  "convert_cell env Kind_Text (Cell_Text v) = Inr (TText v)"
| "convert_cell env Kind_Bytes (Cell_Blob v) = Inr (TBytes v)"
| "convert_cell env Kind_Uuid (Cell_Text v) = and_then (convert_opt (parse_uuid env) v) (\<lambda>w. Inr (TUuid w))"
| "convert_cell env Kind_Timestamp (Cell_Text v) =
     and_then (convert_opt (parse_timestamp env) v) (\<lambda>w. Inr (TTimestamp w))"
| "convert_cell env Kind_Bool (Cell_Int v) = and_then (convert_opt parse_bool v) (\<lambda>w. Inr (TBool w))"
| "convert_cell env Kind_I16 (Cell_Int v) =
     and_then (convert_opt (integer_in (- 32768) 32767) v) (\<lambda>w. Inr (TI16 w))"
| "convert_cell env Kind_I32 (Cell_Int v) =
     and_then (convert_opt (integer_in i32_min i32_max) v) (\<lambda>w. Inr (TI32 w))"
| "convert_cell env Kind_I64 (Cell_Int v) = Inr (TI64 v)"
| "convert_cell env Kind_F64 (Cell_Real v) = Inr (TF64 v)"
| "convert_cell env (Kind_Json shape) (Cell_Text v) =
     and_then (convert_opt (parse_json env shape) v) (\<lambda>w. Inr (TJson w))"
| "convert_cell env _ _ = Inl Column_Unreadable"

definition value_from_sqlite :: "migrate_env \<Rightarrow> column_spec \<times> cell \<Rightarrow> migrate_error + typed_value" where
  "value_from_sqlite env cc =
     and_then (convert_cell env (cs_kind (fst cc)) (snd cc)) (\<lambda>v.
     and_then (check (cs_nullable (fst cc) \<or> \<not> value_is_null v) Required_Null) (\<lambda>_. Inr v))"

definition row_from_sqlite :: "migrate_env \<Rightarrow> column_spec list \<Rightarrow> cell list \<Rightarrow> migrate_error + typed_value list" where
  "row_from_sqlite env columns cells = traverse (value_from_sqlite env) (zip columns cells)"

section \<open>Copying\<close>

definition migration_batch_rows :: nat where
  "migration_batch_rows = 500"

text \<open>
  The loop over the source rows: the batch being filled, the batches already inserted and the digest. It
  returns the batches in the order of their insertion.
\<close>

fun copy_rows ::
  "migrate_env \<Rightarrow> column_spec list \<Rightarrow> typed_value list list \<Rightarrow> typed_value list list list \<Rightarrow> table_digest \<Rightarrow>
     cell list list \<Rightarrow> migrate_error + typed_value list list list \<times> table_digest" where
  "copy_rows env columns batch sent d [] = Inr (if batch = [] then sent else sent @ [batch], d)"
| "copy_rows env columns batch sent d (cells # source) =
     and_then (row_from_sqlite env columns cells) (\<lambda>values.
     and_then (some_or Digest_Panic (add_row (me_sha env) (me_float_text env) values d)) (\<lambda>d.
       let batch = batch @ [values]
       in if length batch = migration_batch_rows then copy_rows env columns [] (sent @ [batch]) d source
          else copy_rows env columns batch sent d source))"

record table_report =
  tr_rows :: nat
  tr_digest :: string

text \<open>
  \<open>target\<close> is what PostgreSQL returns of the table after the batches were inserted, as typed values or the error
  of reading them.
\<close>

definition migrate_table ::
  "migrate_env \<Rightarrow> string \<Rightarrow> column_spec list \<Rightarrow>
     (typed_value list list list \<Rightarrow> migrate_error + typed_value list list) \<Rightarrow> cell list list \<Rightarrow>
     migrate_error + table_report" where
  "migrate_table env table columns target source =
     and_then (copy_rows env columns [] [] (table_digest_new table) source) (\<lambda>(batches, d).
     let source_digest = me_sha env (finalize_input d)
     in and_then (target batches) (\<lambda>stored.
        and_then (some_or Digest_Panic (digest_of_rows (me_sha env) (me_float_text env) table stored)) (\<lambda>target_digest.
        and_then (check (length stored = length source) Row_Count_Mismatch) (\<lambda>_.
        and_then (check (target_digest = source_digest) Digest_Mismatch) (\<lambda>_.
          Inr \<lparr> tr_rows = length source, tr_digest = source_digest \<rparr>)))))"

section \<open>Checks of the source\<close>

text \<open>One table's ids: those seen in it, and for each normalised id the casing first seen in any table.\<close>

fun check_table_ids ::
  "migrate_env \<Rightarrow> string list \<Rightarrow> (string, string) hmap \<Rightarrow> string list \<Rightarrow> migrate_error + (string, string) hmap" where
  "check_table_ids env seen canonical [] = Inr canonical"
| "check_table_ids env seen canonical (i # ids) =
     (let n = me_lowercase env i
      in if n \<in> set seen then Inl Plugin_Id_Collision
         else case map_of canonical n of
             Some first \<Rightarrow> if first \<noteq> i then Inl Plugin_Id_Casing else check_table_ids env (n # seen) canonical ids
           | None \<Rightarrow> check_table_ids env (n # seen) (hm_insert n i canonical) ids)"

fun check_tables_ids :: "migrate_env \<Rightarrow> (string, string) hmap \<Rightarrow> string list list \<Rightarrow> migrate_error + unit" where
  "check_tables_ids env canonical [] = Inr ()"
| "check_tables_ids env canonical (ids # tables) =
     and_then (check_table_ids env [] canonical ids) (\<lambda>canonical. check_tables_ids env canonical tables)"

definition validate_case_insensitive_plugin_ids :: "migrate_env \<Rightarrow> string list list \<Rightarrow> migrate_error + unit" where
  "validate_case_insensitive_plugin_ids env tables = check_tables_ids env [] tables"

record source_reference =
  rf_id :: string
  rf_provider_type :: string
  rf_revision :: int

definition reference_of_field :: "json \<Rightarrow> source_reference option" where
  "reference_of_field j =
     Option.bind (as_object j) (\<lambda>_.
     Option.bind (opt_filter (\<lambda>s. s \<noteq> []) (map_option trim (Option.bind (jget ''Id'' j) as_str))) (\<lambda>i.
     Option.bind (opt_filter (\<lambda>s. s \<noteq> []) (map_option trim (Option.bind (jget ''Provider'' j) as_str))) (\<lambda>p.
     Option.bind (opt_filter (\<lambda>r. 0 < r) (Option.bind (jget ''Revision'' j) as_i64)) (\<lambda>rev.
       Some \<lparr> rf_id = i, rf_provider_type = p, rf_revision = rev \<rparr>))))"

fun collect_provider_secret_references :: "json \<Rightarrow> migrate_error + source_reference list" where
  "collect_provider_secret_references (JArr vs) =
     and_then (traverse collect_provider_secret_references vs) (\<lambda>rs. Inr (concat rs))"
| "collect_provider_secret_references (JObj m) =
     and_then
       (case map_of m ''JellyrinProviderSecretRef'' of
          None \<Rightarrow> Inr []
        | Some j \<Rightarrow> and_then (some_or Secret_Reference_Invalid (reference_of_field j)) (\<lambda>r. Inr [r])) (\<lambda>here.
     and_then (traverse (\<lambda>kv. collect_provider_secret_references (snd kv)) m) (\<lambda>below. Inr (here @ concat below)))"
| "collect_provider_secret_references _ = Inr []"

definition check_reference ::
  "(string, string \<times> int) hmap \<Rightarrow> source_reference \<Rightarrow> migrate_error + unit" where
  "check_reference secrets r =
     and_then (some_or Secret_Envelope_Missing (map_of secrets (rf_id r))) (\<lambda>(provider_type, revision).
       check (eq_ignore_case provider_type (rf_provider_type r) \<and> revision = rf_revision r) Secret_Reference_Mismatch)"

text \<open>The configurations of the three tables, one after the other; the answer counts the references.\<close>

definition validate_provider_secret_references ::
  "migrate_env \<Rightarrow> (string, string \<times> int) hmap \<Rightarrow> string list \<Rightarrow> migrate_error + nat" where
  "validate_provider_secret_references env secrets configurations =
     and_then
       (traverse (\<lambda>text.
          and_then (some_or Invalid_Json (me_json env text)) (\<lambda>configuration.
          and_then (collect_provider_secret_references configuration) (\<lambda>rs.
          and_then (traverse (check_reference secrets) rs) (\<lambda>_. Inr (length rs))))) configurations)
       (\<lambda>counts. Inr (sum_list counts))"

section \<open>Every row is inserted once\<close>

lemma copy_rows_spec:
  "copy_rows env columns batch sent d source = Inr (batches, d') \<Longrightarrow> length batch < migration_batch_rows \<Longrightarrow>
   \<exists>rows. traverse (row_from_sqlite env columns) source = Inr rows \<and> concat batches = concat sent @ batch @ rows \<and>
     add_rows (me_sha env) (me_float_text env) rows d = Some d' \<and>
     (\<forall>b \<in> set batches. b \<in> set sent \<or> b \<noteq> [] \<and> length b \<le> migration_batch_rows)"
proof (induction env columns batch sent d source rule: copy_rows.induct)
  case (1 env columns batch sent d)
  then show ?case by (auto split: if_splits)
next
  case (2 env columns batch sent d cells source)
  from "2.prems"(1) obtain vs d1 where
    row: "row_from_sqlite env columns cells = Inr vs"
    and add: "add_row (me_sha env) (me_float_text env) vs d = Some d1"
    and rest: "(if length (batch @ [vs]) = migration_batch_rows
      then copy_rows env columns [] (sent @ [batch @ [vs]]) d1 source
      else copy_rows env columns (batch @ [vs]) sent d1 source) = Inr (batches, d')"
    by (auto simp: result_iffs Let_def)
  show ?case
  proof (cases "length (batch @ [vs]) = migration_batch_rows")
    case True
    have "length ([] :: typed_value list list) < migration_batch_rows" by (simp add: migration_batch_rows_def)
    with "2.IH"(1) [OF refl True, of d1] rest True add
    obtain rows where "traverse (row_from_sqlite env columns) source = Inr rows"
        "concat batches = concat (sent @ [batch @ [vs]]) @ [] @ rows"
        "add_rows (me_sha env) (me_float_text env) rows d1 = Some d'"
        "\<forall>b \<in> set batches. b \<in> set (sent @ [batch @ [vs]]) \<or> b \<noteq> [] \<and> length b \<le> migration_batch_rows"
      by (auto simp: result_iffs)
    with row add True show ?thesis by (intro exI [of _ "vs # rows"]) auto
  next
    case False
    with "2.prems"(2) have "length (batch @ [vs]) < migration_batch_rows" by simp
    with "2.IH"(2) [OF refl False, of d1] rest False add
    obtain rows where "traverse (row_from_sqlite env columns) source = Inr rows"
        "concat batches = concat sent @ (batch @ [vs]) @ rows"
        "add_rows (me_sha env) (me_float_text env) rows d1 = Some d'"
        "\<forall>b \<in> set batches. b \<in> set sent \<or> b \<noteq> [] \<and> length b \<le> migration_batch_rows"
      by (auto simp: result_iffs)
    with row add show ?thesis by (intro exI [of _ "vs # rows"]) auto
  qed
qed

lemmas copy_all_rows = copy_rows_spec [where batch = "[]" and sent = "[]", simplified migration_batch_rows_def, simplified]

text \<open>Conversely, the copy succeeds when every row converts and none makes the digest panic.\<close>

lemma copy_rows_succeeds:
  "traverse (row_from_sqlite env columns) source = Inr rows \<Longrightarrow> add_rows (me_sha env) (me_float_text env) rows d = Some d' \<Longrightarrow>
   \<exists>batches. copy_rows env columns batch sent d source = Inr (batches, d')"
proof (induction source arbitrary: rows d batch sent)
  case (Cons cells source)
  from Cons.prems obtain r rs d1 where r: "row_from_sqlite env columns cells = Inr r" "rows = r # rs"
      "traverse (row_from_sqlite env columns) source = Inr rs" "add_row (me_sha env) (me_float_text env) r d = Some d1"
      "add_rows (me_sha env) (me_float_text env) rs d1 = Some d'"
    by (auto simp: result_iffs bind_eq_Some_conv)
  with Cons.IH [OF r(3,5)] show ?case by (simp add: Let_def)
qed simp

text \<open>
  C22. Every row of the source is inserted exactly once and in order: when the copy of a table succeeds, every
  source row converted, the batches are not empty, hold at most 500 rows and are, one after the other, the
  converted rows; and the digest is that of these rows.
\<close>

theorem copy_rows_inserts_every_row:
  assumes "copy_rows env columns [] [] (table_digest_new table) source = Inr (batches, d)"
  shows "traverse (row_from_sqlite env columns) source = Inr (concat batches) \<and>
    (\<forall>b \<in> set batches. b \<noteq> [] \<and> length b \<le> 500) \<and>
    Some (me_sha env (finalize_input d)) = digest_of_rows (me_sha env) (me_float_text env) table (concat batches)"
  using copy_all_rows [OF assms] by (auto simp: digest_of_rows_def)

definition example_env :: migrate_env where
  "example_env = \<lparr> me_uuid = (\<lambda>_. None), me_rfc3339 = (\<lambda>_. None), me_json = (\<lambda>_. None),
     me_sha = (\<lambda>s. replicate 32 (if s = [] then CHR ''a'' else last s)), me_float_text = (\<lambda>_. []),
     me_lowercase = to_ascii_lowercase \<rparr>"

definition example_columns :: "column_spec list" where
  "example_columns = [\<lparr> cs_source = ''n'', cs_target = ''n'', cs_kind = Kind_I64, cs_nullable = True \<rparr>]"

lemma example_rows: "traverse (row_from_sqlite example_env example_columns) [[Cell_Int (Some 7)]] = Inr [[TI64 (Some 7)]]"
  by (simp add: row_from_sqlite_def value_from_sqlite_def example_columns_def)

lemma example_copies:
  "\<exists>batches d. copy_rows example_env example_columns [] [] (table_digest_new ''t'') [[Cell_Int (Some 7)]] = Inr (batches, d)"
proof -
  have "\<exists>d. add_rows (me_sha example_env) (me_float_text example_env) [[TI64 (Some 7)]] (table_digest_new ''t'') = Some d"
    by (simp add: add_row_def row_input_def update_digest_def)
  with copy_rows_succeeds [OF example_rows] show ?thesis by blast
qed

lemma copy_rows_inserts_every_row_witness:
  "\<exists>batches d. copy_rows example_env example_columns [] [] (table_digest_new ''t'') [[Cell_Int (Some 7)]] = Inr (batches, d) \<and>
     concat batches = [[TI64 (Some 7)]]"
proof -
  from example_copies obtain batches d
    where c: "copy_rows example_env example_columns [] [] (table_digest_new ''t'') [[Cell_Int (Some 7)]] = Inr (batches, d)"
    by blast
  from copy_rows_inserts_every_row [OF c] c example_rows show ?thesis by auto
qed

section \<open>The target holds the rows of the source\<close>

text \<open>Every byte string the digest of a table hashes: the inputs of its rows and the final one.\<close>

definition hashed_inputs :: "migrate_env \<Rightarrow> string \<Rightarrow> typed_value list list \<Rightarrow> string set" where
  "hashed_inputs env table rows =
     {i. \<exists>r \<in> set rows. row_input (me_float_text env) table r = Some i} \<union>
     {finalize_input d | d. add_rows (me_sha env) (me_float_text env) rows (table_digest_new table) = Some d}"

lemma migrate_table_step:
  assumes "traverse (row_from_sqlite env columns) source = Inr rows"
    and "digest_of_rows (me_sha env) (me_float_text env) table rows = Some digest"
  shows "\<exists>batches. concat batches = rows \<and>
    migrate_table env table columns target source =
      and_then (target batches) (\<lambda>stored.
      and_then (some_or Digest_Panic (digest_of_rows (me_sha env) (me_float_text env) table stored)) (\<lambda>target_digest.
      and_then (check (length stored = length source) Row_Count_Mismatch) (\<lambda>_.
      and_then (check (target_digest = digest) Digest_Mismatch) (\<lambda>_.
        Inr \<lparr> tr_rows = length source, tr_digest = digest \<rparr>))))"
proof -
  from assms(2) obtain d where d: "add_rows (me_sha env) (me_float_text env) rows (table_digest_new table) = Some d"
      and digest: "digest = me_sha env (finalize_input d)"
    by (auto simp: digest_of_rows_def)
  from copy_rows_succeeds [OF assms(1) d] obtain batches
    where b: "copy_rows env columns [] [] (table_digest_new table) source = Inr (batches, d)" by blast
  from copy_all_rows [OF b] assms(1) have "concat batches = rows" by auto
  with b digest show ?thesis by (intro exI [of _ batches]) (simp add: migrate_table_def Let_def)
qed

text \<open>
  A table whose rows all convert migrates: when the target returns the inserted rows, in whatever order, the
  migration of the table succeeds and reports their number and their digest.
\<close>

theorem migrate_table_accepts_the_inserted_rows:
  assumes rows: "traverse (row_from_sqlite env columns) source = Inr rows"
    and digest: "digest_of_rows (me_sha env) (me_float_text env) table rows = Some digest"
    and target: "\<And>batches. concat batches = rows \<Longrightarrow> \<exists>stored. target batches = Inr stored \<and> mset stored = mset rows"
  shows "migrate_table env table columns target source = Inr \<lparr> tr_rows = length source, tr_digest = digest \<rparr>"
proof -
  from migrate_table_step [OF rows digest, of target] obtain batches where batches: "concat batches = rows"
    and step: "migrate_table env table columns target source = and_then (target batches) (\<lambda>stored.
      and_then (some_or Digest_Panic (digest_of_rows (me_sha env) (me_float_text env) table stored)) (\<lambda>target_digest.
      and_then (check (length stored = length source) Row_Count_Mismatch) (\<lambda>_.
      and_then (check (target_digest = digest) Digest_Mismatch) (\<lambda>_.
        Inr \<lparr> tr_rows = length source, tr_digest = digest \<rparr>))))" by blast
  from target [OF batches] obtain stored where stored: "target batches = Inr stored" "mset stored = mset rows" by blast
  from stored(2) have "length stored = length rows" by (rule mset_eq_length)
  moreover from rows have "length rows = length source" by (simp add: traverse_Inr_iff list_all2_lengthD)
  ultimately show ?thesis using digest digest_of_rows_perm [OF stored(2)] by (simp add: step stored(1))
qed

lemma example_digest: "\<exists>g. digest_of_rows (me_sha example_env) (me_float_text example_env) ''t'' [[TI64 (Some 7)]] = Some g"
  by (simp add: digest_of_rows_def add_row_def row_input_def update_digest_def)

lemma migrate_table_accepts_the_inserted_rows_witness:
  "\<exists>g. migrate_table example_env ''t'' example_columns (\<lambda>batches. Inr (rev (concat batches))) [[Cell_Int (Some 7)]] =
     Inr \<lparr> tr_rows = 1, tr_digest = g \<rparr>"
proof -
  from example_digest obtain g
    where "digest_of_rows (me_sha example_env) (me_float_text example_env) ''t'' [[TI64 (Some 7)]] = Some g" ..
  from migrate_table_accepts_the_inserted_rows [OF example_rows this, of "\<lambda>batches. Inr (rev (concat batches))"]
  show ?thesis by auto
qed

lemma changed_row_digest:
  assumes rows: "mset rows = add_mset v M" and stored: "mset stored = add_mset w M"
    and differ: "row_input (me_float_text env) table v \<noteq> row_input (me_float_text env) table w"
    and len: "\<And>x. length (me_sha env x) = 32"
    and no_collision: "inj_on (me_sha env) (hashed_inputs env table rows \<union> hashed_inputs env table stored)"
    and g: "digest_of_rows (me_sha env) (me_float_text env) table rows = Some g"
    and h: "digest_of_rows (me_sha env) (me_float_text env) table stored = Some h"
  shows "g \<noteq> h"
proof
  assume eq: "g = h"
  let ?sha = "me_sha env" and ?ft = "me_float_text env" and ?new = "table_digest_new table"
  obtain xs where xs: "mset xs = M" using ex_mset by blast
  have perm: "mset rows = mset (xs @ [v])" "mset stored = mset (xs @ [w])" using rows stored xs by simp_all
  from g h obtain dv dw where dv: "add_rows ?sha ?ft rows ?new = Some dv" "g = ?sha (finalize_input dv)"
      and dw: "add_rows ?sha ?ft stored ?new = Some dw" "h = ?sha (finalize_input dw)"
    by (auto simp: digest_of_rows_def)
  have fin: "finalize_input dv = finalize_input dw"
    by (rule inj_onD [OF no_collision]) (use eq dv dw in \<open>auto simp: hashed_inputs_def\<close>)
  from dv(1) add_rows_perm [OF perm(1)] obtain d bv where d: "add_rows ?sha ?ft xs ?new = Some d"
      and bv: "row_input ?ft (td_table d) v = Some bv" "dv = add_row_hash (?sha bv) d"
    by (auto simp: add_rows_append add_row_def bind_eq_Some_conv)
  from dw(1) add_rows_perm [OF perm(2)] d obtain bw
    where bw: "row_input ?ft (td_table d) w = Some bw" "dw = add_row_hash (?sha bw) d"
    by (auto simp: add_rows_append add_row_def bind_eq_Some_conv)
  from add_rows_state [OF d len] have table: "td_table d = table" and xor: "length (td_xor d) = 32"
    by (simp_all add: table_digest_new_def)
  from fin have "?sha bv = ?sha bw" unfolding bv(2) bw(2) by (intro add_row_hash_inject [OF len len xor])
  then have "bv = bw"
  proof (rule inj_onD [OF no_collision])
    have "v \<in># mset rows" "w \<in># mset stored" by (simp_all add: rows stored)
    then show "bv \<in> hashed_inputs env table rows \<union> hashed_inputs env table stored"
        "bw \<in> hashed_inputs env table rows \<union> hashed_inputs env table stored"
      using bv(1) bw(1) unfolding table hashed_inputs_def set_mset_mset by blast+
  qed
  with bv(1) bw(1) differ show False by (simp add: table)
qed

text \<open>
  C10. One altered row is detected: when the target holds the rows of the source except that one of them came back with
  different bytes, and the hash has no collision among the inputs of the two digests, the migration of the table
  ends with the digest mismatch.
\<close>

theorem migrate_table_detects_changed_row:
  assumes rows: "traverse (row_from_sqlite env columns) source = Inr rows"
    and digest: "digest_of_rows (me_sha env) (me_float_text env) table rows = Some g"
    and target: "\<And>batches. target batches = Inr stored"
    and stored: "digest_of_rows (me_sha env) (me_float_text env) table stored = Some h"
    and changed: "mset rows = add_mset v M" "mset stored = add_mset w M"
      "row_input (me_float_text env) table v \<noteq> row_input (me_float_text env) table w"
    and len: "\<And>x. length (me_sha env x) = 32"
    and no_collision: "inj_on (me_sha env) (hashed_inputs env table rows \<union> hashed_inputs env table stored)"
  shows "migrate_table env table columns target source = Inl Digest_Mismatch"
proof -
  from changed_row_digest [OF changed len no_collision digest stored] have "h \<noteq> g" by simp
  moreover have "length stored = length rows" using changed(1,2) by (metis size_add_mset size_mset)
  moreover from rows have "length rows = length source" by (simp add: traverse_Inr_iff list_all2_lengthD)
  moreover from migrate_table_step [OF rows digest, of target] obtain batches
    where "migrate_table env table columns target source = and_then (target batches) (\<lambda>stored.
      and_then (some_or Digest_Panic (digest_of_rows (me_sha env) (me_float_text env) table stored)) (\<lambda>target_digest.
      and_then (check (length stored = length source) Row_Count_Mismatch) (\<lambda>_.
      and_then (check (target_digest = g) Digest_Mismatch) (\<lambda>_.
        Inr \<lparr> tr_rows = length source, tr_digest = g \<rparr>))))" by blast
  ultimately show ?thesis by (simp add: target stored)
qed

text \<open>A hash without collisions among the inputs of one particular migration.\<close>

definition example_final :: "char \<Rightarrow> string" where
  "example_final c = finalize_input (add_row_hash (replicate 32 c) (table_digest_new ''t''))"

definition example_input :: "int \<Rightarrow> string" where
  "example_input n = the (row_input (\<lambda>_. []) ''t'' [TI64 (Some n)])"

definition separating_env :: migrate_env where
  "separating_env = example_env\<lparr> me_sha := (\<lambda>x. replicate 32
     (if x = example_input 7 then CHR ''a'' else if x = example_input 8 then CHR ''b''
      else if x = example_final CHR ''a'' then CHR ''c'' else CHR ''d'')) \<rparr>"

lemma separating_env_simps:
  "row_from_sqlite separating_env example_columns [Cell_Int (Some 7)] = Inr [TI64 (Some 7)]"
  "me_float_text separating_env = (\<lambda>_. [])"
  "length (me_sha separating_env x) = 32"
  by (simp_all add: separating_env_def example_env_def row_from_sqlite_def value_from_sqlite_def example_columns_def)

lemma example_inputs_differ: "example_input 7 \<noteq> example_input 8" "example_input n \<noteq> example_final c"
  by (simp_all add: example_input_def example_final_def row_input_def update_digest_def finalize_input_def
      update_optional_number_def update_optional_bytes_def length_prefixed_def show_int_def show_nat_inj)

lemma example_row_input: "row_input (\<lambda>_. []) ''t'' [TI64 (Some n)] = Some (example_input n)"
  by (simp add: example_input_def row_input_def update_digest_def)

lemma example_finals_differ: "example_final CHR ''a'' \<noteq> example_final CHR ''b''"
  using add_row_hash_inject [of "replicate 32 CHR ''a''" "replicate 32 CHR ''b''" "table_digest_new ''t''"]
  by (auto simp: example_final_def table_digest_new_def)

lemma separating_hash:
  "me_sha separating_env (example_input 7) = replicate 32 CHR ''a''"
  "me_sha separating_env (example_input 8) = replicate 32 CHR ''b''"
  "me_sha separating_env (example_final CHR ''a'') = replicate 32 CHR ''c''"
  "me_sha separating_env (example_final CHR ''b'') = replicate 32 CHR ''d''"
  using example_inputs_differ example_inputs_differ(2) [symmetric] example_finals_differ
  by (simp_all add: separating_env_def)

lemma separating_rows:
  "add_rows (me_sha separating_env) (\<lambda>_. []) [[TI64 (Some n)]] (table_digest_new ''t'') =
     Some (add_row_hash (me_sha separating_env (example_input n)) (table_digest_new ''t''))"
  by (simp add: add_row_def table_digest_new_def example_row_input)

lemma migrate_table_detects_changed_row_witness:
  "migrate_table separating_env ''t'' example_columns (\<lambda>_. Inr [[TI64 (Some 8)]]) [[Cell_Int (Some 7)]] = Inl Digest_Mismatch"
proof -
  have digest: "\<exists>g. digest_of_rows (me_sha separating_env) (me_float_text separating_env) ''t'' [[TI64 (Some n)]] = Some g" for n
    by (simp add: digest_of_rows_def separating_rows separating_env_simps del: add_rows.simps)
  have "hashed_inputs separating_env ''t'' [[TI64 (Some n)]] =
      {example_input n, finalize_input (add_row_hash (me_sha separating_env (example_input n)) (table_digest_new ''t''))}" for n
    by (auto simp: hashed_inputs_def separating_rows separating_env_simps example_row_input simp del: add_rows.simps)
  then have inj: "inj_on (me_sha separating_env)
      (hashed_inputs separating_env ''t'' [[TI64 (Some 7)]] \<union> hashed_inputs separating_env ''t'' [[TI64 (Some 8)]])"
    by (auto simp: separating_hash inj_on_def simp flip: example_final_def)
  obtain g h where g: "digest_of_rows (me_sha separating_env) (me_float_text separating_env) ''t'' [[TI64 (Some 7)]] = Some g"
      and h: "digest_of_rows (me_sha separating_env) (me_float_text separating_env) ''t'' [[TI64 (Some 8)]] = Some h"
    using digest by blast
  show ?thesis
    by (rule migrate_table_detects_changed_row [where v = "[TI64 (Some 7)]" and w = "[TI64 (Some 8)]" and M = "{#}",
          OF _ g _ h _ _ _ _ inj])
      (simp_all add: separating_env_simps example_rows example_row_input example_inputs_differ)
qed

section \<open>Plugin ids up to case\<close>

text \<open>The ids recorded so far: each under its lower case, and no two of the same.\<close>

definition represents :: "migrate_env \<Rightarrow> (string, string) hmap \<Rightarrow> string set \<Rightarrow> bool" where
  "represents env canonical ids \<longleftrightarrow>
     inj_on (me_lowercase env) ids \<and> (\<forall>n i. map_of canonical n = Some i \<longleftrightarrow> i \<in> ids \<and> me_lowercase env i = n)"

lemma represents_insert:
  "represents env canonical C \<Longrightarrow> map_of canonical (me_lowercase env i) = None \<Longrightarrow>
   represents env (hm_insert (me_lowercase env i) i canonical) (insert i C)"
proof -
  assume C: "represents env canonical C" and none: "map_of canonical (me_lowercase env i) = None"
  then have "\<forall>j \<in> C. me_lowercase env j \<noteq> me_lowercase env i" unfolding represents_def by (metis option.distinct(1))
  with C show ?thesis by (auto simp: represents_def inj_on_def)
qed

lemma represents_known:
  "represents env canonical C \<Longrightarrow> map_of canonical (me_lowercase env i) = Some f \<Longrightarrow>
   (i \<in> C \<longleftrightarrow> f = i) \<and> (f \<noteq> i \<longrightarrow> \<not> inj_on (me_lowercase env) (insert i C))"
  unfolding represents_def inj_on_def by (metis insert_iff)

lemma check_table_ids_iff:
  "represents env canonical C \<Longrightarrow>
   (case check_table_ids env seen canonical ids of
      Inl _ \<Rightarrow> \<not> (distinct (map (me_lowercase env) ids) \<and> set (map (me_lowercase env) ids) \<inter> set seen = {} \<and>
        inj_on (me_lowercase env) (C \<union> set ids))
    | Inr canonical' \<Rightarrow> distinct (map (me_lowercase env) ids) \<and> set (map (me_lowercase env) ids) \<inter> set seen = {} \<and>
        represents env canonical' (C \<union> set ids))"
proof (induction env seen canonical ids arbitrary: C rule: check_table_ids.induct)
  case (2 env seen canonical i ids)
  let ?n = "me_lowercase env i"
  consider (seen) "?n \<in> set seen" | (fresh) "?n \<notin> set seen" "map_of canonical ?n = None"
    | (known) f where "?n \<notin> set seen" "map_of canonical ?n = Some f" "f = i"
    | (casing) f where "?n \<notin> set seen" "map_of canonical ?n = Some f" "f \<noteq> i"
    by (cases "map_of canonical ?n") auto
  then show ?case
  proof cases
    case fresh
    from "2.IH"(1) [OF refl fresh(1,2) represents_insert [OF "2.prems" fresh(2)]] fresh
    show ?thesis by (auto simp: Let_def split: sum.splits)
  next
    case known
    from represents_known [OF "2.prems" known(2)] known(3) have all: "C \<union> set (i # ids) = C \<union> set ids" by auto
    have "\<not> f \<noteq> i" by (simp add: known(3))
    from "2.IH"(2) [OF refl known(1,2) this "2.prems"] known show ?thesis
      unfolding all by (auto simp: Let_def split: sum.splits)
  next
    case casing
    from represents_known [OF "2.prems" casing(2)] casing(3) have "\<not> inj_on (me_lowercase env) (insert i C)" by auto
    then have "\<not> inj_on (me_lowercase env) (C \<union> set (i # ids))" by (rule contrapos_nn) (auto elim: inj_on_subset)
    with casing show ?thesis by (simp add: Let_def)
  qed (simp add: Let_def)
qed (simp add: represents_def)

lemma check_tables_ids_iff:
  "represents env canonical C \<Longrightarrow> check_tables_ids env canonical tables = Inr () \<longleftrightarrow>
   list_all (\<lambda>ids. distinct (map (me_lowercase env) ids)) tables \<and> inj_on (me_lowercase env) (C \<union> set (concat tables))"
proof (induction tables arbitrary: canonical C)
  case (Cons ids tables)
  show ?case
  proof (cases "check_table_ids env [] canonical ids")
    case (Inl e)
    with check_table_ids_iff [OF Cons.prems, where seen = "[]" and ids = ids]
    have bad: "\<not> (distinct (map (me_lowercase env) ids) \<and> inj_on (me_lowercase env) (C \<union> set ids))" by simp
    have "inj_on (me_lowercase env) (C \<union> set (concat (ids # tables))) \<Longrightarrow> inj_on (me_lowercase env) (C \<union> set ids)"
      by (rule inj_on_subset) auto
    with bad Inl show ?thesis by auto
  next
    case (Inr canonical')
    with check_table_ids_iff [OF Cons.prems, where seen = "[]" and ids = ids]
    have "distinct (map (me_lowercase env) ids)" "represents env canonical' (C \<union> set ids)" by simp_all
    with Inr Cons.IH show ?thesis by (simp add: Un_assoc)
  qed
qed (simp add: represents_def)

text \<open>
  The preflight accepts the plugin ids exactly when no table holds two ids that are equal up to case and no
  two ids anywhere in the tables differ only in case.
\<close>

theorem plugin_ids_validated:
  "validate_case_insensitive_plugin_ids env tables = Inr () \<longleftrightarrow>
     list_all distinct tables \<and> inj_on (me_lowercase env) (set (concat tables))"
proof -
  have "represents env [] {}" by (simp add: represents_def)
  from check_tables_ids_iff [OF this, of tables]
  have "validate_case_insensitive_plugin_ids env tables = Inr () \<longleftrightarrow>
      list_all (\<lambda>ids. distinct (map (me_lowercase env) ids)) tables \<and> inj_on (me_lowercase env) (set (concat tables))"
    by (simp add: validate_case_insensitive_plugin_ids_def)
  moreover have "distinct (map (me_lowercase env) ids) \<longleftrightarrow> distinct ids"
    if "ids \<in> set tables" "inj_on (me_lowercase env) (set (concat tables))" for ids
    using inj_on_subset [OF that(2), of "set ids"] that(1) by (auto simp: distinct_map)
  ultimately show ?thesis by (auto simp: list_all_iff)
qed

section \<open>References to provider secrets\<close>

text \<open>The values inside a JSON value, at any depth.\<close>

inductive inside :: "json \<Rightarrow> json \<Rightarrow> bool" where
  "inside j j"
| "inside j v \<Longrightarrow> v \<in> set vs \<Longrightarrow> inside j (JArr vs)"
| "inside j v \<Longrightarrow> (k, v) \<in> set m \<Longrightarrow> inside j (JObj m)"

inductive_simps inside_simps: "inside x JNull" "inside x (JBool b)" "inside x (JNum n)" "inside x (JStr s)"
  "inside x (JArr vs)" "inside x (JObj m)"

lemma traverse_ok: "traverse f xs = Inr ys \<Longrightarrow> x \<in> set xs \<Longrightarrow> \<exists>y \<in> set ys. f x = Inr y"
  by (induction xs arbitrary: ys) (auto simp: result_iffs)

lemma collected_inside:
  "collect_provider_secret_references j = Inr rs \<Longrightarrow> inside x j \<Longrightarrow> jget ''JellyrinProviderSecretRef'' x = Some f \<Longrightarrow>
   \<exists>r \<in> set rs. reference_of_field f = Some r"
proof (induction j arbitrary: rs rule: collect_provider_secret_references.induct)
  case (1 vs)
  from "1.prems" obtain v where v: "inside x v" "v \<in> set vs" by (auto simp: inside_simps jget_def)
  from "1.prems"(1) obtain rss where "traverse collect_provider_secret_references vs = Inr rss" "rs = concat rss"
    by (auto simp: result_iffs)
  then obtain rs' where "collect_provider_secret_references v = Inr rs'" "set rs' \<subseteq> set rs"
    using v(2) by (fastforce dest: traverse_ok)
  with "1.IH" [OF v(2) _ v(1) "1.prems"(3)] show ?case by blast
next
  case (2 m)
  from "2.prems"(1) obtain here below where here:
      "(case map_of m ''JellyrinProviderSecretRef'' of None \<Rightarrow> Inr []
        | Some j \<Rightarrow> and_then (some_or Secret_Reference_Invalid (reference_of_field j)) (\<lambda>r. Inr [r])) = Inr here"
    and below: "traverse (\<lambda>kv. collect_provider_secret_references (snd kv)) m = Inr below"
    and rs: "rs = here @ concat below"
    by (auto simp: result_iffs)
  from "2.prems"(2) consider (here) "x = JObj m" | (below) k v where "inside x v" "(k, v) \<in> set m"
    by (auto simp: inside_simps)
  then show ?case
  proof cases
    case here
    with "2.prems"(3) \<open>_ = Inr here\<close> rs show ?thesis by (auto simp: jget_def result_iffs)
  next
    case below
    obtain rs' where "collect_provider_secret_references v = Inr rs'" "set rs' \<subseteq> set rs"
      using \<open>traverse _ m = Inr _\<close> below(2) rs
      by (fastforce dest: traverse_ok)
    with "2.IH" [OF below(2), simplified, OF _ below(1) "2.prems"(3)] show ?thesis by auto
  qed
qed (auto simp: inside_simps jget_def)

text \<open>
  After the preflight no configuration that is copied refers to a secret the migration loses: every reference
  field, at any depth of any configuration, is well formed and names an envelope of its provider and revision.
\<close>

theorem provider_secret_references_validated:
  assumes valid: "validate_provider_secret_references env secrets configurations = Inr n"
    and configuration: "raw \<in> set configurations" "me_json env raw = Some j"
    and field: "inside x j" "jget ''JellyrinProviderSecretRef'' x = Some f"
  shows "\<exists>r p. reference_of_field f = Some r \<and> map_of secrets (rf_id r) = Some (p, rf_revision r) \<and>
    eq_ignore_case p (rf_provider_type r)"
proof -
  from valid configuration obtain rs where rs: "collect_provider_secret_references j = Inr rs"
      and checked: "\<exists>us. traverse (check_reference secrets) rs = Inr us"
    by (fastforce simp: validate_provider_secret_references_def result_iffs dest: traverse_ok)
  from collected_inside [OF rs field] obtain r where r: "r \<in> set rs" "reference_of_field f = Some r" by blast
  from checked r(1) have "check_reference secrets r = Inr ()"
    by (auto dest: traverse_ok)
  with r(2) show ?thesis by (auto simp: check_reference_def result_iffs)
qed

lemma provider_secret_references_validated_witness:
  "\<exists>r p. reference_of_field (JObj [(''Id'', JStr ''s1''), (''Provider'', JStr ''xtream''), (''Revision'', JNum (PosInt 2))]) = Some r \<and>
     map_of [(''s1'', (''Xtream'', 2))] (rf_id r) = Some (p, rf_revision r) \<and> eq_ignore_case p (rf_provider_type r)"
proof -
  let ?f = "JObj [(''Id'', JStr ''s1''), (''Provider'', JStr ''xtream''), (''Revision'', JNum (PosInt 2))]"
  let ?j = "JArr [JObj [(''JellyrinProviderSecretRef'', ?f)]]"
  let ?env = "example_env\<lparr> me_json := (\<lambda>_. Some ?j) \<rparr>"
  have "reference_of_field ?f = Some \<lparr> rf_id = ''s1'', rf_provider_type = ''xtream'', rf_revision = 2 \<rparr>"
    by (simp add: reference_of_field_def jget_def opt_filter_def trim_plain plain_char_def char_eval)
  then have "validate_provider_secret_references ?env [(''s1'', (''Xtream'', 2))] [''x''] = Inr 1"
    by (simp add: validate_provider_secret_references_def check_reference_def eq_ignore_case_def to_ascii_lowercase_def char_eval)
  from provider_secret_references_validated [OF this, of "''x''" ?j "JObj [(''JellyrinProviderSecretRef'', ?f)]" ?f]
  show ?thesis by (simp add: inside_simps jget_def)
qed

end
