(* ===== verification/Xtream_Address.thy ===== *)
theory Xtream_Address
  imports Prelude "HOL-Library.Word"
begin

text \<open>
  The addresses an Xtream provider may have (\<open>provider_address_allowed\<close> of
  \<open>crates/jellyrin-xtream-provider/src/lib.rs\<close>, 1723--1804), with the predicates of \<open>std::net\<close> it calls. The
  reference is a table of address blocks; the code is shown to be that table, IPv4 addresses embedded in
  IPv6 included.
\<close>

unbundle bit_operations_syntax

section \<open>The code\<close>

datatype ip_addr =
    V4 "8 word" "8 word" "8 word" "8 word"
  | V6 "16 word" "16 word" "16 word" "16 word" "16 word" "16 word" "16 word" "16 word"

definition v4_is_private :: "8 word \<Rightarrow> 8 word \<Rightarrow> bool" where
  "v4_is_private a b \<longleftrightarrow> a = 10 \<or> a = 172 \<and> 16 \<le> b \<and> b \<le> 31 \<or> a = 192 \<and> b = 168"

definition v4_is_documentation :: "8 word \<Rightarrow> 8 word \<Rightarrow> 8 word \<Rightarrow> bool" where
  "v4_is_documentation a b c \<longleftrightarrow>
     a = 192 \<and> b = 0 \<and> c = 2 \<or> a = 198 \<and> b = 51 \<and> c = 100 \<or> a = 203 \<and> b = 0 \<and> c = 113"

definition v4_allowed :: "8 word \<Rightarrow> 8 word \<Rightarrow> 8 word \<Rightarrow> 8 word \<Rightarrow> bool \<Rightarrow> bool" where
  "v4_allowed a b c d allow_private =
     (let shared_carrier_nat = a = 100 \<and> 64 \<le> b \<and> b \<le> 127;
          benchmarking = a = 198 \<and> (b = 18 \<or> b = 19);
          protocol_assignment = a = 192 \<and> b = 0 \<and> c = 0;
          deprecated_6to4_relay = a = 192 \<and> b = 88 \<and> c = 99
      in if a = 0 \<and> b = 0 \<and> c = 0 \<and> d = 0 \<or> 224 \<le> a \<and> a \<le> 239 \<or> a = 255 \<and> b = 255 \<and> c = 255 \<and> d = 255 \<or>
            a = 169 \<and> b = 254 \<or> v4_is_documentation a b c \<or> a = 0 \<or> 240 \<le> a \<or> shared_carrier_nat \<or> benchmarking \<or>
            protocol_assignment \<or> deprecated_6to4_relay
         then False
         else if v4_is_private a b \<or> a = 127 then allow_private else True)"

fun provider_address_allowed :: "ip_addr \<Rightarrow> bool \<Rightarrow> bool" where
  "provider_address_allowed (V4 a b c d) allow_private = v4_allowed a b c d allow_private"
| "provider_address_allowed (V6 s0 s1 s2 s3 s4 s5 s6 s7) allow_private =
     (let high = ucast (drop_bit 8 s6); low = ucast s6; high' = ucast (drop_bit 8 s7); low' = ucast s7;
          first_six_zero = [s0, s1, s2, s3, s4, s5] = [0, 0, 0, 0, 0, 0];
          unspecified = first_six_zero \<and> s6 = 0 \<and> s7 = 0;
          loopback = first_six_zero \<and> s6 = 0 \<and> s7 = 1
      in if [s0, s1, s2, s3, s4, s5] = [0, 0, 0, 0, 0, 0xffff] then v4_allowed high low high' low' allow_private
         else if [s0, s1, s2, s3, s4, s5] = [0x0064, 0xff9b, 0, 0, 0, 0] then v4_allowed high low high' low' allow_private
         else if unspecified \<or> s0 AND 0xff00 = 0xff00 \<or> s0 AND 0xffc0 = 0xfe80 \<or>
              (first_six_zero \<and> \<not> unspecified \<and> \<not> loopback) \<or>
              (s0 = 0x0064 \<and> s1 = 0xff9b \<and> s2 = 0x0001) \<or>
              [s0, s1, s2, s3] = [0x0100, 0, 0, 0] \<or> [s0, s1, s2, s3] = [0x0100, 0, 0, 0x0001] \<or>
              (s0 = 0x2001 \<and> s1 = 0) \<or> [s0, s1, s2] = [0x2001, 0x0002, 0] \<or>
              (s0 = 0x2001 \<and> (s1 AND 0xfff0 = 0x0010 \<or> s1 AND 0xfff0 = 0x0020)) \<or>
              ((s0 = 0x2001 \<and> s1 = 0x0db8) \<or> (s0 = 0x3fff \<and> s1 AND 0xf000 = 0)) \<or>
              s0 = 0x2002 \<or> s0 = 0x5f00 \<or> s0 AND 0xffc0 = 0xfec0
         then False
         else if s0 AND 0xfe00 = 0xfc00 \<or> loopback then allow_private
         else s0 AND 0xe000 = 0x2000)"

section \<open>Address blocks\<close>

text \<open>An address is a number; a block is its first address and the length of its prefix.\<close>

definition number :: "nat \<Rightarrow> nat list \<Rightarrow> nat" where
  "number w parts = foldl (\<lambda>n p. n * 2 ^ w + p) 0 parts"

definition in_block :: "nat \<Rightarrow> nat \<Rightarrow> nat \<times> nat \<Rightarrow> bool" where
  "in_block width n block \<longleftrightarrow> n div 2 ^ (width - snd block) = fst block div 2 ^ (width - snd block)"

definition v4_special :: "(nat \<times> nat) list" where
  "v4_special = map (\<lambda>(q, p). (number 8 q, p))
     [([0, 0, 0, 0], 8), ([100, 64, 0, 0], 10), ([169, 254, 0, 0], 16), ([192, 0, 0, 0], 24), ([192, 0, 2, 0], 24),
      ([192, 88, 99, 0], 24), ([198, 18, 0, 0], 15), ([198, 51, 100, 0], 24), ([203, 0, 113, 0], 24),
      ([224, 0, 0, 0], 4), ([240, 0, 0, 0], 4)]"

definition v4_local :: "(nat \<times> nat) list" where
  "v4_local = map (\<lambda>(q, p). (number 8 q, p)) [([10, 0, 0, 0], 8), ([127, 0, 0, 0], 8), ([172, 16, 0, 0], 12), ([192, 168, 0, 0], 16)]"

definition v6_special :: "(nat \<times> nat) list" where
  "v6_special = map (\<lambda>(q, p). (number 16 q, p))
     [([0x2001, 0, 0, 0, 0, 0, 0, 0], 32), ([0x2001, 2, 0, 0, 0, 0, 0, 0], 48), ([0x2001, 0x10, 0, 0, 0, 0, 0, 0], 28),
      ([0x2001, 0x20, 0, 0, 0, 0, 0, 0], 28), ([0x2001, 0xdb8, 0, 0, 0, 0, 0, 0], 32), ([0x2002, 0, 0, 0, 0, 0, 0, 0], 16),
      ([0x3fff, 0, 0, 0, 0, 0, 0, 0], 20)]"

definition v6_local :: "(nat \<times> nat) list" where
  "v6_local = [(number 16 [0xfc00, 0, 0, 0, 0, 0, 0, 0], 7), (number 16 [0, 0, 0, 0, 0, 0, 0, 1], 128)]"

definition v4_reference :: "nat \<Rightarrow> bool \<Rightarrow> bool" where
  "v4_reference n allow_private =
     (if list_ex (in_block 32 n) v4_local then allow_private else \<not> list_ex (in_block 32 n) v4_special)"

text \<open>Global unicast is \<open>2000::/3\<close>. The IPv4 address is embedded in \<open>::ffff:0:0/96\<close> and \<open>64:ff9b::/96\<close>.\<close>

definition v6_reference :: "nat \<Rightarrow> bool \<Rightarrow> bool" where
  "v6_reference n allow_private =
     (if in_block 128 n (number 16 [0, 0, 0, 0, 0, 0xffff, 0, 0], 96) \<or>
        in_block 128 n (number 16 [0x64, 0xff9b, 0, 0, 0, 0, 0, 0], 96) then v4_reference (n mod 2 ^ 32) allow_private
      else if list_ex (in_block 128 n) v6_local then allow_private
      else in_block 128 n (number 16 [0x2000, 0, 0, 0, 0, 0, 0, 0], 3) \<and> \<not> list_ex (in_block 128 n) v6_special)"

section \<open>The code is the table\<close>

lemma number_append: "number w (xs @ ys) = number w xs * 2 ^ (w * length ys) + number w ys"
proof (induction ys rule: rev_induct)
  case (snoc y ys)
  have "number w (xs @ ys @ [y]) = number w (xs @ ys) * 2 ^ w + y" by (simp add: number_def flip: append_assoc)
  moreover have "number w (ys @ [y]) = number w ys * 2 ^ w + y" by (simp add: number_def)
  ultimately show ?case using snoc by (simp add: algebra_simps power_add)
qed (simp add: number_def)

lemma number_bound: "list_all (\<lambda>p. p < 2 ^ w) xs \<Longrightarrow> number w xs < 2 ^ (w * length xs)"
proof (induction xs rule: rev_induct)
  case (snoc x xs)
  then have "number w xs + 1 \<le> 2 ^ (w * length xs)" "x < 2 ^ w" by auto
  then have "(number w xs + 1) * 2 ^ w \<le> 2 ^ (w * length xs) * 2 ^ w" by (intro mult_right_mono) auto
  moreover have "number w (xs @ [x]) < (number w xs + 1) * 2 ^ w" using \<open>x < 2 ^ w\<close> by (simp add: number_def)
  ultimately show ?case by (simp add: power_add mult.commute)
qed (simp add: number_def)

lemma number_div:
  assumes "list_all (\<lambda>p. p < 2 ^ w) ys" and "r \<le> w" and "y < 2 ^ w"
  shows "number w (xs @ ys) div 2 ^ (w * length ys) = number w xs"
    and "number w (xs @ y # ys) div 2 ^ (w * length ys + (w - r)) = number w xs * 2 ^ r + y div 2 ^ (w - r)"
proof -
  show base: "number w (xs @ ys) div 2 ^ (w * length ys) = number w xs" for xs
    using number_bound [OF assms(1)] by (simp add: number_append)
  have "number w (xs @ y # ys) div 2 ^ (w * length ys) = number w xs * 2 ^ w + y"
    using base [of "xs @ [y]"] by (simp add: number_def)
  moreover have "(2::nat) ^ w = 2 ^ r * 2 ^ (w - r)" using assms(2) by (simp flip: power_add)
  ultimately show "number w (xs @ y # ys) div 2 ^ (w * length ys + (w - r)) = number w xs * 2 ^ r + y div 2 ^ (w - r)"
    by (simp add: power_add div_mult2_eq mult.assoc [symmetric])
qed

lemma high_bits:
  fixes x y :: "'a::len word"
  shows "x AND NOT (mask k) = y AND NOT (mask k) \<longleftrightarrow> unat x div 2 ^ k = unat y div 2 ^ k"
proof -
  have bits: "bit x n = bit y n" if "drop_bit k x = drop_bit k y" "k \<le> n" for n
  proof -
    have "bit (drop_bit k x) (n - k) = bit (drop_bit k y) (n - k)" using that(1) by simp
    with that(2) show ?thesis by (simp add: bit_simps)
  qed
  have "x AND NOT (mask k) = y AND NOT (mask k) \<longleftrightarrow> drop_bit k x = drop_bit k y"
  proof
    assume eq: "x AND NOT (mask k) = y AND NOT (mask k)"
    have "bit x (k + n) = bit y (k + n)" for n
      using arg_cong [OF eq, of "\<lambda>w. bit w (k + n)"] bit_imp_le_length [of x "k + n"] bit_imp_le_length [of y "k + n"]
      by (auto simp: bit_simps)
    then show "drop_bit k x = drop_bit k y" by (intro bit_word_eqI) (simp add: bit_simps)
  next
    assume "drop_bit k x = drop_bit k y"
    with bits show "x AND NOT (mask k) = y AND NOT (mask k)" by (intro bit_word_eqI) (auto simp: bit_simps)
  qed
  also have "\<dots> \<longleftrightarrow> unat x div 2 ^ k = unat y div 2 ^ k"
    by (simp only: word_unat_eq_iff unat_drop_bit_eq) (simp add: drop_bit_eq_div)
  finally show ?thesis .
qed

lemma masked:
  fixes x c m :: "16 word"
  shows "m = NOT (mask k) \<Longrightarrow> c AND m = c \<Longrightarrow> x AND m = c \<longleftrightarrow> unat x div 2 ^ k = unat c div 2 ^ k"
  using high_bits [of x k c] by simp

lemma segment_mask_numerals:
  "NOT (mask 4) = (0xfff0 :: 16 word)" "NOT (mask 6) = (0xffc0 :: 16 word)" "NOT (mask 8) = (0xff00 :: 16 word)"
  "NOT (mask 9) = (0xfe00 :: 16 word)" "NOT (mask 12) = (0xf000 :: 16 word)" "NOT (mask 13) = (0xe000 :: 16 word)"
  by (simp_all add: mask_eq_exp_minus_1)

lemma segment_masks:
  "s AND 0xff00 = 0xff00 \<longleftrightarrow> unat (s :: 16 word) div 256 = 255"
  "s AND 0xffc0 = 0xfe80 \<longleftrightarrow> unat s div 64 = 1018"
  "s AND 0xffc0 = 0xfec0 \<longleftrightarrow> unat s div 64 = 1019"
  "s AND 0xfff0 = 0x0010 \<longleftrightarrow> unat s div 16 = 1"
  "s AND 0xfff0 = 0x0020 \<longleftrightarrow> unat s div 16 = 2"
  "s AND 0xf000 = 0 \<longleftrightarrow> unat s div 4096 = 0"
  "s AND 0xfe00 = 0xfc00 \<longleftrightarrow> unat s div 512 = 126"
  "s AND 0xe000 = 0x2000 \<longleftrightarrow> unat s div 8192 = 1"
  using masked [of "0xff00" 8 "0xff00" s] masked [of "0xffc0" 6 "0xfe80" s] masked [of "0xffc0" 6 "0xfec0" s]
    masked [of "0xfff0" 4 "0x0010" s] masked [of "0xfff0" 4 "0x0020" s] masked [of "0xf000" 12 0 s]
    masked [of "0xfe00" 9 "0xfc00" s] masked [of "0xe000" 13 "0x2000" s]
  by (simp_all add: segment_mask_numerals)

lemma octet_bound: "unat (x :: 8 word) < 256" and segment_bound: "unat (s :: 16 word) < 65536"
  using unsigned_less [of x, where 'a = nat] unsigned_less [of s, where 'a = nat] by simp_all

text \<open>Which number an address is.\<close>

fun address_number :: "ip_addr \<Rightarrow> nat" where
  "address_number (V4 a b c d) = number 8 (map unat [a, b, c, d])"
| "address_number (V6 s0 s1 s2 s3 s4 s5 s6 s7) = number 16 (map unat [s0, s1, s2, s3, s4, s5, s6, s7])"

lemma number_inject:
  "length xs = length ys \<Longrightarrow> list_all (\<lambda>p. p < 2 ^ w) xs \<Longrightarrow> list_all (\<lambda>p. p < 2 ^ w) ys \<Longrightarrow>
   number w xs = number w ys \<longleftrightarrow> xs = ys"
proof (induction xs ys rule: rev_induct2)
  case (4 x xs y ys)
  have step: "number w (zs @ [z]) = number w zs * 2 ^ w + z" for zs z by (simp add: number_def)
  from 4 have b: "x < 2 ^ w" "y < 2 ^ w" by auto
  have "number w (xs @ [x]) = number w (ys @ [y]) \<longleftrightarrow> number w xs = number w ys \<and> x = y"
  proof
    assume eq: "number w (xs @ [x]) = number w (ys @ [y])"
    from arg_cong [OF eq, of "\<lambda>n. n div 2 ^ w"] arg_cong [OF eq, of "\<lambda>n. n mod 2 ^ w"] b
    show "number w xs = number w ys \<and> x = y" unfolding step by simp
  qed (simp add: step)
  with 4 show ?case by auto
qed auto

lemma div_cut: "b div k = m \<longleftrightarrow> k * m \<le> b \<and> b < k * Suc m" if "0 < k" for b k m :: nat
proof
  assume "b div k = m"
  then have "b = k * m + b mod k" by (metis mult_div_mod_eq)
  with that show "k * m \<le> b \<and> b < k * Suc m" by (metis add_less_cancel_left le_add1 mod_less_divisor mult_Suc_right add.commute)
qed (auto intro: div_nat_eqI)

text \<open>Membership in a block, part by part.\<close>

lemma in_block_parts:
  assumes "list_all (\<lambda>p. p < 2 ^ w) (xs @ y # ys)" "list_all (\<lambda>p. p < 2 ^ w) (q @ z # zs)"
    and len: "length q = length xs" "length zs = length ys" and r: "r \<le> w"
  shows "in_block (w * (length xs + 1 + length ys)) (number w (xs @ y # ys)) (number w (q @ z # zs), w * length xs + r) \<longleftrightarrow>
    xs = q \<and> y div 2 ^ (w - r) = z div 2 ^ (w - r)"
proof -
  have cut: "w * (length xs + 1 + length ys) - (w * length xs + r) = w * length ys + (w - r)"
    using r by (simp add: algebra_simps)
  have eq: "m * 2 ^ r + y div 2 ^ (w - r) = n * 2 ^ r + z div 2 ^ (w - r) \<longleftrightarrow> m = n \<and> y div 2 ^ (w - r) = z div 2 ^ (w - r)" for m n
  proof
    have split: "(2::nat) ^ w = 2 ^ r * 2 ^ (w - r)" using r by (simp flip: power_add)
    have b: "y div 2 ^ (w - r) < 2 ^ r" "z div 2 ^ (w - r) < 2 ^ r"
      using assms(1,2) by (auto intro!: less_mult_imp_div_less simp: split)
    assume e: "m * 2 ^ r + y div 2 ^ (w - r) = n * 2 ^ r + z div 2 ^ (w - r)"
    from arg_cong [OF e, of "\<lambda>k. k div 2 ^ r"] arg_cong [OF e, of "\<lambda>k. k mod 2 ^ r"] b
    show "m = n \<and> y div 2 ^ (w - r) = z div 2 ^ (w - r)" by simp
  qed simp
  have "number w (xs @ y # ys) div 2 ^ (w * length ys + (w - r)) = number w xs * 2 ^ r + y div 2 ^ (w - r)"
    using assms(1) r by (intro number_div(2)) auto
  moreover have "number w (q @ z # zs) div 2 ^ (w * length ys + (w - r)) = number w q * 2 ^ r + z div 2 ^ (w - r)"
    using assms(2) r len(2) number_div(2) [of w zs r z q] by auto
  ultimately show ?thesis
    using assms number_inject [of xs q w] unfolding in_block_def fst_conv snd_conv cut by (simp add: eq)
qed

lemma v4_in_block:
  fixes a b c d x y z :: nat
  assumes "a < 256" "b < 256" "c < 256" "d < 256"
  shows "x < 256 \<Longrightarrow> in_block 32 (number 8 [a, b, c, d]) (number 8 [x, 0, 0, 0], 4) \<longleftrightarrow> a div 16 = x div 16"
    and "x < 256 \<Longrightarrow> in_block 32 (number 8 [a, b, c, d]) (number 8 [x, 0, 0, 0], 8) \<longleftrightarrow> a = x"
    and "x < 256 \<Longrightarrow> y < 256 \<Longrightarrow> in_block 32 (number 8 [a, b, c, d]) (number 8 [x, y, 0, 0], 10) \<longleftrightarrow> a = x \<and> b div 64 = y div 64"
    and "x < 256 \<Longrightarrow> y < 256 \<Longrightarrow> in_block 32 (number 8 [a, b, c, d]) (number 8 [x, y, 0, 0], 12) \<longleftrightarrow> a = x \<and> b div 16 = y div 16"
    and "x < 256 \<Longrightarrow> y < 256 \<Longrightarrow> in_block 32 (number 8 [a, b, c, d]) (number 8 [x, y, 0, 0], 15) \<longleftrightarrow> a = x \<and> b div 2 = y div 2"
    and "x < 256 \<Longrightarrow> y < 256 \<Longrightarrow> in_block 32 (number 8 [a, b, c, d]) (number 8 [x, y, 0, 0], 16) \<longleftrightarrow> a = x \<and> b = y"
    and "x < 256 \<Longrightarrow> y < 256 \<Longrightarrow> z < 256 \<Longrightarrow> in_block 32 (number 8 [a, b, c, d]) (number 8 [x, y, z, 0], 24) \<longleftrightarrow> a = x \<and> b = y \<and> c = z"
proof -
  note first = in_block_parts [of 8 "[]" a "[b, c, d]" "[]" x "[0, 0, 0]"]
  note second = in_block_parts [of 8 "[a]" b "[c, d]" "[x]" y "[0, 0]"]
  note third = in_block_parts [of 8 "[a, b]" c "[d]" "[x, y]" z "[0]"]
  show "x < 256 \<Longrightarrow> in_block 32 (number 8 [a, b, c, d]) (number 8 [x, 0, 0, 0], 4) \<longleftrightarrow> a div 16 = x div 16"
    using first [of 4] assms by simp
  show "x < 256 \<Longrightarrow> in_block 32 (number 8 [a, b, c, d]) (number 8 [x, 0, 0, 0], 8) \<longleftrightarrow> a = x"
    using first [of 8] assms by simp
  show "x < 256 \<Longrightarrow> y < 256 \<Longrightarrow> in_block 32 (number 8 [a, b, c, d]) (number 8 [x, y, 0, 0], 10) \<longleftrightarrow> a = x \<and> b div 64 = y div 64"
    using second [of 2] assms by simp
  show "x < 256 \<Longrightarrow> y < 256 \<Longrightarrow> in_block 32 (number 8 [a, b, c, d]) (number 8 [x, y, 0, 0], 12) \<longleftrightarrow> a = x \<and> b div 16 = y div 16"
    using second [of 4] assms by simp
  show "x < 256 \<Longrightarrow> y < 256 \<Longrightarrow> in_block 32 (number 8 [a, b, c, d]) (number 8 [x, y, 0, 0], 15) \<longleftrightarrow> a = x \<and> b div 2 = y div 2"
    using second [of 7] assms by simp
  show "x < 256 \<Longrightarrow> y < 256 \<Longrightarrow> in_block 32 (number 8 [a, b, c, d]) (number 8 [x, y, 0, 0], 16) \<longleftrightarrow> a = x \<and> b = y"
    using second [of 8] assms by simp
  show "x < 256 \<Longrightarrow> y < 256 \<Longrightarrow> z < 256 \<Longrightarrow> in_block 32 (number 8 [a, b, c, d]) (number 8 [x, y, z, 0], 24) \<longleftrightarrow> a = x \<and> b = y \<and> c = z"
    using third [of 8] assms by simp
qed

lemma v4_allowed_reference: "v4_allowed a b c d allow_private = v4_reference (address_number (V4 a b c d)) allow_private"
proof -
  define p q r s where nats: "p = unat a" "q = unat b" "r = unat c" "s = unat d"
  have bounds: "p < 256" "q < 256" "r < 256" "s < 256" by (simp_all add: nats octet_bound)
  have number: "address_number (V4 a b c d) = number 8 [p, q, r, s]" by (simp add: nats)
  have cut1: "p div 16 = 14 \<longleftrightarrow> 224 \<le> p \<and> p \<le> 239" using div_cut [of 16 p 14] by auto
  have cut2: "p div 16 = 15 \<longleftrightarrow> 240 \<le> p" using bounds(1) div_cut [of 16 p 15] by auto
  have cut3: "q div 64 = Suc 0 \<longleftrightarrow> 64 \<le> q \<and> q \<le> 127" using div_cut [of 64 q 1] by auto
  have cut4: "q div 16 = Suc 0 \<longleftrightarrow> 16 \<le> q \<and> q \<le> 31" using div_cut [of 16 q 1] by auto
  have cut5: "q div 2 = 9 \<longleftrightarrow> q = 18 \<or> q = 19" using div_cut [of 2 q 9] by auto
  let ?n = "number 8 [p, q, r, s]"
  have local: "list_ex (in_block 32 ?n) v4_local \<longleftrightarrow> p = 10 \<or> p = 127 \<or> (p = 172 \<and> 16 \<le> q \<and> q \<le> 31) \<or> (p = 192 \<and> q = 168)"
    unfolding v4_local_def by (simp add: v4_in_block bounds cut4)
  have special: "list_ex (in_block 32 ?n) v4_special \<longleftrightarrow>
      p = 0 \<or> (p = 100 \<and> 64 \<le> q \<and> q \<le> 127) \<or> (p = 169 \<and> q = 254) \<or> (p = 192 \<and> q = 0 \<and> r = 0) \<or>
      (p = 192 \<and> q = 0 \<and> r = 2) \<or> (p = 192 \<and> q = 88 \<and> r = 99) \<or> (p = 198 \<and> (q = 18 \<or> q = 19)) \<or>
      (p = 198 \<and> q = 51 \<and> r = 100) \<or> (p = 203 \<and> q = 0 \<and> r = 113) \<or> (224 \<le> p \<and> p \<le> 239) \<or> 240 \<le> p"
    unfolding v4_special_def by (simp add: v4_in_block bounds cut1 cut2 cut3 cut5)
  have "v4_allowed a b c d allow_private =
      (if (p = 0 \<and> q = 0 \<and> r = 0 \<and> s = 0) \<or> (224 \<le> p \<and> p \<le> 239) \<or> (p = 255 \<and> q = 255 \<and> r = 255 \<and> s = 255) \<or>
         (p = 169 \<and> q = 254) \<or> (p = 192 \<and> q = 0 \<and> r = 2 \<or> p = 198 \<and> q = 51 \<and> r = 100 \<or> p = 203 \<and> q = 0 \<and> r = 113) \<or> p = 0 \<or> 240 \<le> p \<or>
         (p = 100 \<and> 64 \<le> q \<and> q \<le> 127) \<or> (p = 198 \<and> (q = 18 \<or> q = 19)) \<or> (p = 192 \<and> q = 0 \<and> r = 0) \<or> (p = 192 \<and> q = 88 \<and> r = 99)
       then False else if (p = 10 \<or> p = 172 \<and> 16 \<le> q \<and> q \<le> 31 \<or> p = 192 \<and> q = 168) \<or> p = 127 then allow_private else True)"
    unfolding v4_allowed_def v4_is_private_def v4_is_documentation_def Let_def nats
    by (simp only: word_unat_eq_iff word_le_nat_alt) (simp, linarith)
  also have "\<dots> = v4_reference (address_number (V4 a b c d)) allow_private"
    unfolding v4_reference_def number local special by auto
  finally show ?thesis .
qed

lemma v6_in_block:
  fixes s0 s1 s2 s3 s4 s5 s6 s7 x y z :: nat
  assumes "s0 < 65536" "s1 < 65536" "s2 < 65536" "s3 < 65536" "s4 < 65536" "s5 < 65536" "s6 < 65536" "s7 < 65536"
  defines "n \<equiv> number 16 [s0, s1, s2, s3, s4, s5, s6, s7]"
  shows "x < 65536 \<Longrightarrow> in_block 128 n (number 16 [x, 0, 0, 0, 0, 0, 0, 0], 3) \<longleftrightarrow> s0 div 8192 = x div 8192"
    and "x < 65536 \<Longrightarrow> in_block 128 n (number 16 [x, 0, 0, 0, 0, 0, 0, 0], 7) \<longleftrightarrow> s0 div 512 = x div 512"
    and "x < 65536 \<Longrightarrow> in_block 128 n (number 16 [x, 0, 0, 0, 0, 0, 0, 0], 16) \<longleftrightarrow> s0 = x"
    and "x < 65536 \<Longrightarrow> in_block 128 n (number 16 [x, 0, 0, 0, 0, 0, 0, 0], 20) \<longleftrightarrow> s0 = x \<and> s1 div 4096 = 0"
    and "x < 65536 \<Longrightarrow> y < 65536 \<Longrightarrow> in_block 128 n (number 16 [x, y, 0, 0, 0, 0, 0, 0], 28) \<longleftrightarrow> s0 = x \<and> s1 div 16 = y div 16"
    and "x < 65536 \<Longrightarrow> y < 65536 \<Longrightarrow> in_block 128 n (number 16 [x, y, 0, 0, 0, 0, 0, 0], 32) \<longleftrightarrow> s0 = x \<and> s1 = y"
    and "x < 65536 \<Longrightarrow> y < 65536 \<Longrightarrow> in_block 128 n (number 16 [x, y, 0, 0, 0, 0, 0, 0], 48) \<longleftrightarrow> s0 = x \<and> s1 = y \<and> s2 = 0"
    and "x < 65536 \<Longrightarrow> y < 65536 \<Longrightarrow> z < 65536 \<Longrightarrow> in_block 128 n (number 16 [x, y, 0, 0, 0, z, 0, 0], 96) \<longleftrightarrow> [s0, s1, s2, s3, s4, s5] = [x, y, 0, 0, 0, z]"
    and "z < 65536 \<Longrightarrow> in_block 128 n (number 16 [0, 0, 0, 0, 0, 0, 0, z], 128) \<longleftrightarrow> [s0, s1, s2, s3, s4, s5, s6, s7] = [0, 0, 0, 0, 0, 0, 0, z]"
proof -
  note first = in_block_parts [of 16 "[]" s0 "[s1, s2, s3, s4, s5, s6, s7]" "[]" x "[0, 0, 0, 0, 0, 0, 0]"]
  note second = in_block_parts [of 16 "[s0]" s1 "[s2, s3, s4, s5, s6, s7]" "[x]" y "[0, 0, 0, 0, 0, 0]"]
  note third = in_block_parts [of 16 "[s0, s1]" s2 "[s3, s4, s5, s6, s7]" "[x, y]" 0 "[0, 0, 0, 0, 0]"]
  show "x < 65536 \<Longrightarrow> in_block 128 n (number 16 [x, 0, 0, 0, 0, 0, 0, 0], 3) \<longleftrightarrow> s0 div 8192 = x div 8192"
    unfolding n_def using first [of 3] assms by simp
  show "x < 65536 \<Longrightarrow> in_block 128 n (number 16 [x, 0, 0, 0, 0, 0, 0, 0], 7) \<longleftrightarrow> s0 div 512 = x div 512"
    unfolding n_def using first [of 7] assms by simp
  show "x < 65536 \<Longrightarrow> in_block 128 n (number 16 [x, 0, 0, 0, 0, 0, 0, 0], 16) \<longleftrightarrow> s0 = x"
    unfolding n_def using first [of 16] assms by simp
  show "x < 65536 \<Longrightarrow> in_block 128 n (number 16 [x, 0, 0, 0, 0, 0, 0, 0], 20) \<longleftrightarrow> s0 = x \<and> s1 div 4096 = 0"
    unfolding n_def using in_block_parts [of 16 "[s0]" s1 "[s2, s3, s4, s5, s6, s7]" "[x]" 0 "[0, 0, 0, 0, 0, 0]" 4] assms by simp
  show "x < 65536 \<Longrightarrow> y < 65536 \<Longrightarrow> in_block 128 n (number 16 [x, y, 0, 0, 0, 0, 0, 0], 28) \<longleftrightarrow> s0 = x \<and> s1 div 16 = y div 16"
    unfolding n_def using second [of 12] assms by simp
  show "x < 65536 \<Longrightarrow> y < 65536 \<Longrightarrow> in_block 128 n (number 16 [x, y, 0, 0, 0, 0, 0, 0], 32) \<longleftrightarrow> s0 = x \<and> s1 = y"
    unfolding n_def using second [of 16] assms by simp
  show "x < 65536 \<Longrightarrow> y < 65536 \<Longrightarrow> in_block 128 n (number 16 [x, y, 0, 0, 0, 0, 0, 0], 48) \<longleftrightarrow> s0 = x \<and> s1 = y \<and> s2 = 0"
    unfolding n_def using third [of 16] assms by simp
  show "x < 65536 \<Longrightarrow> y < 65536 \<Longrightarrow> z < 65536 \<Longrightarrow> in_block 128 n (number 16 [x, y, 0, 0, 0, z, 0, 0], 96) \<longleftrightarrow> [s0, s1, s2, s3, s4, s5] = [x, y, 0, 0, 0, z]"
    unfolding n_def
    using in_block_parts [of 16 "[s0, s1, s2, s3, s4]" s5 "[s6, s7]" "[x, y, 0, 0, 0]" z "[0, 0]" 16] assms by simp
  show "z < 65536 \<Longrightarrow> in_block 128 n (number 16 [0, 0, 0, 0, 0, 0, 0, z], 128) \<longleftrightarrow> [s0, s1, s2, s3, s4, s5, s6, s7] = [0, 0, 0, 0, 0, 0, 0, z]"
    unfolding n_def
    using in_block_parts [of 16 "[s0, s1, s2, s3, s4, s5, s6]" s7 "[]" "[0, 0, 0, 0, 0, 0, 0]" z "[]" 16] assms by simp
qed

text \<open>The last two segments of an embedding address are the octets of the embedded one.\<close>

lemma embedded_number:
  fixes s6 s7 :: "16 word"
  shows "number 8 (map unat [ucast (drop_bit 8 s6) :: 8 word, ucast s6, ucast (drop_bit 8 s7), ucast s7]) =
    number 16 (map unat [s6, s7])"
proof -
  have split: "unat (ucast (drop_bit 8 s) :: 8 word) * 256 + unat (ucast s :: 8 word) = unat s" for s :: "16 word"
  proof -
    have "unat (ucast (drop_bit 8 s) :: 8 word) = unat s div 256"
      using segment_bound [of s] by (simp add: unsigned_ucast_eq drop_bit_eq_div unat_div take_bit_eq_mod)
    moreover have "unat (ucast s :: 8 word) = unat s mod 256" by (simp add: unsigned_ucast_eq take_bit_eq_mod)
    ultimately show ?thesis by simp
  qed
  have "number 8 [a, b, c, d] = (a * 256 + b) * 65536 + (c * 256 + d)" for a b c d by (simp add: number_def)
  then show ?thesis by (simp add: split number_def)
qed

definition address_reference :: "ip_addr \<Rightarrow> bool \<Rightarrow> bool" where
  "address_reference a allow_private =
     (case a of V4 _ _ _ _ \<Rightarrow> v4_reference (address_number a) allow_private
      | V6 _ _ _ _ _ _ _ _ \<Rightarrow> v6_reference (address_number a) allow_private)"

lemma v6_allowed_reference:
  "provider_address_allowed (V6 s0 s1 s2 s3 s4 s5 s6 s7) allow_private =
   v6_reference (address_number (V6 s0 s1 s2 s3 s4 s5 s6 s7)) allow_private"
proof -
  define p0 p1 p2 p3 p4 p5 p6 p7 where parts: "p0 = unat s0" "p1 = unat s1" "p2 = unat s2" "p3 = unat s3"
    "p4 = unat s4" "p5 = unat s5" "p6 = unat s6" "p7 = unat s7"
  have bounds: "p0 < 65536" "p1 < 65536" "p2 < 65536" "p3 < 65536" "p4 < 65536" "p5 < 65536" "p6 < 65536" "p7 < 65536"
    by (simp_all add: parts segment_bound)
  let ?n = "number 16 [p0, p1, p2, p3, p4, p5, p6, p7]"
  note block = v6_in_block [OF bounds]
  have number: "address_number (V6 s0 s1 s2 s3 s4 s5 s6 s7) = ?n" by (simp add: parts)
  have mapped: "in_block 128 ?n (number 16 [0, 0, 0, 0, 0, 0xffff, 0, 0], 96) \<longleftrightarrow> [s0, s1, s2, s3, s4, s5] = [0, 0, 0, 0, 0, 0xffff]"
    using block(8) [of 0 0 "0xffff"] by (simp add: parts word_unat_eq_iff)
  have nat64: "in_block 128 ?n (number 16 [0x64, 0xff9b, 0, 0, 0, 0, 0, 0], 96) \<longleftrightarrow>
      [s0, s1, s2, s3, s4, s5] = [0x0064, 0xff9b, 0, 0, 0, 0]"
    using block(8) [of "0x64" "0xff9b" 0] by (simp add: parts word_unat_eq_iff)
  have low: "?n mod 2 ^ 32 = number 16 [p6, p7]"
    using number_append [of 16 "[p0, p1, p2, p3, p4, p5]" "[p6, p7]"] number_bound [of 16 "[p6, p7]"] bounds by simp
  have embedded: "v4_reference (?n mod 2 ^ 32) allow_private =
      v4_allowed (ucast (drop_bit 8 s6)) (ucast s6) (ucast (drop_bit 8 s7)) (ucast s7) allow_private"
    unfolding v4_allowed_reference low address_number.simps embedded_number by (simp add: parts)
  let ?loopback = "[s0, s1, s2, s3, s4, s5] = [0, 0, 0, 0, 0, 0] \<and> s6 = 0 \<and> s7 = 1"
  have local: "list_ex (in_block 128 ?n) v6_local \<longleftrightarrow> p0 div 512 = 126 \<or> ?loopback"
    unfolding v6_local_def using block(2) [of "0xfc00"] block(9) [of 1] by (simp add: parts word_unat_eq_iff)
  let ?special = "(s0 = 0x2001 \<and> s1 = 0) \<or> (s0 = 0x2001 \<and> s1 = 2 \<and> s2 = 0) \<or> (s0 = 0x2001 \<and> p1 div 16 = 1) \<or>
      (s0 = 0x2001 \<and> p1 div 16 = 2) \<or> (s0 = 0x2001 \<and> s1 = 0xdb8) \<or> s0 = 0x2002 \<or> (s0 = 0x3fff \<and> p1 div 4096 = 0)"
  have special: "list_ex (in_block 128 ?n) v6_special \<longleftrightarrow> ?special"
    unfolding v6_special_def by (simp add: block) (simp add: parts word_unat_eq_iff)
  have global: "in_block 128 ?n (number 16 [0x2000, 0, 0, 0, 0, 0, 0, 0], 3) \<longleftrightarrow> p0 div 8192 = 1"
    using block(1) [of "0x2000"] by simp
  let ?masked = "p0 div 256 = 255 \<or> p0 div 64 = 1018 \<or> p0 div 64 = 1019 \<or> p0 = 0x0064 \<or> p0 = 0x0100 \<or> p0 = 0x5f00 \<or> p0 = 0"
  have c1: "p0 div 8192 = 1 \<longleftrightarrow> 8192 \<le> p0 \<and> p0 < 16384" using div_cut [of 8192 p0 1] by auto
  have c2: "p0 div 512 = 126 \<longleftrightarrow> 64512 \<le> p0 \<and> p0 < 65024" using div_cut [of 512 p0 126] by auto
  have c3: "p0 div 256 = 255 \<longleftrightarrow> 65280 \<le> p0 \<and> p0 < 65536" using div_cut [of 256 p0 255] by auto
  have c4: "p0 div 64 = 1018 \<longleftrightarrow> 65152 \<le> p0 \<and> p0 < 65216" using div_cut [of 64 p0 1018] by auto
  have c5: "p0 div 64 = 1019 \<longleftrightarrow> 65216 \<le> p0 \<and> p0 < 65280" using div_cut [of 64 p0 1019] by auto
  have outside: "p0 div 8192 \<noteq> 1 \<and> p0 div 512 \<noteq> 126" if ?masked
    using that unfolding c1 c2 c3 c4 c5 by (elim disjE) simp_all
  have apart: "p0 div 512 \<noteq> 126" if "p0 div 8192 = 1"
    using that unfolding c1 c2 by simp
  let ?zero = "[s0, s1, s2, s3, s4, s5] = [0, 0, 0, 0, 0, 0]"
  let ?unspecified = "?zero \<and> s6 = 0 \<and> s7 = 0"
  let ?bad = "?unspecified \<or> p0 div 256 = 255 \<or> p0 div 64 = 1018 \<or> (?zero \<and> \<not> ?unspecified \<and> \<not> ?loopback) \<or>
      (s0 = 0x0064 \<and> s1 = 0xff9b \<and> s2 = 0x0001) \<or> [s0, s1, s2, s3] = [0x0100, 0, 0, 0] \<or> [s0, s1, s2, s3] = [0x0100, 0, 0, 0x0001] \<or>
      (s0 = 0x2001 \<and> s1 = 0) \<or> [s0, s1, s2] = [0x2001, 0x0002, 0] \<or> (s0 = 0x2001 \<and> (p1 div 16 = 1 \<or> p1 div 16 = 2)) \<or>
      ((s0 = 0x2001 \<and> s1 = 0x0db8) \<or> (s0 = 0x3fff \<and> p1 div 4096 = 0)) \<or> s0 = 0x2002 \<or> s0 = 0x5f00 \<or> p0 div 64 = 1019"
  have bad: "?bad \<Longrightarrow> ?masked \<or> ?special" by (elim disjE) (auto simp: parts)
  have special_bad: "?special \<Longrightarrow> ?bad" by (elim disjE) simp_all
  have special_range: "?special \<Longrightarrow> p0 div 512 \<noteq> 126" by (elim disjE) (simp_all add: parts)
  have not_loopback: "?bad \<Longrightarrow> \<not> ?loopback"
    by (elim disjE) (auto simp: parts)
  have "provider_address_allowed (V6 s0 s1 s2 s3 s4 s5 s6 s7) allow_private =
      (if [s0, s1, s2, s3, s4, s5] = [0, 0, 0, 0, 0, 0xffff]
       then v4_allowed (ucast (drop_bit 8 s6)) (ucast s6) (ucast (drop_bit 8 s7)) (ucast s7) allow_private
       else if [s0, s1, s2, s3, s4, s5] = [0x0064, 0xff9b, 0, 0, 0, 0]
       then v4_allowed (ucast (drop_bit 8 s6)) (ucast s6) (ucast (drop_bit 8 s7)) (ucast s7) allow_private
       else if ?bad then False else if p0 div 512 = 126 \<or> ?loopback then allow_private else p0 div 8192 = 1)"
    unfolding provider_address_allowed.simps Let_def segment_masks parts by (rule refl)
  moreover have "(if ?bad then False else if p0 div 512 = 126 \<or> ?loopback then allow_private else p0 div 8192 = 1) =
      (if p0 div 512 = 126 \<or> ?loopback then allow_private else p0 div 8192 = 1 \<and> \<not> ?special)"
  proof (cases ?bad)
    case True
    have "p0 div 512 \<noteq> 126" using bad [OF True] outside special_range by blast
    moreover have "\<not> (p0 div 8192 = 1 \<and> \<not> ?special)" using bad [OF True] outside by blast
    ultimately show ?thesis using True not_loopback [OF True] by (simp only: if_True if_False simp_thms)
  next
    case False
    have "\<not> ?special" using special_bad False by blast
    with False show ?thesis by (simp only: if_False simp_thms)
  qed
  ultimately show ?thesis
    unfolding v6_reference_def number mapped nat64 embedded local special global
    by (cases "[s0, s1, s2, s3, s4, s5] = [0, 0, 0, 0, 0, 0xffff]"; cases "[s0, s1, s2, s3, s4, s5] = [0x0064, 0xff9b, 0, 0, 0, 0]")
      (simp_all only: if_True if_False simp_thms)
qed

text \<open>
  C15. The addresses a provider may have are exactly those of the table: an address of a special block is
  refused, a local one is accepted only where private providers are allowed, an IPv6 address must be global
  unicast, and an IPv4 address embedded in an IPv6 one is treated as itself.
\<close>

theorem provider_address_allowed_is_the_table:
  "provider_address_allowed a allow_private = address_reference a allow_private"
proof (cases a)
  case (V4 o1 o2 o3 o4)
  then show ?thesis by (simp add: address_reference_def v4_allowed_reference del: address_number.simps)
next
  case (V6 s0 s1 s2 s3 s4 s5 s6 s7)
  then show ?thesis
    unfolding address_reference_def by (simp only: v6_allowed_reference ip_addr.case)
qed

end
