(* ===== verification/Xtream_Catalog.thy ===== *)
theory Xtream_Catalog
  imports Json Entity_Ids
begin

text \<open>
  Names, references and selections of the Xtream provider (\<open>crates/jellyrin-xtream-provider/src/lib.rs\<close>,
  61--67, 228--444, 1418--1564, 1619--1714, 1806--1895 and 2320--2405): what a provider may put into a catalogue
  identifier, a file name and a URL; the durable reference to a source, which holds no credentials, and its
  resolution with the credentials of the tuner it belongs to. The \<open>url\<close> crate is a parameter.
\<close>

section \<open>Bounds\<close>

text \<open>The value of the environment variable is an argument.\<close>

definition bounded_concurrency_from_env :: "string option \<Rightarrow> nat \<Rightarrow> nat \<Rightarrow> nat" where
  "bounded_concurrency_from_env v default_value maximum =
     unwrap_or default_value
       (map_option (\<lambda>n. max 1 (min n maximum)) (Option.bind v (\<lambda>s. parse_usize (trim s))))"

definition bounded_usize :: "nat \<Rightarrow> nat \<Rightarrow> nat \<Rightarrow> nat" where
  "bounded_usize v minimum maximum = max minimum (min v maximum)"

definition positive_bounded_usize :: "nat \<Rightarrow> nat \<Rightarrow> nat option" where
  "positive_bounded_usize v maximum = (if 0 < v then Some (bounded_usize v 1 maximum) else None)"

definition valid_xtream_secret :: "string \<Rightarrow> bool" where
  "valid_xtream_secret s \<longleftrightarrow> s \<noteq> [] \<and> length s \<le> 4 * 1024 \<and> \<not> has_control s"

definition valid_xtream_identifier :: "string \<Rightarrow> bool" where
  "valid_xtream_identifier s \<longleftrightarrow> s \<noteq> [] \<and> length s \<le> 512 \<and> \<not> has_control s"

section \<open>Names\<close>

definition xtream_extensions :: "string list" where
  "xtream_extensions = [''ts'', ''m2ts'', ''mts'', ''mp4'', ''m4v'', ''mov'', ''mkv'', ''webm'', ''avi'', ''asf'', ''wmv'',
     ''flv'', ''mpg'', ''mpeg'', ''mp3'', ''flac'', ''aac'', ''ogg'', ''oga'', ''wav'']"

definition sanitized_xtream_extension :: "string \<Rightarrow> string option" where
  "sanitized_xtream_extension v =
     (let extension = unwrap_or (trim v) (strip_prefix ''.'' (trim v))
      in if extension = [] \<or> 32 < length extension \<or> \<not> list_all is_alnum extension then None
         else let extension = to_ascii_lowercase extension
              in if extension \<in> set xtream_extensions then Some extension else None)"

definition xtream_extension :: "json \<Rightarrow> string \<Rightarrow> string \<Rightarrow> string option" where
  "xtream_extension v key default_value =
     (case json_string_field v key of
        Some s \<Rightarrow> sanitized_xtream_extension s | None \<Rightarrow> sanitized_xtream_extension default_value)"

definition unsafe_name_chars :: string where
  "unsafe_name_chars = [CHR 0x2F, CHR 0x5C, CHR 0x3A, CHR 0x2A, CHR 0x3F, CHR 0x22, CHR 0x3C, CHR 0x3E, CHR 0x7C]"

text \<open>The characters a name must not have, and the controls, become blanks.\<close>

fun blank_unsafe :: "string \<Rightarrow> string" where
  "blank_unsafe [] = []"
| "blank_unsafe (c # cs) =
     (if c \<in> set unsafe_name_chars \<or> byte c < 32 \<or> byte c = 127 then CHR '' '' # blank_unsafe cs
      else case cs of
          d # ds \<Rightarrow> if byte c = 194 \<and> 128 \<le> byte d \<and> byte d < 160 then CHR '' '' # blank_unsafe ds else c # blank_unsafe cs
        | [] \<Rightarrow> [c])"

definition xtream_path_segment :: "string \<Rightarrow> string" where
  "xtream_path_segment v =
     (let cleaned = join_with '' '' (split_whitespace (blank_unsafe v)) in if cleaned = [] then ''Untitled'' else cleaned)"

definition primary_tuner :: "string \<Rightarrow> bool" where
  "primary_tuner tuner_id = eq_ignore_case tuner_id ''xtream-plugin''"

definition xtream_scoped_catalog_key :: "string \<Rightarrow> string \<Rightarrow> string" where
  "xtream_scoped_catalog_key tuner_id legacy_key =
     (if primary_tuner tuner_id then legacy_key else tuner_id @ '':'' @ legacy_key)"

definition xtream_live_channel_id :: "string \<Rightarrow> string \<Rightarrow> string" where
  "xtream_live_channel_id tuner_id remote_id =
     (if primary_tuner tuner_id then ''xtream_'' @ remote_id
      else ''xtream_'' @ stable_entity_id ''xtream-live-channel'' (tuner_id @ '':'' @ remote_id))"

definition xtream_virtual_library_root :: "string \<Rightarrow> string \<Rightarrow> string" where
  "xtream_virtual_library_root tuner_id collection =
     (if primary_tuner tuner_id then ''xtream://'' @ collection
      else ''xtream://'' @ xtream_path_segment tuner_id @ ''/'' @ collection)"

definition category_db_id :: "string \<Rightarrow> string \<Rightarrow> string" where
  "category_db_id tuner_id remote_id = live_tv_stable_id ''livetv-category'' (tuner_id @ ''-'' @ remote_id)"

definition normalize_stream_id :: "string \<Rightarrow> string" where
  "normalize_stream_id v = unwrap_or (trim v) (strip_prefix ''xtream_'' (trim v))"

section \<open>URLs\<close>

text \<open>
  What the code uses of \<open>url::Url\<close>: \<open>uo_root\<close> is \<open>set_path("/")\<close> with query and fragment removed, \<open>uo_push\<close> the path of
  the given segments (\<open>path_segments_mut\<close> fails for a URL that cannot be a base).
\<close>

record 'u url_ops =
  uo_parse :: "string \<Rightarrow> 'u option"
  uo_text :: "'u \<Rightarrow> string"
  uo_scheme :: "'u \<Rightarrow> string"
  uo_host :: "'u \<Rightarrow> string option"
  uo_username :: "'u \<Rightarrow> string"
  uo_password :: "'u \<Rightarrow> string option"
  uo_query :: "'u \<Rightarrow> string option"
  uo_fragment :: "'u \<Rightarrow> string option"
  uo_root :: "'u \<Rightarrow> 'u"
  uo_push :: "'u \<Rightarrow> string list \<Rightarrow> 'u option"

definition http_scheme :: "'u url_ops \<Rightarrow> 'u \<Rightarrow> bool" where
  "http_scheme ops u \<longleftrightarrow> uo_scheme ops u = ''http'' \<or> uo_scheme ops u = ''https''"

definition validated_xtream_base_url :: "'u url_ops \<Rightarrow> string \<Rightarrow> 'u option" where
  "validated_xtream_base_url ops base_url =
     (if base_url = [] \<or> 16 * 1024 < length base_url \<or> has_control base_url then None
      else Option.bind (uo_parse ops base_url) (\<lambda>u.
        if \<not> http_scheme ops u \<or> uo_host ops u = None \<or> uo_username ops u \<noteq> [] \<or> uo_password ops u \<noteq> None \<or>
           uo_fragment ops u \<noteq> None
        then None else Some (uo_root ops u)))"

definition safe_xtream_image_url :: "'u url_ops \<Rightarrow> string \<Rightarrow> string option" where
  "safe_xtream_image_url ops v =
     (if v = [] \<or> 16 * 1024 < length v \<or> has_control v then None
      else Option.bind (uo_parse ops v) (\<lambda>u.
        if \<not> http_scheme ops u \<or> uo_host ops u = None \<or> uo_username ops u \<noteq> [] \<or> uo_password ops u \<noteq> None \<or>
           uo_query ops u \<noteq> None \<or> uo_fragment ops u \<noteq> None
        then None else Some (uo_text ops u)))"

definition stream_url :: "'u url_ops \<Rightarrow> 'u \<Rightarrow> string \<Rightarrow> string \<Rightarrow> string \<Rightarrow> string option" where
  "stream_url ops base username password stream_id =
     map_option (uo_text ops) (uo_push ops base [''live'', username, password, stream_id @ ''.ts''])"

definition movie_url :: "'u url_ops \<Rightarrow> 'u \<Rightarrow> string \<Rightarrow> string \<Rightarrow> string \<Rightarrow> string \<Rightarrow> string option" where
  "movie_url ops base username password stream_id extension =
     map_option (uo_text ops) (uo_push ops base [''movie'', username, password, stream_id @ ''.'' @ extension])"

definition series_url :: "'u url_ops \<Rightarrow> 'u \<Rightarrow> string \<Rightarrow> string \<Rightarrow> string \<Rightarrow> string \<Rightarrow> string option" where
  "series_url ops base username password episode_id extension =
     map_option (uo_text ops) (uo_push ops base [''series'', username, password, episode_id @ ''.'' @ extension])"

text \<open>Two parsed URLs are compared by their text, which is how \<open>Url\<close> compares.\<close>

definition direct_source_matches_reconstructed :: "'u url_ops \<Rightarrow> json \<Rightarrow> string option \<Rightarrow> bool" where
  "direct_source_matches_reconstructed ops v reconstructed =
     (case json_field_case_insensitive v ''direct_source'' of
        None \<Rightarrow> True
      | Some JNull \<Rightarrow> True
      | Some (JStr s) \<Rightarrow>
          trim s = [] \<or>
          (case reconstructed of
             None \<Rightarrow> False
           | Some r \<Rightarrow>
               (case uo_parse ops (trim s) of
                  None \<Rightarrow> False
                | Some d \<Rightarrow> (case uo_parse ops r of Some u \<Rightarrow> uo_text ops d = uo_text ops u | None \<Rightarrow> False)))
      | Some _ \<Rightarrow> False)"

section \<open>The reference to a source\<close>

record source_ref =
  sr_version :: nat
  sr_provider :: string
  sr_tuner_id :: string
  sr_kind :: string
  sr_remote_id :: string
  sr_extension :: string

definition source_kinds :: "string list" where
  "source_kinds = [''live'', ''vod'', ''series-episode'']"

definition source_ref_new :: "string \<Rightarrow> string \<Rightarrow> string \<Rightarrow> string \<Rightarrow> source_ref option" where
  "source_ref_new tuner_id kind remote_id extension =
     (if trim tuner_id = [] \<or> 512 < length tuner_id \<or> has_control tuner_id \<or> \<not> valid_xtream_identifier remote_id then None
      else Option.bind (sanitized_xtream_extension extension) (\<lambda>extension.
        if kind \<in> set source_kinds
        then Some \<lparr> sr_version = 1, sr_provider = ''xtream'', sr_tuner_id = trim tuner_id, sr_kind = kind,
               sr_remote_id = remote_id, sr_extension = extension \<rparr>
        else None))"

text \<open>The derived serialisation: an object with Pascal-case names. It reads back from an object or, by position, an array.\<close>

definition source_ref_json :: "source_ref \<Rightarrow> json" where
  "source_ref_json r = json_obj
     [(''Version'', json_nat (sr_version r)), (''Provider'', JStr (sr_provider r)), (''TunerId'', JStr (sr_tuner_id r)),
      (''Kind'', JStr (sr_kind r)), (''RemoteId'', JStr (sr_remote_id r)), (''Extension'', JStr (sr_extension r))]"

definition u8_of_json :: "json \<Rightarrow> nat option" where
  "u8_of_json j = (case j of JNum (PosInt n) \<Rightarrow> if n \<le> 255 then Some n else None | _ \<Rightarrow> None)"

definition source_ref_of_fields :: "json option list \<Rightarrow> source_ref option" where
  "source_ref_of_fields parts =
     (if length parts \<noteq> 6 then None
      else
        Option.bind (Option.bind (parts ! 0) u8_of_json) (\<lambda>version.
        Option.bind (Option.bind (parts ! 1) as_str) (\<lambda>provider.
        Option.bind (Option.bind (parts ! 2) as_str) (\<lambda>tuner_id.
        Option.bind (Option.bind (parts ! 3) as_str) (\<lambda>kind.
        Option.bind (Option.bind (parts ! 4) as_str) (\<lambda>remote_id.
        Option.bind (Option.bind (parts ! 5) as_str) (\<lambda>extension.
          Some \<lparr> sr_version = version, sr_provider = provider, sr_tuner_id = tuner_id, sr_kind = kind,
            sr_remote_id = remote_id, sr_extension = extension \<rparr>)))))))"

definition source_ref_of_json :: "json \<Rightarrow> source_ref option" where
  "source_ref_of_json j =
     (case j of
        JObj m \<Rightarrow> source_ref_of_fields
          (map (map_of m) [''Version'', ''Provider'', ''TunerId'', ''Kind'', ''RemoteId'', ''Extension''])
      | JArr vs \<Rightarrow> source_ref_of_fields (map Some vs)
      | _ \<Rightarrow> None)"

definition xtream_remote_source_ref :: "json \<Rightarrow> source_ref option" where
  "xtream_remote_source_ref v =
     Option.bind (source_ref_of_json v) (\<lambda>r.
       if sr_version r \<noteq> 1 \<or> \<not> eq_ignore_case (sr_provider r) ''xtream'' then None
       else source_ref_new (sr_tuner_id r) (sr_kind r) (sr_remote_id r) (sr_extension r))"

definition resolve_remote_source_ref :: "'u url_ops \<Rightarrow> json \<Rightarrow> json \<Rightarrow> string option" where
  "resolve_remote_source_ref ops tuner_config v =
     Option.bind (xtream_remote_source_ref v) (\<lambda>r.
     Option.bind (json_string_field tuner_config ''Id'') (\<lambda>configured.
     if \<not> eq_ignore_case configured (sr_tuner_id r) then None
     else
     Option.bind (Option.bind (json_string_field tuner_config ''Url'') (validated_xtream_base_url ops)) (\<lambda>base.
     Option.bind (opt_or (json_string_field tuner_config ''Username'') (json_string_field tuner_config ''UserName'')) (\<lambda>username.
     Option.bind (json_string_field tuner_config ''Password'') (\<lambda>password.
     if \<not> valid_xtream_secret username \<or> \<not> valid_xtream_secret password then None
     else if sr_kind r = ''live'' then stream_url ops base username password (sr_remote_id r)
     else if sr_kind r = ''vod'' then movie_url ops base username password (sr_remote_id r) (sr_extension r)
     else if sr_kind r = ''series-episode'' then series_url ops base username password (sr_remote_id r) (sr_extension r)
     else None)))))"

text \<open>The text form of a live reference; \<open>encode\<close> and \<open>decode\<close> are the JSON text in URL-safe base64.\<close>

definition encoded_live_provider_reference :: "(json \<Rightarrow> string) \<Rightarrow> source_ref \<Rightarrow> string" where
  "encoded_live_provider_reference encode r = ''xtream:v1:'' @ encode (source_ref_json r)"

definition resolve_live_provider_reference :: "'u url_ops \<Rightarrow> (string \<Rightarrow> json option) \<Rightarrow> json \<Rightarrow> string \<Rightarrow> string option" where
  "resolve_live_provider_reference ops decode tuner_config provider_reference =
     Option.bind (strip_prefix ''xtream:v1:'' (trim provider_reference)) (\<lambda>encoded.
     if encoded = [] \<or> 4 * 1024 < length encoded then None
     else Option.bind (decode encoded) (\<lambda>v.
          Option.bind (xtream_remote_source_ref v) (\<lambda>r.
          if sr_kind r = ''live'' then resolve_remote_source_ref ops tuner_config v else None)))"

section \<open>Selections\<close>

text \<open>The ids of the first key that yields any.\<close>

fun category_id_filter :: "json \<Rightarrow> string list \<Rightarrow> string set" where
  "category_id_filter payload [] = {}"
| "category_id_filter payload (key # keys) =
     (case json_string_list_field payload key of
        None \<Rightarrow> category_id_filter payload keys
      | Some values \<Rightarrow>
          (let ids = set (filter (\<lambda>v. v \<noteq> []) (map trim values))
           in if ids \<noteq> {} then ids else category_id_filter payload keys))"

record category_selection =
  sel_include :: "string set"
  sel_exclude :: "string set"

definition category_selection_from_payload :: "json \<Rightarrow> string list \<Rightarrow> string list \<Rightarrow> category_selection" where
  "category_selection_from_payload payload include_keys exclude_keys =
     \<lparr> sel_include = category_id_filter payload include_keys, sel_exclude = category_id_filter payload exclude_keys \<rparr>"

definition selection_allows :: "category_selection \<Rightarrow> string option \<Rightarrow> bool" where
  "selection_allows s category_id =
     (if sel_include s \<noteq> {} \<and> (case category_id of None \<Rightarrow> True | Some i \<Rightarrow> i \<notin> sel_include s) then False
      else case category_id of Some i \<Rightarrow> i \<notin> sel_exclude s | None \<Rightarrow> True)"

definition text_or_number_field :: "json \<Rightarrow> string \<Rightarrow> string option" where
  "text_or_number_field item key = opt_or (json_string_field item key) (map_option show_nat (live_tv_u64_field item key))"

definition item_category_id :: "json \<Rightarrow> string option" where
  "item_category_id item = text_or_number_field item ''category_id''"

record live_options =
  lo_include :: "string set"
  lo_exclude :: "string set"
  lo_limit :: "nat option"

definition live_options_from_payload :: "nat \<Rightarrow> json \<Rightarrow> live_options" where
  "live_options_from_payload max_import payload =
     \<lparr> lo_include = category_id_filter payload [''LiveCategoryIds'', ''CategoryIds'', ''IncludeCategoryIds'', ''Categories''],
       lo_exclude = category_id_filter payload [''ExcludeLiveCategoryIds'', ''ExcludeCategoryIds''],
       lo_limit = map_option (\<lambda>v. bounded_usize v 1 max_import)
         (opt_or (live_tv_u64_field payload ''Limit'') (live_tv_u64_field payload ''ChannelLimit'')) \<rparr>"

definition live_options_allows :: "live_options \<Rightarrow> json \<Rightarrow> bool" where
  "live_options_allows opts stream =
     (let category_id = item_category_id stream
      in if lo_include opts \<noteq> {} \<and> (case category_id of None \<Rightarrow> True | Some i \<Rightarrow> i \<notin> lo_include opts) then False
         else \<not> is_some_and (\<lambda>i. i \<in> lo_exclude opts) category_id)"

fun epg_ids_of :: "string list \<Rightarrow> string list \<Rightarrow> string list" where
  "epg_ids_of ids [] = ids"
| "epg_ids_of ids (v # vs) =
     (let i = normalize_stream_id v in epg_ids_of (if i \<noteq> [] \<and> i \<notin> set ids then ids @ [i] else ids) vs)"

definition epg_stream_ids :: "json \<Rightarrow> string list" where
  "epg_stream_ids payload =
     foldl (\<lambda>ids key. case json_string_list_field payload key of None \<Rightarrow> ids | Some vs \<Rightarrow> epg_ids_of ids vs)
       [] [''StreamIds'', ''XtreamStreamIds'', ''ChannelIds'', ''ProbeChannelIds'']"

section \<open>References read back\<close>

lemma has_control_append: "has_control a \<or> has_control b \<Longrightarrow> has_control (a @ b)"
proof (induction a)
  case (Cons c cs)
  then show ?case by (cases cs) auto
qed simp

lemma has_control_trim: "has_control (trim s) \<Longrightarrow> has_control s"
proof -
  assume c: "has_control (trim s)"
  obtain p where "s = p @ trim_start s" using trim_start_suffix by blast
  moreover obtain q where "trim_start s = trim_end (trim_start s) @ q" using trim_end_prefix by metis
  ultimately show ?thesis using c has_control_append unfolding trim_def by metis
qed

lemma extension_plain:
  assumes "e \<in> set xtream_extensions"
  shows "trim e = e \<and> e \<noteq> [] \<and> length e \<le> 32 \<and> list_all is_alnum e \<and> to_ascii_lowercase e = e \<and> strip_prefix ''.'' e = None"
  using assms unfolding xtream_extensions_def
  by (auto simp: trim_plain plain_char_def to_ascii_lowercase_def strip_prefix_def starts_with_def char_eval)

lemma sanitized_xtream_extension_fixed: "sanitized_xtream_extension v = Some e \<Longrightarrow> sanitized_xtream_extension e = Some e"
proof -
  assume "sanitized_xtream_extension v = Some e"
  then have "e \<in> set xtream_extensions" by (auto simp: sanitized_xtream_extension_def Let_def split: if_splits)
  with extension_plain [OF this] show ?thesis by (simp add: sanitized_xtream_extension_def)
qed

lemma source_ref_newD:
  assumes "source_ref_new tuner_id kind remote_id extension = Some r"
  shows "sr_version r = 1" "sr_provider r = ''xtream''" "sr_tuner_id r = trim tuner_id" "sr_kind r = kind" "sr_remote_id r = remote_id"
    "sanitized_xtream_extension extension = Some (sr_extension r)" "kind \<in> set source_kinds" "valid_xtream_identifier remote_id"
    "trim tuner_id \<noteq> []" "length (trim tuner_id) \<le> 512" "\<not> has_control (trim tuner_id)"
  using assms length_trim_le [of tuner_id] has_control_trim [of tuner_id]
  by (auto simp: source_ref_new_def bind_eq_Some_conv split: if_splits)

lemma source_ref_of_json_json: "sr_version r \<le> 255 \<Longrightarrow> source_ref_of_json (source_ref_json r) = Some r"
proof -
  assume "sr_version r \<le> 255"
  obtain m where m: "source_ref_json r = JObj m" using json_obj_ok unfolding source_ref_json_def by blast
  have "map_of m k = jget k (source_ref_json r)" for k by (simp add: m jget_def)
  then have "map_of m ''Version'' = Some (json_nat (sr_version r))" "map_of m ''Provider'' = Some (JStr (sr_provider r))"
      "map_of m ''TunerId'' = Some (JStr (sr_tuner_id r))" "map_of m ''Kind'' = Some (JStr (sr_kind r))"
      "map_of m ''RemoteId'' = Some (JStr (sr_remote_id r))" "map_of m ''Extension'' = Some (JStr (sr_extension r))"
    by (simp_all add: source_ref_json_def jget_json_obj)
  with \<open>sr_version r \<le> 255\<close> show ?thesis
    by (simp add: m source_ref_of_json_def source_ref_of_fields_def u8_of_json_def json_nat_def)
qed

lemma source_ref_read_back:
  assumes "source_ref_new tuner_id kind remote_id extension = Some r"
  shows "xtream_remote_source_ref (source_ref_json r) = Some r"
proof -
  note r = source_ref_newD [OF assms]
  have "source_ref_new (sr_tuner_id r) (sr_kind r) (sr_remote_id r) (sr_extension r) = Some r"
    using r sanitized_xtream_extension_fixed [OF r(6)] by (simp add: source_ref_new_def)
  then show ?thesis
    by (simp add: xtream_remote_source_ref_def source_ref_of_json_json r(1,2))
qed

text \<open>The hypothesis on the text form: it reads back, holds no blanks at its ends and is not too long for the field.\<close>

definition text_form_ok :: "(json \<Rightarrow> string) \<Rightarrow> (string \<Rightarrow> json option) \<Rightarrow> json \<Rightarrow> bool" where
  "text_form_ok encode decode j \<longleftrightarrow>
     decode (encode j) = Some j \<and> list_all plain_char (encode j) \<and> encode j \<noteq> [] \<and> length (encode j) \<le> 4 * 1024"

text \<open>An instance in which a URL is its text.\<close>

definition example_url_ops :: "string url_ops" where
  "example_url_ops =
     \<lparr> uo_parse = Some, uo_text = (\<lambda>u. u), uo_scheme = (\<lambda>_. ''http''), uo_host = (\<lambda>_. Some ''h''), uo_username = (\<lambda>_. []),
         uo_password = (\<lambda>_. None), uo_query = (\<lambda>_. None), uo_fragment = (\<lambda>_. None), uo_root = (\<lambda>u. u),
         uo_push = (\<lambda>u parts. Some (u @ concat (map (Cons (CHR ''/'')) parts))) \<rparr>"

text \<open>
  The reference stored for a live channel resolves: with the configuration of the tuner it was made for, and
  usable credentials, it gives the URL of that stream at that provider, and with the configuration of
  another tuner it gives nothing.
\<close>

theorem live_reference_resolves:
  assumes r: "source_ref_new tuner_id ''live'' stream_id ''ts'' = Some r"
    and form: "text_form_ok encode decode (source_ref_json r)"
    and config: "json_string_field config ''Id'' = Some configured" "json_string_field config ''Url'' = Some url"
      "validated_xtream_base_url ops url = Some base" "json_string_field config ''Username'' = Some username"
      "json_string_field config ''Password'' = Some password" "valid_xtream_secret username" "valid_xtream_secret password"
  shows "resolve_live_provider_reference ops decode config (encoded_live_provider_reference encode r) =
    (if eq_ignore_case configured (trim tuner_id) then stream_url ops base username password stream_id else None)"
proof -
  let ?e = "encode (source_ref_json r)"
  from form have e: "decode ?e = Some (source_ref_json r)" "list_all plain_char ?e" "?e \<noteq> []" "length ?e \<le> 4 * 1024"
    by (auto simp: text_form_ok_def)
  have "trim (''xtream:v1:'' @ ?e) = ''xtream:v1:'' @ ?e"
    by (rule trim_plain) (use e in \<open>auto simp: plain_char_def char_eval list_all_iff last_append\<close>)
  then have strip: "strip_prefix ''xtream:v1:'' (trim (encoded_live_provider_reference encode r)) = Some ?e"
    by (simp add: encoded_live_provider_reference_def strip_prefix_Some)
  have resolve: "resolve_remote_source_ref ops config (source_ref_json r) =
      (if eq_ignore_case configured (trim tuner_id) then stream_url ops base username password stream_id else None)"
    using config source_ref_newD [OF r] by (simp add: resolve_remote_source_ref_def source_ref_read_back [OF r])
  show ?thesis
    using e source_ref_newD(4) [OF r]
    by (simp add: resolve_live_provider_reference_def strip source_ref_read_back [OF r] resolve)
qed

lemma live_reference_resolves_witness:
  "let r = \<lparr> sr_version = 1, sr_provider = ''xtream'', sr_tuner_id = ''t'', sr_kind = ''live'', sr_remote_id = ''7'', sr_extension = ''ts'' \<rparr>;
       encode = (\<lambda>_. ''A''); decode = (\<lambda>_. Some (source_ref_json r))
   in resolve_live_provider_reference (example_url_ops) decode
        (json_obj [(''Id'', JStr ''T''), (''Url'', JStr ''http://h''), (''Username'', JStr ''u''), (''Password'', JStr ''p'')])
        (encoded_live_provider_reference encode r) = Some ''http://h/live/u/p/7.ts''"
proof -
  let ?r = "\<lparr> sr_version = 1, sr_provider = ''xtream'', sr_tuner_id = ''t'', sr_kind = ''live'', sr_remote_id = ''7'', sr_extension = ''ts'' \<rparr>"
  let ?config = "json_obj [(''Id'', JStr ''T''), (''Url'', JStr ''http://h''), (''Username'', JStr ''u''), (''Password'', JStr ''p'')]"
  have made: "source_ref_new ''t'' ''live'' ''7'' ''ts'' = Some ?r"
    by (simp add: source_ref_new_def trim_plain plain_char_def char_eval has_control.simps valid_xtream_identifier_def
      sanitized_xtream_extension_def strip_prefix_def starts_with_def xtream_extensions_def to_ascii_lowercase_def source_kinds_def)
  have form: "text_form_ok (\<lambda>_. ''A'') (\<lambda>_. Some (source_ref_json ?r)) (source_ref_json ?r)"
    by (simp add: text_form_ok_def plain_char_def char_eval)
  have config: "json_string_field ?config ''Id'' = Some ''T''" "json_string_field ?config ''Url'' = Some ''http://h''"
      "json_string_field ?config ''Username'' = Some ''u''" "json_string_field ?config ''Password'' = Some ''p''"
    by (simp_all add: json_string_field_def json_field_case_insensitive_def json_obj_def eq_ignore_case_def to_ascii_lowercase_def trim_plain
      plain_char_def char_eval)
  have base: "validated_xtream_base_url (example_url_ops) ''http://h'' = Some ''http://h''"
    by (simp add: validated_xtream_base_url_def example_url_ops_def http_scheme_def has_control.simps char_eval)
  have secrets: "valid_xtream_secret ''u''" "valid_xtream_secret ''p''"
    by (simp_all add: valid_xtream_secret_def has_control.simps char_eval)
  show ?thesis
    unfolding Let_def live_reference_resolves [OF made form config(1,2) base config(3,4) secrets]
    by (simp add: eq_ignore_case_def trim_plain plain_char_def char_eval to_ascii_lowercase_def stream_url_def example_url_ops_def)
qed

section \<open>Names add no path components\<close>

definition safe_char :: "char \<Rightarrow> bool" where
  "safe_char c \<longleftrightarrow>
     c \<notin> {CHR 0x2F, CHR 0x5C, CHR 0x3A, CHR 0x2A, CHR 0x3F, CHR 0x22, CHR 0x3C, CHR 0x3E, CHR 0x7C} \<and> 32 \<le> byte c \<and> byte c \<noteq> 127"

lemma blank_unsafe_safe: "list_all safe_char (blank_unsafe s)"
  by (induction s rule: blank_unsafe.induct)
    (auto simp: safe_char_def unsafe_name_chars_def byte_def split: list.splits)

lemma split_ws_from_set: "w \<in> set (split_ws_from acc s) \<Longrightarrow> set w \<subseteq> set acc \<union> set s"
proof (induction acc s rule: split_ws_from.induct)
  case (2 acc c cs)
  show ?case
  proof (cases "leading_ws (c # cs)")
    case None
    with "2.prems" "2.IH"(1) [OF None] show ?thesis by fastforce
  next
    case (Some v)
    with "2.prems" have "w = acc \<or> w \<in> set (split_ws_from [] (drop (length v) (c # cs)))" by (auto split: if_splits)
    with "2.IH"(2) [OF Some] set_drop_subset [of "length v" "c # cs"] show ?thesis by auto
  qed
qed (auto split: if_splits)

lemma join_with_all: "list_all P sep \<Longrightarrow> list_all (list_all P) ws \<Longrightarrow> list_all P (join_with sep ws)"
  by (induction sep ws rule: join_with.induct) auto

lemma xtream_path_segment_safe: "list_all safe_char (xtream_path_segment v) \<and> xtream_path_segment v \<noteq> []"
proof -
  have "list_all (list_all safe_char) (split_whitespace (blank_unsafe v))"
    using blank_unsafe_safe [of v] by (auto simp: split_whitespace_def list_all_iff dest!: split_ws_from_set)
  then have "list_all safe_char (join_with '' '' (split_whitespace (blank_unsafe v)))"
    by (intro join_with_all) (auto simp: safe_char_def unsafe_name_chars_def byte_def)
  moreover have "list_all safe_char ''Untitled''" by (simp add: safe_char_def unsafe_name_chars_def byte_def)
  ultimately show ?thesis by (simp add: xtream_path_segment_def Let_def)
qed

lemma safe_no_slash: "list_all safe_char s \<Longrightarrow> CHR ''/'' \<notin> set s"
  by (auto simp: list_all_iff safe_char_def unsafe_name_chars_def)

end
