(* ===== verification/Xtream_Items.thy ===== *)
theory Xtream_Items
  imports Xtream_Catalog Rust_Result
begin

text \<open>
  The items an Xtream provider's answers become (\<open>crates/jellyrin-xtream-provider/src/lib.rs\<close>, 1251--1416, 1437--1497,
  1649--1659, 1897--2318 and 2407--2569): films, episodes, live channels, categories and the programme guide.
  The text of a JSON value, floating-point numbers, base64 and calendar times are parameters. Slicing a
  string between the bytes of a character panics, which is the left side of the results of the guide.
\<close>

record xtream_env =
  xe_json_text :: "json \<Rightarrow> string"
  xe_number_f64 :: "jnum \<Rightarrow> nat" \<comment> \<open>\<open>as_f64\<close>, as bits\<close>
  xe_parse_f64 :: "string \<Rightarrow> nat option"
  xe_base64 :: "string \<Rightarrow> string option"
  xe_rfc3339_ok :: "string \<Rightarrow> bool"
  xe_format_unix :: "int \<Rightarrow> string option"

section \<open>Numbers\<close>

definition i64_of_field :: "json \<Rightarrow> int option" where
  "i64_of_field w = (case as_i64 w of Some n \<Rightarrow> Some n | None \<Rightarrow> Option.bind (as_str w) (\<lambda>s. parse_i64 (trim s)))"

definition xtream_i64 :: "json \<Rightarrow> string list \<Rightarrow> int option" where
  "xtream_i64 v keys = find_map (\<lambda>key. Option.bind (jget key v) i64_of_field) keys"

definition xtream_i32 :: "json \<Rightarrow> string list \<Rightarrow> int option" where
  "xtream_i32 v keys = opt_filter (\<lambda>i. i32_min \<le> i \<and> i \<le> i32_max) (xtream_i64 v keys)"

definition f64_of_field :: "xtream_env \<Rightarrow> json \<Rightarrow> nat option" where
  "f64_of_field env w =
     (case w of JNum n \<Rightarrow> Some (xe_number_f64 env n) | JStr s \<Rightarrow> xe_parse_f64 env (trim s) | _ \<Rightarrow> None)"

definition xtream_f64 :: "xtream_env \<Rightarrow> json \<Rightarrow> string list \<Rightarrow> nat option" where
  "xtream_f64 env v keys = find_map (\<lambda>key. Option.bind (jget key v) (f64_of_field env)) keys"

text \<open>\<open>is_finite\<close> and \<open>>= 0.0\<close> on the bits; \<open>json!\<close> of a float that is not finite is null.\<close>

definition f64_finite :: "nat \<Rightarrow> bool" where
  "f64_finite b \<longleftrightarrow> b div 2 ^ 52 mod 2048 \<noteq> 2047"

definition f64_not_negative :: "nat \<Rightarrow> bool" where
  "f64_not_negative b \<longleftrightarrow> b < 2 ^ 63 \<or> b = 2 ^ 63"

definition json_f64 :: "nat \<Rightarrow> json" where
  "json_f64 b = (if f64_finite b then JNum (JFloat b) else JNull)"

text \<open>A duration in seconds, or as hours, minutes and seconds; the arithmetic wraps in the release profile.\<close>

definition seconds_of_parts :: "int list \<Rightarrow> int option" where
  "seconds_of_parts parts =
     (case parts of
        [hours, minutes, seconds] \<Rightarrow> Some (wrap_i64 (hours * 3600 + minutes * 60 + seconds))
      | [minutes, seconds] \<Rightarrow> Some (wrap_i64 (minutes * 60 + seconds))
      | [seconds] \<Rightarrow> Some seconds
      | _ \<Rightarrow> None)"

definition duration_ticks_from_metadata :: "json \<Rightarrow> int option" where
  "duration_ticks_from_metadata v =
     Option.bind
       (opt_or (xtream_i64 v [''duration_secs'', ''duration_seconds'', ''duration''])
         (Option.bind (json_string_field v ''duration'')
           (\<lambda>d. seconds_of_parts (List.map_filter parse_i64 (split_on (CHR '':'') d)))))
       (\<lambda>seconds. if 0 < seconds then Some (min i64_max (seconds * 10000000)) else None)"

section \<open>Shapes\<close>

definition valid_series_info_shape :: "json \<Rightarrow> bool" where
  "valid_series_info_shape info \<longleftrightarrow> is_some_and (\<lambda>e. as_array e \<noteq> None \<or> as_object e \<noteq> None) (jget ''episodes'' info)"

definition is_object :: "json \<Rightarrow> bool" where
  "is_object v \<longleftrightarrow> as_object v \<noteq> None"

definition valid_vod_info_shape :: "json \<Rightarrow> bool" where
  "valid_vod_info_shape v \<longleftrightarrow> is_object v \<and> (is_some_and is_object (jget ''info'' v) \<or> is_some_and is_object (jget ''movie_data'' v))"

text \<open>The episodes with the number of the season they are filed under, if it is one.\<close>

definition xtream_episode_values :: "json \<Rightarrow> (int option \<times> json) list" where
  "xtream_episode_values info =
     (case jget ''episodes'' info of
        Some (JArr vs) \<Rightarrow> map (Pair None) vs
      | Some (JObj m) \<Rightarrow>
          concat (map (\<lambda>(season, es). case es of JArr vs \<Rightarrow> map (Pair (parse_i32 season)) vs | _ \<Rightarrow> []) m)
      | _ \<Rightarrow> [])"

definition series_episode_count :: "json \<Rightarrow> nat" where
  "series_episode_count info =
     (case jget ''episodes'' info of
        Some (JArr vs) \<Rightarrow> length vs
      | Some (JObj m) \<Rightarrow>
          foldl (\<lambda>n kv. sat_add usize_max n (case snd kv of JArr vs \<Rightarrow> length vs | _ \<Rightarrow> 0)) 0 m
      | _ \<Rightarrow> 0)"

definition valid_series_episode_prefix :: "json \<Rightarrow> nat \<Rightarrow> bool" where
  "valid_series_episode_prefix info limit \<longleftrightarrow>
     list_all (\<lambda>e. is_some_and valid_xtream_identifier (text_or_number_field (snd e) ''id''))
       (take limit (xtream_episode_values info))"

section \<open>Categories\<close>

definition parse_category :: "json \<Rightarrow> json option" where
  "parse_category category =
     map_option (\<lambda>i.
       json_obj
         [(''Id'', JStr i),
          (''Name'', JStr (unwrap_or i (opt_or (json_string_field category ''category_name'') (json_string_field category ''name'')))),
          (''ParentId'', json_opt JStr (text_or_number_field category ''parent_id''))])
       (text_or_number_field category ''category_id'')"

definition parse_categories :: "json list \<Rightarrow> json list" where
  "parse_categories categories = List.map_filter parse_category categories"

text \<open>Collected into a hash map: the last category of an id gives its name.\<close>

definition category_name_map :: "json list \<Rightarrow> (string, string) hmap" where
  "category_name_map categories =
     foldl (\<lambda>m category.
         case (json_string_field category ''Id'', json_string_field category ''Name'') of
           (Some i, Some name) \<Rightarrow> hm_insert i name m
         | _ \<Rightarrow> m)
       [] categories"

definition apply_category_name :: "(string, string) hmap \<Rightarrow> json \<Rightarrow> json" where
  "apply_category_name names channel =
     (case Option.bind (json_string_field channel ''CategoryId'') (map_of names) of
        None \<Rightarrow> channel
      | Some name \<Rightarrow>
          jset ''GenreItems'' (JArr [json_obj [(''Id'', JStr (stable_entity_id ''LiveTvGenre'' name)), (''Name'', JStr name)]])
            (jset ''Tags'' (JArr [JStr name]) (jset ''Genres'' (JArr [JStr name]) channel)))"

definition apply_category_names :: "json list \<Rightarrow> json list \<Rightarrow> json list" where
  "apply_category_names channels categories = map (apply_category_name (category_name_map categories)) channels"

definition unique_live_catalog :: "json list \<Rightarrow> bool" where
  "unique_live_catalog channels \<longleftrightarrow>
     (let ids = map (\<lambda>c. json_string_field c ''Id'') channels in list_all (\<lambda>i. i \<noteq> None) ids \<and> distinct ids)"

section \<open>Live channels\<close>

definition live_channel :: "'u url_ops \<Rightarrow> (json \<Rightarrow> string) \<Rightarrow> string \<Rightarrow> json \<Rightarrow> json option" where
  "live_channel ops encode tuner_id stream =
     Option.bind (text_or_number_field stream ''stream_id'') (\<lambda>stream_id.
     if \<not> valid_xtream_identifier stream_id then None
     else Option.bind (source_ref_new tuner_id ''live'' stream_id ''ts'') (\<lambda>r.
       let guide = json_string_field stream ''epg_channel_id'';
           channel = json_obj
             [(''Id'', JStr (xtream_live_channel_id tuner_id stream_id)), (''RemoteId'', JStr stream_id),
              (''Name'', JStr (unwrap_or stream_id (json_string_field stream ''name''))),
              (''Number'', json_opt JStr (text_or_number_field stream ''num'')),
              (''ProviderReference'', JStr (encoded_live_provider_reference encode r)), (''ProviderType'', JStr ''xtream''),
              (''ChannelType'', JStr ''TV''), (''IsHD'', JBool False), (''IsFavorite'', JBool False)]
       in Some
            (jset_some ''ImageUrl'' JStr (Option.bind (json_string_field stream ''stream_icon'') (safe_xtream_image_url ops))
            (jset_some ''CategoryId'' JStr (item_category_id stream)
            (jset_some ''GuideChannelId'' JStr guide (jset_some ''GuideNumber'' JStr guide channel))))))"

definition parse_streams :: "'u url_ops \<Rightarrow> (json \<Rightarrow> string) \<Rightarrow> string \<Rightarrow> json list \<Rightarrow> live_options \<Rightarrow> json list" where
  "parse_streams ops encode tuner_id streams opts =
     (let allowed = filter (live_options_allows opts) streams
      in List.map_filter (live_channel ops encode tuner_id)
           (case lo_limit opts of Some limit \<Rightarrow> take limit allowed | None \<Rightarrow> allowed))"

section \<open>Films and episodes\<close>

record media_upsert =
  mu_id :: string
  mu_name :: string
  mu_path :: string
  mu_media_type :: string
  mu_collection_type :: string
  mu_runtime_ticks :: "int option"
  mu_bitrate :: "int option"
  mu_width :: "int option"
  mu_height :: "int option"
  mu_media_streams :: "json list"
  mu_metadata :: json

definition default_remote_video_streams :: "json list" where
  "default_remote_video_streams =
     [json_obj
        [(''Codec'', JStr ''h264''), (''Language'', JNull), (''DisplayTitle'', JStr ''Video''), (''IsInterlaced'', JBool False),
         (''IsDefault'', JBool True), (''IsForced'', JBool False), (''Type'', JStr ''Video''), (''Index'', json_nat 0),
         (''IsExternal'', JBool False), (''SupportsExternalStream'', JBool False)],
      json_obj
        [(''Codec'', JStr ''aac''), (''Language'', JNull), (''DisplayTitle'', JStr ''Audio''), (''IsInterlaced'', JBool False),
         (''Channels'', json_nat 2), (''IsDefault'', JBool True), (''IsForced'', JBool False), (''Type'', JStr ''Audio''),
         (''Index'', json_nat 1), (''IsExternal'', JBool False)]]"

text \<open>The insertion-based uniqueness test: ids and paths are not blank and occur once.\<close>

definition unique_remote_media_catalog :: "media_upsert list \<Rightarrow> bool" where
  "unique_remote_media_catalog items \<longleftrightarrow>
     list_all (\<lambda>i. trim (mu_id i) \<noteq> [] \<and> trim (mu_path i) \<noteq> []) items \<and>
     distinct (map mu_id items) \<and> distinct (map mu_path items)"

definition category_genres :: "json list \<Rightarrow> json \<Rightarrow> string list" where
  "category_genres categories item =
     (case Option.bind (item_category_id item) (map_of (category_name_map categories)) of Some n \<Rightarrow> [n] | None \<Rightarrow> [])"

definition image_field :: "'u url_ops \<Rightarrow> json \<Rightarrow> string \<Rightarrow> string option" where
  "image_field ops v key = Option.bind (json_string_field v key) (safe_xtream_image_url ops)"

definition set_image :: "string option \<Rightarrow> json \<Rightarrow> json" where
  "set_image url metadata = jset_some ''PrimaryImageUrl'' JStr url (jset_some ''ImageUrl'' JStr url metadata)"

definition vod_file_name :: "string \<Rightarrow> string \<Rightarrow> string \<Rightarrow> string" where
  "vod_file_name name stream_id extension =
     xtream_path_segment name @ '' ['' @ xtream_path_segment stream_id @ ''].'' @ extension"

definition vod_item :: "'u url_ops \<Rightarrow> xtream_env \<Rightarrow> string \<Rightarrow> json list \<Rightarrow> json \<Rightarrow> media_upsert option" where
  "vod_item ops env tuner_id categories stream =
     Option.bind (text_or_number_field stream ''stream_id'') (\<lambda>stream_id.
     if \<not> valid_xtream_identifier stream_id then None
     else
     Option.bind (xtream_extension stream ''container_extension'' ''mp4'') (\<lambda>extension.
     Option.bind (source_ref_new tuner_id ''vod'' stream_id extension) (\<lambda>r.
       let name = unwrap_or stream_id (json_string_field stream ''name'');
           i = stable_entity_id ''xtream-vod'' (xtream_scoped_catalog_key tuner_id stream_id);
           metadata = json_obj
             [(''Provider'', JStr ''xtream''), (''XtreamKind'', JStr ''vod''), (''RemoteSourceRef'', source_ref_json r),
              (''XtreamStreamId'', JStr stream_id), (''ProviderIds'', json_obj [(''Xtream'', JStr stream_id)]), (''Name'', JStr name),
              (''Genres'', JArr (map JStr (category_genres categories stream))), (''Tags'', JArr [JStr ''Xtream Codes'']),
              (''PrimaryImageTag'', JStr (stable_entity_id ''xtream-vod-image'' i))];
           metadata = set_image (opt_or (image_field ops stream ''stream_icon'') (image_field ops stream ''cover'')) metadata;
           metadata = jset_some ''ProductionYear'' json_int (xtream_i32 stream [''year'', ''releaseDate'', ''release_date'']) metadata;
           metadata = jset_some ''CommunityRating'' json_f64 (xtream_f64 env stream [''rating'', ''rating_5based'']) metadata;
           metadata = jset_some ''Overview'' JStr
             (opt_or (json_string_field stream ''plot'') (json_string_field stream ''overview'')) metadata
       in Some \<lparr> mu_id = i, mu_name = name,
            mu_path = xtream_virtual_library_root tuner_id ''movies'' @ ''/'' @ vod_file_name name stream_id extension,
            mu_media_type = ''Video'', mu_collection_type = ''movies'', mu_runtime_ticks = duration_ticks_from_metadata stream,
            mu_bitrate = None, mu_width = None, mu_height = None, mu_media_streams = default_remote_video_streams,
            mu_metadata = metadata \<rparr>)))"

definition parse_vod_streams :: "'u url_ops \<Rightarrow> xtream_env \<Rightarrow> string \<Rightarrow> json list \<Rightarrow> json list \<Rightarrow> media_upsert list" where
  "parse_vod_streams ops env tuner_id streams categories = List.map_filter (vod_item ops env tuner_id categories) streams"

text \<open>\<open>{:02}\<close> of an \<open>i32\<close>.\<close>

definition show_02 :: "int \<Rightarrow> string" where
  "show_02 i = (if i < 0 then show_int i else pad_zero 2 (show_int i))"

text \<open>What the episodes of one series share.\<close>

record series_context =
  sx_tuner_id :: string
  sx_series_id :: string
  sx_series_name :: string
  sx_series_info :: json
  sx_genres :: "string list"
  sx_image_url :: "string option"
  sx_stable_id :: string

definition series_context_of :: "'u url_ops \<Rightarrow> xtream_env \<Rightarrow> string \<Rightarrow> json \<Rightarrow> json \<Rightarrow> json list \<Rightarrow> series_context" where
  "series_context_of ops env tuner_id series_item info categories =
     (let series_id = unwrap_or (stable_entity_id ''xtream-series-missing-id'' (xe_json_text env series_item))
            (text_or_number_field series_item ''series_id'');
          series_info = unwrap_or series_item (jget ''info'' info)
      in \<lparr> sx_tuner_id = tuner_id, sx_series_id = series_id,
           sx_series_name = unwrap_or (''Series '' @ series_id)
             (opt_or (json_string_field series_info ''name'') (json_string_field series_item ''name'')),
           sx_series_info = series_info, sx_genres = category_genres categories series_item,
           sx_image_url = opt_or (image_field ops series_info ''cover'')
             (opt_or (image_field ops series_info ''cover_big'') (image_field ops series_item ''cover'')),
           sx_stable_id = stable_entity_id ''xtream-series'' (xtream_scoped_catalog_key tuner_id series_id) \<rparr>)"

definition episode_path :: "series_context \<Rightarrow> int \<Rightarrow> int \<Rightarrow> string \<Rightarrow> string \<Rightarrow> string \<Rightarrow> string" where
  "episode_path sx season_number episode_number title episode_id extension =
     xtream_virtual_library_root (sx_tuner_id sx) ''series'' @ ''/'' @ xtream_path_segment (sx_series_name sx) @
     ''/Season '' @ show_int season_number @ ''/S'' @ show_02 season_number @ ''E'' @ show_02 episode_number @ '' - '' @
     xtream_path_segment title @ '' ['' @ xtream_path_segment episode_id @ ''].'' @ extension"

text \<open>\<open>position\<close> is the number of episodes made so far.\<close>

definition episode_item :: "'u url_ops \<Rightarrow> series_context \<Rightarrow> nat \<Rightarrow> int option \<times> json \<Rightarrow> media_upsert option" where
  "episode_item ops sx position se =
     (let season = fst se; episode = snd se; tuner_id = sx_tuner_id sx; series_id = sx_series_id sx in
      Option.bind (text_or_number_field episode ''id'') (\<lambda>episode_id.
      if \<not> valid_xtream_identifier episode_id then None
      else
      let episode_info = unwrap_or episode (jget ''info'' episode);
          number_keys = [''episode_num'', ''episode_number'', ''num''];
          episode_number = unwrap_or (int position + 1) (opt_or (xtream_i32 episode number_keys) (xtream_i32 episode_info number_keys));
          season_number = unwrap_or 1 (opt_or (xtream_i32 episode [''season'', ''season_number'']) season);
          title = unwrap_or (''Episode '' @ show_int episode_number)
            (opt_or (json_string_field episode ''title'') (json_string_field episode ''name''))
      in
      Option.bind (xtream_extension episode ''container_extension'' ''mp4'') (\<lambda>extension.
      Option.bind (source_ref_new tuner_id ''series-episode'' episode_id extension) (\<lambda>r.
       let i = stable_entity_id ''xtream-series-episode'' (xtream_scoped_catalog_key tuner_id (series_id @ '':'' @ episode_id));
           metadata = json_obj
             [(''Provider'', JStr ''xtream''), (''XtreamKind'', JStr ''series-episode''), (''RemoteSourceRef'', source_ref_json r),
              (''XtreamSeriesId'', JStr series_id), (''XtreamEpisodeId'', JStr episode_id),
              (''ProviderIds'', json_obj [(''Xtream'', JStr episode_id)]), (''SeriesProviderIds'', json_obj [(''Xtream'', JStr series_id)]),
              (''Name'', JStr title), (''SeriesName'', JStr (sx_series_name sx)), (''SeriesId'', JStr (sx_stable_id sx)),
              (''SeasonId'', JStr (stable_entity_id ''xtream-season''
                 (xtream_scoped_catalog_key tuner_id (series_id @ '':'' @ show_int season_number)))),
              (''ParentIndexNumber'', json_int season_number), (''IndexNumber'', json_int episode_number),
              (''Genres'', JArr (map JStr (sx_genres sx))), (''Tags'', JArr [JStr ''Xtream Codes'']),
              (''PrimaryImageTag'', JStr (stable_entity_id ''xtream-episode-image'' i)),
              (''SeriesPrimaryImageTag'', JStr (stable_entity_id ''xtream-series-image'' (sx_stable_id sx)))];
           metadata = set_image (opt_or (image_field ops episode_info ''movie_image'')
             (opt_or (image_field ops episode_info ''cover'') (sx_image_url sx))) metadata;
           metadata = jset_some ''SeriesImageUrl'' JStr (sx_image_url sx) metadata;
           metadata = jset_some ''Overview'' JStr
             (opt_or (json_string_field episode_info ''plot'') (json_string_field (sx_series_info sx) ''plot'')) metadata;
           metadata = jset_some ''PremiereDate'' JStr
             (opt_or (json_string_field episode_info ''releasedate'') (json_string_field episode ''air_date'')) metadata
       in Some \<lparr> mu_id = i, mu_name = title,
            mu_path = episode_path sx season_number episode_number title episode_id extension,
            mu_media_type = ''Video'', mu_collection_type = ''tvshows'',
            mu_runtime_ticks = opt_or (duration_ticks_from_metadata episode_info) (duration_ticks_from_metadata episode),
            mu_bitrate = None, mu_width = None, mu_height = None, mu_media_streams = default_remote_video_streams,
            mu_metadata = metadata \<rparr>))))"

fun episode_items :: "'u url_ops \<Rightarrow> series_context \<Rightarrow> nat option \<Rightarrow> media_upsert list \<Rightarrow> (int option \<times> json) list \<Rightarrow> media_upsert list" where
  "episode_items ops sx limit done [] = done"
| "episode_items ops sx limit done (e # es) =
     (if is_some_and (\<lambda>l. l \<le> length done) limit then done
      else case episode_item ops sx (length done) e of
          None \<Rightarrow> episode_items ops sx limit done es
        | Some item \<Rightarrow> episode_items ops sx limit (done @ [item]) es)"

definition parse_series_episodes ::
  "'u url_ops \<Rightarrow> xtream_env \<Rightarrow> string \<Rightarrow> json \<Rightarrow> json \<Rightarrow> json list \<Rightarrow> nat option \<Rightarrow> media_upsert list" where
  "parse_series_episodes ops env tuner_id series_item info categories limit =
     episode_items ops (series_context_of ops env tuner_id series_item info categories) limit [] (xtream_episode_values info)"

section \<open>Film details\<close>

text \<open>\<open>date.get(0..4)\<close> as a year.\<close>

definition year_prefix :: "string \<Rightarrow> int option" where
  "year_prefix date =
     (if length date < 4 \<or> (4 < length date \<and> is_cont (date ! 4)) then None else parse_i32 (take 4 date))"

definition people_of :: "string \<Rightarrow> string list option \<Rightarrow> json list" where
  "people_of kind names = map (\<lambda>n. json_obj [(''Name'', JStr n), (''Type'', JStr kind)]) (unwrap_or [] names)"

definition nonempty_list :: "string list option \<Rightarrow> json option" where
  "nonempty_list values = map_option (\<lambda>vs. JArr (map JStr vs)) (opt_filter (\<lambda>vs. vs \<noteq> []) values)"

definition backdrop_field :: "json \<Rightarrow> string option" where
  "backdrop_field info =
     (case jget ''backdrop_path'' info of
        Some (JArr vs) \<Rightarrow> find_map as_str vs | Some (JStr s) \<Rightarrow> Some s | _ \<Rightarrow> None)"

definition vod_provider_ids :: "string \<Rightarrow> json \<Rightarrow> json \<Rightarrow> json" where
  "vod_provider_ids stream_id info movie_data =
     jset_some ''Imdb'' JStr
       (opt_filter (\<lambda>v. trim v \<noteq> [] \<and> length v \<le> 64)
         (opt_or (json_string_field info ''imdb_id'')
           (opt_or (json_string_field info ''imdb'') (json_string_field movie_data ''imdb_id''))))
       (jset_some ''Tmdb'' JStr
         (opt_filter valid_xtream_identifier (opt_or (json_string_field info ''tmdb_id'') (json_string_field movie_data ''tmdb_id'')))
         (json_obj [(''Xtream'', JStr stream_id)]))"

definition normalized_vod_info_metadata :: "'u url_ops \<Rightarrow> xtream_env \<Rightarrow> string \<Rightarrow> json \<Rightarrow> json" where
  "normalized_vod_info_metadata ops env stream_id v =
     (let movie_data = unwrap_or v (opt_filter is_object (jget ''movie_data'' v));
          info = unwrap_or movie_data (opt_filter is_object (jget ''info'' v));
          release_date = opt_or (json_string_field info ''releasedate'')
            (opt_or (json_string_field info ''release_date'') (json_string_field info ''releaseDate''));
          year = opt_filter (\<lambda>y. 1870 \<le> y \<and> y \<le> 2200)
            (opt_or (xtream_i32 info [''year'', ''release_year'']) (Option.bind release_date year_prefix));
          people = take 256 (people_of ''Director'' (json_string_list_field info ''director'') @
            people_of ''Actor'' (opt_or (json_string_list_field info ''cast'') (json_string_list_field info ''actors'')));
          metadata = jset_some ''Overview'' JStr
            (opt_filter (\<lambda>s. trim s \<noteq> []) (opt_or (json_string_field info ''plot'') (json_string_field info ''description''))) (JObj []);
          metadata = jset_some ''ProductionYear'' json_int year metadata;
          metadata = jset_some ''PremiereDate'' JStr (opt_filter (\<lambda>s. trim s \<noteq> []) release_date) metadata;
          metadata = jset_some ''CommunityRating'' json_f64
            (opt_filter (\<lambda>b. f64_finite b \<and> f64_not_negative b) (xtream_f64 env info [''rating'', ''rating_5based''])) metadata;
          metadata = jset_some ''OfficialRating'' JStr
            (opt_filter (\<lambda>s. trim s \<noteq> []) (opt_or (json_string_field info ''age'') (json_string_field info ''mpaa_rating''))) metadata;
          metadata = jset_some ''Genres'' id (nonempty_list (json_string_list_field info ''genre'')) metadata;
          metadata = jset_some ''Studios'' id
            (nonempty_list (opt_or (json_string_list_field info ''studio'') (json_string_list_field info ''production''))) metadata;
          metadata = (if people \<noteq> [] then jset ''People'' (JArr people) metadata else metadata);
          metadata = set_image (Option.bind
            (opt_or (json_string_field info ''movie_image'') (opt_or (json_string_field info ''cover_big'') (json_string_field info ''cover'')))
            (safe_xtream_image_url ops)) metadata;
          backdrop = Option.bind (backdrop_field info) (safe_xtream_image_url ops);
          metadata = jset_some ''BackdropImageTag'' (\<lambda>_. JStr (stable_entity_id ''xtream-vod-backdrop'' stream_id)) backdrop
            (jset_some ''BackdropImageUrl'' JStr backdrop metadata)
      in jset ''ProviderIds'' (vod_provider_ids stream_id info movie_data) metadata)"

section \<open>Channels of the database\<close>

record channel_upsert =
  cu_channel_id :: string
  cu_tuner_id :: string
  cu_remote_id :: string
  cu_category_id :: "string option"
  cu_name :: string
  cu_sort_name :: string
  cu_number :: "string option"
  cu_stream_url :: string
  cu_logo_url :: "string option"
  cu_channel_type :: string
  cu_metadata :: json

definition without_images :: "json \<Rightarrow> json" where
  "without_images channel =
     (case channel of
        JObj m \<Rightarrow> JObj (filter (\<lambda>kv. \<not> eq_ignore_case (fst kv) ''ImageUrl'' \<and> \<not> eq_ignore_case (fst kv) ''PrimaryImageUrl'') m)
      | _ \<Rightarrow> channel)"

definition channel_upsert_from_json :: "'u url_ops \<Rightarrow> string \<Rightarrow> json \<Rightarrow> channel_upsert option" where
  "channel_upsert_from_json ops tuner_id channel =
     Option.bind (json_string_field channel ''Id'') (\<lambda>channel_id.
       let remote_id = unwrap_or (unwrap_or channel_id (strip_prefix ''xtream_'' channel_id)) (json_string_field channel ''RemoteId'');
           name = unwrap_or channel_id (json_string_field channel ''Name'');
           number = json_string_field channel ''Number'';
           stream_url = unwrap_or [] (opt_or (json_string_field channel ''Path'') (json_string_field channel ''MediaPath''));
           img = image_field ops channel ''ImageUrl'';
           primary = image_field ops channel ''PrimaryImageUrl''
       in if (stream_url \<noteq> []) = (json_string_field channel ''ProviderReference'' \<noteq> None) then None
          else Some \<lparr> cu_channel_id = channel_id, cu_tuner_id = tuner_id, cu_remote_id = remote_id,
                 cu_category_id = map_option (category_db_id tuner_id) (json_string_field channel ''CategoryId''),
                 cu_name = name, cu_sort_name = unwrap_or name (opt_or (json_string_field channel ''SortName'') number),
                 cu_number = number, cu_stream_url = stream_url, cu_logo_url = img,
                 cu_channel_type = unwrap_or ''TV'' (json_string_field channel ''ChannelType''),
                 cu_metadata = jset_some ''PrimaryImageUrl'' JStr primary
                   (jset_some ''ImageUrl'' JStr img (without_images channel)) \<rparr>)"

section \<open>The programme guide\<close>

definition epg_listings :: "json \<Rightarrow> json list" where
  "epg_listings epg =
     (case as_array epg of
        Some vs \<Rightarrow> vs
      | None \<Rightarrow> unwrap_or [] (find_map (\<lambda>key. Option.bind (jget key epg) as_array)
          [''epg_listings'', ''listings'', ''programs'', ''data'']))"

definition epg_listing_count :: "json \<Rightarrow> nat" where
  "epg_listing_count epg =
     (case as_array epg of
        Some vs \<Rightarrow> length vs
      | None \<Rightarrow> unwrap_or 0 (map_option length (find_map (\<lambda>key. Option.bind (jget key epg) as_array)
          [''epg_listings'', ''listings'', ''programs'', ''data''])))"

definition epg_text :: "xtream_env \<Rightarrow> string \<Rightarrow> string" where
  "epg_text env v =
     (let trimmed = trim v
      in case opt_filter (\<lambda>d. d \<noteq> []) (map_option trim (opt_filter utf8_valid (xe_base64 env trimmed))) of
           Some decoded \<Rightarrow> if trimmed = [] then [] else decoded
         | None \<Rightarrow> trimmed)"

datatype slice_panic = Inside_A_Character | Out_Of_Range

text \<open>\<open>&s[from..to]\<close>: both bounds have to be inside the string, in order, and on character boundaries.\<close>

definition slice :: "nat \<Rightarrow> nat \<Rightarrow> string \<Rightarrow> slice_panic + string" where
  "slice from to s =
     (if to < from \<or> length s < to then Inl Out_Of_Range
      else if (from < length s \<and> is_cont (s ! from)) \<or> (to < length s \<and> is_cont (s ! to)) then Inl Inside_A_Character
      else Inr (take (to - from) (drop from s)))"

definition format_datetime :: "xtream_env \<Rightarrow> string \<Rightarrow> slice_panic + string option" where
  "format_datetime env v =
     (let trimmed = trim v
      in if trimmed = [] then Inr None
         else if xe_rfc3339_ok env trimmed then Inr (Some trimmed)
         else
           let date_time = join_with '' '' (take 2 (split_whitespace (map (\<lambda>c. if c = CHR ''T'' then CHR '' '' else c) trimmed)))
           in if 19 \<le> length date_time \<and> date_time ! 4 = CHR ''-'' \<and> date_time ! 7 = CHR ''-'' \<and> date_time ! 13 = CHR '':'' \<and>
                 date_time ! 16 = CHR '':''
              then and_then (slice 0 10 date_time) (\<lambda>date. and_then (slice 11 19 date_time) (\<lambda>time.
                   Inr (Some (date @ ''T'' @ time @ ''Z''))))
              else Inr None)"

fun epg_datetime :: "xtream_env \<Rightarrow> json \<Rightarrow> string list \<Rightarrow> slice_panic + string option" where
  "epg_datetime env listing [] = Inr None"
| "epg_datetime env listing (key # keys) =
     (case json_string_field listing key of
        None \<Rightarrow> epg_datetime env listing keys
      | Some v \<Rightarrow> and_then (format_datetime env v)
          (\<lambda>formatted. case formatted of Some f \<Rightarrow> Inr (Some f) | None \<Rightarrow> epg_datetime env listing keys))"

definition epg_timestamp :: "xtream_env \<Rightarrow> json \<Rightarrow> string list \<Rightarrow> string option" where
  "epg_timestamp env listing keys =
     find_map (\<lambda>key. Option.bind (opt_or (live_tv_u64_field listing key) (Option.bind (json_string_field listing key) parse_u64))
       (\<lambda>t. xe_format_unix env (wrap_i64 (int t)))) keys"

definition epg_program :: "xtream_env \<Rightarrow> string \<Rightarrow> nat \<times> json \<Rightarrow> slice_panic + json option" where
  "epg_program env channel_id il =
     (let index = fst il; listing = snd il;
          name = unwrap_or (''Program '' @ show_nat (index + 1))
            (opt_filter (\<lambda>t. t \<noteq> []) (map_option (epg_text env) (json_string_field listing ''title'')));
          overview = unwrap_or [] (map_option (epg_text env) (json_string_field listing ''description''));
          remote_id = unwrap_or (show_nat index) (json_string_field listing ''id'')
      in and_then (epg_datetime env listing [''start'', ''start_time'']) (\<lambda>started.
         and_then (epg_datetime env listing [''end'', ''stop'', ''end_time'']) (\<lambda>ended.
           Inr (Option.bind (opt_or started (epg_timestamp env listing [''start_timestamp''])) (\<lambda>start.
             map_option (\<lambda>end_date. json_obj
               [(''Id'', JStr (live_tv_stable_id ''xtream-program'' (channel_id @ ''-'' @ remote_id @ ''-'' @ start))),
                (''Name'', JStr name), (''ChannelId'', JStr channel_id), (''StartDate'', JStr start), (''EndDate'', JStr end_date),
                (''Overview'', JStr overview), (''IsLive'', JBool True)])
             (opt_or ended (epg_timestamp env listing [''stop_timestamp''])))))))"

definition parse_epg_programs :: "xtream_env \<Rightarrow> string \<Rightarrow> json \<Rightarrow> slice_panic + json list" where
  "parse_epg_programs env channel_id epg =
     and_then (traverse (epg_program env channel_id) (enumerate 0 (epg_listings epg)))
       (\<lambda>programs. Inr (List.map_filter id programs))"

section \<open>Image addresses hold no credentials\<close>

lemma jget_jset: "bt_ok m \<Longrightarrow> jget k (jset k' w (JObj m)) = (if k = k' then Some w else jget k (JObj m))"
  by (auto simp: jget_def jset_def map_of_bt_insert)

definition sorted_object :: "json \<Rightarrow> bool" where
  "sorted_object j \<longleftrightarrow> (\<exists>m. j = JObj m \<and> bt_ok m)"

lemma sorted_object_intros [simp, intro]:
  "sorted_object (json_obj kvs)" "sorted_object (JObj [])" "sorted_object j \<Longrightarrow> sorted_object (jset k w j)"
  "sorted_object j \<Longrightarrow> sorted_object (jset_some k f x j)" "sorted_object j \<Longrightarrow> sorted_object (set_image url j)"
  using json_obj_ok by (auto simp: sorted_object_def jset_def jset_some_def set_image_def split: option.split)

lemma jget_sets:
  "sorted_object j \<Longrightarrow> jget k (jset k' w j) = (if k = k' then Some w else jget k j)"
  "sorted_object j \<Longrightarrow> jget k (jset_some k' f x j) = (if k = k' \<and> x \<noteq> None then map_option f x else jget k j)"
  by (auto simp: sorted_object_def jget_jset jset_some_def split: option.split)

lemma jget_set_image:
  "sorted_object j \<Longrightarrow> jget k (set_image url j) =
     (if (k = ''ImageUrl'' \<or> k = ''PrimaryImageUrl'') \<and> url \<noteq> None then map_option JStr url else jget k j)"
  by (auto simp: set_image_def jget_sets)

text \<open>An address without user, password, query and fragment.\<close>

definition plain_address :: "'u url_ops \<Rightarrow> string \<Rightarrow> bool" where
  "plain_address ops s \<longleftrightarrow> (\<exists>u. s = uo_text ops u \<and> http_scheme ops u \<and> uo_username ops u = [] \<and> uo_password ops u = None \<and>
     uo_query ops u = None \<and> uo_fragment ops u = None)"

definition image_keys :: "string list" where
  "image_keys = [''ImageUrl'', ''PrimaryImageUrl'', ''SeriesImageUrl'', ''BackdropImageUrl'']"

definition images_plain :: "'u url_ops \<Rightarrow> json \<Rightarrow> bool" where
  "images_plain ops j \<longleftrightarrow> list_all (\<lambda>k. case jget k j of None \<Rightarrow> True | Some w \<Rightarrow> \<exists>s. w = JStr s \<and> plain_address ops s) image_keys"

lemma safe_image_plain: "safe_xtream_image_url ops v = Some s \<Longrightarrow> plain_address ops s"
  by (auto simp: safe_xtream_image_url_def plain_address_def bind_eq_Some_conv split: if_splits)

lemma plain_options [simp, intro]:
  "pred_option (plain_address ops) (image_field ops v key)"
  "pred_option (plain_address ops) (Option.bind x (safe_xtream_image_url ops))"
  "pred_option (plain_address ops) x \<Longrightarrow> pred_option (plain_address ops) y \<Longrightarrow> pred_option (plain_address ops) (opt_or x y)"
  by (auto simp: image_field_def opt_or_def bind_eq_Some_conv option.pred_set dest: safe_image_plain split: option.splits)

lemma images_plain_steps:
  "sorted_object j \<Longrightarrow> k \<notin> set image_keys \<Longrightarrow> images_plain ops (jset_some k f x j) = images_plain ops j"
  "sorted_object j \<Longrightarrow> k \<notin> set image_keys \<Longrightarrow> images_plain ops (jset k w j) = images_plain ops j"
  "sorted_object j \<Longrightarrow> pred_option (plain_address ops) url \<Longrightarrow> images_plain ops j \<Longrightarrow> images_plain ops (set_image url j)"
  "sorted_object j \<Longrightarrow> pred_option (plain_address ops) url \<Longrightarrow> images_plain ops j \<Longrightarrow> images_plain ops (jset_some k JStr url j)"
proof -
  assume j: "sorted_object j"
  show "k \<notin> set image_keys \<Longrightarrow> images_plain ops (jset_some k f x j) = images_plain ops j"
    and "k \<notin> set image_keys \<Longrightarrow> images_plain ops (jset k w j) = images_plain ops j"
    by (auto simp: images_plain_def list_all_iff jget_sets [OF j])
  assume url: "pred_option (plain_address ops) url" and plain: "images_plain ops j"
  show "images_plain ops (jset_some k JStr url j)"
    using url plain by (cases url) (auto simp: images_plain_def list_all_iff jget_sets [OF j] split: option.splits if_splits)
  show "images_plain ops (set_image url j)"
    using url plain by (cases url) (auto simp: images_plain_def list_all_iff jget_set_image [OF j] split: option.splits if_splits)
qed

lemma images_plain_literal: "list_all (\<lambda>kv. fst kv \<notin> set image_keys) kvs \<Longrightarrow> images_plain ops (json_obj kvs)"
proof -
  assume kvs: "list_all (\<lambda>kv. fst kv \<notin> set image_keys) kvs"
  have "map_of (rev kvs) k = None" if "k \<in> set image_keys" for k
    using kvs that by (force simp: map_of_eq_None_iff list_all_iff)
  then show ?thesis by (simp add: images_plain_def list_all_iff jget_json_obj)
qed

lemma vod_item_images: "vod_item ops env tuner_id categories stream = Some item \<Longrightarrow> images_plain ops (mu_metadata item)"
  unfolding vod_item_def
  by (clarsimp simp: bind_eq_Some_conv Let_def split: if_splits)
    (simp add: images_plain_steps images_plain_literal image_keys_def)

lemma episode_item_images:
  "episode_item ops sx n e = Some item \<Longrightarrow> pred_option (plain_address ops) (sx_image_url sx) \<Longrightarrow> images_plain ops (mu_metadata item)"
  unfolding episode_item_def
  by (clarsimp simp: bind_eq_Some_conv Let_def split: if_splits)
    (simp add: images_plain_steps images_plain_literal image_keys_def)

text \<open>
  A live channel, before and after its category name is added, and the row that stores it. The row
  takes its images out, whatever the case of their keys, and puts the checked ones back.
\<close>

definition channel_row_images_plain :: "'u url_ops \<Rightarrow> channel_upsert \<Rightarrow> bool" where
  "channel_row_images_plain ops cu \<longleftrightarrow> pred_option (plain_address ops) (cu_logo_url cu) \<and> images_plain ops (cu_metadata cu)"

lemma live_channel_images:
  "live_channel ops encode tuner_id stream = Some c \<Longrightarrow> sorted_object c \<and> images_plain ops c"
  unfolding live_channel_def
  by (clarsimp simp: bind_eq_Some_conv Let_def split: if_splits)
    (simp add: images_plain_steps images_plain_literal image_keys_def)

lemma apply_category_name_images:
  "sorted_object c \<Longrightarrow> images_plain ops (apply_category_name names c) = images_plain ops c"
  by (simp add: apply_category_name_def images_plain_steps image_keys_def split: option.split)

lemma sorted_apply_category_name: "sorted_object c \<Longrightarrow> sorted_object (apply_category_name names c)"
  by (simp add: apply_category_name_def split: option.split)

lemma without_images_plain:
  "sorted_object c \<Longrightarrow> images_plain ops c \<Longrightarrow> sorted_object (without_images c) \<and> images_plain ops (without_images c)"
proof -
  assume "sorted_object c" and plain: "images_plain ops c"
  then obtain m where c: "c = JObj m" and m: "bt_ok m" by (auto simp: sorted_object_def)
  let ?P = "\<lambda>k. \<not> eq_ignore_case k ''ImageUrl'' \<and> \<not> eq_ignore_case k ''PrimaryImageUrl''"
  have w: "without_images c = JObj (filter (\<lambda>kv. ?P (fst kv)) m)" by (simp add: without_images_def c)
  have kept: "map_of (filter (\<lambda>kv. ?P (fst kv)) m) k = (if ?P k then map_of m k else None)" for k
    by (induction m) auto
  have "jget k (without_images c) = (if ?P k then jget k c else None)" for k
    using kept [of k] by (simp add: w) (simp add: c jget_def)
  then have "images_plain ops (without_images c)"
    using plain by (auto simp: images_plain_def list_all_iff)
  with w m show ?thesis by (simp add: sorted_object_def bt_ok_filter)
qed

lemma channel_row_images:
  "sorted_object c \<Longrightarrow> images_plain ops c \<Longrightarrow> pred_option (channel_row_images_plain ops) (channel_upsert_from_json ops tuner_id c)"
proof -
  assume "sorted_object c" "images_plain ops c"
  then have row: "sorted_object (without_images c)" "images_plain ops (without_images c)"
    using without_images_plain by blast+
  have images: "images_plain ops (jset_some ''PrimaryImageUrl'' JStr (image_field ops c ''PrimaryImageUrl'')
      (jset_some ''ImageUrl'' JStr (image_field ops c ''ImageUrl'') (without_images c)))"
    by (intro images_plain_steps(4) sorted_object_intros plain_options row)
  have "channel_row_images_plain ops cu" if "channel_upsert_from_json ops tuner_id c = Some cu" for cu
    using that images by (auto simp: channel_upsert_from_json_def channel_row_images_plain_def Let_def bind_eq_Some_conv split: if_splits)
  then show ?thesis by (simp add: option.pred_set)
qed

lemma live_channels_all:
  "(\<And>s c. live_channel ops encode tuner_id s = Some c \<Longrightarrow> P c) \<Longrightarrow> list_all P (parse_streams ops encode tuner_id streams opts)"
  by (auto simp: parse_streams_def list_all_iff map_filter_def Let_def)

text \<open>What holds of the episodes made so far and of each new one holds of all.\<close>

lemma episode_items_all:
  "(\<And>n e i. episode_item ops sx n e = Some i \<Longrightarrow> P i) \<Longrightarrow> list_all P so_far \<Longrightarrow> list_all P (episode_items ops sx limit so_far es)"
  by (induction ops sx limit so_far es rule: episode_items.induct) (auto split: option.splits)

lemma episode_items_length:
  "length so_far \<le> n \<Longrightarrow> length (episode_items ops sx (Some n) so_far es) \<le> n"
  by (induction ops sx "Some n" so_far es rule: episode_items.induct) (auto split: option.splits)

lemma series_episodes_all:
  "(\<And>n e i. episode_item ops (series_context_of ops env tuner_id series_item info categories) n e = Some i \<Longrightarrow> P i) \<Longrightarrow>
   list_all P (parse_series_episodes ops env tuner_id series_item info categories limit)"
  unfolding parse_series_episodes_def by (rule episode_items_all) auto

lemma vod_streams_all:
  "(\<And>s i. vod_item ops env tuner_id categories s = Some i \<Longrightarrow> P i) \<Longrightarrow> list_all P (parse_vod_streams ops env tuner_id streams categories)"
  by (auto simp: parse_vod_streams_def list_all_iff map_filter_def)

text \<open>
  C26. Nothing that a provider sends makes the catalogue keep a credential in an image address: every image
  address of a live channel (as parsed, with its category name, and in the row stored for it, its logo
  included), of a film, of an episode and of film details is a web address without user, password,
  query and fragment.
\<close>

theorem catalogue_images_hold_no_credentials:
  "list_all (images_plain ops) (parse_streams ops encode tuner_id live_streams opts) \<and>
   list_all (images_plain ops) (apply_category_names (parse_streams ops encode tuner_id live_streams opts) live_categories) \<and>
   list_all (\<lambda>c. pred_option (channel_row_images_plain ops) (channel_upsert_from_json ops tuner_id c))
     (apply_category_names (parse_streams ops encode tuner_id live_streams opts) live_categories) \<and>
   list_all (\<lambda>i. images_plain ops (mu_metadata i)) (parse_vod_streams ops env tuner_id streams categories) \<and>
   list_all (\<lambda>i. images_plain ops (mu_metadata i)) (parse_series_episodes ops env tuner_id series_item info categories limit) \<and>
   images_plain ops (normalized_vod_info_metadata ops env stream_id details)"
proof (intro conjI)
  have channels: "list_all (\<lambda>c. sorted_object c \<and> images_plain ops c) (parse_streams ops encode tuner_id live_streams opts)"
    by (rule live_channels_all) (rule live_channel_images)
  then show "list_all (images_plain ops) (parse_streams ops encode tuner_id live_streams opts)"
    and "list_all (images_plain ops) (apply_category_names (parse_streams ops encode tuner_id live_streams opts) live_categories)"
    and "list_all (\<lambda>c. pred_option (channel_row_images_plain ops) (channel_upsert_from_json ops tuner_id c))
      (apply_category_names (parse_streams ops encode tuner_id live_streams opts) live_categories)"
    by (auto simp: list_all_iff apply_category_names_def apply_category_name_images intro!: channel_row_images sorted_apply_category_name)
  show "list_all (\<lambda>i. images_plain ops (mu_metadata i)) (parse_vod_streams ops env tuner_id streams categories)"
    by (rule vod_streams_all) (rule vod_item_images)
  have "pred_option (plain_address ops) (sx_image_url (series_context_of ops env tuner_id series_item info categories))"
    by (simp add: series_context_of_def Let_def)
  then show "list_all (\<lambda>i. images_plain ops (mu_metadata i)) (parse_series_episodes ops env tuner_id series_item info categories limit)"
    by (intro series_episodes_all episode_item_images)
  have "images_plain ops (JObj [])" by (simp add: images_plain_def list_all_iff jget_def)
  then show "images_plain ops (normalized_vod_info_metadata ops env stream_id details)"
    unfolding normalized_vod_info_metadata_def Let_def by (simp add: images_plain_steps image_keys_def)
qed

section \<open>Names stay inside their library\<close>

lemma extension_chars: "xtream_extension v key d = Some e \<Longrightarrow> list_all safe_char e"
proof -
  assume "xtream_extension v key d = Some e"
  then have "e \<in> set xtream_extensions"
    by (auto simp: xtream_extension_def sanitized_xtream_extension_def Let_def split: option.splits if_splits)
  with extension_plain have "list_all is_alnum e" by blast
  moreover have "is_alnum c \<Longrightarrow> safe_char c" for c by (auto simp: safe_char_def unsafe_name_chars_def char_eval)
  ultimately show ?thesis by (auto simp: list_all_iff)
qed

lemma show_int_safe: "list_all safe_char (show_int i)"
proof -
  have "is_digit c \<Longrightarrow> safe_char c" for c by (auto simp: is_digit_def safe_char_def unsafe_name_chars_def char_eval)
  then have "list_all safe_char (show_nat n)" for n using show_nat_digits [of n] by (auto simp: list_all_iff)
  then show ?thesis by (simp add: show_int_def safe_char_def unsafe_name_chars_def byte_def)
qed

lemma show_02_safe: "list_all safe_char (show_02 i)"
proof -
  have "safe_char CHR ''0''" by (simp add: safe_char_def unsafe_name_chars_def byte_def)
  with show_int_safe [of i] show ?thesis by (auto simp: show_02_def pad_zero_def list_all_iff)
qed

text \<open>
  C31. No name a provider sends adds a component to a path: the path of a film is its library's root and
  one file, the path of an episode is its library's root, one folder for the series, one for the season and
  a file; none of them has a slash, a backslash, a control or another of the characters removed.
\<close>

theorem catalogue_paths_contained:
  "list_all (\<lambda>i. \<exists>f. mu_path i = xtream_virtual_library_root tuner_id ''movies'' @ ''/'' @ f \<and> f \<noteq> [] \<and> list_all safe_char f)
     (parse_vod_streams ops env tuner_id streams categories) \<and>
   list_all (\<lambda>i. \<exists>series season f. mu_path i = xtream_virtual_library_root tuner_id ''series'' @ ''/'' @ series @ ''/'' @ season @ ''/'' @ f \<and>
       series \<noteq> [] \<and> season \<noteq> [] \<and> f \<noteq> [] \<and> list_all safe_char (series @ season @ f))
     (parse_series_episodes ops env tuner_id series_item info categories limit)"
proof
  note words = char_eval unsafe_name_chars_def safe_char_def
  show "list_all (\<lambda>i. \<exists>f. mu_path i = xtream_virtual_library_root tuner_id ''movies'' @ ''/'' @ f \<and> f \<noteq> [] \<and> list_all safe_char f)
     (parse_vod_streams ops env tuner_id streams categories)"
  proof (rule vod_streams_all)
    fix st i
    assume "vod_item ops env tuner_id categories st = Some i"
    then obtain name stream_id e where "xtream_extension st ''container_extension'' ''mp4'' = Some e"
        and "mu_path i = xtream_virtual_library_root tuner_id ''movies'' @ ''/'' @ vod_file_name name stream_id e"
      by (auto simp: vod_item_def bind_eq_Some_conv Let_def split: if_splits)
    moreover have "vod_file_name name stream_id e \<noteq> []" by (simp add: vod_file_name_def)
    moreover have "list_all safe_char (vod_file_name name stream_id e)" if "list_all safe_char e"
      using that xtream_path_segment_safe by (simp add: vod_file_name_def words)
    ultimately show "\<exists>f. mu_path i = xtream_virtual_library_root tuner_id ''movies'' @ ''/'' @ f \<and> f \<noteq> [] \<and> list_all safe_char f"
      using extension_chars by blast
  qed
  show "list_all (\<lambda>i. \<exists>series season f. mu_path i = xtream_virtual_library_root tuner_id ''series'' @ ''/'' @ series @ ''/'' @ season @ ''/'' @ f \<and>
       series \<noteq> [] \<and> season \<noteq> [] \<and> f \<noteq> [] \<and> list_all safe_char (series @ season @ f))
     (parse_series_episodes ops env tuner_id series_item info categories limit)"
  proof (rule series_episodes_all)
    let ?sx = "series_context_of ops env tuner_id series_item info categories"
    fix n e i
    assume "episode_item ops ?sx n e = Some i"
    then obtain s k t eid x where x: "xtream_extension (snd e) ''container_extension'' ''mp4'' = Some x"
        and path: "mu_path i = episode_path ?sx s k t eid x"
      by (auto simp: episode_item_def bind_eq_Some_conv Let_def split: if_splits)
    let ?file = "''S'' @ show_02 s @ ''E'' @ show_02 k @ '' - '' @ xtream_path_segment t @ '' ['' @ xtream_path_segment eid @ ''].'' @ x"
    have "sx_tuner_id ?sx = tuner_id" by (simp add: series_context_of_def Let_def)
    then have "mu_path i = xtream_virtual_library_root tuner_id ''series'' @ ''/'' @ xtream_path_segment (sx_series_name ?sx) @ ''/'' @
        (''Season '' @ show_int s) @ ''/'' @ ?file" by (simp add: path episode_path_def)
    moreover have "list_all safe_char (xtream_path_segment (sx_series_name ?sx) @ (''Season '' @ show_int s) @ ?file)"
      using extension_chars [OF x] xtream_path_segment_safe show_int_safe show_02_safe by (simp add: words)
    ultimately show "\<exists>series season f. mu_path i = xtream_virtual_library_root tuner_id ''series'' @ ''/'' @ series @ ''/'' @ season @ ''/'' @ f \<and>
       series \<noteq> [] \<and> season \<noteq> [] \<and> f \<noteq> [] \<and> list_all safe_char (series @ season @ f)"
      using xtream_path_segment_safe [of "sx_series_name ?sx"] by blast
  qed
qed

section \<open>The guide\<close>

lemma slice_ascii: "list_all (\<lambda>c. byte c < 128) s \<Longrightarrow> a \<le> b \<Longrightarrow> b \<le> length s \<Longrightarrow> slice a b s = Inr (take (b - a) (drop a s))"
proof -
  assume "list_all (\<lambda>c. byte c < 128) s" "a \<le> b" "b \<le> length s"
  moreover have "n < length s \<Longrightarrow> list_all (\<lambda>c. byte c < 128) s \<Longrightarrow> \<not> is_cont (s ! n)" for n
    by (auto simp: is_cont_def list_all_length not_le)
  ultimately show ?thesis by (auto simp: slice_def)
qed

lemma split_whitespace_ascii: "list_all P s \<Longrightarrow> list_all (list_all P) (split_whitespace s)"
  by (auto simp: split_whitespace_def list_all_iff dest!: split_ws_from_set)

definition ascii_dates :: "json \<Rightarrow> bool" where
  "ascii_dates listing \<longleftrightarrow> list_all (\<lambda>key. case json_string_field listing key of None \<Rightarrow> True | Some s \<Rightarrow> list_all (\<lambda>c. byte c < 128) s)
     [''start'', ''start_time'', ''end'', ''stop'', ''end_time'']"

lemma format_datetime_ascii:
  assumes "list_all (\<lambda>c. byte c < 128) v"
  shows "\<exists>r. format_datetime env v = Inr r"
proof -
  let ?blanked = "map (\<lambda>c. if c = CHR ''T'' then CHR '' '' else c) (trim v)"
  have "list_all (\<lambda>c. byte c < 128) ?blanked"
    using assms set_trim_subset [of v] by (auto simp: list_all_iff byte_def)
  then have "list_all (list_all (\<lambda>c. byte c < 128)) (take 2 (split_whitespace ?blanked))"
    using split_whitespace_ascii [of "\<lambda>c. byte c < 128" ?blanked] unfolding list_all_iff by (meson in_set_takeD)
  then have "list_all (\<lambda>c. byte c < 128) (join_with '' '' (take 2 (split_whitespace ?blanked)))"
    by (intro join_with_all) (simp_all add: byte_def)
  then show ?thesis by (auto simp: format_datetime_def Let_def slice_ascii)
qed

lemma epg_datetime_ascii:
  "list_all (\<lambda>key. case json_string_field listing key of None \<Rightarrow> True | Some s \<Rightarrow> list_all (\<lambda>c. byte c < 128) s) keys \<Longrightarrow>
   \<exists>r. epg_datetime env listing keys = Inr r"
proof (induction keys)
  case (Cons key keys)
  show ?case
  proof (cases "json_string_field listing key")
    case (Some v)
    with Cons.prems obtain r where "format_datetime env v = Inr r" using format_datetime_ascii by fastforce
    with Cons Some show ?thesis by (cases r) auto
  qed (use Cons in simp)
qed simp

lemma epg_program_ascii: "ascii_dates (snd il) \<Longrightarrow> \<exists>r. epg_program env channel_id il = Inr r"
proof -
  assume "ascii_dates (snd il)"
  then obtain r s where "epg_datetime env (snd il) [''start'', ''start_time''] = Inr r"
      "epg_datetime env (snd il) [''end'', ''stop'', ''end_time''] = Inr s"
    using epg_datetime_ascii [of "snd il" "[''start'', ''start_time'']" env]
      epg_datetime_ascii [of "snd il" "[''end'', ''stop'', ''end_time'']" env] by (auto simp: ascii_dates_def)
  then show ?thesis by (simp add: epg_program_def Let_def)
qed

text \<open>A date whose tenth byte is inside a character passes the tests of the separators and is then sliced there.\<close>

definition no_blank :: "char \<Rightarrow> bool" where
  "no_blank c \<longleftrightarrow> byte c \<notin> {9, 10, 11, 12, 13, 32, 194, 225, 226, 227}"

lemma leading_ws_no_blank: "no_blank c \<Longrightarrow> leading_ws (c # s) = None"
proof -
  assume c: "no_blank c"
  have "hd w \<noteq> c" if "w \<in> set white_space" for w
    using that c by (auto simp: white_space_def no_blank_def)
  moreover have "starts_with w (c # s) \<Longrightarrow> w \<noteq> [] \<Longrightarrow> hd w = c" for w
    by (cases w) (auto simp: starts_with_iff)
  ultimately show ?thesis
    using white_space_nonempty by (fastforce simp: leading_ws_def find_None_iff)
qed

lemma split_ws_no_blank: "list_all no_blank s \<Longrightarrow> acc @ s \<noteq> [] \<Longrightarrow> split_ws_from acc s = [acc @ s]"
  by (induction s arbitrary: acc) (auto simp: leading_ws_no_blank)

definition bad_date :: string where
  "bad_date = ''2024-01-0'' @ [CHR 0xC3, CHR 0xA9] @ ''12:34:5678''"

lemma format_datetime_panics: "\<not> xe_rfc3339_ok env bad_date \<Longrightarrow> format_datetime env bad_date = Inl Inside_A_Character"
proof -
  assume no: "\<not> xe_rfc3339_ok env bad_date"
  have t: "trim bad_date = bad_date" by (rule trim_plain) (simp add: bad_date_def plain_char_def byte_def)
  have b: "map (\<lambda>c. if c = CHR ''T'' then CHR '' '' else c) bad_date = bad_date" by (simp add: bad_date_def)
  have "list_all no_blank bad_date" "bad_date \<noteq> []" by (simp_all add: bad_date_def no_blank_def byte_def)
  then have w: "split_whitespace bad_date = [bad_date]" by (simp add: split_whitespace_def split_ws_no_blank)
  have ps: "19 \<le> length bad_date" "bad_date ! 4 = CHR ''-''" "bad_date ! 7 = CHR ''-''" "bad_date ! 13 = CHR '':''"
      "bad_date ! 16 = CHR '':''" "slice 0 10 bad_date = Inl Inside_A_Character" "bad_date \<noteq> []"
    by (simp_all add: bad_date_def slice_def is_cont_def byte_def)
  have j: "join_with '' '' (take 2 [bad_date]) = bad_date" by simp
  show ?thesis
    unfolding format_datetime_def Let_def t b w j using no ps by simp
qed

text \<open>
  C37. The programme guide of a provider is read without a panic, neither of a slice out of range nor of one inside a
  character, whenever its start and end times are ASCII text of any length, whatever else it holds; at most one programme
  is made of a listing.
\<close>

theorem epg_without_panic:
  assumes "list_all ascii_dates (epg_listings epg)"
  shows "\<exists>programs. parse_epg_programs env channel_id epg = Inr programs \<and> length programs \<le> epg_listing_count epg"
proof -
  have "\<exists>ys. traverse (epg_program env channel_id) ils = Inr ys \<and> length ys = length ils" if "list_all (\<lambda>il. ascii_dates (snd il)) ils" for ils
    using that
  proof (induction ils)
    case (Cons il ils)
    with epg_program_ascii [of il env channel_id] show ?case by auto
  qed simp
  moreover have "list_all (\<lambda>il. ascii_dates (snd il)) (enumerate 0 (epg_listings epg))"
    using assms by (auto simp: list_all_iff in_set_enumerate_eq)
  ultimately obtain ys where ys: "traverse (epg_program env channel_id) (enumerate 0 (epg_listings epg)) = Inr ys"
      "length ys = length (epg_listings epg)" by (metis length_enumerate)
  have "length (List.map_filter id ys) \<le> length ys" by (simp add: map_filter_def)
  moreover have "length (epg_listings epg) = epg_listing_count epg"
    by (simp add: epg_listings_def epg_listing_count_def unwrap_or_def split: option.split)
  ultimately show ?thesis using ys by (simp add: parse_epg_programs_def)
qed

lemma epg_without_panic_witness:
  "\<forall>env channel_id. \<exists>programs. parse_epg_programs env channel_id (JArr [json_obj [(''start'', JStr ''2024-01-01 10:00:00'')]]) = Inr programs \<and>
     length programs \<le> 1"
proof (intro allI)
  fix env channel_id
  let ?l = "json_obj [(''start'', JStr ''2024-01-01 10:00:00'')]"
  have "ascii_dates ?l"
    by (simp add: ascii_dates_def json_string_field_def json_field_case_insensitive_def json_obj_def eq_ignore_case_def
        to_ascii_lowercase_def trim_plain plain_char_def char_eval)
  then have "list_all ascii_dates (epg_listings (JArr [?l]))" by (simp add: epg_listings_def)
  from epg_without_panic [OF this, of env channel_id]
  show "\<exists>programs. parse_epg_programs env channel_id (JArr [?l]) = Inr programs \<and> length programs \<le> 1"
    by (simp add: epg_listing_count_def)
qed

end
