(* ===== verification/Xtream_Sync.thy ===== *)
theory Xtream_Sync
  imports Xtream_Items
begin

text \<open>
  Staging an Xtream catalogue (\<open>crates/jellyrin-xtream-provider/src/lib.rs\<close>, 865--919, 1122--1128, 2571--2604 and
  2645--3143, and the film part of 3259--3312): the incremental reader that hands an array on in chunks, the films chunk by
  chunk, and the series, whose details are fetched by several tasks that end in any order. The answers of
  the provider are inputs, the batches handed to the database are outputs; a failed step aborts the stage.
\<close>

section \<open>Errors and counts\<close>

datatype fetch_error =
    Invalid_Input | Dns | Address_Not_Allowed | Client | Request bool bool | Http nat | Body_Too_Large | Invalid_Json_Body
  | Invalid_Catalog | Too_Many_Items

definition transient_xtream_fetch_error :: "fetch_error \<Rightarrow> bool" where
  "transient_xtream_fetch_error e \<longleftrightarrow>
     (case e of Request _ _ \<Rightarrow> True | Http status \<Rightarrow> status = 429 \<or> (500 \<le> status \<and> status < 600) | _ \<Rightarrow> False)"

definition max_library_items :: nat where "max_library_items = 1000000"
definition max_append_items :: nat where "max_append_items = 1000"
definition max_series_requests :: nat where "max_series_requests = 100000"
definition array_chunk_items :: nat where "array_chunk_items = 500"

record movie_counts =
  mc_received :: nat
  mc_selected :: nat
  mc_staged :: nat
  mc_published :: nat

record series_counts =
  sc_received :: nat
  sc_selected :: nat
  sc_skipped :: nat
  sc_deduplicated :: nat

record episode_counts =
  ec_selected :: nat
  ec_staged :: nat
  ec_published :: nat

record sync_counts =
  ct_movies :: movie_counts
  ct_series :: series_counts
  ct_episodes :: episode_counts

definition mark_published :: "sync_counts \<Rightarrow> sync_counts" where
  "mark_published c =
     c\<lparr> ct_movies := (ct_movies c)\<lparr> mc_published := mc_staged (ct_movies c) \<rparr>,
        ct_episodes := (ct_episodes c)\<lparr> ec_published := ec_staged (ct_episodes c) \<rparr> \<rparr>"

definition saturating_add_assign :: "sync_counts \<Rightarrow> sync_counts \<Rightarrow> sync_counts" where
  "saturating_add_assign a b =
     (let add = (\<lambda>f g. sat_add usize_max (f (g a)) (f (g b)))
      in \<lparr> ct_movies = \<lparr> mc_received = add mc_received ct_movies, mc_selected = add mc_selected ct_movies,
             mc_staged = add mc_staged ct_movies, mc_published = add mc_published ct_movies \<rparr>,
           ct_series = \<lparr> sc_received = sat_add usize_max (sc_received (ct_series a)) (sc_received (ct_series b)),
             sc_selected = sat_add usize_max (sc_selected (ct_series a)) (sc_selected (ct_series b)),
             sc_skipped = sat_add usize_max (sc_skipped (ct_series a)) (sc_skipped (ct_series b)),
             sc_deduplicated = sat_add usize_max (sc_deduplicated (ct_series a)) (sc_deduplicated (ct_series b)) \<rparr>,
           ct_episodes = \<lparr> ec_selected = sat_add usize_max (ec_selected (ct_episodes a)) (ec_selected (ct_episodes b)),
             ec_staged = sat_add usize_max (ec_staged (ct_episodes a)) (ec_staged (ct_episodes b)),
             ec_published = sat_add usize_max (ec_published (ct_episodes a)) (ec_published (ct_episodes b)) \<rparr> \<rparr>)"

definition resumed_xtream_media_sync_counts :: "nat \<Rightarrow> nat \<Rightarrow> sync_counts" where
  "resumed_xtream_media_sync_counts movie_count series_item_count =
     \<lparr> ct_movies = \<lparr> mc_received = movie_count, mc_selected = movie_count, mc_staged = movie_count, mc_published = 0 \<rparr>,
       ct_series = \<lparr> sc_received = 0, sc_selected = 0, sc_skipped = 0, sc_deduplicated = 0 \<rparr>,
       ct_episodes = \<lparr> ec_selected = series_item_count, ec_staged = series_item_count, ec_published = 0 \<rparr> \<rparr>"

record library_spec =
  ls_key :: string
  ls_library_name :: string
  ls_collection_type :: string
  ls_source_location :: string

definition xtream_media_library_specs :: "string \<Rightarrow> library_spec list" where
  "xtream_media_library_specs tuner_id =
     (let primary = primary_tuner tuner_id; scope = xtream_path_segment tuner_id
      in [\<lparr> ls_key = ''movies'', ls_library_name = (if primary then ''Xtream Movies'' else ''Xtream Movies ('' @ tuner_id @ '')''),
            ls_collection_type = ''movies'',
            ls_source_location = (if primary then ''xtream://movies'' else ''xtream://'' @ scope @ ''/movies'') \<rparr>,
          \<lparr> ls_key = ''series'', ls_library_name = (if primary then ''Xtream Series'' else ''Xtream Series ('' @ tuner_id @ '')''),
            ls_collection_type = ''tvshows'',
            ls_source_location = (if primary then ''xtream://series'' else ''xtream://'' @ scope @ ''/series'') \<rparr>])"

section \<open>Reading an array in chunks\<close>

text \<open>
  The elements as the parser yields them, \<open>None\<close> being a parse error. The answer holds the chunks handed on, and the
  number of elements or the error.
\<close>

fun visit_seq :: "nat \<Rightarrow> nat \<Rightarrow> 'a list \<Rightarrow> 'a option list \<Rightarrow> 'a list list \<times> (fetch_error + nat)" where
  "visit_seq maximum inspected chunk [] = (if chunk \<noteq> [] then [chunk] else [], Inr inspected)"
| "visit_seq maximum inspected chunk (None # vs) = ([], Inl Invalid_Json_Body)"
| "visit_seq maximum inspected chunk (Some v # vs) =
     (if maximum < sat_add usize_max inspected 1 then ([], Inl Too_Many_Items)
      else if length (chunk @ [v]) = array_chunk_items
           then (case visit_seq maximum (sat_add usize_max inspected 1) [] vs of (chunks, r) \<Rightarrow> ((chunk @ [v]) # chunks, r))
           else visit_seq maximum (sat_add usize_max inspected 1) (chunk @ [v]) vs)"

text \<open>\<open>end_ok\<close> says that nothing but blanks follows the array.\<close>

definition parse_xtream_array_reader :: "nat \<Rightarrow> 'a option list \<Rightarrow> bool \<Rightarrow> 'a list list \<times> (fetch_error + nat)" where
  "parse_xtream_array_reader maximum elements end_ok =
     (case visit_seq maximum 0 [] elements of
        (chunks, Inr n) \<Rightarrow> (chunks, if end_ok then Inr n else Inl Invalid_Json_Body)
      | failed \<Rightarrow> failed)"

section \<open>Staging\<close>

record 'u provider =
  pv_ops :: "'u url_ops"
  pv_env :: xtream_env
  pv_base :: 'u
  pv_username :: string
  pv_password :: string
  pv_tuner_id :: string
  pv_categories :: "json list"

fun chunks_of :: "nat \<Rightarrow> 'a list \<Rightarrow> 'a list list" where
  "chunks_of n xs = (if xs = [] \<or> n = 0 then [] else take n xs # chunks_of n (drop n xs))"

text \<open>The calls to the database for one list of items, and the number of items.\<close>

definition append_staged_media_items :: "media_upsert list \<Rightarrow> media_upsert list list \<times> nat" where
  "append_staged_media_items items = (chunks_of max_append_items items, length items)"

definition valid_xtream_movie_source :: "'u provider \<Rightarrow> json \<Rightarrow> bool" where
  "valid_xtream_movie_source pv stream =
     (case xtream_extension stream ''container_extension'' ''mp4'' of
        None \<Rightarrow> False
      | Some extension \<Rightarrow>
          direct_source_matches_reconstructed (pv_ops pv) stream
            (Option.bind (text_or_number_field stream ''stream_id'')
              (\<lambda>i. movie_url (pv_ops pv) (pv_base pv) (pv_username pv) (pv_password pv) i extension)))"

definition valid_xtream_series_episode_source :: "'u provider \<Rightarrow> json \<Rightarrow> bool" where
  "valid_xtream_series_episode_source pv episode =
     (case xtream_extension episode ''container_extension'' ''mp4'' of
        None \<Rightarrow> False
      | Some extension \<Rightarrow>
          (let reconstructed = Option.bind (text_or_number_field episode ''id'')
                 (\<lambda>i. series_url (pv_ops pv) (pv_base pv) (pv_username pv) (pv_password pv) i extension)
           in direct_source_matches_reconstructed (pv_ops pv) episode reconstructed \<and>
              direct_source_matches_reconstructed (pv_ops pv) (unwrap_or episode (jget ''info'' episode)) reconstructed))"

subsection \<open>Films\<close>

definition stage_movie_chunk ::
  "'u provider \<Rightarrow> category_selection \<Rightarrow> nat option \<Rightarrow> movie_counts \<Rightarrow> json list \<Rightarrow> fetch_error + movie_counts \<times> media_upsert list list" where
  "stage_movie_chunk pv selection movie_limit counts chunk =
     (let chunk = filter (\<lambda>s. selection_allows selection (item_category_id s)) chunk;
          chunk = (case movie_limit of Some l \<Rightarrow> take (l - mc_selected counts) chunk | None \<Rightarrow> chunk)
      in if chunk = [] then Inr (counts, [])
         else
           let counts = counts\<lparr> mc_selected := sat_add usize_max (mc_selected counts) (length chunk) \<rparr>
           in if \<not> list_all (valid_xtream_movie_source pv) chunk then Inl Invalid_Catalog
              else let items = parse_vod_streams (pv_ops pv) (pv_env pv) (pv_tuner_id pv) chunk (pv_categories pv)
                   in if length items \<noteq> length chunk \<or> \<not> unique_remote_media_catalog items then Inl Invalid_Catalog
                      else case append_staged_media_items items of (calls, n) \<Rightarrow>
                        Inr (counts\<lparr> mc_staged := sat_add usize_max (mc_staged counts) n \<rparr>, calls))"

fun stage_movie_chunks ::
  "'u provider \<Rightarrow> category_selection \<Rightarrow> nat option \<Rightarrow> movie_counts \<Rightarrow> json list list \<Rightarrow> fetch_error + movie_counts \<times> media_upsert list list" where
  "stage_movie_chunks pv selection movie_limit counts [] = Inr (counts, [])"
| "stage_movie_chunks pv selection movie_limit counts (chunk # chunks) =
     and_then (stage_movie_chunk pv selection movie_limit counts chunk) (\<lambda>(counts, calls).
     and_then (stage_movie_chunks pv selection movie_limit counts chunks) (\<lambda>(counts, more_calls).
       Inr (counts, calls @ more_calls)))"

text \<open>The chunks are staged as they come, and the reader's verdict is asked at the end.\<close>

definition stage_movies ::
  "'u provider \<Rightarrow> category_selection \<Rightarrow> nat option \<Rightarrow> json option list \<Rightarrow> bool \<Rightarrow> fetch_error + movie_counts \<times> media_upsert list list" where
  "stage_movies pv selection movie_limit elements end_ok =
     (case parse_xtream_array_reader max_library_items elements end_ok of (chunks, verdict) \<Rightarrow>
        and_then (stage_movie_chunks pv selection movie_limit
            \<lparr> mc_received = 0, mc_selected = 0, mc_staged = 0, mc_published = 0 \<rparr> chunks) (\<lambda>(counts, calls).
        and_then verdict (\<lambda>received. Inr (counts\<lparr> mc_received := received \<rparr>, calls))))"

subsection \<open>Series\<close>

record series_progress =
  sp_received :: nat
  sp_selected :: nat
  sp_selected_episodes :: nat
  sp_prepared :: nat
  sp_staged :: nat
  sp_series_ids :: "string set"
  sp_item_ids :: "string set"
  sp_item_paths :: "string set"
  sp_skipped :: nat
  sp_deduplicated :: nat
  sp_pending_items :: "media_upsert list"

definition new_series_progress :: series_progress where
  "new_series_progress =
     \<lparr> sp_received = 0, sp_selected = 0, sp_selected_episodes = 0, sp_prepared = 0, sp_staged = 0, sp_series_ids = {},
       sp_item_ids = {}, sp_item_paths = {}, sp_skipped = 0, sp_deduplicated = 0, sp_pending_items = [] \<rparr>"

record series_options =
  so_selection :: category_selection
  so_expected :: "string option"
  so_series_limit :: "nat option"
  so_episode_limit :: nat
  so_concurrency :: nat

definition count_skipped :: "series_progress \<Rightarrow> series_progress" where
  "count_skipped p = p\<lparr> sp_skipped := sat_add usize_max (sp_skipped p) 1 \<rparr>"

text \<open>The tests on one series of the catalogue; \<open>Some\<close> is the id whose details are to be fetched.\<close>

definition select_series :: "series_options \<Rightarrow> series_progress \<Rightarrow> json \<Rightarrow> fetch_error + series_progress \<times> string option" where
  "select_series so p series_item =
     (let p = p\<lparr> sp_received := sat_add usize_max (sp_received p) 1 \<rparr>;
          category_id = item_category_id series_item
      in if is_some_and (\<lambda>expected. category_id \<noteq> Some expected) (so_expected so) then Inl Invalid_Catalog
         else if \<not> selection_allows (so_selection so) category_id then Inr (p, None)
         else if is_some_and (\<lambda>l. l \<le> sp_selected p) (so_series_limit so) then Inr (p, None)
         else if max_series_requests \<le> sp_selected p then Inl Too_Many_Items
         else case text_or_number_field series_item ''series_id'' of
             None \<Rightarrow> Inr (count_skipped p, None)
           | Some series_id \<Rightarrow>
               if \<not> valid_xtream_identifier series_id then Inr (count_skipped p, None)
               else if series_id \<in> sp_series_ids p
                    then Inr (p\<lparr> sp_deduplicated := sat_add usize_max (sp_deduplicated p) 1 \<rparr>, None)
                    else Inr (p\<lparr> sp_series_ids := insert series_id (sp_series_ids p),
                                 sp_selected := sat_add usize_max (sp_selected p) 1 \<rparr>, Some series_id))"

text \<open>The batch sent to the writer, if any.\<close>

definition flush_series_items :: "series_progress \<Rightarrow> series_progress \<times> media_upsert list list" where
  "flush_series_items p =
     (if sp_pending_items p = [] then (p, []) else (p\<lparr> sp_pending_items := [] \<rparr>, [sp_pending_items p]))"

definition tolerated_detail_error :: "fetch_error \<Rightarrow> bool" where
  "tolerated_detail_error e \<longleftrightarrow> e = Invalid_Catalog \<or> e = Too_Many_Items \<or> e = Http 404"

definition append_fetched_xtream_series ::
  "'u provider \<Rightarrow> series_options \<Rightarrow> json \<Rightarrow> fetch_error + json \<Rightarrow> series_progress \<Rightarrow>
     fetch_error + series_progress \<times> media_upsert list list" where
  "append_fetched_xtream_series pv so series_item fetched p =
     (case fetched of
        Inl e \<Rightarrow> if tolerated_detail_error e then Inr (count_skipped p, []) else Inl e
      | Inr info \<Rightarrow>
          let selected = min (series_episode_count info) (so_episode_limit so);
              p = p\<lparr> sp_selected_episodes := sat_add usize_max (sp_selected_episodes p) selected \<rparr>
          in if max_library_items < sat_add usize_max (sp_prepared p) selected then Inl Too_Many_Items
             else if \<not> valid_series_episode_prefix info selected \<or>
                  \<not> list_all (\<lambda>e. valid_xtream_series_episode_source pv (snd e)) (take selected (xtream_episode_values info))
             then Inr (count_skipped p, [])
             else
               let items = parse_series_episodes (pv_ops pv) (pv_env pv) (pv_tuner_id pv) series_item info (pv_categories pv) (Some selected)
               in if length items \<noteq> selected \<or> \<not> unique_remote_media_catalog items \<or>
                     list_ex (\<lambda>i. mu_id i \<in> sp_item_ids p \<or> mu_path i \<in> sp_item_paths p) items
                  then Inr (count_skipped p, [])
                  else
                    let p = p\<lparr> sp_item_ids := sp_item_ids p \<union> set (map mu_id items),
                               sp_item_paths := sp_item_paths p \<union> set (map mu_path items),
                               sp_prepared := sat_add usize_max (sp_prepared p) (length items),
                               sp_pending_items := sp_pending_items p @ items \<rparr>
                    in if max_append_items \<le> length (sp_pending_items p) then Inr (flush_series_items p) else Inr (p, []))"

text \<open>
  The producer: its progress, the series whose details are being fetched, in the order of their start, and the batches
  sent. Before a fetch starts with all slots taken, the fetch that ends first is absorbed, whichever it is. The expected category is that of the chunk the item came in.
  In the code the last two steps come after the last item; here they may come earlier too.
\<close>

record producer =
  pr_progress :: series_progress
  pr_in_flight :: "json list"
  pr_sent :: "media_upsert list list"

inductive producer_step :: "'u provider \<Rightarrow> series_options \<Rightarrow> producer \<Rightarrow> producer \<Rightarrow> bool" for pv so where
  ignored: "select_series (so\<lparr> so_expected := expected \<rparr>) (pr_progress s) item = Inr (p, None) \<Longrightarrow>
    producer_step pv so s (s\<lparr> pr_progress := p \<rparr>)"
| started: "select_series (so\<lparr> so_expected := expected \<rparr>) (pr_progress s) item = Inr (p, Some series_id) \<Longrightarrow> length (pr_in_flight s) < so_concurrency so \<Longrightarrow>
    producer_step pv so s (s\<lparr> pr_progress := p, pr_in_flight := pr_in_flight s @ [item] \<rparr>)"
| replaced: "select_series (so\<lparr> so_expected := expected \<rparr>) (pr_progress s) item = Inr (p, Some series_id) \<Longrightarrow> so_concurrency so \<le> length (pr_in_flight s) \<Longrightarrow>
    pr_in_flight s = before @ ended # after \<Longrightarrow> append_fetched_xtream_series pv so ended fetched p = Inr (p', batch) \<Longrightarrow>
    producer_step pv so s \<lparr> pr_progress = p', pr_in_flight = before @ after @ [item], pr_sent = pr_sent s @ batch \<rparr>"
| finishing: "pr_in_flight s = before @ ended # after \<Longrightarrow>
    append_fetched_xtream_series pv so ended fetched (pr_progress s) = Inr (p', batch) \<Longrightarrow>
    producer_step pv so s \<lparr> pr_progress = p', pr_in_flight = before @ after, pr_sent = pr_sent s @ batch \<rparr>"
| flushed: "pr_in_flight s = [] \<Longrightarrow> flush_series_items (pr_progress s) = (p', batch) \<Longrightarrow>
    producer_step pv so s (s\<lparr> pr_progress := p', pr_sent := pr_sent s @ batch \<rparr>)"

inductive producer_reach :: "'u provider \<Rightarrow> series_options \<Rightarrow> producer \<Rightarrow> bool" for pv so where
  begun: "producer_reach pv so \<lparr> pr_progress = new_series_progress, pr_in_flight = [], pr_sent = [] \<rparr>"
| step: "producer_reach pv so s \<Longrightarrow> producer_step pv so s t \<Longrightarrow> producer_reach pv so t"

text \<open>\<open>write_xtream_series_stage_items\<close>: every batch is appended, and the items are counted.\<close>

definition write_series_items :: "media_upsert list list \<Rightarrow> media_upsert list list \<times> nat" where
  "write_series_items batches =
     foldl (\<lambda>(calls, n) items. case append_staged_media_items items of (c, k) \<Rightarrow> (calls @ c, sat_add usize_max n k)) ([], 0) batches"

section \<open>Chunks are transparent\<close>

declare chunks_of.simps [simp del]

lemma chunks_of_spec: "0 < n \<Longrightarrow> concat (chunks_of n xs) = xs \<and> list_all (\<lambda>c. c \<noteq> [] \<and> length c \<le> n) (chunks_of n xs)"
proof (induction n xs rule: chunks_of.induct)
  case (1 n xs)
  then show ?case by (subst (1 2) chunks_of.simps) auto
qed

lemma appended_items: "append_staged_media_items items = (calls, n) \<Longrightarrow>
    concat calls = items \<and> n = length items \<and> list_all (\<lambda>c. c \<noteq> [] \<and> length c \<le> max_append_items) calls"
  using chunks_of_spec [of max_append_items items] by (auto simp: append_staged_media_items_def max_append_items_def)

lemma visit_seq_spec:
  "visit_seq maximum inspected chunk elements = (chunks, Inr n) \<Longrightarrow> maximum < usize_max \<Longrightarrow> inspected \<le> maximum \<Longrightarrow>
   \<exists>vs. elements = map Some vs \<and> concat chunks = chunk @ vs \<and> n = inspected + length vs \<and> n \<le> maximum"
proof (induction maximum inspected chunk elements arbitrary: chunks rule: visit_seq.induct)
  case (3 maximum inspected chunk v vs)
  from "3.prems" have i: "sat_add usize_max inspected 1 = inspected + 1" by (simp add: sat_add_exact)
  show ?case
  proof (cases "length (chunk @ [v]) = array_chunk_items")
    case True
    with "3.prems"(1) i obtain chunks' where c: "visit_seq maximum (inspected + 1) [] vs = (chunks', Inr n)" "chunks = (chunk @ [v]) # chunks'"
        "inspected + 1 \<le> maximum"
      by (auto split: if_splits prod.splits)
    with "3.IH"(1) [of chunks'] True "3.prems"(2) i obtain ws where "vs = map Some ws" "concat chunks' = ws" "n = inspected + 1 + length ws" "n \<le> maximum"
      by auto
    with c show ?thesis by (intro exI [of _ "v # ws"]) auto
  next
    case False
    with "3.prems"(1) i have c: "visit_seq maximum (inspected + 1) (chunk @ [v]) vs = (chunks, Inr n)" "inspected + 1 \<le> maximum"
      by (auto split: if_splits)
    with "3.IH"(2) [of chunks] False "3.prems"(2) i obtain ws where "vs = map Some ws" "concat chunks = chunk @ [v] @ ws" "n = inspected + 1 + length ws" "n \<le> maximum"
      by auto
    then show ?thesis by (intro exI [of _ "v # ws"]) auto
  qed
qed (auto split: if_splits)

definition at_most :: "nat option \<Rightarrow> 'a list \<Rightarrow> 'a list" where
  "at_most limit xs = (case limit of Some l \<Rightarrow> take l xs | None \<Rightarrow> xs)"

lemma length_at_most_filter: "length (at_most limit (filter P xs)) \<le> length xs"
proof -
  have "length (at_most limit (filter P xs)) \<le> length (filter P xs)" by (simp add: at_most_def split: option.split)
  also have "\<dots> \<le> length xs" by (rule length_filter_le)
  finally show ?thesis .
qed

lemma parse_vod_append: "parse_vod_streams ops env t (xs @ ys) cats = parse_vod_streams ops env t xs cats @ parse_vod_streams ops env t ys cats"
  by (simp add: parse_vod_streams_def map_filter_def)

lemma stage_movie_chunk_spec:
  assumes "stage_movie_chunk pv sel lim counts chunk = Inr (counts', calls)" "mc_selected counts + length chunk \<le> usize_max"
    and "mc_staged counts + length chunk \<le> usize_max"
  defines "kept \<equiv> at_most (map_option (\<lambda>l. l - mc_selected counts) lim) (filter (\<lambda>s. selection_allows sel (item_category_id s)) chunk)"
  shows "concat calls = parse_vod_streams (pv_ops pv) (pv_env pv) (pv_tuner_id pv) kept (pv_categories pv) \<and>
    length (concat calls) = length kept \<and> mc_selected counts' = mc_selected counts + length kept \<and>
    mc_staged counts' = mc_staged counts + length kept \<and> list_all (\<lambda>c. c \<noteq> [] \<and> length c \<le> max_append_items) calls"
proof -
  have kept: "(case lim of Some l \<Rightarrow> take (l - mc_selected counts) (filter (\<lambda>s. selection_allows sel (item_category_id s)) chunk)
      | None \<Rightarrow> filter (\<lambda>s. selection_allows sel (item_category_id s)) chunk) = kept"
    by (simp add: kept_def at_most_def split: option.split)
  have "length kept \<le> length chunk"
    by (simp add: kept_def length_at_most_filter)
  then have exact: "sat_add usize_max (mc_selected counts) (length kept) = mc_selected counts + length kept"
      "sat_add usize_max (mc_staged counts) (length kept) = mc_staged counts + length kept"
    using assms(2,3) by (simp_all add: sat_add_exact)
  show ?thesis
  proof (cases "kept = []")
    case True
    with assms(1) show ?thesis by (auto simp: stage_movie_chunk_def kept parse_vod_streams_def map_filter_def)
  next
    case False
    let ?items = "parse_vod_streams (pv_ops pv) (pv_env pv) (pv_tuner_id pv) kept (pv_categories pv)"
    obtain c n where call: "append_staged_media_items ?items = (c, n)" by fastforce
    from False assms(1) have len: "length ?items = length kept" and r: "calls = c"
        "counts' = counts\<lparr> mc_selected := sat_add usize_max (mc_selected counts) (length kept), mc_staged := sat_add usize_max (mc_staged counts) n \<rparr>"
      unfolding stage_movie_chunk_def kept Let_def call by (auto split: if_splits)
    from appended_items [OF call] len r exact show ?thesis by simp
  qed
qed

lemma at_most_append:
  "at_most (map_option (\<lambda>l. l - s) lim) (xs @ ys) =
   at_most (map_option (\<lambda>l. l - s) lim) xs @ at_most (map_option (\<lambda>l. l - (s + length (at_most (map_option (\<lambda>l. l - s) lim) xs))) lim) ys"
  by (cases lim) (auto simp: at_most_def min_def)

lemma stage_movie_chunks_spec:
  "stage_movie_chunks pv sel lim counts chunks = Inr (counts', calls) \<Longrightarrow>
   mc_selected counts + length (concat chunks) \<le> usize_max \<Longrightarrow> mc_staged counts + length (concat chunks) \<le> usize_max \<Longrightarrow>
   (let kept = at_most (map_option (\<lambda>l. l - mc_selected counts) lim)
      (filter (\<lambda>s. selection_allows sel (item_category_id s)) (concat chunks))
    in concat calls = parse_vod_streams (pv_ops pv) (pv_env pv) (pv_tuner_id pv) kept (pv_categories pv) \<and>
       length (concat calls) = length kept \<and> mc_selected counts' = mc_selected counts + length kept \<and>
       mc_staged counts' = mc_staged counts + length kept \<and> list_all (\<lambda>c. c \<noteq> [] \<and> length c \<le> max_append_items) calls)"
proof (induction chunks arbitrary: counts counts' calls)
  case Nil
  then show ?case by (auto simp: at_most_def parse_vod_streams_def map_filter_def split: option.split)
next
  case (Cons chunk chunks)
  let ?allow = "filter (\<lambda>s. selection_allows sel (item_category_id s))"
  let ?first = "at_most (map_option (\<lambda>l. l - mc_selected counts) lim) (?allow chunk)"
  from Cons.prems(1) obtain counts1 calls1 calls2 where first: "stage_movie_chunk pv sel lim counts chunk = Inr (counts1, calls1)"
      and rest: "stage_movie_chunks pv sel lim counts1 chunks = Inr (counts', calls2)" and calls: "calls = calls1 @ calls2"
    by (auto simp: result_iffs)
  have "length ?first \<le> length chunk"
    by (rule length_at_most_filter)
  with stage_movie_chunk_spec [OF first] Cons.prems(2,3)
  have one: "concat calls1 = parse_vod_streams (pv_ops pv) (pv_env pv) (pv_tuner_id pv) ?first (pv_categories pv)"
      "length (concat calls1) = length ?first" "mc_selected counts1 = mc_selected counts + length ?first"
      "mc_staged counts1 = mc_staged counts + length ?first" "list_all (\<lambda>c. c \<noteq> [] \<and> length c \<le> max_append_items) calls1"
      "length ?first \<le> length chunk"
    by auto
  then have "mc_selected counts1 + length (concat chunks) \<le> usize_max" "mc_staged counts1 + length (concat chunks) \<le> usize_max"
    using Cons.prems(2,3) by auto
  note two = Cons.IH [OF rest this, unfolded Let_def]
  then have "length (concat calls2) = length (at_most (map_option (\<lambda>l. l - mc_selected counts1) lim) (?allow (concat chunks)))" by blast
  with two one(2) have "length (concat calls) = length ?first + length (at_most (map_option (\<lambda>l. l - mc_selected counts1) lim) (?allow (concat chunks)))"
    by (simp add: calls)
  moreover have split: "at_most (map_option (\<lambda>l. l - mc_selected counts) lim) (?allow (concat (chunk # chunks))) =
      ?first @ at_most (map_option (\<lambda>l. l - mc_selected counts1) lim) (?allow (concat chunks))"
    by (simp add: at_most_append one(3))
  ultimately show ?case
    using two one unfolding Let_def split by (simp add: calls parse_vod_append)
qed

subsection \<open>An example\<close>

definition example_provider :: "string provider" where
  "example_provider =
     \<lparr> pv_ops = example_url_ops,
       pv_env = \<lparr> xe_json_text = (\<lambda>_. []), xe_number_f64 = (\<lambda>_. 0), xe_parse_f64 = (\<lambda>_. None), xe_base64 = (\<lambda>_. None),
         xe_rfc3339_ok = (\<lambda>_. False), xe_format_unix = (\<lambda>_. None) \<rparr>,
       pv_base = ''http://h'', pv_username = ''u'', pv_password = ''p'', pv_tuner_id = ''t'', pv_categories = [] \<rparr>"

definition example_film :: "nat \<Rightarrow> json" where
  "example_film i = json_obj [(''stream_id'', json_nat i)]"

lemma example_film_fields:
  "json_string_field (example_film i) k = None"
  "jget k (example_film i) = (if k = ''stream_id'' then Some (json_nat i) else None)"
  "json_field_case_insensitive (example_film i) ''direct_source'' = None"
  by (simp_all add: example_film_def json_obj_def json_string_field_def json_field_case_insensitive_def json_nat_def jget_def
      eq_ignore_case_def to_ascii_lowercase_def char_eval)

lemma example_film_kept:
  "text_or_number_field (example_film i) ''stream_id'' = Some (show_nat i)" "item_category_id (example_film i) = None"
  "xtream_extension (example_film i) ''container_extension'' ''mp4'' = Some ''mp4''"
  by (simp_all add: example_film_fields text_or_number_field_def item_category_id_def live_tv_u64_field_def json_nat_def xtream_extension_def
      sanitized_xtream_extension_def trim_plain plain_char_def char_eval strip_prefix_def xtream_extensions_def to_ascii_lowercase_def opt_or_def starts_with_def)

lemma example_film_source: "valid_xtream_movie_source example_provider (example_film i)"
  by (simp add: valid_xtream_movie_source_def example_film_kept example_film_fields direct_source_matches_reconstructed_def)

lemma trim_not_empty: "s = c # r \<Longrightarrow> plain_char c \<Longrightarrow> trim s \<noteq> []"
  using trim_plain_hd [of c r] by auto

lemma stable_entity_id_not_blank: "trim (stable_entity_id t n) \<noteq> []"
proof -
  have shape: "length (stable_entity_id t n) = 32" "list_all hex_digit (stable_entity_id t n)"
    using stable_entity_id_shape by simp_all
  then obtain c r where s: "stable_entity_id t n = c # r" "hex_digit c" by (cases "stable_entity_id t n") auto
  then have "plain_char c" by (auto simp: hex_digit_def plain_char_def byte_in_def char_eval)
  with s(1) show ?thesis by (rule trim_not_empty)
qed

lemma example_film_item:
  "\<exists>i. parse_vod_streams (pv_ops example_provider) (pv_env example_provider) (pv_tuner_id example_provider) [example_film 7]
       (pv_categories example_provider) = [i] \<and> unique_remote_media_catalog [i]"
proof -
  have "valid_xtream_identifier (show_nat 7)" by (simp add: valid_xtream_identifier_def has_control.simps show_nat.simps char_eval)
  moreover have "\<exists>r. source_ref_new ''t'' ''vod'' (show_nat 7) ''mp4'' = Some r"
    using calculation by (simp add: source_ref_new_def trim_plain plain_char_def char_eval sanitized_xtream_extension_def strip_prefix_def
      starts_with_def xtream_extensions_def to_ascii_lowercase_def source_kinds_def del: show_nat.simps)
  moreover have "trim (xtream_virtual_library_root ''t'' ''movies'' @ s) \<noteq> []" for s
    using trim_not_empty [of _ "CHR ''x''"] by (simp add: xtream_virtual_library_root_def plain_char_def char_eval)
  ultimately show ?thesis
    by (auto simp: parse_vod_streams_def map_filter_def vod_item_def example_film_kept example_film_fields example_provider_def example_url_ops_def
      unique_remote_media_catalog_def Let_def stable_entity_id_not_blank simp del: show_nat.simps)
qed

subsection \<open>The films\<close>

text \<open>
  C21. When the film part of a synchronisation succeeds, the films are staged whole and the chunks of the answer do not show: every
  element of the array was read, and the items handed to the database are those of the allowed films, in
  their order and up to the configured limit, in calls of 1 to 1000 items, and are counted exactly. (Whether it succeeds can depend on the
  chunks: a film repeated within one chunk is refused, one repeated in two chunks is not.)
\<close>

theorem stage_movies_transparent:
  assumes "stage_movies pv sel lim elements end_ok = Inr (counts, calls)"
  shows "\<exists>films. elements = map Some films \<and>
    (let kept = at_most lim (filter (\<lambda>s. selection_allows sel (item_category_id s)) films)
     in concat calls = parse_vod_streams (pv_ops pv) (pv_env pv) (pv_tuner_id pv) kept (pv_categories pv) \<and>
        mc_received counts = length films \<and> mc_selected counts = length kept \<and> mc_staged counts = length (concat calls) \<and>
        list_all (\<lambda>c. c \<noteq> [] \<and> length c \<le> max_append_items) calls)"
proof -
  from assms obtain chunks n counts1 where visit: "visit_seq max_library_items 0 [] elements = (chunks, Inr n)"
      and stage: "stage_movie_chunks pv sel lim \<lparr> mc_received = 0, mc_selected = 0, mc_staged = 0, mc_published = 0 \<rparr> chunks = Inr (counts1, calls)"
      and counts: "counts = counts1\<lparr> mc_received := n \<rparr>"
    by (auto simp: stage_movies_def parse_xtream_array_reader_def result_iffs split: prod.splits sum.splits if_splits)
  have "max_library_items < usize_max" by (simp add: max_library_items_def)
  with visit_seq_spec [OF visit this] obtain films where films: "elements = map Some films" "concat chunks = films" "n = length films"
      "n \<le> max_library_items"
    by auto
  then have "length (concat chunks) \<le> usize_max" using \<open>max_library_items < usize_max\<close> by simp
  with stage_movie_chunks_spec [OF stage] films counts show ?thesis
    by (auto simp: Let_def option.map_comp comp_def option.map_ident)
qed

lemma stage_movies_transparent_witness:
  "\<exists>counts calls. stage_movies example_provider \<lparr> sel_include = {}, sel_exclude = {} \<rparr> (Some 1) [Some (example_film 7), Some (example_film 8)] True =
     Inr (counts, calls) \<and> mc_received counts = 2 \<and> mc_selected counts = 1"
proof -
  obtain i where item: "parse_vod_streams (pv_ops example_provider) (pv_env example_provider) (pv_tuner_id example_provider) [example_film 7]
       (pv_categories example_provider) = [i]" "unique_remote_media_catalog [i]"
    using example_film_item by blast
  then have "\<exists>counts calls. stage_movies example_provider \<lparr> sel_include = {}, sel_exclude = {} \<rparr> (Some 1) [Some (example_film 7), Some (example_film 8)] True =
      Inr (counts, calls)"
    by (simp add: stage_movies_def parse_xtream_array_reader_def array_chunk_items_def max_library_items_def sat_add_def stage_movie_chunk_def
      selection_allows_def Let_def example_film_kept example_film_source append_staged_media_items_def)
  then obtain counts calls where run: "stage_movies example_provider \<lparr> sel_include = {}, sel_exclude = {} \<rparr> (Some 1)
      [Some (example_film 7), Some (example_film 8)] True = Inr (counts, calls)" by blast
  from stage_movies_transparent [OF run]
  have "mc_received counts = 2 \<and> mc_selected counts = 1" 
    by (auto simp: Let_def at_most_def selection_allows_def Cons_eq_map_conv example_film_kept)
  with run show ?thesis by blast
qed

section \<open>The staged series\<close>

definition staged_items :: "producer \<Rightarrow> media_upsert list" where
  "staged_items s = concat (pr_sent s) @ sp_pending_items (pr_progress s)"

definition items_ok :: "media_upsert list \<Rightarrow> series_progress \<Rightarrow> bool" where
  "items_ok items p \<longleftrightarrow>
     distinct (map mu_id items) \<and> set (map mu_id items) = sp_item_ids p \<and>
     distinct (map mu_path items) \<and> set (map mu_path items) = sp_item_paths p \<and>
     length items = sp_prepared p \<and> sp_prepared p \<le> max_library_items \<and> length (sp_pending_items p) < max_append_items"

definition series_ok :: "series_options \<Rightarrow> series_progress \<Rightarrow> bool" where
  "series_ok so p \<longleftrightarrow>
     finite (sp_series_ids p) \<and> card (sp_series_ids p) = sp_selected p \<and> sp_selected p \<le> max_series_requests \<and>
     pred_option (\<lambda>l. sp_selected p \<le> l) (so_series_limit so)"

lemma sat_add_small: "a + b \<le> max_library_items \<Longrightarrow> sat_add usize_max a b = a + b"
  by (simp add: sat_add_exact max_library_items_def)

definition same_items :: "series_progress \<Rightarrow> series_progress \<Rightarrow> bool" where
  "same_items p p' \<longleftrightarrow> sp_pending_items p' = sp_pending_items p \<and> sp_item_ids p' = sp_item_ids p \<and>
     sp_item_paths p' = sp_item_paths p \<and> sp_prepared p' = sp_prepared p"

lemma same_items_ok: "same_items p p' \<Longrightarrow> items_ok items p' = items_ok items p"
  by (simp add: same_items_def items_ok_def)

lemma series_limit_not_reached: "\<not> is_some_and (\<lambda>l. l \<le> n) limit \<Longrightarrow> pred_option (\<lambda>l. Suc n \<le> l) limit"
  by (cases limit) auto

lemma select_series_cases:
  assumes "select_series so p item = Inr (p', r)"
  shows "same_items p p' \<and>
    ((sp_series_ids p' = sp_series_ids p \<and> sp_selected p' = sp_selected p) \<or>
     (\<exists>i. i \<notin> sp_series_ids p \<and> sp_series_ids p' = insert i (sp_series_ids p) \<and>
        sp_selected p' = sat_add usize_max (sp_selected p) 1 \<and> sp_selected p < max_series_requests \<and>
        \<not> is_some_and (\<lambda>l. l \<le> sp_selected p) (so_series_limit so)))"
proof (cases "text_or_number_field item ''series_id''")
  case None
  with assms show ?thesis by (auto simp: select_series_def Let_def count_skipped_def same_items_def split: if_splits)
next
  case (Some i)
  show ?thesis
  proof (cases "r = None")
    case True
    with assms Some show ?thesis by (auto simp: select_series_def Let_def count_skipped_def same_items_def split: if_splits)
  next
    case False
    with assms Some have "i \<notin> sp_series_ids p" "\<not> is_some_and (\<lambda>l. l \<le> sp_selected p) (so_series_limit so)"
        "sp_selected p < max_series_requests"
        "p' = p\<lparr> sp_received := sat_add usize_max (sp_received p) 1, sp_series_ids := insert i (sp_series_ids p),
           sp_selected := sat_add usize_max (sp_selected p) 1 \<rparr>"
      by (simp_all add: select_series_def Let_def split: if_splits)
    then show ?thesis by (auto simp: same_items_def)
  qed
qed

lemma select_series_ok:
  assumes ok: "series_ok so p" and step: "select_series (so\<lparr> so_expected := e \<rparr>) p item = Inr (p', r)"
  shows "series_ok so p' \<and> sp_pending_items p' = sp_pending_items p \<and> (\<forall>items. items_ok items p' = items_ok items p)"
proof -
  from select_series_cases [OF step]
  have same: "same_items p p'" and grown: "(sp_series_ids p' = sp_series_ids p \<and> sp_selected p' = sp_selected p) \<or>
     (\<exists>i. i \<notin> sp_series_ids p \<and> sp_series_ids p' = insert i (sp_series_ids p) \<and>
        sp_selected p' = sat_add usize_max (sp_selected p) 1 \<and> sp_selected p < max_series_requests \<and>
        \<not> is_some_and (\<lambda>l. l \<le> sp_selected p) (so_series_limit so))"
    by simp_all
  from grown have "series_ok so p'"
  proof (elim disjE exE conjE)
    fix i
    assume i: "i \<notin> sp_series_ids p" "sp_series_ids p' = insert i (sp_series_ids p)" "sp_selected p' = sat_add usize_max (sp_selected p) 1"
      "sp_selected p < max_series_requests" "\<not> is_some_and (\<lambda>l. l \<le> sp_selected p) (so_series_limit so)"
    have "sat_add usize_max (sp_selected p) 1 = sp_selected p + 1"
      using i(4) by (intro sat_add_small) (simp add: max_series_requests_def max_library_items_def)
    with i ok series_limit_not_reached [OF i(5)] show ?thesis by (simp add: series_ok_def)
  next
    assume "sp_series_ids p' = sp_series_ids p" "sp_selected p' = sp_selected p"
    with ok show ?thesis by (simp add: series_ok_def)
  qed
  with same same_items_ok [OF same] show ?thesis by (simp add: same_items_def)
qed

lemma distinct_extend:
  assumes "distinct (map f xs)" "set (map f xs) = S" "distinct (map f ys)" "\<And>y. y \<in> set ys \<Longrightarrow> f y \<notin> S"
  shows "distinct (map f (xs @ ys)) \<and> set (map f (xs @ ys)) = S \<union> set (map f ys)"
proof -
  from assms(4) have "S \<inter> set (map f ys) = {}" by auto
  with assms(1-3) show ?thesis by (simp only: map_append set_append distinct_append)
qed

lemma flush_ok:
  assumes "flush_series_items p = (p', batch)" "series_ok so p" and "items_ok (sent @ sp_pending_items p) p \<or> max_append_items \<le> length (sp_pending_items p)"
  shows "concat batch @ sp_pending_items p' = sp_pending_items p" "series_ok so p'" "sp_pending_items p' = []"
    "list_all (\<lambda>b. b \<noteq> []) batch"
    "sp_item_ids p' = sp_item_ids p" "sp_item_paths p' = sp_item_paths p" "sp_prepared p' = sp_prepared p"
  using assms by (auto simp: flush_series_items_def series_ok_def split: if_splits)

lemma append_fetched_ok:
  assumes ok: "items_ok (sent @ sp_pending_items p) p" "series_ok so p"
    and step: "append_fetched_xtream_series pv so item fetched p = Inr (p', batch)"
  shows "items_ok (sent @ concat batch @ sp_pending_items p') p' \<and> series_ok so p' \<and> list_all (\<lambda>b. b \<noteq> []) batch"
proof (cases fetched)
  case (Inl e)
  with step ok show ?thesis
    by (auto simp: append_fetched_xtream_series_def count_skipped_def items_ok_def series_ok_def split: if_splits)
next
  case (Inr info)
  define n where "n = min (series_episode_count info) (so_episode_limit so)"
  define p1 where "p1 = p\<lparr> sp_selected_episodes := sat_add usize_max (sp_selected_episodes p) n \<rparr>"
  define items where "items = parse_series_episodes (pv_ops pv) (pv_env pv) (pv_tuner_id pv) item info (pv_categories pv) (Some n)"
  define p2 where "p2 = p1\<lparr> sp_item_ids := sp_item_ids p \<union> set (map mu_id items), sp_item_paths := sp_item_paths p \<union> set (map mu_path items),
      sp_prepared := sat_add usize_max (sp_prepared p) (length items), sp_pending_items := sp_pending_items p @ items \<rparr>"
  consider (skipped) "p' = count_skipped p1" "batch = []"
    | (added) "length items = n" "unique_remote_media_catalog items" "\<not> list_ex (\<lambda>i. mu_id i \<in> sp_item_ids p \<or> mu_path i \<in> sp_item_paths p) items"
        "\<not> max_library_items < sat_add usize_max (sp_prepared p) n"
        "(p', batch) = (if max_append_items \<le> length (sp_pending_items p2) then flush_series_items p2 else (p2, []))"
    using step unfolding append_fetched_xtream_series_def Inr sum.case Let_def n_def [symmetric]
    by (auto simp: p1_def p2_def items_def split: if_splits)
  then show ?thesis
  proof cases
    case skipped
    with ok show ?thesis by (simp add: count_skipped_def p1_def items_ok_def series_ok_def)
  next
    case added
    have "sp_prepared p + n \<le> max_library_items" using added(4)
      by (auto simp: sat_add_def max_library_items_def split: if_splits)
    then have prepared: "sp_prepared p2 = sp_prepared p + length items" "sp_prepared p2 \<le> max_library_items"
      by (simp_all add: p2_def added(1) sat_add_small)
    have fresh: "mu_id i \<notin> sp_item_ids p" "mu_path i \<notin> sp_item_paths p" if "i \<in> set items" for i
      using added(3) that by (auto simp: list_ex_iff)
    have unique: "distinct (map mu_id items)" "distinct (map mu_path items)"
      using added(2) by (simp_all add: unique_remote_media_catalog_def)
    from ok(1) have old: "distinct (map mu_id (sent @ sp_pending_items p))" "set (map mu_id (sent @ sp_pending_items p)) = sp_item_ids p"
        "distinct (map mu_path (sent @ sp_pending_items p))" "set (map mu_path (sent @ sp_pending_items p)) = sp_item_paths p"
        "length (sent @ sp_pending_items p) = sp_prepared p"
      by (simp_all only: items_ok_def)
    note ids = distinct_extend [OF old(1,2) unique(1) fresh(1)] and paths = distinct_extend [OF old(3,4) unique(2) fresh(2)]
    have p2: "sent @ sp_pending_items p2 = (sent @ sp_pending_items p) @ items" "sp_item_ids p2 = sp_item_ids p \<union> set (map mu_id items)"
        "sp_item_paths p2 = sp_item_paths p \<union> set (map mu_path items)"
      by (simp_all add: p2_def p1_def)
    have all: "distinct (map mu_id (sent @ sp_pending_items p2))" "set (map mu_id (sent @ sp_pending_items p2)) = sp_item_ids p2"
        "distinct (map mu_path (sent @ sp_pending_items p2))" "set (map mu_path (sent @ sp_pending_items p2)) = sp_item_paths p2"
        "length (sent @ sp_pending_items p2) = sp_prepared p2"
      unfolding p2 using ids paths old(5) prepared(1) by (simp_all only: length_append)
    have so: "series_ok so p2" using ok(2) by (simp add: series_ok_def p2_def p1_def)
    show ?thesis
    proof (cases "max_append_items \<le> length (sp_pending_items p2)")
      case True
      with added(5) have "flush_series_items p2 = (p', batch)" by simp
      from flush_ok [OF this so disjI2 [OF True]] all prepared(2) show ?thesis
        by (auto simp: items_ok_def max_append_items_def)
    next
      case False
      with added(5) all prepared(2) so show ?thesis by (simp add: items_ok_def)
    qed
  qed
qed

definition producer_ok :: "series_options \<Rightarrow> producer \<Rightarrow> bool" where
  "producer_ok so s \<longleftrightarrow> items_ok (staged_items s) (pr_progress s) \<and> series_ok so (pr_progress s) \<and>
     length (pr_in_flight s) \<le> so_concurrency so \<and> list_all (\<lambda>b. b \<noteq> []) (pr_sent s)"

lemma append_fetched_staged:
  assumes "items_ok (staged_items s) p" "sp_pending_items p = sp_pending_items (pr_progress s)" "series_ok so p" "list_all (\<lambda>b. b \<noteq> []) (pr_sent s)"
    and "append_fetched_xtream_series pv so item fetched p = Inr (p', batch)"
  shows "items_ok (concat (pr_sent s @ batch) @ sp_pending_items p') p' \<and> series_ok so p' \<and> list_all (\<lambda>b. b \<noteq> []) (pr_sent s @ batch)"
proof -
  from assms(1,2) have "items_ok (concat (pr_sent s) @ sp_pending_items p) p" by (simp add: staged_items_def)
  from append_fetched_ok [OF this assms(3,5)] assms(4) show ?thesis by simp
qed

lemma producer_step_ok: "producer_step pv so s t \<Longrightarrow> producer_ok so s \<Longrightarrow> producer_ok so t"
proof (induction rule: producer_step.induct)
  case (replaced expected s item p series_id before ended "after" fetched p' batch)
  from replaced.prems have so: "series_ok so (pr_progress s)" by (simp add: producer_ok_def)
  note sel = select_series_ok [OF so replaced.hyps(1)]
  have "length (before @ ended # after) \<le> so_concurrency so" using replaced.prems replaced.hyps(3) by (simp add: producer_ok_def)
  with append_fetched_staged [OF _ _ _ _ replaced.hyps(4), of s] sel replaced.prems show ?case
    by (auto simp: producer_ok_def staged_items_def)
next
  case (finishing s before ended "after" fetched p' batch)
  have "length (before @ ended # after) \<le> so_concurrency so" using finishing.prems finishing.hyps(1) by (simp add: producer_ok_def)
  with append_fetched_staged [OF _ _ _ _ finishing.hyps(2), of s] finishing.prems show ?case
    by (auto simp: producer_ok_def staged_items_def)
next
  case (flushed s p' batch)
  from flushed.prems have "series_ok so (pr_progress s)" "items_ok (concat (pr_sent s) @ sp_pending_items (pr_progress s)) (pr_progress s)"
    by (simp_all add: producer_ok_def staged_items_def)
  from flush_ok [OF flushed.hyps(2) this(1) disjI1 [OF this(2)]] flushed.prems show ?case
    by (auto simp: producer_ok_def staged_items_def items_ok_def max_append_items_def)
next
  case (ignored expected s item p)
  from ignored.prems have so: "series_ok so (pr_progress s)" by (simp add: producer_ok_def)
  from select_series_ok [OF so ignored.hyps(1)] ignored.prems show ?case by (auto simp: producer_ok_def staged_items_def)
next
  case (started expected s item p series_id)
  from started.prems have so: "series_ok so (pr_progress s)" by (simp add: producer_ok_def)
  from select_series_ok [OF so started.hyps(1)] started.prems started.hyps(2) show ?case by (auto simp: producer_ok_def staged_items_def)
qed

lemma producer_reach_ok: "producer_reach pv so s \<Longrightarrow> producer_ok so s"
proof (induction rule: producer_reach.induct)
  case begun
  show ?case
    by (simp add: producer_ok_def staged_items_def items_ok_def series_ok_def new_series_progress_def max_append_items_def option.pred_set)
next
  case (step s t)
  then show ?case by (blast intro: producer_step_ok)
qed

text \<open>
  C11. However the fetches of the details interleave, the episodes staged so far have different ids and different
  paths, are counted exactly and are at most a million; as many series were selected as ids were seen, at
  most 100000 and at most the configured limit; no more fetches run than configured; and no empty batch is sent.
\<close>

theorem staged_series_unique:
  assumes "producer_reach pv so s"
  shows "distinct (map mu_id (staged_items s)) \<and> distinct (map mu_path (staged_items s)) \<and>
    length (staged_items s) = sp_prepared (pr_progress s) \<and> length (staged_items s) \<le> max_library_items \<and>
    card (sp_series_ids (pr_progress s)) = sp_selected (pr_progress s) \<and> sp_selected (pr_progress s) \<le> max_series_requests \<and>
    pred_option (\<lambda>l. sp_selected (pr_progress s) \<le> l) (so_series_limit so) \<and>
    length (pr_in_flight s) \<le> so_concurrency so \<and> list_all (\<lambda>b. b \<noteq> []) (pr_sent s)"
  using producer_reach_ok [OF assms] by (simp add: producer_ok_def items_ok_def series_ok_def)

lemma staged_series_unique_witness:
  "\<exists>s. producer_reach example_provider \<lparr> so_selection = \<lparr> sel_include = {}, sel_exclude = {} \<rparr>, so_expected = None, so_series_limit = Some 5,
       so_episode_limit = 10, so_concurrency = 2 \<rparr> s \<and> sp_selected (pr_progress s) = 1 \<and> length (pr_in_flight s) \<le> 2"
proof -
  let ?so = "\<lparr> so_selection = \<lparr> sel_include = {}, sel_exclude = {} \<rparr>, so_expected = None, so_series_limit = Some 5,
       so_episode_limit = 10, so_concurrency = 2 \<rparr>"
  let ?item = "json_obj [(''series_id'', json_nat 3)]"
  let ?p = "new_series_progress\<lparr> sp_received := 1, sp_series_ids := {''3''}, sp_selected := 1 \<rparr>"
  have "text_or_number_field ?item ''series_id'' = Some ''3''" "item_category_id ?item = None"
    by (simp_all add: text_or_number_field_def item_category_id_def json_string_field_def json_field_case_insensitive_def json_obj_def json_nat_def
        jget_def live_tv_u64_field_def opt_or_def eq_ignore_case_def to_ascii_lowercase_def char_eval show_nat.simps)
  then have "select_series (?so\<lparr> so_expected := None \<rparr>) new_series_progress ?item = Inr (?p, Some ''3'')"
    by (simp add: select_series_def Let_def new_series_progress_def selection_allows_def max_series_requests_def valid_xtream_identifier_def
      has_control.simps sat_add_def char_eval)
  then have "producer_step example_provider ?so \<lparr> pr_progress = new_series_progress, pr_in_flight = [], pr_sent = [] \<rparr>
      \<lparr> pr_progress = ?p, pr_in_flight = [?item], pr_sent = [] \<rparr>"
    using producer_step.started [where so = ?so and expected = None and item = ?item and p = ?p and series_id = "''3''"
      and pv = example_provider and s = "\<lparr> pr_progress = new_series_progress, pr_in_flight = [], pr_sent = [] \<rparr>"]
    by simp
  then have reach: "producer_reach example_provider ?so \<lparr> pr_progress = ?p, pr_in_flight = [?item], pr_sent = [] \<rparr>"
    using producer_reach.begun producer_reach.step by blast
  from staged_series_unique [OF reach] reach show ?thesis by auto
qed

end
