(* ===== verification/Plugin_Archive.thy ===== *)
theory Plugin_Archive
  imports Rust_Path Rust_Result "HOL-Library.Word"
begin

text \<open>
  The archive of a plugin package (\<open>crates/jellyrin-api/src/lib.rs\<close>, 9939--10250): the number of entries declared
  at the end of the file, the tests on every entry, and the extraction into a staging directory. What the
  zip library answers (the entries, their sizes and what they inflate to) is an input, and so is whether
  each file-system call works.
\<close>

unbundle bit_operations_syntax

datatype archive_error =
    Archive_Unreadable | Archive_Invalid | Too_Many_Entries | Zip64_Or_Multi_Disk | Ambiguous_Directory | Overlapping_Entries | Install_Cancelled
  | Unsafe_Path | Duplicate_Path | Unsupported_Entry | Entry_Too_Large | Compression_Ratio | Size_Overflow | Package_Too_Large
  | Staging_Failed | Directory_Failed | Conflicting_Path | Entry_Corrupt | Exceeds_Declared | Write_Failed | Size_Mismatch | Permissions_Failed

definition max_plugin_package_bytes :: nat where "max_plugin_package_bytes = 128 * 1024 * 1024"
definition max_plugin_package_entries :: nat where "max_plugin_package_entries = 4096"
definition max_plugin_package_uncompressed_bytes :: nat where "max_plugin_package_uncompressed_bytes = 256 * 1024 * 1024"
definition max_plugin_package_entry_bytes :: nat where "max_plugin_package_entry_bytes = 128 * 1024 * 1024"
definition max_plugin_package_path_depth :: nat where "max_plugin_package_path_depth = 32"
definition max_plugin_package_compression_ratio :: nat where "max_plugin_package_compression_ratio = 200"

section \<open>The declared number of entries\<close>

definition read_zip_u16 :: "string \<Rightarrow> nat \<Rightarrow> nat option" where
  "read_zip_u16 bytes offset =
     (if offset + 2 \<le> length bytes then Some (byte (bytes ! offset) + 256 * byte (bytes ! (offset + 1))) else None)"

definition read_zip_u32 :: "string \<Rightarrow> nat \<Rightarrow> nat option" where
  "read_zip_u32 bytes offset =
     (if offset + 4 \<le> length bytes
      then Some (byte (bytes ! offset) + 256 * byte (bytes ! (offset + 1)) + 65536 * byte (bytes ! (offset + 2)) +
             16777216 * byte (bytes ! (offset + 3)))
      else None)"

definition eocd_signature :: string where
  "eocd_signature = [CHR ''P'', CHR ''K'', CHR 0x05, CHR 0x06]"

definition eocd_min_bytes :: nat where "eocd_min_bytes = 22"

definition eocd_at :: "string \<Rightarrow> nat \<Rightarrow> bool" where
  "eocd_at tail position \<longleftrightarrow>
     starts_with eocd_signature (drop position tail) \<and>
     is_some_and (\<lambda>comment_len. position + eocd_min_bytes + comment_len = length tail) (read_zip_u16 tail (position + 20))"

definition declared_zip_entry_count :: "string \<Rightarrow> archive_error + nat" where
  "declared_zip_entry_count file =
     (if length file < eocd_min_bytes \<or> max_plugin_package_bytes < length file then Inl Archive_Invalid
      else
        let tail_len = min (length file) (eocd_min_bytes + u16_max);
            tail = drop (length file - tail_len) file
        in case find (eocd_at tail) (rev [0..<tail_len - eocd_min_bytes + 1]) of
             None \<Rightarrow> Inl Archive_Invalid
           | Some position \<Rightarrow>
               let disk = unwrap_or u16_max (read_zip_u16 tail (position + 4));
                   central_disk = unwrap_or u16_max (read_zip_u16 tail (position + 6));
                   entries_on_disk = unwrap_or u16_max (read_zip_u16 tail (position + 8));
                   total_entries = unwrap_or u16_max (read_zip_u16 tail (position + 10));
                   central_size = unwrap_or u32_max (read_zip_u32 tail (position + 12));
                   central_offset = unwrap_or u32_max (read_zip_u32 tail (position + 16))
               in if disk \<noteq> 0 \<or> central_disk \<noteq> 0 \<or> entries_on_disk \<noteq> total_entries \<or> total_entries = u16_max \<or>
                     central_size = u32_max \<or> central_offset = u32_max
                  then Inl Zip64_Or_Multi_Disk else Inr total_entries)"

section \<open>The entries\<close>

datatype compression_method = Stored | Deflated | Other_Method

text \<open>An entry; \<open>ze_reads\<close> are the blocks its reader yields, \<open>None\<close> being an error.\<close>

record zip_entry =
  ze_name :: string
  ze_encrypted :: bool
  ze_compression :: compression_method
  ze_size :: nat
  ze_compressed_size :: nat
  ze_is_dir :: bool
  ze_unix_mode :: "32 word option"
  ze_reads :: "string option list"

record zip_archive =
  za_offset :: nat
  za_overlapping :: "bool option"
  za_entries :: "zip_entry option list"

definition validate_zip_entry_path :: "string \<Rightarrow> bool" where
  "validate_zip_entry_path entry \<longleftrightarrow>
     \<not> (entry = [] \<or> 512 < length entry \<or> has_control entry \<or> starts_with [slash] entry \<or> starts_with [CHR 0x5C] entry \<or>
        CHR 0x5C \<in> set entry \<or> CHR '':'' \<in> set entry \<or> has_pair slash slash entry \<or> path_components entry = [] \<or>
        max_plugin_package_path_depth < length (path_components entry) \<or>
        list_ex (\<lambda>c. c = ''..'' \<or> c = ''.'' \<or> c = [slash] \<or> 255 < length c) (path_components entry))"

definition zip_entry_unix_mode_is_safe :: "bool \<Rightarrow> 32 word option \<Rightarrow> bool" where
  "zip_entry_unix_mode_is_safe is_dir mode \<longleftrightarrow>
     (case mode of
        None \<Rightarrow> True
      | Some mode \<Rightarrow>
          let kind = mode AND 0xF000
          in mode AND 0xE00 = 0 \<and> (kind = 0 \<or> kind = 0x8000 \<or> kind = 0x4000) \<and>
             (is_dir \<and> (kind = 0 \<or> kind = 0x4000) \<or> \<not> is_dir \<and> (kind = 0 \<or> kind = 0x8000)))"

text \<open>The tests on one entry; the answer is the new total of the sizes.\<close>

definition validate_entry :: "string set \<Rightarrow> nat \<Rightarrow> zip_entry \<Rightarrow> archive_error + nat" where
  "validate_entry unique_paths uncompressed e =
     (let normalized = trim_end_char slash (ze_name e)
      in if \<not> validate_zip_entry_path (ze_name e) then Inl Unsafe_Path
         else if normalized = [] \<or> normalized \<in> unique_paths then Inl Duplicate_Path
         else if ze_encrypted e \<or> ze_compression e \<notin> {Stored, Deflated} \<or>
                 \<not> zip_entry_unix_mode_is_safe (ze_is_dir e) (ze_unix_mode e)
         then Inl Unsupported_Entry
         else if max_plugin_package_entry_bytes < ze_size e then Inl Entry_Too_Large
         else if 1024 * 1024 < ze_size e \<and>
                 sat_mul u64_max (ze_compressed_size e) max_plugin_package_compression_ratio < ze_size e
         then Inl Compression_Ratio
         else case checked_add u64_max uncompressed (ze_size e) of
             None \<Rightarrow> Inl Size_Overflow
           | Some uncompressed \<Rightarrow> if max_plugin_package_uncompressed_bytes < uncompressed then Inl Package_Too_Large else Inr uncompressed)"

fun validate_entries ::
  "(nat \<Rightarrow> bool) \<Rightarrow> nat \<Rightarrow> string set \<Rightarrow> nat \<Rightarrow> zip_entry option list \<Rightarrow> archive_error + string list" where
  "validate_entries cancelled index unique_paths uncompressed [] = Inr []"
| "validate_entries cancelled index unique_paths uncompressed (e # es) =
     (if cancelled index then Inl Install_Cancelled
      else case e of
          None \<Rightarrow> Inl Archive_Invalid
        | Some e \<Rightarrow>
            and_then (validate_entry unique_paths uncompressed e) (\<lambda>uncompressed.
            and_then (validate_entries cancelled (Suc index) (insert (trim_end_char slash (ze_name e)) unique_paths) uncompressed es) (\<lambda>names.
              Inr (ze_name e # names))))"

text \<open>\<open>file\<close> is \<open>None\<close> when it cannot be opened; \<open>parse\<close> is the zip library's reading of the file.\<close>

definition open_validated_plugin_zip_archive ::
  "(string \<Rightarrow> zip_archive option) \<Rightarrow> string option \<Rightarrow> (nat \<Rightarrow> bool) \<Rightarrow> archive_error + zip_archive \<times> string list" where
  "open_validated_plugin_zip_archive parse file cancelled =
     and_then (some_or Archive_Unreadable file) (\<lambda>file.
     and_then (declared_zip_entry_count file) (\<lambda>declared_entries.
     if max_plugin_package_entries < declared_entries then Inl Too_Many_Entries
     else
     and_then (some_or Archive_Invalid (parse file)) (\<lambda>archive.
     if za_offset archive \<noteq> 0 \<or> length (za_entries archive) \<noteq> declared_entries then Inl Ambiguous_Directory
     else
     and_then (some_or Archive_Invalid (za_overlapping archive)) (\<lambda>overlapping.
     if overlapping then Inl Overlapping_Entries
     else
     and_then (validate_entries cancelled 0 {} 0 (za_entries archive)) (\<lambda>names. Inr (archive, names))))))"

section \<open>Extraction\<close>

text \<open>
  A file system as the nodes at absolute paths, given by their components; a mode is known once it was set. \<open>io\<close> says
  which calls work: for the entry with an index, the named step; otherwise the tests of POSIX decide.
\<close>

datatype node = Dir "nat option" | File string "nat option"

type_synonym file_system = "string list \<Rightarrow> node option"

datatype io_step = Make_Dir | Set_Mode | Make_Parent | Open_New | Write_Block nat

definition is_file :: "node option \<Rightarrow> bool" where
  "is_file n \<longleftrightarrow> (case n of Some (File _ _) \<Rightarrow> True | _ \<Rightarrow> False)"

definition create_dir_all :: "file_system \<Rightarrow> string list \<Rightarrow> file_system option" where
  "create_dir_all fs p =
     (if list_ex (\<lambda>q. is_file (fs q)) (prefixes p) then None
      else Some (\<lambda>q. if prefix q p \<and> q \<noteq> [] \<and> fs q = None then Some (Dir None) else fs q))"

definition remove_dir_all :: "file_system \<Rightarrow> string list \<Rightarrow> file_system" where
  "remove_dir_all fs p = (\<lambda>q. if prefix p q then None else fs q)"

definition set_mode :: "nat \<Rightarrow> node \<Rightarrow> node" where
  "set_mode m n = (case n of Dir _ \<Rightarrow> Dir (Some m) | File c _ \<Rightarrow> File c (Some m))"

definition set_private_plugin_permissions :: "file_system \<Rightarrow> string list \<Rightarrow> bool \<Rightarrow> bool \<Rightarrow> file_system" where
  "set_private_plugin_permissions fs p directory executable =
     fs(p := map_option (set_mode (if directory \<or> executable then 448 else 384)) (fs p))"

text \<open>The loop that copies an entry: what was written, and how it ended.\<close>

fun copy_entry :: "(nat \<Rightarrow> bool) \<Rightarrow> (nat \<Rightarrow> bool) \<Rightarrow> nat \<Rightarrow> nat \<Rightarrow> string \<Rightarrow> string option list \<Rightarrow> string \<times> (archive_error + unit)" where
  "copy_entry cancelled writes entry_size k out [] = (out, if cancelled k then Inl Install_Cancelled else Inr ())"
| "copy_entry cancelled writes entry_size k out (block # blocks) =
     (if cancelled k then (out, Inl Install_Cancelled)
      else case block of
          None \<Rightarrow> (out, Inl Entry_Corrupt)
        | Some b \<Rightarrow>
            if b = [] then (out, Inr ())
            else if \<not> is_some_and (\<lambda>written. written \<le> entry_size \<and> written \<le> max_plugin_package_entry_bytes)
                   (checked_add u64_max (length out) (length b))
            then (out, Inl Exceeds_Declared)
            else if \<not> writes k then (out, Inl Write_Failed)
            else copy_entry cancelled writes entry_size (Suc k) (out @ b) blocks)"

definition extract_entry ::
  "(io_step \<Rightarrow> bool) \<Rightarrow> (nat \<Rightarrow> bool) \<Rightarrow> string \<Rightarrow> zip_entry \<Rightarrow> file_system \<Rightarrow> file_system \<times> (archive_error + unit)" where
  "extract_entry io cancelled staging_dir e fs =
     (if \<not> validate_zip_entry_path (ze_name e) then (fs, Inl Unsafe_Path)
      else
        let output_path = path_components (path_join staging_dir (ze_name e))
        in if ze_is_dir e then
             (case (if io Make_Dir then create_dir_all fs output_path else None) of
                None \<Rightarrow> (fs, Inl Directory_Failed)
              | Some fs \<Rightarrow>
                  if io Set_Mode then (set_private_plugin_permissions fs output_path True False, Inr ())
                  else (fs, Inl Permissions_Failed))
           else case path_parent (path_join staging_dir (ze_name e)) of
               None \<Rightarrow> (fs, Inl Unsafe_Path)
             | Some parent \<Rightarrow>
                 (case (if io Make_Parent then create_dir_all fs (path_components parent) else None) of
                    None \<Rightarrow> (fs, Inl Directory_Failed)
                  | Some fs \<Rightarrow>
                      if \<not> io Open_New \<or> fs output_path \<noteq> None then (fs, Inl Conflicting_Path)
                      else
                        (case copy_entry cancelled (\<lambda>k. io (Write_Block k)) (ze_size e) 0 [] (ze_reads e) of
                           (out, r) \<Rightarrow>
                             let fs = fs(output_path \<mapsto> File out None)
                             in case r of
                                 Inl err \<Rightarrow> (fs, Inl err)
                               | Inr _ \<Rightarrow>
                                   if length out \<noteq> ze_size e then (fs, Inl Size_Mismatch)
                                   else if io Set_Mode
                                   then (set_private_plugin_permissions fs output_path False
                                           (is_some_and (\<lambda>mode. mode AND 0x49 \<noteq> 0) (ze_unix_mode e)), Inr ())
                                   else (fs, Inl Permissions_Failed))))"

fun extract_entries ::
  "(nat \<Rightarrow> io_step \<Rightarrow> bool) \<Rightarrow> (nat \<Rightarrow> nat \<Rightarrow> bool) \<Rightarrow> string \<Rightarrow> nat \<Rightarrow> zip_entry option list \<Rightarrow> file_system \<Rightarrow>
     file_system \<times> (archive_error + unit)" where
  "extract_entries io cancelled staging_dir index [] fs = (fs, Inr ())"
| "extract_entries io cancelled staging_dir index (e # es) fs =
     (if cancelled index 0 then (fs, Inl Install_Cancelled)
      else case e of
          None \<Rightarrow> (fs, Inl Archive_Invalid)
        | Some e \<Rightarrow>
            (case extract_entry (io index) (\<lambda>k. cancelled index (Suc k)) staging_dir e fs of
               (fs, Inl err) \<Rightarrow> (fs, Inl err)
             | (fs, Inr _) \<Rightarrow> extract_entries io cancelled staging_dir (Suc index) es fs))"

text \<open>The calls outside the entries: the first removal, the staging directory, its mode, and the last removal.\<close>

record staging_io =
  st_remove :: bool
  st_create :: bool
  st_mode :: bool
  st_cleanup :: bool

definition extract_plugin_zip_archive_blocking ::
  "(string \<Rightarrow> zip_archive option) \<Rightarrow> string option \<Rightarrow> (nat \<Rightarrow> bool) \<Rightarrow> staging_io \<Rightarrow> (nat \<Rightarrow> io_step \<Rightarrow> bool) \<Rightarrow> (nat \<Rightarrow> nat \<Rightarrow> bool) \<Rightarrow>
     string \<Rightarrow> file_system \<Rightarrow> file_system \<times> (archive_error + unit)" where
  "extract_plugin_zip_archive_blocking parse file cancelled_open st io cancelled staging_dir fs =
     (let root = path_components staging_dir
      in if fs root \<noteq> None \<and> \<not> st_remove st then (fs, Inl Staging_Failed)
         else
           let fs = (if fs root \<noteq> None then remove_dir_all fs root else fs)
           in case (if st_create st then create_dir_all fs root else None) of
                None \<Rightarrow> (fs, Inl Staging_Failed)
              | Some fs \<Rightarrow>
                  if \<not> st_mode st then (fs, Inl Permissions_Failed)
                  else
                    let fs = set_private_plugin_permissions fs root True False;
                        (fs, extraction) =
                          (case open_validated_plugin_zip_archive parse file cancelled_open of
                             Inl err \<Rightarrow> (fs, Inl err)
                           | Inr (archive, _) \<Rightarrow> extract_entries io cancelled staging_dir 0 (za_entries archive) fs)
                    in case extraction of
                        Inl err \<Rightarrow> (if st_cleanup st then remove_dir_all fs root else fs, Inl err)
                      | Inr _ \<Rightarrow> (fs, Inr ()))"

section \<open>Paths of the entries\<close>

definition safe_component :: "string \<Rightarrow> bool" where
  "safe_component c \<longleftrightarrow> c \<noteq> [] \<and> c \<noteq> ''..'' \<and> c \<noteq> ''.'' \<and> slash \<notin> set c \<and> length c \<le> 255"

definition below :: "string list \<Rightarrow> string list \<Rightarrow> bool" where
  "below root p \<longleftrightarrow> (\<exists>rest. p = root @ rest \<and> rest \<noteq> [] \<and> list_all safe_component rest \<and> length rest \<le> max_plugin_package_path_depth)"

lemma relative_components: "\<not> starts_with [slash] p \<Longrightarrow> hd (split_on slash p) \<noteq> ''.'' \<Longrightarrow>
    path_components p = filter (\<lambda>w. w \<noteq> [] \<and> w \<noteq> ''.'') (split_on slash p)"
  by (simp add: path_components_def Let_def)

lemma validate_zip_entry_pathD:
  assumes "validate_zip_entry_path n"
  shows "n \<noteq> []" "\<not> starts_with [slash] n" "hd (split_on slash n) \<noteq> ''.''" "path_components n \<noteq> []"
    "list_all safe_component (path_components n)" "length (path_components n) \<le> max_plugin_package_path_depth"
proof -
  show n: "n \<noteq> []" "\<not> starts_with [slash] n" "path_components n \<noteq> []" "length (path_components n) \<le> max_plugin_package_path_depth"
    using assms by (auto simp: validate_zip_entry_path_def)
  have "\<not> list_ex (\<lambda>c. c = ''..'' \<or> c = ''.'' \<or> c = [slash] \<or> 255 < length c) (path_components n)"
    using assms by (simp add: validate_zip_entry_path_def)
  then have all: "c \<noteq> ''..'' \<and> c \<noteq> ''.'' \<and> c \<noteq> [slash] \<and> length c \<le> 255" if "c \<in> set (path_components n)" for c
    using that by (simp only: list_ex_iff not_less [symmetric]) blast
  show rel: "hd (split_on slash n) \<noteq> ''.''"
  proof
    assume "hd (split_on slash n) = ''.''"
    then have "''.'' \<in> set (path_components n)" by (simp add: path_components_def Let_def n(2))
    with all show False by blast
  qed
  show "list_all safe_component (path_components n)"
    unfolding list_all_iff
  proof
    fix c assume c: "c \<in> set (path_components n)"
    then have "c \<in> set (split_on slash n)" "c \<noteq> []" by (auto simp: relative_components [OF n(2) rel])
    with all [OF c] split_on_no_sep [of c slash n] show "safe_component c" by (simp add: safe_component_def)
  qed
qed

lemma path_components_join_relative:
  assumes n: "n \<noteq> []" "\<not> starts_with [slash] n" "hd (split_on slash n) \<noteq> ''.''" and d: "d \<noteq> []"
  shows "path_components (path_join d n) = path_components d @ path_components n"
proof (cases "last d = slash")
  case False
  have root: "starts_with [slash] (d @ slash # n) = starts_with [slash] d"
    using d by (cases d) (auto simp: starts_with_def)
  show ?thesis
    using n d False by (simp add: path_join_def path_components_def Let_def root hd_split_append split_on_append_sep)
next
  case True
  then obtain e where e: "d = e @ [slash]" using d by (metis append_butlast_last_id)
  have root: "starts_with [slash] (e @ slash # n) = starts_with [slash] (e @ [slash])"
    by (cases e) (auto simp: starts_with_def)
  have j: "path_join d n = e @ slash # n"
    using n(2) e by (simp add: path_join_def)
  have "path_components (e @ slash # n) = path_components (e @ [slash]) @ path_components n"
    using n by (simp add: path_components_def Let_def root split_on_append_sep)
  then show ?thesis by (simp only: j) (simp only: e)
qed

lemma output_components:
  assumes "validate_zip_entry_path n" "d \<noteq> []"
  shows "path_components (path_join d n) = path_components d @ path_components n" "below (path_components d) (path_components (path_join d n))"
proof -
  note v = validate_zip_entry_pathD [OF assms(1)]
  show c: "path_components (path_join d n) = path_components d @ path_components n"
    by (rule path_components_join_relative [OF v(1-3) assms(2)])
  show "below (path_components d) (path_components (path_join d n))"
    using v(4-6) by (auto simp: below_def c)
qed

lemma prefix_of_below:
  assumes "below root p" "prefix q p"
  shows "prefix q root \<or> below root q"
proof -
  from assms obtain rest where rest: "p = root @ rest" "list_all safe_component rest" "length rest \<le> max_plugin_package_path_depth"
    by (auto simp: below_def)
  from assms(2) rest(1) have "prefix q root \<or> (\<exists>r. q = root @ r \<and> prefix r rest)" by (simp add: prefix_append)
  then show ?thesis
  proof (elim disjE exE conjE)
    fix r assume r: "q = root @ r" "prefix r rest"
    then have "list_all safe_component r" "length r \<le> length rest" using rest(2) by (auto simp: prefix_def)
    with r rest(3) show ?thesis by (cases "r = []") (auto simp: below_def)
  qed simp
qed

section \<open>Extraction stays below the staging directory\<close>

lemma create_dir_all_changes: "create_dir_all fs p = Some fs' \<Longrightarrow> fs' q \<noteq> fs q \<Longrightarrow> prefix q p \<and> fs q = None \<and> fs' q = Some (Dir None)"
  by (auto simp: create_dir_all_def split: if_splits)

definition confined :: "string list \<Rightarrow> file_system \<Rightarrow> file_system \<Rightarrow> bool" where
  "confined root fs fs' \<longleftrightarrow>
     (\<forall>p. fs' p = fs p \<or> prefix p root \<or> below root p \<or> (prefix root p \<and> fs' p = None)) \<and>
     (\<forall>p. strict_prefix p root \<longrightarrow> fs p \<noteq> None \<longrightarrow> fs' p = fs p)"

lemma confined_refl [simp]: "confined root fs fs"
  by (simp add: confined_def)

lemma confined_trans: "confined root fs fs1 \<Longrightarrow> confined root fs1 fs2 \<Longrightarrow> confined root fs fs2"
  unfolding confined_def by metis

lemma not_below_ancestor: "below root p \<Longrightarrow> \<not> prefix p root"
  by (auto simp: below_def prefix_def)

lemma confined_create:
  assumes "create_dir_all fs q = Some fs'" "prefix q p" "below root p \<or> prefix p root"
  shows "confined root fs fs'"
proof -
  have "prefix r root \<or> below root r" if "prefix r q" for r
  proof -
    from that assms(2) have "prefix r p" by (rule prefix_order.trans)
    with assms(3) show ?thesis using prefix_of_below prefix_order.trans by blast
  qed
  with create_dir_all_changes [OF assms(1)] show ?thesis
    unfolding confined_def by (metis option.distinct(1))
qed

lemma confined_update: "below root p \<Longrightarrow> confined root fs (fs(p := n))"
  using not_below_ancestor by (auto simp: confined_def strict_prefix_def)

lemma confined_permissions: "below root p \<Longrightarrow> confined root fs (set_private_plugin_permissions fs p d x)"
  by (simp add: set_private_plugin_permissions_def confined_update)

lemma confined_remove: "confined root fs (remove_dir_all fs root)"
  by (auto simp: confined_def remove_dir_all_def strict_prefix_def)

lemma confined_root_permissions: "confined root fs (set_private_plugin_permissions fs root d x)"
  by (auto simp: confined_def set_private_plugin_permissions_def strict_prefix_def)

lemma parent_of_output:
  assumes "validate_zip_entry_path n" "d \<noteq> []" "path_parent (path_join d n) = Some q"
  shows "prefix (path_components q) (path_components (path_join d n))"
  unfolding path_parent_components [OF assms(3)] by (metis append_butlast_last_id butlast.simps(1) prefixI prefix_order.refl)

lemma extract_entry_confined:
  assumes d: "d \<noteq> []" and run: "extract_entry io cancelled d e fs = (fs', r)"
  shows "confined (path_components d) fs fs'"
proof (cases "validate_zip_entry_path (ze_name e)")
  case False
  with run show ?thesis by (simp add: extract_entry_def)
next
  case True
  let ?p = "path_components (path_join d (ze_name e))"
  note out = output_components(2) [OF True d]
  show ?thesis
  proof (cases "ze_is_dir e")
    case dir: True
    show ?thesis
    proof (cases "if io Make_Dir then create_dir_all fs ?p else None")
      case None
      with run True dir show ?thesis by (simp add: extract_entry_def)
    next
      case (Some fs1)
      then have "create_dir_all fs ?p = Some fs1" by (simp split: if_splits)
      from confined_create [OF this prefix_order.refl disjI1 [OF out]] have "confined (path_components d) fs fs1" .
      with run True dir Some confined_permissions [OF out] confined_trans show ?thesis
        by (auto simp: extract_entry_def split: if_splits)
    qed
  next
    case plain: False
    show ?thesis
    proof (cases "path_parent (path_join d (ze_name e))")
      case None
      with run True plain show ?thesis by (simp add: extract_entry_def)
    next
      case parent: (Some q)
      show ?thesis
      proof (cases "if io Make_Parent then create_dir_all fs (path_components q) else None")
        case None
        with run True plain parent show ?thesis by (simp add: extract_entry_def)
      next
        case (Some fs1)
        then have made: "create_dir_all fs (path_components q) = Some fs1" by (simp split: if_splits)
        have c: "confined (path_components d) fs fs1"
          by (rule confined_create [OF made parent_of_output [OF True d parent] disjI1 [OF out]])
        obtain content r' where copy: "copy_entry cancelled (\<lambda>k. io (Write_Block k)) (ze_size e) 0 [] (ze_reads e) = (content, r')" by fastforce
        let ?fs2 = "fs1(?p \<mapsto> File content None)"
        from run True plain parent Some copy
        have "fs' = fs1 \<or> fs' = ?fs2 \<or> (\<exists>x. fs' = set_private_plugin_permissions ?fs2 ?p False x)"
          by (auto simp: extract_entry_def Let_def split: if_splits sum.splits)
        moreover have "confined (path_components d) fs ?fs2"
          by (rule confined_trans [OF c confined_update [OF out]])
        moreover have "confined (path_components d) fs (set_private_plugin_permissions ?fs2 ?p False x)" for x
          by (rule confined_trans [OF confined_trans [OF c confined_update [OF out]] confined_permissions [OF out]])
        ultimately show ?thesis using c by blast
      qed
    qed
  qed
qed

lemma extract_entries_confined:
  "extract_entries io cancelled d index es fs = (fs', r) \<Longrightarrow> d \<noteq> [] \<Longrightarrow> confined (path_components d) fs fs'"
proof (induction es arbitrary: index fs)
  case (Cons e es)
  show ?case
  proof (cases "cancelled index 0 \<or> e = None")
    case True
    with Cons.prems show ?thesis by (auto split: option.splits if_splits)
  next
    case False
    then obtain x where e: "e = Some x" by blast
    obtain fs1 r1 where step: "extract_entry (io index) (\<lambda>k. cancelled index (Suc k)) d x fs = (fs1, r1)" by fastforce
    from extract_entry_confined [OF Cons.prems(2) step] have c: "confined (path_components d) fs fs1" .
    show ?thesis
    proof (cases r1)
      case (Inl err)
      with Cons.prems False e step c show ?thesis by simp
    next
      case (Inr u)
      with Cons.prems False e step have "extract_entries io cancelled d (Suc index) es fs1 = (fs', r)" by simp
      from confined_trans [OF c Cons.IH [OF this Cons.prems(2)]] show ?thesis .
    qed
  qed
qed simp

text \<open>
  C5. No archive writes outside the staging directory: whatever the entries are named and wherever the extraction
  stops, a path that changed is the staging directory or an ancestor, or was removed with the staging
  directory, or is below it, through at most 32 names none of which is \<open>..\<close>, \<open>.\<close>, empty or has a slash; and an
  ancestor that was there is left as it was.
\<close>

theorem extraction_contained:
  assumes "staging_dir \<noteq> []"
    and "extract_plugin_zip_archive_blocking parse file cancelled_open st io cancelled staging_dir fs = (fs', r)"
  defines "root \<equiv> path_components staging_dir"
  shows "(\<forall>p. fs' p = fs p \<or> prefix p root \<or> (prefix root p \<and> fs' p = None) \<or>
      (\<exists>rest. p = root @ rest \<and> list_all safe_component rest \<and> length rest \<le> 32)) \<and>
    (\<forall>p. strict_prefix p root \<longrightarrow> fs p \<noteq> None \<longrightarrow> fs' p = fs p)"
proof -
  let ?fs1 = "if fs root \<noteq> None then remove_dir_all fs root else fs"
  have c1: "confined root fs ?fs1" by (simp add: confined_remove)
  have "confined root fs fs'"
  proof (cases "if st_create st then create_dir_all ?fs1 root else None")
    case None
    with assms(2) c1 show ?thesis by (auto simp: extract_plugin_zip_archive_blocking_def root_def Let_def split: if_splits)
  next
    case (Some fs2)
    then have made: "create_dir_all ?fs1 root = Some fs2" by (simp split: if_splits)
    have c2: "confined root fs fs2"
      by (rule confined_trans [OF c1 confined_create [OF made prefix_order.refl]]) simp
    let ?fs3 = "set_private_plugin_permissions fs2 root True False"
    have c3: "confined root fs ?fs3" by (rule confined_trans [OF c2 confined_root_permissions])
    obtain fs4 r4 where run: "(case open_validated_plugin_zip_archive parse file cancelled_open of Inl err \<Rightarrow> (?fs3, Inl err)
        | Inr (archive, _) \<Rightarrow> extract_entries io cancelled staging_dir 0 (za_entries archive) ?fs3) = (fs4, r4)" by fastforce
    then have c4: "confined root fs fs4"
      using c3 confined_trans [OF c3] extract_entries_confined [OF _ assms(1)]
      by (auto simp: root_def split: sum.splits)
    from assms(2) Some run have "fs' = fs \<or> fs' = fs2 \<or> fs' = fs4 \<or> fs' = remove_dir_all fs4 root"
      by (auto simp: extract_plugin_zip_archive_blocking_def root_def Let_def split: if_splits sum.splits)
    then show ?thesis using c2 c4 confined_trans [OF c4 confined_remove] by auto
  qed
  then show ?thesis unfolding confined_def below_def max_plugin_package_path_depth_def by blast
qed

section \<open>What a successful extraction leaves\<close>















section \<open>What the tests on the entries establish\<close>













section \<open>Reading the declared number back\<close>

definition le16 :: "nat \<Rightarrow> string" where
  "le16 n = [char_of (n mod 256), char_of (n div 256)]"

definition le32 :: "nat \<Rightarrow> string" where
  "le32 n = [char_of (n mod 256), char_of (n div 256 mod 256), char_of (n div 65536 mod 256), char_of (n div 16777216)]"

text \<open>The end of an archive on one disk: the end record and the comment.\<close>

definition eocd_record :: "nat \<Rightarrow> nat \<Rightarrow> nat \<Rightarrow> string \<Rightarrow> string" where
  "eocd_record entries directory_size directory_offset comment =
     eocd_signature @ le16 0 @ le16 0 @ le16 entries @ le16 entries @ le32 directory_size @ le32 directory_offset @
     le16 (length comment) @ comment"

lemma byte_char_of_mod: "byte (char_of (n :: nat)) = n mod 256"
  by (simp add: byte_def)

lemma length_eocd_record: "length (eocd_record n ds off comment) = 22 + length comment"
  by (simp add: eocd_record_def eocd_signature_def le16_def le32_def)

lemma read_zip_u16_append: "read_zip_u16 (a @ b) (length a + i) = read_zip_u16 b i"
  by (simp add: read_zip_u16_def nth_append)

lemma read_zip_u32_append: "read_zip_u32 (a @ b) (length a + i) = read_zip_u32 b i"
  by (simp add: read_zip_u32_def nth_append)

lemma read_le32: "m < 4294967296 \<Longrightarrow> read_zip_u32 (le32 m @ b) 0 = Some m"
proof -
  assume "m < 4294967296"
  then have top: "m div 16777216 mod 256 = m div 16777216" by (simp add: less_mult_imp_div_less)
  have "m = m mod 256 + 256 * (m div 256)" by simp
  moreover have "m div 256 = m div 256 mod 256 + 256 * (m div 65536)" using mod_mult_div_eq [of "m div 256" 256] by (simp add: div_mult2_eq [symmetric])
  moreover have "m div 65536 = m div 65536 mod 256 + 256 * (m div 16777216)" using mod_mult_div_eq [of "m div 65536" 256] by (simp add: div_mult2_eq [symmetric])
  ultimately have "m mod 256 + 256 * (m div 256 mod 256) + 65536 * (m div 65536 mod 256) + 16777216 * (m div 16777216) = m"
    by linarith
  then show ?thesis by (simp add: read_zip_u32_def le32_def byte_char_of_mod top)
qed

lemma eocd_record_fields:
  assumes "n < 65536" "ds < 4294967296" "off < 4294967296" "length comment < 65536"
  shows "read_zip_u16 (eocd_record n ds off comment) 4 = Some 0" "read_zip_u16 (eocd_record n ds off comment) 6 = Some 0"
    "read_zip_u16 (eocd_record n ds off comment) 8 = Some n" "read_zip_u16 (eocd_record n ds off comment) 10 = Some n"
    "read_zip_u32 (eocd_record n ds off comment) 12 = Some ds" "read_zip_u32 (eocd_record n ds off comment) 16 = Some off"
    "read_zip_u16 (eocd_record n ds off comment) 20 = Some (length comment)"
proof -
  note layout = eocd_record_def eocd_signature_def le16_def le32_def
  show "read_zip_u16 (eocd_record n ds off comment) 4 = Some 0" "read_zip_u16 (eocd_record n ds off comment) 6 = Some 0"
    by (simp_all add: read_zip_u16_def layout byte_char_of_mod less_mult_imp_div_less)
  show "read_zip_u16 (eocd_record n ds off comment) 8 = Some n" "read_zip_u16 (eocd_record n ds off comment) 10 = Some n"
    using assms(1) by (simp_all add: read_zip_u16_def layout byte_char_of_mod less_mult_imp_div_less)
  show "read_zip_u16 (eocd_record n ds off comment) 20 = Some (length comment)"
    using assms(4) by (simp add: read_zip_u16_def layout byte_char_of_mod less_mult_imp_div_less)
  have "eocd_record n ds off comment = (eocd_signature @ le16 0 @ le16 0 @ le16 n @ le16 n) @ le32 ds @ le32 off @ le16 (length comment) @ comment"
    by (simp add: eocd_record_def)
  moreover have "length (eocd_signature @ le16 0 @ le16 0 @ le16 n @ le16 n) = 12" by (simp add: layout)
  ultimately show "read_zip_u32 (eocd_record n ds off comment) 12 = Some ds"
    using read_zip_u32_append [of "eocd_signature @ le16 0 @ le16 0 @ le16 n @ le16 n" _ 0] read_le32 [OF assms(2)] by (metis add.right_neutral)
  have "eocd_record n ds off comment = (eocd_signature @ le16 0 @ le16 0 @ le16 n @ le16 n @ le32 ds) @ le32 off @ le16 (length comment) @ comment"
    by (simp add: eocd_record_def)
  moreover have "length (eocd_signature @ le16 0 @ le16 0 @ le16 n @ le16 n @ le32 ds) = 16" by (simp add: layout)
  ultimately show "read_zip_u32 (eocd_record n ds off comment) 16 = Some off"
    using read_zip_u32_append [of "eocd_signature @ le16 0 @ le16 0 @ le16 n @ le16 n @ le32 ds" _ 0] read_le32 [OF assms(3)] by (metis add.right_neutral)
qed

lemma find_rev_upt: "p < m \<Longrightarrow> P p \<Longrightarrow> (\<And>k. p < k \<Longrightarrow> k < m \<Longrightarrow> \<not> P k) \<Longrightarrow> find P (rev [0..<m]) = Some p"
proof (induction m)
  case (Suc m)
  show ?case
  proof (cases "p = m")
    case True
    with Suc.prems show ?thesis by simp
  next
    case False
    with Suc show ?thesis by simp
  qed
qed simp

lemma declared_count_of_record:
  assumes "n < 65535" "ds < 4294967295" "off < 4294967295" "length comment < 65536"
    and "length (body @ eocd_record n ds off comment) \<le> max_plugin_package_bytes"
    and once: "\<forall>k. 0 < k \<longrightarrow> \<not> starts_with eocd_signature (drop k (eocd_record n ds off comment))"
  shows "declared_zip_entry_count (body @ eocd_record n ds off comment) = Inr n"
proof -
  let ?r = "eocd_record n ds off comment"
  let ?file = "body @ ?r"
  define tail_len where "tail_len = min (length ?file) (eocd_min_bytes + u16_max)"
  define kept where "kept = drop (length ?file - tail_len) body"
  have short: "length ?r \<le> tail_len" "tail_len \<le> length ?file"
    using assms(4) by (simp_all add: tail_len_def length_eocd_record eocd_min_bytes_def)
  then have tail: "drop (length ?file - tail_len) ?file = kept @ ?r" by (simp add: kept_def)
  have len: "length kept + length ?r = tail_len" using short by (simp add: kept_def)
  have field: "read_zip_u16 (kept @ ?r) (length kept + i) = read_zip_u16 ?r i" "read_zip_u32 (kept @ ?r) (length kept + i) = read_zip_u32 ?r i" for i
    by (rule read_zip_u16_append, rule read_zip_u32_append)
  have "n < 65536" "ds < 4294967296" "off < 4294967296" using assms(1-3) by simp_all
  note fields = eocd_record_fields [OF this assms(4)]
  have here: "eocd_at (kept @ ?r) (length kept)"
    by (simp add: eocd_at_def field fields eocd_min_bytes_def length_eocd_record) (simp add: eocd_record_def starts_with_iff)
  have later: "\<not> eocd_at (kept @ ?r) k" if "length kept < k" for k
  proof -
    from that obtain i where "k = length kept + i" "0 < i" using less_imp_add_positive by blast
    with once show ?thesis by (simp add: eocd_at_def)
  qed
  have "length kept < tail_len - eocd_min_bytes + 1" using len by (simp add: length_eocd_record eocd_min_bytes_def)
  from find_rev_upt [where P = "eocd_at (kept @ ?r)", OF this here] later
  have found: "find (eocd_at (kept @ ?r)) (rev [0..<tail_len - eocd_min_bytes + 1]) = Some (length kept)" by blast
  have "eocd_min_bytes \<le> length ?file" by (simp add: length_eocd_record eocd_min_bytes_def)
  with assms(5) show ?thesis
    unfolding declared_zip_entry_count_def Let_def tail_len_def [symmetric] tail found option.case field fields
    using assms(1-3) by (simp add: unwrap_or_def)
qed

text \<open>
  C30. The number of entries reads back from the end record, for any body before it and any comment after it, of less
  than 64 KiB, in which the record's signature does not occur again, when the file is within the limit of a package: the search from the end finds this record and not a
  comment's bytes, and never reads outside the file.
\<close>

theorem declared_count_reads_back:
  assumes "n < 65535" "ds < 4294967295" "off < 4294967295" "length comment < 65536"
    and "length (body @ eocd_record n ds off comment) \<le> max_plugin_package_bytes"
    and "\<forall>k. 0 < k \<longrightarrow> \<not> starts_with eocd_signature (drop k (eocd_record n ds off comment))"
  shows "declared_zip_entry_count (body @ eocd_record n ds off comment) = Inr n"
  by (rule declared_count_of_record [OF assms])

lemma signature_once:
  assumes "CHR ''P'' \<notin> set (drop 1 (eocd_record n ds off comment))"
  shows "\<forall>k. 0 < k \<longrightarrow> \<not> starts_with eocd_signature (drop k (eocd_record n ds off comment))"
proof (intro allI impI)
  fix k :: nat assume "0 < k"
  then obtain j where k: "k = Suc j" by (cases k) auto
  have "drop k (eocd_record n ds off comment) = drop j (drop 1 (eocd_record n ds off comment))" by (simp add: k)
  with assms have "CHR ''P'' \<notin> set (drop k (eocd_record n ds off comment))" by (metis in_set_dropD)
  then show "\<not> starts_with eocd_signature (drop k (eocd_record n ds off comment))"
    by (auto simp: starts_with_iff eocd_signature_def)
qed

lemma declared_count_reads_back_witness:
  "declared_zip_entry_count (''data'' @ eocd_record 3 92 4 ''hi'') = Inr 3"
proof (rule declared_count_reads_back)
  show "\<forall>k. 0 < k \<longrightarrow> \<not> starts_with eocd_signature (drop k (eocd_record 3 92 4 ''hi''))"
    by (rule signature_once) (simp add: eocd_record_def eocd_signature_def le16_def le32_def char_of_def flip: numeral_2_eq_2)
qed (simp_all add: eocd_record_def eocd_signature_def le16_def le32_def max_plugin_package_bytes_def)

text \<open>An accepted mode is that of a plain file or directory, without the set-user, set-group and sticky bits.\<close>

lemma safe_mode_kind:
  assumes "zip_entry_unix_mode_is_safe is_dir (Some mode)"
  shows "mode AND 0xF000 \<noteq> 0xA000" "\<not> bit mode 11" "\<not> bit mode 10" "\<not> bit mode 9"
proof -
  from assms have low: "mode AND 0xE00 = 0" and kind: "mode AND 0xF000 \<in> {0, 0x8000, 0x4000}"
    by (auto simp: zip_entry_unix_mode_is_safe_def Let_def)
  from kind show "mode AND 0xF000 \<noteq> 0xA000" by auto
  have "\<not> bit (mode AND 0xE00) i" for i by (simp add: low)
  then have "\<not> (bit mode i \<and> bit (0xE00 :: 32 word) i)" for i by (simp add: bit_and_iff)
  moreover have "bit (0xE00 :: 32 word) 11" "bit (0xE00 :: 32 word) 10" "bit (0xE00 :: 32 word) 9" by simp_all
  ultimately show "\<not> bit mode 11" "\<not> bit mode 10" "\<not> bit mode 9" by blast+
qed

section \<open>Examples\<close>

definition example_entry :: "string \<Rightarrow> string \<Rightarrow> zip_entry" where
  "example_entry name content =
     \<lparr> ze_name = name, ze_encrypted = False, ze_compression = Stored, ze_size = length content, ze_compressed_size = length content,
       ze_is_dir = False, ze_unix_mode = None, ze_reads = [Some content] \<rparr>"

definition example_archive :: "zip_entry \<Rightarrow> zip_archive" where
  "example_archive e = \<lparr> za_offset = 0, za_overlapping = Some False, za_entries = [Some e] \<rparr>"

definition example_run :: "zip_entry \<Rightarrow> file_system \<times> (archive_error + unit)" where
  "example_run e = extract_plugin_zip_archive_blocking (\<lambda>_. Some (example_archive e)) (Some (eocd_record 1 0 0 [])) (\<lambda>_. False)
     \<lparr> st_remove = True, st_create = True, st_mode = True, st_cleanup = True \<rparr> (\<lambda>_ _. True) (\<lambda>_ _. False) ''/s'' (\<lambda>_. None)"


lemma example_paths:
  "path_components ''/s'' = [''/'', ''s'']" "path_components ''/s/a/b'' = [''/'', ''s'', ''a'', ''b'']" "path_components ''a/b'' = [''a'', ''b'']"
  "path_components ''../b'' = [''..'', ''b'']" "path_join ''/s'' ''a/b'' = ''/s/a/b''"
  by (simp_all add: path_components_def path_join_def slash_def starts_with_def Let_def)




lemma extraction_contained_witness:
  "let fs' = fst (example_run (example_entry ''../b'' ''xy''))
   in \<forall>p. fs' p = None \<or> prefix p [''/'', ''s''] \<or> (\<exists>rest. p = [''/'', ''s''] @ rest \<and> list_all safe_component rest \<and> length rest \<le> 32)"
proof -
  obtain fs' r where run: "example_run (example_entry ''../b'' ''xy'') = (fs', r)" by fastforce
  from extraction_contained [OF _ run [unfolded example_run_def]]
  show ?thesis by (simp add: run example_paths) blast
qed


end
