(* ===== verification/Plugin_Publication.thy ===== *)
theory Plugin_Publication
  imports Rust_Result
begin

text \<open>
  The publication of a plugin release (\<open>crates/jellyrin-api/src/lib.rs\<close>, 8603--8832): a staged directory is renamed
  into place, the previous release is kept aside until the new one is registered, and is put back when
  the registration fails. A directory's content is one value; whether each file-system call works is an
  input, and the directories handed to the clean-up thread are an output.
\<close>

type_synonym 'r directories = "string \<Rightarrow> 'r option"

datatype publication_error = Workspace_Exists | Inspection_Failed | Preparation_Failed | Swap_Failed

text \<open>\<open>std::fs::rename\<close> of a directory: the target must be free or an empty directory.\<close>

definition rename :: "('r \<Rightarrow> bool) \<Rightarrow> bool \<Rightarrow> string \<Rightarrow> string \<Rightarrow> 'r directories \<Rightarrow> 'r directories option" where
  "rename is_empty works source target d =
     (if works \<and> d source \<noteq> None \<and> pred_option is_empty (d target) then Some (d(source := None, target := d source)) else None)"

definition plugin_package_path_exists :: "bool \<Rightarrow> string \<Rightarrow> 'r directories \<Rightarrow> publication_error + bool" where
  "plugin_package_path_exists works path d = (if works then Inr (d path \<noteq> None) else Inl Inspection_Failed)"

record publication_guard =
  pg_install_dir :: string
  pg_rollback_dir :: "string option"
  pg_abandoned_dir :: string
  pg_committed :: bool

record publish_calls =
  pc_inspect_rollback :: bool
  pc_inspect_abandoned :: bool
  pc_inspect_install :: bool
  pc_set_aside :: bool
  pc_swap :: bool
  pc_put_back :: bool

definition publish_plugin_package ::
  "('r \<Rightarrow> bool) \<Rightarrow> publish_calls \<Rightarrow> string \<Rightarrow> string \<Rightarrow> string \<Rightarrow> string \<Rightarrow> 'r directories \<Rightarrow>
     'r directories \<times> (publication_error + publication_guard)" where
  "publish_plugin_package is_empty pc staging_dir install_dir rollback_dir abandoned_dir d =
     (case and_then (plugin_package_path_exists (pc_inspect_rollback pc) rollback_dir d) (\<lambda>b.
             if b then Inr True else plugin_package_path_exists (pc_inspect_abandoned pc) abandoned_dir d) of
        Inl e \<Rightarrow> (d, Inl e)
      | Inr True \<Rightarrow> (d, Inl Workspace_Exists)
      | Inr False \<Rightarrow>
          (case plugin_package_path_exists (pc_inspect_install pc) install_dir d of
             Inl e \<Rightarrow> (d, Inl e)
           | Inr had_previous_release \<Rightarrow>
               (case (if had_previous_release then rename is_empty (pc_set_aside pc) install_dir rollback_dir d else Some d) of
                  None \<Rightarrow> (d, Inl Preparation_Failed)
                | Some d \<Rightarrow>
                    (case rename is_empty (pc_swap pc) staging_dir install_dir d of
                       None \<Rightarrow>
                         (if had_previous_release then unwrap_or d (rename is_empty (pc_put_back pc) rollback_dir install_dir d) else d,
                          Inl Swap_Failed)
                     | Some d \<Rightarrow>
                         (d, Inr \<lparr> pg_install_dir = install_dir, pg_rollback_dir = (if had_previous_release then Some rollback_dir else None),
                               pg_abandoned_dir = abandoned_dir, pg_committed = False \<rparr>)))))"

text \<open>The removal on commit: done, or failed with this much of the directory left.\<close>

datatype 'r removal = Removed | Left "'r option"

definition commit :: "'r removal \<Rightarrow> publication_guard \<Rightarrow> 'r directories \<Rightarrow> publication_guard \<times> 'r directories" where
  "commit removal g d =
     (let g = g\<lparr> pg_committed := True \<rparr>
      in case pg_rollback_dir g of
          None \<Rightarrow> (g, d)
        | Some rollback_dir \<Rightarrow>
            if d rollback_dir = None then (g\<lparr> pg_rollback_dir := None \<rparr>, d)
            else (case removal of
                Removed \<Rightarrow> (g\<lparr> pg_rollback_dir := None \<rparr>, d(rollback_dir := None))
              | Left rest \<Rightarrow> (g, d(rollback_dir := rest))))"

record rollback_calls =
  rc_inspect :: bool
  rc_displace :: bool
  rc_restore :: bool
  rc_undo :: bool

text \<open>The answer holds the directories scheduled for clean-up.\<close>

definition rollback_now :: "('r \<Rightarrow> bool) \<Rightarrow> rollback_calls \<Rightarrow> publication_guard \<Rightarrow> 'r directories \<Rightarrow> 'r directories \<times> string list" where
  "rollback_now is_empty rc g d =
     (let install = pg_install_dir g; abandoned = pg_abandoned_dir g
      in if \<not> rc_inspect rc then (d, [])
         else
           let install_exists = d install \<noteq> None
           in case (if install_exists then rename is_empty (rc_displace rc) install abandoned d else Some d) of
               None \<Rightarrow> (d, [])
             | Some d \<Rightarrow>
                 let displaced_new_release = install_exists;
                     scheduled = (if displaced_new_release then [abandoned] else [])
                 in case pg_rollback_dir g of
                     None \<Rightarrow> (d, scheduled)
                   | Some rollback_dir \<Rightarrow>
                       (case rename is_empty (rc_restore rc) rollback_dir install d of
                          Some d \<Rightarrow> (d, scheduled)
                        | None \<Rightarrow>
                            (if displaced_new_release then unwrap_or d (rename is_empty (rc_undo rc) abandoned install d) else d, [])))"

definition drop_guard :: "('r \<Rightarrow> bool) \<Rightarrow> rollback_calls \<Rightarrow> publication_guard \<Rightarrow> 'r directories \<Rightarrow> 'r directories \<times> string list" where
  "drop_guard is_empty rc g d =
     (if pg_committed g then (d, (case pg_rollback_dir g of Some r \<Rightarrow> [r] | None \<Rightarrow> []))
      else rollback_now is_empty rc g d)"

text \<open>\<open>register_prepared_plugin_package\<close> after the publication: the guard is dropped on both paths.\<close>

definition register_prepared_plugin_package ::
  "('r \<Rightarrow> bool) \<Rightarrow> rollback_calls \<Rightarrow> 'r removal \<Rightarrow> bool \<Rightarrow> publication_guard \<Rightarrow> 'r directories \<Rightarrow> 'r directories \<times> string list" where
  "register_prepared_plugin_package is_empty rc removal registered g d =
     (if registered then (case commit removal g d of (g, d) \<Rightarrow> drop_guard is_empty rc g d)
      else drop_guard is_empty rc g d)"

text \<open>The thread removes what was scheduled.\<close>

definition clean :: "string list \<Rightarrow> 'r directories \<Rightarrow> 'r directories" where
  "clean paths d = (\<lambda>p. if p \<in> set paths then None else d p)"

text \<open>A whole installation of a staged release.\<close>

definition install_release ::
  "('r \<Rightarrow> bool) \<Rightarrow> publish_calls \<Rightarrow> rollback_calls \<Rightarrow> 'r removal \<Rightarrow> bool \<Rightarrow> string \<Rightarrow> string \<Rightarrow> string \<Rightarrow> string \<Rightarrow>
     'r directories \<Rightarrow> 'r directories \<times> string list \<times> publication_error option" where
  "install_release is_empty pc rc removal registered staging_dir install_dir rollback_dir abandoned_dir d =
     (case publish_plugin_package is_empty pc staging_dir install_dir rollback_dir abandoned_dir d of
        (d, Inl e) \<Rightarrow> (d, [], Some e)
      | (d, Inr g) \<Rightarrow>
          (case register_prepared_plugin_package is_empty rc removal registered g d of (d, scheduled) \<Rightarrow> (d, scheduled, None)))"

section \<open>The previous release survives\<close>

lemma rename_Some: "rename is_empty w s t d = Some d' \<longleftrightarrow>
    w \<and> d s \<noteq> None \<and> pred_option is_empty (d t) \<and> d' = d(s := None, t := d s)"
  by (auto simp: rename_def)

text \<open>Publication keeps the previous release at its place or at the rollback directory, and says which.\<close>

lemma publish_keeps:
  assumes "distinct [staging_dir, install_dir, rollback_dir, abandoned_dir]" "d install_dir = Some previous"
    and "publish_plugin_package is_empty pc staging_dir install_dir rollback_dir abandoned_dir d = (d', r)"
  shows "case r of
      Inl _ \<Rightarrow> d' install_dir = Some previous \<or> d' rollback_dir = Some previous
    | Inr g \<Rightarrow> g = \<lparr> pg_install_dir = install_dir, pg_rollback_dir = Some rollback_dir, pg_abandoned_dir = abandoned_dir, pg_committed = False \<rparr> \<and>
        d' rollback_dir = Some previous \<and> d' install_dir = d staging_dir \<and> d' abandoned_dir = None"
  using assms
  by (auto simp: publish_plugin_package_def plugin_package_path_exists_def rename_Some unwrap_or_def
      split: if_splits option.splits bool.splits)

lemma rollback_keeps:
  assumes "distinct [install_dir, rollback_dir, abandoned_dir]" "d rollback_dir = Some previous"
    and "rollback_now is_empty rc \<lparr> pg_install_dir = install_dir, pg_rollback_dir = Some rollback_dir, pg_abandoned_dir = abandoned_dir,
           pg_committed = c \<rparr> d = (d', scheduled)"
  shows "(d' install_dir = Some previous \<or> d' rollback_dir = Some previous) \<and> set scheduled \<subseteq> {abandoned_dir}"
  using assms
  by (auto simp: rollback_now_def rename_Some Let_def unwrap_or_def split: if_splits option.splits)

text \<open>
  C8. An installed plugin is never lost to a failed installation: whichever file-system calls fail, and whether
  the publication or the registration fails, the previous release is at its place or in the rollback
  directory, with its whole content, also after the clean-up thread has run.
\<close>

theorem previous_release_survives:
  assumes "distinct [staging_dir, install_dir, rollback_dir, abandoned_dir]" "d install_dir = Some previous"
    and "install_release is_empty pc rc removal registered staging_dir install_dir rollback_dir abandoned_dir d = (d', scheduled, e)"
    and "e \<noteq> None \<or> \<not> registered"
  shows "clean scheduled d' install_dir = Some previous \<or> clean scheduled d' rollback_dir = Some previous"
proof -
  obtain d1 r where p: "publish_plugin_package is_empty pc staging_dir install_dir rollback_dir abandoned_dir d = (d1, r)" by fastforce
  note kept = publish_keeps [OF assms(1,2) p]
  show ?thesis
  proof (cases r)
    case (Inl err)
    with kept assms(3) p show ?thesis by (auto simp: install_release_def clean_def)
  next
    case (Inr g)
    with kept have g: "g = \<lparr> pg_install_dir = install_dir, pg_rollback_dir = Some rollback_dir, pg_abandoned_dir = abandoned_dir, pg_committed = False \<rparr>"
        and old: "d1 rollback_dir = Some previous" by simp_all
    from assms(3,4) p Inr have "\<not> registered" by (auto simp: install_release_def split: prod.splits)
    with assms(3) p Inr have "rollback_now is_empty rc g d1 = (d', scheduled)"
      by (auto simp: install_release_def register_prepared_plugin_package_def drop_guard_def g split: prod.splits)
    from rollback_keeps [OF _ old this [unfolded g]] assms(1) show ?thesis by (auto simp: clean_def)
  qed
qed

section \<open>All or nothing\<close>

definition all_publish_calls :: publish_calls where
  "all_publish_calls = \<lparr> pc_inspect_rollback = True, pc_inspect_abandoned = True, pc_inspect_install = True, pc_set_aside = True,
     pc_swap = True, pc_put_back = True \<rparr>"

definition all_rollback_calls :: rollback_calls where
  "all_rollback_calls = \<lparr> rc_inspect = True, rc_displace = True, rc_restore = True, rc_undo = True \<rparr>"

text \<open>
  When the file-system calls work, an installation is all or nothing: a registered release is in place and the
  previous one is gone, a release whose registration failed leaves every directory but its own staging as it
  was; nothing is left in the rollback and abandoned directories.
\<close>

theorem publication_all_or_nothing:
  assumes "distinct [staging_dir, install_dir, rollback_dir, abandoned_dir]"
    and "d staging_dir = Some new" "d rollback_dir = None" "d abandoned_dir = None"
    and "install_release is_empty all_publish_calls all_rollback_calls removal registered staging_dir install_dir rollback_dir abandoned_dir d =
      (d', scheduled, e)"
  shows "e = None \<and> clean scheduled d' = (if registered then d(staging_dir := None, install_dir := Some new) else d(staging_dir := None))"
proof -
  have apart: "install_dir \<noteq> staging_dir" "install_dir \<noteq> rollback_dir" "install_dir \<noteq> abandoned_dir" "staging_dir \<noteq> rollback_dir"
      "staging_dir \<noteq> abandoned_dir" "rollback_dir \<noteq> abandoned_dir"
    using assms(1) by auto
  show ?thesis
  proof (cases "d install_dir")
  case None
  let ?g = "\<lparr> pg_install_dir = install_dir, pg_rollback_dir = None, pg_abandoned_dir = abandoned_dir, pg_committed = False \<rparr>"
  let ?d = "d(staging_dir := None, install_dir := Some new)"
  have swap: "rename is_empty True staging_dir install_dir d = Some ?d" using assms(2) None by (simp add: rename_def)
  have publish: "publish_plugin_package is_empty all_publish_calls staging_dir install_dir rollback_dir abandoned_dir d = (?d, Inr ?g)"
    using assms(3,4) None swap by (simp add: publish_plugin_package_def plugin_package_path_exists_def all_publish_calls_def)
  show ?thesis
  proof (cases registered)
    case True
    with assms(5) publish show ?thesis
      by (simp add: install_release_def register_prepared_plugin_package_def commit_def drop_guard_def clean_def)
  next
    case False
    have "rollback_now is_empty all_rollback_calls ?g ?d = (?d(install_dir := None, abandoned_dir := Some new), [abandoned_dir])"
      using assms(4) apart by (simp add: rollback_now_def all_rollback_calls_def rename_def)
    with assms(5) publish False have r: "d' = ?d(install_dir := None, abandoned_dir := Some new)" "scheduled = [abandoned_dir]" "e = None"
      by (auto simp: install_release_def register_prepared_plugin_package_def drop_guard_def)
    show ?thesis unfolding r using assms(4) None False apart by (auto simp: clean_def fun_eq_iff)
  qed
next
  case (Some previous)
  let ?g = "\<lparr> pg_install_dir = install_dir, pg_rollback_dir = Some rollback_dir, pg_abandoned_dir = abandoned_dir, pg_committed = False \<rparr>"
  let ?d = "d(rollback_dir := Some previous, staging_dir := None, install_dir := Some new)"
  have aside: "rename is_empty True install_dir rollback_dir d = Some (d(install_dir := None, rollback_dir := Some previous))"
    using assms(3) Some by (simp add: rename_def)
  have swap: "rename is_empty True staging_dir install_dir (d(install_dir := None, rollback_dir := Some previous)) = Some ?d"
    using assms(2) apart by (auto simp: rename_def fun_eq_iff)
  have publish: "publish_plugin_package is_empty all_publish_calls staging_dir install_dir rollback_dir abandoned_dir d = (?d, Inr ?g)"
    using assms(3,4) Some aside swap by (simp add: publish_plugin_package_def plugin_package_path_exists_def all_publish_calls_def)
  show ?thesis
  proof (cases registered)
    case True
    from apart have "clean (snd (register_prepared_plugin_package is_empty all_rollback_calls removal True ?g ?d))
        (fst (register_prepared_plugin_package is_empty all_rollback_calls removal True ?g ?d)) = ?d(rollback_dir := None)"
      by (cases removal) (auto simp: register_prepared_plugin_package_def commit_def drop_guard_def clean_def fun_eq_iff)
    moreover have "?d(rollback_dir := None) = d(staging_dir := None, install_dir := Some new)"
      using assms(3) apart by (auto simp: fun_eq_iff)
    ultimately show ?thesis using assms(5) publish True by (auto simp: install_release_def split: prod.splits)
  next
    case False
    have displace: "rename is_empty True install_dir abandoned_dir ?d = Some (?d(install_dir := None, abandoned_dir := Some new))"
      using assms(4) apart by (simp add: rename_def)
    have restore: "rename is_empty True rollback_dir install_dir (?d(install_dir := None, abandoned_dir := Some new)) =
        Some (?d(install_dir := None, abandoned_dir := Some new, rollback_dir := None, install_dir := Some previous))"
      using apart by (simp add: rename_def)
    have "rollback_now is_empty all_rollback_calls ?g ?d =
        (?d(install_dir := None, abandoned_dir := Some new, rollback_dir := None, install_dir := Some previous), [abandoned_dir])"
      using displace restore by (simp add: rollback_now_def all_rollback_calls_def)
    with assms(5) publish False
    have r: "d' = ?d(install_dir := None, abandoned_dir := Some new, rollback_dir := None, install_dir := Some previous)"
        "scheduled = [abandoned_dir]" "e = None"
      by (auto simp: install_release_def register_prepared_plugin_package_def drop_guard_def)
    show ?thesis unfolding r using assms(3,4) Some False apart by (auto simp: clean_def fun_eq_iff)
  qed
qed
qed

definition example_directories :: "nat directories" where
  "example_directories = [''staging'' \<mapsto> 2, ''plugins'' \<mapsto> 1]"

lemma previous_release_survives_witness:
  "let (d', scheduled, e) = install_release (\<lambda>_. False) all_publish_calls (all_rollback_calls\<lparr> rc_restore := False \<rparr>) Removed False
         ''staging'' ''plugins'' ''rollback'' ''abandoned'' example_directories
   in clean scheduled d' ''plugins'' = Some 1 \<or> clean scheduled d' ''rollback'' = Some 1"
proof -
  obtain d' scheduled e where run: "install_release (\<lambda>_. False) all_publish_calls (all_rollback_calls\<lparr> rc_restore := False \<rparr>) Removed False
      ''staging'' ''plugins'' ''rollback'' ''abandoned'' example_directories = (d', scheduled, e)"
    by (metis prod_cases3)
  from previous_release_survives [OF _ _ run] show ?thesis unfolding Let_def run prod.case by (simp add: example_directories_def)
qed

lemma publication_all_or_nothing_witness:
  "let (d', scheduled, e) = install_release (\<lambda>_. False) all_publish_calls all_rollback_calls Removed True
         ''staging'' ''plugins'' ''rollback'' ''abandoned'' example_directories
   in clean scheduled d' ''plugins'' = Some 2 \<and> clean scheduled d' ''staging'' = None"
proof -
  obtain d' scheduled e where run: "install_release (\<lambda>_. False) all_publish_calls all_rollback_calls Removed True
      ''staging'' ''plugins'' ''rollback'' ''abandoned'' example_directories = (d', scheduled, e)"
    by (metis prod_cases3)
  from publication_all_or_nothing [OF _ _ _ _ run] show ?thesis unfolding Let_def run prod.case by (simp add: example_directories_def)
qed

end
