(* ===== verification/Plugin_Packages.thy ===== *)
theory Plugin_Packages
  imports Playback_Profiles Media_Paths Entity_Ids Xtream_Catalog Rust_Result Rust_Path
begin

text \<open>
  The catalogue of plugin packages (\<open>crates/jellyrin-api/src/lib.rs\<close>, 8550--8588, 9177--9304, 9394--9401, 9669--9689,
  9770--9856 and 11123--11412): the repositories' packages normalised and merged, the choice of a
  version, the comparison of versions, the names of directories, the download with its redirects and
  the test of the checksum. The digests, the URL parser and the HTTP answers are inputs.
\<close>

section \<open>Versions\<close>

definition version_separator :: "char \<Rightarrow> bool" where
  "version_separator c \<longleftrightarrow> c = CHR ''.'' \<or> c = CHR ''-'' \<or> c = CHR ''+''"

definition parse_plugin_version_parts :: "string \<Rightarrow> nat list" where
  "parse_plugin_version_parts version =
     List.map_filter parse_u64 (takeWhile (list_all is_digit) (map trim (split_any version_separator version)))"

fun compare_version_parts :: "nat list \<Rightarrow> nat list \<Rightarrow> ordering" where
  "compare_version_parts [] [] = Equal"
| "compare_version_parts (l # ls) [] = then_with (cmp l 0) (compare_version_parts ls [])"
| "compare_version_parts [] (r # rs) = then_with (cmp 0 r) (compare_version_parts [] rs)"
| "compare_version_parts (l # ls) (r # rs) = then_with (cmp l r) (compare_version_parts ls rs)"

definition compare_plugin_versions :: "string \<Rightarrow> string \<Rightarrow> ordering" where
  "compare_plugin_versions left right =
     (let left_parts = parse_plugin_version_parts left; right_parts = parse_plugin_version_parts right
      in if left_parts = [] \<or> right_parts = [] then cmp (trim left) (trim right)
         else compare_version_parts left_parts right_parts)"

definition plugin_package_operation :: "json option \<Rightarrow> string \<Rightarrow> string" where
  "plugin_package_operation previous_plugin version =
     (case Option.bind previous_plugin (\<lambda>p. json_string_field p ''Version'') of
        None \<Rightarrow> ''Install''
      | Some previous_version \<Rightarrow>
          (case compare_plugin_versions version previous_version of
             Greater \<Rightarrow> ''Update'' | Less \<Rightarrow> ''Downgrade'' | Equal \<Rightarrow> ''Reinstall''))"

section \<open>The catalogue\<close>

definition package_version_runtime :: "json \<Rightarrow> string" where
  "package_version_runtime version = unwrap_or ''DotNetJellyfin'' (json_string_field version ''Runtime'')"




definition package_versions :: "json \<Rightarrow> json list" where
  "package_versions package = unwrap_or [] (Option.bind (json_field_case_insensitive package ''Versions'') as_array)"









record package_list_query =
  pl_runtime :: "string option"
  pl_target_abi :: "string option"
  pl_server_version :: "string option"

definition package_version_supports_server :: "json \<Rightarrow> string \<Rightarrow> bool" where
  "package_version_supports_server version server_version =
     (case json_string_field version ''TargetAbi'' of
        None \<Rightarrow> True
      | Some target_abi \<Rightarrow>
          trim target_abi = [] \<or> parse_plugin_version_parts server_version = [] \<or> parse_plugin_version_parts target_abi = [] \<or>
          compare_plugin_versions server_version target_abi \<noteq> Less)"

definition package_version_matches_list_query :: "json \<Rightarrow> package_list_query \<Rightarrow> bool" where
  "package_version_matches_list_query version q \<longleftrightarrow>
     pred_option (\<lambda>runtime. eq_ignore_case (package_version_runtime version) (trim runtime)) (pl_runtime q) \<and>
     pred_option (\<lambda>abi. eq_ignore_case (unwrap_or [] (json_string_field version ''TargetAbi'')) (trim abi)) (pl_target_abi q) \<and>
     pred_option (package_version_supports_server version) (pl_server_version q)"

definition filter_package_list :: "json list \<Rightarrow> package_list_query \<Rightarrow> json list" where
  "filter_package_list packages q =
     List.map_filter (\<lambda>package.
       let versions = filter (\<lambda>v. package_version_matches_list_query v q) (package_versions package)
       in if versions = [] then None else Some (jset ''Versions'' (JArr versions) package)) packages"

record package_query =
  pq_assembly_guid :: "string option"
  pq_version :: "string option"
  pq_repository_url :: "string option"

definition package_matches_query :: "json \<Rightarrow> string \<Rightarrow> package_query \<Rightarrow> bool" where
  "package_matches_query package name q \<longleftrightarrow>
     is_some_and (\<lambda>n. eq_ignore_case n (trim name)) (json_string_field package ''Name'') \<and>
     pred_option (\<lambda>guid. is_some_and (\<lambda>g. eq_ignore_case g (trim guid)) (json_string_field package ''Guid'')) (pq_assembly_guid q) \<and>
     pred_option (\<lambda>url. list_ex (\<lambda>v. is_some_and (\<lambda>u. eq_ignore_case u (trim url))
         (opt_or (json_string_field v ''RepositoryUrl'') (json_string_field v ''SourceUrl''))) (package_versions package)) (pq_repository_url q) \<and>
     pred_option (\<lambda>version. list_ex (\<lambda>v. is_some_and (\<lambda>w. eq_ignore_case w (trim version)) (json_string_field v ''Version''))
         (package_versions package)) (pq_version q)"

definition select_package_version :: "json \<Rightarrow> string option \<Rightarrow> json option" where
  "select_package_version package requested_version =
     (case requested_version of
        Some requested \<Rightarrow> find (\<lambda>v. is_some_and (\<lambda>w. eq_ignore_case w (trim requested)) (json_string_field v ''Version'')) (package_versions package)
      | None \<Rightarrow> (case package_versions package of v # _ \<Rightarrow> Some v | [] \<Rightarrow> None))"

section \<open>The names of directories\<close>

definition segment_char :: "char \<Rightarrow> bool" where
  "segment_char c \<longleftrightarrow> is_alnum c \<or> c = CHR ''.'' \<or> c = CHR ''-'' \<or> c = CHR ''_''"

definition safe_plugin_path_segment :: "string \<Rightarrow> string" where
  "safe_plugin_path_segment v =
     (let segment = trim_char (CHR ''_'') (trim_char (CHR ''.'') (to_ascii_lowercase (map_ascii_or segment_char (CHR ''_'') (trim v))))
      in if segment = [] then stable_entity_id ''PluginPath'' v else segment)"

definition safe_discovered_plugin_segment :: "string \<Rightarrow> bool" where
  "safe_discovered_plugin_segment v \<longleftrightarrow> \<not> starts_with ''.'' v \<and> safe_plugin_path_segment v = v"

section \<open>The checksum\<close>

datatype package_error =
    Checksum_Not_Hex | Checksum_Format | Checksum_Mislabelled | Checksum_Mismatch
  | Wrong_Target_Abi | Not_Downloadable | Checksum_Required | Checksum_Not_Sha256
  | Invalid_Url | Download_Failed | Redirect_Limit | Bad_Redirect | Bad_Status | Package_Size

definition external_process_target_abi :: string where
  "external_process_target_abi = ''jellyrin-plugin-rpc-v1''"

definition plugin_package_source_url :: "json \<Rightarrow> json \<Rightarrow> string option" where
  "plugin_package_source_url package selected_version =
     opt_filter (\<lambda>s. s \<noteq> []) (map_option trim (find_map (\<lambda>x. x)
       [json_string_field selected_version ''SourceUrl'', json_string_field selected_version ''Url'', json_string_field package ''SourceUrl'']))"

definition plugin_package_checksum :: "json \<Rightarrow> json \<Rightarrow> string option" where
  "plugin_package_checksum package selected_version =
     opt_filter (\<lambda>s. s \<noteq> []) (map_option trim (find_map (\<lambda>x. x)
       (map (json_string_field selected_version) [''Checksum'', ''checksum'', ''Sha256'', ''SHA256'', ''Sha1'', ''SHA1''] @
        [json_string_field package ''Checksum''])))"

definition hex_digit_any :: "char \<Rightarrow> bool" where
  "hex_digit_any c \<longleftrightarrow> is_digit c \<or> byte_in 97 102 c \<or> byte_in 65 70 c"

definition hex_lower :: "string \<Rightarrow> string" where
  "hex_lower bytes = concat (map (\<lambda>b. show_hex_fixed 2 (byte b)) bytes)"

datatype digest = SHA256 | SHA1

definition digest_name :: "digest \<Rightarrow> string" where
  "digest_name d = (case d of SHA256 \<Rightarrow> ''SHA256'' | SHA1 \<Rightarrow> ''SHA1'')"

definition declared_digest :: "string \<Rightarrow> digest option \<times> string" where
  "declared_digest expected =
     (case opt_or (strip_prefix ''sha256:'' expected) (strip_prefix ''SHA256:'' expected) of
        Some v \<Rightarrow> (Some SHA256, v)
      | None \<Rightarrow>
          (case opt_or (strip_prefix ''sha1:'' expected) (strip_prefix ''SHA1:'' expected) of
             Some v \<Rightarrow> (Some SHA1, v)
           | None \<Rightarrow> (None, expected)))"

text \<open>\<open>digests\<close> are the two hash functions.\<close>

definition verify_plugin_package_checksum :: "(digest \<Rightarrow> string \<Rightarrow> string) \<Rightarrow> json \<Rightarrow> json \<Rightarrow> string \<Rightarrow> package_error + json" where
  "verify_plugin_package_checksum digests package selected_version bytes =
     (case plugin_package_checksum package selected_version of
        None \<Rightarrow> Inr (json_obj [(''Mode'', JStr ''not-provided'')])
      | Some expected \<Rightarrow>
          (case declared_digest (trim expected) of (declared_algorithm, expected) \<Rightarrow>
             if \<not> list_all hex_digit_any expected then Inl Checksum_Not_Hex
             else
               let expected = to_ascii_lowercase expected
               in case (if length expected = 64 then Some SHA256 else if length expected = 40 then Some SHA1 else None) of
                   None \<Rightarrow> Inl Checksum_Format
                 | Some algorithm \<Rightarrow>
                     if is_some_and (\<lambda>declared. declared \<noteq> algorithm) declared_algorithm then Inl Checksum_Mislabelled
                     else
                       let actual = hex_lower (digests algorithm bytes)
                       in if actual \<noteq> expected then Inl Checksum_Mismatch
                          else Inr (json_obj [(''Mode'', JStr ''verified''), (''Algorithm'', JStr (digest_name algorithm)), (''Value'', JStr actual)])))"

definition validate_external_process_package_metadata :: "json \<Rightarrow> json \<Rightarrow> string \<Rightarrow> string \<Rightarrow> package_error + unit" where
  "validate_external_process_package_metadata package selected_version runtime target_abi =
     (if \<not> eq_ignore_case runtime ''ExternalProcess'' then Inr ()
      else if target_abi \<noteq> external_process_target_abi then Inl Wrong_Target_Abi
      else if plugin_package_source_url package selected_version = None then Inl Not_Downloadable
      else case plugin_package_checksum package selected_version of
          None \<Rightarrow> Inl Checksum_Required
        | Some checksum \<Rightarrow>
            (case split_once (CHR '':'') (trim checksum) of
               Some (algorithm, v) \<Rightarrow>
                 if \<not> eq_ignore_case algorithm ''sha256'' then Inl Checksum_Not_Sha256
                 else check (length v = 64 \<and> list_all hex_digit_any v) Checksum_Not_Sha256
             | None \<Rightarrow> check (length (trim checksum) = 64 \<and> list_all hex_digit_any (trim checksum)) Checksum_Not_Sha256))"

section \<open>The download\<close>

definition max_plugin_package_redirects :: nat where "max_plugin_package_redirects = 5"

text \<open>
  What one request yields: it could not be made (also when the host has no allowed address); a redirection with its location, if readable; a failing status; or the declared length and
  the blocks of the body, \<open>None\<close> being a transport error.
\<close>

datatype http_answer = Send_Failed | Redirection "string option" | Failing_Status | Body "nat option" "string option list"

definition validate_plugin_package_url :: "'u url_ops \<Rightarrow> ('u \<Rightarrow> nat option) \<Rightarrow> bool \<Rightarrow> bool \<Rightarrow> 'u \<Rightarrow> bool" where
  "validate_plugin_package_url ops port insecure_allowed strict_external_process u \<longleftrightarrow>
     \<not> (\<not> http_scheme ops u \<or> (strict_external_process \<and> uo_scheme ops u \<noteq> ''https'' \<and> \<not> insecure_allowed) \<or>
        uo_username ops u \<noteq> [] \<or> uo_password ops u \<noteq> None \<or> uo_fragment ops u \<noteq> None \<or> uo_host ops u = None \<or> port u = None)"

fun read_package_body :: "nat \<Rightarrow> string \<Rightarrow> string option list \<Rightarrow> package_error + string" where
  "read_package_body bound bytes [] = Inr bytes"
| "read_package_body bound bytes (None # chunks) = Inl Download_Failed"
| "read_package_body bound bytes (Some chunk # chunks) =
     (if bound < sat_add usize_max (length bytes) (length chunk) then Inl Package_Size
      else read_package_body bound (bytes @ chunk) chunks)"

text \<open>The requests sent, in order, and the result; \<open>answers\<close> are consumed one by one, none left being a failed request.\<close>

fun download_package ::
  "'u url_ops \<Rightarrow> ('u \<Rightarrow> bool) \<Rightarrow> ('u \<Rightarrow> string \<Rightarrow> 'u option) \<Rightarrow> nat \<Rightarrow> nat \<Rightarrow> http_answer list \<Rightarrow> 'u \<Rightarrow> 'u list \<times> (package_error + string)" where
  "download_package ops valid join bound redirects_left [] u =
     (if valid u then ([u], Inl Download_Failed) else ([], Inl Invalid_Url))"
| "download_package ops valid join bound redirects_left (answer # answers) u =
     (if \<not> valid u then ([], Inl Invalid_Url)
      else case answer of
          Send_Failed \<Rightarrow> ([u], Inl Download_Failed)
        | Redirection location \<Rightarrow>
            (case redirects_left of
               0 \<Rightarrow> ([u], Inl Redirect_Limit)
             | Suc n \<Rightarrow>
                 (case Option.bind location (join u) of
                    None \<Rightarrow> ([u], Inl Bad_Redirect)
                  | Some u' \<Rightarrow> (case download_package ops valid join bound n answers u' of (sent, r) \<Rightarrow> (u # sent, r))))
        | Failing_Status \<Rightarrow> ([u], Inl Bad_Status)
        | Body declared chunks \<Rightarrow>
            ([u], if is_some_and (\<lambda>n. bound < n) declared then Inl Package_Size else read_package_body bound [] chunks))"

definition download_plugin_package_http ::
  "'u url_ops \<Rightarrow> ('u \<Rightarrow> nat option) \<Rightarrow> ('u \<Rightarrow> string \<Rightarrow> 'u option) \<Rightarrow> bool \<Rightarrow> bool \<Rightarrow> http_answer list \<Rightarrow> string \<Rightarrow>
     'u list \<times> (package_error + string)" where
  "download_plugin_package_http ops port join insecure_allowed strict_external_process answers source_url =
     (if 16 * 1024 < length source_url \<or> has_control source_url then ([], Inl Invalid_Url)
      else case uo_parse ops source_url of
          None \<Rightarrow> ([], Inl Invalid_Url)
        | Some u \<Rightarrow> download_package ops (validate_plugin_package_url ops port insecure_allowed strict_external_process) join
              (128 * 1024 * 1024) max_plugin_package_redirects answers u)"

section \<open>The order of versions\<close>

definition release :: "nat list \<Rightarrow> nat list" where
  "release parts = rev (dropWhile (\<lambda>n. n = 0) (rev parts))"

lemma release_Nil [simp]: "release [] = []"
  by (simp add: release_def)

lemma release_Cons: "release (n # ns) = (if release ns = [] \<and> n = 0 then [] else n # release ns)"
  by (auto simp: release_def dropWhile_append)

lemma cmp_Cons: "cmp (a # as) (b # bs) = then_with (cmp a b) (cmp as bs)" for a b :: nat
  by (auto simp: cmp_def then_with_def)

lemma cmp_Nil: "cmp [] (b # bs) = Less" "cmp (b # bs) [] = Greater" "cmp [] ([] :: nat list) = Equal" for b :: nat
  by (simp_all add: cmp_def)

lemma compare_version_parts_release: "compare_version_parts ls rs = cmp (release ls) (release rs)"
proof (induction ls rs rule: compare_version_parts.induct)
  case 1
  show ?case by (simp add: cmp_Nil)
next
  case (2 l ls)
  then show ?case by (cases "release ls") (auto simp: release_Cons then_with_def cmp_Nil cmp_def)
next
  case (3 r rs)
  then show ?case by (cases "release rs") (auto simp: release_Cons then_with_def cmp_Nil cmp_def)
next
  case (4 l ls r rs)
  show ?case
    by (cases "release ls"; cases "release rs") (auto simp: 4 release_Cons then_with_def cmp_Nil cmp_Cons, auto simp: cmp_def)
qed

text \<open>
  Versions with a number are compared as releases: the numbers, without trailing zeros, in lexicographic order;
  so the comparison is a total order in which 1.2 and 1.2.0 are the same, and 1.10 is after 1.9.
\<close>

theorem plugin_versions_compared_as_releases:
  assumes "parse_plugin_version_parts left \<noteq> []" "parse_plugin_version_parts right \<noteq> []"
  shows "compare_plugin_versions left right =
    cmp (release (parse_plugin_version_parts left)) (release (parse_plugin_version_parts right))"
  using assms by (simp add: compare_plugin_versions_def compare_version_parts_release)

lemma example_versions:
  "parse_plugin_version_parts ''10'' = [10]" "parse_plugin_version_parts ''2'' = [2]" "parse_plugin_version_parts ''1a'' = []"
  "parse_plugin_version_parts ''1.2.0'' = [1, 2, 0]" "parse_plugin_version_parts ''1.2'' = [1, 2]"
  by (simp_all add: parse_plugin_version_parts_def version_separator_def trim_plain plain_char_def char_eval parse_u64_def parse_unsigned_def
      parse_digits_def digits_value_def digit_value_def map_filter_def)

lemma plugin_versions_compared_as_releases_witness: "compare_plugin_versions ''1.2.0'' ''1.2'' = Equal"
  using plugin_versions_compared_as_releases [of "''1.2.0''" "''1.2''"] by (simp add: example_versions release_def cmp_def)

text \<open>Without a number the texts are compared, and then the order has a cycle.\<close>

lemma plugin_versions_cycle:
  "compare_plugin_versions ''10'' ''1a'' = Less" "compare_plugin_versions ''1a'' ''2'' = Less" "compare_plugin_versions ''2'' ''10'' = Less"
  by (simp_all add: compare_plugin_versions_def example_versions trim_plain plain_char_def char_eval cmp_def then_with_def less_char_def)

section \<open>Directory names\<close>

lemma set_trim_char: "set (trim_char c s) \<subseteq> set s"
  by (auto simp: trim_char_def trim_end_char_def trim_start_char_def dest!: set_dropWhileD)

definition segment_ok :: "string \<Rightarrow> bool" where
  "segment_ok s \<longleftrightarrow> s \<noteq> [] \<and> list_all (\<lambda>c. is_digit c \<or> is_lower c \<or> c \<in> {CHR ''.'', CHR ''-'', CHR ''_''}) s"

lemma segment_char_lower: "segment_char c \<Longrightarrow> is_digit (ascii_lower c) \<or> is_lower (ascii_lower c) \<or> ascii_lower c \<in> {CHR ''.'', CHR ''-'', CHR ''_''}"
  by (auto simp: segment_char_def is_alnum_def ascii_lower_def is_digit_def is_lower_def is_upper_def byte_char_of)

lemma safe_plugin_path_segment_ok: "segment_ok (safe_plugin_path_segment v)"
proof -
  let ?m = "to_ascii_lowercase (map_ascii_or segment_char (CHR ''_'') (trim v))"
  have "is_digit c \<or> is_lower c \<or> c \<in> {CHR ''.'', CHR ''-'', CHR ''_''}" if "c \<in> set ?m" for c
  proof -
    from that obtain d where d: "d \<in> set (map_ascii_or segment_char (CHR ''_'') (trim v))" "c = ascii_lower d" by (auto simp: to_ascii_lowercase_def)
    have "segment_char (CHR ''_'')" by (simp add: segment_char_def)
    with map_ascii_or_set [OF d(1)] have "segment_char d" by auto
    then show ?thesis using segment_char_lower d(2) by blast
  qed
  moreover have "set (trim_char (CHR ''_'') (trim_char (CHR ''.'') ?m)) \<subseteq> set ?m" using set_trim_char by (meson subset_trans)
  moreover have "list_all (\<lambda>c. is_digit c \<or> is_lower c \<or> c \<in> {CHR ''.'', CHR ''-'', CHR ''_''}) (stable_entity_id t n)" for t n
    using stable_entity_id_shape [of t n] by (auto simp: list_all_iff hex_digit_def byte_in_def is_lower_def)
  moreover have "stable_entity_id t n \<noteq> []" for t n using stable_entity_id_shape [of t n] by auto
  ultimately show ?thesis unfolding segment_ok_def safe_plugin_path_segment_def Let_def by (auto simp: list_all_iff)
qed

text \<open>The dots are trimmed before the underscores, so a name of dots between other characters stays: a parent directory.\<close>

lemma segment_can_be_the_parent: "safe_plugin_path_segment ''/../'' = ''..''"
  by (simp add: safe_plugin_path_segment_def trim_plain plain_char_def char_eval segment_char_def is_cont_def to_ascii_lowercase_def
      trim_char_def trim_start_char_def trim_end_char_def)

lemma map_ascii_or_append: "map_ascii_or keep d (a @ b) = map_ascii_or keep d a @ map_ascii_or keep d b"
  by (induction a) auto

lemma map_ascii_or_plain: "byte c < 128 \<Longrightarrow> keep c \<Longrightarrow> map_ascii_or keep d [c] = [c]"
  by (simp add: is_cont_def)

lemma trim_char_plain: "s \<noteq> [] \<Longrightarrow> hd s \<noteq> c \<Longrightarrow> last s \<noteq> c \<Longrightarrow> trim_char c s = s"
proof -
  assume s: "s \<noteq> []" "hd s \<noteq> c" "last s \<noteq> c"
  then have "trim_start_char c s = s" by (cases s) (auto simp: trim_start_char_def)
  moreover from s have "dropWhile (\<lambda>x. x = c) (rev s) = rev s" by (cases s rule: rev_cases) auto
  ultimately show ?thesis by (simp add: trim_char_def trim_end_char_def)
qed

lemma alnum_lower: "is_alnum c \<Longrightarrow> is_alnum (ascii_lower c) \<and> byte c < 128"
  by (auto simp: is_alnum_def ascii_lower_def is_digit_def is_upper_def is_lower_def byte_char_of)

lemma alnum_not_special: "is_alnum c \<Longrightarrow> c \<noteq> CHR ''.'' \<and> c \<noteq> CHR ''_''"
  by (auto simp: char_eval)

lemma segment_of_plain_name:
  assumes "trim v \<noteq> []" "is_alnum (hd (trim v))" "is_alnum (last (trim v))"
  shows "is_alnum (hd (safe_plugin_path_segment v))"
proof -
  let ?m = "to_ascii_lowercase (map_ascii_or segment_char (CHR ''_'') (trim v))"
  have keep: "map_ascii_or segment_char (CHR ''_'') [c] = [c]" if "is_alnum c" for c
    using that alnum_lower by (intro map_ascii_or_plain) (auto simp: segment_char_def)
  obtain c r where c: "trim v = c # r" using assms(1) by (cases "trim v") auto
  obtain r' d where d: "trim v = r' @ [d]" using assms(1) by (cases "trim v" rule: rev_cases) auto
  have "?m = to_ascii_lowercase (map_ascii_or segment_char (CHR ''_'') ([c] @ r))" by (simp add: c)
  then have hd: "?m \<noteq> []" "hd ?m = ascii_lower c"
    using keep [of c] assms(2) unfolding map_ascii_or_append by (auto simp: c to_ascii_lowercase_def)
  have "?m = to_ascii_lowercase (map_ascii_or segment_char (CHR ''_'') (r' @ [d]))" by (simp only: d)
  then have last: "last ?m = ascii_lower d"
    using keep [of d] assms(3) unfolding map_ascii_or_append by (auto simp: d to_ascii_lowercase_def)
  have "is_alnum c" using assms(2) by (simp add: c)
  moreover have "is_alnum d" using assms(3) by (simp add: d)
  ultimately have alnum: "is_alnum (hd ?m)" "is_alnum (last ?m)"
    unfolding hd(2) last using alnum_lower by blast+
  then have "trim_char (CHR ''_'') (trim_char (CHR ''.'') ?m) = ?m"
    using alnum_not_special hd(1) by (simp add: trim_char_plain)
  with hd(1) alnum(1) show ?thesis by (simp add: safe_plugin_path_segment_def)
qed

text \<open>
  C35. The directory of a plugin or a version is one directory below the root: a name that begins and ends with a letter or a
  digit, and any name found on disk that the discovery accepts, gives one ordinary path component, neither
  the parent nor the directory itself.
\<close>

theorem plugin_segment_stays_below:
  assumes "trim v \<noteq> [] \<and> is_alnum (hd (trim v)) \<and> is_alnum (last (trim v)) \<or> safe_discovered_plugin_segment v" "packages_dir \<noteq> []"
  shows "let s = safe_plugin_path_segment v
    in s \<noteq> ''.'' \<and> s \<noteq> ''..'' \<and> path_components (path_join packages_dir s) = path_components packages_dir @ [s]"
proof -
  let ?s = "safe_plugin_path_segment v"
  have ok: "segment_ok ?s" by (rule safe_plugin_path_segment_ok)
  have first: "hd ?s \<noteq> CHR ''.''"
    using assms(1)
  proof
    assume "trim v \<noteq> [] \<and> is_alnum (hd (trim v)) \<and> is_alnum (last (trim v))"
    then show ?thesis using segment_of_plain_name alnum_not_special by blast
  next
    assume "safe_discovered_plugin_segment v"
    then have "\<not> starts_with ''.'' v" "?s = v" by (simp_all add: safe_discovered_plugin_segment_def)
    with ok show ?thesis by (cases v) (auto simp: segment_ok_def starts_with_def)
  qed
  then have dots: "?s \<noteq> ''.''" "?s \<noteq> ''..''" by auto
  have "slash \<notin> set ?s" using ok by (auto simp: segment_ok_def list_all_iff slash_def is_digit_def is_lower_def byte_def)
  with ok dots have "ordinary_name ?s" by (simp add: ordinary_name_def segment_ok_def)
  with dots assms(2) show ?thesis by (simp add: path_components_join)
qed

lemma plugin_segment_stays_below_witness:
  "let s = safe_plugin_path_segment ''My Plugin'' in path_components (path_join ''/p'' s) = path_components ''/p'' @ [s]"
proof -
  have "trim ''My Plugin'' = ''My Plugin''" by (rule trim_plain) (simp add: plain_char_def char_eval)
  with plugin_segment_stays_below [of "''My Plugin''" "''/p''"] show ?thesis by (simp add: Let_def char_eval)
qed

section \<open>The bytes of an external plugin are verified\<close>

lemma split_prefixed: "strip_prefix (a @ [c]) s = Some r \<Longrightarrow> c \<notin> set a \<Longrightarrow> split_once c s = Some (a, r)"
  by (auto simp: strip_prefix_Some split_once_append)

lemma hex_any_no_colon: "list_all hex_digit_any s \<Longrightarrow> CHR '':'' \<notin> set s"
  by (auto simp: list_all_iff hex_digit_any_def is_digit_def byte_in_def byte_def)

text \<open>
  C13. No unverified bytes become an external plugin: when the metadata of an external-process package was accepted and the
  checksum test passes, the SHA-256 digest of the downloaded bytes is the 64 hexadecimal digits the
  catalogue declares, whatever the spelling of the checksum field.
\<close>

theorem external_package_bytes_verified:
  assumes "validate_external_process_package_metadata package selected_version runtime target_abi = Inr ()"
    and "eq_ignore_case runtime ''ExternalProcess''"
    and verified: "verify_plugin_package_checksum digests package selected_version bytes = Inr v"
  shows "\<exists>checksum digits. plugin_package_checksum package selected_version = Some checksum \<and>
    (checksum = digits \<or> checksum = ''sha256:'' @ digits \<or> checksum = ''SHA256:'' @ digits) \<and> length digits = 64 \<and>
    hex_lower (digests SHA256 bytes) = to_ascii_lowercase digits \<and>
    v = json_obj [(''Mode'', JStr ''verified''), (''Algorithm'', JStr ''SHA256''), (''Value'', JStr (to_ascii_lowercase digits))]"
proof -
  from assms(1,2) obtain checksum where c: "plugin_package_checksum package selected_version = Some checksum"
    by (auto simp: validate_external_process_package_metadata_def split: if_splits option.splits)
  then have t: "trim checksum = checksum"
    by (auto simp: plugin_package_checksum_def dest!: opt_filter_SomeD)
  obtain declared digits where d: "declared_digest checksum = (declared, digits)" by fastforce
  from verified c t d have hex: "list_all hex_digit_any digits"
    by (auto simp: verify_plugin_package_checksum_def Let_def split: if_splits)
  have len: "length digits = 64 \<and> (checksum = digits \<or> checksum = ''sha256:'' @ digits \<or> checksum = ''SHA256:'' @ digits)"
  proof (cases "split_once (CHR '':'') checksum")
    case None
    then have colon: "CHR '':'' \<notin> set checksum" by (simp add: split_once_None_iff)
    have "strip_prefix p checksum = None" if "CHR '':'' \<in> set p" for p
      using colon that by (cases "strip_prefix p checksum") (auto simp: strip_prefix_Some)
    then have "digits = checksum" using d by (simp add: declared_digest_def)
    with assms(1,2) c t None show ?thesis
      by (auto simp: validate_external_process_package_metadata_def result_iffs split: if_splits)
  next
    case (Some ar)
    then obtain a r where s: "split_once (CHR '':'') checksum = Some (a, r)" by (cases ar) auto
    from split_once_Some [OF s] have whole: "checksum = a @ CHR '':'' # r" by simp
    have sha256: "eq_ignore_case a ''sha256''" "length r = 64"
      using assms(1,2) c t s by (auto simp: validate_external_process_package_metadata_def result_iffs split: if_splits)
    have digits: "digits = r \<and> a = p" if "strip_prefix (p @ '':'') checksum = Some digits" "CHR '':'' \<notin> set p" for p
      using split_prefixed [OF that] s by simp
    have not_sha1: "strip_prefix (p @ '':'') checksum = None" if "CHR '':'' \<notin> set p" "length p \<noteq> 6" for p
    proof (rule ccontr)
      assume "strip_prefix (p @ '':'') checksum \<noteq> None"
      then obtain x where "strip_prefix (p @ '':'') checksum = Some x" by blast
      from split_prefixed [OF this that(1)] s have "a = p" by simp
      moreover have "length a = 6" using sha256(1) length_to_ascii_lowercase [of a] by (simp add: eq_ignore_case_def to_ascii_lowercase_def)
      ultimately show False using that(2) by simp
    qed
    have "digits \<noteq> checksum" using hex_any_no_colon [OF hex] whole by auto
    then have "strip_prefix ''sha256:'' checksum = Some digits \<or> strip_prefix ''SHA256:'' checksum = Some digits"
      using d not_sha1 [of "''sha1''"] not_sha1 [of "''SHA1''"]
      by (auto simp: declared_digest_def opt_or_def split: option.splits)
    then show ?thesis
    proof
      assume p: "strip_prefix ''sha256:'' checksum = Some digits"
      with digits [of "''sha256''"] sha256(2) whole show ?thesis by simp
    next
      assume p: "strip_prefix ''SHA256:'' checksum = Some digits"
      with digits [of "''SHA256''"] sha256(2) whole show ?thesis by simp
    qed
  qed
  with verified c t d hex show ?thesis
    by (auto simp: verify_plugin_package_checksum_def Let_def length_to_ascii_lowercase digest_name_def split: if_splits)
qed

definition example_digits :: string where
  "example_digits = replicate 64 (CHR ''0'')"

lemma example_digits_facts:
  "length example_digits = 64" "list_all hex_digit_any example_digits" "to_ascii_lowercase example_digits = example_digits"
  "trim (''sha256:'' @ example_digits) = ''sha256:'' @ example_digits" "CHR '':'' \<notin> set example_digits"
  "hex_lower (replicate 32 (CHR 0x00)) = example_digits"
proof -
  show "length example_digits = 64" "list_all hex_digit_any example_digits" "to_ascii_lowercase example_digits = example_digits"
      "CHR '':'' \<notin> set example_digits"
    by (simp_all add: example_digits_def list_all_iff hex_digit_any_def char_eval to_ascii_lowercase_def)
  show "trim (''sha256:'' @ example_digits) = ''sha256:'' @ example_digits"
    by (rule trim_plain) (simp add: example_digits_def plain_char_def char_eval)
  show "hex_lower (replicate 32 (CHR 0x00)) = example_digits" by code_simp
qed

lemma example_digits_fact_trim: "trim (CHR ''s'' # ''ha256:'' @ example_digits) = ''sha256:'' @ example_digits"
  using example_digits_facts(4) by simp

definition example_version :: json where
  "example_version = json_obj [(''Checksum'', JStr (''sha256:'' @ example_digits)), (''SourceUrl'', JStr ''https://h/p.zip'')]"

lemma example_checksum:
  "plugin_package_checksum (JObj []) example_version = Some (''sha256:'' @ example_digits)"
  "plugin_package_source_url (JObj []) example_version \<noteq> None"
proof -
  have t: "trim ''https://h/p.zip'' = ''https://h/p.zip''" by (rule trim_plain) (simp add: plain_char_def char_eval)
  note digits = example_digits_fact_trim
  have "json_string_field example_version ''Checksum'' = Some (''sha256:'' @ example_digits)"
      "json_string_field example_version ''SourceUrl'' = Some ''https://h/p.zip''"
    using t digits by (simp_all add: example_version_def json_string_field_def json_field_case_insensitive_def json_obj_def eq_ignore_case_def
        to_ascii_lowercase_def char_eval)
  with t digits show "plugin_package_checksum (JObj []) example_version = Some (''sha256:'' @ example_digits)"
      "plugin_package_source_url (JObj []) example_version \<noteq> None"
    by (simp_all add: plugin_package_checksum_def plugin_package_source_url_def)
qed

lemma external_package_bytes_verified_witness:
  "\<exists>digits. length digits = 64 \<and> hex_lower (replicate 32 (CHR 0x00)) = to_ascii_lowercase digits"
proof -
  let ?digests = "\<lambda>_ _. replicate 32 (CHR 0x00)"
  note digits = example_digits_facts(1-3,5,6) example_digits_fact_trim
  have "split_once (CHR '':'') (''sha256:'' @ example_digits) = Some (''sha256'', example_digits)"
    using split_once_append [of "CHR '':''" "''sha256''" example_digits] by simp
  then have meta: "validate_external_process_package_metadata (JObj []) example_version ''ExternalProcess'' external_process_target_abi = Inr ()"
    using digits example_checksum by (simp add: validate_external_process_package_metadata_def eq_ignore_case_refl check_def)
  have "strip_prefix ''sha256:'' (''sha256:'' @ example_digits) = Some example_digits" by (simp add: strip_prefix_Some)
  then have "declared_digest (''sha256:'' @ example_digits) = (Some SHA256, example_digits)" by (simp add: declared_digest_def)
  then have "\<exists>v. verify_plugin_package_checksum ?digests (JObj []) example_version bytes = Inr v" for bytes
    using digits example_checksum(1) by (simp add: verify_plugin_package_checksum_def Let_def)
  then obtain v where "verify_plugin_package_checksum ?digests (JObj []) example_version ''zip'' = Inr v" by blast
  from external_package_bytes_verified [OF meta eq_ignore_case_refl this] show ?thesis by blast
qed

section \<open>The download is bounded\<close>

text \<open>
  C33. A download sends at most six requests, each to an address that passed the test, also after redirections: for an
  external process over HTTPS unless the operator allows otherwise, and never with credentials in the address;
  a package it returns has at most 128 MiB.
\<close>

theorem download_requests_validated:
  "case download_plugin_package_http ops port join insecure_allowed strict_external_process answers source_url of
     (sent, r) \<Rightarrow> length sent \<le> 6 \<and>
       list_all (\<lambda>u. http_scheme ops u \<and> (strict_external_process \<and> \<not> insecure_allowed \<longrightarrow> uo_scheme ops u = ''https'') \<and>
         uo_username ops u = [] \<and> uo_password ops u = None \<and> uo_host ops u \<noteq> None) sent \<and>
       (case r of Inr bytes \<Rightarrow> length bytes \<le> 128 * 1024 * 1024 \<and> sent \<noteq> [] | Inl _ \<Rightarrow> True)"
proof -
  have body: "read_package_body bound bytes chunks = Inr out \<Longrightarrow> length bytes \<le> bound \<Longrightarrow> bound < usize_max \<Longrightarrow> length out \<le> bound"
    for bound bytes chunks out
    by (induction bound bytes chunks rule: read_package_body.induct) (auto simp: sat_add_def min_def split: if_splits)
  have loop: "bound < usize_max \<Longrightarrow> (case download_package ops valid join bound n answers u of (sent, r) \<Rightarrow> length sent \<le> Suc n \<and> list_all valid sent \<and>
      (case r of Inr bytes \<Rightarrow> length bytes \<le> bound \<and> sent \<noteq> [] | Inl _ \<Rightarrow> True))" for valid bound n u
  proof (induction ops valid join bound n answers u rule: download_package.induct)
    case (1 ops valid join bound n u)
    then show ?case by simp
  next
    case (2 ops valid join bound n answer answers u)
    show ?case
    proof (cases answer)
      case (Redirection location)
      show ?thesis
      proof (cases n)
        case 0
        with Redirection show ?thesis by simp
      next
        case (Suc m)
        show ?thesis
        proof (cases "valid u \<and> Option.bind location (join u) \<noteq> None")
          case True
          then obtain u' where next_url: "Option.bind location (join u) = Some u'" by blast
          from True "2.IH" [OF _ Redirection Suc next_url "2.prems"] show ?thesis
            by (auto simp: Redirection Suc next_url split: prod.splits sum.splits)
        next
          case False
          then show ?thesis by (auto simp: Redirection Suc)
        qed
      qed
    next
      case (Body declared chunks)
      with body [of bound "[]" chunks] "2.prems" show ?thesis by (auto split: sum.split)
    qed auto
  qed
  let ?valid = "validate_plugin_package_url ops port insecure_allowed strict_external_process"
  have valid: "list_all ?valid sent \<Longrightarrow> list_all (\<lambda>u. http_scheme ops u \<and> (strict_external_process \<and> \<not> insecure_allowed \<longrightarrow> uo_scheme ops u = ''https'') \<and>
         uo_username ops u = [] \<and> uo_password ops u = None \<and> uo_host ops u \<noteq> None) sent" for sent
    by (auto simp: list_all_iff validate_plugin_package_url_def)
  show ?thesis
  proof (cases "uo_parse ops source_url")
    case None
    then show ?thesis by (simp add: download_plugin_package_http_def)
  next
    case (Some u)
    obtain sent r where run: "download_package ops ?valid join 134217728 5 answers u = (sent, r)" by fastforce
    have "length sent \<le> 6 \<and> list_all ?valid sent \<and> (case r of Inr bytes \<Rightarrow> length bytes \<le> 134217728 \<and> sent \<noteq> [] | Inl _ \<Rightarrow> True)"
      using loop [where bound = 134217728 and valid = ?valid and n = 5 and u = u] by (simp add: run)
    with valid [of sent] Some show ?thesis
      by (auto simp: download_plugin_package_http_def max_plugin_package_redirects_def run split: sum.splits)
  qed
qed

definition https_ops :: "string url_ops" where
  "https_ops = example_url_ops\<lparr>uo_scheme := (\<lambda>_. ''https'')\<rparr>"

lemma redirected_download:
  "download_plugin_package_http https_ops (\<lambda>_. Some 443) (\<lambda>_. Some) False True
     [Redirection (Some ''https://h/q''), Body (Some 3) [Some ''zi'', Some ''p'']] ''https://h/p'' =
   ([''https://h/p'', ''https://h/q''], Inr ''zip'')"
proof -
  have valid: "validate_plugin_package_url https_ops (\<lambda>_. Some 443) False True u" for u
    by (simp add: validate_plugin_package_url_def https_ops_def example_url_ops_def http_scheme_def)
  have "\<not> has_control ''https://h/p''" by (simp add: has_control.simps char_eval)
  moreover have "uo_parse https_ops ''https://h/p'' = Some ''https://h/p''" by (simp add: https_ops_def example_url_ops_def)
  ultimately show ?thesis
    by (simp add: download_plugin_package_http_def valid max_plugin_package_redirects_def sat_add_def)
qed

lemma download_requests_validated_witness:
  "list_all (\<lambda>u. uo_scheme https_ops u = ''https'' \<and> uo_username https_ops u = []) [''https://h/p'', ''https://h/q''] \<and>
   length ''zip'' \<le> 128 * 1024 * 1024"
  using download_requests_validated [where ops = https_ops and port = "\<lambda>_. Some 443" and join = "\<lambda>_. Some" and
      insecure_allowed = False and strict_external_process = True and
      answers = "[Redirection (Some ''https://h/q''), Body (Some 3) [Some ''zi'', Some ''p'']]" and source_url = "''https://h/p''"]
  by (simp add: redirected_download)

section \<open>Merging loses no version\<close>




















end
