(* ===== verification/Raster_Images.thy ===== *)
theory Raster_Images
  imports Prelude "HOL-Library.Word"
begin

text \<open>
  The structural tests on the artwork a provider sends (\<open>crates/jellyrin-api/src/lib.rs\<close>, 26668--27003): four
  loops over untrusted bytes that walk the chunks of a PNG, the segments of a JPEG, the blocks of a GIF and
  the chunks of a WebP file. Bytes are \<open>8 word\<close>s and offsets are \<open>nat\<close>s. Offsets taken from lengths in
  the file are added with \<open>checked_add\<close> at the width of \<open>usize\<close>; \<open>saturating_add(1)\<close> on an offset inside the
  slice is \<open>+ 1\<close>, because a slice has at most \<open>isize::MAX\<close> bytes. Every loop is a total function: its measure is the
  number of bytes that are left.
\<close>

unbundle bit_operations_syntax

type_synonym bytes = "8 word list"

text \<open>\<open>bytes.get(i)\<close>, \<open>bytes[a..b]\<close>, \<open>starts_with\<close> and the integers of the formats.\<close>

definition get_byte :: "bytes \<Rightarrow> nat \<Rightarrow> 8 word option" where
  "get_byte bytes i = (if i < length bytes then Some (bytes ! i) else None)"

definition byte_range :: "bytes \<Rightarrow> nat \<Rightarrow> nat \<Rightarrow> bytes" where
  "byte_range bytes a b = take (b - a) (drop a bytes)"

definition has_prefix :: "bytes \<Rightarrow> bytes \<Rightarrow> bool" where
  "has_prefix p bytes \<longleftrightarrow> take (length p) bytes = p"

definition u16_be :: "8 word \<Rightarrow> 8 word \<Rightarrow> nat" where
  "u16_be a b = 256 * unat a + unat b"

definition u16_le :: "8 word \<Rightarrow> 8 word \<Rightarrow> nat" where
  "u16_le a b = u16_be b a"

definition u32_be :: "8 word \<Rightarrow> 8 word \<Rightarrow> 8 word \<Rightarrow> 8 word \<Rightarrow> nat" where
  "u32_be a b c d = 65536 * u16_be a b + u16_be c d"

definition u32_le :: "8 word \<Rightarrow> 8 word \<Rightarrow> 8 word \<Rightarrow> 8 word \<Rightarrow> nat" where
  "u32_le a b c d = u32_be d c b a"

definition u32_be_at :: "bytes \<Rightarrow> nat \<Rightarrow> nat" where
  "u32_be_at bytes i = u32_be (bytes ! i) (bytes ! (i + 1)) (bytes ! (i + 2)) (bytes ! (i + 3))"

definition u32_le_at :: "bytes \<Rightarrow> nat \<Rightarrow> nat" where
  "u32_le_at bytes i = u32_le (bytes ! i) (bytes ! (i + 1)) (bytes ! (i + 2)) (bytes ! (i + 3))"

definition u16_be_at :: "bytes \<Rightarrow> nat \<Rightarrow> nat" where
  "u16_be_at bytes i = u16_be (bytes ! i) (bytes ! (i + 1))"

definition u16_le_at :: "bytes \<Rightarrow> nat \<Rightarrow> nat" where
  "u16_le_at bytes i = u16_le (bytes ! i) (bytes ! (i + 1))"

section \<open>PNG\<close>

definition png_signature :: bytes where "png_signature = [137, 80, 78, 71, 13, 10, 26, 10]"
definition tag_ihdr :: bytes where "tag_ihdr = [73, 72, 68, 82]"
definition tag_idat :: bytes where "tag_idat = [73, 68, 65, 84]"
definition tag_iend :: bytes where "tag_iend = [73, 69, 78, 68]"

definition is_ascii_alphabetic :: "8 word \<Rightarrow> bool" where
  "is_ascii_alphabetic b \<longleftrightarrow> 65 \<le> b \<and> b \<le> 90 \<or> 97 \<le> b \<and> b \<le> 122"

text \<open>The frame of the chunk at an offset: its type, its data and the offset after its checksum.\<close>

definition png_chunk_at :: "bytes \<Rightarrow> nat \<Rightarrow> (bytes \<times> bytes \<times> nat) option" where
  "png_chunk_at bytes offset =
     (case checked_add usize_max offset 8 of None \<Rightarrow> None | Some type_end \<Rightarrow>
      if length bytes < type_end then None
      else case checked_add usize_max type_end (u32_be_at bytes offset) of None \<Rightarrow> None | Some data_end \<Rightarrow>
      case checked_add usize_max data_end 4 of None \<Rightarrow> None | Some chunk_end \<Rightarrow>
      if length bytes < chunk_end then None
      else Some (byte_range bytes (offset + 4) type_end, byte_range bytes type_end data_end, chunk_end))"

definition png_valid_depth :: "8 word \<Rightarrow> 8 word \<Rightarrow> bool" where
  "png_valid_depth colour depth \<longleftrightarrow>
     colour = 0 \<and> depth \<in> {1, 2, 4, 8, 16} \<or> colour = 2 \<and> depth \<in> {8, 16} \<or> colour = 3 \<and> depth \<in> {1, 2, 4, 8} \<or>
     colour = 4 \<and> depth \<in> {8, 16} \<or> colour = 6 \<and> depth \<in> {8, 16}"

definition png_header_ok :: "bytes \<Rightarrow> bytes \<Rightarrow> bool" where
  "png_header_ok chunk_type chunk_data \<longleftrightarrow>
     chunk_type = tag_ihdr \<and> length chunk_data = 13 \<and> png_valid_depth (chunk_data ! 9) (chunk_data ! 8) \<and>
     chunk_data ! 10 = 0 \<and> chunk_data ! 11 = 0 \<and> chunk_data ! 12 \<in> {0, 1}"

record png_state =
  png_index :: nat
  png_seen_idat :: bool
  png_idat_finished :: bool

datatype 's verdict = Reject | Finish bool | Continue 's

text \<open>The tests on one chunk: rejected, the end of the file with the answer, or the state for the next one.\<close>

definition png_step :: "png_state \<Rightarrow> bytes \<Rightarrow> bytes \<Rightarrow> png_state verdict" where
  "png_step s chunk_type chunk_data =
     (if \<not> list_all is_ascii_alphabetic chunk_type then Reject
      else if png_index s = 0 \<and> \<not> png_header_ok chunk_type chunk_data then Reject
      else if png_index s \<noteq> 0 \<and> chunk_type = tag_ihdr then Reject
      else if chunk_type = tag_idat \<and> (png_index s = 0 \<or> png_idat_finished s \<or> chunk_data = []) then Reject
      else
        let s = (if chunk_type = tag_idat then s\<lparr>png_seen_idat := True\<rparr>
                 else if png_seen_idat s then s\<lparr>png_idat_finished := True\<rparr> else s)
        in if chunk_type = tag_iend then Finish (chunk_data = [] \<and> png_seen_idat s)
           else Continue (s\<lparr>png_index := sat_add usize_max (png_index s) 1\<rparr>))"

lemma png_chunk_at_next: "png_chunk_at bytes offset = Some (t, d, chunk_end) \<Longrightarrow> offset + 12 \<le> chunk_end \<and> chunk_end \<le> length bytes"
  by (auto simp: png_chunk_at_def checked_add_def Let_def split: if_splits)

function png_chunks :: "bytes \<Rightarrow> nat \<Rightarrow> png_state \<Rightarrow> bool" where
  "png_chunks bytes offset s =
     (if offset < length bytes
      then case png_chunk_at bytes offset of None \<Rightarrow> False
           | Some (chunk_type, chunk_data, chunk_end) \<Rightarrow>
               (case png_step s chunk_type chunk_data of
                  Reject \<Rightarrow> False
                | Finish answer \<Rightarrow> answer \<and> chunk_end = length bytes
                | Continue s \<Rightarrow> png_chunks bytes chunk_end s)
      else False)"
  by pat_completeness auto
termination
  by (relation "measure (\<lambda>(bytes, offset, s). length bytes - offset)") (auto dest!: png_chunk_at_next)

declare png_chunks.simps [simp del]

definition complete_plugin_vod_png :: "bytes \<Rightarrow> bool" where
  "complete_plugin_vod_png bytes \<longleftrightarrow>
     has_prefix png_signature bytes \<and>
     png_chunks bytes (length png_signature) \<lparr>png_index = 0, png_seen_idat = False, png_idat_finished = False\<rparr>"

section \<open>JPEG\<close>

function skip_fill :: "bytes \<Rightarrow> nat \<Rightarrow> nat" where
  "skip_fill bytes offset = (if get_byte bytes offset = Some 0xff then skip_fill bytes (offset + 1) else offset)"
  by pat_completeness auto
termination
  by (relation "measure (\<lambda>(bytes, offset). length bytes - offset)") (auto simp: get_byte_def split: if_splits)

declare skip_fill.simps [simp del]

lemma skip_fill_ge: "offset \<le> skip_fill bytes offset"
proof (induction bytes offset rule: skip_fill.induct)
  case (1 bytes offset)
  then show ?case by (subst skip_fill.simps) auto
qed

lemma skip_fill_decreases:
  "skip_fill bytes (Suc offset) < length bytes \<Longrightarrow> length bytes - Suc (skip_fill bytes (Suc offset)) < length bytes - offset"
  using skip_fill_ge [of "Suc offset" bytes] by linarith

text \<open>Inside a scan: the marker that ends it, the offset after the marker, and whether entropy-coded data was seen.\<close>

function scan_marker :: "bytes \<Rightarrow> nat \<Rightarrow> bool \<Rightarrow> (8 word \<times> nat \<times> bool) option" where
  "scan_marker bytes offset seen_entropy =
     (case get_byte bytes offset of None \<Rightarrow> None
      | Some b \<Rightarrow>
          if b \<noteq> 0xff then scan_marker bytes (offset + 1) True
          else
            let offset = skip_fill bytes (offset + 1)
            in case get_byte bytes offset of None \<Rightarrow> None
               | Some marker \<Rightarrow>
                   if marker = 0x00 then scan_marker bytes (offset + 1) True
                   else if 0xd0 \<le> marker \<and> marker \<le> 0xd7 then scan_marker bytes (offset + 1) seen_entropy
                   else Some (marker, offset + 1, seen_entropy))"
  by pat_completeness auto
termination
  by (relation "measure (\<lambda>(bytes, offset, s). length bytes - offset)")
    (auto simp: get_byte_def split: if_splits dest!: skip_fill_decreases)

declare scan_marker.simps [simp del]

text \<open>Outside a scan.\<close>

definition header_marker :: "bytes \<Rightarrow> nat \<Rightarrow> (8 word \<times> nat) option" where
  "header_marker bytes offset =
     (if get_byte bytes offset \<noteq> Some 0xff then None
      else
        let offset = skip_fill bytes offset
        in case get_byte bytes offset of None \<Rightarrow> None | Some marker \<Rightarrow> Some (marker, offset + 1))"

record jpeg_state =
  jp_in_scan :: bool
  jp_seen_sof :: bool
  jp_seen_sos :: bool
  jp_seen_entropy :: bool
  jp_seen_quantization_table :: bool
  jp_seen_coding_table :: bool

definition jpeg_marker :: "bytes \<Rightarrow> nat \<Rightarrow> jpeg_state \<Rightarrow> (8 word \<times> nat \<times> jpeg_state) option" where
  "jpeg_marker bytes offset s =
     (if jp_in_scan s
      then map_option (\<lambda>(marker, offset, entropy). (marker, offset, s\<lparr>jp_seen_entropy := entropy, jp_in_scan := False\<rparr>))
             (scan_marker bytes offset (jp_seen_entropy s))
      else map_option (\<lambda>(marker, offset). (marker, offset, s)) (header_marker bytes offset))"

definition is_frame_marker :: "8 word \<Rightarrow> bool" where
  "is_frame_marker marker \<longleftrightarrow> marker \<in> {0xc0, 0xc1, 0xc2, 0xc3, 0xc5, 0xc6, 0xc7, 0xc9, 0xca, 0xcb, 0xcd, 0xce, 0xcf}"

text \<open>The data of the segment at an offset, and the offset after it.\<close>

definition jpeg_segment_at :: "bytes \<Rightarrow> nat \<Rightarrow> (bytes \<times> nat) option" where
  "jpeg_segment_at bytes offset =
     (case checked_add usize_max offset 2 of None \<Rightarrow> None | Some length_end \<Rightarrow>
      if length bytes < length_end then None
      else
        let segment_length = u16_be_at bytes offset
        in if segment_length < 2 then None
           else case checked_add usize_max offset segment_length of None \<Rightarrow> None | Some segment_end \<Rightarrow>
           if length bytes < segment_end then None else Some (byte_range bytes length_end segment_end, segment_end))"

definition jpeg_segment :: "8 word \<Rightarrow> bytes \<Rightarrow> jpeg_state \<Rightarrow> jpeg_state option" where
  "jpeg_segment marker segment s =
     (if is_frame_marker marker
      then if jp_seen_sof s \<or> length segment < 6 then None
           else
             let components = unat (segment ! 5)
             in if components = 0 \<or> length segment \<noteq> sat_add usize_max 6 (sat_mul usize_max components 3) \<or> segment ! 0 \<notin> {8, 12, 16}
                then None
                else Some (s\<lparr>jp_seen_sof := True\<rparr>)
      else if marker = 0xdb then Some (s\<lparr>jp_seen_quantization_table := segment \<noteq> []\<rparr>)
      else if marker = 0xc4 \<or> marker = 0xcc then Some (s\<lparr>jp_seen_coding_table := segment \<noteq> []\<rparr>)
      else if marker = 0xda
      then if \<not> jp_seen_sof s \<or> \<not> jp_seen_quantization_table s \<or> \<not> jp_seen_coding_table s \<or> segment = [] then None
           else
             let components = unat (segment ! 0)
             in if components = 0 \<or> length segment \<noteq> sat_add usize_max 4 (sat_mul usize_max components 2) then None
                else Some (s\<lparr>jp_seen_sos := True, jp_in_scan := True\<rparr>)
      else Some s)"

definition standalone_marker :: "8 word \<Rightarrow> bool" where
  "standalone_marker marker \<longleftrightarrow> marker = 0x00 \<or> marker = 0x01 \<or> 0xd0 \<le> marker \<and> marker \<le> 0xd8"

lemma scan_marker_next:
  "scan_marker bytes offset e = Some (m, next, e') \<Longrightarrow> offset < next"
proof (induction bytes offset e rule: scan_marker.induct)
  case (1 bytes offset e)
  from 1(4) show ?case
    by (subst (asm) scan_marker.simps)
      (use skip_fill_ge [of "offset + 1" bytes] 1(1-3) in
        \<open>fastforce simp: Let_def split: option.splits if_splits\<close>)
qed

lemma jpeg_marker_next: "jpeg_marker bytes offset s = Some (m, next, s') \<Longrightarrow> offset < next"
  using skip_fill_ge [of offset bytes]
  by (auto simp: jpeg_marker_def header_marker_def Let_def split: if_splits option.splits dest: scan_marker_next)

lemma jpeg_segment_at_next: "jpeg_segment_at bytes offset = Some (segment, next) \<Longrightarrow> offset < next \<and> next \<le> length bytes"
  by (auto simp: jpeg_segment_at_def checked_add_def Let_def split: if_splits)

function jpeg_segments :: "bytes \<Rightarrow> nat \<Rightarrow> jpeg_state \<Rightarrow> bool" where
  "jpeg_segments bytes offset s =
     (case jpeg_marker bytes offset s of None \<Rightarrow> False
      | Some (marker, offset, s) \<Rightarrow>
          if marker = 0xd9 then jp_seen_sof s \<and> jp_seen_sos s \<and> jp_seen_entropy s \<and> offset = length bytes
          else if standalone_marker marker then False
          else case jpeg_segment_at bytes offset of None \<Rightarrow> False
               | Some (segment, segment_end) \<Rightarrow>
                   (case jpeg_segment marker segment s of None \<Rightarrow> False
                    | Some s \<Rightarrow> jpeg_segments bytes segment_end s))"
  by pat_completeness auto
termination
  by (relation "measure (\<lambda>(bytes, offset, s). length bytes - offset)")
    (auto dest!: jpeg_marker_next jpeg_segment_at_next)

declare jpeg_segments.simps [simp del]

definition jpeg_start :: jpeg_state where
  "jpeg_start = \<lparr>jp_in_scan = False, jp_seen_sof = False, jp_seen_sos = False, jp_seen_entropy = False,
     jp_seen_quantization_table = False, jp_seen_coding_table = False\<rparr>"

definition complete_plugin_vod_jpeg :: "bytes \<Rightarrow> bool" where
  "complete_plugin_vod_jpeg bytes \<longleftrightarrow> 4 \<le> length bytes \<and> has_prefix [0xff, 0xd8] bytes \<and> jpeg_segments bytes 2 jpeg_start"

section \<open>GIF\<close>

function plugin_vod_gif_sub_blocks_end :: "bytes \<Rightarrow> nat \<Rightarrow> nat option" where
  "plugin_vod_gif_sub_blocks_end bytes offset =
     (case get_byte bytes offset of None \<Rightarrow> None
      | Some b \<Rightarrow>
          (case checked_add usize_max offset 1 of None \<Rightarrow> None
           | Some offset \<Rightarrow>
               if unat b = 0 then Some offset
               else case checked_add usize_max offset (unat b) of None \<Rightarrow> None
                    | Some offset \<Rightarrow>
                        if length bytes < offset then None else plugin_vod_gif_sub_blocks_end bytes offset))"
  by pat_completeness auto
termination
  by (relation "measure (\<lambda>(bytes, offset). length bytes - offset)")
    (auto simp: get_byte_def checked_add_def split: if_splits)

declare plugin_vod_gif_sub_blocks_end.simps [simp del]

text \<open>The end of an optional colour table whose flag and size are in a packed byte.\<close>

definition colour_table_end :: "bytes \<Rightarrow> 8 word \<Rightarrow> nat \<Rightarrow> nat option" where
  "colour_table_end bytes packed offset =
     (if packed AND 0x80 \<noteq> 0
      then
        let entries = 2 ^ (unat (packed AND 0x07) + 1)
        in case checked_mul usize_max entries 3 of None \<Rightarrow> None | Some color_table_bytes \<Rightarrow>
           case checked_add usize_max offset color_table_bytes of None \<Rightarrow> None | Some next \<Rightarrow>
           if length bytes < next then None else Some next
      else Some offset)"

definition gif_extension_end :: "bytes \<Rightarrow> nat \<Rightarrow> nat option" where
  "gif_extension_end bytes offset =
     (if get_byte bytes offset = None then None else plugin_vod_gif_sub_blocks_end bytes (offset + 1))"

definition gif_image_end :: "bytes \<Rightarrow> nat \<Rightarrow> nat option" where
  "gif_image_end bytes offset =
     (case checked_add usize_max offset 9 of None \<Rightarrow> None | Some descriptor_end \<Rightarrow>
      if length bytes < descriptor_end then None
      else case colour_table_end bytes (bytes ! (offset + 8)) descriptor_end of None \<Rightarrow> None | Some offset \<Rightarrow>
      case get_byte bytes offset of None \<Rightarrow> None | Some minimum_code_size \<Rightarrow>
      if \<not> (2 \<le> minimum_code_size \<and> minimum_code_size \<le> 8) then None
      else plugin_vod_gif_sub_blocks_end bytes (offset + 1))"

lemma gif_sub_blocks_end_next:
  "plugin_vod_gif_sub_blocks_end bytes offset = Some next \<Longrightarrow> offset < next \<and> next \<le> length bytes"
proof (induction bytes offset rule: plugin_vod_gif_sub_blocks_end.induct)
  case (1 bytes offset)
  from 1(2) show ?case
    by (subst (asm) plugin_vod_gif_sub_blocks_end.simps)
      (use 1(1) in \<open>fastforce simp: get_byte_def checked_add_def split: option.splits if_splits\<close>)
qed

lemma colour_table_end_next: "colour_table_end bytes packed offset = Some next \<Longrightarrow> offset \<le> next"
  by (auto simp: colour_table_end_def checked_add_def checked_mul_def Let_def split: if_splits option.splits)

lemma gif_block_end_next:
  "gif_extension_end bytes offset = Some next \<Longrightarrow> offset < next"
  "gif_image_end bytes offset = Some next \<Longrightarrow> offset < next"
  by (fastforce simp: gif_extension_end_def gif_image_end_def checked_add_def split: if_splits option.splits
      dest!: gif_sub_blocks_end_next colour_table_end_next)+

function gif_blocks :: "bytes \<Rightarrow> nat \<Rightarrow> bool \<Rightarrow> bool" where
  "gif_blocks bytes offset seen_image =
     (case get_byte bytes offset of None \<Rightarrow> False
      | Some introducer \<Rightarrow>
          if introducer = 0x3b then seen_image \<and> offset + 1 = length bytes
          else if introducer = 0x21
          then case gif_extension_end bytes (offset + 1) of None \<Rightarrow> False | Some next \<Rightarrow> gif_blocks bytes next seen_image
          else if introducer = 0x2c
          then case gif_image_end bytes (offset + 1) of None \<Rightarrow> False | Some next \<Rightarrow> gif_blocks bytes next True
          else False)"
  by pat_completeness auto
termination
  by (relation "measure (\<lambda>(bytes, offset, s). length bytes - offset)")
    (auto simp: get_byte_def split: if_splits dest!: gif_block_end_next)

declare gif_blocks.simps [simp del]

definition gif_magic :: "bytes \<Rightarrow> bool" where
  "gif_magic bytes \<longleftrightarrow> has_prefix [71, 73, 70, 56, 55, 97] bytes \<or> has_prefix [71, 73, 70, 56, 57, 97] bytes"

definition complete_plugin_vod_gif :: "bytes \<Rightarrow> bool" where
  "complete_plugin_vod_gif bytes \<longleftrightarrow>
     14 \<le> length bytes \<and> gif_magic bytes \<and>
     (case colour_table_end bytes (bytes ! 10) 13 of None \<Rightarrow> False | Some offset \<Rightarrow> gif_blocks bytes offset False)"

section \<open>WebP\<close>

definition tag_vp8 :: bytes where "tag_vp8 = [86, 80, 56, 32]"
definition tag_vp8l :: bytes where "tag_vp8l = [86, 80, 56, 76]"
definition tag_vp8x :: bytes where "tag_vp8x = [86, 80, 56, 88]"
definition tag_anmf :: bytes where "tag_anmf = [65, 78, 77, 70]"
definition tag_riff :: bytes where "tag_riff = [82, 73, 70, 70]"
definition tag_webp :: bytes where "tag_webp = [87, 69, 66, 80]"

definition webp_chunk_types :: "bytes set" where
  "webp_chunk_types = {tag_vp8, tag_vp8l, tag_vp8x, [65, 76, 80, 72], [65, 78, 73, 77], tag_anmf, [73, 67, 67, 80],
     [69, 88, 73, 70], [88, 77, 80, 32]}"

text \<open>The chunk at an offset: its type, its length and the offset after its padding.\<close>

definition webp_chunk_at :: "bytes \<Rightarrow> nat \<Rightarrow> (bytes \<times> nat \<times> nat) option" where
  "webp_chunk_at bytes offset =
     (case checked_add usize_max offset 8 of None \<Rightarrow> None | Some header_end \<Rightarrow>
      if length bytes < header_end then None
      else
        let chunk_type = byte_range bytes offset (offset + 4)
        in if chunk_type \<notin> webp_chunk_types then None
           else
             let chunk_length = u32_le_at bytes (offset + 4)
             in case checked_add usize_max header_end chunk_length of None \<Rightarrow> None | Some data_end \<Rightarrow>
                case checked_add usize_max data_end (chunk_length mod 2) of None \<Rightarrow> None | Some chunk_end \<Rightarrow>
                if length bytes < chunk_end \<or> chunk_length mod 2 = 1 \<and> bytes ! data_end \<noteq> 0 then None
                else Some (chunk_type, chunk_length, chunk_end))"

lemma webp_chunk_at_next: "webp_chunk_at bytes offset = Some (t, n, chunk_end) \<Longrightarrow> offset + 8 \<le> chunk_end \<and> chunk_end \<le> length bytes"
  by (auto simp: webp_chunk_at_def checked_add_def Let_def split: if_splits)

function webp_chunks :: "bytes \<Rightarrow> nat \<Rightarrow> bool \<Rightarrow> bool" where
  "webp_chunks bytes offset seen_image_payload =
     (if offset < length bytes
      then case webp_chunk_at bytes offset of None \<Rightarrow> False
           | Some (chunk_type, chunk_length, chunk_end) \<Rightarrow>
               webp_chunks bytes chunk_end
                 (seen_image_payload \<or> chunk_type \<in> {tag_vp8, tag_vp8l, tag_anmf} \<and> 0 < chunk_length)
      else offset = length bytes \<and> seen_image_payload)"
  by pat_completeness auto
termination
  by (relation "measure (\<lambda>(bytes, offset, s). length bytes - offset)") (auto dest!: webp_chunk_at_next)

declare webp_chunks.simps [simp del]

definition complete_plugin_vod_webp :: "bytes \<Rightarrow> bool" where
  "complete_plugin_vod_webp bytes \<longleftrightarrow>
     20 \<le> length bytes \<and> byte_range bytes 0 4 = tag_riff \<and> byte_range bytes 8 12 = tag_webp \<and>
     checked_add usize_max (u32_le_at bytes 4) 8 = Some (length bytes) \<and> webp_chunks bytes 12 False"

end
