(* ===== verification/Raster_Grammar.thy ===== *)
theory Raster_Grammar
  imports Raster_Images
begin

text \<open>
  What the loops of \<open>Raster_Images\<close> accept. Each format gets a reference grammar: a datatype of pieces, the bytes of a
  piece, and the sequences of pieces that are a file. The locale \<open>piece_loop\<close> states how a loop reads
  one piece and goes on, and proves once that such a loop accepts exactly the concatenated encodings of the accepted
  sequences; it is interpreted for the four loops of the code.
\<close>

section \<open>Loops over pieces\<close>

definition isize_max :: nat where "isize_max = 9223372036854775807"

text \<open>The pieces are taken one after the other; a finished file has nothing after it.\<close>

fun accepts :: "('s \<Rightarrow> 'c \<Rightarrow> bool) \<Rightarrow> ('s \<Rightarrow> 'c \<Rightarrow> 's verdict) \<Rightarrow> ('s \<Rightarrow> bool) \<Rightarrow> 's \<Rightarrow> 'c list \<Rightarrow> bool" where
  "accepts valid step stop s [] = stop s"
| "accepts valid step stop s (c # cs) =
     (valid s c \<and> (case step s c of Reject \<Rightarrow> False | Finish answer \<Rightarrow> answer \<and> cs = [] | Continue s \<Rightarrow> accepts valid step stop s cs))"

locale piece_loop =
  fixes read :: "'s \<Rightarrow> bytes \<Rightarrow> nat \<Rightarrow> ('c \<times> nat) option"
    and encode :: "'c \<Rightarrow> bytes"
    and valid :: "'s \<Rightarrow> 'c \<Rightarrow> bool"
    and step :: "'s \<Rightarrow> 'c \<Rightarrow> 's verdict"
    and stop :: "'s \<Rightarrow> bool"
    and loop :: "bytes \<Rightarrow> nat \<Rightarrow> 's \<Rightarrow> bool"
  assumes read_iff: "length bytes \<le> isize_max \<Longrightarrow> offset \<le> length bytes \<Longrightarrow>
      read s bytes offset = Some (c, next) \<longleftrightarrow>
      valid s c \<and> next = offset + length (encode c) \<and> (\<exists>rest. drop offset bytes = encode c @ rest)"
    and encode_nonempty: "valid s c \<Longrightarrow> encode c \<noteq> []"
    and loop_eq: "offset \<le> length bytes \<Longrightarrow> loop bytes offset s =
      (if offset = length bytes then stop s
       else case read s bytes offset of None \<Rightarrow> False
            | Some (c, next) \<Rightarrow>
                (case step s c of Reject \<Rightarrow> False | Finish answer \<Rightarrow> answer \<and> next = length bytes
                 | Continue s \<Rightarrow> loop bytes next s))"
begin

lemma read_encoded:
  "length bytes \<le> isize_max \<Longrightarrow> drop offset bytes = encode c @ rest \<Longrightarrow> offset \<le> length bytes \<Longrightarrow> valid s c \<Longrightarrow>
   read s bytes offset = Some (c, offset + length (encode c))"
  by (simp add: read_iff)

lemma read_next:
  assumes "length bytes \<le> isize_max" "offset \<le> length bytes" "read s bytes offset = Some (c, next)"
  shows "offset < next \<and> next \<le> length bytes \<and> drop offset bytes = encode c @ drop next bytes \<and> valid s c"
proof -
  from assms obtain rest where v: "valid s c" "next = offset + length (encode c)" "drop offset bytes = encode c @ rest"
    by (auto simp: read_iff)
  have "length (drop offset bytes) = length (encode c) + length rest" by (simp add: v(3))
  moreover have "drop next bytes = rest"
  proof -
    have "drop next bytes = drop (length (encode c)) (drop offset bytes)" by (simp add: v(2) add.commute)
    then show ?thesis by (simp add: v(3))
  qed
  moreover have "length (encode c) \<noteq> 0" using encode_nonempty [OF v(1)] by simp
  moreover have "length (drop offset bytes) = length bytes - offset" by simp
  ultimately have "offset < next \<and> next \<le> length bytes" using assms(2) v(2) by linarith
  then show ?thesis using v \<open>drop next bytes = rest\<close> by simp
qed

lemma loop_complete:
  "length bytes \<le> isize_max \<Longrightarrow> offset \<le> length bytes \<Longrightarrow> drop offset bytes = concat (map encode cs) \<Longrightarrow>
   accepts valid step stop s cs \<Longrightarrow> loop bytes offset s"
proof (induction cs arbitrary: offset s)
  case Nil
  then show ?case by (simp add: loop_eq)
next
  case (Cons c cs)
  from Cons.prems have v: "valid s c" and d: "drop offset bytes = encode c @ concat (map encode cs)" by simp_all
  have r: "read s bytes offset = Some (c, offset + length (encode c))"
    by (rule read_encoded [OF Cons.prems(1) d Cons.prems(2) v])
  note n = read_next [OF Cons.prems(1,2) r]
  have rest: "drop (offset + length (encode c)) bytes = concat (map encode cs)" using n d by simp
  have ne: "offset \<noteq> length bytes" using n by linarith
  have whole: "cs = [] \<Longrightarrow> offset + length (encode c) = length bytes" using rest n by simp
  show ?case
    using Cons.prems(4) Cons.IH [OF Cons.prems(1) _ rest] n ne r whole
    by (simp add: loop_eq [OF Cons.prems(2)] split: verdict.splits)
qed

lemma loop_sound:
  "length bytes \<le> isize_max \<Longrightarrow> offset \<le> length bytes \<Longrightarrow> loop bytes offset s \<Longrightarrow>
   \<exists>cs. drop offset bytes = concat (map encode cs) \<and> accepts valid step stop s cs"
proof (induction "length bytes - offset" arbitrary: offset s rule: less_induct)
  case less
  show ?case
  proof (cases "offset = length bytes")
    case True
    with less.prems have "stop s" by (simp add: loop_eq)
    with True show ?thesis by (intro exI [of _ "[]"]) simp
  next
    case False
    with less.prems obtain c "next" where r: "read s bytes offset = Some (c, next)"
      by (auto simp: loop_eq split: option.splits)
    note n = read_next [OF less.prems(1,2) r]
    show ?thesis
    proof (cases "step s c")
      case (Continue s')
      with less.prems(3) False r have "loop bytes next s'" by (simp add: loop_eq [OF less.prems(2)])
      moreover have "length bytes - next < length bytes - offset" using n by linarith
      ultimately obtain cs where "drop next bytes = concat (map encode cs)" "accepts valid step stop s' cs"
        using less.hyps [of "next" s'] less.prems(1) n by blast
      with n Continue show ?thesis by (intro exI [of _ "c # cs"]) simp
    next
      case (Finish answer)
      with less.prems(3) False r have "answer" "next = length bytes" by (simp_all add: loop_eq [OF less.prems(2)])
      with n Finish show ?thesis by (intro exI [of _ "[c]"]) simp
    next
      case Reject
      with less.prems(3) False r show ?thesis by (simp add: loop_eq [OF less.prems(2)])
    qed
  qed
qed

lemma loop_iff:
  "length bytes \<le> isize_max \<Longrightarrow> offset \<le> length bytes \<Longrightarrow>
   loop bytes offset s \<longleftrightarrow> (\<exists>cs. drop offset bytes = concat (map encode cs) \<and> accepts valid step stop s cs)"
  by (blast intro: loop_complete loop_sound)

end

section \<open>Bytes of integers\<close>

definition u32_be_bytes :: "nat \<Rightarrow> bytes" where
  "u32_be_bytes n = [of_nat (n div 16777216), of_nat (n div 65536), of_nat (n div 256), of_nat n]"

definition u32_le_bytes :: "nat \<Rightarrow> bytes" where
  "u32_le_bytes n = rev (u32_be_bytes n)"

definition u16_be_bytes :: "nat \<Rightarrow> bytes" where
  "u16_be_bytes n = [of_nat (n div 256), of_nat n]"

lemma unat_of_nat_byte: "unat (of_nat n :: 8 word) = n mod 256"
  by (simp add: unat_of_nat)

lemma unat_byte_less: "unat (b :: 8 word) < 256"
proof -
  have "unat b < 2 ^ LENGTH(8)" by (rule unsigned_less)
  then show ?thesis by simp
qed

lemma of_nat_byte_eq_iff: "(of_nat n :: 8 word) = b \<longleftrightarrow> n mod 256 = unat b"
  by (simp add: word_unat_eq_iff unat_of_nat)

lemma u16_be_less: "u16_be a b < 65536"
  using unat_byte_less [of a] unat_byte_less [of b] by (simp add: u16_be_def)

lemma u32_be_less: "u32_be a b c d < 4294967296"
  using u16_be_less [of a b] u16_be_less [of c d] by (simp add: u32_be_def)

lemma u16_be_bytes_iff: "n < 65536 \<Longrightarrow> u16_be_bytes n = [a, b] \<longleftrightarrow> u16_be a b = n"
proof -
  assume n: "n < 65536"
  have "u16_be_bytes n = [a, b] \<longleftrightarrow> n div 256 = unat a \<and> n mod 256 = unat b"
    using n by (simp add: u16_be_bytes_def of_nat_byte_eq_iff less_mult_imp_div_less)
  also have "\<dots> \<longleftrightarrow> u16_be a b = n"
  proof
    assume "n div 256 = unat a \<and> n mod 256 = unat b"
    then show "u16_be a b = n" unfolding u16_be_def using mult_div_mod_eq [of 256 n] by metis
  next
    assume "u16_be a b = n"
    then show "n div 256 = unat a \<and> n mod 256 = unat b" using unat_byte_less [of b] by (auto simp: u16_be_def)
  qed
  finally show ?thesis .
qed

lemma u32_be_bytes_split: "u32_be_bytes n = u16_be_bytes (n div 65536) @ u16_be_bytes n"
  by (simp add: u32_be_bytes_def u16_be_bytes_def div_mult2_eq [symmetric])

lemma u16_be_bytes_mod: "u16_be_bytes (n mod 65536) = u16_be_bytes n"
proof -
  have "n mod 65536 div 256 mod 256 = n div 256 mod 256" "n mod 65536 mod 256 = n mod 256"
    using mod_mult2_eq [of n 256 256] by simp_all
  then show ?thesis by (simp add: u16_be_bytes_def of_nat_byte_eq_iff unat_of_nat_byte)
qed

lemma u32_be_bytes_iff: "n < 4294967296 \<Longrightarrow> u32_be_bytes n = [a, b, c, d] \<longleftrightarrow> u32_be a b c d = n"
proof -
  assume n: "n < 4294967296"
  have "u32_be_bytes n = [a, b, c, d] \<longleftrightarrow>
      u16_be_bytes (n div 65536) = [a, b] \<and> u16_be_bytes (n mod 65536) = [c, d]"
    unfolding u32_be_bytes_split u16_be_bytes_mod by (auto simp: u16_be_bytes_def)
  also have "\<dots> \<longleftrightarrow> u16_be a b = n div 65536 \<and> u16_be c d = n mod 65536"
    using n by (simp add: u16_be_bytes_iff)
  also have "\<dots> \<longleftrightarrow> u32_be a b c d = n"
    using u16_be_less [of c d] by (auto simp: u32_be_def)
  finally show ?thesis .
qed

lemma length_int_bytes [simp]:
  "length (u32_be_bytes n) = 4" "length (u32_le_bytes n) = 4" "length (u16_be_bytes n) = 2"
  by (simp_all add: u32_be_bytes_def u32_le_bytes_def u16_be_bytes_def)

lemma u32_le_bytes_iff: "n < 4294967296 \<Longrightarrow> u32_le_bytes n = [a, b, c, d] \<longleftrightarrow> u32_le a b c d = n"
proof -
  assume "n < 4294967296"
  then have "u32_be_bytes n = [d, c, b, a] \<longleftrightarrow> u32_le a b c d = n" by (simp add: u32_be_bytes_iff u32_le_def)
  then show ?thesis by (simp add: u32_le_bytes_def u32_be_bytes_def)  blast
qed

text \<open>Reading at an offset, as a fact about what is left of the bytes there.\<close>

lemma drop_Cons_nth: "i < length xs \<Longrightarrow> drop i xs = xs ! i # drop (Suc i) xs"
  by (simp add: Cons_nth_drop_Suc)

lemma drop_append_shift: "drop i xs = p @ r \<Longrightarrow> drop (i + length p) xs = r"
  by (metis add.commute append_eq_conv_conj drop_drop)

lemma nth_of_drop: "drop i xs = r \<Longrightarrow> i \<le> length xs \<Longrightarrow> j < length r \<Longrightarrow> xs ! (i + j) = r ! j"
  by auto

lemma length_of_drop: "drop i xs = r \<Longrightarrow> i \<le> length xs \<Longrightarrow> length xs = i + length r"
  by auto

lemma u32_be_bytes_inj: "m < 4294967296 \<Longrightarrow> n < 4294967296 \<Longrightarrow> u32_be_bytes m = u32_be_bytes n \<Longrightarrow> m = n"
  using u32_be_bytes_iff [of m] u32_be_bytes_iff [of n] by (metis u32_be_bytes_def)

lemma u32_le_bytes_inj: "m < 4294967296 \<Longrightarrow> n < 4294967296 \<Longrightarrow> u32_le_bytes m = u32_le_bytes n \<Longrightarrow> m = n"
  by (auto simp: u32_le_bytes_def intro: u32_be_bytes_inj)

lemma u16_be_bytes_inj: "m < 65536 \<Longrightarrow> n < 65536 \<Longrightarrow> u16_be_bytes m = u16_be_bytes n \<Longrightarrow> m = n"
  using u16_be_bytes_iff [of m] u16_be_bytes_iff [of n] by (metis u16_be_bytes_def)

lemma bytes_of_int [simp]:
  "u16_be_bytes (u16_be a b) = [a, b]" "u32_be_bytes (u32_be a b c d) = [a, b, c, d]" "u32_le_bytes (u32_le a b c d) = [a, b, c, d]"
  using u16_be_bytes_iff [OF u16_be_less, of a b a b] u32_be_bytes_iff [OF u32_be_less, of a b c d a b c d]
    u32_be_bytes_iff [OF u32_be_less, of d c b a d c b a] by (simp_all add: u32_le_bytes_def u32_le_def)

lemma take_drop_2: "i + 2 \<le> length xs \<Longrightarrow> take 2 (drop i xs) = [xs ! i, xs ! (i + 1)]"
  by (simp add: drop_Cons_nth numeral_eq_Suc)

lemma take_drop_4: "i + 4 \<le> length xs \<Longrightarrow> take 4 (drop i xs) = [xs ! i, xs ! (i + 1), xs ! (i + 2), xs ! (i + 3)]"
  by (simp add: drop_Cons_nth numeral_eq_Suc)

lemma u32_be_at_bytes: "i + 4 \<le> length xs \<Longrightarrow> take 4 (drop i xs) = u32_be_bytes (u32_be_at xs i) \<and> u32_be_at xs i < 4294967296"
  by (simp only: take_drop_4 u32_be_at_def u32_be_less bytes_of_int)

lemma u32_le_at_bytes: "i + 4 \<le> length xs \<Longrightarrow> take 4 (drop i xs) = u32_le_bytes (u32_le_at xs i) \<and> u32_le_at xs i < 4294967296"
  by (simp only: take_drop_4 u32_le_at_def bytes_of_int) (simp add: u32_le_def u32_be_less)

lemma u16_be_at_bytes: "i + 2 \<le> length xs \<Longrightarrow> take 2 (drop i xs) = u16_be_bytes (u16_be_at xs i) \<and> u16_be_at xs i < 65536"
  by (simp only: take_drop_2 u16_be_at_def u16_be_less bytes_of_int)

lemma drop_split: "drop i xs = take k (drop i xs) @ drop (i + k) xs"
  by (metis add.commute append_take_drop_id drop_drop)

lemma drop_after: "drop i xs = p @ r \<Longrightarrow> k = length p \<Longrightarrow> take k (drop i xs) = p \<and> drop (i + k) xs = r"
  by (simp add: drop_append_shift)

section \<open>The chunks of a PNG\<close>

datatype png_chunk = Png_Chunk (pc_type: bytes) (pc_data: bytes) (pc_checksum: bytes)

definition encode_png_chunk :: "png_chunk \<Rightarrow> bytes" where
  "encode_png_chunk c = u32_be_bytes (length (pc_data c)) @ pc_type c @ pc_data c @ pc_checksum c"

definition png_frame :: "png_chunk \<Rightarrow> bool" where
  "png_frame c \<longleftrightarrow> length (pc_type c) = 4 \<and> length (pc_data c) < 4294967296 \<and> length (pc_checksum c) = 4"

definition png_read :: "bytes \<Rightarrow> nat \<Rightarrow> (png_chunk \<times> nat) option" where
  "png_read bytes offset =
     map_option (\<lambda>(t, d, chunk_end). (Png_Chunk t d (byte_range bytes (chunk_end - 4) chunk_end), chunk_end)) (png_chunk_at bytes offset)"

lemma png_read_sound:
  assumes "png_read bytes offset = Some (c, next)"
  shows "png_frame c \<and> next = offset + length (encode_png_chunk c) \<and> drop offset bytes = encode_png_chunk c @ drop next bytes"
proof -
  let ?n = "u32_be_at bytes offset"
  from assms have n: "next = offset + 12 + ?n" "next \<le> length bytes" "offset + 4 \<le> length bytes"
      and c: "c = Png_Chunk (take 4 (drop (offset + 4) bytes)) (take ?n (drop (offset + 8) bytes)) (take 4 (drop (offset + 8 + ?n) bytes))"
    by (auto simp: png_read_def png_chunk_at_def checked_add_def byte_range_def Let_def ac_simps split: if_splits)
  note u = u32_be_at_bytes [OF n(3)]
  have "drop offset bytes = take 4 (drop offset bytes) @ take 4 (drop (offset + 4) bytes) @ take ?n (drop (offset + 8) bytes) @
      take 4 (drop (offset + 8 + ?n) bytes) @ drop (offset + 12 + ?n) bytes"
    using drop_split [of offset bytes 4] drop_split [of "offset + 4" bytes 4] drop_split [of "offset + 8" bytes ?n]
      drop_split [of "offset + 8 + ?n" bytes 4] by (simp add: ac_simps)
  with u n show ?thesis by (auto simp: c png_frame_def encode_png_chunk_def)
qed

lemma png_read_complete:
  assumes "length bytes \<le> isize_max" "png_frame c" "drop offset bytes = encode_png_chunk c @ rest" "offset \<le> length bytes"
  shows "png_read bytes offset = Some (c, offset + length (encode_png_chunk c))"
proof -
  let ?n = "length (pc_data c)"
  from assms(2) have l: "length (pc_type c) = 4" "?n < 4294967296" "length (pc_checksum c) = 4" by (simp_all add: png_frame_def)
  have len: "length bytes = offset + 12 + ?n + length rest"
    using length_of_drop [OF assms(3,4)] l by (simp add: encode_png_chunk_def)
  from assms(3) have d: "drop offset bytes = u32_be_bytes ?n @ pc_type c @ pc_data c @ pc_checksum c @ rest" by (simp add: encode_png_chunk_def)
  have d1: "take 4 (drop offset bytes) = u32_be_bytes ?n" "drop (offset + 4) bytes = pc_type c @ pc_data c @ pc_checksum c @ rest"
    using drop_after [OF d, of 4] by simp_all
  have d2: "take 4 (drop (offset + 4) bytes) = pc_type c" "drop (offset + 8) bytes = pc_data c @ pc_checksum c @ rest"
    using drop_after [OF d1(2), of 4] l by (simp_all add: ac_simps)
  have d3: "take ?n (drop (offset + 8) bytes) = pc_data c" "drop (offset + 8 + ?n) bytes = pc_checksum c @ rest"
    using drop_after [OF d2(2), of ?n] by (simp_all add: ac_simps)
  have d4: "take 4 (drop (offset + 8 + ?n) bytes) = pc_checksum c" unfolding d3(2) using l by simp
  have n: "u32_be_at bytes offset = ?n"
    using u32_be_at_bytes [of offset bytes] d1 len l(2) by (auto intro: u32_be_bytes_inj)
  have b: "length bytes \<le> 9223372036854775807" using assms(1) by (simp add: isize_max_def)
  have "png_chunk_at bytes offset = Some (pc_type c, pc_data c, offset + 12 + ?n)"
  proof -
    have "offset + 8 \<le> usize_max" "offset + 8 + ?n \<le> usize_max" "offset + 8 + ?n + 4 \<le> usize_max" "offset + 8 + ?n + 4 = offset + 12 + ?n"
      using b len by linarith+
    then have "checked_add usize_max offset 8 = Some (offset + 8)" "checked_add usize_max (offset + 8) ?n = Some (offset + 8 + ?n)"
        "checked_add usize_max (offset + 8 + ?n) 4 = Some (offset + 12 + ?n)"
      by (simp_all only: checked_add_def if_True)
    moreover have "byte_range bytes (offset + 4) (offset + 8) = pc_type c" "byte_range bytes (offset + 8) (offset + 8 + ?n) = pc_data c"
      using d2(1) d3(1) by (simp_all add: byte_range_def)
    moreover have "\<not> length bytes < offset + 8" "\<not> length bytes < offset + 12 + ?n" using len by linarith+
    ultimately show ?thesis by (simp add: png_chunk_at_def n)
  qed
  moreover have "byte_range bytes (offset + 12 + ?n - 4) (offset + 12 + ?n) = pc_checksum c"
    using d4 l by (simp add: byte_range_def ac_simps)
  ultimately show ?thesis using l by (simp add: png_read_def encode_png_chunk_def)
qed

interpretation png: piece_loop "\<lambda>_. png_read" encode_png_chunk "\<lambda>_. png_frame" "\<lambda>s c. png_step s (pc_type c) (pc_data c)" "\<lambda>_. False" png_chunks
proof
  show "length bytes \<le> isize_max \<Longrightarrow> offset \<le> length bytes \<Longrightarrow>
      png_read bytes offset = Some (c, next) \<longleftrightarrow>
      png_frame c \<and> next = offset + length (encode_png_chunk c) \<and> (\<exists>rest. drop offset bytes = encode_png_chunk c @ rest)"
    for bytes offset c "next"
    using png_read_sound [of bytes offset c "next"] png_read_complete [of bytes c offset] by blast
  show "png_frame c \<Longrightarrow> encode_png_chunk c \<noteq> []" for c
    by (auto simp: png_frame_def encode_png_chunk_def)
  show "offset \<le> length bytes \<Longrightarrow> png_chunks bytes offset s =
      (if offset = length bytes then False
       else case png_read bytes offset of None \<Rightarrow> False
            | Some (c, next) \<Rightarrow>
                (case png_step s (pc_type c) (pc_data c) of Reject \<Rightarrow> False | Finish answer \<Rightarrow> answer \<and> next = length bytes
                 | Continue s \<Rightarrow> png_chunks bytes next s))" for bytes offset s
    by (subst png_chunks.simps) (auto simp: png_read_def split: option.split verdict.split)
qed

text \<open>
  The reference: a header chunk, other chunks, the image data in consecutive chunks none of which is empty, other
  chunks, and an empty end chunk.
\<close>

definition png_other :: "png_chunk \<Rightarrow> bool" where
  "png_other c \<longleftrightarrow> list_all is_ascii_alphabetic (pc_type c) \<and> pc_type c \<noteq> tag_ihdr \<and> pc_type c \<noteq> tag_idat \<and> pc_type c \<noteq> tag_iend"

definition png_data :: "png_chunk \<Rightarrow> bool" where
  "png_data c \<longleftrightarrow> pc_type c = tag_idat \<and> pc_data c \<noteq> []"

definition png_file :: "png_chunk \<Rightarrow> png_chunk list \<Rightarrow> png_chunk list \<Rightarrow> png_chunk list \<Rightarrow> png_chunk \<Rightarrow> bool" where
  "png_file header before idats after end_chunk \<longleftrightarrow>
     list_all png_frame (header # before @ idats @ after @ [end_chunk]) \<and>
     png_header_ok (pc_type header) (pc_data header) \<and> list_all png_other before \<and> idats \<noteq> [] \<and> list_all png_data idats \<and>
     list_all png_other after \<and> pc_type end_chunk = tag_iend \<and> pc_data end_chunk = []"

lemma tags_distinct [simp]:
  "tag_ihdr \<noteq> tag_idat" "tag_idat \<noteq> tag_ihdr" "tag_ihdr \<noteq> tag_iend" "tag_iend \<noteq> tag_ihdr" "tag_idat \<noteq> tag_iend" "tag_iend \<noteq> tag_idat"
  by (simp_all add: tag_ihdr_def tag_idat_def tag_iend_def)

lemma tags_alphabetic [simp]:
  "list_all is_ascii_alphabetic tag_ihdr" "list_all is_ascii_alphabetic tag_idat" "list_all is_ascii_alphabetic tag_iend"
  by (simp_all add: tag_ihdr_def tag_idat_def tag_iend_def is_ascii_alphabetic_def)

abbreviation png_accepts :: "png_state \<Rightarrow> png_chunk list \<Rightarrow> bool" where
  "png_accepts \<equiv> accepts (\<lambda>_. png_frame) (\<lambda>s c. png_step s (pc_type c) (pc_data c)) (\<lambda>_. False)"

abbreviation png_at :: "nat \<Rightarrow> bool \<Rightarrow> bool \<Rightarrow> png_state" where
  "png_at i seen finished \<equiv> \<lparr>png_index = i, png_seen_idat = seen, png_idat_finished = finished\<rparr>"

lemma png_step_first: "png_step (png_at 0 False False) t d = (if png_header_ok t d then Continue (png_at 1 False False) else Reject)"
  by (auto simp: png_step_def png_header_ok_def sat_add_def)

lemma png_step_later:
  "0 < i \<Longrightarrow> png_step (png_at i seen finished) t d =
     (if t = tag_iend then Finish (d = [] \<and> seen)
      else if t = tag_idat then if finished \<or> d = [] then Reject else Continue (png_at (sat_add usize_max i 1) True finished)
      else if \<not> list_all is_ascii_alphabetic t \<or> t = tag_ihdr then Reject
      else Continue (png_at (sat_add usize_max i 1) seen (finished \<or> seen)))"
  by (auto simp: png_step_def Let_def)

lemma png_accepts_Cons:
  "0 < i \<Longrightarrow> png_accepts (png_at i seen finished) (c # cs) \<longleftrightarrow>
     png_frame c \<and>
     (pc_type c = tag_iend \<and> pc_data c = [] \<and> seen \<and> cs = [] \<or>
      png_data c \<and> \<not> finished \<and> png_accepts (png_at (sat_add usize_max i 1) True finished) cs \<or>
      png_other c \<and> png_accepts (png_at (sat_add usize_max i 1) seen (finished \<or> seen)) cs)"
  by (auto simp: png_step_later png_data_def png_other_def)

text \<open>Any number of pieces with a property, then a sequence of a language.\<close>

definition many :: "('c \<Rightarrow> bool) \<Rightarrow> ('c list \<Rightarrow> bool) \<Rightarrow> 'c list \<Rightarrow> bool" where
  "many P L cs \<longleftrightarrow> (\<exists>a e. cs = a @ e \<and> list_all P a \<and> L e)"

lemma many_Nil [simp]: "many P L [] \<longleftrightarrow> L []"
  by (auto simp: many_def)

lemma many_Cons [simp]: "many P L (c # cs) \<longleftrightarrow> L (c # cs) \<or> P c \<and> many P L cs"
proof
  assume "many P L (c # cs)"
  then obtain a e where "c # cs = a @ e" "list_all P a" "L e" by (auto simp: many_def)
  then show "L (c # cs) \<or> P c \<and> many P L cs" by (cases a) (auto simp: many_def)
next
  assume "L (c # cs) \<or> P c \<and> many P L cs"
  then show "many P L (c # cs)"
  proof
    assume "L (c # cs)"
    then show ?thesis unfolding many_def by - (rule exI [of _ "[]"], rule exI [of _ "c # cs"], simp)
  next
    assume "P c \<and> many P L cs"
    then obtain a e where "cs = a @ e" "list_all P (c # a)" "L e" by (auto simp: many_def)
    then show ?thesis unfolding many_def by - (rule exI [of _ "c # a"], rule exI [of _ e], simp)
  qed
qed

fun png_end :: "png_chunk list \<Rightarrow> bool" where
  "png_end [] \<longleftrightarrow> False"
| "png_end (c # cs) \<longleftrightarrow> cs = [] \<and> pc_type c = tag_iend \<and> pc_data c = []"

lemma png_end_iff: "png_end cs \<longleftrightarrow> (\<exists>c. cs = [c] \<and> pc_type c = tag_iend \<and> pc_data c = [])"
  by (cases cs) auto

lemma png_other_not_end: "png_other c \<Longrightarrow> pc_type c \<noteq> tag_iend" "png_data c \<Longrightarrow> pc_type c \<noteq> tag_iend"
  by (simp_all add: png_other_def png_data_def)

text \<open>What is accepted after the image data, from the image data on, and after the header.\<close>

lemma sat_add_pos: "0 < i \<Longrightarrow> 0 < sat_add usize_max i 1"
  by (simp add: sat_add_def)

lemma png_other_not_data: "png_other c \<Longrightarrow> \<not> png_data c"
  by (simp add: png_other_def png_data_def)

lemma png_accepts_after:
  "0 < i \<Longrightarrow> png_accepts (png_at i True True) cs \<longleftrightarrow> list_all png_frame cs \<and> many png_other png_end cs"
proof (induction cs arbitrary: i)
  case (Cons c cs)
  show ?case
    unfolding png_accepts_Cons [OF Cons.prems] using Cons.IH [OF sat_add_pos [OF Cons.prems]]
    by auto
qed simp

lemma png_accepts_data:
  "0 < i \<Longrightarrow> png_accepts (png_at i True False) cs \<longleftrightarrow> list_all png_frame cs \<and> many png_data (many png_other png_end) cs"
proof (induction cs arbitrary: i)
  case (Cons c cs)
  note i = sat_add_pos [OF Cons.prems]
  show ?case
    unfolding png_accepts_Cons [OF Cons.prems] using Cons.IH [OF i] png_accepts_after [OF i, of cs]
    by auto
qed simp

lemma png_accepts_before:
  "0 < i \<Longrightarrow> png_accepts (png_at i False False) cs \<longleftrightarrow>
     list_all png_frame cs \<and> many png_other (\<lambda>cs. cs \<noteq> [] \<and> png_data (hd cs) \<and> many png_data (many png_other png_end) (tl cs)) cs"
proof (induction cs arbitrary: i)
  case (Cons c cs)
  note i = sat_add_pos [OF Cons.prems]
  show ?case
    unfolding png_accepts_Cons [OF Cons.prems] using Cons.IH [OF i] png_accepts_data [OF i, of cs]
    by auto
qed simp

lemma manyI: "list_all P a \<Longrightarrow> L e \<Longrightarrow> many P L (a @ e)"
  by (auto simp: many_def)

lemma png_accepts_iff:
  "png_accepts (png_at 0 False False) cs \<longleftrightarrow>
     (\<exists>header before idats after end_chunk. cs = header # before @ idats @ after @ [end_chunk] \<and> png_file header before idats after end_chunk)"
proof (cases cs)
  case (Cons header rest)
  let ?data = "many png_data (many png_other png_end)"
  let ?language = "many png_other (\<lambda>cs. cs \<noteq> [] \<and> png_data (hd cs) \<and> ?data (tl cs))"
  have "png_accepts (png_at 0 False False) cs \<longleftrightarrow> png_frame header \<and> png_header_ok (pc_type header) (pc_data header) \<and>
      list_all png_frame rest \<and> ?language rest"
    using png_accepts_before [of 1 rest] by (auto simp: Cons png_step_first)
  also have "\<dots> \<longleftrightarrow> (\<exists>before idats after e. rest = before @ idats @ after @ [e] \<and> png_file header before idats after e)"
  proof
    assume r: "png_frame header \<and> png_header_ok (pc_type header) (pc_data header) \<and> list_all png_frame rest \<and> ?language rest"
    then obtain before tail where 1: "rest = before @ tail" "list_all png_other before" "tail \<noteq> []" "png_data (hd tail)" "?data (tl tail)"
      unfolding many_def [of png_other "\<lambda>cs. cs \<noteq> [] \<and> png_data (hd cs) \<and> ?data (tl cs)"] by blast
    then obtain ds f where 2: "tl tail = ds @ f" "list_all png_data ds" "many png_other png_end f"
      unfolding many_def [of png_data] by blast
    then obtain after e where 3: "f = after @ [e]" "list_all png_other after" "png_end [e]"
      unfolding many_def by (auto simp: png_end_iff)
    have "tail = (hd tail # ds) @ after @ [e]" using 1(3) 2(1) 3(1) by (cases tail) auto
    with r 1 2 3 have "rest = before @ (hd tail # ds) @ after @ [e] \<and> png_file header before (hd tail # ds) after e"
      by (auto simp: png_file_def)
    then show "\<exists>before idats after e. rest = before @ idats @ after @ [e] \<and> png_file header before idats after e" by blast
  next
    assume "\<exists>before idats after e. rest = before @ idats @ after @ [e] \<and> png_file header before idats after e"
    then obtain before idats after e where r: "rest = before @ idats @ after @ [e]" and f: "png_file header before idats after e" by blast
    from f obtain d ds where ds: "idats = d # ds" by (cases idats) (auto simp: png_file_def)
    have "many png_other png_end (after @ [e])" using f by (intro manyI) (simp_all add: png_file_def)
    then have "?data (ds @ after @ [e])" using f by (intro manyI) (simp_all add: png_file_def ds)
    then have "?language (before @ idats @ after @ [e])" using f by (intro manyI) (simp_all add: png_file_def ds)
    with f show "png_frame header \<and> png_header_ok (pc_type header) (pc_data header) \<and> list_all png_frame rest \<and> ?language rest"
      by (simp add: r png_file_def)
  qed
  finally show ?thesis by (simp add: Cons)
qed simp

lemma png_accepted_iff:
  assumes "length bytes \<le> isize_max"
  shows "complete_plugin_vod_png bytes \<longleftrightarrow>
    (\<exists>header before idats after end_chunk. png_file header before idats after end_chunk \<and>
       bytes = png_signature @ concat (map encode_png_chunk (header # before @ idats @ after @ [end_chunk])))"
proof (cases "has_prefix png_signature bytes")
  case True
  then have "bytes = png_signature @ drop (length png_signature) bytes"
    unfolding has_prefix_def by (metis append_take_drop_id)
  moreover have l8: "length png_signature = 8" by (simp add: png_signature_def)
  ultimately have b: "bytes = png_signature @ drop 8 bytes" by simp
  then have 8: "8 \<le> length bytes" using length_append [of png_signature "drop 8 bytes"] by (simp add: png_signature_def)
  have "complete_plugin_vod_png bytes \<longleftrightarrow>
      (\<exists>cs. drop 8 bytes = concat (map encode_png_chunk cs) \<and> png_accepts (png_at 0 False False) cs)"
    using True png.loop_iff [OF assms 8] by (simp add: complete_plugin_vod_png_def l8)
  also have "\<dots> \<longleftrightarrow> (\<exists>cs. bytes = png_signature @ concat (map encode_png_chunk cs) \<and> png_accepts (png_at 0 False False) cs)"
  proof -
    have "drop 8 bytes = x \<longleftrightarrow> bytes = png_signature @ x" for x
    proof
      assume "bytes = png_signature @ x"
      then show "drop 8 bytes = x" by (simp add: l8)
    qed (use b in simp)
    then show ?thesis by simp
  qed
  finally show ?thesis unfolding png_accepts_iff by blast
next
  case False
  then show ?thesis by (auto simp: complete_plugin_vod_png_def has_prefix_def)
qed

text \<open>
  C12. A byte sequence is accepted as a complete PNG exactly when it is the signature followed by the chunks of a PNG
  file: a valid header chunk, other chunks, consecutive non-empty image data, other chunks, an empty end chunk, and not one
  byte more. Lengths, types and checksums of the chunks are those of the format, for any sequence a slice can hold.
\<close>

theorem png_accepted_exactly:
  assumes "length bytes \<le> isize_max"
  shows "complete_plugin_vod_png bytes \<longleftrightarrow>
    (\<exists>header before idats after end_chunk. png_file header before idats after end_chunk \<and>
       bytes = png_signature @ concat (map encode_png_chunk (header # before @ idats @ after @ [end_chunk])))"
  by (rule png_accepted_iff [OF assms])

definition sample_header :: png_chunk where
  "sample_header = Png_Chunk tag_ihdr [0, 0, 0, 1, 0, 0, 0, 1, 8, 6, 0, 0, 0] [31, 21, 196, 137]"
definition sample_data :: png_chunk where
  "sample_data = Png_Chunk tag_idat [120, 156, 99, 0, 1, 0, 0, 5, 0, 1] [13, 10, 45, 180]"
definition sample_end :: png_chunk where
  "sample_end = Png_Chunk tag_iend [] [174, 66, 96, 130]"

definition sample_png :: bytes where
  "sample_png = [137, 80, 78, 71, 13, 10, 26, 10, 0, 0, 0, 13, 73, 72, 68, 82, 0, 0, 0, 1, 0, 0, 0, 1, 8, 6, 0, 0, 0, 31, 21, 196, 137,
     0, 0, 0, 10, 73, 68, 65, 84, 120, 156, 99, 0, 1, 0, 0, 5, 0, 1, 13, 10, 45, 180, 0, 0, 0, 0, 73, 69, 78, 68, 174, 66, 96, 130]"

lemma sample_png_file: "png_file sample_header [] [sample_data] [] sample_end"
  by (simp add: png_file_def png_frame_def png_data_def png_header_ok_def png_valid_depth_def sample_header_def sample_data_def sample_end_def
      tag_ihdr_def tag_idat_def tag_iend_def)

lemma sample_png_bytes: "sample_png = png_signature @ concat (map encode_png_chunk (sample_header # [] @ [sample_data] @ [] @ [sample_end]))"
  by (simp add: sample_png_def png_signature_def encode_png_chunk_def sample_header_def sample_data_def sample_end_def u32_be_bytes_def
      tag_ihdr_def tag_idat_def tag_iend_def)

lemma sample_png_short: "length sample_png \<le> isize_max" "length (sample_png @ [0]) \<le> isize_max"
  by (simp_all add: sample_png_def isize_max_def)

lemma png_accepted_exactly_witness: "complete_plugin_vod_png sample_png"
  unfolding png_accepted_exactly [OF sample_png_short(1)] using sample_png_file sample_png_bytes by blast

section \<open>The chunks of a WebP file\<close>

datatype webp_chunk = Webp_Chunk (wc_type: bytes) (wc_data: bytes)

definition encode_webp_chunk :: "webp_chunk \<Rightarrow> bytes" where
  "encode_webp_chunk c = wc_type c @ u32_le_bytes (length (wc_data c)) @ wc_data c @ (if odd (length (wc_data c)) then [0] else [])"

definition webp_frame :: "webp_chunk \<Rightarrow> bool" where
  "webp_frame c \<longleftrightarrow> wc_type c \<in> webp_chunk_types \<and> length (wc_data c) < 4294967296"

definition webp_payload :: "webp_chunk \<Rightarrow> bool" where
  "webp_payload c \<longleftrightarrow> wc_type c \<in> {tag_vp8, tag_vp8l, tag_anmf} \<and> wc_data c \<noteq> []"

definition webp_read :: "bytes \<Rightarrow> nat \<Rightarrow> (webp_chunk \<times> nat) option" where
  "webp_read bytes offset =
     map_option (\<lambda>(t, n, chunk_end). (Webp_Chunk t (byte_range bytes (offset + 8) (offset + 8 + n)), chunk_end)) (webp_chunk_at bytes offset)"

lemma webp_type_length: "t \<in> webp_chunk_types \<Longrightarrow> length t = 4"
  by (auto simp: webp_chunk_types_def tag_vp8_def tag_vp8l_def tag_vp8x_def tag_anmf_def)

lemma webp_read_sound:
  assumes "webp_read bytes offset = Some (c, next)"
  shows "webp_frame c \<and> next = offset + length (encode_webp_chunk c) \<and> drop offset bytes = encode_webp_chunk c @ drop next bytes"
proof -
  let ?n = "u32_le_at bytes (offset + 4)"
  from assms have n: "next = offset + 8 + ?n + ?n mod 2" "next \<le> length bytes" "offset + 4 + 4 \<le> length bytes"
      "?n mod 2 = 1 \<Longrightarrow> bytes ! (offset + 8 + ?n) = 0" "take 4 (drop offset bytes) \<in> webp_chunk_types"
      and c: "c = Webp_Chunk (take 4 (drop offset bytes)) (take ?n (drop (offset + 8) bytes))"
    by (auto simp: webp_read_def webp_chunk_at_def checked_add_def byte_range_def Let_def split: if_splits)
  note u = u32_le_at_bytes [OF n(3)]
  have pad: "take (?n mod 2) (drop (offset + 8 + ?n) bytes) = (if odd ?n then [0] else [])"
  proof (cases "odd ?n")
    case True
    then have "?n mod 2 = 1" by presburger
    with n have "offset + 8 + ?n < length bytes" "bytes ! (offset + 8 + ?n) = 0" by simp_all
    then show ?thesis using True \<open>?n mod 2 = 1\<close> by (simp add: drop_Cons_nth)
  qed simp
  have "drop offset bytes = take 4 (drop offset bytes) @ take 4 (drop (offset + 4) bytes) @ take ?n (drop (offset + 8) bytes) @
      take (?n mod 2) (drop (offset + 8 + ?n) bytes) @ drop (offset + 8 + ?n + ?n mod 2) bytes"
    using drop_split [of offset bytes 4] drop_split [of "offset + 4" bytes 4] drop_split [of "offset + 8" bytes ?n]
      drop_split [of "offset + 8 + ?n" bytes "?n mod 2"] by (simp add: ac_simps)
  moreover have "length (take ?n (drop (offset + 8) bytes)) = ?n" using n(1,2) by simp
  moreover have "length (if odd ?n then [0 :: 8 word] else []) = ?n mod 2" by (auto simp: odd_iff_mod_2_eq_one)
  ultimately show ?thesis
    using u n webp_type_length [OF n(5)] unfolding pad by (auto simp: c webp_frame_def encode_webp_chunk_def)
qed

lemma webp_read_complete:
  assumes "length bytes \<le> isize_max" "webp_frame c" "drop offset bytes = encode_webp_chunk c @ rest" "offset \<le> length bytes"
  shows "webp_read bytes offset = Some (c, offset + length (encode_webp_chunk c))"
proof -
  let ?n = "length (wc_data c)" and ?pad = "if odd (length (wc_data c)) then [0 :: 8 word] else []"
  from assms(2) have l: "length (wc_type c) = 4" "?n < 4294967296" "wc_type c \<in> webp_chunk_types"
    by (auto simp: webp_frame_def webp_type_length)
  have pad: "length ?pad = ?n mod 2" by (auto simp: odd_iff_mod_2_eq_one)
  have len: "length bytes = offset + 8 + ?n + ?n mod 2 + length rest"
    using length_of_drop [OF assms(3,4)] l pad by (simp add: encode_webp_chunk_def)
  from assms(3) have d: "drop offset bytes = wc_type c @ u32_le_bytes ?n @ wc_data c @ ?pad @ rest" by (simp add: encode_webp_chunk_def)
  have d1: "take 4 (drop offset bytes) = wc_type c" "drop (offset + 4) bytes = u32_le_bytes ?n @ wc_data c @ ?pad @ rest"
    using drop_after [OF d, of 4] l by simp_all
  have d2: "take 4 (drop (offset + 4) bytes) = u32_le_bytes ?n" "drop (offset + 8) bytes = wc_data c @ ?pad @ rest"
    using drop_after [OF d1(2), of 4] by (simp_all add: ac_simps)
  have d3: "take ?n (drop (offset + 8) bytes) = wc_data c" "drop (offset + 8 + ?n) bytes = ?pad @ rest"
    using drop_after [OF d2(2), of ?n] by (simp_all add: ac_simps)
  have n: "u32_le_at bytes (offset + 4) = ?n"
    using u32_le_at_bytes [of "offset + 4" bytes] d2(1) len l(2) by (auto intro: u32_le_bytes_inj)
  have zero: "bytes ! (offset + 8 + ?n) = 0" if "?n mod 2 = 1"
  proof -
    have "offset + 8 + ?n < length bytes" using len that by simp
    moreover have "odd ?n" using that by presburger
    ultimately show ?thesis using d3(2) by (simp add: drop_Cons_nth)
  qed
  have b: "length bytes \<le> 9223372036854775807" using assms(1) by (simp add: isize_max_def)
  have "offset + 8 \<le> usize_max" "offset + 8 + ?n \<le> usize_max" "offset + 8 + ?n + ?n mod 2 \<le> usize_max"
    using b len by linarith+
  then have "checked_add usize_max offset 8 = Some (offset + 8)" "checked_add usize_max (offset + 8) ?n = Some (offset + 8 + ?n)"
      "checked_add usize_max (offset + 8 + ?n) (?n mod 2) = Some (offset + 8 + ?n + ?n mod 2)"
    by (simp_all only: checked_add_def if_True)
  moreover have "byte_range bytes offset (offset + 4) = wc_type c" "byte_range bytes (offset + 8) (offset + 8 + ?n) = wc_data c"
    using d1(1) d3(1) by (simp_all add: byte_range_def)
  moreover have "\<not> length bytes < offset + 8" "\<not> length bytes < offset + 8 + ?n + ?n mod 2" using len by linarith+
  moreover have "\<not> (?n mod 2 = 1 \<and> bytes ! (offset + 8 + ?n) \<noteq> 0)" using zero by blast
  ultimately have "webp_chunk_at bytes offset = Some (wc_type c, ?n, offset + 8 + ?n + ?n mod 2)"
    unfolding webp_chunk_at_def n Let_def using l(3) by (simp only: option.case if_False if_True not_True_eq_False simp_thms)
  then show ?thesis using d3(1) pad by (simp add: webp_read_def byte_range_def encode_webp_chunk_def l(1))
qed

interpretation webp: piece_loop "\<lambda>_. webp_read" encode_webp_chunk "\<lambda>_. webp_frame"
  "\<lambda>seen c. Continue (seen \<or> webp_payload c)" "\<lambda>seen. seen" webp_chunks
proof
  show "length bytes \<le> isize_max \<Longrightarrow> offset \<le> length bytes \<Longrightarrow>
      webp_read bytes offset = Some (c, next) \<longleftrightarrow>
      webp_frame c \<and> next = offset + length (encode_webp_chunk c) \<and> (\<exists>rest. drop offset bytes = encode_webp_chunk c @ rest)"
    for bytes offset c "next"
    using webp_read_sound [of bytes offset c "next"] webp_read_complete [of bytes c offset] by blast
  show "webp_frame c \<Longrightarrow> encode_webp_chunk c \<noteq> []" for c
    by (auto simp: encode_webp_chunk_def u32_le_bytes_def u32_be_bytes_def)
  have payload: "webp_chunk_at bytes offset = Some (t, n, next) \<Longrightarrow>
      webp_payload (Webp_Chunk t (byte_range bytes (offset + 8) (offset + 8 + n))) \<longleftrightarrow> t \<in> {tag_vp8, tag_vp8l, tag_anmf} \<and> 0 < n"
    for bytes offset t n "next"
    by (auto simp: webp_payload_def webp_chunk_at_def checked_add_def byte_range_def Let_def split: if_splits)
  show "offset \<le> length bytes \<Longrightarrow> webp_chunks bytes offset s =
      (if offset = length bytes then s
       else case webp_read bytes offset of None \<Rightarrow> False
            | Some (c, next) \<Rightarrow>
                (case Continue (s \<or> webp_payload c) of Reject \<Rightarrow> False | Finish answer \<Rightarrow> answer \<and> next = length bytes
                 | Continue s \<Rightarrow> webp_chunks bytes next s))" for bytes offset s
    by (subst webp_chunks.simps) (auto simp: webp_read_def payload split: option.split)
qed

lemma webp_accepts_iff:
  "accepts (\<lambda>_. webp_frame) (\<lambda>seen c. Continue (seen \<or> webp_payload c)) (\<lambda>seen. seen) seen cs \<longleftrightarrow>
   list_all webp_frame cs \<and> (seen \<or> list_ex webp_payload cs)"
  by (induction cs arbitrary: seen) auto

lemma webp_accepted_iff:
  assumes "length bytes \<le> isize_max"
  shows "complete_plugin_vod_webp bytes \<longleftrightarrow>
    (\<exists>cs. list_all webp_frame cs \<and> list_ex webp_payload cs \<and> 4 + length (concat (map encode_webp_chunk cs)) < 4294967296 \<and>
       bytes = tag_riff @ u32_le_bytes (4 + length (concat (map encode_webp_chunk cs))) @ tag_webp @ concat (map encode_webp_chunk cs))"
  (is "_ \<longleftrightarrow> ?file")
proof
  assume c: "complete_plugin_vod_webp bytes"
  then have h: "20 \<le> length bytes" "take 4 bytes = tag_riff" "take 4 (drop 8 bytes) = tag_webp" "u32_le_at bytes 4 + 8 = length bytes"
      and loop: "webp_chunks bytes 12 False"
    by (auto simp: complete_plugin_vod_webp_def byte_range_def checked_add_def split: if_splits)
  from loop webp.loop_iff [OF assms, of 12 False] h(1) obtain cs where cs: "drop 12 bytes = concat (map encode_webp_chunk cs)"
      "list_all webp_frame cs" "list_ex webp_payload cs" by (auto simp: webp_accepts_iff)
  have l: "length (concat (map encode_webp_chunk cs)) = length bytes - 12" by (simp flip: cs(1))
  have u: "take 4 (drop 4 bytes) = u32_le_bytes (u32_le_at bytes 4)" "u32_le_at bytes 4 < 4294967296"
    using u32_le_at_bytes [of 4 bytes] h(1) by simp_all
  have n: "u32_le_at bytes 4 = 4 + length (concat (map encode_webp_chunk cs))" using h(1,4) l by linarith
  have "bytes = take 4 bytes @ take 4 (drop 4 bytes) @ take 4 (drop 8 bytes) @ drop 12 bytes"
    using append_take_drop_id [of 4 bytes] drop_split [of 4 bytes 4] drop_split [of 8 bytes 4] by simp
  then have "bytes = tag_riff @ u32_le_bytes (4 + length (concat (map encode_webp_chunk cs))) @ tag_webp @ concat (map encode_webp_chunk cs)"
    unfolding h(2,3) u(1) cs(1) n .
  with cs u(2) n show ?file by metis
next
  assume ?file
  then obtain cs where cs: "list_all webp_frame cs" "list_ex webp_payload cs" "4 + length (concat (map encode_webp_chunk cs)) < 4294967296"
      and b: "bytes = tag_riff @ u32_le_bytes (4 + length (concat (map encode_webp_chunk cs))) @ tag_webp @ concat (map encode_webp_chunk cs)" by blast
  let ?n = "4 + length (concat (map encode_webp_chunk cs))"
  have t: "length tag_riff = 4" "length tag_webp = 4" by (simp_all add: tag_riff_def tag_webp_def)
  from cs(2) obtain c where "c \<in> set cs" "webp_payload c" by (auto simp: list_ex_iff)
  moreover have "8 \<le> length (encode_webp_chunk c)" if "c \<in> set cs" for c
    using cs(1) that webp_type_length [of "wc_type c"] by (auto simp: list_all_iff webp_frame_def encode_webp_chunk_def)
  ultimately have 8: "8 \<le> length (concat (map encode_webp_chunk cs))"
    using member_le_sum_list [of "length (encode_webp_chunk c)" "map (length \<circ> encode_webp_chunk) cs"]
    by (force simp: length_concat comp_def)
  have len: "length bytes = 8 + ?n" by (simp add: b t)
  have d: "take 4 (drop 4 bytes) = u32_le_bytes ?n" "drop 12 bytes = concat (map encode_webp_chunk cs)" "take 4 bytes = tag_riff"
      "take 4 (drop 8 bytes) = tag_webp"
    by (simp_all add: b t)
  have "u32_le_at bytes 4 = ?n"
    using u32_le_at_bytes [of 4 bytes] d(1) len cs(3) by (auto intro: u32_le_bytes_inj)
  moreover have "webp_chunks bytes 12 False"
    using webp.loop_iff [OF assms, of 12 False] cs d(2) len 8 by (auto simp: webp_accepts_iff)
  moreover have "8 + ?n \<le> usize_max" using cs(3) by linarith
  ultimately show "complete_plugin_vod_webp bytes"
    using len 8 d by (simp add: complete_plugin_vod_webp_def byte_range_def checked_add_def)
qed

text \<open>
  A byte sequence is accepted as a complete WebP file exactly when it is a \<open>RIFF\<close> header whose size is that
  of the rest, the \<open>WEBP\<close> tag and padded chunks of the known types, one of which is an image that is not empty.
\<close>

theorem webp_accepted_exactly:
  assumes "length bytes \<le> isize_max"
  shows "complete_plugin_vod_webp bytes \<longleftrightarrow>
    (\<exists>cs. list_all webp_frame cs \<and> list_ex webp_payload cs \<and> 4 + length (concat (map encode_webp_chunk cs)) < 4294967296 \<and>
       bytes = tag_riff @ u32_le_bytes (4 + length (concat (map encode_webp_chunk cs))) @ tag_webp @ concat (map encode_webp_chunk cs))"
  by (rule webp_accepted_iff [OF assms])

definition sample_webp_chunk :: webp_chunk where
  "sample_webp_chunk = Webp_Chunk tag_vp8l [0x2f, 0, 0, 0, 0, 0, 0, 0, 0]"

definition sample_webp :: bytes where
  "sample_webp = [82, 73, 70, 70, 22, 0, 0, 0, 87, 69, 66, 80, 86, 80, 56, 76, 9, 0, 0, 0, 0x2f, 0, 0, 0, 0, 0, 0, 0, 0, 0]"

lemma webp_accepted_exactly_witness: "complete_plugin_vod_webp sample_webp"
proof -
  have e: "encode_webp_chunk sample_webp_chunk = drop 12 sample_webp"
    by (simp add: encode_webp_chunk_def sample_webp_chunk_def sample_webp_def tag_vp8l_def u32_le_bytes_def u32_be_bytes_def)
  have "webp_frame sample_webp_chunk" "webp_payload sample_webp_chunk"
    by (simp_all add: webp_frame_def webp_payload_def sample_webp_chunk_def webp_chunk_types_def)
  moreover have "sample_webp = tag_riff @ u32_le_bytes (4 + length (drop 12 sample_webp)) @ tag_webp @ drop 12 sample_webp"
      "4 + length (drop 12 sample_webp) < 4294967296" "length sample_webp \<le> isize_max"
    by (simp_all add: sample_webp_def tag_riff_def tag_webp_def u32_le_bytes_def u32_be_bytes_def isize_max_def)
  ultimately show ?thesis
    by (subst webp_accepted_exactly) (auto intro!: exI [of _ "[sample_webp_chunk]"] simp: e)
qed

end
