(* ===== verification/Raster_Blocks.thy ===== *)
theory Raster_Blocks
  imports Raster_Grammar
begin

text \<open>
  The reference grammar of a GIF, whose blocks have no length in front of them but are chains of sub-blocks.
\<close>

section \<open>The blocks of a GIF\<close>

text \<open>Sub-blocks: non-empty, at most 255 bytes each, with their length before them and a zero at the end.\<close>

definition encode_sub_blocks :: "bytes list \<Rightarrow> bytes" where
  "encode_sub_blocks bs = concat (map (\<lambda>b. of_nat (length b) # b) bs) @ [0]"

definition sub_blocks_ok :: "bytes list \<Rightarrow> bool" where
  "sub_blocks_ok bs \<longleftrightarrow> list_all (\<lambda>b. b \<noteq> [] \<and> length b \<le> 255) bs"

definition sub_blocks :: "bytes \<Rightarrow> bool" where
  "sub_blocks body \<longleftrightarrow> (\<exists>bs. sub_blocks_ok bs \<and> body = encode_sub_blocks bs)"

lemma sub_blocks_end_complete:
  "length bytes \<le> isize_max \<Longrightarrow> offset \<le> length bytes \<Longrightarrow> sub_blocks_ok bs \<Longrightarrow> drop offset bytes = encode_sub_blocks bs @ rest \<Longrightarrow>
   plugin_vod_gif_sub_blocks_end bytes offset = Some (offset + length (encode_sub_blocks bs))"
proof (induction bs arbitrary: offset)
  case Nil
  then have "length bytes = offset + 1 + length rest" by (auto dest: length_of_drop simp: encode_sub_blocks_def)
  moreover have "bytes ! offset = 0"
    using Nil.prems(4) nth_of_drop [OF Nil.prems(4,2), of 0] by (simp add: encode_sub_blocks_def)
  ultimately show ?case using Nil.prems(1)
    by (subst plugin_vod_gif_sub_blocks_end.simps)
      (simp add: get_byte_def checked_add_def isize_max_def encode_sub_blocks_def)
next
  case (Cons b bs)
  from Cons.prems(3) have b: "b \<noteq> []" "length b \<le> 255" "sub_blocks_ok bs" by (simp_all add: sub_blocks_ok_def)
  have d: "drop offset bytes = ((of_nat (length b) # b) @ encode_sub_blocks bs) @ rest"
    using Cons.prems(4) by (simp add: encode_sub_blocks_def)
  have len: "length bytes = offset + 1 + length b + length (encode_sub_blocks bs) + length rest"
    using length_of_drop [OF d Cons.prems(2)] by simp
  have n: "unat (bytes ! offset) = length b"
    using nth_of_drop [OF d Cons.prems(2), of 0] b(2) by (simp add: unat_of_nat)
  have "drop (offset + Suc (length b)) bytes = encode_sub_blocks bs @ rest"
    using drop_append_shift [of offset bytes "of_nat (length b) # b" "encode_sub_blocks bs @ rest"] d by simp
  moreover have "offset + Suc (length b) \<le> length bytes" using len by simp
  ultimately have "plugin_vod_gif_sub_blocks_end bytes (offset + Suc (length b)) =
      Some (offset + Suc (length b) + length (encode_sub_blocks bs))"
    using Cons.IH [of "offset + Suc (length b)"] Cons.prems(1) b(3) by blast
  moreover have "offset + 1 \<le> usize_max" "offset + Suc (length b) \<le> usize_max" "offset < length bytes"
    using len Cons.prems(1) unfolding isize_max_def by linarith+
  ultimately show ?case using len b(1)
    by (subst plugin_vod_gif_sub_blocks_end.simps)
      (simp add: get_byte_def checked_add_def n encode_sub_blocks_def)
qed

lemma sub_blocks_end_sound:
  "plugin_vod_gif_sub_blocks_end bytes offset = Some next \<Longrightarrow>
   \<exists>bs. sub_blocks_ok bs \<and> drop offset bytes = encode_sub_blocks bs @ drop next bytes"
proof (induction bytes offset rule: plugin_vod_gif_sub_blocks_end.induct)
  case (1 bytes offset)
  then have o: "offset < length bytes"
    by (subst (asm) plugin_vod_gif_sub_blocks_end.simps) (auto simp: get_byte_def split: if_splits)
  then have d: "drop offset bytes = bytes ! offset # drop (Suc offset) bytes" by (rule drop_Cons_nth)
  let ?n = "unat (bytes ! offset)"
  show ?case
  proof (cases "?n = 0")
    case True
    with 1(2) o have "next = Suc offset"
      by (subst (asm) plugin_vod_gif_sub_blocks_end.simps) (auto simp: get_byte_def checked_add_def split: if_splits)
    with True d show ?thesis
      by (intro exI [of _ "[]"]) (simp add: encode_sub_blocks_def sub_blocks_ok_def unat_eq_zero)
  next
    case False
    with 1(2) o have r: "plugin_vod_gif_sub_blocks_end bytes (Suc offset + ?n) = Some next" "Suc offset + ?n \<le> length bytes"
        "checked_add usize_max offset 1 = Some (Suc offset)" "checked_add usize_max (Suc offset) ?n = Some (Suc offset + ?n)"
      by (subst (asm) plugin_vod_gif_sub_blocks_end.simps, auto simp: get_byte_def checked_add_def split: if_splits)+
    from r False o obtain bs where bs: "sub_blocks_ok bs" "drop (Suc offset + ?n) bytes = encode_sub_blocks bs @ drop next bytes"
      using 1(1) [of "bytes ! offset" "Suc offset" "Suc offset + ?n"] by (auto simp: get_byte_def)
    let ?b = "take ?n (drop (Suc offset) bytes)"
    have l: "length ?b = ?n" using r(2) by simp
    have "drop offset bytes = (of_nat (length ?b) # ?b) @ drop (Suc offset + ?n) bytes"
      unfolding l using d drop_split [of "Suc offset" bytes ?n] by simp
    moreover have "sub_blocks_ok (?b # bs)"
      using bs(1) l False unat_byte_less [of "bytes ! offset"] by (auto simp: sub_blocks_ok_def)
    ultimately show ?thesis using bs(2) by (intro exI [of _ "?b # bs"]) (simp add: encode_sub_blocks_def)
  qed
qed

text \<open>The blocks; \<open>sub_blocks\<close> bytes are kept as they are.\<close>

definition colour_table_length :: "8 word \<Rightarrow> nat" where
  "colour_table_length packed = (if packed AND 0x80 \<noteq> 0 then 3 * 2 ^ (unat (packed AND 0x07) + 1) else 0)"

datatype gif_block = Gif_Trailer | Gif_Extension "8 word" bytes | Gif_Image bytes "8 word" bytes "8 word" bytes

fun encode_gif_block :: "gif_block \<Rightarrow> bytes" where
  "encode_gif_block Gif_Trailer = [0x3b]"
| "encode_gif_block (Gif_Extension label body) = 0x21 # label # body"
| "encode_gif_block (Gif_Image place packed table code_size body) = 0x2c # place @ packed # table @ code_size # body"

fun gif_block_ok :: "gif_block \<Rightarrow> bool" where
  "gif_block_ok Gif_Trailer \<longleftrightarrow> True"
| "gif_block_ok (Gif_Extension label body) \<longleftrightarrow> sub_blocks body"
| "gif_block_ok (Gif_Image place packed table code_size body) \<longleftrightarrow>
     length place = 8 \<and> length table = colour_table_length packed \<and> 2 \<le> code_size \<and> code_size \<le> 8 \<and> sub_blocks body"

definition gif_read :: "bytes \<Rightarrow> nat \<Rightarrow> (gif_block \<times> nat) option" where
  "gif_read bytes offset =
     (case get_byte bytes offset of None \<Rightarrow> None
      | Some introducer \<Rightarrow>
          if introducer = 0x3b then Some (Gif_Trailer, offset + 1)
          else if introducer = 0x21
          then map_option (\<lambda>next. (Gif_Extension (bytes ! (offset + 1)) (byte_range bytes (offset + 2) next), next)) (gif_extension_end bytes (offset + 1))
          else if introducer = 0x2c
          then
            let packed = bytes ! (offset + 9); t = offset + 10 + colour_table_length packed
            in map_option (\<lambda>next. (Gif_Image (byte_range bytes (offset + 1) (offset + 9)) packed (byte_range bytes (offset + 10) t) (bytes ! t)
                  (byte_range bytes (t + 1) next), next)) (gif_image_end bytes (offset + 1))
          else None)"

lemma colour_table_length_le: "colour_table_length packed \<le> 768"
proof -
  have "unat (packed AND 0x07) \<le> 7"
    using word_and_le1 [of packed "0x07"] by (simp add: word_le_nat_alt)
  then have "2 ^ (unat (packed AND 0x07) + 1) \<le> (2 :: nat) ^ 8" by (intro power_increasing) simp_all
  then show ?thesis by (simp add: colour_table_length_def)
qed

lemma colour_table_end_eq:
  assumes "length bytes \<le> isize_max" "offset \<le> length bytes"
  shows "colour_table_end bytes packed offset =
    (if offset + colour_table_length packed \<le> length bytes then Some (offset + colour_table_length packed) else None)"
proof (cases "packed AND 0x80 = 0")
  case True
  with assms(2) show ?thesis by (simp add: colour_table_end_def colour_table_length_def)
next
  case False
  let ?e = "2 ^ (unat (packed AND 0x07) + 1) :: nat"
  have "?e * 3 = colour_table_length packed" using False by (simp add: colour_table_length_def)
  moreover have "?e * 3 \<le> usize_max" "offset + ?e * 3 \<le> usize_max"
    using colour_table_length_le [of packed] assms calculation unfolding isize_max_def by linarith+
  ultimately have "checked_mul usize_max ?e 3 = Some (colour_table_length packed)"
      "checked_add usize_max offset (colour_table_length packed) = Some (offset + colour_table_length packed)"
    by (simp_all only: checked_mul_def checked_add_def if_True)
  with False show ?thesis unfolding colour_table_end_def Let_def by (simp add: not_less)
qed

lemma length_byte_range: "a \<le> b \<Longrightarrow> b \<le> length bytes \<Longrightarrow> length (byte_range bytes a b) = b - a"
  by (simp add: byte_range_def)

lemma sub_blocks_end_iff:
  assumes "length bytes \<le> isize_max" "offset \<le> length bytes"
  shows "plugin_vod_gif_sub_blocks_end bytes offset = Some next \<longleftrightarrow>
    offset \<le> next \<and> next \<le> length bytes \<and> sub_blocks (byte_range bytes offset next)"
proof
  assume r: "plugin_vod_gif_sub_blocks_end bytes offset = Some next"
  from sub_blocks_end_sound [OF this] obtain bs where
    bs: "sub_blocks_ok bs" "drop offset bytes = encode_sub_blocks bs @ drop next bytes" by blast
  note n = gif_sub_blocks_end_next [OF r]
  have "length (encode_sub_blocks bs) = next - offset"
    using length_of_drop [OF bs(2) assms(2)] n unfolding length_append length_drop by linarith
  then have "byte_range bytes offset next = encode_sub_blocks bs" by (simp add: byte_range_def bs(2))
  with bs(1) n show "offset \<le> next \<and> next \<le> length bytes \<and> sub_blocks (byte_range bytes offset next)"
    by (auto simp: sub_blocks_def)
next
  assume r: "offset \<le> next \<and> next \<le> length bytes \<and> sub_blocks (byte_range bytes offset next)"
  then obtain bs where bs: "sub_blocks_ok bs" "byte_range bytes offset next = encode_sub_blocks bs" by (auto simp: sub_blocks_def)
  have "drop offset bytes = encode_sub_blocks bs @ drop next bytes"
    using drop_split [of offset bytes "next - offset"] bs(2) r by (simp add: byte_range_def)
  moreover have "length (encode_sub_blocks bs) = next - offset" using length_byte_range [of offset "next" bytes] r by (simp add: bs(2))
  ultimately show "plugin_vod_gif_sub_blocks_end bytes offset = Some next"
    using sub_blocks_end_complete [OF assms bs(1)] r by simp
qed

lemma gif_extension_end_iff:
  assumes "length bytes \<le> isize_max"
  shows "gif_extension_end bytes offset = Some next \<longleftrightarrow>
    offset < length bytes \<and> offset + 1 \<le> next \<and> next \<le> length bytes \<and> sub_blocks (byte_range bytes (offset + 1) next)"
  using sub_blocks_end_iff [OF assms, of "offset + 1"] by (auto simp: gif_extension_end_def get_byte_def)

lemma gif_image_end_iff:
  assumes "length bytes \<le> isize_max" "offset \<le> length bytes"
  shows "gif_image_end bytes offset = Some next \<longleftrightarrow>
    (let t = offset + 9 + colour_table_length (bytes ! (offset + 8))
     in t < length bytes \<and> 2 \<le> bytes ! t \<and> bytes ! t \<le> 8 \<and> t + 1 \<le> next \<and> next \<le> length bytes \<and> sub_blocks (byte_range bytes (t + 1) next))"
proof (cases "offset + 9 \<le> length bytes")
  case True
  let ?t = "offset + 9 + colour_table_length (bytes ! (offset + 8))"
  have "offset + 9 \<le> usize_max" using True assms(1) unfolding isize_max_def by linarith
  then have "checked_add usize_max offset 9 = Some (offset + 9)" by (simp add: checked_add_def)
  with True colour_table_end_eq [OF assms(1) True, of "bytes ! (offset + 8)"] sub_blocks_end_iff [OF assms(1), of "?t + 1"]
  show ?thesis by (auto simp: gif_image_end_def get_byte_def Let_def)
next
  case False
  then show ?thesis by (auto simp: gif_image_end_def checked_add_def Let_def)
qed

lemma gif_image_end_after:
  assumes "length bytes \<le> isize_max" "offset < length bytes" "t = offset + 10 + colour_table_length (bytes ! (offset + 9))"
  shows "gif_image_end bytes (offset + 1) = Some next \<longleftrightarrow>
    t < length bytes \<and> 2 \<le> bytes ! t \<and> bytes ! t \<le> 8 \<and> t + 1 \<le> next \<and> next \<le> length bytes \<and> sub_blocks (byte_range bytes (t + 1) next)"
proof -
  have "offset + 1 \<le> length bytes" "offset + 1 + 8 = offset + 9" "offset + 1 + 9 + colour_table_length (bytes ! (offset + 9)) = t"
    using assms(2,3) by simp_all
  with gif_image_end_iff [OF assms(1), of "offset + 1" "next"] show ?thesis by (simp only: Let_def)
qed

lemma drop_nth: "i < length xs \<Longrightarrow> j = i + 1 \<Longrightarrow> drop i xs = xs ! i # drop j xs"
  by (simp add: drop_Cons_nth)

lemma range_of_drop: "drop offset bytes = r \<Longrightarrow> byte_range bytes (offset + a) (offset + b) = take (b - a) (drop a r)"
  by (auto simp: byte_range_def add.commute)

lemma range_append: "a \<le> b \<Longrightarrow> drop a bytes = byte_range bytes a b @ drop b bytes"
  using drop_split [of a bytes "b - a"] by (simp add: byte_range_def)

lemma gif_read_sound:
  assumes "length bytes \<le> isize_max" "gif_read bytes offset = Some (c, next)"
  shows "gif_block_ok c \<and> offset < next \<and> next \<le> length bytes \<and> drop offset bytes = encode_gif_block c @ drop next bytes"
proof -
  from assms(2) have o: "offset < length bytes" by (auto simp: gif_read_def get_byte_def split: if_splits)
  then have d: "drop offset bytes = bytes ! offset # drop (offset + 1) bytes" by (simp add: drop_Cons_nth)
  consider "bytes ! offset = 0x3b" | "bytes ! offset = 0x21" | "bytes ! offset = 0x2c"
    using assms(2) o by (auto simp: gif_read_def get_byte_def split: if_splits)
  then show ?thesis
  proof cases
    case 1
    with assms(2) o d show ?thesis by (auto simp: gif_read_def get_byte_def)
  next
    case 2
    with assms(2) o have c: "c = Gif_Extension (bytes ! (offset + 1)) (byte_range bytes (offset + 2) next)"
        and e: "gif_extension_end bytes (offset + 1) = Some next"
      by (auto simp: gif_read_def get_byte_def)
    from e have n: "offset + 1 < length bytes" "offset + 2 \<le> next" "next \<le> length bytes" "sub_blocks (byte_range bytes (offset + 2) next)"
      unfolding gif_extension_end_iff [OF assms(1)] by simp_all
    have "drop (offset + 1) bytes = bytes ! (offset + 1) # byte_range bytes (offset + 2) next @ drop next bytes"
      using drop_Cons_nth [OF n(1)] range_append [OF n(2), of bytes] by simp
    with d 2 n show ?thesis by (simp add: c)
  next
    case 3
    let ?t = "offset + 10 + colour_table_length (bytes ! (offset + 9))"
    from 3 assms(2) o have c: "c = Gif_Image (byte_range bytes (offset + 1) (offset + 9)) (bytes ! (offset + 9)) (byte_range bytes (offset + 10) ?t)
          (bytes ! ?t) (byte_range bytes (?t + 1) next)"
        and e: "gif_image_end bytes (offset + 1) = Some next"
      by (auto simp: gif_read_def get_byte_def Let_def)
    from e have n: "?t < length bytes" "2 \<le> bytes ! ?t" "bytes ! ?t \<le> 8" "?t + 1 \<le> next" "next \<le> length bytes"
        "sub_blocks (byte_range bytes (?t + 1) next)"
      unfolding gif_image_end_after [OF assms(1) o refl] by blast+
    have "drop (offset + 1) bytes = byte_range bytes (offset + 1) (offset + 9) @ bytes ! (offset + 9) # byte_range bytes (offset + 10) ?t @
        bytes ! ?t # byte_range bytes (?t + 1) next @ drop next bytes"
    proof -
      have "drop (offset + 1) bytes = byte_range bytes (offset + 1) (offset + 9) @ drop (offset + 9) bytes"
          "drop (offset + 10) bytes = byte_range bytes (offset + 10) ?t @ drop ?t bytes"
          "drop (?t + 1) bytes = byte_range bytes (?t + 1) next @ drop next bytes"
        using n(4) by (simp_all add: range_append)
      moreover have "drop (offset + 9) bytes = bytes ! (offset + 9) # drop (offset + 10) bytes"
        using n(1) by (intro drop_nth) simp_all
      moreover have "drop ?t bytes = bytes ! ?t # drop (?t + 1) bytes" using n(1) by (intro drop_nth) simp_all
      ultimately show ?thesis by (simp only: append.assoc append_Cons)
    qed
    moreover have "length (byte_range bytes (offset + 1) (offset + 9)) = 8"
        "length (byte_range bytes (offset + 10) ?t) = colour_table_length (bytes ! (offset + 9))"
      using n(1) by (simp_all add: length_byte_range)
    ultimately show ?thesis using d 3 n by (simp add: c)
  qed
qed

lemma gif_read_complete:
  assumes "length bytes \<le> isize_max" "gif_block_ok c" "drop offset bytes = encode_gif_block c @ rest" "offset \<le> length bytes"
  shows "gif_read bytes offset = Some (c, offset + length (encode_gif_block c))"
proof -
  note nth = nth_of_drop [OF assms(3,4)] and range = range_of_drop [OF assms(3)] and len = length_of_drop [OF assms(3,4)]
  have first: "get_byte bytes offset = Some (hd (encode_gif_block c))"
    using nth [of 0] len by (cases c) (simp_all add: get_byte_def)
  show ?thesis
  proof (cases c)
    case Gif_Trailer
    with first show ?thesis by (simp add: gif_read_def)
  next
    case (Gif_Extension label body)
    let ?next = "offset + 2 + length body"
    have b: "sub_blocks body" using assms(2) Gif_Extension by simp
    have r: "byte_range bytes (offset + 2) ?next = body" "bytes ! (offset + 1) = label" "length bytes = ?next + length rest"
      using range [of 2 "2 + length body"] nth [of 1] len by (simp_all add: Gif_Extension add.assoc)
    then have "gif_extension_end bytes (offset + 1) = Some ?next"
      unfolding gif_extension_end_iff [OF assms(1)] using b by simp
    with first r show ?thesis by (simp add: gif_read_def Gif_Extension)
  next
    case (Gif_Image place packed table code_size body)
    have ok: "length place = 8" "length table = colour_table_length packed" "2 \<le> code_size" "code_size \<le> 8" "sub_blocks body"
      using assms(2) by (simp_all add: Gif_Image)
    let ?t = "offset + 10 + length table"
    let ?next = "offset + (11 + length table + length body)"
    have l: "length bytes = ?next + length rest" using len by (simp add: Gif_Image ok(1))
    have p: "bytes ! (offset + 9) = packed" using nth [of 9] by (simp add: Gif_Image nth_append ok(1))
    have t: "bytes ! ?t = code_size" using nth [of "10 + length table"] by (simp add: Gif_Image nth_append ok(1) add.assoc)
    have r: "byte_range bytes (offset + 1) (offset + 9) = place" "byte_range bytes (offset + 10) (offset + (10 + length table)) = table"
        "byte_range bytes (offset + (11 + length table)) ?next = body"
    proof -
      let ?head = "0x2c # place @ packed # table @ [code_size]"
      have "encode_gif_block c @ rest = ?head @ body @ rest" "length ?head = 11 + length table" by (simp_all add: Gif_Image ok(1))
      then have "drop (11 + length table) (encode_gif_block c @ rest) = body @ rest" by (metis append_eq_conv_conj)
      then show "byte_range bytes (offset + (11 + length table)) ?next = body" unfolding range by simp
    qed (unfold range, simp_all add: Gif_Image ok(1))
    moreover have "?t = offset + (10 + length table)" "?t + 1 = offset + (11 + length table)" by simp_all
    ultimately have r: "byte_range bytes (offset + 1) (offset + 9) = place" "byte_range bytes (offset + 10) ?t = table"
        "byte_range bytes (?t + 1) ?next = body"
      by (simp_all only:)
    have o: "offset < length bytes" using l by simp
    have "?t = offset + 10 + colour_table_length (bytes ! (offset + 9))" by (simp add: p ok(2))
    note e = gif_image_end_after [OF assms(1) o this]
    have "gif_image_end bytes (offset + 1) = Some ?next"
      unfolding e using t r(3) l ok by simp
    with first p t r show ?thesis by (simp add: gif_read_def Gif_Image Let_def ok flip: ok(2))
  qed
qed

definition gif_step :: "bool \<Rightarrow> gif_block \<Rightarrow> bool verdict" where
  "gif_step seen_image c =
     (case c of Gif_Trailer \<Rightarrow> Finish seen_image | Gif_Extension _ _ \<Rightarrow> Continue seen_image | Gif_Image _ _ _ _ _ \<Rightarrow> Continue True)"

lemma gif_step_simps [simp]:
  "gif_step seen Gif_Trailer = Finish seen" "gif_step seen (Gif_Extension label body) = Continue seen"
  "gif_step seen (Gif_Image place packed table code_size body) = Continue True"
  by (simp_all add: gif_step_def)

interpretation gif: piece_loop "\<lambda>_. gif_read" encode_gif_block "\<lambda>_. gif_block_ok" gif_step "\<lambda>_. False" gif_blocks
proof
  show "length bytes \<le> isize_max \<Longrightarrow> offset \<le> length bytes \<Longrightarrow>
      gif_read bytes offset = Some (c, next) \<longleftrightarrow>
      gif_block_ok c \<and> next = offset + length (encode_gif_block c) \<and> (\<exists>rest. drop offset bytes = encode_gif_block c @ rest)"
    for bytes offset c "next"
  proof
    assume b: "length bytes \<le> isize_max" "offset \<le> length bytes" "gif_read bytes offset = Some (c, next)"
    note g = gif_read_sound [OF b(1,3)]
    with length_of_drop [OF _ b(2), of "encode_gif_block c @ drop next bytes"] have "next = offset + length (encode_gif_block c)"
      unfolding length_append length_drop by linarith
    with g show "gif_block_ok c \<and> next = offset + length (encode_gif_block c) \<and> (\<exists>rest. drop offset bytes = encode_gif_block c @ rest)" by blast
  qed (use gif_read_complete in blast)
  show "gif_block_ok c \<Longrightarrow> encode_gif_block c \<noteq> []" for c by (cases c) simp_all
  show "offset \<le> length bytes \<Longrightarrow> gif_blocks bytes offset s =
      (if offset = length bytes then False
       else case gif_read bytes offset of None \<Rightarrow> False
            | Some (c, next) \<Rightarrow>
                (case gif_step s c of Reject \<Rightarrow> False | Finish answer \<Rightarrow> answer \<and> next = length bytes
                 | Continue s \<Rightarrow> gif_blocks bytes next s))" for bytes offset s
    by (subst gif_blocks.simps) (auto simp: gif_read_def gif_step_def get_byte_def Let_def split: option.split)
qed

fun is_gif_image :: "gif_block \<Rightarrow> bool" where
  "is_gif_image (Gif_Image _ _ _ _ _) = True"
| "is_gif_image _ = False"

abbreviation gif_accepts :: "bool \<Rightarrow> gif_block list \<Rightarrow> bool" where
  "gif_accepts \<equiv> accepts (\<lambda>_. gif_block_ok) gif_step (\<lambda>_. False)"

lemma gif_accepts_iff:
  "gif_accepts seen cs \<longleftrightarrow>
     (\<exists>blocks. cs = blocks @ [Gif_Trailer] \<and> list_all gif_block_ok blocks \<and> Gif_Trailer \<notin> set blocks \<and> (seen \<or> list_ex is_gif_image blocks))"
proof (induction cs arbitrary: seen)
  case (Cons c cs)
  show ?case
  proof (cases c)
    case Gif_Trailer
    then show ?thesis by (auto simp: Cons_eq_append_conv)
  next
    case (Gif_Extension label body)
    then have "gif_accepts seen (c # cs) \<longleftrightarrow> gif_block_ok c \<and> gif_accepts seen cs" by simp
    then show ?thesis unfolding Cons.IH by (fastforce simp: Gif_Extension Cons_eq_append_conv)
  next
    case (Gif_Image place packed table code_size body)
    then have "gif_accepts seen (c # cs) \<longleftrightarrow> gif_block_ok c \<and> gif_accepts True cs" by simp
    then show ?thesis unfolding Cons.IH by (fastforce simp: Gif_Image Cons_eq_append_conv)
  qed
qed simp

lemma gif_accepted_iff:
  assumes "length bytes \<le> isize_max"
  shows "complete_plugin_vod_gif bytes \<longleftrightarrow>
    (\<exists>signature screen packed more table blocks.
       signature \<in> {[71, 73, 70, 56, 55, 97], [71, 73, 70, 56, 57, 97]} \<and> length screen = 4 \<and> length more = 2 \<and>
       length table = colour_table_length packed \<and>
       list_all gif_block_ok blocks \<and> Gif_Trailer \<notin> set blocks \<and> list_ex is_gif_image blocks \<and>
       bytes = signature @ screen @ packed # more @ table @ concat (map encode_gif_block blocks) @ [0x3b])"
  (is "_ \<longleftrightarrow> ?file")
proof
  assume c: "complete_plugin_vod_gif bytes"
  let ?t = "13 + colour_table_length (bytes ! 10)"
  from c have l: "14 \<le> length bytes" and m: "gif_magic bytes" by (auto simp: complete_plugin_vod_gif_def)
  then have "13 \<le> length bytes" by simp
  note e = colour_table_end_eq [OF assms this, of "bytes ! 10"]
  from c e have t: "?t \<le> length bytes" and loop: "gif_blocks bytes ?t False"
    by (auto simp: complete_plugin_vod_gif_def split: if_splits)
  from loop gif.loop_iff [OF assms t] obtain blocks where b: "drop ?t bytes = concat (map encode_gif_block blocks) @ [0x3b]"
      "list_all gif_block_ok blocks" "Gif_Trailer \<notin> set blocks" "list_ex is_gif_image blocks"
    by (auto simp: gif_accepts_iff)
  have s: "take 6 bytes \<in> {[71, 73, 70, 56, 55, 97], [71, 73, 70, 56, 57, 97]}" using m by (auto simp: gif_magic_def has_prefix_def numeral_eq_Suc)
  have d: "drop 10 bytes = bytes ! 10 # drop 11 bytes" using l by (intro drop_nth) simp_all
  have "bytes = take 6 bytes @ byte_range bytes 6 10 @ bytes ! 10 # byte_range bytes 11 13 @ byte_range bytes 13 ?t @ drop ?t bytes"
    using append_take_drop_id [of 6 bytes] range_append [of 6 10 bytes] d range_append [of 11 13 bytes] range_append [of 13 ?t bytes]
    by simp
  moreover have "length (byte_range bytes 6 10) = 4" "length (byte_range bytes 11 13) = 2"
      "length (byte_range bytes 13 ?t) = colour_table_length (bytes ! 10)"
    using l t by (simp_all add: length_byte_range)
  ultimately show ?file using s b(2-4) unfolding b(1) by blast
next
  assume ?file
  then obtain signature screen packed more table blocks where
      s: "signature \<in> {[71, 73, 70, 56, 55, 97], [71, 73, 70, 56, 57, 97]}" and
      l: "length screen = 4" "length more = 2" "length table = colour_table_length packed" and
      b: "list_all gif_block_ok blocks" "Gif_Trailer \<notin> set blocks" "list_ex is_gif_image blocks" and
      bytes: "bytes = signature @ screen @ packed # more @ table @ concat (map encode_gif_block blocks) @ [0x3b]" by blast
  have l6: "length signature = 6" using s by auto
  have m: "gif_magic bytes" using s by (auto simp: bytes gif_magic_def has_prefix_def)
  have len: "length bytes = 13 + length table + length (concat (map encode_gif_block blocks)) + 1" by (simp add: bytes l l6)
  have p: "bytes ! 10 = packed" by (simp add: bytes nth_append l l6)
  have d: "drop (13 + length table) bytes = concat (map encode_gif_block (blocks @ [Gif_Trailer]))"
  proof -
    let ?head = "signature @ screen @ packed # more @ table"
    have "bytes = ?head @ concat (map encode_gif_block (blocks @ [Gif_Trailer]))" "length ?head = 13 + length table"
      by (simp_all add: bytes l l6)
    then show ?thesis by (metis append_eq_conv_conj)
  qed
  have t: "13 + length table \<le> length bytes" "13 \<le> length bytes" using len by simp_all
  have "colour_table_end bytes (bytes ! 10) 13 = Some (13 + length table)"
    using colour_table_end_eq [OF assms t(2), of "bytes ! 10"] t(1) by (simp add: p l(3))
  moreover have "gif_blocks bytes (13 + length table) False"
    using b by (intro gif.loop_complete [OF assms t(1) d]) (auto simp: gif_accepts_iff)
  ultimately show "complete_plugin_vod_gif bytes" using m len by (simp add: complete_plugin_vod_gif_def)
qed

text \<open>
  C23. A byte sequence is accepted as a complete GIF exactly when it is one of the two signatures, the screen with its
  optional colour table, extensions and images made of chained sub-blocks, at least one image, and the trailer with
  nothing after it.
\<close>

theorem gif_accepted_exactly:
  assumes "length bytes \<le> isize_max"
  shows "complete_plugin_vod_gif bytes \<longleftrightarrow>
    (\<exists>signature screen packed more table blocks.
       signature \<in> {[71, 73, 70, 56, 55, 97], [71, 73, 70, 56, 57, 97]} \<and> length screen = 4 \<and> length more = 2 \<and>
       length table = colour_table_length packed \<and>
       list_all gif_block_ok blocks \<and> Gif_Trailer \<notin> set blocks \<and> list_ex is_gif_image blocks \<and>
       bytes = signature @ screen @ packed # more @ table @ concat (map encode_gif_block blocks) @ [0x3b])"
  by (rule gif_accepted_iff [OF assms])

definition sample_gif :: bytes where
  "sample_gif = [71, 73, 70, 56, 57, 97, 1, 0, 1, 0, 0x80, 0, 0, 0, 0, 0, 255, 255, 255, 0x2c, 0, 0, 0, 0, 1, 0, 1, 0, 0, 2, 2, 0x44, 0x01, 0, 0x3b]"

lemma gif_accepted_exactly_witness: "complete_plugin_vod_gif sample_gif"
proof -
  let ?block = "Gif_Image [0, 0, 0, 0, 1, 0, 1, 0] 0 [] 2 (encode_sub_blocks [[0x44, 0x01]])"
  have "sub_blocks (encode_sub_blocks [[0x44, 0x01]])" unfolding sub_blocks_def by (intro exI [of _ "[[0x44, 0x01]]"]) (simp add: sub_blocks_ok_def)
  then have "gif_block_ok ?block" by (simp add: colour_table_length_def)
  moreover have "sample_gif = [71, 73, 70, 56, 57, 97] @ [1, 0, 1, 0] @ 0x80 # [0, 0] @ [0, 0, 0, 255, 255, 255] @
      concat (map encode_gif_block [?block]) @ [0x3b]"
    by (simp add: sample_gif_def encode_sub_blocks_def)
  moreover have "length [0, 0, 0, 255, 255, 255 :: 8 word] = colour_table_length 0x80" by (simp add: colour_table_length_def)
  moreover have "length sample_gif \<le> isize_max" by (simp add: sample_gif_def isize_max_def)
  ultimately show ?thesis
    by (subst gif_accepted_exactly)
      (assumption, rule exI [of _ "[71, 73, 70, 56, 57, 97]"], rule exI [of _ "[1, 0, 1, 0]"], rule exI [of _ "0x80"], rule exI [of _ "[0, 0]"],
        rule exI [of _ "[0, 0, 0, 255, 255, 255]"], rule exI [of _ "[?block]"], simp)
qed

end
