(* ===== verification/Raster_Segments.thy ===== *)
theory Raster_Segments
  imports Raster_Grammar
begin

text \<open>
  The reference grammar of a JPEG: segments, and after the header of a scan entropy-coded data up to the next
  marker, in which \<open>FF\<close> occurs stuffed with \<open>00\<close> or in a restart marker. Before a marker any number of
  fill bytes \<open>FF\<close> may stand.
\<close>

datatype entropy_item = Plain "8 word" | Stuffed nat | Restart nat "8 word"

fun encode_item :: "entropy_item \<Rightarrow> bytes" where
  "encode_item (Plain b) = [b]"
| "encode_item (Stuffed fill) = replicate (Suc fill) 0xff @ [0x00]"
| "encode_item (Restart fill m) = replicate (Suc fill) 0xff @ [m]"

definition restart_marker :: "8 word \<Rightarrow> bool" where
  "restart_marker m \<longleftrightarrow> 0xd0 \<le> m \<and> m \<le> 0xd7"

fun item_ok :: "entropy_item \<Rightarrow> bool" where
  "item_ok (Plain b) \<longleftrightarrow> b \<noteq> 0xff"
| "item_ok (Stuffed fill) \<longleftrightarrow> True"
| "item_ok (Restart fill m) \<longleftrightarrow> restart_marker m"

fun item_data :: "entropy_item \<Rightarrow> bool" where
  "item_data (Restart fill m) \<longleftrightarrow> False"
| "item_data _ \<longleftrightarrow> True"

lemma skip_fill_eq: "offset \<le> length bytes \<Longrightarrow> skip_fill bytes offset = offset + length (takeWhile (\<lambda>b. b = 0xff) (drop offset bytes))"
proof (induction bytes offset rule: skip_fill.induct)
  case (1 bytes offset)
  then show ?case
    by (subst skip_fill.simps) (cases "offset < length bytes", auto simp: get_byte_def drop_Cons_nth)
qed

lemma takeWhile_replicate: "m \<noteq> x \<Longrightarrow> takeWhile (\<lambda>b. b = x) (replicate k x @ m # rest) = replicate k x"
  by (induction k) simp_all

lemma skip_fill_run:
  "offset \<le> length bytes \<Longrightarrow> drop offset bytes = replicate k 0xff @ m # rest \<Longrightarrow> m \<noteq> 0xff \<Longrightarrow> skip_fill bytes offset = offset + k"
  by (simp add: skip_fill_eq takeWhile_replicate)

lemma skip_fill_sound:
  assumes "offset \<le> length bytes" "skip_fill bytes offset < length bytes"
  shows "drop offset bytes = replicate (skip_fill bytes offset - offset) 0xff @ bytes ! skip_fill bytes offset # drop (skip_fill bytes offset + 1) bytes \<and>
    bytes ! skip_fill bytes offset \<noteq> 0xff"
proof -
  let ?w = "takeWhile (\<lambda>b. b = 0xff) (drop offset bytes)" and ?e = "skip_fill bytes offset"
  have e: "?e = offset + length ?w" by (rule skip_fill_eq [OF assms(1)])
  have w: "?w = replicate (length ?w) 0xff" by (rule replicate_eqI) (auto dest: set_takeWhileD)
  have "drop ?e bytes = dropWhile (\<lambda>b. b = 0xff) (drop offset bytes)"
    unfolding e dropWhile_eq_drop [of _ "drop offset bytes"] by (simp add: add.commute)
  moreover have "drop ?e bytes = bytes ! ?e # drop (?e + 1) bytes" using assms(2) by (simp add: drop_Cons_nth)
  ultimately have d: "dropWhile (\<lambda>b. b = 0xff) (drop offset bytes) = bytes ! ?e # drop (?e + 1) bytes" by simp
  have "drop offset bytes = ?w @ bytes ! ?e # drop (?e + 1) bytes"
    using takeWhile_dropWhile_id [of "\<lambda>b. b = 0xff" "drop offset bytes"] unfolding d by (rule sym)
  moreover have "bytes ! ?e \<noteq> 0xff" using hd_dropWhile [of "\<lambda>b. b = 0xff" "drop offset bytes"] d by simp
  ultimately show ?thesis using w e by simp
qed

text \<open>\<open>scan_marker\<close> with the items it passes.\<close>

function scan_items :: "bytes \<Rightarrow> nat \<Rightarrow> (entropy_item list \<times> nat \<times> 8 word \<times> nat) option" where
  "scan_items bytes offset =
     (case get_byte bytes offset of None \<Rightarrow> None
      | Some b \<Rightarrow>
          if b \<noteq> 0xff then map_option (\<lambda>(items, r). (Plain b # items, r)) (scan_items bytes (offset + 1))
          else
            let k = skip_fill bytes (offset + 1) - (offset + 1); offset = skip_fill bytes (offset + 1)
            in case get_byte bytes offset of None \<Rightarrow> None
               | Some marker \<Rightarrow>
                   if marker = 0x00 then map_option (\<lambda>(items, r). (Stuffed k # items, r)) (scan_items bytes (offset + 1))
                   else if restart_marker marker then map_option (\<lambda>(items, r). (Restart k marker # items, r)) (scan_items bytes (offset + 1))
                   else Some ([], k, marker, offset + 1))"
  by pat_completeness auto
termination
  by (relation "measure (\<lambda>(bytes, offset). length bytes - offset)")
    (auto simp: get_byte_def split: if_splits dest!: skip_fill_decreases)

declare scan_items.simps [simp del]

lemma scan_marker_items:
  "scan_marker bytes offset e = map_option (\<lambda>(items, k, marker, next). (marker, next, e \<or> list_ex item_data items)) (scan_items bytes offset)"
proof (induction bytes offset e rule: scan_marker.induct)
  case (1 bytes offset e)
  show ?case
    by (subst scan_marker.simps, subst scan_items.simps)
      (use 1 in \<open>auto simp: Let_def option.map_comp comp_def restart_marker_def split: option.split intro!: map_option_cong\<close>)
qed

text \<open>Fill bytes, then a marker.\<close>

definition marker_bytes :: "nat \<Rightarrow> 8 word \<Rightarrow> bytes" where
  "marker_bytes k m = replicate (Suc k) 0xff @ [m]"

lemma length_marker_bytes [simp]: "length (marker_bytes k m) = Suc (Suc k)"
  by (simp add: marker_bytes_def)

lemma marker_run:
  assumes "offset \<le> length bytes" "drop offset bytes = marker_bytes k m @ rest" "m \<noteq> 0xff"
  shows "get_byte bytes offset = Some 0xff" "skip_fill bytes (offset + 1) = offset + 1 + k"
    "get_byte bytes (offset + 1 + k) = Some m" "drop (offset + 1 + k + 1) bytes = rest" "offset + k + 2 \<le> length bytes"
proof -
  have d: "drop offset bytes = 0xff # replicate k 0xff @ m # rest" using assms(2) by (simp add: marker_bytes_def)
  have len: "length bytes = offset + k + 2 + length rest" using length_of_drop [OF d assms(1)] by simp
  then show "offset + k + 2 \<le> length bytes" by simp
  show "get_byte bytes offset = Some 0xff" using nth_of_drop [OF d assms(1), of 0] len by (simp add: get_byte_def)
  have "drop (offset + 1) bytes = replicate k 0xff @ m # rest" using drop_append_shift [of offset bytes "[0xff]"] d by simp
  then show "skip_fill bytes (offset + 1) = offset + 1 + k" using skip_fill_run [of "offset + 1"] len assms(3) by simp
  have "bytes ! (offset + (1 + k)) = m" using nth_of_drop [OF d assms(1), of "1 + k"] by (simp add: nth_append)
  then show "get_byte bytes (offset + 1 + k) = Some m" using len by (simp add: get_byte_def)
  show "drop (offset + 1 + k + 1) bytes = rest"
    using drop_append_shift [OF assms(2)] by (simp add: marker_bytes_def ac_simps)
qed

lemma marker_found:
  assumes "offset < length bytes" "bytes ! offset = 0xff" "get_byte bytes (skip_fill bytes (offset + 1)) = Some m"
  shows "drop offset bytes = marker_bytes (skip_fill bytes (offset + 1) - (offset + 1)) m @ drop (skip_fill bytes (offset + 1) + 1) bytes"
    "m \<noteq> 0xff" "offset + 1 < skip_fill bytes (offset + 1) + 1" "skip_fill bytes (offset + 1) + 1 \<le> length bytes"
proof -
  let ?e = "skip_fill bytes (offset + 1)"
  from assms(3) have e: "?e < length bytes" "bytes ! ?e = m" by (simp_all add: get_byte_def split: if_splits)
  note f = skip_fill_sound [OF _ e(1)]
  from f e assms(1) show "m \<noteq> 0xff" by simp
  have "drop offset bytes = 0xff # drop (offset + 1) bytes" using drop_Cons_nth [OF assms(1)] assms(2) by simp
  with f e assms(1) show "drop offset bytes = marker_bytes (?e - (offset + 1)) m @ drop (?e + 1) bytes"
    by (simp add: marker_bytes_def)
  show "offset + 1 < ?e + 1" "?e + 1 \<le> length bytes" using e(1) skip_fill_ge [of "offset + 1" bytes] by simp_all
qed

lemma scan_items_sound:
  "scan_items bytes offset = Some (items, k, m, next) \<Longrightarrow>
   list_all item_ok items \<and> m \<noteq> 0xff \<and> m \<noteq> 0x00 \<and> \<not> restart_marker m \<and> offset < next \<and> next \<le> length bytes \<and>
   drop offset bytes = concat (map encode_item items) @ marker_bytes k m @ drop next bytes"
proof (induction bytes offset arbitrary: items rule: scan_items.induct)
  case (1 bytes offset)
  from "1.prems" have o: "offset < length bytes"
    by (subst (asm) scan_items.simps) (simp add: get_byte_def split: if_splits)
  then have g: "get_byte bytes offset = Some (bytes ! offset)" by (simp add: get_byte_def)
  let ?e = "skip_fill bytes (offset + 1)"
  show ?case
  proof (cases "bytes ! offset = 0xff")
    case False
    with "1.prems" g obtain items' where i: "scan_items bytes (offset + 1) = Some (items', k, m, next)" "items = Plain (bytes ! offset) # items'"
      by (subst (asm) scan_items.simps) auto
    from "1.IH"(1) [OF g False i(1)] i(2) False drop_Cons_nth [OF o] show ?thesis by simp
  next
    case True
    from "1.prems" g True obtain n where n: "get_byte bytes ?e = Some n"
      by (subst (asm) scan_items.simps) (auto simp: Let_def split: option.splits)
    note f = marker_found [OF o True n]
    consider "n = 0x00" | "n \<noteq> 0x00" "restart_marker n" | "n \<noteq> 0x00" "\<not> restart_marker n" by blast
    then show ?thesis
    proof cases
      case 1: 1
      with "1.prems" g True n obtain items' where i: "scan_items bytes (?e + 1) = Some (items', k, m, next)"
          "items = Stuffed (?e - (offset + 1)) # items'"
        by (subst (asm) scan_items.simps) (auto simp: Let_def)
      from "1.IH"(2) [OF g _ refl refl n 1 i(1)] i(2) True 1 f show ?thesis by (simp add: marker_bytes_def)
    next
      case 2
      with "1.prems" g True n obtain items' where i: "scan_items bytes (?e + 1) = Some (items', k, m, next)"
          "items = Restart (?e - (offset + 1)) n # items'"
        by (subst (asm) scan_items.simps) (auto simp: Let_def)
      from "1.IH"(3) [OF g _ refl refl n 2 i(1)] i(2) True 2 f show ?thesis by (simp add: marker_bytes_def)
    next
      case 3
      with "1.prems" g True n have "items = []" "k = ?e - (offset + 1)" "m = n" "next = ?e + 1"
        by (subst (asm) scan_items.simps, simp add: Let_def)+
      with 3 f show ?thesis by simp
    qed
  qed
qed

lemma scan_items_complete:
  "offset \<le> length bytes \<Longrightarrow> list_all item_ok items \<Longrightarrow> m \<noteq> 0xff \<Longrightarrow> m \<noteq> 0x00 \<Longrightarrow> \<not> restart_marker m \<Longrightarrow>
   drop offset bytes = concat (map encode_item items) @ marker_bytes k m @ rest \<Longrightarrow>
   scan_items bytes offset = Some (items, k, m, offset + length (concat (map encode_item items)) + k + 2)"
proof (induction items arbitrary: offset)
  case Nil
  note r = marker_run [OF Nil.prems(1) _ Nil.prems(3), of k rest]
  from r Nil.prems show ?case by (subst scan_items.simps) (simp add: Let_def)
next
  case (Cons item items)
  show ?case
  proof (cases item)
    case (Plain b)
    have d: "drop offset bytes = b # concat (map encode_item items) @ marker_bytes k m @ rest" using Cons.prems(6) by (simp add: Plain)
    then have o: "offset < length bytes" "bytes ! offset = b"
      using length_of_drop [OF d Cons.prems(1)] nth_of_drop [OF d Cons.prems(1), of 0] by simp_all
    have "drop (offset + 1) bytes = concat (map encode_item items) @ marker_bytes k m @ rest"
      using drop_append_shift [of offset bytes "[b]"] d by simp
    from Cons.IH [OF _ _ Cons.prems(3-5) this] o Cons.prems(2) show ?thesis
      by (subst scan_items.simps) (simp add: get_byte_def Plain)
  next
    case (Stuffed fill)
    have d: "drop offset bytes = marker_bytes fill 0x00 @ concat (map encode_item items) @ marker_bytes k m @ rest"
      using Cons.prems(6) by (simp add: Stuffed marker_bytes_def)
    have "(0x00 :: 8 word) \<noteq> 0xff" by simp
    note r = marker_run [OF Cons.prems(1) d this]
    have "offset + 1 + fill + 1 \<le> length bytes" using r(5) by simp
    from Cons.IH [OF this _ Cons.prems(3-5) r(4)] Cons.prems(2) r(1-3) show ?thesis
      by (subst scan_items.simps) (simp add: Let_def Stuffed)
  next
    case (Restart fill n)
    have d: "drop offset bytes = marker_bytes fill n @ concat (map encode_item items) @ marker_bytes k m @ rest"
      using Cons.prems(6) by (simp add: Restart marker_bytes_def)
    have n: "restart_marker n" using Cons.prems(2) by (simp add: Restart)
    then have "n \<noteq> 0xff" "n \<noteq> 0x00" by (auto simp: restart_marker_def)
    note r = marker_run [OF Cons.prems(1) d this(1)]
    have "offset + 1 + fill + 1 \<le> length bytes" using r(5) by simp
    from Cons.IH [OF this _ Cons.prems(3-5) r(4)] Cons.prems(2) r(1-3) n \<open>n \<noteq> 0x00\<close> show ?thesis
      by (subst scan_items.simps) (simp add: Let_def Restart)
  qed
qed

section \<open>The pieces of a JPEG\<close>

text \<open>Entropy-coded data, fill bytes, a marker, and unless it is the last one the data of its segment.\<close>

datatype jpeg_piece = Jpeg_Piece (jx_items: "entropy_item list") (jx_fill: nat) (jx_marker: "8 word") (jx_data: "bytes option")

fun segment_bytes :: "bytes option \<Rightarrow> bytes" where
  "segment_bytes None = []"
| "segment_bytes (Some d) = u16_be_bytes (length d + 2) @ d"

definition encode_jpeg_piece :: "jpeg_piece \<Rightarrow> bytes" where
  "encode_jpeg_piece p = concat (map encode_item (jx_items p)) @ marker_bytes (jx_fill p) (jx_marker p) @ segment_bytes (jx_data p)"

definition jpeg_piece_ok :: "jpeg_state \<Rightarrow> jpeg_piece \<Rightarrow> bool" where
  "jpeg_piece_ok s p \<longleftrightarrow>
     list_all item_ok (jx_items p) \<and> (jp_in_scan s \<or> jx_items p = []) \<and> jx_marker p \<noteq> 0xff \<and> \<not> standalone_marker (jx_marker p) \<and>
     (jx_data p = None \<longleftrightarrow> jx_marker p = 0xd9) \<and> (case jx_data p of None \<Rightarrow> True | Some d \<Rightarrow> length d + 2 < 65536)"

definition jpeg_step :: "jpeg_state \<Rightarrow> jpeg_piece \<Rightarrow> jpeg_state verdict" where
  "jpeg_step s p =
     (let s = s\<lparr>jp_seen_entropy := jp_seen_entropy s \<or> list_ex item_data (jx_items p), jp_in_scan := False\<rparr>
      in if jx_marker p = 0xd9 then Finish (jp_seen_sof s \<and> jp_seen_sos s \<and> jp_seen_entropy s)
         else case Option.bind (jx_data p) (\<lambda>d. jpeg_segment (jx_marker p) d s) of None \<Rightarrow> Reject | Some s \<Rightarrow> Continue s)"

definition jpeg_head :: "jpeg_state \<Rightarrow> bytes \<Rightarrow> nat \<Rightarrow> (entropy_item list \<times> nat \<times> 8 word \<times> nat) option" where
  "jpeg_head s bytes offset =
     (if jp_in_scan s then scan_items bytes offset
      else map_option (\<lambda>(m, next). ([], next - (offset + 2), m, next)) (header_marker bytes offset))"

definition jpeg_read :: "jpeg_state \<Rightarrow> bytes \<Rightarrow> nat \<Rightarrow> (jpeg_piece \<times> nat) option" where
  "jpeg_read s bytes offset =
     (case jpeg_head s bytes offset of None \<Rightarrow> None
      | Some (items, k, m, next) \<Rightarrow>
          if m = 0xd9 then Some (Jpeg_Piece items k m None, next)
          else if standalone_marker m then None
          else map_option (\<lambda>(segment, segment_end). (Jpeg_Piece items k m (Some segment), segment_end)) (jpeg_segment_at bytes next))"

lemma standalone_restart: "\<not> standalone_marker m \<Longrightarrow> m \<noteq> 0x00 \<and> \<not> restart_marker m"
  unfolding standalone_marker_def restart_marker_def by (auto simp: word_le_nat_alt)

lemma skip_fill_Suc: "get_byte bytes offset = Some 0xff \<Longrightarrow> skip_fill bytes offset = skip_fill bytes (offset + 1)"
  by (subst skip_fill.simps) simp

lemma jpeg_head_sound:
  assumes "jpeg_head s bytes offset = Some (items, k, m, next)"
  shows "list_all item_ok items \<and> (jp_in_scan s \<or> items = []) \<and> m \<noteq> 0xff \<and> offset < next \<and> next \<le> length bytes \<and>
    drop offset bytes = concat (map encode_item items) @ marker_bytes k m @ drop next bytes"
proof (cases "jp_in_scan s")
  case True
  with assms have "scan_items bytes offset = Some (items, k, m, next)" by (simp add: jpeg_head_def)
  from scan_items_sound [OF this] True show ?thesis by simp
next
  case False
  with assms have i: "items = []" "k = next - (offset + 2)" and h: "header_marker bytes offset = Some (m, next)"
    by (auto simp: jpeg_head_def)
  from h have g: "get_byte bytes offset = Some 0xff" "get_byte bytes (skip_fill bytes (offset + 1)) = Some m" "next = skip_fill bytes (offset + 1) + 1"
    by (auto simp: header_marker_def Let_def skip_fill_Suc split: if_splits option.splits)
  from g(1) have o: "offset < length bytes" "bytes ! offset = 0xff" by (simp_all add: get_byte_def split: if_splits)
  from marker_found [OF o g(2)] i g(3) show ?thesis by simp
qed

lemma jpeg_head_complete:
  assumes "offset \<le> length bytes" "list_all item_ok items" "jp_in_scan s \<or> items = []" "m \<noteq> 0xff" "\<not> standalone_marker m"
    "drop offset bytes = concat (map encode_item items) @ marker_bytes k m @ rest"
  shows "jpeg_head s bytes offset = Some (items, k, m, offset + length (concat (map encode_item items)) + k + 2)"
proof (cases "jp_in_scan s")
  case True
  with scan_items_complete [OF assms(1,2,4) _ _ assms(6)] standalone_restart [OF assms(5)] show ?thesis
    by (simp add: jpeg_head_def)
next
  case False
  with assms(3,6) have i: "items = []" and d: "drop offset bytes = marker_bytes k m @ rest" by simp_all
  note r = marker_run [OF assms(1) d assms(4)]
  from r(1-3) False show ?thesis by (simp add: jpeg_head_def header_marker_def Let_def skip_fill_Suc i)
qed

lemma jpeg_marker_head:
  "jpeg_marker bytes offset s = map_option (\<lambda>(items, k, m, next). (m, next,
     s\<lparr>jp_seen_entropy := jp_seen_entropy s \<or> list_ex item_data items, jp_in_scan := False\<rparr>)) (jpeg_head s bytes offset)"
  by (auto simp: jpeg_marker_def jpeg_head_def scan_marker_items option.map_comp comp_def intro!: map_option_cong)

lemma segment_at_iff:
  assumes "length bytes \<le> isize_max" "offset \<le> length bytes"
  shows "jpeg_segment_at bytes offset = Some (d, next) \<longleftrightarrow>
    length d + 2 < 65536 \<and> next = offset + 2 + length d \<and> (\<exists>rest. drop offset bytes = segment_bytes (Some d) @ rest)"
proof
  assume "jpeg_segment_at bytes offset = Some (d, next)"
  then have n: "2 \<le> u16_be_at bytes offset" "next = offset + u16_be_at bytes offset" "next \<le> length bytes" "offset + 2 \<le> length bytes"
      "d = take (u16_be_at bytes offset - 2) (drop (offset + 2) bytes)"
    by (auto simp: jpeg_segment_at_def checked_add_def byte_range_def Let_def split: if_splits)
  note u = u16_be_at_bytes [OF n(4)]
  have l: "length d = u16_be_at bytes offset - 2" using n by simp
  have "offset + 2 + (u16_be_at bytes offset - 2) = next" using n(1,2) by linarith
  with drop_split [of "offset + 2" bytes "u16_be_at bytes offset - 2"] have "drop (offset + 2) bytes = d @ drop next bytes"
    by (simp only: n(5))
  with drop_split [of offset bytes 2] have "drop offset bytes = take 2 (drop offset bytes) @ d @ drop next bytes" by simp
  moreover have e: "length d + 2 = u16_be_at bytes offset" using n(1) l by simp
  ultimately have "drop offset bytes = segment_bytes (Some d) @ drop next bytes"
    unfolding segment_bytes.simps e append.assoc using u by simp
  with u n(2) e show "length d + 2 < 65536 \<and> next = offset + 2 + length d \<and> (\<exists>rest. drop offset bytes = segment_bytes (Some d) @ rest)"
    by auto
next
  assume "length d + 2 < 65536 \<and> next = offset + 2 + length d \<and> (\<exists>rest. drop offset bytes = segment_bytes (Some d) @ rest)"
  then obtain rest where l: "length d + 2 < 65536" "next = offset + 2 + length d" and d: "drop offset bytes = u16_be_bytes (length d + 2) @ d @ rest"
    by auto
  have len: "length bytes = offset + 2 + length d + length rest" using length_of_drop [OF d assms(2)] by simp
  have 2: "take 2 (drop offset bytes) = u16_be_bytes (length d + 2)" "drop (offset + 2) bytes = d @ rest"
    using drop_after [OF d, of 2] by simp_all
  have u: "u16_be_at bytes offset = length d + 2"
    using u16_be_at_bytes [of offset bytes] 2(1) len l(1) by (auto intro: u16_be_bytes_inj)
  have "offset + 2 \<le> usize_max" "offset + (length d + 2) \<le> usize_max" using len assms(1) unfolding isize_max_def by linarith+
  then have "checked_add usize_max offset 2 = Some (offset + 2)" "checked_add usize_max offset (length d + 2) = Some (offset + (length d + 2))"
    by (simp_all only: checked_add_def if_True)
  moreover have "byte_range bytes (offset + 2) (offset + (length d + 2)) = d" using 2(2) by (simp add: byte_range_def)
  ultimately show "jpeg_segment_at bytes offset = Some (d, next)"
    using len l(2) by (simp add: jpeg_segment_at_def u)
qed

lemma jpeg_read_sound:
  assumes "length bytes \<le> isize_max" "jpeg_read s bytes offset = Some (p, next)"
  shows "jpeg_piece_ok s p \<and> drop offset bytes = encode_jpeg_piece p @ drop next bytes \<and> next \<le> length bytes"
proof -
  from assms(2) obtain items k m j where h: "jpeg_head s bytes offset = Some (items, k, m, j)"
    by (auto simp: jpeg_read_def split: option.splits)
  note hs = jpeg_head_sound [OF h]
  show ?thesis
  proof (cases "m = 0xd9")
    case True
    with assms(2) h have "p = Jpeg_Piece items k m None" "next = j" by (simp_all add: jpeg_read_def)
    with True hs show ?thesis by (simp add: jpeg_piece_ok_def encode_jpeg_piece_def standalone_marker_def)
  next
    case False
    with assms(2) h obtain d where d: "\<not> standalone_marker m" "jpeg_segment_at bytes j = Some (d, next)" "p = Jpeg_Piece items k m (Some d)"
      by (auto simp: jpeg_read_def split: if_splits)
    have "j \<le> length bytes" using hs by simp
    note sa = segment_at_iff [OF assms(1) this, of d "next"]
    from d(2) sa obtain rest where r: "length d + 2 < 65536" "next = j + 2 + length d" "drop j bytes = segment_bytes (Some d) @ rest" by blast
    have "rest = drop next bytes" using drop_append_shift [OF r(3)] r(2) by (simp add: add.assoc)
    with False d(1,3) r hs jpeg_segment_at_next [OF d(2)] show ?thesis
      by (simp add: jpeg_piece_ok_def encode_jpeg_piece_def)
  qed
qed

lemma jpeg_read_complete:
  assumes "length bytes \<le> isize_max" "jpeg_piece_ok s p" "drop offset bytes = encode_jpeg_piece p @ rest" "offset \<le> length bytes"
  shows "jpeg_read s bytes offset = Some (p, offset + length (encode_jpeg_piece p))"
proof -
  obtain items k m d where p: "p = Jpeg_Piece items k m d" by (cases p) auto
  from assms(2) have ok: "list_all item_ok items" "jp_in_scan s \<or> items = []" "m \<noteq> 0xff" "\<not> standalone_marker m" "d = None \<longleftrightarrow> m = 0xd9"
    by (simp_all add: jpeg_piece_ok_def p)
  have e: "drop offset bytes = concat (map encode_item items) @ marker_bytes k m @ segment_bytes d @ rest"
    using assms(3) by (simp add: encode_jpeg_piece_def p)
  let ?j = "offset + length (concat (map encode_item items)) + k + 2"
  note h = jpeg_head_complete [OF assms(4) ok(1-4) e]
  note hs = jpeg_head_sound [OF h]
  have rest: "drop ?j bytes = segment_bytes d @ rest" using hs e by simp
  show ?thesis
  proof (cases d)
    case None
    with h ok(5) show ?thesis by (simp add: jpeg_read_def p encode_jpeg_piece_def)
  next
    case (Some x)
    have j: "?j \<le> length bytes" using hs by simp
    have "length x + 2 < 65536" using assms(2) by (simp add: jpeg_piece_ok_def p Some)
    then have "jpeg_segment_at bytes ?j = Some (x, ?j + 2 + length x)"
      unfolding segment_at_iff [OF assms(1) j] using rest Some by blast
    with h ok Some show ?thesis by (simp add: jpeg_read_def p encode_jpeg_piece_def)
  qed
qed

interpretation jpeg: piece_loop jpeg_read encode_jpeg_piece jpeg_piece_ok jpeg_step "\<lambda>_. False" jpeg_segments
proof
  show "length bytes \<le> isize_max \<Longrightarrow> offset \<le> length bytes \<Longrightarrow>
      jpeg_read s bytes offset = Some (p, next) \<longleftrightarrow>
      jpeg_piece_ok s p \<and> next = offset + length (encode_jpeg_piece p) \<and> (\<exists>rest. drop offset bytes = encode_jpeg_piece p @ rest)"
    for bytes offset s p "next"
  proof
    assume b: "length bytes \<le> isize_max" "offset \<le> length bytes" "jpeg_read s bytes offset = Some (p, next)"
    note g = jpeg_read_sound [OF b(1,3)]
    with length_of_drop [OF _ b(2), of "encode_jpeg_piece p @ drop next bytes"] have "next = offset + length (encode_jpeg_piece p)"
      unfolding length_append length_drop by linarith
    with g show "jpeg_piece_ok s p \<and> next = offset + length (encode_jpeg_piece p) \<and> (\<exists>rest. drop offset bytes = encode_jpeg_piece p @ rest)" by blast
  qed (use jpeg_read_complete in blast)
  show "jpeg_piece_ok s p \<Longrightarrow> encode_jpeg_piece p \<noteq> []" for s p
    by (simp add: encode_jpeg_piece_def marker_bytes_def)
  show "offset \<le> length bytes \<Longrightarrow> jpeg_segments bytes offset s =
      (if offset = length bytes then False
       else case jpeg_read s bytes offset of None \<Rightarrow> False
            | Some (p, next) \<Rightarrow>
                (case jpeg_step s p of Reject \<Rightarrow> False | Finish answer \<Rightarrow> answer \<and> next = length bytes
                 | Continue s \<Rightarrow> jpeg_segments bytes next s))" for bytes offset s
  proof (cases "offset = length bytes")
    case True
    then have "jpeg_head s bytes offset = None"
      by (subst jpeg_head_def, subst scan_items.simps) (simp add: header_marker_def get_byte_def)
    with True show ?thesis by (subst jpeg_segments.simps) (simp add: jpeg_marker_head)
  qed (subst jpeg_segments.simps, auto simp: jpeg_marker_head jpeg_read_def jpeg_step_def Let_def split: option.split)
qed

section \<open>The pieces that make a file\<close>

definition is_frame :: "jpeg_piece \<Rightarrow> bool" where "is_frame p \<longleftrightarrow> is_frame_marker (jx_marker p)"
definition is_scan :: "jpeg_piece \<Rightarrow> bool" where "is_scan p \<longleftrightarrow> jx_marker p = 0xda"
definition is_quantization :: "jpeg_piece \<Rightarrow> bool" where "is_quantization p \<longleftrightarrow> jx_marker p = 0xdb"
definition is_coding :: "jpeg_piece \<Rightarrow> bool" where "is_coding p \<longleftrightarrow> jx_marker p = 0xc4 \<or> jx_marker p = 0xcc"

text \<open>The last table of a kind is not empty.\<close>

definition table_set :: "(jpeg_piece \<Rightarrow> bool) \<Rightarrow> jpeg_piece list \<Rightarrow> bool" where
  "table_set kind ps \<longleftrightarrow> (\<exists>a p b. ps = a @ p # b \<and> kind p \<and> jx_data p \<noteq> Some [] \<and> list_all (\<lambda>q. \<not> kind q) b)"

text \<open>What the pieces before one say, declaratively.\<close>

definition jpeg_before :: "jpeg_piece list \<Rightarrow> jpeg_state" where
  "jpeg_before ps =
     \<lparr>jp_in_scan = (ps \<noteq> [] \<and> is_scan (last ps)), jp_seen_sof = list_ex is_frame ps, jp_seen_sos = list_ex is_scan ps,
      jp_seen_entropy = list_ex (\<lambda>p. list_ex item_data (jx_items p)) ps,
      jp_seen_quantization_table = table_set is_quantization ps, jp_seen_coding_table = table_set is_coding ps\<rparr>"

definition frame_ok :: "bytes \<Rightarrow> bool" where
  "frame_ok d \<longleftrightarrow> 6 \<le> length d \<and> d ! 5 \<noteq> 0 \<and> length d = 6 + 3 * unat (d ! 5) \<and> d ! 0 \<in> {8, 12, 16}"

definition scan_ok :: "bytes \<Rightarrow> bool" where
  "scan_ok d \<longleftrightarrow> d \<noteq> [] \<and> d ! 0 \<noteq> 0 \<and> length d = 4 + 2 * unat (d ! 0)"

definition jpeg_allowed :: "jpeg_piece list \<Rightarrow> jpeg_piece \<Rightarrow> bool" where
  "jpeg_allowed ps p \<longleftrightarrow>
     jpeg_piece_ok (jpeg_before ps) p \<and> jx_marker p \<noteq> 0xd9 \<and>
     (is_frame p \<longrightarrow> \<not> list_ex is_frame ps \<and> frame_ok (the (jx_data p))) \<and>
     (is_scan p \<longrightarrow> list_ex is_frame ps \<and> table_set is_quantization ps \<and> table_set is_coding ps \<and> scan_ok (the (jx_data p)))"

lemma table_set_Nil [simp]: "\<not> table_set kind []"
  by (simp add: table_set_def)

lemma table_set_snoc [simp]: "table_set kind (ps @ [p]) \<longleftrightarrow> (if kind p then jx_data p \<noteq> Some [] else table_set kind ps)"
proof (cases "kind p")
  case True
  have "jx_data p \<noteq> Some []" if "table_set kind (ps @ [p])"
  proof -
    from that obtain a q b where t: "ps @ [p] = a @ q # b" "jx_data q \<noteq> Some []" "list_all (\<lambda>q. \<not> kind q) b" by (auto simp: table_set_def)
    with True show ?thesis by (cases b rule: rev_cases) auto
  qed
  moreover have "table_set kind (ps @ [p])" if "jx_data p \<noteq> Some []"
    unfolding table_set_def using True that by (intro exI [of _ ps] exI [of _ p] exI [of _ "[]"]) simp
  ultimately show ?thesis using True by auto
next
  case False
  have "table_set kind (ps @ [p])" if "table_set kind ps"
  proof -
    from that obtain a q b where "ps = a @ q # b" "kind q" "jx_data q \<noteq> Some []" "list_all (\<lambda>q. \<not> kind q) b" by (auto simp: table_set_def)
    with False show ?thesis unfolding table_set_def by (intro exI [of _ a] exI [of _ q] exI [of _ "b @ [p]"]) simp
  qed
  moreover have "table_set kind ps" if "table_set kind (ps @ [p])"
  proof -
    from that obtain a q b where t: "ps @ [p] = a @ q # b" "kind q" "jx_data q \<noteq> Some []" "list_all (\<lambda>q. \<not> kind q) b" by (auto simp: table_set_def)
    with False obtain c where "b = c @ [p]" by (cases b rule: rev_cases) auto
    with t show ?thesis unfolding table_set_def by auto
  qed
  ultimately show ?thesis using False by auto
qed

lemma marker_kinds:
  "is_frame p \<Longrightarrow> \<not> is_scan p \<and> \<not> is_quantization p \<and> \<not> is_coding p \<and> jx_marker p \<noteq> 0xd9"
  "is_scan p \<Longrightarrow> \<not> is_quantization p \<and> \<not> is_coding p" "is_quantization p \<Longrightarrow> \<not> is_coding p"
  by (auto simp: is_frame_def is_scan_def is_quantization_def is_coding_def is_frame_marker_def)

lemma components_exact: "sat_add usize_max n (sat_mul usize_max (unat (b :: 8 word)) k) = n + k * unat b" if "n \<le> 6" "k \<le> 3"
proof -
  have "k * unat b \<le> 3 * 255" using that(2) unat_byte_less [of b] by (intro mult_mono) simp_all
  with that(1) show ?thesis by (simp add: sat_add_def sat_mul_def min_def mult.commute)
qed

lemma jpeg_segment_eq:
  "jpeg_segment (jx_marker p) d s =
     (if is_frame p then if \<not> jp_seen_sof s \<and> frame_ok d then Some (s\<lparr>jp_seen_sof := True\<rparr>) else None
      else if is_quantization p then Some (s\<lparr>jp_seen_quantization_table := d \<noteq> []\<rparr>)
      else if is_coding p then Some (s\<lparr>jp_seen_coding_table := d \<noteq> []\<rparr>)
      else if is_scan p
      then if jp_seen_sof s \<and> jp_seen_quantization_table s \<and> jp_seen_coding_table s \<and> scan_ok d
           then Some (s\<lparr>jp_seen_sos := True, jp_in_scan := True\<rparr>) else None
      else Some s)"
  by (auto simp: jpeg_segment_def is_frame_def is_quantization_def is_coding_def is_scan_def frame_ok_def scan_ok_def components_exact Let_def
      unat_eq_0 not_less)

lemma jpeg_step_before:
  assumes "jpeg_piece_ok (jpeg_before ps) p"
  shows "jpeg_step (jpeg_before ps) p =
    (if jx_marker p = 0xd9
     then Finish (list_ex is_frame ps \<and> list_ex is_scan ps \<and> list_ex (\<lambda>p. list_ex item_data (jx_items p)) (ps @ [p]))
     else if jpeg_allowed ps p then Continue (jpeg_before (ps @ [p])) else Reject)"
proof (cases "jx_marker p = 0xd9")
  case True
  then show ?thesis by (simp add: jpeg_step_def jpeg_before_def)
next
  case False
  with assms obtain d where d: "jx_data p = Some d" by (auto simp: jpeg_piece_ok_def)
  show ?thesis
    using assms False marker_kinds [of p]
    by (auto simp: jpeg_step_def jpeg_segment_eq d jpeg_allowed_def jpeg_before_def Let_def)
qed

definition jpeg_file :: "jpeg_piece list \<Rightarrow> jpeg_piece \<Rightarrow> bool" where
  "jpeg_file body final \<longleftrightarrow>
     (\<forall>i<length body. jpeg_allowed (take i body) (body ! i)) \<and> jpeg_piece_ok (jpeg_before body) final \<and> jx_marker final = 0xd9 \<and>
     list_ex is_frame body \<and> list_ex is_scan body \<and> list_ex (\<lambda>p. list_ex item_data (jx_items p)) (body @ [final])"

abbreviation jpeg_accepts :: "jpeg_state \<Rightarrow> jpeg_piece list \<Rightarrow> bool" where
  "jpeg_accepts \<equiv> accepts jpeg_piece_ok jpeg_step (\<lambda>_. False)"

lemma jpeg_accepts_Cons:
  "jpeg_accepts (jpeg_before ps) (c # cs) \<longleftrightarrow>
     (if jx_marker c = 0xd9
      then jpeg_piece_ok (jpeg_before ps) c \<and> list_ex is_frame ps \<and> list_ex is_scan ps \<and>
           list_ex (\<lambda>p. list_ex item_data (jx_items p)) (ps @ [c]) \<and> cs = []
      else jpeg_allowed ps c \<and> jpeg_accepts (jpeg_before (ps @ [c])) cs)"
  using jpeg_step_before [of ps c] by (cases "jpeg_piece_ok (jpeg_before ps) c") (auto simp: jpeg_allowed_def)

lemma jpeg_accepts_sound:
  "jpeg_accepts (jpeg_before ps) cs \<Longrightarrow> \<forall>i<length ps. jpeg_allowed (take i ps) (ps ! i) \<Longrightarrow>
   \<exists>body final. ps @ cs = body @ [final] \<and> jpeg_file body final"
proof (induction cs arbitrary: ps)
  case (Cons c cs)
  show ?case
  proof (cases "jx_marker c = 0xd9")
    case True
    from Cons.prems(1) True have "cs = [] \<and> jpeg_piece_ok (jpeg_before ps) c \<and> list_ex is_frame ps \<and> list_ex is_scan ps \<and>
        list_ex (\<lambda>p. list_ex item_data (jx_items p)) (ps @ [c])"
      unfolding jpeg_accepts_Cons by simp
    with True Cons.prems(2) have "cs = []" "jpeg_file ps c" by (simp_all add: jpeg_file_def)
    then show ?thesis by auto
  next
    case False
    with Cons.prems have a: "jpeg_allowed ps c" "jpeg_accepts (jpeg_before (ps @ [c])) cs" by (simp_all only: jpeg_accepts_Cons if_False)
    from a(1) Cons.prems(2) have "\<forall>i<length (ps @ [c]). jpeg_allowed (take i (ps @ [c])) ((ps @ [c]) ! i)"
      by (auto simp: less_Suc_eq nth_append)
    from Cons.IH [OF a(2) this] show ?thesis by simp
  qed
qed simp

lemma jpeg_accepts_complete:
  "jpeg_file (ps @ body) final \<Longrightarrow> jpeg_accepts (jpeg_before ps) (body @ [final])"
proof (induction body arbitrary: ps)
  case Nil
  then show ?case unfolding append_Nil append_Nil2 jpeg_accepts_Cons jpeg_file_def by simp
next
  case (Cons c body)
  from Cons.prems have "jpeg_allowed (take (length ps) (ps @ c # body)) ((ps @ c # body) ! length ps)"
    unfolding jpeg_file_def by (metis add_less_cancel_left length_append length_greater_0_conv list.discI nat_arith.rule0)
  then have "jpeg_allowed ps c" by simp
  moreover from this have "jx_marker c \<noteq> 0xd9" by (simp add: jpeg_allowed_def)
  moreover have "jpeg_accepts (jpeg_before (ps @ [c])) (body @ [final])" using Cons.prems by (intro Cons.IH) simp
  ultimately show ?case by (simp only: append_Cons jpeg_accepts_Cons if_False simp_thms)
qed

lemma jpeg_accepted_iff:
  assumes "length bytes \<le> isize_max"
  shows "complete_plugin_vod_jpeg bytes \<longleftrightarrow>
    (\<exists>body final. jpeg_file body final \<and> bytes = [0xff, 0xd8] @ concat (map encode_jpeg_piece (body @ [final])))"
proof
  assume "complete_plugin_vod_jpeg bytes"
  then have c: "2 \<le> length bytes" "take 2 bytes = [0xff, 0xd8]" "jpeg_segments bytes 2 (jpeg_before [])"
    by (simp_all add: complete_plugin_vod_jpeg_def has_prefix_def jpeg_start_def jpeg_before_def numeral_eq_Suc)
  from c(3) jpeg.loop_iff [OF assms c(1)] obtain cs where cs: "drop 2 bytes = concat (map encode_jpeg_piece cs)" "jpeg_accepts (jpeg_before []) cs"
    by blast
  from jpeg_accepts_sound [OF cs(2)] obtain body final where "cs = body @ [final]" "jpeg_file body final" by auto
  moreover have "bytes = [0xff, 0xd8] @ concat (map encode_jpeg_piece cs)"
    using append_take_drop_id [of 2 bytes] unfolding c(2) cs(1) by (rule sym)
  ultimately show "\<exists>body final. jpeg_file body final \<and> bytes = [0xff, 0xd8] @ concat (map encode_jpeg_piece (body @ [final]))" by blast
next
  assume "\<exists>body final. jpeg_file body final \<and> bytes = [0xff, 0xd8] @ concat (map encode_jpeg_piece (body @ [final]))"
  then obtain body final where f: "jpeg_file body final" and b: "bytes = [0xff, 0xd8] @ concat (map encode_jpeg_piece (body @ [final]))" by blast
  have "2 \<le> length (encode_jpeg_piece final)" by (simp add: encode_jpeg_piece_def)
  then have 4: "4 \<le> length bytes" by (simp add: b)
  have "drop 2 bytes = concat (map encode_jpeg_piece (body @ [final]))" by (simp add: b)
  from jpeg.loop_complete [OF assms _ this jpeg_accepts_complete [of "[]"]] f 4 have "jpeg_segments bytes 2 (jpeg_before [])" by simp
  with 4 show "complete_plugin_vod_jpeg bytes"
    by (simp add: complete_plugin_vod_jpeg_def has_prefix_def jpeg_start_def jpeg_before_def b)
qed

text \<open>
  C7. A byte sequence is accepted as a complete JPEG exactly when it is the start marker and the pieces of a file: one
  frame header of the length its components need, scans only after the frame and after tables that are not empty,
  entropy-coded data only inside a scan and somewhere in the file, and the end marker with nothing after it.
\<close>

theorem jpeg_accepted_exactly:
  assumes "length bytes \<le> isize_max"
  shows "complete_plugin_vod_jpeg bytes \<longleftrightarrow>
    (\<exists>body final. jpeg_file body final \<and> bytes = [0xff, 0xd8] @ concat (map encode_jpeg_piece (body @ [final])))"
  by (rule jpeg_accepted_iff [OF assms])

definition plain_segment :: "8 word \<Rightarrow> bytes \<Rightarrow> jpeg_piece" where
  "plain_segment m d = Jpeg_Piece [] 0 m (Some d)"

definition sample_jpeg_body :: "jpeg_piece list" where
  "sample_jpeg_body = [plain_segment 0xdb [0, 1, 1, 1], plain_segment 0xc0 [8, 0, 1, 0, 2, 1, 1, 0x11, 0], plain_segment 0xc4 [0, 1, 0],
     plain_segment 0xda [1, 1, 0, 0, 63, 0]]"

definition sample_jpeg_final :: jpeg_piece where
  "sample_jpeg_final = Jpeg_Piece [Plain 0x3f] 0 0xd9 None"

definition sample_jpeg :: bytes where
  "sample_jpeg = [0xff, 0xd8, 0xff, 0xdb, 0, 6, 0, 1, 1, 1, 0xff, 0xc0, 0, 11, 8, 0, 1, 0, 2, 1, 1, 0x11, 0, 0xff, 0xc4, 0, 5, 0, 1, 0,
     0xff, 0xda, 0, 8, 1, 1, 0, 0, 63, 0, 0x3f, 0xff, 0xd9]"

lemma table_set_rev: "table_set kind (rev (p # ps)) \<longleftrightarrow> (if kind p then jx_data p \<noteq> Some [] else table_set kind (rev ps))"
  by simp

lemma sample_jpeg_file: "jpeg_file sample_jpeg_body sample_jpeg_final"
proof -
  have t: "table_set kind [a, b, c] \<longleftrightarrow> table_set kind (rev [c, b, a])" for kind a b c by simp
  have "jpeg_allowed (take i sample_jpeg_body) (sample_jpeg_body ! i)" if "i < length sample_jpeg_body" for i
  proof -
    from that consider "i = 0" | "i = 1" | "i = 2" | "i = 3" unfolding sample_jpeg_body_def by fastforce
    then show ?thesis
      by cases (simp_all add: sample_jpeg_body_def plain_segment_def jpeg_allowed_def jpeg_piece_ok_def jpeg_before_def is_frame_def is_frame_marker_def
          is_scan_def is_quantization_def is_coding_def frame_ok_def scan_ok_def standalone_marker_def t table_set_rev del: rev.simps)
  qed
  then show ?thesis
    by (simp add: jpeg_file_def sample_jpeg_body_def plain_segment_def jpeg_piece_ok_def jpeg_before_def is_frame_def is_frame_marker_def
        is_scan_def standalone_marker_def sample_jpeg_final_def)
qed

lemma jpeg_accepted_exactly_witness: "complete_plugin_vod_jpeg sample_jpeg"
proof -
  have "sample_jpeg = [0xff, 0xd8] @ concat (map encode_jpeg_piece (sample_jpeg_body @ [sample_jpeg_final]))"
    by (simp add: sample_jpeg_def sample_jpeg_body_def sample_jpeg_final_def plain_segment_def encode_jpeg_piece_def marker_bytes_def u16_be_bytes_def)
  moreover have "length sample_jpeg \<le> isize_max" by (simp add: sample_jpeg_def isize_max_def)
  ultimately show ?thesis using sample_jpeg_file by (subst jpeg_accepted_exactly) auto
qed

end
