(* ===== verification/Raster_Artwork.thy ===== *)
theory Raster_Artwork
  imports Raster_Blocks Raster_Segments Auth Xtream_Catalog
begin

text \<open>
  The artwork of a plugin's video items (\<open>crates/jellyrin-api/src/lib.rs\<close>, 26570--26676 and 27005--27217): the
  format by signature, the dimensions a file declares, the tests on a downloaded image and the download
  around them. The response of the provider, and the URL parser, are inputs. A declared content type that is not that of
  an image is only logged, so it is not an argument of the tests.
\<close>

section \<open>Formats and dimensions\<close>

record image_format =
  if_extension :: string
  if_content_type :: string

definition image_formats :: "image_format list" where
  "image_formats =
     [\<lparr>if_extension = ''png'', if_content_type = ''image/png''\<rparr>, \<lparr>if_extension = ''jpg'', if_content_type = ''image/jpeg''\<rparr>,
      \<lparr>if_extension = ''webp'', if_content_type = ''image/webp''\<rparr>, \<lparr>if_extension = ''gif'', if_content_type = ''image/gif''\<rparr>,
      \<lparr>if_extension = ''bin'', if_content_type = ''application/octet-stream''\<rparr>]"

definition image_format_from_bytes :: "bytes \<Rightarrow> image_format" where
  "image_format_from_bytes bytes =
     (if has_prefix png_signature bytes then image_formats ! 0
      else if has_prefix [0xff, 0xd8, 0xff] bytes then image_formats ! 1
      else if 12 \<le> length bytes \<and> byte_range bytes 0 4 = tag_riff \<and> byte_range bytes 8 12 = tag_webp then image_formats ! 2
      else if gif_magic bytes then image_formats ! 3
      else image_formats ! 4)"

function jpeg_dimensions :: "bytes \<Rightarrow> nat \<Rightarrow> (nat \<times> nat) option" where
  "jpeg_dimensions bytes offset =
     (if offset + 4 \<le> length bytes
      then
        if bytes ! offset \<noteq> 0xff then jpeg_dimensions bytes (offset + 1)
        else
          let marker = bytes ! (offset + 1); offset = offset + 2
          in if marker \<in> {0xd8, 0xd9} \<or> 0xd0 \<le> marker \<and> marker \<le> 0xd7 then jpeg_dimensions bytes offset
             else if length bytes < offset + 2 then None
             else
               let segment_len = u16_be_at bytes offset
               in if segment_len < 2 \<or> length bytes < offset + segment_len then None
                  else if is_frame_marker marker \<and> 7 \<le> segment_len
                  then Some (u16_be_at bytes (offset + 5), u16_be_at bytes (offset + 3))
                  else jpeg_dimensions bytes (offset + segment_len)
      else None)"
  by pat_completeness auto
termination
  by (relation "measure (\<lambda>(bytes, offset). length bytes - offset)") auto

declare jpeg_dimensions.simps [simp del]

definition webp_dimensions :: "bytes \<Rightarrow> (nat \<times> nat) option" where
  "webp_dimensions bytes =
     (if byte_range bytes 12 16 = tag_vp8x
      then Some (1 + u32_le (bytes ! 24) (bytes ! 25) (bytes ! 26) 0, 1 + u32_le (bytes ! 27) (bytes ! 28) (bytes ! 29) 0)
      else if byte_range bytes 12 16 = tag_vp8 \<and> byte_range bytes 23 26 = [0x9d, 0x01, 0x2a]
      then Some (u16_le_at bytes 26 AND 0x3fff, u16_le_at bytes 28 AND 0x3fff)
      else if byte_range bytes 12 16 = tag_vp8l \<and> bytes ! 20 = 0x2f
      then let bits = u32_le_at bytes 21 in Some ((bits AND 0x3fff) + 1, (drop_bit 14 bits AND 0x3fff) + 1)
      else None)"

definition image_dimensions_from_bytes :: "bytes \<Rightarrow> (nat \<times> nat) option" where
  "image_dimensions_from_bytes bytes =
     (if has_prefix png_signature bytes \<and> 24 \<le> length bytes then Some (u32_be_at bytes 16, u32_be_at bytes 20)
      else if gif_magic bytes \<and> 10 \<le> length bytes then Some (u16_le_at bytes 6, u16_le_at bytes 8)
      else
        opt_or (if 30 \<le> length bytes \<and> byte_range bytes 0 4 = tag_riff \<and> byte_range bytes 8 12 = tag_webp then webp_dimensions bytes else None)
          (if has_prefix [0xff, 0xd8, 0xff] bytes then jpeg_dimensions bytes 2 else None))"

definition safe_dimensions :: "nat \<times> nat \<Rightarrow> bool" where
  "safe_dimensions = (\<lambda>(width, height).
     0 < width \<and> 0 < height \<and> width \<le> 16384 \<and> height \<le> 16384 \<and> sat_mul u64_max width height \<le> 100000000)"

definition safe_remote_image_dimensions :: "bytes \<Rightarrow> bool" where
  "safe_remote_image_dimensions bytes = is_some_and safe_dimensions (image_dimensions_from_bytes bytes)"

section \<open>The tests on a payload\<close>

definition image_upload_limit_bytes :: nat where "image_upload_limit_bytes = 32 * 1024 * 1024"

definition plugin_vod_image_payload_len_is_allowed :: "nat \<Rightarrow> bool" where
  "plugin_vod_image_payload_len_is_allowed n \<longleftrightarrow> n \<le> image_upload_limit_bytes"

definition complete_plugin_vod_raster_payload :: "bytes \<Rightarrow> string \<Rightarrow> bool" where
  "complete_plugin_vod_raster_payload bytes extension =
     (if extension = ''png'' then complete_plugin_vod_png bytes
      else if extension = ''jpg'' then complete_plugin_vod_jpeg bytes
      else if extension = ''gif'' then complete_plugin_vod_gif bytes
      else if extension = ''webp'' then complete_plugin_vod_webp bytes
      else False)"

datatype plugin_vod_artwork_failure =
    Invalid_Source | Missing_Proxy | Invalid_Request | Request_Denied | Request_Unavailable | Request_Failed | Upstream_Client_Error
  | Upstream_Server_Error | Upstream_Other_Status | Body_Too_Large | Body_Interrupted | Empty_Body | Unknown_Format | Malformed_Raster
  | Invalid_Dimensions | Cache_Write_Failed

fun artwork_failure_labels :: "plugin_vod_artwork_failure \<Rightarrow> string \<times> string" where
  "artwork_failure_labels Invalid_Source = (''source_validation'', ''invalid_source'')"
| "artwork_failure_labels Missing_Proxy = (''egress_configuration'', ''missing_proxy'')"
| "artwork_failure_labels Invalid_Request = (''egress_request'', ''invalid_request'')"
| "artwork_failure_labels Request_Denied = (''egress_request'', ''request_denied'')"
| "artwork_failure_labels Request_Unavailable = (''egress_request'', ''request_unavailable'')"
| "artwork_failure_labels Request_Failed = (''egress_request'', ''request_failed'')"
| "artwork_failure_labels Upstream_Client_Error = (''upstream_status'', ''upstream_client_error'')"
| "artwork_failure_labels Upstream_Server_Error = (''upstream_status'', ''upstream_server_error'')"
| "artwork_failure_labels Upstream_Other_Status = (''upstream_status'', ''upstream_other_status'')"
| "artwork_failure_labels Body_Too_Large = (''body'', ''body_too_large'')"
| "artwork_failure_labels Body_Interrupted = (''body'', ''body_interrupted'')"
| "artwork_failure_labels Empty_Body = (''payload'', ''empty_body'')"
| "artwork_failure_labels Unknown_Format = (''payload'', ''unknown_format'')"
| "artwork_failure_labels Malformed_Raster = (''payload'', ''malformed_raster'')"
| "artwork_failure_labels Invalid_Dimensions = (''payload'', ''invalid_dimensions'')"
| "artwork_failure_labels Cache_Write_Failed = (''cache_write'', ''cache_write_failed'')"

text \<open>The failure is the one that is logged, the error the one that is returned.\<close>

type_synonym artwork_error = "plugin_vod_artwork_failure \<times> api_error"

definition payload_invalid :: api_error where
  "payload_invalid = service_unavailable ''VOD provider artwork payload is invalid''"

definition validate_plugin_vod_image_payload :: "bytes \<Rightarrow> artwork_error + unit" where
  "validate_plugin_vod_image_payload bytes =
     (if \<not> plugin_vod_image_payload_len_is_allowed (length bytes) then Inl (Body_Too_Large, bad_request ''Remote image file is too large'')
      else if bytes = [] then Inl (Empty_Body, payload_invalid)
      else
        let format = image_format_from_bytes bytes
        in if if_extension format = ''bin'' then Inl (Unknown_Format, payload_invalid)
           else if \<not> complete_plugin_vod_raster_payload bytes (if_extension format) then Inl (Malformed_Raster, payload_invalid)
           else if \<not> safe_remote_image_dimensions bytes then Inl (Invalid_Dimensions, payload_invalid)
           else Inr ())"

definition plugin_vod_artwork_content_type_is_nonstandard :: "string option \<Rightarrow> bool" where
  "plugin_vod_artwork_content_type_is_nonstandard v =
     is_some_and (\<lambda>v. \<not> list_ex (eq_ignore_case (trim (hd (split_on (CHR '';'') v))))
        [''image/jpeg'', ''image/jpg'', ''image/png'', ''image/webp'', ''image/gif'', ''application/octet-stream'']) v"

section \<open>The download\<close>

text \<open>A chunk that could not be read is \<open>None\<close>.\<close>

fun read_image_chunks :: "nat \<Rightarrow> bytes \<Rightarrow> bytes option list \<Rightarrow> api_error + bytes" where
  "read_image_chunks max_bytes bytes [] = Inr bytes"
| "read_image_chunks max_bytes bytes (None # chunks) = Inl (service_unavailable ''Remote image download interrupted'')"
| "read_image_chunks max_bytes bytes (Some chunk # chunks) =
     (if max_bytes < sat_add usize_max (length bytes) (length chunk) then Inl (bad_request ''Remote image file is too large'')
      else read_image_chunks max_bytes (bytes @ chunk) chunks)"

record artwork_response =
  ar_status :: nat
  ar_content_length :: "nat option"
  ar_chunks :: "bytes option list"

definition read_bounded_remote_image_body :: "artwork_response \<Rightarrow> nat \<Rightarrow> api_error + bytes" where
  "read_bounded_remote_image_body response max_bytes =
     (if is_some_and (\<lambda>n. max_bytes < n) (ar_content_length response) then Inl (bad_request ''Remote image file is too large'')
      else read_image_chunks max_bytes [] (ar_chunks response))"

definition validated_remote_media_url :: "'u url_ops \<Rightarrow> string \<Rightarrow> api_error + 'u" where
  "validated_remote_media_url ops source_url =
     (if 16 * 1024 < length source_url \<or> has_control source_url then Inl (service_unavailable ''invalid remote media source'')
      else case uo_parse ops source_url of
          None \<Rightarrow> Inl (service_unavailable ''invalid remote media source'')
        | Some u \<Rightarrow>
            if \<not> http_scheme ops u \<or> uo_username ops u \<noteq> [] \<or> uo_password ops u \<noteq> None \<or> uo_fragment ops u \<noteq> None
            then Inl (service_unavailable ''invalid remote media source'')
            else Inr u)"

text \<open>No \<open>ApiError\<close> has the status 504, which shares the branch of 503.\<close>

definition plugin_vod_artwork_request_failure :: "api_error \<Rightarrow> plugin_vod_artwork_failure" where
  "plugin_vod_artwork_request_failure e =
     (case err_status e of Bad_Request \<Rightarrow> Invalid_Request | Forbidden \<Rightarrow> Request_Denied | Service_Unavailable \<Rightarrow> Request_Unavailable
      | _ \<Rightarrow> Request_Failed)"

text \<open>\<open>send proxy source_url\<close> is the answer to the request.\<close>

definition fetch_plugin_vod_remote_image ::
  "'u url_ops \<Rightarrow> string option \<Rightarrow> (string \<Rightarrow> string \<Rightarrow> api_error + artwork_response) \<Rightarrow> string \<Rightarrow> artwork_error + bytes" where
  "fetch_plugin_vod_remote_image ops configured_proxy send source_url =
     (case validated_remote_media_url ops source_url of Inl e \<Rightarrow> Inl (Invalid_Source, e) | Inr u \<Rightarrow>
      case configured_proxy of
        None \<Rightarrow> Inl (Missing_Proxy, service_unavailable ''VOD provider egress proxy is not configured'')
      | Some proxy \<Rightarrow>
          (case send proxy source_url of Inl e \<Rightarrow> Inl (plugin_vod_artwork_request_failure e, e) | Inr response \<Rightarrow>
           if \<not> (200 \<le> ar_status response \<and> ar_status response < 300)
           then Inl (if 400 \<le> ar_status response \<and> ar_status response < 500 then Upstream_Client_Error
                     else if 500 \<le> ar_status response \<and> ar_status response < 600 then Upstream_Server_Error else Upstream_Other_Status,
                     service_unavailable ''VOD provider artwork is unavailable'')
           else case read_bounded_remote_image_body response image_upload_limit_bytes of
                  Inl e \<Rightarrow> Inl (if err_status e = Bad_Request then Body_Too_Large else Body_Interrupted, e)
                | Inr bytes \<Rightarrow> map_sum (\<lambda>e. e) (\<lambda>_. bytes) (validate_plugin_vod_image_payload bytes)))"

section \<open>What an accepted image declares\<close>

lemma validate_payload_iff:
  "validate_plugin_vod_image_payload bytes = Inr u \<longleftrightarrow>
     length bytes \<le> image_upload_limit_bytes \<and> bytes \<noteq> [] \<and> if_extension (image_format_from_bytes bytes) \<noteq> ''bin'' \<and>
     complete_plugin_vod_raster_payload bytes (if_extension (image_format_from_bytes bytes)) \<and> safe_remote_image_dimensions bytes"
  by (auto simp: validate_plugin_vod_image_payload_def plugin_vod_image_payload_len_is_allowed_def Let_def)

lemma read_image_chunks_bound:
  "read_image_chunks n bytes chunks = Inr out \<Longrightarrow> length bytes \<le> n \<Longrightarrow> length out \<le> n \<or> usize_max \<le> n"
  by (induction n bytes chunks rule: read_image_chunks.induct) (auto simp: sat_add_def min_def split: if_splits)

lemma fetch_validates:
  assumes "fetch_plugin_vod_remote_image ops proxy send source_url = Inr bytes"
  shows "validate_plugin_vod_image_payload bytes = Inr ()"
  using assms
  by (auto simp: fetch_plugin_vod_remote_image_def split: sum.splits option.splits if_splits)
    (auto simp: map_sum_def split: sum.splits)

lemma payload_short: "validate_plugin_vod_image_payload bytes = Inr u \<Longrightarrow> length bytes \<le> isize_max"
  by (auto simp: validate_payload_iff image_upload_limit_bytes_def isize_max_def)

definition dimensions_bounded :: "nat \<Rightarrow> nat \<Rightarrow> bool" where
  "dimensions_bounded width height \<longleftrightarrow> 1 \<le> width \<and> width \<le> 16384 \<and> 1 \<le> height \<and> height \<le> 16384 \<and> width * height \<le> 100000000"

lemma safe_dimensions_iff: "safe_dimensions (width, height) \<longleftrightarrow> dimensions_bounded width height"
  by (auto simp: safe_dimensions_def dimensions_bounded_def sat_mul_def min_def split: if_splits)

lemma png_dimensions:
  assumes "png_file header before idats after end_chunk"
    "bytes = png_signature @ concat (map encode_png_chunk (header # before @ idats @ after @ [end_chunk]))"
  shows "image_dimensions_from_bytes bytes = Some (u32_be_at (pc_data header) 0, u32_be_at (pc_data header) 4)"
proof -
  from assms(1) have l: "length (pc_data header) = 13" "length (pc_type header) = 4"
    by (simp_all add: png_file_def png_header_ok_def png_frame_def tag_ihdr_def)
  have s: "length png_signature = 8" by (simp add: png_signature_def)
  let ?rest = "pc_checksum header @ concat (map encode_png_chunk (before @ idats @ after @ [end_chunk]))"
  have b: "bytes = (png_signature @ u32_be_bytes 13 @ pc_type header) @ pc_data header @ ?rest"
    by (simp add: assms(2) encode_png_chunk_def l)
  have h: "length (png_signature @ u32_be_bytes 13 @ pc_type header) = 16" by (simp add: s l)
  have nth: "bytes ! (16 + j) = pc_data header ! j" if "j < 13" for j
  proof -
    have "bytes ! (16 + j) = (pc_data header @ ?rest) ! j" unfolding b by (metis h nth_append_length_plus)
    with that l show ?thesis by (simp add: nth_append)
  qed
  have "24 \<le> length bytes" by (simp add: b s l)
  moreover have "has_prefix png_signature bytes" by (simp add: b has_prefix_def)
  moreover have "u32_be_at bytes 16 = u32_be_at (pc_data header) 0" "u32_be_at bytes 20 = u32_be_at (pc_data header) 4"
    using nth [of 0] nth [of 1] nth [of 2] nth [of 3] nth [of 4] nth [of 5] nth [of 6] nth [of 7] by (simp_all add: u32_be_at_def flip: numeral_2_eq_2)
  ultimately show ?thesis by (simp add: image_dimensions_from_bytes_def)
qed

text \<open>
  C16. An image the download returns that has the signature of a PNG is a whole PNG file of at most 32 MiB, and the width
  and height in its header chunk are between 1 and 16384 with at most a hundred million pixels.
\<close>

theorem fetched_png_bounded:
  assumes "fetch_plugin_vod_remote_image ops proxy send source_url = Inr bytes" "has_prefix png_signature bytes"
  shows "\<exists>header before idats after end_chunk.
    bytes = png_signature @ concat (map encode_png_chunk (header # before @ idats @ after @ [end_chunk])) \<and>
    png_file header before idats after end_chunk \<and> length bytes \<le> 33554432 \<and>
    dimensions_bounded (u32_be_at (pc_data header) 0) (u32_be_at (pc_data header) 4)"
proof -
  note v = fetch_validates [OF assms(1)]
  have "if_extension (image_format_from_bytes bytes) = ''png''" using assms(2) by (simp add: image_format_from_bytes_def image_formats_def)
  with v have c: "complete_plugin_vod_png bytes" "safe_remote_image_dimensions bytes" "length bytes \<le> 33554432"
    by (simp_all add: validate_payload_iff complete_plugin_vod_raster_payload_def image_upload_limit_bytes_def)
  from c(1) obtain header before idats after end_chunk where f: "png_file header before idats after end_chunk"
      "bytes = png_signature @ concat (map encode_png_chunk (header # before @ idats @ after @ [end_chunk]))"
    unfolding png_accepted_iff [OF payload_short [OF v]] by blast
  from c(2) have "dimensions_bounded (u32_be_at (pc_data header) 0) (u32_be_at (pc_data header) 4)"
    unfolding safe_remote_image_dimensions_def png_dimensions [OF f] by (simp add: safe_dimensions_iff)
  with f c(3) show ?thesis by blast
qed

text \<open>A segment without fill bytes before its marker is read by the dimension loop as it is.\<close>

lemma jpeg_dimensions_step:
  assumes "drop offset bytes = [0xff, m] @ segment_bytes (Some d) @ rest" "offset \<le> length bytes" "m \<noteq> 0xff" "\<not> standalone_marker m" "m \<noteq> 0xd9"
    "length d + 2 < 65536"
  shows "jpeg_dimensions bytes offset =
    (if is_frame_marker m \<and> 5 \<le> length d then Some (u16_be_at d 3, u16_be_at d 1) else jpeg_dimensions bytes (offset + 4 + length d))"
proof -
  note nth = nth_of_drop [OF assms(1,2)]
  have len: "length bytes = offset + 4 + length d + length rest" using length_of_drop [OF assms(1,2)] by simp
  have b: "bytes ! offset = 0xff" "bytes ! (offset + 1) = m" using nth [of 0] nth [of 1] by simp_all
  have m: "\<not> (m \<in> {0xd8, 0xd9} \<or> 0xd0 \<le> m \<and> m \<le> 0xd7)" using assms(4,5) standalone_restart [OF assms(4)]
    by (auto simp: standalone_marker_def restart_marker_def)
  have d2: "drop (offset + 2) bytes = u16_be_bytes (length d + 2) @ d @ rest"
    using drop_append_shift [OF assms(1)[unfolded append_assoc]] by simp
  have n: "u16_be_at bytes (offset + 2) = length d + 2"
    using u16_be_at_bytes [of "offset + 2" bytes] drop_after [OF d2, of 2] len assms(6) by (auto intro: u16_be_bytes_inj)
  have dn: "bytes ! (offset + (4 + j)) = d ! j" if "j < length d" for j
    using nth [of "4 + j"] that by (simp add: nth_append)
  have at: "u16_be_at bytes (offset + 2 + 5) = u16_be_at d 3" "u16_be_at bytes (offset + 2 + 3) = u16_be_at d 1" if "5 \<le> length d"
    using dn [of 1] dn [of 2] dn [of 3] dn [of 4] that by (simp_all add: u16_be_at_def ac_simps flip: numeral_2_eq_2)
  have conds: "(offset + 4 \<le> length bytes) = True" "((0xff :: 8 word) \<noteq> 0xff) = False" "(length bytes < offset + 2 + 2) = False"
      "(m \<in> {0xd8, 0xd9} \<or> 0xd0 \<le> m \<and> m \<le> 0xd7) = False" "(length d + 2 < 2 \<or> length bytes < offset + 4 + length d) = False"
      "(7 \<le> length d + 2) = (5 \<le> length d)" "offset + 2 + (length d + 2) = offset + 4 + length d"
    using len m by auto
  show ?thesis
    by (subst jpeg_dimensions.simps) (simp only: Let_def b n conds if_True if_False at cong: if_cong conj_cong)
qed

lemma jpeg_dimensions_pieces:
  assumes "jpeg_file (pre @ body) final" "list_all (\<lambda>p. jx_fill p = 0) body"
    "drop offset bytes = concat (map encode_jpeg_piece (body @ [final]))" "offset \<le> length bytes"
    "\<not> list_ex is_frame pre" "\<not> list_ex is_scan pre"
  shows "\<exists>frame\<in>set body. is_frame frame \<and> jpeg_dimensions bytes offset = Some (u16_be_at (the (jx_data frame)) 3, u16_be_at (the (jx_data frame)) 1)"
  using assms
proof (induction body arbitrary: pre offset)
  case Nil
  then show ?case by (simp add: jpeg_file_def)
next
  case (Cons c body)
  have "jpeg_allowed pre c"
    using Cons.prems(1) unfolding jpeg_file_def by (auto dest!: spec [of _ "length pre"])
  then have ok: "jpeg_piece_ok (jpeg_before pre) c" "jx_marker c \<noteq> 0xd9" "is_frame c \<Longrightarrow> frame_ok (the (jx_data c))" "\<not> is_scan c"
    using Cons.prems(5) by (auto simp: jpeg_allowed_def)
  obtain d where d: "jx_data c = Some d" using ok(1,2) by (auto simp: jpeg_piece_ok_def)
  have "\<not> jp_in_scan (jpeg_before pre)" using Cons.prems(6) by (auto simp: jpeg_before_def list_ex_iff)
  then have c: "jx_items c = []" "jx_marker c \<noteq> 0xff" "\<not> standalone_marker (jx_marker c)" "length d + 2 < 65536" "jx_fill c = 0"
    using ok(1) Cons.prems(2) by (auto simp: jpeg_piece_ok_def d)
  have e: "encode_jpeg_piece c = [0xff, jx_marker c] @ segment_bytes (Some d)"
    by (simp only: encode_jpeg_piece_def c(1,5) d marker_bytes_def) simp
  let ?rest = "concat (map encode_jpeg_piece (body @ [final]))"
  have dr: "drop offset bytes = [0xff, jx_marker c] @ segment_bytes (Some d) @ ?rest" using Cons.prems(3) e by simp
  note step = jpeg_dimensions_step [OF dr Cons.prems(4) c(2,3) ok(2) c(4)]
  show ?case
  proof (cases "is_frame c")
    case True
    then have "5 \<le> length d" using ok(3) d by (simp add: frame_ok_def)
    with True step d show ?thesis by (auto simp: is_frame_def)
  next
    case False
    have l: "offset + 4 + length d \<le> length bytes" using length_of_drop [OF dr Cons.prems(4)] by simp
    have "drop (offset + length (encode_jpeg_piece c)) bytes = ?rest" using drop_append_shift [of offset bytes "encode_jpeg_piece c"] dr e by simp
    moreover have "offset + length (encode_jpeg_piece c) = offset + 4 + length d" by (simp add: e)
    ultimately have r: "drop (offset + 4 + length d) bytes = ?rest" by simp
    from Cons.IH [of "pre @ [c]", OF _ _ r l] Cons.prems(1,2,5,6) False ok(4)
    obtain frame where "frame \<in> set body" "is_frame frame"
        "jpeg_dimensions bytes (offset + 4 + length d) = Some (u16_be_at (the (jx_data frame)) 3, u16_be_at (the (jx_data frame)) 1)" by auto
    with step False show ?thesis by (auto simp: is_frame_def)
  qed
qed

lemma jpeg_image_dimensions:
  assumes "jpeg_file body final" "list_all (\<lambda>p. jx_fill p = 0) body" "bytes = [0xff, 0xd8] @ concat (map encode_jpeg_piece (body @ [final]))"
  shows "\<exists>frame\<in>set body. is_frame frame \<and>
    image_dimensions_from_bytes bytes = Some (u16_be_at (the (jx_data frame)) 3, u16_be_at (the (jx_data frame)) 1)"
proof -
  have "drop 2 bytes = concat (map encode_jpeg_piece (body @ [final]))" "2 \<le> length bytes" by (simp_all add: assms(3))
  from jpeg_dimensions_pieces [of "[]", OF _ assms(2) this] assms(1) obtain frame where
    f: "frame \<in> set body" "is_frame frame" "jpeg_dimensions bytes 2 = Some (u16_be_at (the (jx_data frame)) 3, u16_be_at (the (jx_data frame)) 1)"
    by auto
  obtain c cs where b: "body @ [final] = c # cs" by (cases body) auto
  have "jpeg_piece_ok (jpeg_before []) c"
  proof (cases body)
    case Nil
    with b assms(1) show ?thesis by (simp add: jpeg_file_def)
  next
    case (Cons x xs)
    with b assms(1) have "jpeg_allowed [] c" by (auto simp: jpeg_file_def dest!: spec [of _ 0])
    then show ?thesis by (simp add: jpeg_allowed_def)
  qed
  then have "jx_items c = []" by (simp add: jpeg_piece_ok_def jpeg_before_def)
  then have "bytes = 0xff # 0xd8 # 0xff # (replicate (jx_fill c) 0xff @ jx_marker c # segment_bytes (jx_data c)) @ concat (map encode_jpeg_piece cs)"
    unfolding assms(3) b by (simp add: encode_jpeg_piece_def marker_bytes_def)
  then have "has_prefix [0xff, 0xd8, 0xff] bytes" "\<not> has_prefix png_signature bytes" "\<not> gif_magic bytes" "byte_range bytes 0 4 \<noteq> tag_riff"
    by (simp_all add: has_prefix_def png_signature_def gif_magic_def byte_range_def tag_riff_def)
  with f show ?thesis by (auto simp: image_dimensions_from_bytes_def)
qed

text \<open>
  C27. When the download returns a JPEG whose markers have no fill bytes in front of them, the frame it contains is between
  1 and 16384 wide and high, with at most a hundred million pixels, and the file has at most 32 MiB.
\<close>

theorem fetched_jpeg_bounded:
  assumes "fetch_plugin_vod_remote_image ops proxy send source_url = Inr bytes"
    "bytes = [0xff, 0xd8] @ concat (map encode_jpeg_piece (body @ [final]))" "jpeg_file body final" "list_all (\<lambda>p. jx_fill p = 0) body"
  shows "length bytes \<le> 33554432 \<and>
    (\<exists>frame\<in>set body. is_frame frame \<and> dimensions_bounded (u16_be_at (the (jx_data frame)) 3) (u16_be_at (the (jx_data frame)) 1))"
proof -
  note v = fetch_validates [OF assms(1)]
  from jpeg_image_dimensions [OF assms(3,4,2)] obtain frame where
    "frame \<in> set body" "is_frame frame" "image_dimensions_from_bytes bytes = Some (u16_be_at (the (jx_data frame)) 3, u16_be_at (the (jx_data frame)) 1)"
    by blast
  with v show ?thesis
    by (auto simp: validate_payload_iff safe_remote_image_dimensions_def safe_dimensions_iff image_upload_limit_bytes_def)
qed

section \<open>Sample downloads\<close>

definition sample_fetch :: "bytes \<Rightarrow> artwork_error + bytes" where
  "sample_fetch bytes =
     fetch_plugin_vod_remote_image example_url_ops (Some ''http://p'')
       (\<lambda>_ _. Inr \<lparr>ar_status = 200, ar_content_length = None, ar_chunks = [Some bytes]\<rparr>) ''http://h/i''"

lemma sample_fetch_returns: "validate_plugin_vod_image_payload bytes = Inr () \<Longrightarrow> sample_fetch bytes = Inr bytes"
proof -
  assume v: "validate_plugin_vod_image_payload bytes = Inr ()"
  have "validated_remote_media_url example_url_ops ''http://h/i'' = Inr ''http://h/i''"
    by (simp add: validated_remote_media_url_def example_url_ops_def http_scheme_def has_control.simps char_eval)
  moreover from v have "length bytes \<le> image_upload_limit_bytes" by (simp add: validate_payload_iff)
  ultimately show ?thesis
    using v by (auto simp: sample_fetch_def fetch_plugin_vod_remote_image_def read_bounded_remote_image_body_def sat_add_def)
qed

lemma sample_png_valid: "validate_plugin_vod_image_payload sample_png = Inr ()"
proof -
  have "complete_plugin_vod_png sample_png"
    unfolding png_accepted_iff [OF sample_png_short(1)] using sample_png_file sample_png_bytes by blast
  moreover have "image_dimensions_from_bytes sample_png = Some (1, 1)"
    unfolding png_dimensions [OF sample_png_file sample_png_bytes]
    by (simp add: sample_header_def u32_be_at_def u32_be_def u16_be_def)
  moreover have "has_prefix png_signature sample_png" by (simp add: sample_png_def has_prefix_def png_signature_def)
  moreover have "sample_png \<noteq> []" "length sample_png \<le> 33554432" by (simp_all add: sample_png_def)
  ultimately show ?thesis
    by (simp add: validate_payload_iff image_format_from_bytes_def image_formats_def complete_plugin_vod_raster_payload_def
        safe_remote_image_dimensions_def safe_dimensions_iff dimensions_bounded_def image_upload_limit_bytes_def)
qed

lemma fetched_png_bounded_witness:
  "\<exists>header before idats after end_chunk.
    sample_png = png_signature @ concat (map encode_png_chunk (header # before @ idats @ after @ [end_chunk])) \<and>
    png_file header before idats after end_chunk \<and> length sample_png \<le> 33554432 \<and>
    dimensions_bounded (u32_be_at (pc_data header) 0) (u32_be_at (pc_data header) 4)"
proof -
  have "has_prefix png_signature sample_png" by (simp add: sample_png_def has_prefix_def png_signature_def)
  from fetched_png_bounded [OF sample_fetch_returns [OF sample_png_valid, unfolded sample_fetch_def] this] show ?thesis .
qed

lemma jpeg_valid:
  assumes "jpeg_file body final" "bytes = [0xff, 0xd8] @ concat (map encode_jpeg_piece (body @ [final]))"
    "has_prefix [0xff, 0xd8, 0xff] bytes" "image_dimensions_from_bytes bytes = Some (1, 1)" "length bytes \<le> 33554432"
  shows "validate_plugin_vod_image_payload bytes = Inr ()"
proof -
  have "length bytes \<le> isize_max" using assms(5) by (simp add: isize_max_def)
  then have "complete_plugin_vod_jpeg bytes" using assms(1,2) by (subst jpeg_accepted_iff) blast+
  moreover have "\<not> has_prefix png_signature bytes" using assms(3) by (cases bytes) (auto simp: has_prefix_def png_signature_def)
  ultimately show ?thesis
    using assms(2-5) by (simp add: validate_payload_iff image_format_from_bytes_def image_formats_def complete_plugin_vod_raster_payload_def
        safe_remote_image_dimensions_def safe_dimensions_iff dimensions_bounded_def image_upload_limit_bytes_def)
qed

lemma sample_jpeg_bytes: "sample_jpeg = [0xff, 0xd8] @ concat (map encode_jpeg_piece (sample_jpeg_body @ [sample_jpeg_final]))"
  by (simp add: sample_jpeg_def sample_jpeg_body_def sample_jpeg_final_def plain_segment_def encode_jpeg_piece_def marker_bytes_def u16_be_bytes_def)

lemma sample_jpeg_fill: "list_all (\<lambda>p. jx_fill p = 0) sample_jpeg_body"
  by (simp add: sample_jpeg_body_def plain_segment_def)

lemma sample_jpeg_frame: "frame \<in> set sample_jpeg_body \<Longrightarrow> is_frame frame \<Longrightarrow> the (jx_data frame) = [8, 0, 1, 0, 2, 1, 1, 0x11, 0]"
  by (auto simp: sample_jpeg_body_def plain_segment_def is_frame_def is_frame_marker_def)

lemma sample_jpeg_valid: "validate_plugin_vod_image_payload sample_jpeg = Inr ()"
proof -
  from jpeg_image_dimensions [OF sample_jpeg_file sample_jpeg_fill sample_jpeg_bytes]
  have "image_dimensions_from_bytes sample_jpeg = Some (2, 1)"
    by (auto dest!: sample_jpeg_frame simp: u16_be_at_def u16_be_def)
  then have "safe_remote_image_dimensions sample_jpeg"
    by (simp add: safe_remote_image_dimensions_def safe_dimensions_iff dimensions_bounded_def)
  moreover have "complete_plugin_vod_jpeg sample_jpeg"
  proof -
    have "length sample_jpeg \<le> isize_max" by (simp add: sample_jpeg_def isize_max_def)
    then show ?thesis using sample_jpeg_file sample_jpeg_bytes by (subst jpeg_accepted_iff) blast+
  qed
  moreover have "has_prefix [0xff, 0xd8, 0xff] sample_jpeg" "\<not> has_prefix png_signature sample_jpeg"
    by (simp_all add: sample_jpeg_def has_prefix_def png_signature_def)
  ultimately show ?thesis
    by (simp add: validate_payload_iff image_format_from_bytes_def image_formats_def complete_plugin_vod_raster_payload_def
        image_upload_limit_bytes_def sample_jpeg_def)
qed

lemma fetched_jpeg_bounded_witness:
  "\<exists>frame\<in>set sample_jpeg_body. is_frame frame \<and>
    dimensions_bounded (u16_be_at (the (jx_data frame)) 3) (u16_be_at (the (jx_data frame)) 1)"
  using fetched_jpeg_bounded [OF sample_fetch_returns [OF sample_jpeg_valid, unfolded sample_fetch_def] sample_jpeg_bytes sample_jpeg_file
      sample_jpeg_fill] by blast

section \<open>Fill bytes\<close>

text \<open>
  Without the condition on fill bytes the bound fails. The raster test skips fill bytes before a marker, the dimension loop
  takes the second \<open>FF\<close> for a marker and the bytes after it for a length, and so reads its frame somewhere else: here
  from the inside of a comment, while the frame of the file is 65535 wide and high.
\<close>

definition huge_frame :: jpeg_piece where
  "huge_frame = plain_segment 0xc0 [8, 0xff, 0xff, 0xff, 0xff, 1, 1, 0x11, 0]"

definition comment_data :: bytes where
  "comment_data = replicate 480 0 @ [0xff, 0xc0, 0, 11, 8, 0, 1, 0, 1, 1, 1, 0x11, 0]"

definition filled_body :: "jpeg_piece list" where
  "filled_body = [Jpeg_Piece [] 1 0x02 (Some []), huge_frame, plain_segment 0xdb [0, 1], plain_segment 0xc4 [0, 1],
     plain_segment 0xfe comment_data, plain_segment 0xda [1, 1, 0, 0, 63, 0]]"

definition filled_jpeg :: bytes where
  "filled_jpeg = [0xff, 0xd8] @ concat (map encode_jpeg_piece (filled_body @ [sample_jpeg_final]))"

lemma length_comment_data: "length comment_data = 493"
  by (simp add: comment_data_def)

lemma filled_jpeg_file: "jpeg_file filled_body sample_jpeg_final"
proof -
  have t: "table_set kind [a, b, c] \<longleftrightarrow> table_set kind (rev [c, b, a])" "table_set kind [a, b, c, d] \<longleftrightarrow> table_set kind (rev [d, c, b, a])"
    "table_set kind [a, b, c, d, e] \<longleftrightarrow> table_set kind (rev [e, d, c, b, a])" for kind a b c d e by simp_all
  have "jpeg_allowed (take i filled_body) (filled_body ! i)" if "i < length filled_body" for i
  proof -
    from that consider "i = 0" | "i = 1" | "i = 2" | "i = 3" | "i = 4" | "i = 5" unfolding filled_body_def by fastforce
    then show ?thesis
      by cases (simp_all add: filled_body_def huge_frame_def plain_segment_def jpeg_allowed_def jpeg_piece_ok_def jpeg_before_def is_frame_def
          is_frame_marker_def is_scan_def is_quantization_def is_coding_def frame_ok_def scan_ok_def standalone_marker_def length_comment_data
          t table_set_rev del: rev.simps)
  qed
  then show ?thesis
    by (simp add: jpeg_file_def filled_body_def huge_frame_def plain_segment_def jpeg_piece_ok_def jpeg_before_def is_frame_def is_frame_marker_def
        is_scan_def standalone_marker_def sample_jpeg_final_def)
qed

lemma filled_jpeg_split:
  "\<exists>middle rest. filled_jpeg = [0xff, 0xd8, 0xff, 0xff, 0x02, 0] @ middle @ [0xff, 0xc0] @ segment_bytes (Some [8, 0, 1, 0, 1, 1, 1, 0x11, 0]) @ rest \<and>
     length middle = 510"
proof -
  let ?middle = "[2] @ encode_jpeg_piece huge_frame @ encode_jpeg_piece (plain_segment 0xdb [0, 1]) @ encode_jpeg_piece (plain_segment 0xc4 [0, 1]) @
      [0xff, 0xfe] @ u16_be_bytes 495 @ replicate 480 0"
  let ?rest = "encode_jpeg_piece (plain_segment 0xda [1, 1, 0, 0, 63, 0]) @ encode_jpeg_piece sample_jpeg_final"
  have "encode_jpeg_piece (plain_segment 0xfe comment_data) =
      [0xff, 0xfe] @ u16_be_bytes 495 @ replicate 480 0 @ [0xff, 0xc0] @ segment_bytes (Some [8, 0, 1, 0, 1, 1, 1, 0x11, 0])"
    by (simp only: encode_jpeg_piece_def plain_segment_def jpeg_piece.sel segment_bytes.simps length_comment_data comment_data_def)
      (simp add: marker_bytes_def u16_be_bytes_def)
  moreover have "encode_jpeg_piece (Jpeg_Piece [] 1 0x02 (Some [])) = [0xff, 0xff, 0x02, 0, 2]"
    by (simp add: encode_jpeg_piece_def marker_bytes_def u16_be_bytes_def)
  ultimately have "filled_jpeg = [0xff, 0xd8, 0xff, 0xff, 0x02, 0] @ ?middle @ [0xff, 0xc0] @ segment_bytes (Some [8, 0, 1, 0, 1, 1, 1, 0x11, 0]) @ ?rest"
    by (simp only: filled_jpeg_def filled_body_def) simp
  moreover have "length ?middle = 510"
    by (simp add: encode_jpeg_piece_def huge_frame_def plain_segment_def u16_be_bytes_def)
  ultimately show ?thesis by blast
qed

theorem fill_bytes_hide_the_frame:
  "validate_plugin_vod_image_payload filled_jpeg = Inr ()" "huge_frame \<in> set filled_body"
  "the (jx_data huge_frame) = [8, 0xff, 0xff, 0xff, 0xff, 1, 1, 0x11, 0]"
proof -
  obtain middle rest where b: "filled_jpeg = [0xff, 0xd8, 0xff, 0xff, 0x02, 0] @ middle @ [0xff, 0xc0] @ segment_bytes (Some [8, 0, 1, 0, 1, 1, 1, 0x11, 0]) @ rest"
      and m: "length middle = 510" using filled_jpeg_split by blast
  have len: "528 \<le> length filled_jpeg" by (simp add: b m)
  have nth: "filled_jpeg ! 2 = 0xff" "filled_jpeg ! 3 = 0xff" "filled_jpeg ! 4 = 0x02" "filled_jpeg ! 5 = 0" by (simp_all add: b)
  have "jpeg_dimensions filled_jpeg 2 = jpeg_dimensions filled_jpeg 516"
    by (subst jpeg_dimensions.simps) (use nth len in \<open>simp add: Let_def u16_be_at_def u16_be_def is_frame_marker_def\<close>)
  moreover have "drop 516 filled_jpeg = [0xff, 0xc0] @ segment_bytes (Some [8, 0, 1, 0, 1, 1, 1, 0x11, 0]) @ rest" by (simp add: b m)
  from jpeg_dimensions_step [OF this] len have "jpeg_dimensions filled_jpeg 516 = Some (1, 1)"
    by (simp add: standalone_marker_def is_frame_marker_def u16_be_at_def u16_be_def)
  ultimately have d: "jpeg_dimensions filled_jpeg 2 = Some (1, 1)" by simp
  have "has_prefix [0xff, 0xd8, 0xff] filled_jpeg" "\<not> has_prefix png_signature filled_jpeg" "\<not> gif_magic filled_jpeg" "byte_range filled_jpeg 0 4 \<noteq> tag_riff"
    by (simp_all add: b has_prefix_def png_signature_def gif_magic_def byte_range_def tag_riff_def)
  with d have "image_dimensions_from_bytes filled_jpeg = Some (1, 1)" by (simp add: image_dimensions_from_bytes_def)
  moreover have "length filled_jpeg \<le> 33554432"
    by (simp add: filled_jpeg_def filled_body_def encode_jpeg_piece_def huge_frame_def plain_segment_def length_comment_data sample_jpeg_final_def)
  ultimately show "validate_plugin_vod_image_payload filled_jpeg = Inr ()"
    using filled_jpeg_file \<open>has_prefix [0xff, 0xd8, 0xff] filled_jpeg\<close> by (intro jpeg_valid) (simp_all only: filled_jpeg_def)
qed (simp_all add: filled_body_def huge_frame_def plain_segment_def)

end
