(* ===== verification/Spec2Isabelle.thy ===== *)
theory Spec2Isabelle
  imports Prelude Rust_Text Rust_Float Assoc_Map Json Rust_Path Media_Paths Hls_Command Entity_Ids
    Ffmpeg_Progress Disk_Quota Command_Classifier Job_Admission Hls_Layout Process_Control Auth
    Query_Strings Sync_Play_State Sync_Play Playback_Profiles Media_Streams Playback_Decision
    Rust_Result Plugin_Rpc Provider_Secrets Provider_Secret_Store Provider_Secret_Backfill
    Catalog_Cache Canonical_Decimal Migration_Digest Migration_Tables
    Xtream_Address Xtream_Catalog Xtream_Items Xtream_Sync
    Plugin_Archive Plugin_Publication Plugin_Packages
    Raster_Images Raster_Grammar Raster_Blocks Raster_Segments Raster_Artwork
begin

text \<open>
  A verification library for jellyrin, a media server in Rust that speaks the Jellyfin API. The HTTP
  layer (\<open>crates/jellyrin-api\<close>) authenticates a request, decides how an item is delivered to the client,
  and starts FFmpeg when it has to be remuxed or transcoded; \<open>crates/jellyrin-core\<close> holds the data and
  builds the command line, \<open>crates/jellyrin-transcode\<close> admits, runs and supervises the processes and
  their disk space. The library follows one request through these parts.

  Shared theories. \<open>Prelude\<close>: machine bounds, options, bytes, splitting. \<open>Rust_Text\<close>: \<open>str\<close> methods,
  decimal and hexadecimal numbers. \<open>Rust_Float\<close>: an exact model of \<open>f64\<close> division and formatting.
  \<open>Assoc_Map\<close>: \<open>HashMap\<close> and \<open>BTreeMap\<close> behind the locale \<open>keyed_store\<close>, interpreted on both. \<open>Json\<close>:
  \<open>serde_json\<close> values and the field helpers. \<open>Rust_Path\<close>: \<open>std::path\<close>. Strings are the bytes of their
  UTF-8 encoding; \<open>Vec\<close> and \<open>String\<close> are lists; \<open>Result\<close> is a sum whose left side is the error.

  Requests. \<open>Query_Strings\<close>: decoding of query components. \<open>Auth\<close> (\<open>auth.rs\<close>, \<open>auth_handlers.rs\<close>):
  the authorization header, the \<open>require_*\<close> guards, the lockout registry as a step relation.

  Playback. \<open>Playback_Profiles\<close>: the options and device profiles of a playback request, down to the
  codec conditions and their typing. \<open>Media_Streams\<close>: the streams of an item as the API normalises
  and presents them, and the lookups on them. \<open>Playback_Decision\<close>: direct play, remux, transcode or
  refusal, with the stream modes, the output limits and the reasons. A stream sent as it is, or encoded, meets the
  client's codec conditions (\<open>condition_met\<close> is their meaning, apart from the code), an encoded video leaves room for
  the audio in the client's bitrate, and only what the FFmpeg mode allows is started.

  Transcoding. \<open>Hls_Command\<close>: a transcode request and the FFmpeg command built from it.
  \<open>Command_Classifier\<close>: the admission lane a command needs, read from its arguments, never below that of the
  encoder and filter options, which \<open>encoder_option\<close> and \<open>filter_option\<close> list apart from the code.
  \<open>Job_Admission\<close>: the permits of the lanes, of the total and of the wait queue, as a step relation with
  conservation and deadlock freedom; the FFmpeg modes. \<open>Disk_Quota\<close>: reservations, the usage scan and
  its monitor, as a step relation over the critical sections. \<open>Hls_Layout\<close>: session directories,
  playlists, the readiness poll. \<open>Process_Control\<close>: bounded capture, termination of a process group, wait,
  stop and drop. \<open>Ffmpeg_Progress\<close>: the progress stream of FFmpeg's standard error.

  Library and groups. \<open>Media_Paths\<close>: the data model of \<open>jellyrin-core\<close>, episode paths and the order of
  episodes. \<open>Entity_Ids\<close>: stable ids. \<open>Sync_Play\<close> and \<open>Sync_Play_State\<close>: the SyncPlay groups, their
  members, ownership and stale cleanup, and the playback state a command changes; the locale
  \<open>group_sweep\<close> states what leaving, stale cleanup and pings have in common.

  Plugins and provider credentials. \<open>Plugin_Rpc\<close> (\<open>crates/jellyrin-plugin-rpc\<close>): the line protocol to a
  plugin host, whose bounded reader refines a specification on bytes, the calls with their time-out, and
  the termination of the host. \<open>Provider_Secrets\<close>, \<open>Provider_Secret_Store\<close>, \<open>Provider_Secret_Backfill\<close>
  (\<open>provider_secrets.rs\<close>, \<open>postgres_provider_secrets.rs\<close>): the vault that seals credentials, the references and
  redaction of configurations, and the transactions on the table of envelopes: protecting and
  resolving, the back-fill, rotation and the removal of orphans. A transaction is a function to a result
  with new tables, an error being the rollback; the locale \<open>envelope_store\<close> states what rotation needs of a
  store, and the cipher's laws are the hypothesis \<open>crypto_ok\<close>, satisfied by \<open>plain_crypto\<close>. \<open>Rust_Result\<close>
  holds the combinators on \<open>Result\<close> that these theories use.

  The shared cache. \<open>Catalog_Cache\<close> (\<open>catalog_cache.rs\<close>): the fail-open look-up in Redis, the bounded table of
  locks and the requests as a step relation, in which only values computed for a key are served and at most
  one holder of a key's lock computes; the cache keys, with the two requests that share one.

  The migration from SQLite. \<open>Canonical_Decimal\<close>, \<open>Migration_Digest\<close> (\<open>value.rs\<close>): the canonical text of
  numbers, which is exact, and the digest of rows, which tells rows apart and ignores their order.
  \<open>Migration_Tables\<close> (\<open>crates/jellyrin-migrate/src/lib.rs\<close>): the conversion of cells, the copy of a table in
  batches and its check, which refuses a target with an altered row; the preflight of plugin ids and of
  references to provider secrets.

  The Xtream provider (\<open>crates/jellyrin-xtream-provider/src/lib.rs\<close>). \<open>Xtream_Address\<close>: the filter of the
  addresses a provider's host may have, equal to a table of blocks. \<open>Xtream_Catalog\<close>: identifiers, names,
  addresses, and the references stored instead of addresses, which resolve with the tuner's configuration.
  \<open>Xtream_Items\<close>: what is kept of the provider's answers: categories, channels, films, episodes, details and
  the guide; no image address holds credentials and no name adds to a path. \<open>Xtream_Sync\<close>: the staging
  of a catalogue, films by chunks and series whose details arrive in any order (a step relation).

  Plugin packages (\<open>crates/jellyrin-api/src/lib.rs\<close>). \<open>Plugin_Packages\<close>: the catalogue merged from the
  repositories, versions, checksums, directory names and the download. \<open>Plugin_Archive\<close>: the tests on a
  plugin's archive and its extraction, which stays below the staging directory and, when the removals of that directory work, is all or nothing.
  \<open>Plugin_Publication\<close>: the release renamed into place with the previous one kept aside, which no failure
  of a file-system call loses.

  Artwork of plugins (\<open>crates/jellyrin-api/src/lib.rs\<close>). \<open>Raster_Images\<close>: the loops that walk an
  untrusted PNG, JPEG, GIF or WebP file. \<open>Raster_Grammar\<close>, \<open>Raster_Blocks\<close> and \<open>Raster_Segments\<close>: a reference
  grammar of each format, and the locale \<open>piece_loop\<close>, interpreted for the four loops, by which a file is accepted
  exactly when it is a sequence of pieces of its grammar with nothing after it. \<open>Raster_Artwork\<close>: the format,
  the declared dimensions, the tests on a payload and the download, whose result has bounded dimensions; for a
  JPEG that needs markers without fill bytes, and a file with one shows that the condition is necessary. Files have
  at most \<open>isize::MAX\<close> bytes, as every slice has.

  Parameters and bounds. Semaphores, processes, clocks, file-system answers, database rows and the
  text of floating-point JSON numbers are parameters or inputs, with the documented laws used as
  named hypotheses or locale assumptions. Loops that poll take their deadline from the code; the poll of
  \<open>Hls_Layout\<close> and the termination of a process group are recursive on the time left and proved
  to end. Integers keep the bounds of their Rust types where the code checks, saturates or wraps them.

  Not modelled: SQL and its rows, HTTP sockets and streaming bodies, DLNA and SSDP, the
  metadata providers' HTTP clients and those of the Xtream provider (with DNS and retries), the plugin host executables, the SQL text and schema checks of the
  migration.
\<close>

end
